(* ===== verification/Warren_Prelude.thy ===== *)
theory Warren_Prelude
  imports Main "HOL-Library.Word"
begin

unbundle bit_operations_syntax

text \<open>
  The vocabulary every component shares.

  \<^item> \<open>byte\<close> is one element of a \<^verbatim>\<open>Uint8Array\<close> or \<^verbatim>\<open>Buffer\<close>, an 8-bit word; \<open>bytes\<close> is the array.
  \<^item> A function of the source that may throw returns \<open>'e + 'a\<close>: \<open>Inl\<close> is the thrown error,
    \<open>Inr\<close> the returned value. \<open>bindR\<close> is the sequencing of two such calls.
  \<^item> A JavaScript string is the list of its UTF-8 bytes (\<open>string\<close>), so \<^verbatim>\<open>utf8ToBytes\<close> is the
    identity up to the type of a byte; \<open>toLowerCase\<close> acts on the ASCII letters.
  \<^item> \<open>js_Number\<close> is the conversion \<^verbatim>\<open>Number(n)\<close> of a non-negative \<^verbatim>\<open>bigint\<close>: the nearest double,
    ties to even.
\<close>

section \<open>Collections of facts\<close>

named_theorems codec_simps \<open>length and append laws of the byte codecs\<close>

named_theorems result_simps \<open>evaluation of sequenced calls\<close>

section \<open>Types\<close>

type_synonym byte = "8 word"

type_synonym bytes = "byte list"

lemma byte_lt_256: "unat (b :: byte) < 256"
proof -
  have "unat b < 2 ^ LENGTH(8)" by (rule unsigned_less)
  then show ?thesis by simp
qed

lemma byte_uint: "0 \<le> uint (b :: byte)" "uint b < 256"
proof -
  have "uint b < 2 ^ LENGTH(8)" by (rule unsigned_less)
  then show "uint b < 256" by simp
qed simp

section \<open>Calls that may throw\<close>

definition bindR :: "'e + 'a \<Rightarrow> ('a \<Rightarrow> 'e + 'b) \<Rightarrow> 'e + 'b" where
  "bindR m f = (case m of Inl e \<Rightarrow> Inl e | Inr x \<Rightarrow> f x)"

definition guardR :: "bool \<Rightarrow> 'e \<Rightarrow> 'e + unit" where
  "guardR ok e = (if ok then Inr () else Inl e)"

primrec mapR :: "('a \<Rightarrow> 'e + 'b) \<Rightarrow> 'a list \<Rightarrow> 'e + 'b list" where
  "mapR f [] = Inr []"
| "mapR f (x # xs) = bindR (f x) (\<lambda>y. bindR (mapR f xs) (\<lambda>ys. Inr (y # ys)))"

lemma bindR_Inl [simp, result_simps]: "bindR (Inl e) f = Inl e"
  by (simp add: bindR_def)

lemma bindR_Inr [simp, result_simps]: "bindR (Inr x) f = f x"
  by (simp add: bindR_def)

lemma bindR_eq_Inr_conv [result_simps]:
  "bindR m f = Inr y \<longleftrightarrow> (\<exists>x. m = Inr x \<and> f x = Inr y)"
  by (cases m) simp_all

lemma bindR_eq_Inl_conv [result_simps]:
  "bindR m f = Inl e \<longleftrightarrow> m = Inl e \<or> (\<exists>x. m = Inr x \<and> f x = Inl e)"
  by (cases m) auto

lemma guardR_simps [simp, result_simps]: "guardR True e = Inr ()" "guardR False e = Inl e"
  by (simp_all add: guardR_def)

lemma guardR_eq_Inr_conv [simp, result_simps]: "guardR ok e = Inr u \<longleftrightarrow> ok"
  by (simp add: guardR_def)

lemma guardR_eq_Inl_conv [simp, result_simps]: "guardR ok e = Inl e' \<longleftrightarrow> \<not> ok \<and> e' = e"
  by (auto simp: guardR_def)

lemma bindR_guardR [simp]: "bindR (guardR ok e) f = (if ok then f () else Inl e)"
  by (simp add: guardR_def)

text \<open>\<^verbatim>\<open>xs.map(f)\<close> with a throwing \<^verbatim>\<open>f\<close> returns exactly when \<^verbatim>\<open>f\<close> returns on every element.\<close>

lemma mapR_eq_Inr_conv:
  "mapR f xs = Inr ys \<longleftrightarrow> list_all2 (\<lambda>x y. f x = Inr y) xs ys"
  by (induction xs arbitrary: ys) (auto simp: bindR_eq_Inr_conv list_all2_Cons1)

lemma mapR_length: "mapR f xs = Inr ys \<Longrightarrow> length ys = length xs"
  by (auto simp: mapR_eq_Inr_conv dest: list_all2_lengthD)

section \<open>Numbers\<close>

text \<open>\<^verbatim>\<open>Number.MAX_SAFE_INTEGER\<close> is \<open>2 ^ 53 - 1\<close>.\<close>

definition isSafeInteger :: "int \<Rightarrow> bool" where
  "isSafeInteger n \<longleftrightarrow> \<bar>n\<bar> \<le> 2 ^ 53 - 1"

fun bitLength :: "nat \<Rightarrow> nat" where
  "bitLength n = (if n = 0 then 0 else Suc (bitLength (n div 2)))"

declare bitLength.simps [simp del]

definition js_Number :: "nat \<Rightarrow> nat" where
  "js_Number n =
     (if n < 2 ^ 53 then n
      else let e = bitLength n - 53; q = n div 2 ^ e; r = n mod 2 ^ e; half = 2 ^ (e - 1)
           in (if r > half \<or> (r = half \<and> odd q) then Suc q else q) * 2 ^ e)"

lemma js_Number_exact: "n < 2 ^ 53 \<Longrightarrow> js_Number n = n"
  by (simp add: js_Number_def)

lemma bitLength_gt: "n < 2 ^ bitLength n"
proof (induction n rule: bitLength.induct)
  case (1 n)
  show ?case
  proof (cases "n = 0")
    case True
    then show ?thesis by simp
  next
    case False
    then have "n div 2 < 2 ^ bitLength (n div 2)" by (rule "1.IH")
    then have "n < 2 * 2 ^ bitLength (n div 2)" by arith
    with False show ?thesis by (simp add: bitLength.simps [of n])
  qed
qed

text \<open>A conversion that stays below \<open>2 ^ 53\<close> was exact.\<close>

lemma bitLength_le: "0 < n \<Longrightarrow> 2 ^ (bitLength n - 1) \<le> n"
proof (induction n rule: bitLength.induct)
  case (1 n)
  show ?case
  proof (cases "n div 2 = 0")
    case True
    with "1.prems" have "n = 1" by (simp add: div_eq_0_iff)
    then show ?thesis by (simp add: bitLength.simps [of "Suc 0"] bitLength.simps [of 0])
  next
    case False
    with "1.prems" have "2 ^ (bitLength (n div 2) - 1) \<le> n div 2" by (intro "1.IH") simp_all
    moreover obtain k where "bitLength (n div 2) = Suc k"
      using False by (simp add: bitLength.simps [of "n div 2"])
    ultimately show ?thesis using "1.prems" by (simp add: bitLength.simps [of n])
  qed
qed

lemma js_Number_small: "js_Number n < 2 ^ 53 \<Longrightarrow> js_Number n = n"
proof (rule ccontr)
  assume lt: "js_Number n < 2 ^ 53" and ne: "js_Number n \<noteq> n"
  from ne have big: "2 ^ 53 \<le> n" by (metis js_Number_exact not_le)
  let ?e = "bitLength n - 53"
  have "2 ^ 53 < (2 :: nat) ^ bitLength n" using big bitLength_gt [of n] by simp
  then have "53 < bitLength n" by (rule power_less_imp_less_exp [rotated]) simp
  then have split: "bitLength n - 1 = 52 + ?e" "0 < ?e" by simp_all
  have "2 ^ (bitLength n - 1) \<le> n" using big by (intro bitLength_le) simp
  then have "(2 :: nat) ^ 52 * 2 ^ ?e \<le> n" by (simp only: split(1) power_add)
  then have "2 ^ 52 \<le> n div 2 ^ ?e" by (simp only: less_eq_div_iff_mult_less_eq zero_less_power zero_less_numeral)
  then have "2 ^ 52 * 2 ^ ?e \<le> js_Number n"
    using big by (auto simp: js_Number_def Let_def simp del: power_numeral_reduce intro: mult_le_mono)
  moreover have "(2 :: nat) ^ 53 \<le> 2 ^ 52 * 2 ^ ?e"
  proof -
    have "(2 :: nat) ^ 1 \<le> 2 ^ ?e" using split(2) by (intro power_increasing) simp_all
    then show ?thesis by simp
  qed
  ultimately show False using lt by linarith
qed

section \<open>Strings\<close>

lemma unat_of_char: "unat (of_char c :: byte) = of_char c"
proof -
  have "(of_char c :: byte) = word_of_nat (of_char c)" by (simp add: of_nat_of_char)
  moreover have "(of_char c :: nat) < 256" by simp
  ultimately show ?thesis by (simp add: unat_of_nat)
qed

definition lower_char :: "char \<Rightarrow> char" where
  "lower_char c =
     (let n = of_char c :: nat
      in if 65 \<le> n \<and> n \<le> 90 then char_of (n + 32) else c)"

definition toLowerCase :: "string \<Rightarrow> string" where
  "toLowerCase s = map lower_char s"

lemma toLowerCase_append: "toLowerCase (s @ t) = toLowerCase s @ toLowerCase t"
  by (simp add: toLowerCase_def)

lemma length_toLowerCase [simp]: "length (toLowerCase s) = length s"
  by (simp add: toLowerCase_def)

lemma lower_char_idem: "lower_char (lower_char c) = lower_char c"
proof (cases "65 \<le> (of_char c :: nat) \<and> (of_char c :: nat) \<le> 90")
  case True
  then have "lower_char c = char_of ((of_char c :: nat) + 32)"
    by (simp add: lower_char_def)
  moreover have "(of_char (char_of ((of_char c :: nat) + 32) :: char) :: nat) = of_char c + 32"
    using True by simp
  ultimately show ?thesis using True by (simp add: lower_char_def)
next
  case False
  then have "lower_char c = c" by (auto simp: lower_char_def Let_def)
  then show ?thesis by simp
qed

lemma toLowerCase_idem [simp]: "toLowerCase (toLowerCase s) = toLowerCase s"
  by (simp add: toLowerCase_def lower_char_idem)

section \<open>Decimal numerals\<close>

definition digit_char :: "nat \<Rightarrow> char" where
  "digit_char d = char_of (48 + d)"

definition char_digit :: "char \<Rightarrow> nat" where
  "char_digit c = of_char c - 48"

definition is_digit :: "char \<Rightarrow> bool" where
  "is_digit c \<longleftrightarrow> 48 \<le> (of_char c :: nat) \<and> (of_char c :: nat) \<le> 57"

fun show_nat :: "nat \<Rightarrow> string" where
  "show_nat n = (if n < 10 then [digit_char n] else show_nat (n div 10) @ [digit_char (n mod 10)])"

declare show_nat.simps [simp del]

definition show_int :: "int \<Rightarrow> string" where
  "show_int i = (if i < 0 then CHR ''-'' # show_nat (nat (- i)) else show_nat (nat i))"

definition read_nat :: "string \<Rightarrow> nat" where
  "read_nat s = foldl (\<lambda>v c. 10 * v + char_digit c) 0 s"

lemma of_char_digit [simp]: "d < 10 \<Longrightarrow> of_char (digit_char d) = (48 + d :: nat)"
  by (simp add: digit_char_def)

lemma char_digit_char [simp]: "d < 10 \<Longrightarrow> char_digit (digit_char d) = d"
  by (simp add: char_digit_def)

lemma is_digit_char [simp]: "d < 10 \<Longrightarrow> is_digit (digit_char d)"
  by (simp add: is_digit_def)

lemma read_show_nat [simp]: "read_nat (show_nat n) = n"
  by (induction n rule: show_nat.induct) (subst show_nat.simps, auto simp: read_nat_def)

lemma show_nat_inj [simp]: "show_nat m = show_nat n \<longleftrightarrow> m = n"
  by (metis read_show_nat)

lemma show_nat_digits: "list_all is_digit (show_nat n)"
  by (induction n rule: show_nat.induct) (subst show_nat.simps, auto)

lemma show_nat_not_Nil [simp]: "show_nat n \<noteq> []"
  by (subst show_nat.simps) simp

text \<open>\<^verbatim>\<open>xs.join(sep)\<close>.\<close>

fun join :: "string \<Rightarrow> string list \<Rightarrow> string" where
  "join sep [] = []"
| "join sep [x] = x"
| "join sep (x # y # ys) = x @ sep @ join sep (y # ys)"

text \<open>
  A string cut at a separator: when neither left part contains the separator, equal joined strings have
  equal parts.
\<close>

lemma append_sep_inj:
  assumes "x @ sep # u = y @ sep # v" and "sep \<notin> set x" and "sep \<notin> set y"
  shows "x = y \<and> u = v"
  using assms
proof (induction x arbitrary: y)
  case Nil
  then show ?case by (cases y) auto
next
  case (Cons c x)
  then show ?case by (cases y) auto
qed

lemma join_inj:
  assumes "join [sep] xs = join [sep] ys" and "length xs = length ys"
    and "\<forall>x \<in> set xs. sep \<notin> set x" and "\<forall>y \<in> set ys. sep \<notin> set y"
  shows "xs = ys"
  using assms(2,1,3,4)
proof (induction xs ys rule: list_induct2)
  case Nil
  then show ?case by simp
next
  case (Cons x xs y ys)
  show ?case
  proof (cases xs)
    case Nil
    with Cons show ?thesis by simp
  next
    case (Cons x' xs')
    moreover obtain y' ys' where ys: "ys = y' # ys'"
      using Cons \<open>length xs = length ys\<close> by (cases ys) auto
    ultimately have "x @ sep # join [sep] xs = y @ sep # join [sep] ys"
      using Cons.prems by simp
    moreover have "sep \<notin> set x" "sep \<notin> set y" using Cons.prems by simp_all
    ultimately have "x = y \<and> join [sep] xs = join [sep] ys" by (rule append_sep_inj)
    with Cons.IH Cons.prems show ?thesis by simp
  qed
qed

end
