(* ===== verification/Varint.thy ===== *)
theory Varint
  imports Warren_Prelude
begin

text \<open>
  \<^verbatim>\<open>packages/core/src/edge/varint.ts\<close>: the postcard variable-length integer (unsigned LEB128) that
  every \<^verbatim>\<open>u32\<close>, \<^verbatim>\<open>u64\<close> and length of a Warren frame is written in.
\<close>

datatype leb128_error = NegativeInteger | ExceedsWidth | TruncatedInteger

section \<open>Encoding\<close>

text \<open>The \<^verbatim>\<open>for (;;)\<close> loop: seven bits at a time, low group first, continuation bit on all but the last.\<close>

function leb128_groups :: "nat \<Rightarrow> bytes" where
  "leb128_groups v =
     (if drop_bit 7 v = 0 then [word_of_nat (take_bit 7 v)]
      else (word_of_nat (take_bit 7 v) OR 0x80) # leb128_groups (drop_bit 7 v))"
  by pat_completeness auto
termination
  by (relation "measure id") (auto simp: drop_bit_eq_div)

declare leb128_groups.simps [simp del]

definition encodeLeb128 :: "int \<Rightarrow> leb128_error + bytes" where
  "encodeLeb128 value = (if value < 0 then Inl NegativeInteger else Inr (leb128_groups (nat value)))"

section \<open>Decoding\<close>

record leb128_decoded =
  leb_value :: nat
  leb_length :: nat

fun leb128_loop :: "nat \<Rightarrow> nat \<Rightarrow> nat \<Rightarrow> bytes \<Rightarrow> leb128_error + leb128_decoded" where
  "leb128_loop val shift len [] = Inl TruncatedInteger"
| "leb128_loop val shift len (b # bs) =
     (let val' = val OR push_bit shift (unat (b AND 0x7f)); len' = len + 1
      in if b AND 0x80 = 0 then Inr \<lparr>leb_value = val', leb_length = len'\<rparr>
         else if shift + 7 \<ge> 70 then Inl ExceedsWidth
         else leb128_loop val' (shift + 7) len' bs)"

definition decodeLeb128 :: "bytes \<Rightarrow> leb128_error + leb128_decoded" where
  "decodeLeb128 input = leb128_loop 0 0 0 input"

section \<open>Bits of a byte\<close>

lemma unat_and_7f: "unat ((b :: byte) AND 0x7f) = unat b mod 128"
proof -
  have "(0x7f :: byte) = mask 7" by (simp add: mask_eq_exp_minus_1)
  then have "b AND 0x7f = take_bit 7 b" by (simp add: take_bit_eq_mask)
  moreover have "unat (take_bit 7 b) = take_bit 7 (unat b)" by (rule unsigned_take_bit_eq)
  ultimately show ?thesis by (simp only: take_bit_eq_mod) simp
qed

lemma and_80_eq_0: "(b :: byte) AND 0x80 = 0 \<longleftrightarrow> unat b < 128"
proof -
  have "b AND 0x80 = 0 \<longleftrightarrow> \<not> bit b 7"
    using and_exp_eq_0_iff_not_bit [of b 7] by simp
  also have "\<dots> \<longleftrightarrow> even (unat b div 128)"
  proof -
    have "bit b 7 \<longleftrightarrow> bit (unat b) 7" by (simp add: bit_unsigned_iff)
    then show ?thesis by (simp add: bit_iff_odd)
  qed
  also have "\<dots> \<longleftrightarrow> unat b < 128"
  proof -
    have "unat b < 256" using byte_lt_256 [of b] by simp
    then have "unat b div 128 = 0 \<or> unat b div 128 = 1" by linarith
    then show ?thesis by (auto simp: div_eq_0_iff)
  qed
  finally show ?thesis .
qed

lemma unat_or_80: "unat (b :: byte) < 128 \<Longrightarrow> unat (b OR 0x80) = unat b + 128"
proof -
  assume "unat b < 128"
  then have "b AND 0x80 = 0" by (simp add: and_80_eq_0)
  then have "b OR 0x80 = b + 0x80" by (simp add: disjunctive_add_eq_or)
  moreover have "unat (b + 0x80) = unat b + 128"
    using \<open>unat b < 128\<close> by (simp add: unat_word_ariths)
  ultimately show ?thesis by simp
qed

lemma unat_group: "unat (word_of_nat (take_bit 7 v) :: byte) = v mod 128"
proof -
  have "v mod 128 < 256" by (rule less_trans [of _ 128]) simp_all
  then show ?thesis by (simp add: take_bit_eq_mod unat_of_nat)
qed

lemma or_push_bit_add: "a < 2 ^ s \<Longrightarrow> a OR push_bit s x = a + x * 2 ^ s" for a x :: nat
proof -
  assume a: "a < 2 ^ s"
  have "a AND push_bit s x = 0"
  proof (rule bit_eqI)
    fix n
    have "\<not> bit a n" if "s \<le> n"
      using a that by (metis bit_take_bit_iff linorder_not_less take_bit_nat_eq_self)
    then show "bit (a AND push_bit s x) n = bit 0 n"
      by (auto simp: bit_simps)
  qed
  then show ?thesis
    by (simp add: disjunctive_add_eq_or [symmetric] push_bit_eq_mult)
qed

section \<open>Round trip\<close>

lemma leb128_loop_groups:
  assumes "val < 2 ^ s" and "v * 2 ^ s < 2 ^ 70" and "7 dvd s"
  shows "leb128_loop val s len (leb128_groups v @ rest) =
    Inr \<lparr>leb_value = val + v * 2 ^ s, leb_length = len + length (leb128_groups v)\<rparr>"
  using assms
proof (induction v arbitrary: val s len rule: leb128_groups.induct)
  case (1 v)
  show ?case
  proof (cases "drop_bit 7 v = 0")
    case True
    then have "v < 128" by (simp add: drop_bit_eq_div div_eq_0_iff)
    with True "1.prems"(1) show ?thesis
      by (simp add: leb128_groups.simps [of v] Let_def unat_and_7f and_80_eq_0 unat_group
          or_push_bit_add)
  next
    case False
    then have ge: "128 \<le> v" by (simp add: drop_bit_eq_div div_eq_0_iff)
    let ?b = "word_of_nat (take_bit 7 v) OR (0x80 :: byte)"
    have b: "unat ?b = v mod 128 + 128" by (simp add: unat_or_80 unat_group)
    have "s < 63"
    proof (rule ccontr)
      assume "\<not> s < 63"
      then have "(2 :: nat) ^ 63 \<le> 2 ^ s" by (intro power_increasing) simp_all
      with ge have "128 * 2 ^ 63 \<le> v * 2 ^ s" by (rule mult_le_mono)
      with "1.prems"(2) show False by simp
    qed
    have step: "val + v mod 128 * 2 ^ s < 2 ^ (s + 7)"
    proof -
      have "v mod 128 * 2 ^ s \<le> 127 * 2 ^ s" by (intro mult_le_mono1) (simp add: less_Suc_eq_le [symmetric])
      moreover have "(2 :: nat) ^ (s + 7) = 128 * 2 ^ s" by (simp add: power_add)
      ultimately show ?thesis using "1.prems"(1) by linarith
    qed
    have "drop_bit 7 v * 2 ^ (s + 7) < 2 ^ 70"
    proof -
      have "drop_bit 7 v * 2 ^ (s + 7) = (v div 128 * 128) * 2 ^ s"
        by (simp add: drop_bit_eq_div power_add)
      also have "\<dots> \<le> v * 2 ^ s" by (intro mult_le_mono1) simp
      finally show ?thesis using "1.prems"(2) by simp
    qed
    moreover have "7 dvd s + 7" using "1.prems"(3) by simp
    ultimately have IH: "leb128_loop (val + v mod 128 * 2 ^ s) (s + 7) (len + 1)
        (leb128_groups (drop_bit 7 v) @ rest) =
        Inr \<lparr>leb_value = val + v mod 128 * 2 ^ s + drop_bit 7 v * 2 ^ (s + 7),
          leb_length = len + 1 + length (leb128_groups (drop_bit 7 v))\<rparr>"
      using "1.IH" [OF False step] by simp
    have total: "val + v mod 128 * 2 ^ s + drop_bit 7 v * 2 ^ (s + 7) = val + v * 2 ^ s"
    proof -
      have "drop_bit 7 v * 2 ^ (s + 7) = v div 128 * 128 * 2 ^ s"
        by (simp add: drop_bit_eq_div power_add)
      then have "v mod 128 * 2 ^ s + drop_bit 7 v * 2 ^ (s + 7) = (v mod 128 + v div 128 * 128) * 2 ^ s"
        by (simp only: add_mult_distrib)
      then show ?thesis by (simp only: add.assoc mod_div_mult_eq)
    qed
    from False \<open>s < 63\<close> IH total "1.prems"(1) show ?thesis
      by (simp add: leb128_groups.simps [of v] Let_def unat_and_7f and_80_eq_0 b or_push_bit_add)
  qed
qed

lemma decodeLeb128_groups:
  assumes "v < 2 ^ 70"
  shows "decodeLeb128 (leb128_groups v @ rest) =
    Inr \<lparr>leb_value = v, leb_length = length (leb128_groups v)\<rparr>"
  using leb128_loop_groups [of 0 0 v 0 rest] assms by (simp add: decodeLeb128_def)

lemma length_leb128_groups_pos: "0 < length (leb128_groups v)"
  by (subst leb128_groups.simps) simp

lemma length_leb128_groups: "v < 2 ^ (7 * k) \<Longrightarrow> 0 < k \<Longrightarrow> length (leb128_groups v) \<le> k"
proof (induction k arbitrary: v)
  case 0
  then show ?case by simp
next
  case (Suc k)
  show ?case
  proof (cases "drop_bit 7 v = 0")
    case True
    then show ?thesis by (simp add: leb128_groups.simps [of v])
  next
    case False
    have "drop_bit 7 v < 2 ^ (7 * k)"
      using Suc.prems(1) by (simp add: drop_bit_eq_div power_add less_mult_imp_div_less mult.commute)
    moreover have "0 < k"
      using False Suc.prems(1) by (cases k) (simp_all add: drop_bit_eq_div)
    ultimately have "length (leb128_groups (drop_bit 7 v)) \<le> k" by (rule Suc.IH)
    with False show ?thesis by (simp add: leb128_groups.simps [of v])
  qed
qed

section \<open>What a decoded integer is\<close>

text \<open>
  \<open>leb128_loop_sound\<close> is the converse of the round trip: a decoded integer lies below \<open>2 ^ 70\<close>, took
  between one and ten bytes of the input, and, when its last byte is not a padding zero, those bytes
  are the encoding of the value.
\<close>

lemma dvd_7_below_70: "s < 70 \<Longrightarrow> 7 dvd s \<Longrightarrow> s \<le> 63" for s :: nat
  by (elim dvdE) simp

lemma or_80_high: "128 \<le> unat (b :: byte) \<Longrightarrow> word_of_nat (unat b mod 128) OR 0x80 = b"
proof -
  assume ge: "128 \<le> unat b"
  let ?w = "word_of_nat (unat b mod 128) :: byte"
  have w: "unat ?w = unat b mod 128" by (simp add: unat_of_nat)
  then have "unat (?w OR 0x80) = unat b mod 128 + 128" by (simp add: unat_or_80)
  also have "\<dots> = unat b"
  proof -
    have "unat b - 128 < 128" using byte_lt_256 [of b] by simp
    then have "unat b mod 128 = unat b - 128" using ge by (simp add: le_mod_geq)
    then show ?thesis using ge by simp
  qed
  finally show ?thesis by (simp add: word_unat_eq_iff)
qed

lemma leb128_loop_sound:
  assumes "leb128_loop val s len bs = Inr d" and "val < 2 ^ s" and "s < 70" and "7 dvd s"
  shows "\<exists>v n. d = \<lparr>leb_value = val + v * 2 ^ s, leb_length = len + n\<rparr> \<and> v * 2 ^ s < 2 ^ 70 \<and>
    1 \<le> n \<and> n \<le> length bs \<and> 7 * n + s \<le> 70 \<and>
    ((n = 1 \<or> bs ! (n - 1) \<noteq> 0) \<longrightarrow> take n bs = leb128_groups v)"
  using assms
proof (induction val s len bs rule: leb128_loop.induct)
  case (1 val s len)
  then show ?case by simp
next
  case (2 val s len b bs)
  show ?case
  proof (cases "unat b < 128")
    case True
    have "unat b * 2 ^ s < 2 ^ 70"
    proof -
      from "2.prems"(3,4) have "s \<le> 63" by (rule dvd_7_below_70)
      then have "(2 :: nat) ^ s \<le> 2 ^ 63" by (intro power_increasing) simp_all
      with True have "unat b * 2 ^ s \<le> 127 * 2 ^ 63" by (intro mult_le_mono) simp_all
      then show ?thesis by simp
    qed
    moreover have "leb128_groups (unat b) = [b]"
      using True by (simp add: leb128_groups.simps drop_bit_eq_div take_bit_eq_mod)
    moreover have "s + 7 \<le> 70" using dvd_7_below_70 [OF "2.prems"(3,4)] by simp
    moreover have "d = \<lparr>leb_value = val + unat b * 2 ^ s, leb_length = len + 1\<rparr>"
      using "2.prems"(1,2) True by (simp add: Let_def and_80_eq_0 unat_and_7f or_push_bit_add)
    ultimately show ?thesis by (intro exI [of _ "unat b"] exI [of _ 1]) simp
  next
    case False
    let ?lo = "unat b mod 128"
    let ?val = "val + ?lo * 2 ^ s"
    have val: "val OR push_bit s (unat (b AND 0x7f)) = ?val"
      using "2.prems"(2) by (simp add: unat_and_7f or_push_bit_add)
    have s7: "\<not> s + 7 \<ge> 70"
      using "2.prems"(1) False by (auto simp: Let_def and_80_eq_0 split: if_splits)
    have loop: "leb128_loop ?val (s + 7) (len + 1) bs = Inr d"
      using "2.prems"(1) False s7 by (simp add: Let_def and_80_eq_0 val)
    have lt: "?val < 2 ^ (s + 7)"
    proof -
      have "?lo * 2 ^ s \<le> 127 * 2 ^ s" by (intro mult_le_mono1) (simp add: less_Suc_eq_le [symmetric])
      moreover have "(2 :: nat) ^ (s + 7) = 128 * 2 ^ s" by (simp add: power_add)
      ultimately show ?thesis using "2.prems"(2) by linarith
    qed
    have "\<exists>v n. d = \<lparr>leb_value = ?val + v * 2 ^ (s + 7), leb_length = (len + 1) + n\<rparr> \<and>
        v * 2 ^ (s + 7) < 2 ^ 70 \<and> 1 \<le> n \<and> n \<le> length bs \<and> 7 * n + (s + 7) \<le> 70 \<and>
        ((n = 1 \<or> bs ! (n - 1) \<noteq> 0) \<longrightarrow> take n bs = leb128_groups v)"
      using "2.IH" [OF refl refl] loop lt s7 "2.prems"(4) False val
      by (simp add: and_80_eq_0 del: leb128_loop.simps)
    then obtain v n where d: "d = \<lparr>leb_value = ?val + v * 2 ^ (s + 7), leb_length = (len + 1) + n\<rparr>"
      and v: "v * 2 ^ (s + 7) < 2 ^ 70" and n: "1 \<le> n" "n \<le> length bs" "7 * n + (s + 7) \<le> 70"
      and canon: "(n = 1 \<or> bs ! (n - 1) \<noteq> 0) \<longrightarrow> take n bs = leb128_groups v"
      by blast
    let ?v = "?lo + 128 * v"
    have pow: "(2 :: nat) ^ (s + 7) = 128 * 2 ^ s" by (simp add: power_add)
    have value_eq: "?val + v * 2 ^ (s + 7) = val + ?v * 2 ^ s"
      by (simp only: pow) (simp add: add_mult_distrib)
    have "?v * 2 ^ s < 2 ^ 70"
    proof -
      have "?v < 128 * (v + 1)" by simp
      have "s + 7 \<le> 70" using n(3) by simp
      then have p70: "(2 :: nat) ^ 70 = 2 ^ (s + 7) * 2 ^ (63 - s)" by (simp only: power_add [symmetric]) simp
      have "2 ^ (s + 7) * v < 2 ^ (s + 7) * (2 :: nat) ^ (63 - s)"
        using v by (simp only: p70 mult.commute [of v])
      then have "v < 2 ^ (63 - s)" by (simp only: mult_less_cancel1)
      then have "v + 1 \<le> 2 ^ (63 - s)" by simp
      have "?v * 2 ^ s < 128 * (v + 1) * 2 ^ s" by (intro mult_less_mono1) simp_all
      also have "\<dots> = (v + 1) * 2 ^ (s + 7)" by (simp only: pow mult.assoc mult.left_commute mult.commute)
      also have "\<dots> \<le> 2 ^ (63 - s) * 2 ^ (s + 7)" using \<open>v + 1 \<le> 2 ^ (63 - s)\<close> by (rule mult_le_mono1)
      also have "\<dots> = 2 ^ 70" using \<open>s + 7 \<le> 70\<close> by (simp only: power_add [symmetric]) simp
      finally show ?thesis .
    qed
    moreover have "take (Suc n) (b # bs) = leb128_groups ?v"
      if nz: "Suc n = 1 \<or> (b # bs) ! (Suc n - 1) \<noteq> 0"
    proof -
      from nz n(1) have last: "bs ! (n - 1) \<noteq> 0" by (cases n) simp_all
      with canon have tk: "take n bs = leb128_groups v" by simp
      have "v \<noteq> 0"
      proof
        assume "v = 0"
        with tk have "take n bs = [0]" by (simp add: leb128_groups.simps)
        with n(2) have "n = 1" by (metis One_nat_def length_Cons length_take list.size(3) min.absorb2)
        with \<open>take n bs = [0]\<close> n(2) have "bs ! 0 = 0" by (cases bs) simp_all
        with last \<open>n = 1\<close> show False by simp
      qed
      have "drop_bit 7 ?v = v" "take_bit 7 ?v = ?lo"
        by (simp_all add: drop_bit_eq_div take_bit_eq_mod)
      with \<open>v \<noteq> 0\<close> tk False show ?thesis
        by (simp add: leb128_groups.simps [of ?v] or_80_high)
    qed
    ultimately show ?thesis
      using d n value_eq by (intro exI [of _ ?v] exI [of _ "Suc n"]) simp
  qed
qed

text \<open>The value read is the base-128 number the bytes spell; a padding zero adds nothing to it.\<close>

definition leb_sum :: "bytes \<Rightarrow> nat" where
  "leb_sum bs = foldr (\<lambda>b v. unat b mod 128 + 128 * v) bs 0"

lemma leb_sum_simps [simp]:
  "leb_sum [] = 0" "leb_sum (b # bs) = unat b mod 128 + 128 * leb_sum bs"
  by (simp_all add: leb_sum_def)

lemma leb_sum_pad: "leb_sum (bs @ [0]) = leb_sum bs"
  by (induction bs) simp_all

lemma leb_sum_bound: "leb_sum bs < 2 ^ (7 * length bs)"
proof (induction bs)
  case Nil
  then show ?case by simp
next
  case (Cons b bs)
  have "unat b mod 128 < 128" by simp
  with Cons.IH have "leb_sum (b # bs) < 128 * 2 ^ (7 * length bs)" by simp
  then show ?case by (simp add: power_add)
qed

lemma leb128_loop_sum:
  assumes "leb128_loop val s len bs = Inr d" and "val < 2 ^ s"
  shows "\<exists>n. d = \<lparr>leb_value = val + leb_sum (take n bs) * 2 ^ s, leb_length = len + n\<rparr> \<and>
    1 \<le> n \<and> n \<le> length bs"
  using assms
proof (induction val s len bs rule: leb128_loop.induct)
  case (1 val s len)
  then show ?case by simp
next
  case (2 val s len b bs)
  let ?val = "val + unat b mod 128 * 2 ^ s"
  have val: "val OR push_bit s (unat (b AND 0x7f)) = ?val"
    using "2.prems"(2) by (simp add: unat_and_7f or_push_bit_add)
  show ?case
  proof (cases "unat b < 128")
    case True
    with "2.prems" show ?thesis
      by (intro exI [of _ 1]) (auto simp: Let_def and_80_eq_0 val)
  next
    case False
    have lt: "?val < 2 ^ (s + 7)"
    proof -
      have "unat b mod 128 * 2 ^ s \<le> 127 * 2 ^ s" by (intro mult_le_mono1) (simp add: less_Suc_eq_le [symmetric])
      moreover have "(2 :: nat) ^ (s + 7) = 128 * 2 ^ s" by (simp add: power_add)
      ultimately show ?thesis using "2.prems"(2) by linarith
    qed
    have "\<not> s + 7 \<ge> 70" and loop: "leb128_loop ?val (s + 7) (len + 1) bs = Inr d"
      using "2.prems"(1) False by (auto simp: Let_def and_80_eq_0 val split: if_splits)
    then obtain n where "d = \<lparr>leb_value = ?val + leb_sum (take n bs) * 2 ^ (s + 7), leb_length = len + 1 + n\<rparr>"
      "1 \<le> n" "n \<le> length bs"
      using "2.IH" [OF refl refl] lt False val by (auto simp: and_80_eq_0 simp del: leb128_loop.simps)
    then show ?thesis
      by (intro exI [of _ "Suc n"]) (simp add: power_add algebra_simps)
  qed
qed

text \<open>
  Re-encoding what was read never takes more bytes, and takes as many only when it gives them back.
\<close>

lemma decodeLeb128_minimal:
  assumes "decodeLeb128 bs = Inr d"
  shows "length (leb128_groups (leb_value d)) \<le> leb_length d"
    and "length (leb128_groups (leb_value d)) = leb_length d \<Longrightarrow>
      leb128_groups (leb_value d) = take (leb_length d) bs"
proof -
  let ?n = "leb_length d" and ?g = "leb128_groups (leb_value d)"
  have len: "1 \<le> ?n" "?n \<le> length bs"
    and canon: "?n = 1 \<or> bs ! (?n - 1) \<noteq> 0 \<Longrightarrow> take ?n bs = ?g"
    using leb128_loop_sound [of 0 0 0 bs d] assms by (auto simp: decodeLeb128_def)
  have sum: "leb_value d = leb_sum (take ?n bs)"
    using leb128_loop_sum [of 0 0 0 bs d] assms by (auto simp: decodeLeb128_def)
  have short: "length ?g \<le> ?n - 1" if pad: "\<not> (?n = 1 \<or> bs ! (?n - 1) \<noteq> 0)"
  proof -
    have "take ?n bs = take (?n - 1) bs @ [0]"
      using pad len take_Suc_conv_app_nth [of "?n - 1" bs] by simp
    then have "leb_value d = leb_sum (take (?n - 1) bs)" by (simp add: sum leb_sum_pad)
    then have "leb_value d < 2 ^ (7 * (?n - 1))"
      using leb_sum_bound [of "take (?n - 1) bs"] len by (simp add: min_absorb2)
    then show ?thesis using pad len by (intro length_leb128_groups) auto
  qed
  show "length ?g \<le> ?n"
  proof (cases "?n = 1 \<or> bs ! (?n - 1) \<noteq> 0")
    case True
    from canon [OF True] show ?thesis by (metis length_take min.cobounded2)
  next
    case False
    from short [OF False] show ?thesis by simp
  qed
  show "?g = take ?n bs" if "length ?g = ?n"
  proof (cases "?n = 1 \<or> bs ! (?n - 1) \<noteq> 0")
    case True
    then show ?thesis using canon by simp
  next
    case False
    from short [OF False] that len(1) show ?thesis by simp
  qed
qed

section \<open>Properties\<close>

text \<open>
  Every \<^verbatim>\<open>u64\<close> round-trips: \<^verbatim>\<open>encodeLeb128\<close> returns at most ten bytes and \<^verbatim>\<open>decodeLeb128\<close> reads the
  value back from the front of any buffer those bytes start, reporting exactly the bytes it consumed.
\<close>

theorem encodeLeb128_roundtrip:
  assumes "0 \<le> v" and "v < 2 ^ 64"
  shows "\<exists>bs. encodeLeb128 v = Inr bs \<and> 1 \<le> length bs \<and> length bs \<le> 10 \<and>
    (\<forall>rest. decodeLeb128 (bs @ rest) = Inr \<lparr>leb_value = nat v, leb_length = length bs\<rparr>)"
proof -
  have v: "nat v < 2 ^ 70" using assms by (simp add: nat_less_iff)
  show ?thesis
    using assms(1) decodeLeb128_groups [OF v] length_leb128_groups [of "nat v" 10] v
      length_leb128_groups_pos [of "nat v"]
    by (auto simp: encodeLeb128_def Suc_le_eq)
qed

theorem encodeLeb128_roundtrip_witness:
  "(0 :: int) \<le> 300 \<and> (300 :: int) < 2 ^ 64 \<and>
   (\<exists>bs. encodeLeb128 300 = Inr bs \<and> 1 \<le> length bs \<and> length bs \<le> 10 \<and>
    (\<forall>rest. decodeLeb128 (bs @ rest) = Inr \<lparr>leb_value = nat 300, leb_length = length bs\<rparr>))"
  using encodeLeb128_roundtrip [of 300] by simp

text \<open>
  C39. What \<^verbatim>\<open>decodeLeb128\<close> accepts: a value below \<open>2 ^ 70\<close> read from one to ten bytes of the input; and when
  the last byte read is not a padding zero, the bytes read are the one encoding \<^verbatim>\<open>encodeLeb128\<close> gives.
\<close>

theorem decodeLeb128_canonical:
  assumes "decodeLeb128 input = Inr d"
  shows "leb_value d < 2 ^ 70 \<and> 1 \<le> leb_length d \<and> leb_length d \<le> 10 \<and> leb_length d \<le> length input \<and>
    (leb_length d = 1 \<or> input ! (leb_length d - 1) \<noteq> 0 \<longrightarrow>
      encodeLeb128 (int (leb_value d)) = Inr (take (leb_length d) input))"
  using leb128_loop_sound [of 0 0 0 input d] assms
  by (auto simp: decodeLeb128_def encodeLeb128_def)

theorem decodeLeb128_canonical_witness:
  "decodeLeb128 [0xAC, 0x02, 0xFF] = Inr \<lparr>leb_value = 300, leb_length = 2\<rparr> \<and>
   encodeLeb128 300 = Inr [0xAC, 0x02]"
proof -
  have d: "decodeLeb128 [0xAC, 0x02, 0xFF] = Inr \<lparr>leb_value = 300, leb_length = 2\<rparr>"
    by (simp add: decodeLeb128_def unat_and_7f and_80_eq_0 or_push_bit_add)
  from decodeLeb128_canonical [OF d] show ?thesis by (simp add: d)
qed

text \<open>
  The width check is loose: an integer of up to seventy bits is accepted, so \<^verbatim>\<open>decodeLeb128\<close> returns
  a value that no \<^verbatim>\<open>u64\<close> holds, although its documentation says a value over 64 bits throws. It also accepts a
  padded (non-canonical) encoding of zero.
\<close>

theorem decodeLeb128_accepts_over_64_bits:
  "decodeLeb128 (replicate 9 0x80 @ [0x7f]) = Inr \<lparr>leb_value = 127 * 2 ^ 63, leb_length = 10\<rparr> \<and>
   (2 :: nat) ^ 64 \<le> 127 * 2 ^ 63 \<and>
   decodeLeb128 [0x80, 0x00] = Inr \<lparr>leb_value = 0, leb_length = 2\<rparr>"
proof -
  have nine: "replicate 9 (0x80 :: byte) = [0x80, 0x80, 0x80, 0x80, 0x80, 0x80, 0x80, 0x80, 0x80]"
    by (simp add: numeral_eq_Suc)
  show ?thesis
    by (simp add: nine decodeLeb128_def unat_and_7f and_80_eq_0 or_push_bit_add)
qed

end
