(* ===== verification/Wire_Reader.thy ===== *)
theory Wire_Reader
  imports Varint
begin

text \<open>
  Reading a postcard structure off a byte array by a moving offset. The decoders of \<^verbatim>\<open>frame.ts\<close>,
  \<^verbatim>\<open>frame-v2.ts\<close> and \<^verbatim>\<open>control.ts\<close> all keep a \<^verbatim>\<open>let o = 0\<close> and advance it over \<^verbatim>\<open>need\<close>, \<^verbatim>\<open>slice\<close>
  and \<^verbatim>\<open>decodeLeb128(bytes.subarray(o))\<close>; the readers below are those steps, an offset in and the
  advanced offset out. The locale \<open>wire_field\<close> is the contract of one field: what its writer emits
  its reader reads back, wherever in the buffer it stands.
\<close>

section \<open>Steps of the decoders\<close>

datatype wire_error =
    LebError leb128_error
  | WireTruncated
  | WireTrailing
  | WireOversize
  | WireVersion byte
  | WireLength
  | WireNotControl byte
  | WireOptionTag byte
  | WireVariant nat
  | WireNoTokens
  | WireTooManyTokens

type_synonym 'a reader = "bytes \<Rightarrow> nat \<Rightarrow> wire_error + ('a \<times> nat)"

definition need :: "bytes \<Rightarrow> nat \<Rightarrow> nat \<Rightarrow> wire_error + unit" where
  "need bs off n = guardR (\<not> off + n > length bs) WireTruncated"

definition js_slice :: "bytes \<Rightarrow> nat \<Rightarrow> nat \<Rightarrow> bytes" where
  "js_slice bs i j = take (j - i) (drop i bs)"

definition readBytes :: "nat \<Rightarrow> bytes reader" where
  "readBytes n bs off = bindR (need bs off n) (\<lambda>_. Inr (js_slice bs off (off + n), off + n))"

definition readU8 :: "byte reader" where
  "readU8 bs off = bindR (need bs off 1) (\<lambda>_. Inr (bs ! off, off + 1))"

definition liftLeb :: "leb128_error + 'a \<Rightarrow> wire_error + 'a" where
  "liftLeb r = (case r of Inl e \<Rightarrow> Inl (LebError e) | Inr x \<Rightarrow> Inr x)"

definition readLeb :: "nat reader" where
  "readLeb bs off =
     bindR (liftLeb (decodeLeb128 (drop off bs))) (\<lambda>d. Inr (leb_value d, off + leb_length d))"

definition writeLeb :: "int \<Rightarrow> wire_error + bytes" where
  "writeLeb v = liftLeb (encodeLeb128 v)"

text \<open>A LEB128 length, made a \<^verbatim>\<open>number\<close>, and that many bytes: \<^verbatim>\<open>ciphertext\<close>, \<^verbatim>\<open>pq_ct\<close> and the strings.\<close>

definition readPrefixed :: "bytes reader" where
  "readPrefixed bs off = bindR (readLeb bs off) (\<lambda>(n, off'). readBytes (js_Number n) bs off')"

definition writePrefixed :: "bytes \<Rightarrow> bytes" where
  "writePrefixed p = leb128_groups (length p) @ p"

definition writeFixed :: "bytes \<Rightarrow> bytes" where
  "writeFixed p = p"

text \<open>A counted repetition, as the loop over the machine specs is.\<close>

primrec readMany :: "'a reader \<Rightarrow> nat \<Rightarrow> 'a list reader" where
  "readMany rd 0 bs off = Inr ([], off)"
| "readMany rd (Suc n) bs off =
     bindR (rd bs off) (\<lambda>(x, off'). bindR (readMany rd n bs off') (\<lambda>(xs, off''). Inr (x # xs, off'')))"

definition expectLen :: "bytes \<Rightarrow> nat \<Rightarrow> wire_error + unit" where
  "expectLen bs n = guardR (length bs = n) WireLength"

section \<open>The contract of a field\<close>

text \<open>\<open>stands bs off rest\<close>: from offset \<open>off\<close> on, the buffer holds exactly \<open>rest\<close>.\<close>

definition stands :: "bytes \<Rightarrow> nat \<Rightarrow> bytes \<Rightarrow> bool" where
  "stands bs off rest \<longleftrightarrow> off \<le> length bs \<and> drop off bs = rest"

lemma stands_start: "stands bs 0 bs"
  by (simp add: stands_def)

lemma stands_length: "stands bs off rest \<Longrightarrow> length bs = off + length rest"
  by (auto simp: stands_def)

lemma stands_advance: "stands bs off (p @ rest) \<Longrightarrow> stands bs (off + length p) rest"
proof -
  assume "stands bs off (p @ rest)"
  then have le: "off \<le> length bs" and rest: "drop off bs = p @ rest" by (auto simp: stands_def)
  from rest have "drop (length p) (drop off bs) = rest" by simp
  moreover have "off + length p \<le> length bs" using rest le
    by (metis add.commute le_add1 length_append length_drop le_diff_conv2)
  ultimately show ?thesis by (simp add: stands_def add.commute)
qed

locale wire_field =
  fixes emit :: "'a \<Rightarrow> bytes" and get :: "'a reader" and ok :: "'a \<Rightarrow> bool"
  assumes read_write: "ok x \<Longrightarrow> stands bs off (emit x @ rest) \<Longrightarrow>
    get bs off = Inr (x, off + length (emit x))"
begin

lemma read_step:
  assumes "stands bs off (emit x @ rest)" and "ok x"
  shows "get bs off = Inr (x, off + length (emit x))"
    and "stands bs (off + length (emit x)) rest"
  using assms by (simp_all add: read_write stands_advance)

lemma read_seq:
  assumes "stands bs off (emit x @ rest)" and "ok x"
    and "\<And>off'. stands bs off' rest \<Longrightarrow> f x off' = R"
  shows "bindR (get bs off) (\<lambda>(x, off'). f x off') = R"
  using assms(3) read_step [OF assms(1,2)] by simp

lemma readMany_write:
  assumes "list_all ok xs" and "stands bs off (concat (map emit xs) @ rest)"
  shows "readMany get (length xs) bs off = Inr (xs, off + length (concat (map emit xs)))"
  using assms
proof (induction xs arbitrary: off)
  case Nil
  then show ?case by simp
next
  case (Cons x xs)
  then have here: "stands bs off (emit x @ (concat (map emit xs) @ rest))" by simp
  from Cons.prems(1) have "ok x" "list_all ok xs" by simp_all
  with read_step [OF here] Cons.IH [of "off + length (emit x)"] show ?case
    by (simp add: add.assoc)
qed

end

lemma stands_bounds:
  assumes "stands bs off (p @ rest)"
  shows "\<not> off + length p > length bs" and "js_slice bs off (off + length p) = p"
  using assms stands_length [OF assms] by (auto simp: stands_def js_slice_def)

interpretation fixed: wire_field writeFixed "readBytes n" "\<lambda>p. length p = n" for n
proof unfold_locales
  fix x :: bytes and bs :: bytes and off :: nat and rest :: bytes
  assume n: "length x = n" and st: "stands bs off (writeFixed x @ rest)"
  from st n stands_bounds [of bs off x rest] show "readBytes n bs off = Inr (x, off + length (writeFixed x))"
    by (auto simp: readBytes_def need_def writeFixed_def)
qed

definition writeU8 :: "byte \<Rightarrow> bytes" where
  "writeU8 b = [b]"

interpretation u8: wire_field writeU8 readU8 "\<lambda>_. True"
proof unfold_locales
  fix x :: byte and bs :: bytes and off :: nat and rest :: bytes
  assume st: "stands bs off (writeU8 x @ rest)"
  then have "drop off bs = x # rest" "length bs = off + length (x # rest)"
    using stands_length [OF st] by (simp_all add: stands_def writeU8_def)
  then have "bs ! off = x" by (metis nth_via_drop)
  with \<open>length bs = _\<close> show "readU8 bs off = Inr (x, off + length (writeU8 x))"
    by (simp add: readU8_def need_def writeU8_def)
qed

interpretation leb: wire_field leb128_groups readLeb "\<lambda>v. v < 2 ^ 70"
  by unfold_locales (simp add: stands_def readLeb_def liftLeb_def decodeLeb128_groups)

interpretation prefixed: wire_field writePrefixed readPrefixed "\<lambda>p. length p < 2 ^ 53"
proof unfold_locales
  fix x :: bytes and bs :: bytes and off :: nat and rest :: bytes
  assume lt: "length x < 2 ^ 53" and st: "stands bs off (writePrefixed x @ rest)"
  let ?n = "leb128_groups (length x)"
  have here: "stands bs off (?n @ (x @ rest))" using st by (simp add: writePrefixed_def)
  have "length x < 2 ^ 70" using lt by simp
  note len = leb.read_step [OF here this]
  then have "stands bs (off + length ?n) (writeFixed x @ rest)" by (simp add: writeFixed_def)
  from fixed.read_write [OF refl this] have "readBytes (length x) bs (off + length ?n) =
      Inr (x, off + length (writePrefixed x))"
    by (simp add: writeFixed_def writePrefixed_def)
  then show "readPrefixed bs off = Inr (x, off + length (writePrefixed x))"
    using len(1) lt by (simp add: readPrefixed_def js_Number_exact)
qed

section \<open>What a successful read tells\<close>

lemma readBytes_Inr_conv [result_simps]:
  "readBytes n bs off = Inr (p, off') \<longleftrightarrow>
     off + n \<le> length bs \<and> off' = off + n \<and> p = take n (drop off bs)"
  by (auto simp: readBytes_def need_def js_slice_def)

lemma readU8_Inr_conv [result_simps]:
  "readU8 bs off = Inr (b, off') \<longleftrightarrow> off < length bs \<and> off' = off + 1 \<and> b = bs ! off"
  by (auto simp: readU8_def need_def)

lemma liftLeb_Inr_conv [simp, result_simps]: "liftLeb r = Inr x \<longleftrightarrow> r = Inr x"
  by (auto simp: liftLeb_def split: sum.splits)

lemma readLeb_Inr_conv [result_simps]:
  "readLeb bs off = Inr (v, off') \<longleftrightarrow>
     (\<exists>d. decodeLeb128 (drop off bs) = Inr d \<and> v = leb_value d \<and> off' = off + leb_length d)"
  by (auto simp: readLeb_def bindR_eq_Inr_conv)

lemma readPrefixed_Inr_conv [result_simps]:
  "readPrefixed bs off = Inr (p, off') \<longleftrightarrow>
     (\<exists>n o1. readLeb bs off = Inr (n, o1) \<and> readBytes (js_Number n) bs o1 = Inr (p, off'))"
  by (auto simp: readPrefixed_def bindR_eq_Inr_conv)

text \<open>
  A successful read takes a piece of the buffer: the offset moves forward inside it.
\<close>

lemma readLeb_bounds:
  assumes "readLeb bs off = Inr (v, off')"
  shows "off < off'" "off' \<le> length bs" "v < 2 ^ 70"
proof -
  from assms obtain d where d: "decodeLeb128 (drop off bs) = Inr d" "v = leb_value d"
    "off' = off + leb_length d" by (auto simp: readLeb_Inr_conv)
  then show "off < off'" "off' \<le> length bs" "v < 2 ^ 70"
    using leb128_loop_sound [of 0 0 0 "drop off bs" d] by (auto simp: decodeLeb128_def)
qed

text \<open>
  \<open>covers bs i j p\<close>: the piece of the buffer from \<open>i\<close> to \<open>j\<close> was read as something whose own writing is
  \<open>p\<close>; \<open>p\<close> is no longer than the piece, and equals it when it is as long. Pieces read one after the other
  compose, which is how the decoders are compared with the encoders.
\<close>

definition covers :: "bytes \<Rightarrow> nat \<Rightarrow> nat \<Rightarrow> bytes \<Rightarrow> bool" where
  "covers bs i j p \<longleftrightarrow> i \<le> j \<and> j \<le> length bs \<and> length p \<le> j - i \<and>
     (length p = j - i \<longrightarrow> drop i bs = p @ drop j bs)"

lemma covers_append:
  assumes "covers bs i j p" and "covers bs j k q"
  shows "covers bs i k (p @ q)"
proof -
  have "drop i bs = (p @ q) @ drop k bs" if "length (p @ q) = k - i"
  proof -
    have "length p \<le> j - i" "length q \<le> k - j" "i \<le> j" "j \<le> k"
      using assms by (simp_all add: covers_def)
    then have "length p = j - i \<and> length q = k - j" using that by (simp, linarith)
    then have "length p = j - i" "length q = k - j" by simp_all
    then show ?thesis using assms by (simp add: covers_def)
  qed
  with assms show ?thesis by (auto simp: covers_def)
qed

lemma covers_all:
  assumes "covers bs 0 (length bs) p"
  shows "length p \<le> length bs" and "length p = length bs \<Longrightarrow> p = bs"
  using assms by (simp_all add: covers_def)

lemma readBytes_covers: "readBytes n bs off = Inr (p, off') \<Longrightarrow> covers bs off off' p"
  by (auto simp: readBytes_Inr_conv covers_def append_take_drop_id add.commute
      simp flip: drop_drop)

lemma readU8_covers: "readU8 bs off = Inr (b, off') \<Longrightarrow> covers bs off off' [b]"
  by (auto simp: readU8_Inr_conv covers_def Cons_nth_drop_Suc)

lemma readLeb_covers:
  assumes "readLeb bs off = Inr (v, off')"
  shows "covers bs off off' (leb128_groups v)"
proof -
  from assms obtain d where d: "decodeLeb128 (drop off bs) = Inr d" "v = leb_value d"
    "off' = off + leb_length d" by (auto simp: readLeb_Inr_conv)
  note bounds = readLeb_bounds [OF assms]
  have "drop off bs = leb128_groups v @ drop off' bs" if "length (leb128_groups v) = off' - off"
  proof -
    have "leb128_groups v = take (leb_length d) (drop off bs)"
      using decodeLeb128_minimal(2) [OF d(1)] d(2,3) that by simp
    moreover have "drop off' bs = drop (leb_length d) (drop off bs)" by (simp add: d(3) add.commute)
    ultimately show ?thesis by (simp only: append_take_drop_id)
  qed
  with bounds decodeLeb128_minimal(1) [OF d(1)] d(2,3) show ?thesis by (simp add: covers_def)
qed

lemma readPrefixed_covers:
  assumes "readPrefixed bs off = Inr (p, off')" and "length bs < 2 ^ 53"
  shows "covers bs off off' (writePrefixed p)"
proof -
  from assms(1) obtain n o1 where len: "readLeb bs off = Inr (n, o1)"
    and piece: "readBytes (js_Number n) bs o1 = Inr (p, off')" by (auto simp: readPrefixed_Inr_conv)
  from piece have "js_Number n = length p" "js_Number n < 2 ^ 53"
    using assms(2) by (auto simp: readBytes_Inr_conv)
  then have "n = length p" using js_Number_small [of n] by simp
  with len piece show ?thesis
    unfolding writePrefixed_def by (auto intro: covers_append readLeb_covers readBytes_covers)
qed

end
