(* ===== verification/Control.thy ===== *)
theory Control
  imports Wire_Reader
begin

text \<open>
  \<^verbatim>\<open>packages/core/src/edge/control.ts\<close>: the admission request \<^verbatim>\<open>IpRequestV7\<close> a client seals, and the decoder
  of the exit's control messages. A postcard \<^verbatim>\<open>f64\<close> is kept as its eight wire bytes; \<^verbatim>\<open>TextDecoder\<close> is the
  parameter \<open>utf8\<close> of the decoder. Integers are exact: a length is made a \<^verbatim>\<open>number\<close> by \<open>js_Number\<close>.
\<close>

section \<open>The admission request\<close>

definition CONTROL_FIRST_BYTE :: byte where
  "CONTROL_FIRST_BYTE = 0xc0"

definition CONTROL_VERSION_V3 :: byte where
  "CONTROL_VERSION_V3 = 0x03"

definition IP_REQUEST_V7_VARIANT :: int where
  "IP_REQUEST_V7_VARIANT = 5"

definition SESSION_TOKEN_LEN :: nat where
  "SESSION_TOKEN_LEN = 354"

definition MAX_SESSION_TOKENS :: nat where
  "MAX_SESSION_TOKENS = 8"

record ip_request_v7 =
  req_tokens :: "bytes list"
  wantsIpv6 :: bool
  preferIpv4 :: "bytes option"
  wantsDaita :: bool

definition flag_byte :: "bool \<Rightarrow> byte" where
  "flag_byte b = (if b then 0x01 else 0x00)"

definition encodeIpRequestV7 :: "ip_request_v7 \<Rightarrow> wire_error + bytes" where
  "encodeIpRequestV7 params =
     bindR (guardR (length (req_tokens params) \<noteq> 0) WireNoTokens) (\<lambda>_.
     bindR (guardR (\<not> length (req_tokens params) > MAX_SESSION_TOKENS) WireTooManyTokens) (\<lambda>_.
     bindR (mapR (\<lambda>t. expectLen t SESSION_TOKEN_LEN) (req_tokens params)) (\<lambda>_.
     bindR (case preferIpv4 params of None \<Rightarrow> Inr () | Some ip \<Rightarrow> expectLen ip 4) (\<lambda>_.
     bindR (writeLeb IP_REQUEST_V7_VARIANT) (\<lambda>variant.
     bindR (writeLeb (int (length (req_tokens params)))) (\<lambda>count.
     Inr ([CONTROL_FIRST_BYTE, CONTROL_VERSION_V3] @ variant
       @ (case preferIpv4 params of None \<Rightarrow> [0x00] | Some ip \<Rightarrow> 0x01 # ip)
       @ [flag_byte (wantsIpv6 params)] @ count @ concat (req_tokens params)
       @ [flag_byte (wantsDaita params)])))))))"

section \<open>Control messages\<close>

record DaitaConfig =
  machineSpecs :: "string list"
  maxPaddingFrac :: bytes
  maxBlockingFrac :: bytes

record IpAssign =
  ipv4 :: bytes
  prefixLen :: byte
  gatewayIpv4 :: bytes
  ipv6 :: "bytes option"
  prefixLenV6 :: byte
  gatewayIpv6 :: "bytes option"
  daitaSpec :: "DaitaConfig option"

datatype ControlMessage =
    MIpAssign IpAssign
  | MIpExhausted
  | MRejected
  | MExitDraining nat byte

definition readOption :: "'a reader \<Rightarrow> 'a option reader" where
  "readOption rd bs off =
     bindR (readU8 bs off) (\<lambda>(tag, o1).
     if tag = 0 then Inr (None, o1)
     else bindR (guardR (tag = 1) (WireOptionTag tag)) (\<lambda>_.
       bindR (rd bs o1) (\<lambda>(x, o2). Inr (Some x, o2))))"

definition readOptionBytes :: "nat \<Rightarrow> bytes option reader" where
  "readOptionBytes n = readOption (readBytes n)"

definition readString :: "(bytes \<Rightarrow> string) \<Rightarrow> string reader" where
  "readString utf8 bs off = bindR (readPrefixed bs off) (\<lambda>(p, o1). Inr (utf8 p, o1))"

definition readF64 :: "bytes reader" where
  "readF64 = readBytes 8"

definition readDaitaConfig :: "(bytes \<Rightarrow> string) \<Rightarrow> DaitaConfig reader" where
  "readDaitaConfig utf8 bs off =
     bindR (readLeb bs off) (\<lambda>(count, o1).
     bindR (readMany (readString utf8) count bs o1) (\<lambda>(specs, o2).
     bindR (readF64 bs o2) (\<lambda>(padding, o3).
     bindR (readF64 bs o3) (\<lambda>(blocking, o4).
     Inr (\<lparr>machineSpecs = specs, maxPaddingFrac = padding, maxBlockingFrac = blocking\<rparr>, o4)))))"

definition readIpAssign :: "(bytes \<Rightarrow> string) \<Rightarrow> IpAssign reader" where
  "readIpAssign utf8 bs off =
     bindR (readBytes 4 bs off) (\<lambda>(ip4, o1).
     bindR (readU8 bs o1) (\<lambda>(plen, o2).
     bindR (readBytes 4 bs o2) (\<lambda>(gw4, o3).
     bindR (readOptionBytes 16 bs o3) (\<lambda>(ip6, o4).
     bindR (readU8 bs o4) (\<lambda>(plen6, o5).
     bindR (readOptionBytes 16 bs o5) (\<lambda>(gw6, o6).
     bindR (readOption (readDaitaConfig utf8) bs o6) (\<lambda>(daita, o7).
     Inr (\<lparr>ipv4 = ip4, prefixLen = plen, gatewayIpv4 = gw4, ipv6 = ip6, prefixLenV6 = plen6,
           gatewayIpv6 = gw6, daitaSpec = daita\<rparr>, o7))))))))"

definition readControlVariant :: "(bytes \<Rightarrow> string) \<Rightarrow> nat \<Rightarrow> ControlMessage reader" where
  "readControlVariant utf8 variant bs off =
     (if variant = 1 then bindR (readIpAssign utf8 bs off) (\<lambda>(a, o1). Inr (MIpAssign a, o1))
      else if variant = 2 then Inr (MIpExhausted, off)
      else if variant = 3 then Inr (MRejected, off)
      else if variant = 4 then
        bindR (readLeb bs off) (\<lambda>(deadline, o1).
        bindR (readU8 bs o1) (\<lambda>(reason, o2). Inr (MExitDraining deadline reason, o2)))
      else Inl (WireVariant variant))"

definition decodeControlMessage :: "(bytes \<Rightarrow> string) \<Rightarrow> bytes \<Rightarrow> wire_error + ControlMessage" where
  "decodeControlMessage utf8 plaintext =
     bindR (guardR (\<not> length plaintext < 2) WireTruncated) (\<lambda>_.
     bindR (guardR (plaintext ! 0 = CONTROL_FIRST_BYTE) (WireNotControl (plaintext ! 0))) (\<lambda>_.
     bindR (guardR (plaintext ! 1 = CONTROL_VERSION_V3) (WireVersion (plaintext ! 1))) (\<lambda>_.
     let body = drop 2 plaintext in
     bindR (readLeb body 0) (\<lambda>(variant, o1).
     bindR (readControlVariant utf8 variant body o1) (\<lambda>(msg, o2).
     bindR (guardR (o2 = length body) WireTrailing) (\<lambda>_. Inr msg))))))"

definition ipv4ToString :: "bytes \<Rightarrow> string" where
  "ipv4ToString ip = join ''.'' (map (\<lambda>b. show_nat (unat b)) ip)"

section \<open>The messages as an exit writes them\<close>

text \<open>
  The postcard layout of the messages, which the exit's \<^verbatim>\<open>control.rs\<close> writes; it is the specification
  the decoder is checked against. A string is written from its UTF-8 bytes \<open>enc s\<close>.
\<close>

definition writeOption :: "('a \<Rightarrow> bytes) \<Rightarrow> 'a option \<Rightarrow> bytes" where
  "writeOption emit x = (case x of None \<Rightarrow> [0] | Some y \<Rightarrow> 1 # emit y)"

definition writeDaitaConfig :: "(string \<Rightarrow> bytes) \<Rightarrow> DaitaConfig \<Rightarrow> bytes" where
  "writeDaitaConfig enc c =
     leb128_groups (length (machineSpecs c)) @ concat (map (\<lambda>s. writePrefixed (enc s)) (machineSpecs c))
       @ writeFixed (maxPaddingFrac c) @ writeFixed (maxBlockingFrac c)"

definition writeIpAssign :: "(string \<Rightarrow> bytes) \<Rightarrow> IpAssign \<Rightarrow> bytes" where
  "writeIpAssign enc a =
     writeFixed (ipv4 a) @ writeU8 (prefixLen a) @ writeFixed (gatewayIpv4 a) @ writeOption writeFixed (ipv6 a)
       @ writeU8 (prefixLenV6 a) @ writeOption writeFixed (gatewayIpv6 a)
       @ writeOption (writeDaitaConfig enc) (daitaSpec a)"

fun writeControlMessage :: "(string \<Rightarrow> bytes) \<Rightarrow> ControlMessage \<Rightarrow> bytes" where
  "writeControlMessage enc (MIpAssign a) = [0xc0, 3, 1] @ writeIpAssign enc a"
| "writeControlMessage enc MIpExhausted = [0xc0, 3, 2]"
| "writeControlMessage enc MRejected = [0xc0, 3, 3]"
| "writeControlMessage enc (MExitDraining deadline reason) = [0xc0, 3, 4] @ leb128_groups deadline @ [reason]"

text \<open>The field contract lifts through options, decoded strings and counted lists.\<close>

lemma wire_field_option:
  assumes "wire_field emit get ok"
  shows "wire_field (writeOption emit) (readOption get) (pred_option ok)"
proof
  fix x bs off rest
  assume ok: "pred_option ok x" and st: "stands bs off (writeOption emit x @ rest)"
  show "readOption get bs off = Inr (x, off + length (writeOption emit x))"
  proof (cases x)
    case None
    then have "stands bs off (writeU8 0 @ rest)" using st by (simp add: writeOption_def writeU8_def)
    from u8.read_step [OF this TrueI] None show ?thesis
      by (simp add: readOption_def writeOption_def writeU8_def)
  next
    case (Some y)
    then have "stands bs off (writeU8 1 @ (emit y @ rest))" using st by (simp add: writeOption_def writeU8_def)
    note tag = u8.read_step [OF this TrueI]
    from Some ok have "ok y" by simp
    note val = wire_field.read_step [OF assms tag(2) this]
    from tag(1) val(1) Some show ?thesis by (simp add: readOption_def writeOption_def writeU8_def)
  qed
qed

interpretation optBytes: wire_field "writeOption writeFixed" "readOptionBytes n" "pred_option (\<lambda>p. length p = n)" for n
  unfolding readOptionBytes_def by (rule wire_field_option) (rule fixed.wire_field_axioms)

lemma wire_field_string:
  assumes "\<And>s. utf8 (enc s) = s"
  shows "wire_field (\<lambda>s. writePrefixed (enc s)) (readString utf8) (\<lambda>s. length (enc s) < 2 ^ 53)"
  by unfold_locales (simp add: readString_def prefixed.read_write assms)

definition daita_ok :: "(string \<Rightarrow> bytes) \<Rightarrow> DaitaConfig \<Rightarrow> bool" where
  "daita_ok enc c \<longleftrightarrow> length (machineSpecs c) < 2 ^ 70 \<and>
     list_all (\<lambda>s. length (enc s) < 2 ^ 53) (machineSpecs c) \<and>
     length (maxPaddingFrac c) = 8 \<and> length (maxBlockingFrac c) = 8"

definition ipAssign_ok :: "(string \<Rightarrow> bytes) \<Rightarrow> IpAssign \<Rightarrow> bool" where
  "ipAssign_ok enc a \<longleftrightarrow> length (ipv4 a) = 4 \<and> length (gatewayIpv4 a) = 4 \<and>
     pred_option (\<lambda>p. length p = 16) (ipv6 a) \<and> pred_option (\<lambda>p. length p = 16) (gatewayIpv6 a) \<and>
     pred_option (daita_ok enc) (daitaSpec a)"

fun control_ok :: "(string \<Rightarrow> bytes) \<Rightarrow> ControlMessage \<Rightarrow> bool" where
  "control_ok enc (MIpAssign a) = ipAssign_ok enc a"
| "control_ok enc (MExitDraining deadline reason) = (deadline < 2 ^ 64)"
| "control_ok enc _ = True"

lemma wire_field_daita:
  assumes utf8: "\<And>s. utf8 (enc s) = s"
  shows "wire_field (writeDaitaConfig enc) (readDaitaConfig utf8) (daita_ok enc)"
proof
  fix c bs off rest
  assume ok: "daita_ok enc c" and st: "stands bs off (writeDaitaConfig enc c @ rest)"
  let ?specs = "concat (map (\<lambda>s. writePrefixed (enc s)) (machineSpecs c))"
  note str = wire_field_string [of utf8 enc, OF utf8]
  have a: "stands bs off (leb128_groups (length (machineSpecs c)) @ (?specs @ (writeFixed (maxPaddingFrac c)
      @ (writeFixed (maxBlockingFrac c) @ rest))))"
    using st by (simp add: writeDaitaConfig_def)
  have oks: "length (machineSpecs c) < 2 ^ 70" "list_all (\<lambda>s. length (enc s) < 2 ^ 53) (machineSpecs c)"
    "length (maxPaddingFrac c) = 8" "length (maxBlockingFrac c) = 8"
    using ok by (simp_all add: daita_ok_def)
  note r1 = leb.read_step [OF a oks(1)]
  note r2 = wire_field.readMany_write [OF str oks(2) r1(2)]
  note r3 = fixed.read_step [OF stands_advance [OF r1(2)] oks(3)]
  note r4 = fixed.read_step [OF r3(2) oks(4)]
  from r1(1) r2 r3(1) r4(1) show "readDaitaConfig utf8 bs off = Inr (c, off + length (writeDaitaConfig enc c))"
    by (simp add: readDaitaConfig_def readF64_def writeDaitaConfig_def add.assoc)
qed

lemma wire_field_ipAssign:
  assumes utf8: "\<And>s. utf8 (enc s) = s"
  shows "wire_field (writeIpAssign enc) (readIpAssign utf8) (ipAssign_ok enc)"
proof
  fix a bs off rest
  assume ok: "ipAssign_ok enc a" and st: "stands bs off (writeIpAssign enc a @ rest)"
  note daita = wire_field_option [OF wire_field_daita [of utf8 enc, OF utf8]]
  have oks: "length (ipv4 a) = 4" "length (gatewayIpv4 a) = 4" "pred_option (\<lambda>p. length p = 16) (ipv6 a)"
     "pred_option (\<lambda>p. length p = 16) (gatewayIpv6 a)" "pred_option (daita_ok enc) (daitaSpec a)"
    using ok by (simp_all add: ipAssign_ok_def)
  have s0: "stands bs off (writeFixed (ipv4 a) @ (writeU8 (prefixLen a) @ (writeFixed (gatewayIpv4 a)
      @ (writeOption writeFixed (ipv6 a) @ (writeU8 (prefixLenV6 a) @ (writeOption writeFixed (gatewayIpv6 a)
      @ (writeOption (writeDaitaConfig enc) (daitaSpec a) @ rest)))))))"
    using st by (simp add: writeIpAssign_def)
  note r1 = fixed.read_step [OF s0 oks(1)]
  note r2 = u8.read_step [OF r1(2) TrueI]
  note r3 = fixed.read_step [OF r2(2) oks(2)]
  note r4 = optBytes.read_step [OF r3(2) oks(3)]
  note r5 = u8.read_step [OF r4(2) TrueI]
  note r6 = optBytes.read_step [OF r5(2) oks(4)]
  note r7 = wire_field.read_step [OF daita r6(2) oks(5)]
  from r1(1) r2(1) r3(1) r4(1) r5(1) r6(1) r7(1)
  show "readIpAssign utf8 bs off = Inr (a, off + length (writeIpAssign enc a))"
    by (simp add: readIpAssign_def writeIpAssign_def add.assoc)
qed

section \<open>The admission request on the wire\<close>

lemma leb128_groups_small: "n < 128 \<Longrightarrow> leb128_groups n = [word_of_nat n]"
  by (simp add: leb128_groups.simps [of n] drop_bit_eq_div take_bit_eq_mod)

definition ip_request_ok :: "ip_request_v7 \<Rightarrow> bool" where
  "ip_request_ok p \<longleftrightarrow> 1 \<le> length (req_tokens p) \<and> length (req_tokens p) \<le> 8 \<and>
     list_all (\<lambda>t. length t = 354) (req_tokens p) \<and> pred_option (\<lambda>ip. length ip = 4) (preferIpv4 p)"

definition ip_request_wire :: "ip_request_v7 \<Rightarrow> bytes" where
  "ip_request_wire p = [0xc0, 3, 5] @ writeOption writeFixed (preferIpv4 p) @ [flag_byte (wantsIpv6 p)]
     @ [word_of_nat (length (req_tokens p))] @ concat (req_tokens p) @ [flag_byte (wantsDaita p)]"

lemma mapR_expectLen:
  "mapR (\<lambda>t. guardR (length t = n) WireLength) ts = Inr us \<longleftrightarrow> list_all (\<lambda>t. length t = n) ts \<and> us = map (\<lambda>_. ()) ts"
  by (induction ts arbitrary: us) (auto simp: bindR_eq_Inr_conv)

lemma encodeIpRequestV7_Inr_conv:
  "encodeIpRequestV7 p = Inr bs \<longleftrightarrow> ip_request_ok p \<and> bs = ip_request_wire p"
proof -
  have "writeLeb IP_REQUEST_V7_VARIANT = Inr [5]"
    by (simp add: IP_REQUEST_V7_VARIANT_def writeLeb_def liftLeb_def encodeLeb128_def leb128_groups_small)
  moreover have "writeLeb (int n) = Inr [word_of_nat n]" if "n \<le> 8" for n
    using that by (simp add: writeLeb_def liftLeb_def encodeLeb128_def leb128_groups_small)
  ultimately show ?thesis
    by (cases "preferIpv4 p")
      (auto simp: encodeIpRequestV7_def bindR_eq_Inr_conv mapR_expectLen ip_request_ok_def ip_request_wire_def
        MAX_SESSION_TOKENS_def SESSION_TOKEN_LEN_def CONTROL_FIRST_BYTE_def CONTROL_VERSION_V3_def
        expectLen_def writeOption_def writeFixed_def Suc_le_eq split: if_splits)
qed

lemma concat_eq_same_length:
  assumes "list_all (\<lambda>t. length t = n) xs" "list_all (\<lambda>t. length t = n) ys" "length xs = length ys"
    and "concat xs = concat ys"
  shows "xs = ys"
  using assms(3,1,2,4) by (induction xs ys rule: list_induct2) auto

lemma flag_byte_inj: "flag_byte a = flag_byte b \<longleftrightarrow> a = b"
  by (simp add: flag_byte_def)

lemma word_of_nat_byte_inj: "m \<le> 8 \<Longrightarrow> n \<le> 8 \<Longrightarrow> (word_of_nat m :: byte) = word_of_nat n \<Longrightarrow> m = n"
proof -
  assume m: "m \<le> 8" and n: "n \<le> 8" and eq: "(word_of_nat m :: byte) = word_of_nat n"
  from eq have "unat (word_of_nat m :: byte) = unat (word_of_nat n :: byte)" by simp
  with m n show "m = n" by (simp add: unat_of_nat)
qed

lemma ip_request_wire_inj:
  assumes "ip_request_ok p" "ip_request_ok q" and "ip_request_wire p = ip_request_wire q"
  shows "p = q"
proof -
  have p4: "preferIpv4 p = preferIpv4 q \<and>
      [flag_byte (wantsIpv6 p)] @ [word_of_nat (length (req_tokens p))] @ concat (req_tokens p) @ [flag_byte (wantsDaita p)] =
      [flag_byte (wantsIpv6 q)] @ [word_of_nat (length (req_tokens q))] @ concat (req_tokens q) @ [flag_byte (wantsDaita q)]"
    using assms by (cases "preferIpv4 p"; cases "preferIpv4 q")
      (auto simp: ip_request_wire_def ip_request_ok_def writeOption_def writeFixed_def)
  then have v6: "wantsIpv6 p = wantsIpv6 q" and cat: "concat (req_tokens p) = concat (req_tokens q)"
    and daita: "wantsDaita p = wantsDaita q"
    and cnt: "(word_of_nat (length (req_tokens p)) :: byte) = word_of_nat (length (req_tokens q))"
    by (simp_all add: flag_byte_inj)
  have "length (req_tokens p) = length (req_tokens q)"
    using assms(1,2) cnt by (intro word_of_nat_byte_inj) (simp_all add: ip_request_ok_def)
  with cat assms(1,2) have "req_tokens p = req_tokens q"
    by (intro concat_eq_same_length [of 354]) (simp_all add: ip_request_ok_def)
  with p4 v6 daita show ?thesis by simp
qed

section \<open>Properties\<close>

text \<open>
  \<^verbatim>\<open>encodeIpRequestV7\<close> returns exactly for one to eight session tokens of 354 bytes with an absent or
  four-byte IPv4 preference; two requests with the same bytes are the same request; and the bytes, which
  travel only from client to exit, are refused by \<^verbatim>\<open>decodeControlMessage\<close> as variant five.
\<close>

theorem encodeIpRequestV7_spec:
  "((\<exists>bs. encodeIpRequestV7 p = Inr bs) \<longleftrightarrow> ip_request_ok p) \<and>
   (encodeIpRequestV7 p = Inr bs \<and> encodeIpRequestV7 q = Inr bs \<longrightarrow> p = q) \<and>
   (encodeIpRequestV7 p = Inr bs \<longrightarrow> decodeControlMessage utf8 bs = Inl (WireVariant 5) \<and>
     length bs = (if preferIpv4 p = None then 7 else 11) + 354 * length (req_tokens p))"
proof (intro conjI impI)
  show "(\<exists>bs. encodeIpRequestV7 p = Inr bs) \<longleftrightarrow> ip_request_ok p"
    by (simp add: encodeIpRequestV7_Inr_conv)
  show "p = q" if "encodeIpRequestV7 p = Inr bs \<and> encodeIpRequestV7 q = Inr bs"
    using that ip_request_wire_inj by (auto simp: encodeIpRequestV7_Inr_conv)
next
  assume enc: "encodeIpRequestV7 p = Inr bs"
  let ?rest = "drop 3 bs"
  have bs: "bs = [0xc0, 3, 5] @ ?rest" "ip_request_ok p"
    using enc by (simp_all add: encodeIpRequestV7_Inr_conv ip_request_wire_def)
  have "readLeb (5 # ?rest) 0 = Inr (5, 1)"
    using leb.read_step [of "5 # ?rest" 0 5 ?rest] by (simp add: stands_def leb128_groups_small)
  then have "decodeControlMessage utf8 ([0xc0, 3, 5] @ ?rest) = Inl (WireVariant 5)"
    by (simp add: decodeControlMessage_def CONTROL_FIRST_BYTE_def CONTROL_VERSION_V3_def readControlVariant_def)
  then show "decodeControlMessage utf8 bs = Inl (WireVariant 5)" using bs(1) by simp
  have "length (concat ts) = 354 * length ts" if "list_all (\<lambda>t. length t = 354) ts" for ts :: "bytes list"
    using that by (induction ts) simp_all
  then show "length bs = (if preferIpv4 p = None then 7 else 11) + 354 * length (req_tokens p)"
    using enc by (auto simp: encodeIpRequestV7_Inr_conv ip_request_wire_def ip_request_ok_def writeOption_def
        writeFixed_def split: option.splits)
qed

theorem encodeIpRequestV7_spec_witness:
  "\<exists>bs. encodeIpRequestV7 \<lparr>req_tokens = [replicate 354 1], wantsIpv6 = True, preferIpv4 = None, wantsDaita = False\<rparr> = Inr bs \<and>
    length bs = 361 \<and> decodeControlMessage (\<lambda>_. []) bs = Inl (WireVariant 5)"
proof -
  let ?p = "\<lparr>req_tokens = [replicate 354 1], wantsIpv6 = True, preferIpv4 = None, wantsDaita = False\<rparr>"
  have "ip_request_ok ?p" by (simp add: ip_request_ok_def)
  then obtain bs where "encodeIpRequestV7 ?p = Inr bs" using encodeIpRequestV7_spec [of ?p] by blast
  with encodeIpRequestV7_spec [of ?p bs ?p "\<lambda>_. []"] show ?thesis by auto
qed

lemma decode_written_control:
  assumes utf8: "\<And>s. utf8 (enc s) = s" and "control_ok enc msg"
  shows "decodeControlMessage utf8 (writeControlMessage enc msg) = Inr msg"
proof -
  have head: "readLeb (word_of_nat n # p) 0 = Inr (n, 1)" "stands (word_of_nat n # p) 1 p" if "n < 128" for n p
    using leb.read_step [of "word_of_nat n # p" 0 n p] that by (simp_all add: stands_def leb128_groups_small)
  show ?thesis
  proof (cases msg)
    case (MIpAssign a)
    let ?p = "writeIpAssign enc a"
    have "readIpAssign utf8 (1 # ?p) 1 = Inr (a, 1 + length ?p)"
      using wire_field.read_write [OF wire_field_ipAssign [of utf8 enc, OF utf8], of a "1 # ?p" 1 "[]"]
        head(2) [of 1 ?p] assms(2) MIpAssign by simp
    with MIpAssign head(1) [of 1 ?p] show ?thesis
      by (simp add: decodeControlMessage_def CONTROL_FIRST_BYTE_def CONTROL_VERSION_V3_def readControlVariant_def)
  next
    case MIpExhausted
    with head(1) [of 2 "[]"] show ?thesis
      by (simp add: decodeControlMessage_def CONTROL_FIRST_BYTE_def CONTROL_VERSION_V3_def readControlVariant_def)
  next
    case MRejected
    with head(1) [of 3 "[]"] show ?thesis
      by (simp add: decodeControlMessage_def CONTROL_FIRST_BYTE_def CONTROL_VERSION_V3_def readControlVariant_def)
  next
    case (MExitDraining deadline reason)
    let ?p = "leb128_groups deadline @ [reason]"
    have d: "deadline < 2 ^ 70" using assms(2) MExitDraining by simp
    note r1 = leb.read_step [OF _ d, of "4 # ?p" 1 "[reason]"]
    have s: "stands (4 # ?p) 1 ?p" using head(2) [of 4 ?p] by simp
    from r1(2) [OF s] have "stands (4 # ?p) (1 + length (leb128_groups deadline)) (writeU8 reason @ [])"
      by (simp add: writeU8_def)
    note r2 = u8.read_step [OF this TrueI]
    from MExitDraining head(1) [of 4 ?p] r1(1) [OF s] r2(1) show ?thesis
      by (simp add: decodeControlMessage_def CONTROL_FIRST_BYTE_def CONTROL_VERSION_V3_def readControlVariant_def
          writeU8_def)
  qed
qed

text \<open>
  Every control message an exit may write decodes to itself: \<^verbatim>\<open>decodeControlMessage\<close> inverts the postcard
  layout on all four exit-to-client variants, optional IPv6 and DAITA spec included, whenever \<^verbatim>\<open>TextDecoder\<close>
  inverts the UTF-8 encoding of the machine specs.
\<close>

theorem decodeControlMessage_roundtrip:
  assumes utf8: "\<And>s. utf8 (enc s) = s" and "control_ok enc msg"
  shows "decodeControlMessage utf8 (writeControlMessage enc msg) = Inr msg"
  using assms by (rule decode_written_control)

theorem decodeControlMessage_roundtrip_witness:
  "decodeControlMessage (map (\<lambda>b. char_of (unat b)))
     (writeControlMessage (map of_char) (MIpAssign \<lparr>ipv4 = [10, 0, 0, 2], prefixLen = 16, gatewayIpv4 = [10, 0, 0, 1],
        ipv6 = None, prefixLenV6 = 0, gatewayIpv6 = None,
        daitaSpec = Some \<lparr>machineSpecs = [''m1''], maxPaddingFrac = replicate 8 0, maxBlockingFrac = replicate 8 1\<rparr>\<rparr>)) =
   Inr (MIpAssign \<lparr>ipv4 = [10, 0, 0, 2], prefixLen = 16, gatewayIpv4 = [10, 0, 0, 1],
        ipv6 = None, prefixLenV6 = 0, gatewayIpv6 = None,
        daitaSpec = Some \<lparr>machineSpecs = [''m1''], maxPaddingFrac = replicate 8 0, maxBlockingFrac = replicate 8 1\<rparr>\<rparr>)"
proof (rule decodeControlMessage_roundtrip)
  show "map (\<lambda>b :: byte. char_of (unat b)) (map of_char s) = s" for s :: string
    by (simp add: o_def unat_of_char)
qed (simp add: ipAssign_ok_def daita_ok_def)

text \<open>
  The dotted quad \<^verbatim>\<open>ipv4ToString\<close> shows names one address: two addresses of the same length with the same
  text are the same.
\<close>

theorem ipv4ToString_inj: "inj_on ipv4ToString {a. length a = n}"
proof (rule inj_onI)
  fix a b
  assume "a \<in> {a. length a = n}" "b \<in> {a. length a = n}" and eq: "ipv4ToString a = ipv4ToString b"
  then have len: "length a = length b" by simp
  have dot: "CHR ''.'' \<notin> set (show_nat n)" for n
    using show_nat_digits [of n] by (auto simp: list_all_iff is_digit_def)
  have "map (\<lambda>b. show_nat (unat b)) a = map (\<lambda>b. show_nat (unat b)) b"
    using eq len dot by (intro join_inj [of "CHR ''.''"]) (auto simp: ipv4ToString_def)
  then show "a = b"
    by (rule map_injective) (auto intro!: injI simp: word_unat_eq_iff)
qed

end
