(* ===== verification/Frames.thy ===== *)
theory Frames
  imports Wire_Reader
begin

text \<open>
  The two multi-hop datagram frames, \<^verbatim>\<open>packages/core/src/edge/frame.ts\<close> (\<^verbatim>\<open>/v1\<close>) and
  \<^verbatim>\<open>packages/core/src/edge/frame-v2.ts\<close> (\<^verbatim>\<open>/v2\<close>, with the post-quantum ciphertext): records, encoders
  and decoders, their round trips, and what is left of malleability in what the decoders accept.
  A \<^verbatim>\<open>number\<close> or \<^verbatim>\<open>bigint\<close> field is an integer; storing the version in a \<^verbatim>\<open>Uint8Array\<close> wraps it.
\<close>

section \<open>The v1 frame\<close>

definition WARREN_HPKE_VERSION :: byte where
  "WARREN_HPKE_VERSION = 1"

definition EXIT_ID_LEN :: nat where
  "EXIT_ID_LEN = 16"

definition ENCAPSULATED_KEY_LEN :: nat where
  "ENCAPSULATED_KEY_LEN = 32"

definition AEAD_TAG_LEN :: nat where
  "AEAD_TAG_LEN = 16"

lemmas frame_lens [simp] = EXIT_ID_LEN_def ENCAPSULATED_KEY_LEN_def AEAD_TAG_LEN_def

record WarrenMultihopFrame =
  version :: int
  exitId :: bytes
  epoch :: int
  seq :: int
  encapsulatedKey :: bytes
  aeadTag :: bytes
  ciphertext :: bytes

definition encodeMultihopFrame :: "WarrenMultihopFrame \<Rightarrow> wire_error + bytes" where
  "encodeMultihopFrame frame =
     bindR (expectLen (exitId frame) EXIT_ID_LEN) (\<lambda>_.
     bindR (expectLen (encapsulatedKey frame) ENCAPSULATED_KEY_LEN) (\<lambda>_.
     bindR (expectLen (aeadTag frame) AEAD_TAG_LEN) (\<lambda>_.
     bindR (writeLeb (epoch frame)) (\<lambda>ep.
     bindR (writeLeb (seq frame)) (\<lambda>sq.
     bindR (writeLeb (int (length (ciphertext frame)))) (\<lambda>ctLen.
     Inr ([word_of_int (version frame)] @ exitId frame @ ep @ sq @ encapsulatedKey frame
       @ aeadTag frame @ ctLen @ ciphertext frame)))))))"

definition decodeMultihopFrame :: "bytes \<Rightarrow> wire_error + WarrenMultihopFrame" where
  "decodeMultihopFrame bs =
     bindR (readU8 bs 0) (\<lambda>(ver, o1).
     bindR (guardR (ver = WARREN_HPKE_VERSION) (WireVersion ver)) (\<lambda>_.
     bindR (readBytes EXIT_ID_LEN bs o1) (\<lambda>(exit_id, o2).
     bindR (readLeb bs o2) (\<lambda>(ep, o3).
     bindR (readLeb bs o3) (\<lambda>(sq, o4).
     bindR (readBytes ENCAPSULATED_KEY_LEN bs o4) (\<lambda>(key, o5).
     bindR (readBytes AEAD_TAG_LEN bs o5) (\<lambda>(tag, o6).
     bindR (readPrefixed bs o6) (\<lambda>(ct, o7).
     bindR (guardR (o7 = length bs) WireTrailing) (\<lambda>_.
     Inr \<lparr>version = uint ver, exitId = exit_id, epoch = int (js_Number ep), seq = int sq,
          encapsulatedKey = key, aeadTag = tag, ciphertext = ct\<rparr>)))))))))"

section \<open>The v2 frame\<close>

definition WARREN_HPKE_VERSION_V2 :: byte where
  "WARREN_HPKE_VERSION_V2 = 2"

definition MAX_FRAME_SIZE :: nat where
  "MAX_FRAME_SIZE = 65536"

record WarrenMultihopFrameV2 =
  version2 :: int
  exitId2 :: bytes
  epoch2 :: int
  seq2 :: int
  encapsulatedKey2 :: bytes
  pqCt :: bytes
  aeadTag2 :: bytes
  ciphertext2 :: bytes

definition encodeMultihopFrameV2 :: "WarrenMultihopFrameV2 \<Rightarrow> wire_error + bytes" where
  "encodeMultihopFrameV2 frame =
     bindR (expectLen (exitId2 frame) EXIT_ID_LEN) (\<lambda>_.
     bindR (expectLen (encapsulatedKey2 frame) ENCAPSULATED_KEY_LEN) (\<lambda>_.
     bindR (expectLen (aeadTag2 frame) AEAD_TAG_LEN) (\<lambda>_.
     bindR (writeLeb (epoch2 frame)) (\<lambda>ep.
     bindR (writeLeb (seq2 frame)) (\<lambda>sq.
     bindR (writeLeb (int (length (pqCt frame)))) (\<lambda>pqCtLen.
     bindR (writeLeb (int (length (ciphertext2 frame)))) (\<lambda>ctLen.
     Inr ([word_of_int (version2 frame)] @ exitId2 frame @ ep @ sq @ encapsulatedKey2 frame
       @ pqCtLen @ pqCt frame @ aeadTag2 frame @ ctLen @ ciphertext2 frame))))))))"

definition decodeMultihopFrameV2 :: "bytes \<Rightarrow> wire_error + WarrenMultihopFrameV2" where
  "decodeMultihopFrameV2 bs =
     bindR (guardR (\<not> length bs > MAX_FRAME_SIZE) WireOversize) (\<lambda>_.
     bindR (readU8 bs 0) (\<lambda>(ver, o1).
     bindR (guardR (ver = WARREN_HPKE_VERSION_V2) (WireVersion ver)) (\<lambda>_.
     bindR (readBytes EXIT_ID_LEN bs o1) (\<lambda>(exit_id, o2).
     bindR (readLeb bs o2) (\<lambda>(ep, o3).
     bindR (readLeb bs o3) (\<lambda>(sq, o4).
     bindR (readBytes ENCAPSULATED_KEY_LEN bs o4) (\<lambda>(key, o5).
     bindR (readPrefixed bs o5) (\<lambda>(pq, o6).
     bindR (readBytes AEAD_TAG_LEN bs o6) (\<lambda>(tag, o7).
     bindR (readPrefixed bs o7) (\<lambda>(ct, o8).
     bindR (guardR (o8 = length bs) WireTrailing) (\<lambda>_.
     Inr \<lparr>version2 = uint ver, exitId2 = exit_id, epoch2 = int (js_Number ep), seq2 = int sq,
          encapsulatedKey2 = key, pqCt = pq, aeadTag2 = tag, ciphertext2 = ct\<rparr>)))))))))))"

section \<open>Round trips\<close>

lemma writeLeb_nonneg: "0 \<le> v \<Longrightarrow> writeLeb v = Inr (leb128_groups (nat v))"
  by (simp add: writeLeb_def liftLeb_def encodeLeb128_def)

lemma writeLeb_int [simp]: "writeLeb (int n) = Inr (leb128_groups n)"
  by (simp add: writeLeb_nonneg)

lemma writeLeb_neg: "v < 0 \<Longrightarrow> writeLeb v = Inl (LebError NegativeInteger)"
  by (simp add: writeLeb_def liftLeb_def encodeLeb128_def)

text \<open>The fields a decoder can give back, and the frame's wire image with the fields' own writers.\<close>

definition frame_ok :: "WarrenMultihopFrame \<Rightarrow> bool" where
  "frame_ok f \<longleftrightarrow> version f = 1 \<and> length (exitId f) = 16 \<and> 0 \<le> epoch f \<and> epoch f < 2 ^ 53 \<and>
     0 \<le> seq f \<and> seq f < 2 ^ 64 \<and> length (encapsulatedKey f) = 32 \<and> length (aeadTag f) = 16 \<and>
     length (ciphertext f) < 2 ^ 53"

definition frame_wire :: "WarrenMultihopFrame \<Rightarrow> bytes" where
  "frame_wire f = writeU8 (word_of_int (version f)) @ writeFixed (exitId f) @ leb128_groups (nat (epoch f))
     @ leb128_groups (nat (seq f)) @ writeFixed (encapsulatedKey f) @ writeFixed (aeadTag f)
     @ writePrefixed (ciphertext f)"

lemma encodeMultihopFrame_ok:
  assumes "length (exitId f) = 16" "length (encapsulatedKey f) = 32" "length (aeadTag f) = 16"
    "0 \<le> epoch f" "0 \<le> seq f"
  shows "encodeMultihopFrame f = Inr (frame_wire f)"
  using assms
  by (simp add: encodeMultihopFrame_def frame_wire_def expectLen_def writeLeb_nonneg writeFixed_def
      writeU8_def writePrefixed_def)

lemma decodeMultihopFrame_wire:
  assumes "frame_ok f"
  shows "decodeMultihopFrame (frame_wire f) = Inr f"
proof -
  have v: "(word_of_int (version f) :: byte) = WARREN_HPKE_VERSION" "version f = 1"
    and ok: "length (exitId f) = EXIT_ID_LEN" "length (encapsulatedKey f) = ENCAPSULATED_KEY_LEN"
    "length (aeadTag f) = AEAD_TAG_LEN" "length (ciphertext f) < 2 ^ 53"
    "nat (epoch f) < 2 ^ 70" "nat (seq f) < 2 ^ 70"
    and e: "0 \<le> epoch f" "nat (epoch f) < 2 ^ 53" "0 \<le> seq f"
    using assms by (auto simp: frame_ok_def nat_less_iff WARREN_HPKE_VERSION_def)
  have st: "stands (frame_wire f) 0 (writeU8 (word_of_int (version f)) @ writeFixed (exitId f)
     @ leb128_groups (nat (epoch f)) @ leb128_groups (nat (seq f)) @ writeFixed (encapsulatedKey f)
     @ writeFixed (aeadTag f) @ writePrefixed (ciphertext f) @ [])"
    by (simp add: stands_def frame_wire_def)
  show ?thesis
    unfolding decodeMultihopFrame_def
    apply (rule u8.read_seq [OF st TrueI], simp only: v(1) simp_thms bindR_Inr guardR_simps)
    apply (rule fixed.read_seq, assumption, rule ok)
    apply (rule leb.read_seq, assumption, rule ok)
    apply (rule leb.read_seq, assumption, rule ok)
    apply (rule fixed.read_seq, assumption, rule ok)
    apply (rule fixed.read_seq, assumption, rule ok)
    apply (rule prefixed.read_seq, assumption, rule ok)
    using e by (simp add: stands_def js_Number_exact WARREN_HPKE_VERSION_def v)
qed

definition frameV2_ok :: "WarrenMultihopFrameV2 \<Rightarrow> bool" where
  "frameV2_ok f \<longleftrightarrow> version2 f = 2 \<and> length (exitId2 f) = 16 \<and> 0 \<le> epoch2 f \<and> epoch2 f < 2 ^ 53 \<and>
     0 \<le> seq2 f \<and> seq2 f < 2 ^ 64 \<and> length (encapsulatedKey2 f) = 32 \<and> length (aeadTag2 f) = 16"

definition frameV2_wire :: "WarrenMultihopFrameV2 \<Rightarrow> bytes" where
  "frameV2_wire f = writeU8 (word_of_int (version2 f)) @ writeFixed (exitId2 f)
     @ leb128_groups (nat (epoch2 f)) @ leb128_groups (nat (seq2 f)) @ writeFixed (encapsulatedKey2 f)
     @ writePrefixed (pqCt f) @ writeFixed (aeadTag2 f) @ writePrefixed (ciphertext2 f)"

lemma encodeMultihopFrameV2_ok:
  assumes "length (exitId2 f) = 16" "length (encapsulatedKey2 f) = 32" "length (aeadTag2 f) = 16"
    "0 \<le> epoch2 f" "0 \<le> seq2 f"
  shows "encodeMultihopFrameV2 f = Inr (frameV2_wire f)"
  using assms
  by (simp add: encodeMultihopFrameV2_def frameV2_wire_def expectLen_def writeLeb_nonneg writeFixed_def
      writeU8_def writePrefixed_def)

lemma decodeMultihopFrameV2_wire:
  assumes "frameV2_ok f" and cap: "length (frameV2_wire f) \<le> MAX_FRAME_SIZE"
  shows "decodeMultihopFrameV2 (frameV2_wire f) = Inr f"
proof -
  have small: "length (ciphertext2 f) < 2 ^ 53" "length (pqCt f) < 2 ^ 53"
    using cap by (simp_all add: frameV2_wire_def writePrefixed_def MAX_FRAME_SIZE_def)
  have v: "(word_of_int (version2 f) :: byte) = WARREN_HPKE_VERSION_V2" "version2 f = 2"
    and ok: "length (exitId2 f) = EXIT_ID_LEN" "length (encapsulatedKey2 f) = ENCAPSULATED_KEY_LEN"
    "length (aeadTag2 f) = AEAD_TAG_LEN" "nat (epoch2 f) < 2 ^ 70" "nat (seq2 f) < 2 ^ 70"
    and e: "0 \<le> epoch2 f" "nat (epoch2 f) < 2 ^ 53" "0 \<le> seq2 f"
    using assms by (auto simp: frameV2_ok_def nat_less_iff WARREN_HPKE_VERSION_V2_def)
  have st: "stands (frameV2_wire f) 0 (writeU8 (word_of_int (version2 f)) @ writeFixed (exitId2 f)
     @ leb128_groups (nat (epoch2 f)) @ leb128_groups (nat (seq2 f)) @ writeFixed (encapsulatedKey2 f)
     @ writePrefixed (pqCt f) @ writeFixed (aeadTag2 f) @ writePrefixed (ciphertext2 f) @ [])"
    by (simp add: stands_def frameV2_wire_def)
  show ?thesis
    unfolding decodeMultihopFrameV2_def
    using cap apply (simp only: not_less bindR_Inr guardR_simps)
    apply (rule u8.read_seq [OF st TrueI], simp only: v(1) simp_thms bindR_Inr guardR_simps)
    apply (rule fixed.read_seq, assumption, rule ok)
    apply (rule leb.read_seq, assumption, rule ok)
    apply (rule leb.read_seq, assumption, rule ok)
    apply (rule fixed.read_seq, assumption, rule ok)
    apply (rule prefixed.read_seq, assumption, rule small)
    apply (rule fixed.read_seq, assumption, rule ok)
    apply (rule prefixed.read_seq, assumption, rule small)
    using e by (simp add: stands_def js_Number_exact WARREN_HPKE_VERSION_V2_def v)
qed

section \<open>What the decoders accept\<close>

lemma decodeMultihopFrame_covers:
  assumes "decodeMultihopFrame bs = Inr f" and "length bs < 2 ^ 53" and "epoch f < 2 ^ 53"
  shows "covers bs 0 (length bs) (frame_wire f)"
proof -
  from assms(1) obtain ver o1 xid o2 ep o3 sq o4 key o5 tag o6 ct where
    r: "readU8 bs 0 = Inr (ver, o1)" "readBytes EXIT_ID_LEN bs o1 = Inr (xid, o2)"
      "readLeb bs o2 = Inr (ep, o3)" "readLeb bs o3 = Inr (sq, o4)"
      "readBytes ENCAPSULATED_KEY_LEN bs o4 = Inr (key, o5)" "readBytes AEAD_TAG_LEN bs o5 = Inr (tag, o6)"
      "readPrefixed bs o6 = Inr (ct, length bs)"
    and f: "f = \<lparr>version = uint ver, exitId = xid, epoch = int (js_Number ep), seq = int sq,
          encapsulatedKey = key, aeadTag = tag, ciphertext = ct\<rparr>"
    by (auto simp: decodeMultihopFrame_def bindR_eq_Inr_conv split: if_splits)
  have "js_Number ep < 2 ^ 53" using assms(3) by (simp add: f)
  then have "js_Number ep = ep" by (rule js_Number_small)
  then have "frame_wire f = [ver] @ xid @ leb128_groups ep @ leb128_groups sq @ key @ tag @ writePrefixed ct"
    by (simp add: frame_wire_def f writeU8_def writeFixed_def)
  moreover have "covers bs 0 (length bs)
      ([ver] @ xid @ leb128_groups ep @ leb128_groups sq @ key @ tag @ writePrefixed ct)"
    by (rule covers_append [OF readU8_covers [OF r(1)]] covers_append [OF readBytes_covers [OF r(2)]]
        covers_append [OF readLeb_covers [OF r(3)]] covers_append [OF readLeb_covers [OF r(4)]]
        covers_append [OF readBytes_covers [OF r(5)]] covers_append [OF readBytes_covers [OF r(6)]]
        readPrefixed_covers [OF r(7) assms(2)])+
  ultimately show ?thesis by simp
qed

lemma decodeMultihopFrame_fields:
  assumes "decodeMultihopFrame bs = Inr f"
  shows "version f = 1" "length (exitId f) = 16" "length (encapsulatedKey f) = 32"
    "length (aeadTag f) = 16" "0 \<le> epoch f" "0 \<le> seq f" "bs ! 0 = 1"
  using assms
  by (auto simp: decodeMultihopFrame_def bindR_eq_Inr_conv readBytes_Inr_conv readU8_Inr_conv
      WARREN_HPKE_VERSION_def split: if_splits)

lemma decodeMultihopFrameV2_covers:
  assumes "decodeMultihopFrameV2 bs = Inr f" and "epoch2 f < 2 ^ 53"
  shows "covers bs 0 (length bs) (frameV2_wire f)"
proof -
  from assms(1) obtain ver o1 xid o2 ep o3 sq o4 key o5 pq o6 tag o7 ct where
    cap: "length bs < 2 ^ 53" and
    r: "readU8 bs 0 = Inr (ver, o1)" "readBytes EXIT_ID_LEN bs o1 = Inr (xid, o2)"
      "readLeb bs o2 = Inr (ep, o3)" "readLeb bs o3 = Inr (sq, o4)"
      "readBytes ENCAPSULATED_KEY_LEN bs o4 = Inr (key, o5)" "readPrefixed bs o5 = Inr (pq, o6)"
      "readBytes AEAD_TAG_LEN bs o6 = Inr (tag, o7)" "readPrefixed bs o7 = Inr (ct, length bs)"
    and f: "f = \<lparr>version2 = uint ver, exitId2 = xid, epoch2 = int (js_Number ep), seq2 = int sq,
          encapsulatedKey2 = key, pqCt = pq, aeadTag2 = tag, ciphertext2 = ct\<rparr>"
    by (auto simp: decodeMultihopFrameV2_def bindR_eq_Inr_conv MAX_FRAME_SIZE_def split: if_splits)
  have "js_Number ep < 2 ^ 53" using assms(2) by (simp add: f)
  then have "js_Number ep = ep" by (rule js_Number_small)
  then have "frameV2_wire f =
      [ver] @ xid @ leb128_groups ep @ leb128_groups sq @ key @ writePrefixed pq @ tag @ writePrefixed ct"
    by (simp add: frameV2_wire_def f writeU8_def writeFixed_def)
  moreover have "covers bs 0 (length bs)
      ([ver] @ xid @ leb128_groups ep @ leb128_groups sq @ key @ writePrefixed pq @ tag @ writePrefixed ct)"
    by (rule covers_append [OF readU8_covers [OF r(1)]] covers_append [OF readBytes_covers [OF r(2)]]
        covers_append [OF readLeb_covers [OF r(3)]] covers_append [OF readLeb_covers [OF r(4)]]
        covers_append [OF readBytes_covers [OF r(5)]] covers_append [OF readPrefixed_covers [OF r(6) cap]]
        covers_append [OF readBytes_covers [OF r(7)]] readPrefixed_covers [OF r(8) cap])+
  ultimately show ?thesis by simp
qed

lemma decodeMultihopFrameV2_fields:
  assumes "decodeMultihopFrameV2 bs = Inr f"
  shows "version2 f = 2" "length (exitId2 f) = 16" "length (encapsulatedKey2 f) = 32"
    "length (aeadTag2 f) = 16" "0 \<le> epoch2 f" "0 \<le> seq2 f" "bs ! 0 = 2" "length bs \<le> 65536"
  using assms
  by (auto simp: decodeMultihopFrameV2_def bindR_eq_Inr_conv readBytes_Inr_conv readU8_Inr_conv
      WARREN_HPKE_VERSION_V2_def MAX_FRAME_SIZE_def split: if_splits)

section \<open>Properties\<close>

text \<open>
  C35. A well-formed \<^verbatim>\<open>/v1\<close> frame (sixteen-byte exit id and tag, 32-byte key, an epoch that is a safe integer,
  a \<^verbatim>\<open>u64\<close> sequence number) encodes, and \<^verbatim>\<open>decodeMultihopFrame\<close> of the encoding is the frame.
\<close>

theorem multihopFrame_roundtrip:
  assumes "frame_ok f"
  shows "\<exists>bs. encodeMultihopFrame f = Inr bs \<and> decodeMultihopFrame bs = Inr f"
  using assms encodeMultihopFrame_ok [of f] decodeMultihopFrame_wire [of f] by (auto simp: frame_ok_def)

theorem multihopFrame_roundtrip_witness:
  "frame_ok \<lparr>version = 1, exitId = replicate 16 7, epoch = 3, seq = 300, encapsulatedKey = replicate 32 9,
     aeadTag = replicate 16 1, ciphertext = [1, 2, 3]\<rparr> \<and>
   (\<exists>bs. encodeMultihopFrame \<lparr>version = 1, exitId = replicate 16 7, epoch = 3, seq = 300,
      encapsulatedKey = replicate 32 9, aeadTag = replicate 16 1, ciphertext = [1, 2, 3]\<rparr> = Inr bs \<and>
    decodeMultihopFrame bs = Inr \<lparr>version = 1, exitId = replicate 16 7, epoch = 3, seq = 300,
      encapsulatedKey = replicate 32 9, aeadTag = replicate 16 1, ciphertext = [1, 2, 3]\<rparr>)"
proof -
  have ok: "frame_ok \<lparr>version = 1, exitId = replicate 16 7, epoch = 3, seq = 300,
      encapsulatedKey = replicate 32 9, aeadTag = replicate 16 1, ciphertext = [1, 2, 3]\<rparr>"
    by (simp add: frame_ok_def)
  with multihopFrame_roundtrip [OF ok] show ?thesis by blast
qed

text \<open>
  What is left of frame malleability in \<^verbatim>\<open>/v1\<close>: a buffer \<^verbatim>\<open>decodeMultihopFrame\<close> accepts (with an epoch that
  is a safe integer) re-encodes without an error into at most as many bytes, and when the length is the
  same the bytes are the same. Padded integers are the only other spellings of a frame.
\<close>

theorem decodeMultihopFrame_reencode:
  assumes "decodeMultihopFrame bs = Inr f" and "length bs < 2 ^ 53" and "epoch f < 2 ^ 53"
  shows "\<exists>bs'. encodeMultihopFrame f = Inr bs' \<and> length bs' \<le> length bs \<and>
    (length bs' = length bs \<longrightarrow> bs' = bs)"
  using covers_all [OF decodeMultihopFrame_covers [OF assms]] decodeMultihopFrame_fields [OF assms(1)]
  by (auto simp: encodeMultihopFrame_ok)

theorem decodeMultihopFrame_reencode_witness:
  "\<exists>bs bs'. decodeMultihopFrame bs = Inr \<lparr>version = 1, exitId = replicate 16 7, epoch = 3, seq = 300,
      encapsulatedKey = replicate 32 9, aeadTag = replicate 16 1, ciphertext = [1, 2, 3]\<rparr> \<and>
    encodeMultihopFrame \<lparr>version = 1, exitId = replicate 16 7, epoch = 3, seq = 300,
      encapsulatedKey = replicate 32 9, aeadTag = replicate 16 1, ciphertext = [1, 2, 3]\<rparr> = Inr bs' \<and>
    length bs' \<le> length bs"
proof -
  let ?f = "\<lparr>version = 1, exitId = replicate 16 7, epoch = 3, seq = 300, encapsulatedKey = replicate 32 9,
      aeadTag = replicate 16 1, ciphertext = [1, 2, 3]\<rparr>"
  have d: "decodeMultihopFrame (frame_wire ?f) = Inr ?f"
    by (rule decodeMultihopFrame_wire) (simp add: frame_ok_def)
  have short: "length (leb128_groups n) \<le> 10" if "n < 2 ^ 70" for n
    using length_leb128_groups [of n 10] that by simp
  have "length (frame_wire ?f) < 2 ^ 53"
    using short [of 300] short [of 3] short [of "Suc (Suc (Suc 0))"] by (simp add: frame_wire_def writeU8_def writeFixed_def writePrefixed_def)
  with d decodeMultihopFrame_reencode [OF d] show ?thesis by auto
qed

text \<open>
  A well-formed \<^verbatim>\<open>/v2\<close> frame whose encoding is within the 64 KiB cap round-trips.
\<close>

theorem multihopFrameV2_roundtrip:
  assumes "frameV2_ok f" and "encodeMultihopFrameV2 f = Inr bs" and "length bs \<le> MAX_FRAME_SIZE"
  shows "decodeMultihopFrameV2 bs = Inr f"
  using assms encodeMultihopFrameV2_ok [of f] decodeMultihopFrameV2_wire [of f]
  by (auto simp: frameV2_ok_def)

theorem multihopFrameV2_roundtrip_witness:
  "\<exists>bs. encodeMultihopFrameV2 \<lparr>version2 = 2, exitId2 = replicate 16 7, epoch2 = 0, seq2 = 1,
      encapsulatedKey2 = replicate 32 9, pqCt = [], aeadTag2 = replicate 16 1, ciphertext2 = [5]\<rparr> = Inr bs \<and>
    decodeMultihopFrameV2 bs = Inr \<lparr>version2 = 2, exitId2 = replicate 16 7, epoch2 = 0, seq2 = 1,
      encapsulatedKey2 = replicate 32 9, pqCt = [], aeadTag2 = replicate 16 1, ciphertext2 = [5]\<rparr>"
proof -
  let ?f = "\<lparr>version2 = 2, exitId2 = replicate 16 7, epoch2 = 0, seq2 = 1,
      encapsulatedKey2 = replicate 32 9, pqCt = [], aeadTag2 = replicate 16 1, ciphertext2 = [5]\<rparr>"
  have e: "encodeMultihopFrameV2 ?f = Inr (frameV2_wire ?f)" by (rule encodeMultihopFrameV2_ok) simp_all
  moreover have "length (frameV2_wire ?f) \<le> MAX_FRAME_SIZE"
    by (simp add: frameV2_wire_def writeU8_def writeFixed_def writePrefixed_def leb128_groups.simps MAX_FRAME_SIZE_def)
  ultimately show ?thesis using multihopFrameV2_roundtrip [OF _ e] by (simp add: frameV2_ok_def)
qed

text \<open>
  Every buffer \<^verbatim>\<open>decodeMultihopFrameV2\<close> accepts is at most 64 KiB, carries the version byte two, and (with
  a safe epoch) re-encodes into at most as many bytes, the same ones when as many.
\<close>

theorem decodeMultihopFrameV2_reencode:
  assumes "decodeMultihopFrameV2 bs = Inr f" and "epoch2 f < 2 ^ 53"
  shows "length bs \<le> 65536 \<and> version2 f = 2 \<and>
    (\<exists>bs'. encodeMultihopFrameV2 f = Inr bs' \<and> length bs' \<le> length bs \<and>
      (length bs' = length bs \<longrightarrow> bs' = bs))"
  using covers_all [OF decodeMultihopFrameV2_covers [OF assms]] decodeMultihopFrameV2_fields [OF assms(1)]
  by (auto simp: encodeMultihopFrameV2_ok)

theorem decodeMultihopFrameV2_reencode_witness:
  "\<exists>bs bs'. decodeMultihopFrameV2 bs = Inr \<lparr>version2 = 2, exitId2 = replicate 16 7, epoch2 = 0, seq2 = 1,
      encapsulatedKey2 = replicate 32 9, pqCt = [], aeadTag2 = replicate 16 1, ciphertext2 = [5]\<rparr> \<and>
    encodeMultihopFrameV2 \<lparr>version2 = 2, exitId2 = replicate 16 7, epoch2 = 0, seq2 = 1,
      encapsulatedKey2 = replicate 32 9, pqCt = [], aeadTag2 = replicate 16 1, ciphertext2 = [5]\<rparr> = Inr bs' \<and>
    length bs' \<le> length bs"
proof -
  let ?f = "\<lparr>version2 = 2, exitId2 = replicate 16 7, epoch2 = 0, seq2 = 1,
      encapsulatedKey2 = replicate 32 9, pqCt = [], aeadTag2 = replicate 16 1, ciphertext2 = [5]\<rparr>"
  have d: "decodeMultihopFrameV2 (frameV2_wire ?f) = Inr ?f"
    by (rule decodeMultihopFrameV2_wire)
      (simp_all add: frameV2_ok_def frameV2_wire_def writeU8_def writeFixed_def writePrefixed_def
        leb128_groups.simps MAX_FRAME_SIZE_def)
  from d decodeMultihopFrameV2_reencode [OF d] show ?thesis by auto
qed

text \<open>
  The two frame versions never cross-decode: no buffer is accepted by both decoders, and the encoding of
  a frame marked as one version is refused by the other version's decoder with a version error.
\<close>

theorem frames_never_cross_decode:
  "\<not> (\<exists>f g. decodeMultihopFrame bs = Inr f \<and> decodeMultihopFrameV2 bs = Inr g) \<and>
   (encodeMultihopFrame f = Inr bs \<and> version f = 1 \<and> length bs \<le> MAX_FRAME_SIZE \<longrightarrow>
      decodeMultihopFrameV2 bs = Inl (WireVersion 1)) \<and>
   (encodeMultihopFrameV2 g = Inr bs \<and> version2 g = 2 \<longrightarrow> decodeMultihopFrame bs = Inl (WireVersion 2))"
proof (intro conjI impI)
  show "\<not> (\<exists>f g. decodeMultihopFrame bs = Inr f \<and> decodeMultihopFrameV2 bs = Inr g)"
    using decodeMultihopFrame_fields(7) [of bs] decodeMultihopFrameV2_fields(7) [of bs] by force
next
  assume "encodeMultihopFrame f = Inr bs \<and> version f = 1 \<and> length bs \<le> MAX_FRAME_SIZE"
  then show "decodeMultihopFrameV2 bs = Inl (WireVersion 1)"
    by (auto simp: encodeMultihopFrame_def decodeMultihopFrameV2_def bindR_eq_Inr_conv readU8_def need_def
        WARREN_HPKE_VERSION_V2_def)
next
  assume "encodeMultihopFrameV2 g = Inr bs \<and> version2 g = 2"
  then show "decodeMultihopFrame bs = Inl (WireVersion 2)"
    by (auto simp: encodeMultihopFrameV2_def decodeMultihopFrame_def bindR_eq_Inr_conv readU8_def need_def
        WARREN_HPKE_VERSION_def)
qed

theorem frames_never_cross_decode_witness:
  "\<exists>bs. encodeMultihopFrameV2 \<lparr>version2 = 2, exitId2 = replicate 16 7, epoch2 = 0, seq2 = 1,
      encapsulatedKey2 = replicate 32 9, pqCt = [], aeadTag2 = replicate 16 1, ciphertext2 = [5]\<rparr> = Inr bs \<and>
    decodeMultihopFrame bs = Inl (WireVersion 2)"
proof -
  let ?f = "\<lparr>version2 = 2, exitId2 = replicate 16 7, epoch2 = 0, seq2 = 1,
      encapsulatedKey2 = replicate 32 9, pqCt = [], aeadTag2 = replicate 16 1, ciphertext2 = [5]\<rparr>"
  have "encodeMultihopFrameV2 ?f = Inr (frameV2_wire ?f)" by (rule encodeMultihopFrameV2_ok) simp_all
  with frames_never_cross_decode [of "frameV2_wire ?f" _ ?f] show ?thesis by auto
qed

end
