(* ===== verification/Json.thy ===== *)
theory Json
  imports Warren_Prelude
begin

text \<open>
  JSON values as the SDK handles them: what \<^verbatim>\<open>JSON.parse\<close> returns, and the narrowing the code does on it
  (\<^verbatim>\<open>typeof x === 'object'\<close>, property reads, \<^verbatim>\<open>typeof v === 'string'\<close>). A number is an integer or not
  (\<open>JFrac\<close>, by its text); an object is its list of properties in insertion order.
\<close>

datatype json =
    JNull
  | JBool bool
  | JInt int
  | JFrac string
  | JStr string
  | JArr "json list"
  | JObj "(string \<times> json) list"

section \<open>Reading\<close>

text \<open>\<^verbatim>\<open>o.key\<close> on an unknown value: \<open>None\<close> is \<^verbatim>\<open>undefined\<close>, also for a missing property.\<close>

fun jget :: "json \<Rightarrow> string \<Rightarrow> json option" where
  "jget (JObj ps) k = map_of ps k"
| "jget _ k = None"

text \<open>\<^verbatim>\<open>typeof x === 'object' && x !== null\<close>.\<close>

fun is_object :: "json \<Rightarrow> bool" where
  "is_object (JObj ps) = True"
| "is_object (JArr xs) = True"
| "is_object _ = False"

fun as_string :: "json \<Rightarrow> string option" where
  "as_string (JStr s) = Some s"
| "as_string _ = None"

fun as_bool :: "json \<Rightarrow> bool option" where
  "as_bool (JBool b) = Some b"
| "as_bool _ = None"

text \<open>\<^verbatim>\<open>typeof v === 'number' && Number.isInteger(v)\<close>.\<close>

fun as_integer :: "json \<Rightarrow> int option" where
  "as_integer (JInt i) = Some i"
| "as_integer _ = None"

fun as_array :: "json \<Rightarrow> json list option" where
  "as_array (JArr xs) = Some xs"
| "as_array _ = None"

definition jstring :: "json \<Rightarrow> string \<Rightarrow> string option" where
  "jstring j k = Option.bind (jget j k) as_string"

definition jinteger :: "json \<Rightarrow> string \<Rightarrow> int option" where
  "jinteger j k = Option.bind (jget j k) as_integer"

definition jbool :: "json \<Rightarrow> string \<Rightarrow> bool option" where
  "jbool j k = Option.bind (jget j k) as_bool"

definition jarray :: "json \<Rightarrow> string \<Rightarrow> json list option" where
  "jarray j k = Option.bind (jget j k) as_array"

lemma as_string_eq_Some [simp]: "as_string j = Some s \<longleftrightarrow> j = JStr s"
  by (cases j) auto

lemma as_integer_eq_Some [simp]: "as_integer j = Some i \<longleftrightarrow> j = JInt i"
  by (cases j) auto

lemma as_bool_eq_Some [simp]: "as_bool j = Some b \<longleftrightarrow> j = JBool b"
  by (cases j) auto

lemma as_array_eq_Some [simp]: "as_array j = Some xs \<longleftrightarrow> j = JArr xs"
  by (cases j) auto

lemma jstring_eq_Some [simp]: "jstring j k = Some s \<longleftrightarrow> jget j k = Some (JStr s)"
  by (auto simp: jstring_def bind_eq_Some_conv)

lemma jinteger_eq_Some [simp]: "jinteger j k = Some i \<longleftrightarrow> jget j k = Some (JInt i)"
  by (auto simp: jinteger_def bind_eq_Some_conv)

lemma jbool_eq_Some [simp]: "jbool j k = Some b \<longleftrightarrow> jget j k = Some (JBool b)"
  by (auto simp: jbool_def bind_eq_Some_conv)

lemma jarray_eq_Some [simp]: "jarray j k = Some xs \<longleftrightarrow> jget j k = Some (JArr xs)"
  by (auto simp: jarray_def bind_eq_Some_conv)

section \<open>Building\<close>

text \<open>\<^verbatim>\<open>if (v !== undefined) o.key = v\<close> and \<^verbatim>\<open>...(v !== undefined ? { key: v } : {})\<close>.\<close>

definition opt_prop :: "string \<Rightarrow> ('a \<Rightarrow> json) \<Rightarrow> 'a option \<Rightarrow> (string \<times> json) list" where
  "opt_prop k f v = (case v of None \<Rightarrow> [] | Some x \<Rightarrow> [(k, f x)])"

lemma opt_prop_simps [simp]: "opt_prop k f None = []" "opt_prop k f (Some x) = [(k, f x)]"
  by (simp_all add: opt_prop_def)

section \<open>Compact text\<close>

text \<open>
  \<^verbatim>\<open>JSON.stringify\<close> on a value: no white space, properties in order, strings escaped as the language does it.
  Integers print in decimal, as every safe integer does.
\<close>

definition hex_digit :: "nat \<Rightarrow> char" where
  "hex_digit d = (if d < 10 then char_of (48 + d) else char_of (87 + d))"

definition hex_value :: "char \<Rightarrow> nat option" where
  "hex_value c = (let n = of_char c :: nat in
     if 48 \<le> n \<and> n \<le> 57 then Some (n - 48)
     else if 97 \<le> n \<and> n \<le> 102 then Some (n - 87)
     else if 65 \<le> n \<and> n \<le> 70 then Some (n - 55)
     else None)"

lemma hex_value_digit [simp]: "d < 16 \<Longrightarrow> hex_value (hex_digit d) = Some d"
  by (auto simp: hex_value_def hex_digit_def)

definition json_escape :: "char \<Rightarrow> string" where
  "json_escape c = (let n = of_char c :: nat in
     if n = 34 then [CHR 0x5C, CHR 0x22]
     else if n = 92 then [CHR 0x5C, CHR 0x5C]
     else if n = 8 then [CHR 0x5C, CHR ''b'']
     else if n = 9 then [CHR 0x5C, CHR ''t'']
     else if n = 10 then [CHR 0x5C, CHR ''n'']
     else if n = 12 then [CHR 0x5C, CHR ''f'']
     else if n = 13 then [CHR 0x5C, CHR ''r'']
     else if n < 32 then [CHR 0x5C, CHR ''u'', CHR ''0'', CHR ''0'', hex_digit (n div 16), hex_digit (n mod 16)]
     else [c])"

definition json_quote :: "string \<Rightarrow> string" where
  "json_quote s = CHR 0x22 # concat (map json_escape s) @ [CHR 0x22]"

definition json_prop :: "string \<times> string \<Rightarrow> string" where
  "json_prop kv = json_quote (fst kv) @ CHR '':'' # snd kv"

primrec stringify :: "json \<Rightarrow> string" where
  "stringify JNull = ''null''"
| "stringify (JBool b) = (if b then ''true'' else ''false'')"
| "stringify (JInt i) = show_int i"
| "stringify (JFrac t) = t"
| "stringify (JStr s) = json_quote s"
| "stringify (JArr xs) = CHR ''['' # join '','' (map stringify xs) @ '']''"
| "stringify (JObj ps) = CHR ''{'' # join '','' (map json_prop (map (map_prod id stringify) ps)) @ ''}''"

section \<open>Reading compact text back\<close>

text \<open>
  A reader of the compact text of values without fractions: it shows that \<open>stringify\<close> loses nothing, and is a
  concrete \<^verbatim>\<open>JSON.parse\<close> for such text. \<open>jread n\<close> reads one value with nesting and length bounded by \<open>n\<close>;
  \<open>json_read\<close> gives it the length of its input, which is always enough for printed text.
\<close>

fun read_quoted :: "string \<Rightarrow> (string \<times> string) option" where
  "read_quoted [] = None"
| "read_quoted (c # r) =
     (if c = CHR 0x22 then Some ([], r)
      else if c = CHR 0x5C then
        (case r of
           [] \<Rightarrow> None
         | d # r' \<Rightarrow>
           (let one = (\<lambda>x. map_option (\<lambda>(s, t). (x # s, t)) (read_quoted r')) in
            if d = CHR ''b'' then one (CHR 0x08)
            else if d = CHR ''t'' then one (CHR 0x09)
            else if d = CHR ''n'' then one (CHR 0x0A)
            else if d = CHR ''f'' then one (CHR 0x0C)
            else if d = CHR ''r'' then one (CHR 0x0D)
            else if d = CHR ''u'' then
              (case r' of
                 _ # _ # h # l # r'' \<Rightarrow>
                   (case (hex_value h, hex_value l) of
                      (Some a, Some b) \<Rightarrow> map_option (\<lambda>(s, t). (char_of (16 * a + b) # s, t)) (read_quoted r'')
                    | _ \<Rightarrow> None)
               | _ \<Rightarrow> None)
            else one d))
      else map_option (\<lambda>(s, t). (c # s, t)) (read_quoted r))"

definition read_number :: "string \<Rightarrow> (int \<times> string) option" where
  "read_number s =
     (case s of
        c # r \<Rightarrow>
          (if c = CHR ''-'' then
             (if takeWhile is_digit r = [] then None
              else Some (- int (read_nat (takeWhile is_digit r)), dropWhile is_digit r))
           else if is_digit c then Some (int (read_nat (takeWhile is_digit s)), dropWhile is_digit s)
           else None)
      | [] \<Rightarrow> None)"

definition strip :: "string \<Rightarrow> string \<Rightarrow> string option" where
  "strip p s = (if take (length p) s = p then Some (drop (length p) s) else None)"

fun jread :: "nat \<Rightarrow> string \<Rightarrow> (json \<times> string) option"
  and jread_items :: "nat \<Rightarrow> string \<Rightarrow> (json list \<times> string) option"
  and jread_props :: "nat \<Rightarrow> string \<Rightarrow> ((string \<times> json) list \<times> string) option" where
  "jread 0 s = None"
| "jread (Suc n) s =
     (case s of
        [] \<Rightarrow> None
      | c # r \<Rightarrow>
         (if c = CHR ''n'' then map_option (Pair JNull) (strip ''ull'' r)
          else if c = CHR ''t'' then map_option (Pair (JBool True)) (strip ''rue'' r)
          else if c = CHR ''f'' then map_option (Pair (JBool False)) (strip ''alse'' r)
          else if c = CHR 0x22 then map_option (\<lambda>(t, u). (JStr t, u)) (read_quoted r)
          else if c = CHR ''['' then
            (if take 1 r = '']'' then Some (JArr [], drop 1 r)
             else map_option (\<lambda>(xs, u). (JArr xs, u)) (jread_items n r))
          else if c = CHR ''{'' then
            (if take 1 r = ''}'' then Some (JObj [], drop 1 r)
             else map_option (\<lambda>(ps, u). (JObj ps, u)) (jread_props n r))
          else map_option (\<lambda>(i, u). (JInt i, u)) (read_number s)))"
| "jread_items 0 s = None"
| "jread_items (Suc n) s =
     Option.bind (jread n s) (\<lambda>(x, u).
       case u of
         [] \<Rightarrow> None
       | c # u' \<Rightarrow>
          (if c = CHR '','' then map_option (\<lambda>(xs, t). (x # xs, t)) (jread_items n u')
           else if c = CHR '']'' then Some ([x], u')
           else None))"
| "jread_props 0 s = None"
| "jread_props (Suc n) s =
     Option.bind (strip [CHR 0x22] s) (\<lambda>s1.
     Option.bind (read_quoted s1) (\<lambda>(k, s2).
     Option.bind (strip '':'' s2) (\<lambda>s3.
     Option.bind (jread n s3) (\<lambda>(v, u).
       case u of
         [] \<Rightarrow> None
       | c # u' \<Rightarrow>
          (if c = CHR '','' then map_option (\<lambda>(ps, t). ((k, v) # ps, t)) (jread_props n u')
           else if c = CHR ''}'' then Some ([(k, v)], u')
           else None)))))"

definition json_read :: "string \<Rightarrow> json option" where
  "json_read s = (case jread (length s) s of Some (j, []) \<Rightarrow> Some j | _ \<Rightarrow> None)"

text \<open>Strings come back.\<close>

lemma char_eq_code: "c = d \<longleftrightarrow> (of_char c :: nat) = of_char d"
  by (metis char_of_char)

lemma read_quoted_escape:
  "read_quoted (json_escape c @ r) = map_option (\<lambda>(s, t). (c # s, t)) (read_quoted r)"
proof -
  let ?n = "of_char c :: nat"
  consider (quote) "c = CHR 0x22" | (slash) "c = CHR 0x5C" | (b) "c = CHR 0x08" | (t) "c = CHR 0x09"
    | (n) "c = CHR 0x0A" | (f) "c = CHR 0x0C" | (r) "c = CHR 0x0D"
    | (ctl) "?n < 32" "?n \<notin> {8, 9, 10, 12, 13}"
    | (plain) "32 \<le> ?n" "?n \<noteq> 34" "?n \<noteq> 92" "c \<noteq> CHR 0x22" "c \<noteq> CHR 0x5C"
    by (cases "?n < 32") (auto simp: char_eq_code)
  then show ?thesis
  proof cases
    case ctl
    then have "?n div 16 < 16" "?n mod 16 < 16" by simp_all
    then show ?thesis using ctl by (simp add: json_escape_def Let_def)
  next
    case plain
    then show ?thesis by (simp add: json_escape_def Let_def)
  qed (simp_all add: json_escape_def)
qed

lemma read_quoted_text: "read_quoted (concat (map json_escape s) @ CHR 0x22 # r) = Some (s, r)"
proof (induction s)
  case Nil
  then show ?case by simp
next
  case (Cons c s)
  then show ?case by (simp add: read_quoted_escape del: read_quoted.simps)
qed

text \<open>Numbers come back when no digit follows.\<close>

definition num_end :: "string \<Rightarrow> bool" where
  "num_end r \<longleftrightarrow> (case r of [] \<Rightarrow> True | c # _ \<Rightarrow> \<not> is_digit c)"

lemma span_digits: "list_all is_digit ds \<Longrightarrow> num_end r \<Longrightarrow> takeWhile is_digit (ds @ r) = ds \<and> dropWhile is_digit (ds @ r) = r"
  by (induction ds) (auto simp: num_end_def split: list.splits)

lemma read_number_show: "num_end r \<Longrightarrow> read_number (show_int i @ r) = Some (i, r)"
proof -
  assume r: "num_end r"
  note sp = span_digits [OF show_nat_digits r]
  show ?thesis
  proof (cases "i < 0")
    case True
    then show ?thesis using sp [of "nat (- i)"] by (simp add: show_int_def read_number_def)
  next
    case False
    obtain d ds where d: "show_nat (nat i) = d # ds" by (cases "show_nat (nat i)") auto
    then have "is_digit d" using show_nat_digits [of "nat i"] by simp
    then have "d \<noteq> CHR ''-''" by (auto simp: is_digit_def)
    with False d \<open>is_digit d\<close> sp [of "nat i"] read_show_nat [of "nat i"] show ?thesis
      by (simp add: show_int_def read_number_def)
  qed
qed

text \<open>The first character of a printed value.\<close>

lemma show_int_head: "\<exists>c cs. show_int i = c # cs \<and> (is_digit c \<or> c = CHR ''-'')"
proof (cases "show_nat (nat i)")
  case Nil
  then show ?thesis by simp
next
  case (Cons d ds)
  then have "is_digit d" using show_nat_digits [of "nat i"] by simp
  with Cons show ?thesis by (simp add: show_int_def)
qed

primrec no_frac :: "json \<Rightarrow> bool" where
  "no_frac JNull = True"
| "no_frac (JBool b) = True"
| "no_frac (JInt i) = True"
| "no_frac (JFrac t) = False"
| "no_frac (JStr s) = True"
| "no_frac (JArr xs) = list_all id (map no_frac xs)"
| "no_frac (JObj ps) = list_all snd (map (map_prod id no_frac) ps)"

lemma digit_codes: "is_digit c \<Longrightarrow> c \<noteq> CHR ''n'' \<and> c \<noteq> CHR ''t'' \<and> c \<noteq> CHR ''f'' \<and> c \<noteq> CHR 0x22 \<and>
    c \<noteq> CHR ''['' \<and> c \<noteq> CHR ''{'' \<and> c \<noteq> CHR '']'' \<and> c \<noteq> CHR ''}'' \<and> c \<noteq> CHR '',''"
  by (auto simp: is_digit_def)

lemma stringify_head:
  assumes "no_frac j"
  shows "\<exists>c cs. stringify j = c # cs \<and> c \<noteq> CHR '']''"
proof (cases j)
  case (JInt i)
  with show_int_head [of i] show ?thesis by (auto dest: digit_codes)
qed (use assms in \<open>auto simp: json_quote_def\<close>)

lemma join_Cons: "xs \<noteq> [] \<Longrightarrow> join sep (x # xs) = x @ sep @ join sep xs"
  by (cases xs) simp_all

lemma jread_items_print:
  assumes "\<And>x n r. x \<in> set xs \<Longrightarrow> num_end r \<Longrightarrow> length (stringify x) \<le> n \<Longrightarrow> jread n (stringify x @ r) = Some (x, r)"
    and "xs \<noteq> []" and "length (join '','' (map stringify xs)) < n"
  shows "jread_items n (join '','' (map stringify xs) @ CHR '']'' # r) = Some (xs, r)"
  using assms
proof (induction xs arbitrary: n)
  case Nil
  then show ?case by simp
next
  case (Cons x xs)
  from Cons.prems(3) obtain m where n: "n = Suc m" by (cases n) auto
  show ?case
  proof (cases "xs = []")
    case True
    with Cons.prems n show ?thesis by (simp add: num_end_def is_digit_def)
  next
    case False
    let ?t = "join '','' (map stringify xs)"
    have eq: "join '','' (map stringify (x # xs)) = stringify x @ CHR '','' # ?t"
      using False by (simp add: join_Cons)
    have "jread m (stringify x @ CHR '','' # ?t @ CHR '']'' # r) = Some (x, CHR '','' # ?t @ CHR '']'' # r)"
      using Cons.prems n eq by (intro Cons.prems(1)) (simp_all add: num_end_def is_digit_def)
    moreover have "jread_items m (?t @ CHR '']'' # r) = Some (xs, r)"
      using Cons.prems n eq False by (intro Cons.IH) auto
    ultimately show ?thesis by (simp only: n eq append.assoc append_Cons) simp
  qed
qed

lemma jread_props_print:
  assumes "\<And>k v n r. (k, v) \<in> set ps \<Longrightarrow> num_end r \<Longrightarrow> length (stringify v) \<le> n \<Longrightarrow> jread n (stringify v @ r) = Some (v, r)"
    and "ps \<noteq> []" and "length (join '','' (map json_prop (map (map_prod id stringify) ps))) < n"
  shows "jread_props n (join '','' (map json_prop (map (map_prod id stringify) ps)) @ CHR ''}'' # r) = Some (ps, r)"
  using assms
proof (induction ps arbitrary: n)
  case Nil
  then show ?case by simp
next
  case (Cons p ps)
  obtain k v where p: "p = (k, v)" by (cases p)
  from Cons.prems(3) obtain m where n: "n = Suc m" by (cases n) auto
  have head: "json_prop (map_prod id stringify p) = CHR 0x22 # concat (map json_escape k) @ CHR 0x22 # CHR '':'' # stringify v"
    by (simp add: p json_prop_def json_quote_def)
  show ?case
  proof (cases "ps = []")
    case True
    with Cons.prems n head p show ?thesis
      by (simp add: strip_def read_quoted_text num_end_def is_digit_def)
  next
    case False
    let ?t = "join '','' (map json_prop (map (map_prod id stringify) ps))"
    have eq: "join '','' (map json_prop (map (map_prod id stringify) (p # ps))) =
        CHR 0x22 # concat (map json_escape k) @ CHR 0x22 # CHR '':'' # stringify v @ CHR '','' # ?t"
      using False head by (simp add: join_Cons)
    have "jread m (stringify v @ CHR '','' # ?t @ CHR ''}'' # r) = Some (v, CHR '','' # ?t @ CHR ''}'' # r)"
      using Cons.prems(3) [unfolded eq n] p
      by (intro Cons.prems(1) [of k]) (simp_all add: num_end_def is_digit_def)
    moreover have "jread_props m (?t @ CHR ''}'' # r) = Some (ps, r)"
    proof (rule Cons.IH)
      show "length ?t < m" using Cons.prems(3) [unfolded eq n] by simp
      show "jread i (stringify w @ u) = Some (w, u)"
        if "(q, w) \<in> set ps" "num_end u" "length (stringify w) \<le> i" for q w i u
        using Cons.prems(1) [of q w u i] that by simp
    qed (rule False)
    ultimately show ?thesis
      by (simp only: n eq append.assoc append_Cons) (simp add: p strip_def read_quoted_text)
  qed
qed

lemma jread_stringify:
  assumes "no_frac j" and "num_end r" and "length (stringify j) \<le> n"
  shows "jread n (stringify j @ r) = Some (j, r)"
  using assms
proof (induction j arbitrary: n r)
  case JNull
  then show ?case by (cases n) (simp_all add: strip_def)
next
  case (JBool b)
  then show ?case by (cases n; cases b) (simp_all add: strip_def)
next
  case (JInt i)
  obtain c cs where c: "show_int i = c # cs" "is_digit c \<or> c = CHR ''-''" using show_int_head [of i] by auto
  have num: "read_number (c # cs @ r) = Some (i, r)" using read_number_show [OF JInt.prems(2), of i] c(1) by simp
  from c JInt.prems(3) show ?case
    by (cases n) (auto simp: num dest: digit_codes)
next
  case (JStr t)
  then show ?case by (cases n) (simp_all add: json_quote_def read_quoted_text)
next
  case (JArr xs)
  from JArr.prems(3) obtain m where n: "n = Suc m" by (cases n) auto
  show ?case
  proof (cases xs)
    case Nil
    then show ?thesis by (simp add: n)
  next
    case (Cons x xs')
    with JArr.prems(1) obtain c cs where c: "stringify x = c # cs" "c \<noteq> CHR '']''"
      using stringify_head [of x] by auto
    have "\<exists>u. join '','' (map stringify xs) @ CHR '']'' # r = c # u"
      using Cons c(1) by (cases xs') simp_all
    then obtain u where u: "join '','' (map stringify xs) @ CHR '']'' # r = c # u" ..
    have "jread_items m (join '','' (map stringify xs) @ CHR '']'' # r) = Some (xs, r)"
      using JArr.prems n Cons by (intro jread_items_print JArr.IH) (auto simp: list_all_iff)
    with u c(2) show ?thesis by (simp add: n)
  qed
next
  case (JObj ps)
  from JObj.prems(3) obtain m where n: "n = Suc m" by (cases n) auto
  show ?case
  proof (cases ps)
    case Nil
    then show ?thesis by (simp add: n)
  next
    case (Cons p ps')
    let ?t = "join '','' (map json_prop (map (map_prod id stringify) ps))"
    have "\<exists>u. ?t @ CHR ''}'' # r = CHR 0x22 # u"
      using Cons by (cases ps') (simp_all add: json_prop_def json_quote_def)
    then obtain u where u: "?t @ CHR ''}'' # r = CHR 0x22 # u" ..
    have "jread_props m (?t @ CHR ''}'' # r) = Some (ps, r)"
      using JObj.prems n Cons by (intro jread_props_print JObj.IH) (auto simp: list_all_iff)
    with u show ?thesis by (simp add: n)
  qed
qed simp

lemma json_read_stringify: "no_frac j \<Longrightarrow> json_read (stringify j) = Some j"
  using jread_stringify [of j "[]" "length (stringify j)"] by (simp add: json_read_def num_end_def)

lemma stringify_inj: "no_frac i \<Longrightarrow> no_frac j \<Longrightarrow> stringify i = stringify j \<Longrightarrow> i = j"
  by (metis json_read_stringify option.inject)

section \<open>UTF-8\<close>

text \<open>\<^verbatim>\<open>utf8ToBytes\<close>: a string is its UTF-8 bytes.\<close>

definition utf8ToBytes :: "string \<Rightarrow> bytes" where
  "utf8ToBytes s = map of_char s"

definition utf8Decode :: "bytes \<Rightarrow> string" where
  "utf8Decode bs = map (\<lambda>b. char_of (unat b)) bs"

lemma utf8_roundtrip [simp]: "utf8Decode (utf8ToBytes s) = s"
  by (simp add: utf8Decode_def utf8ToBytes_def o_def unat_of_char)

lemma utf8ToBytes_inj [simp]: "utf8ToBytes s = utf8ToBytes t \<longleftrightarrow> s = t"
  by (metis utf8_roundtrip)

lemma utf8ToBytes_append [simp]: "utf8ToBytes (s @ t) = utf8ToBytes s @ utf8ToBytes t"
  by (simp add: utf8ToBytes_def)

lemma utf8_bytes_roundtrip [simp]: "utf8ToBytes (utf8Decode bs) = bs"
proof (induction bs)
  case Nil
  then show ?case by (simp add: utf8ToBytes_def utf8Decode_def)
next
  case (Cons b bs)
  have "(of_char (char_of (unat b)) :: nat) = unat b" using byte_lt_256 [of b] by simp
  then have "unat (of_char (char_of (unat b)) :: byte) = unat b" by (simp only: unat_of_char)
  then have "(of_char (char_of (unat b)) :: byte) = b" by (simp only: word_unat_eq_iff)
  with Cons show ?case by (simp add: utf8ToBytes_def utf8Decode_def)
qed

end
