(* ===== verification/Stream_Framing.thy ===== *)
theory Stream_Framing
  imports Json
begin

text \<open>
  Length-prefixed JSON over a byte stream: \<^verbatim>\<open>packages/node/src/warrend/protocol.ts\<close> (\<^verbatim>\<open>encodeFrame\<close>,
  \<^verbatim>\<open>FrameDecoder\<close>; 32-bit big-endian prefix, 16 MiB cap) and \<^verbatim>\<open>packages/extension/src/host/framing.ts\<close>
  (\<^verbatim>\<open>encodeNativeFrame\<close>, \<^verbatim>\<open>NativeFrameDecoder\<close>; little-endian, 1 MiB cap). The two decoders are one loop over
  two prefixes. \<open>parse\<close> is \<^verbatim>\<open>JSON.parse\<close> of the UTF-8 text. The locale
  \<open>length_prefix\<close> is what the loop relies on in a prefix.
\<close>

datatype stream_error = FrameTooLarge | MalformedJson

section \<open>Prefixes\<close>

definition writeUInt32BE :: "nat \<Rightarrow> bytes" where
  "writeUInt32BE n =
     [word_of_nat (n div 2 ^ 24), word_of_nat (n div 2 ^ 16 mod 256), word_of_nat (n div 2 ^ 8 mod 256),
      word_of_nat (n mod 256)]"

definition readUInt32BE :: "bytes \<Rightarrow> nat" where
  "readUInt32BE bs = unat (bs ! 0) * 2 ^ 24 + unat (bs ! 1) * 2 ^ 16 + unat (bs ! 2) * 2 ^ 8 + unat (bs ! 3)"

definition writeUInt32LE :: "nat \<Rightarrow> bytes" where
  "writeUInt32LE n = rev (writeUInt32BE n)"

definition readUInt32LE :: "bytes \<Rightarrow> nat" where
  "readUInt32LE bs = unat (bs ! 3) * 2 ^ 24 + unat (bs ! 2) * 2 ^ 16 + unat (bs ! 1) * 2 ^ 8 + unat (bs ! 0)"

lemma uint32_bytes:
  assumes "n < 2 ^ 32"
  shows "unat (word_of_nat (n div 16777216) :: byte) * 16777216 + unat (word_of_nat (n div 65536 mod 256) :: byte) * 65536 +
    unat (word_of_nat (n div 256 mod 256) :: byte) * 256 + unat (word_of_nat (n mod 256) :: byte) = n"
proof -
  have small: "unat (word_of_nat k :: byte) = k" if "k < 256" for k
    using that by (simp add: unat_of_nat)
  have "n div 16777216 < 256" using assms by (simp add: less_mult_imp_div_less)
  then have eq: "unat (word_of_nat (n div 16777216) :: byte) = n div 16777216"
    "unat (word_of_nat (n div 65536 mod 256) :: byte) = n div 65536 mod 256"
    "unat (word_of_nat (n div 256 mod 256) :: byte) = n div 256 mod 256"
    "unat (word_of_nat (n mod 256) :: byte) = n mod 256"
    by (simp_all add: small)
  define q1 q2 q3 where q: "q1 = n div 256" "q2 = q1 div 256" "q3 = q2 div 256"
  define r0 r1 r2 where r: "r0 = n mod 256" "r1 = q1 mod 256" "r2 = q2 mod 256"
  have d: "n div 65536 = q2" "n div 16777216 = q3" "n div 256 = q1"
    by (simp_all add: q div_mult2_eq [symmetric])
  have n: "n = q1 * 256 + r0" "q1 = q2 * 256 + r1" "q2 = q3 * 256 + r2"
    unfolding q r by (simp_all only: div_mult_mod_eq)
  have "q3 * 16777216 + r2 * 65536 + r1 * 256 + r0 = q1 * 256 + r0"
    by (subst n(2), subst n(3)) simp
  then have "q3 * 16777216 + r2 * 65536 + r1 * 256 + r0 = n" by (simp only: n(1) [symmetric])
  with eq show ?thesis by (simp only: d r [symmetric])
qed

section \<open>Encoders and decoders\<close>

definition MAX_FRAME_BYTES :: nat where
  "MAX_FRAME_BYTES = 16 * 1024 * 1024"

definition encodeFrame :: "json \<Rightarrow> stream_error + bytes" where
  "encodeFrame message =
     (let js = utf8ToBytes (stringify message)
      in bindR (guardR (\<not> length js > MAX_FRAME_BYTES) FrameTooLarge) (\<lambda>_.
         Inr (writeUInt32BE (length js) @ js)))"

text \<open>
  The \<^verbatim>\<open>while\<close> loop of \<^verbatim>\<open>push\<close>: the buffer it leaves, and the messages or the thrown error. On an error the
  messages read in the same call are lost, and the buffer stays at the offending frame.
\<close>

function push_loop :: "(bytes \<Rightarrow> nat) \<Rightarrow> nat \<Rightarrow> (bytes \<Rightarrow> json option) \<Rightarrow> bytes \<Rightarrow>
    bytes \<times> (stream_error + json list)" where
  "push_loop rd cap parse buf =
     (if length buf < 4 then (buf, Inr [])
      else if rd buf > cap then (buf, Inl FrameTooLarge)
      else if length buf < 4 + rd buf then (buf, Inr [])
      else (case parse (take (rd buf) (drop 4 buf)) of
          None \<Rightarrow> (buf, Inl MalformedJson)
        | Some m \<Rightarrow>
            (case push_loop rd cap parse (drop (4 + rd buf) buf) of
               (buf', r) \<Rightarrow> (buf', bindR r (\<lambda>ms. Inr (m # ms))))))"
  by pat_completeness auto
termination
  by (relation "measure (\<lambda>(rd, cap, parse, buf). length buf)") auto

declare push_loop.simps [simp del]

definition FrameDecoder_push :: "(bytes \<Rightarrow> json option) \<Rightarrow> bytes \<Rightarrow> bytes \<Rightarrow> bytes \<times> (stream_error + json list)" where
  "FrameDecoder_push parse buffer chunk =
     push_loop readUInt32BE MAX_FRAME_BYTES parse (if length buffer = 0 then chunk else buffer @ chunk)"

definition MAX_NATIVE_FRAME_BYTES :: nat where
  "MAX_NATIVE_FRAME_BYTES = 1024 * 1024"

definition encodeNativeFrame :: "json \<Rightarrow> stream_error + bytes" where
  "encodeNativeFrame message =
     (let js = utf8ToBytes (stringify message)
      in bindR (guardR (\<not> length js \<ge> MAX_NATIVE_FRAME_BYTES) FrameTooLarge) (\<lambda>_.
         Inr (writeUInt32LE (length js) @ js)))"

definition NativeFrameDecoder_push ::
    "(bytes \<Rightarrow> json option) \<Rightarrow> bytes \<Rightarrow> bytes \<Rightarrow> bytes \<times> (stream_error + json list)" where
  "NativeFrameDecoder_push parse buffer chunk =
     push_loop readUInt32LE MAX_NATIVE_FRAME_BYTES parse (if length buffer = 0 then chunk else buffer @ chunk)"

text \<open>A connection: chunks pushed one after the other until one throws (the owner then drops the stream).\<close>

fun push_all :: "(bytes \<Rightarrow> bytes \<Rightarrow> bytes \<times> (stream_error + json list)) \<Rightarrow> bytes \<Rightarrow> bytes list \<Rightarrow>
    bytes \<times> (stream_error + json list)" where
  "push_all push buf [] = (buf, Inr [])"
| "push_all push buf (c # cs) =
     (case push buf c of
        (buf', Inl e) \<Rightarrow> (buf', Inl e)
      | (buf', Inr ms) \<Rightarrow> (case push_all push buf' cs of (buf'', r) \<Rightarrow> (buf'', bindR r (\<lambda>ms'. Inr (ms @ ms')))))"

section \<open>What the loop relies on\<close>

locale length_prefix =
  fixes wr :: "nat \<Rightarrow> bytes" and rd :: "bytes \<Rightarrow> nat" and cap :: nat
  assumes length_wr [simp]: "length (wr n) = 4"
    and rd_wr: "n < 2 ^ 32 \<Longrightarrow> rd (wr n @ rest) = n"
    and rd_append: "4 \<le> length bs \<Longrightarrow> rd (bs @ rest) = rd bs"
    and cap_fits: "cap < 2 ^ 32"
begin

definition push :: "(bytes \<Rightarrow> json option) \<Rightarrow> bytes \<Rightarrow> bytes \<Rightarrow> bytes \<times> (stream_error + json list)" where
  "push parse buf chunk = push_loop rd cap parse (buf @ chunk)"

text \<open>The cases of one turn of the loop.\<close>

lemma loop_wait: "length buf < 4 \<or> \<not> rd buf > cap \<and> length buf < 4 + rd buf \<Longrightarrow>
    push_loop rd cap parse buf = (buf, Inr [])"
  by (subst push_loop.simps) auto

lemma loop_large: "4 \<le> length buf \<Longrightarrow> rd buf > cap \<Longrightarrow> push_loop rd cap parse buf = (buf, Inl FrameTooLarge)"
  by (subst push_loop.simps) auto

lemma loop_bad: "4 + rd buf \<le> length buf \<Longrightarrow> rd buf \<le> cap \<Longrightarrow> parse (take (rd buf) (drop 4 buf)) = None \<Longrightarrow>
    push_loop rd cap parse buf = (buf, Inl MalformedJson)"
  by (subst push_loop.simps) auto

lemma loop_message: "4 + rd buf \<le> length buf \<Longrightarrow> rd buf \<le> cap \<Longrightarrow>
    parse (take (rd buf) (drop 4 buf)) = Some m \<Longrightarrow>
    push_loop rd cap parse buf =
      (case push_loop rd cap parse (drop (4 + rd buf) buf) of (buf', r) \<Rightarrow> (buf', bindR r (\<lambda>ms. Inr (m # ms))))"
  by (subst push_loop.simps) auto

lemma turn_cases:
  obtains (wait) "length buf < 4 \<or> \<not> rd buf > cap \<and> length buf < 4 + rd buf"
    | (large) "4 \<le> length buf" "rd buf > cap"
    | (bad) "4 + rd buf \<le> length buf" "rd buf \<le> cap" "parse (take (rd buf) (drop 4 buf)) = None"
    | (message) m where "4 + rd buf \<le> length buf" "rd buf \<le> cap" "parse (take (rd buf) (drop 4 buf)) = Some m"
  using that
  by (cases "parse (take (rd buf) (drop 4 buf))"; cases "length buf < 4"; cases "rd buf > cap";
      cases "length buf < 4 + rd buf") (simp_all add: not_less)

text \<open>More bytes after a decided prefix change nothing before it.\<close>

lemma loop_append:
  "(case push_loop rd cap parse buf of
      (buf', Inl e) \<Rightarrow> snd (push_loop rd cap parse (buf @ more)) = Inl e
    | (buf', Inr ms) \<Rightarrow> push_loop rd cap parse (buf @ more) =
        (case push_loop rd cap parse (buf' @ more) of (buf'', r) \<Rightarrow> (buf'', bindR r (\<lambda>ms'. Inr (ms @ ms')))))"
proof (induction buf rule: measure_induct_rule [of length])
  case (less buf)
  have idR: "bindR x Inr = x" for x :: "stream_error + json list" by (cases x) simp_all
  show ?case
  proof (cases rule: turn_cases [where buf = buf and parse = parse])
    case wait
    then show ?thesis by (simp add: loop_wait idR split: prod.splits)
  next
    case large
    then show ?thesis by (simp add: loop_large rd_append)
  next
    case bad
    then show ?thesis by (simp add: loop_bad rd_append)
  next
    case (message m)
    let ?rest = "drop (4 + rd buf) buf"
    have whole: "push_loop rd cap parse (buf @ more) =
        (case push_loop rd cap parse (?rest @ more) of (buf', r) \<Rightarrow> (buf', bindR r (\<lambda>ms. Inr (m # ms))))"
      using message by (subst loop_message [where m = m]) (simp_all add: rd_append)
    have "length ?rest < length buf" using message(1) by simp
    note IH = less.IH [OF this]
    obtain b r where here: "push_loop rd cap parse ?rest = (b, r)" by (cases "push_loop rd cap parse ?rest")
    show ?thesis
    proof (cases r)
      case (Inl e)
      with IH here have "snd (push_loop rd cap parse (?rest @ more)) = Inl e" by simp
      then show ?thesis using whole here Inl message by (simp add: loop_message split: prod.splits)
    next
      case (Inr ms)
      obtain b' r' where tail: "push_loop rd cap parse (b @ more) = (b', r')" by (cases "push_loop rd cap parse (b @ more)")
      from IH here Inr tail have "push_loop rd cap parse (?rest @ more) = (b', bindR r' (\<lambda>ms'. Inr (ms @ ms')))" by simp
      then show ?thesis using whole here Inr tail message by (cases r') (simp_all add: loop_message)
    qed
  qed
qed

text \<open>\<open>settled\<close>: the buffer holds no complete frame, as after every push that returned.\<close>

definition settled :: "(bytes \<Rightarrow> json option) \<Rightarrow> bytes \<Rightarrow> bool" where
  "settled parse buf \<longleftrightarrow> push_loop rd cap parse buf = (buf, Inr [])"

lemma settled_Nil: "settled parse []"
  by (simp add: settled_def loop_wait)

lemma loop_settles: "push_loop rd cap parse buf = (buf', Inr ms) \<Longrightarrow> settled parse buf'"
proof (induction buf arbitrary: ms rule: measure_induct_rule [of length])
  case (less buf)
  show ?case
  proof (cases rule: turn_cases [where buf = buf and parse = parse])
    case wait
    with less.prems show ?thesis by (simp add: loop_wait settled_def)
  next
    case large
    with less.prems show ?thesis by (simp add: loop_large)
  next
    case bad
    with less.prems show ?thesis by (simp add: loop_bad)
  next
    case (message m)
    with less.prems obtain ms' where "push_loop rd cap parse (drop (4 + rd buf) buf) = (buf', Inr ms')"
      by (auto simp: loop_message bindR_eq_Inr_conv split: prod.splits)
    moreover have "length (drop (4 + rd buf) buf) < length buf" using message by simp
    ultimately show ?thesis using less.IH by blast
  qed
qed

text \<open>Pushing a stream chunk by chunk gives what pushing it whole gives.\<close>

lemma push_all_whole:
  assumes "settled parse buf"
  shows "snd (push_all (push parse) buf cs) = snd (push parse buf (concat cs)) \<and>
    (\<forall>ms. snd (push parse buf (concat cs)) = Inr ms \<longrightarrow>
      push_all (push parse) buf cs = push parse buf (concat cs))"
  using assms
proof (induction cs arbitrary: buf)
  case Nil
  then show ?case by (simp add: push_def settled_def)
next
  case (Cons c cs)
  obtain b r where here: "push parse buf c = (b, r)" by (cases "push parse buf c")
  note app = loop_append [of parse "buf @ c" "concat cs"]
  show ?case
  proof (cases r)
    case (Inl e)
    with here app have "snd (push parse buf (concat (c # cs))) = Inl e" by (simp add: push_def)
    with here Inl show ?thesis by simp
  next
    case (Inr ms)
    with here have "settled parse b" by (simp add: push_def loop_settles)
    note IH = Cons.IH [OF this]
    have whole: "push parse buf (concat (c # cs)) =
        (case push parse b (concat cs) of (b', r) \<Rightarrow> (b', bindR r (\<lambda>ms'. Inr (ms @ ms'))))"
      using Inr here app by (simp add: push_def)
    obtain b' r' where tail: "push parse b (concat cs) = (b', r')" by (cases "push parse b (concat cs)")
    obtain b'' where rest: "push_all (push parse) b cs = (b'', r')" using IH tail by (metis prod.collapse snd_conv)
    show ?thesis
    proof (cases r')
      case Inl
      with here \<open>r = Inr ms\<close> whole tail rest show ?thesis by simp
    next
      case (Inr ms')
      with IH tail rest have "b'' = b'" by simp
      with here \<open>r = Inr ms\<close> whole tail rest show ?thesis by simp
    qed
  qed
qed

text \<open>The frame of each message, and the stream of several.\<close>

definition frame :: "(json \<Rightarrow> bytes) \<Rightarrow> json \<Rightarrow> bytes" where
  "frame text_of m = wr (length (text_of m)) @ text_of m"

lemma loop_frames:
  assumes "\<forall>m \<in> set ms. parse (text_of m) = Some m \<and> length (text_of m) \<le> cap"
  shows "push_loop rd cap parse (concat (map (frame text_of) ms)) = ([], Inr ms)"
  using assms
proof (induction ms)
  case Nil
  then show ?case by (simp add: loop_wait)
next
  case (Cons m ms)
  let ?js = "text_of m" and ?rest = "concat (map (frame text_of) ms)"
  have "length ?js < 2 ^ 32" using Cons.prems cap_fits by (metis le_less_trans list.set_intros(1))
  then have len: "rd (wr (length ?js) @ ?js @ ?rest) = length ?js" by (rule rd_wr)
  have "push_loop rd cap parse (wr (length ?js) @ ?js @ ?rest) =
      (case push_loop rd cap parse ?rest of (buf', r) \<Rightarrow> (buf', bindR r (\<lambda>ms. Inr (m # ms))))"
    using Cons.prems by (subst loop_message [where m = m]) (simp_all add: len)
  with Cons show ?case by (simp add: frame_def [of _ m])
qed

lemma push_all_frames:
  assumes "\<forall>m \<in> set ms. parse (text_of m) = Some m \<and> length (text_of m) \<le> cap"
    and "concat cs = concat (map (frame text_of) ms)"
  shows "push_all (push parse) [] cs = ([], Inr ms)"
proof -
  have whole: "push parse [] (concat cs) = ([], Inr ms)"
    using loop_frames [OF assms(1)] assms(2) by (simp add: push_def)
  from push_all_whole [OF settled_Nil, of parse cs] whole show ?thesis by simp
qed

end

interpretation be: length_prefix writeUInt32BE readUInt32BE MAX_FRAME_BYTES
proof unfold_locales
  show "length (writeUInt32BE n) = 4" for n by (simp add: writeUInt32BE_def)
  show "readUInt32BE (writeUInt32BE n @ rest) = n" if "n < 2 ^ 32" for n rest
    using that by (simp add: writeUInt32BE_def readUInt32BE_def uint32_bytes)
  show "readUInt32BE (bs @ rest) = readUInt32BE bs" if "4 \<le> length bs" for bs rest
    using that by (auto simp: readUInt32BE_def nth_append)
  show "MAX_FRAME_BYTES < 2 ^ 32" by (simp add: MAX_FRAME_BYTES_def)
qed

interpretation le: length_prefix writeUInt32LE readUInt32LE MAX_NATIVE_FRAME_BYTES
proof unfold_locales
  show "length (writeUInt32LE n) = 4" for n by (simp add: writeUInt32LE_def writeUInt32BE_def)
  show "readUInt32LE (writeUInt32LE n @ rest) = n" if "n < 2 ^ 32" for n rest
    using that by (simp add: writeUInt32LE_def writeUInt32BE_def readUInt32LE_def uint32_bytes)
  show "readUInt32LE (bs @ rest) = readUInt32LE bs" if "4 \<le> length bs" for bs rest
    using that by (auto simp: readUInt32LE_def nth_append)
  show "MAX_NATIVE_FRAME_BYTES < 2 ^ 32" by (simp add: MAX_NATIVE_FRAME_BYTES_def)
qed

lemma FrameDecoder_push_eq: "FrameDecoder_push = be.push"
  by (intro ext) (simp add: FrameDecoder_push_def be.push_def)

lemma NativeFrameDecoder_push_eq: "NativeFrameDecoder_push = le.push"
  by (intro ext) (simp add: NativeFrameDecoder_push_def le.push_def)

lemma encodeFrame_Inr_conv: "encodeFrame m = Inr f \<longleftrightarrow>
    length (utf8ToBytes (stringify m)) \<le> MAX_FRAME_BYTES \<and> f = be.frame (\<lambda>m. utf8ToBytes (stringify m)) m"
  by (auto simp: encodeFrame_def be.frame_def Let_def)

lemma encodeNativeFrame_Inr_conv: "encodeNativeFrame m = Inr f \<longleftrightarrow>
    length (utf8ToBytes (stringify m)) < MAX_NATIVE_FRAME_BYTES \<and> f = le.frame (\<lambda>m. utf8ToBytes (stringify m)) m"
  by (auto simp: encodeNativeFrame_def le.frame_def Let_def)

section \<open>Properties\<close>

text \<open>
  The warrend stream decoder does not depend on how the socket cuts the stream into chunks: pushing the
  chunks one by one returns the same messages (or throws the same error) as pushing their concatenation at
  once, and leaves the same buffered bytes when nothing is thrown.
\<close>

theorem FrameDecoder_chunking:
  "snd (push_all (FrameDecoder_push parse) [] chunks) = snd (FrameDecoder_push parse [] (concat chunks)) \<and>
   (\<forall>ms. snd (FrameDecoder_push parse [] (concat chunks)) = Inr ms \<longrightarrow>
     push_all (FrameDecoder_push parse) [] chunks = FrameDecoder_push parse [] (concat chunks))"
  unfolding FrameDecoder_push_eq by (rule be.push_all_whole [OF be.settled_Nil])

theorem FrameDecoder_chunking_witness:
  "push_all (FrameDecoder_push (\<lambda>_. Some JNull)) [] [[0, 0], [0, 1, 9, 0]] = ([0], Inr [JNull])"
proof -
  have w: "FrameDecoder_push (\<lambda>_. Some JNull) [] (concat [[0, 0], [0, 1, 9, 0]]) = ([0], Inr [JNull])"
    by (simp add: FrameDecoder_push_def push_loop.simps readUInt32BE_def MAX_FRAME_BYTES_def)
  from FrameDecoder_chunking [of "\<lambda>_. Some JNull" "[[0, 0], [0, 1, 9, 0]]"] show ?thesis
    by (simp only: w) simp
qed

text \<open>
  Round trip of the warrend IPC: messages framed by \<^verbatim>\<open>encodeFrame\<close> and cut into chunks anywhere come out of
  \<^verbatim>\<open>FrameDecoder\<close> in order, and no byte stays buffered.
\<close>

theorem warrend_stream_roundtrip:
  assumes "\<forall>m \<in> set ms. parse (utf8ToBytes (stringify m)) = Some m"
    and "mapR encodeFrame ms = Inr frames" and "concat chunks = concat frames"
  shows "push_all (FrameDecoder_push parse) [] chunks = ([], Inr ms)"
proof -
  have "frames = map (be.frame (\<lambda>m. utf8ToBytes (stringify m))) ms" and cap: "\<forall>m \<in> set ms. length (utf8ToBytes (stringify m)) \<le> MAX_FRAME_BYTES"
    using assms(2) by (auto simp: mapR_eq_Inr_conv list_all2_conv_all_nth encodeFrame_Inr_conv in_set_conv_nth
        intro: nth_equalityI)
  with assms show ?thesis
    unfolding FrameDecoder_push_eq by (intro be.push_all_frames [of _ parse "\<lambda>m. utf8ToBytes (stringify m)"]) simp_all
qed

theorem warrend_stream_roundtrip_witness:
  "mapR encodeFrame [JArr [], JArr []] = Inr [[0, 0, 0, 2, 0x5B, 0x5D], [0, 0, 0, 2, 0x5B, 0x5D]] \<and>
   push_all (FrameDecoder_push (\<lambda>bs. json_read (utf8Decode bs))) [] [[0], [0, 0, 2, 0x5B, 0x5D, 0], [0, 0, 2, 0x5B, 0x5D]] =
     ([], Inr [JArr [], JArr []])"
proof -
  have e: "mapR encodeFrame [JArr [], JArr []] = Inr [[0, 0, 0, 2, 0x5B, 0x5D], [0, 0, 0, 2, 0x5B, 0x5D]]"
    by (simp add: encodeFrame_def MAX_FRAME_BYTES_def writeUInt32BE_def utf8ToBytes_def)
  have "push_all (FrameDecoder_push (\<lambda>bs. json_read (utf8Decode bs))) [] [[0], [0, 0, 2, 0x5B, 0x5D, 0], [0, 0, 2, 0x5B, 0x5D]] =
      ([], Inr [JArr [], JArr []])"
    by (rule warrend_stream_roundtrip [OF _ e]) (simp_all add: json_read_stringify del: stringify.simps)
  with e show ?thesis by blast
qed

lemma native_stream_whole:
  assumes "\<forall>m \<in> set ms. parse (utf8ToBytes (stringify m)) = Some m"
    and "mapR encodeNativeFrame ms = Inr frames" and "concat chunks = concat frames"
  shows "push_all (NativeFrameDecoder_push parse) [] chunks = ([], Inr ms)"
proof -
  have "frames = map (le.frame (\<lambda>m. utf8ToBytes (stringify m))) ms" and cap: "\<forall>m \<in> set ms. length (utf8ToBytes (stringify m)) \<le> MAX_NATIVE_FRAME_BYTES"
    using assms(2) by (auto simp: mapR_eq_Inr_conv list_all2_conv_all_nth encodeNativeFrame_Inr_conv in_set_conv_nth
        less_imp_le intro: nth_equalityI)
  with assms show ?thesis
    unfolding NativeFrameDecoder_push_eq by (intro le.push_all_frames [of _ parse "\<lambda>m. utf8ToBytes (stringify m)"]) simp_all
qed

text \<open>
  The native-messaging stream has the same two guarantees: its decoder is insensitive to chunking, and what
  \<^verbatim>\<open>encodeNativeFrame\<close> framed it returns in order.
\<close>

theorem native_stream_roundtrip:
  assumes "\<forall>m \<in> set ms. parse (utf8ToBytes (stringify m)) = Some m"
    and "mapR encodeNativeFrame ms = Inr frames" and "concat chunks = concat frames"
  shows "push_all (NativeFrameDecoder_push parse) [] chunks = ([], Inr ms) \<and>
    snd (push_all (NativeFrameDecoder_push parse) [] other) = snd (NativeFrameDecoder_push parse [] (concat other))"
  using native_stream_whole [OF assms] le.push_all_whole [OF le.settled_Nil] by (simp add: NativeFrameDecoder_push_eq)

theorem native_stream_roundtrip_witness:
  "push_all (NativeFrameDecoder_push (\<lambda>bs. json_read (utf8Decode bs))) [] [[2], [0, 0, 0, 0x5B, 0x5D]] = ([], Inr [JArr []])"
proof -
  have e: "mapR encodeNativeFrame [JArr []] = Inr [[2, 0, 0, 0, 0x5B, 0x5D]]"
    by (simp add: encodeNativeFrame_def MAX_NATIVE_FRAME_BYTES_def writeUInt32LE_def writeUInt32BE_def utf8ToBytes_def)
  show ?thesis
    by (rule native_stream_roundtrip [OF _ e, THEN conjunct1]) (simp_all add: json_read_stringify del: stringify.simps)
qed

end
