(* ===== verification/Warrend.thy ===== *)
theory Warrend
  imports Stream_Framing
begin

text \<open>
  The client of the privileged daemon: the request and event shapes of
  \<^verbatim>\<open>packages/node/src/warrend/protocol.ts\<close> and the lifecycle of \<^verbatim>\<open>packages/node/src/warrend/client.ts\<close>
  (\<^verbatim>\<open>WarrendClient\<close>). Sockets are numbered in the order \<^verbatim>\<open>open()\<close> creates them; the callbacks made are a log,
  each entry tagged with the socket whose event caused it and whether the event was data.
\<close>

section \<open>Requests and events\<close>

datatype WarrendState = WConnecting | WConnected | WReconnecting | WDraining | WFailed | WDisconnected

definition STATES :: "(string \<times> WarrendState) list" where
  "STATES = [(''connecting'', WConnecting), (''connected'', WConnected), (''reconnecting'', WReconnecting),
     (''draining'', WDraining), (''failed'', WFailed), (''disconnected'', WDisconnected)]"

record WarrendConfigure =
  wc_mnemonic :: string
  wc_apiBase :: string
  wc_serverPubkeyPin :: string
  wc_multihopRootPin :: "string option"
  wc_daita :: "bool option"
  wc_daitaMachine :: "string option"
  wc_requestIpv6 :: "bool option"

record WarrendConnect =
  exitPubkeyHex :: string
  dnsOverTunnel :: "bool option"

datatype WarrendEvent = EvState WarrendState | EvError string string

definition configureRequest :: "WarrendConfigure \<Rightarrow> json" where
  "configureRequest config = JObj
     ([(''type'', JStr ''configure''), (''mnemonic'', JStr (wc_mnemonic config)),
       (''apiBase'', JStr (wc_apiBase config)), (''serverPubkeyPin'', JStr (wc_serverPubkeyPin config))]
      @ opt_prop ''multihopRootPin'' JStr (wc_multihopRootPin config)
      @ opt_prop ''daita'' JBool (wc_daita config)
      @ opt_prop ''daitaMachine'' JStr (wc_daitaMachine config)
      @ opt_prop ''requestIpv6'' JBool (wc_requestIpv6 config))"

definition connectRequest :: "WarrendConnect \<Rightarrow> json" where
  "connectRequest request = JObj
     ([(''type'', JStr ''connect''), (''exitPubkeyHex'', JStr (exitPubkeyHex request))]
      @ opt_prop ''dnsOverTunnel'' JBool (dnsOverTunnel request))"

definition disconnectRequest :: json where
  "disconnectRequest = JObj [(''type'', JStr ''disconnect'')]"

definition parseEvent :: "json \<Rightarrow> WarrendEvent option" where
  "parseEvent m =
     (if \<not> is_object m then None
      else case (jget m ''type'', Option.bind (jstring m ''state'') (map_of STATES)) of
        (Some (JStr t), st) \<Rightarrow>
          (if t = ''state'' \<and> st \<noteq> None then map_option EvState st
           else if t = ''error''
           then (case (jstring m ''kind'', jstring m ''message'') of
               (Some k, Some msg) \<Rightarrow> Some (EvError k msg) | _ \<Rightarrow> None)
           else None)
      | _ \<Rightarrow> None)"

section \<open>The client\<close>

datatype warrend_error = AlreadyOpen | NotOpen | SendFailed stream_error

datatype log_source = FromData | FromSocket

datatype warrend_callback = CbState WarrendState | CbError string string | CbClose

record warrend_client =
  w_socket :: "nat option"
  w_opened :: nat
  w_decoder :: "nat \<Rightarrow> bytes"
  w_destroyed :: "nat list"
  w_ended :: "nat list"
  w_frames :: "(nat \<times> bytes) list"
  w_log :: "(nat \<times> log_source \<times> warrend_callback) list"

definition warrend_init :: warrend_client where
  "warrend_init = \<lparr>w_socket = None, w_opened = 0, w_decoder = (\<lambda>_. []), w_destroyed = [], w_ended = [],
     w_frames = [], w_log = []\<rparr>"

definition warrend_open :: "warrend_client \<Rightarrow> warrend_error + warrend_client" where
  "warrend_open c =
     (if w_socket c \<noteq> None then Inl AlreadyOpen
      else let s = w_opened c
           in Inr (c\<lparr>w_socket := Some s, w_opened := Suc s, w_decoder := (w_decoder c)(s := [])\<rparr>))"

definition warrend_send :: "json \<Rightarrow> warrend_client \<Rightarrow> warrend_error + warrend_client" where
  "warrend_send message c =
     (case w_socket c of
        None \<Rightarrow> Inl NotOpen
      | Some s \<Rightarrow>
          (case encodeFrame message of
             Inl e \<Rightarrow> Inl (SendFailed e)
           | Inr frame \<Rightarrow> Inr (c\<lparr>w_frames := w_frames c @ [(s, frame)]\<rparr>)))"

text \<open>The write callback of a flushed frame zeroizes the buffer the socket has sent.\<close>

definition warrend_flushed :: "nat \<Rightarrow> warrend_client \<Rightarrow> warrend_client" where
  "warrend_flushed i c =
     (if i < length (w_frames c)
      then (case w_frames c ! i of (s, frame) \<Rightarrow>
        c\<lparr>w_frames := (w_frames c)[i := (s, replicate (length frame) 0)]\<rparr>)
      else c)"

definition warrend_close :: "warrend_client \<Rightarrow> warrend_client" where
  "warrend_close c =
     (case w_socket c of
        None \<Rightarrow> c
      | Some s \<Rightarrow> c\<lparr>w_ended := w_ended c @ [s], w_socket := None\<rparr>)"

fun event_callback :: "WarrendEvent option \<Rightarrow> warrend_callback list" where
  "event_callback (Some (EvState st)) = [CbState st]"
| "event_callback (Some (EvError kind msg)) = [CbError kind msg]"
| "event_callback None = []"

definition warrend_onData :: "(bytes \<Rightarrow> json option) \<Rightarrow> nat \<Rightarrow> bytes \<Rightarrow> warrend_client \<Rightarrow> warrend_client" where
  "warrend_onData parse s chunk c =
     (case FrameDecoder_push parse (w_decoder c s) chunk of
        (buf, Inl _) \<Rightarrow>
          c\<lparr>w_decoder := (w_decoder c)(s := buf),
            w_log := w_log c @ [(s, FromData, CbError ''protocol'' ''malformed daemon frame'')],
            w_destroyed := w_destroyed c @ [s]\<rparr>
      | (buf, Inr messages) \<Rightarrow>
          c\<lparr>w_decoder := (w_decoder c)(s := buf),
            w_log := w_log c @ map (\<lambda>cb. (s, FromData, cb)) (concat (map (\<lambda>m. event_callback (parseEvent m)) messages))\<rparr>)"

definition warrend_onError :: "nat \<Rightarrow> warrend_client \<Rightarrow> warrend_client" where
  "warrend_onError s c = c\<lparr>w_log := w_log c @ [(s, FromSocket, CbError ''transport'' ''socket error'')]\<rparr>"

definition warrend_onClose :: "nat \<Rightarrow> warrend_client \<Rightarrow> warrend_client" where
  "warrend_onClose s c =
     c\<lparr>w_socket := (if w_socket c = Some s then None else w_socket c), w_log := w_log c @ [(s, FromSocket, CbClose)]\<rparr>"

text \<open>
  What can happen to a client: its owner's calls, and the events of the sockets it opened. A destroyed
  socket gives no more data. A call that throws leaves the client as it was.
\<close>

datatype warrend_op =
    OpOpen
  | OpConfigure WarrendConfigure
  | OpConnect WarrendConnect
  | OpDisconnect
  | OpClose
  | OpFlushed nat
  | EvData nat bytes
  | EvSocketError nat
  | EvSocketClose nat

definition or_keep :: "'s \<Rightarrow> 'e + 's \<Rightarrow> 's" where
  "or_keep c r = (case r of Inl _ \<Rightarrow> c | Inr c' \<Rightarrow> c')"

fun warrend_step :: "(bytes \<Rightarrow> json option) \<Rightarrow> warrend_op \<Rightarrow> warrend_client \<Rightarrow> warrend_client" where
  "warrend_step parse OpOpen c = or_keep c (warrend_open c)"
| "warrend_step parse (OpConfigure x) c = or_keep c (warrend_send (configureRequest x) c)"
| "warrend_step parse (OpConnect x) c = or_keep c (warrend_send (connectRequest x) c)"
| "warrend_step parse OpDisconnect c = or_keep c (warrend_send disconnectRequest c)"
| "warrend_step parse OpClose c = warrend_close c"
| "warrend_step parse (OpFlushed i) c = warrend_flushed i c"
| "warrend_step parse (EvData s chunk) c =
     (if s < w_opened c \<and> s \<notin> set (w_destroyed c) then warrend_onData parse s chunk c else c)"
| "warrend_step parse (EvSocketError s) c = (if s < w_opened c then warrend_onError s c else c)"
| "warrend_step parse (EvSocketClose s) c = (if s < w_opened c then warrend_onClose s c else c)"

definition warrend_run :: "(bytes \<Rightarrow> json option) \<Rightarrow> warrend_op list \<Rightarrow> warrend_client \<Rightarrow> warrend_client" where
  "warrend_run parse ops c = fold (warrend_step parse) ops c"

section \<open>Session isolation\<close>

text \<open>The specification of one session: its own chunks through a fresh decoder, up to the first bad frame.\<close>

fun session_calls :: "(bytes \<Rightarrow> json option) \<Rightarrow> bytes \<Rightarrow> bytes list \<Rightarrow> warrend_callback list" where
  "session_calls parse buf [] = []"
| "session_calls parse buf (c # cs) =
     (case FrameDecoder_push parse buf c of
        (buf', Inl _) \<Rightarrow> [CbError ''protocol'' ''malformed daemon frame'']
      | (buf', Inr ms) \<Rightarrow> concat (map (\<lambda>m. event_callback (parseEvent m)) ms) @ session_calls parse buf' cs)"

definition data_calls :: "nat \<Rightarrow> (nat \<times> log_source \<times> warrend_callback) list \<Rightarrow> warrend_callback list" where
  "data_calls s log = map (snd \<circ> snd) (filter (\<lambda>(t, src, cb). t = s \<and> src = FromData) log)"

fun session_chunks :: "nat \<Rightarrow> warrend_op list \<Rightarrow> bytes list" where
  "session_chunks s [] = []"
| "session_chunks s (EvData t chunk # ops) = (if t = s then chunk # session_chunks s ops else session_chunks s ops)"
| "session_chunks s (_ # ops) = session_chunks s ops"

lemma data_calls_append: "data_calls s (xs @ ys) = data_calls s xs @ data_calls s ys"
  by (simp add: data_calls_def)

lemma data_calls_same: "data_calls s (map (\<lambda>cb. (s, FromData, cb)) cbs) = cbs"
  by (induction cbs) (simp_all add: data_calls_def)

lemma data_calls_other: "t \<noteq> s \<Longrightarrow> data_calls s (map (\<lambda>cb. (t, FromData, cb)) cbs) = []"
  by (induction cbs) (simp_all add: data_calls_def)

lemmas data_calls_simps = data_calls_append data_calls_same data_calls_other

text \<open>The calls of the owner and the events of other sockets do not touch a session.\<close>

definition same_session :: "nat \<Rightarrow> warrend_client \<Rightarrow> warrend_client \<Rightarrow> bool" where
  "same_session s c c' \<longleftrightarrow> data_calls s (w_log c') = data_calls s (w_log c) \<and> w_decoder c' s = w_decoder c s \<and>
     (s \<in> set (w_destroyed c') \<longleftrightarrow> s \<in> set (w_destroyed c)) \<and> w_opened c \<le> w_opened c'"

lemma same_session_refl: "same_session s c c"
  by (simp add: same_session_def)

lemma warrend_open_same: "s < w_opened c \<Longrightarrow> same_session s c (or_keep c (warrend_open c))"
  by (auto simp: same_session_def warrend_open_def or_keep_def Let_def)

lemma warrend_send_same: "same_session s c (or_keep c (warrend_send m c))"
  by (auto simp: same_session_def warrend_send_def or_keep_def split: option.splits sum.splits)

lemma warrend_step_same:
  assumes "s < w_opened c" and "\<not> (\<exists>chunk. x = EvData s chunk)"
  shows "same_session s c (warrend_step parse x c)"
proof (cases x)
  case OpOpen
  with assms(1) show ?thesis by (simp add: warrend_open_same)
next
  case OpClose
  then show ?thesis by (auto simp: same_session_def warrend_close_def split: option.splits)
next
  case (OpFlushed i)
  then show ?thesis by (auto simp: same_session_def warrend_flushed_def split: prod.splits)
next
  case (EvData t chunk)
  with assms(2) have "t \<noteq> s" by auto
  then show ?thesis
    using EvData data_calls_other [OF \<open>t \<noteq> s\<close>, of "[cb]" for cb] data_calls_other [OF \<open>t \<noteq> s\<close>]
    by (auto simp: same_session_def warrend_onData_def data_calls_append split: prod.splits sum.splits)
next
  case (EvSocketError t)
  then show ?thesis by (auto simp: same_session_def warrend_onError_def data_calls_def)
next
  case (EvSocketClose t)
  then show ?thesis by (auto simp: same_session_def warrend_onClose_def data_calls_def)
qed (simp_all add: warrend_send_same)

lemma session_chunks_other: "\<not> (\<exists>chunk. x = EvData s chunk) \<Longrightarrow> session_chunks s (x # ops) = session_chunks s ops"
  by (cases x) auto

lemma warrend_run_session:
  assumes "s < w_opened c"
  shows "data_calls s (w_log (warrend_run parse ops c)) = data_calls s (w_log c) @
    (if s \<in> set (w_destroyed c) then [] else session_calls parse (w_decoder c s) (session_chunks s ops))"
  using assms
proof (induction ops arbitrary: c)
  case Nil
  then show ?case by (simp add: warrend_run_def)
next
  case (Cons x ops)
  let ?c = "warrend_step parse x c"
  have run: "warrend_run parse (x # ops) c = warrend_run parse ops ?c"
    by (simp add: warrend_run_def)
  show ?case
  proof (cases "\<exists>chunk. x = EvData s chunk")
    case False
    from warrend_step_same [OF Cons.prems False] have "same_session s c ?c" .
    with Cons.IH [of ?c] Cons.prems run session_chunks_other [OF False] show ?thesis
      by (simp add: same_session_def)
  next
    case True
    then obtain chunk where x: "x = EvData s chunk" ..
    show ?thesis
    proof (cases "s \<in> set (w_destroyed c)")
      case True
      with x run Cons.IH [of c] Cons.prems show ?thesis by simp
    next
      case False
      then have c': "?c = warrend_onData parse s chunk c" using x Cons.prems by simp
      have one: "data_calls s [(s, FromData, cb)] = [cb]" for cb using data_calls_same [of s "[cb]"] by simp
      obtain buf r where push: "FrameDecoder_push parse (w_decoder c s) chunk = (buf, r)"
        by (cases "FrameDecoder_push parse (w_decoder c s) chunk")
      with False Cons.IH [of ?c] Cons.prems run x c' show ?thesis
        by (cases r) (simp_all add: warrend_onData_def data_calls_append data_calls_same one)
    qed
  qed
qed

text \<open>Entries of the log come from sockets already opened.\<close>

definition warrend_wf :: "warrend_client \<Rightarrow> bool" where
  "warrend_wf c \<longleftrightarrow> (\<forall>(t, src, cb) \<in> set (w_log c). t < w_opened c) \<and> (\<forall>t \<in> set (w_destroyed c). t < w_opened c) \<and>
     (\<forall>t \<in> set (w_ended c). t < w_opened c) \<and> (case w_socket c of None \<Rightarrow> True | Some s \<Rightarrow> s < w_opened c)"

lemma warrend_wf_init: "warrend_wf warrend_init"
  by (simp add: warrend_wf_def warrend_init_def)

lemma warrend_wf_step:
  assumes "warrend_wf c"
  shows "warrend_wf (warrend_step parse x c)"
proof -
  have lt: "t < w_opened c \<Longrightarrow> t < Suc (w_opened c)" for t by simp
  show ?thesis
    using assms
    by (cases x; fastforce simp: warrend_wf_def or_keep_def Let_def warrend_open_def warrend_send_def warrend_close_def
        warrend_flushed_def warrend_onData_def warrend_onError_def warrend_onClose_def
        split: option.splits sum.splits prod.splits if_splits)
qed

lemma warrend_wf_run: "warrend_wf c \<Longrightarrow> warrend_wf (warrend_run parse ops c)"
  by (induction ops arbitrary: c) (simp_all add: warrend_run_def warrend_wf_step)

lemma warrend_open_session:
  assumes "warrend_wf c" and "warrend_open c = Inr c'"
  shows "w_socket c' = Some (w_opened c)" "w_opened c < w_opened c'" "w_decoder c' (w_opened c) = []"
    "w_opened c \<notin> set (w_destroyed c')" "data_calls (w_opened c) (w_log c') = []"
proof -
  have "filter (\<lambda>(t, src, cb). t = w_opened c \<and> src = FromData) (w_log c) = []"
    using assms(1) by (auto simp: filter_empty_conv warrend_wf_def)
  then show "w_socket c' = Some (w_opened c)" "w_opened c < w_opened c'" "w_decoder c' (w_opened c) = []"
    "w_opened c \<notin> set (w_destroyed c')" "data_calls (w_opened c) (w_log c') = []"
    using assms by (auto simp: warrend_open_def Let_def data_calls_def warrend_wf_def split: if_splits)
qed

section \<open>Properties\<close>

text \<open>
  C18. Sessions of one \<^verbatim>\<open>WarrendClient\<close> are isolated: whatever happened before a session was opened, and whatever
  calls and events of other sockets interleave with it, the daemon events reported from its socket are
  exactly those a fresh decoder finds in that socket's own bytes, ending with one protocol error at the
  first corrupt frame.
\<close>

theorem warrend_session_isolation:
  assumes "warrend_open (warrend_run parse before warrend_init) = Inr c" and "w_socket c = Some s"
  shows "data_calls s (w_log (warrend_run parse after c)) = session_calls parse [] (session_chunks s after)"
proof -
  let ?b = "warrend_run parse before warrend_init"
  have "warrend_wf ?b" by (intro warrend_wf_run warrend_wf_init)
  note op = warrend_open_session [OF this assms(1)]
  from op(1) assms(2) have s: "s = w_opened ?b" by simp
  have "s < w_opened c" using op(2) s by simp
  from warrend_run_session [OF this] op(3,4,5) show ?thesis by (simp add: s)
qed

theorem warrend_session_isolation_witness:
  "\<exists>c. warrend_open (warrend_run (\<lambda>_. None) [OpOpen, EvData 0 [0, 0], OpClose] warrend_init) = Inr c \<and>
    w_socket c = Some 1 \<and>
    data_calls 1 (w_log (warrend_run (\<lambda>_. None) [EvSocketClose 0, EvData 1 [0, 0, 0, 0]] c)) =
      [CbError ''protocol'' ''malformed daemon frame'']"
proof -
  let ?b = "warrend_run (\<lambda>_. None) [OpOpen, EvData 0 [0, 0], OpClose] warrend_init"
  have b: "w_socket ?b = None" "w_opened ?b = 1"
    by (simp_all add: warrend_run_def warrend_init_def warrend_open_def or_keep_def warrend_onData_def
        FrameDecoder_push_def push_loop.simps warrend_close_def)
  then obtain c where c: "warrend_open ?b = Inr c" "w_socket c = Some 1"
    by (auto simp: warrend_open_def Let_def)
  have "session_calls (\<lambda>_. None) [] (session_chunks 1 [EvSocketClose 0, EvData 1 [0, 0, 0, 0]]) =
      [CbError ''protocol'' ''malformed daemon frame'']"
    by (simp add: FrameDecoder_push_def push_loop.simps readUInt32BE_def MAX_FRAME_BYTES_def)
  with c warrend_session_isolation [OF c] show ?thesis by auto
qed

text \<open>
  A live session is detached only by its owner's \<^verbatim>\<open>close()\<close> or by the close of its own socket, never by a
  stale socket, a bad frame, a second \<^verbatim>\<open>open()\<close> or a failed send; and every frame written while it is live
  goes to its socket.
\<close>

theorem warrend_live_session:
  assumes "warrend_wf c" and "w_socket c = Some s"
  shows "(w_socket (warrend_step parse x c) = Some s \<longleftrightarrow> x \<noteq> OpClose \<and> x \<noteq> EvSocketClose s) \<and>
    (\<forall>t frame. (t, frame) \<in> set (w_frames (warrend_step parse x c)) \<longrightarrow>
      t = s \<or> (\<exists>frame'. (t, frame') \<in> set (w_frames c)))"
proof (rule conjI)
  have "s < w_opened c" using assms by (simp add: warrend_wf_def)
  with assms(2) show "w_socket (warrend_step parse x c) = Some s \<longleftrightarrow> x \<noteq> OpClose \<and> x \<noteq> EvSocketClose s"
    by (cases x) (auto simp: or_keep_def Let_def warrend_open_def warrend_send_def warrend_close_def
        warrend_flushed_def warrend_onData_def warrend_onError_def warrend_onClose_def
        split: option.splits sum.splits prod.splits)
  show "\<forall>t frame. (t, frame) \<in> set (w_frames (warrend_step parse x c)) \<longrightarrow>
      t = s \<or> (\<exists>frame'. (t, frame') \<in> set (w_frames c))"
  proof (cases x)
    case (OpFlushed i)
    then show ?thesis
      by (auto simp: warrend_flushed_def in_set_conv_nth nth_list_update split: prod.splits if_splits)
  qed (use assms(2) in \<open>auto simp: or_keep_def Let_def warrend_open_def warrend_send_def warrend_close_def
        warrend_onData_def warrend_onError_def warrend_onClose_def split: option.splits sum.splits prod.splits\<close>)
qed

theorem warrend_live_session_witness:
  "w_socket (warrend_step (\<lambda>_. None) (EvSocketClose 0)
     (warrend_run (\<lambda>_. None) [OpOpen, OpClose, OpOpen] warrend_init)) = Some 1"
proof -
  let ?c = "warrend_run (\<lambda>_. None) [OpOpen, OpClose, OpOpen] warrend_init"
  have "warrend_wf ?c" by (intro warrend_wf_run warrend_wf_init)
  moreover have "w_socket ?c = Some 1"
    by (simp add: warrend_run_def warrend_init_def warrend_open_def or_keep_def warrend_close_def)
  ultimately show ?thesis
    using warrend_live_session [of ?c 1 "\<lambda>_. None" "EvSocketClose 0"] by simp
qed

text \<open>
  \<^verbatim>\<open>parseEvent\<close> accepts exactly the daemon's events: a state event for each name of the state vocabulary and
  no other, and an error event with a textual kind and message.
\<close>

theorem parseEvent_spec:
  "(parseEvent m = Some (EvState st) \<longleftrightarrow>
      (\<exists>name. jget m ''type'' = Some (JStr ''state'') \<and> jget m ''state'' = Some (JStr name) \<and> (name, st) \<in> set STATES)) \<and>
   (parseEvent m = Some (EvError kind msg) \<longleftrightarrow>
      jget m ''type'' = Some (JStr ''error'') \<and> jget m ''kind'' = Some (JStr kind) \<and> jget m ''message'' = Some (JStr msg))"
proof -
  have mem: "map_of STATES name = Some st \<longleftrightarrow> (name, st) \<in> set STATES" for name st
    by (rule map_of_eq_Some_iff) (simp add: STATES_def)
  have obj: "jget m k = Some v \<Longrightarrow> is_object m" for k v by (cases m) simp_all
  show ?thesis
  proof (rule conjI)
    show "parseEvent m = Some (EvState st) \<longleftrightarrow>
      (\<exists>name. jget m ''type'' = Some (JStr ''state'') \<and> jget m ''state'' = Some (JStr name) \<and> (name, st) \<in> set STATES)"
      using obj by (fastforce simp: parseEvent_def mem bind_eq_Some_conv
          split: option.splits json.splits if_splits)
    show "parseEvent m = Some (EvError kind msg) \<longleftrightarrow>
      jget m ''type'' = Some (JStr ''error'') \<and> jget m ''kind'' = Some (JStr kind) \<and> jget m ''message'' = Some (JStr msg)"
      using obj by (fastforce simp: parseEvent_def split: option.splits json.splits if_splits)
  qed
qed

end
