(* ===== verification/Platform.thy ===== *)
theory Platform
  imports Json
begin

text \<open>
  The code the SDK calls and does not contain, as the fields of one record that the definitions take: the
  \<^verbatim>\<open>@noble\<close> and \<^verbatim>\<open>@scure\<close> packages, \<^verbatim>\<open>JSON.parse\<close> (on the text of the document, \<open>None\<close> when it throws) and
  the URL parser. \<open>reference_platform\<close> is one concrete choice, with a real hexadecimal codec and JSON
  reader, on which the properties are exercised.
\<close>

record platform =
  pf_hexToBytes :: "string \<Rightarrow> bytes option"
  pf_bytesToHex :: "bytes \<Rightarrow> string"
  pf_edVerify :: "bytes \<Rightarrow> bytes \<Rightarrow> bytes \<Rightarrow> bool option"
  pf_edPoint :: "bytes \<Rightarrow> bool"
  pf_edSign :: "bytes \<Rightarrow> bytes \<Rightarrow> bytes"
  pf_edPublic :: "bytes \<Rightarrow> bytes"
  pf_sha256 :: "bytes \<Rightarrow> bytes"
  pf_blake2b :: "bytes \<Rightarrow> bytes"
  pf_hkdf :: "bytes \<Rightarrow> bytes \<Rightarrow> bytes \<Rightarrow> nat \<Rightarrow> bytes"
  pf_base58Encode :: "bytes \<Rightarrow> string"
  pf_base58Decode :: "string \<Rightarrow> bytes option"
  pf_parse :: "string \<Rightarrow> json option"
  pf_urlOk :: "string \<Rightarrow> bool"

section \<open>A reference platform\<close>

fun hex_encode :: "bytes \<Rightarrow> string" where
  "hex_encode [] = []"
| "hex_encode (b # bs) = hex_digit (unat b div 16) # hex_digit (unat b mod 16) # hex_encode bs"

fun hex_decode :: "string \<Rightarrow> bytes option" where
  "hex_decode [] = Some []"
| "hex_decode [c] = None"
| "hex_decode (h # l # r) =
     (case (hex_value h, hex_value l, hex_decode r) of
        (Some a, Some b, Some bs) \<Rightarrow> Some (word_of_nat (16 * a + b) # bs)
      | _ \<Rightarrow> None)"

lemma hex_decode_encode [simp]: "hex_decode (hex_encode bs) = Some bs"
proof (induction bs)
  case Nil
  then show ?case by simp
next
  case (Cons b bs)
  have "unat b div 16 < 16" using byte_lt_256 [of b] by (simp add: less_mult_imp_div_less)
  moreover have "unat b mod 16 < 16" by simp
  moreover have "16 * (unat b div 16) + unat b mod 16 = unat b" by simp
  ultimately show ?case using Cons by (simp only: hex_encode.simps hex_decode.simps hex_value_digit option.case prod.case) simp
qed

text \<open>Signatures that verify exactly when they are the key's tag on the message.\<close>

definition reference_platform :: platform where
  "reference_platform = \<lparr>
     pf_hexToBytes = hex_decode,
     pf_bytesToHex = hex_encode,
     pf_edVerify = (\<lambda>sig msg pub. Some (take 1 sig = take 1 pub)),
     pf_edPoint = (\<lambda>_. True),
     pf_edSign = (\<lambda>msg key. take 1 key @ replicate 63 0),
     pf_edPublic = (\<lambda>key. key),
     pf_sha256 = (\<lambda>_. replicate 32 0),
     pf_blake2b = (\<lambda>_. replicate 64 0),
     pf_hkdf = (\<lambda>ikm salt info n. take n ikm),
     pf_base58Encode = utf8Decode,
     pf_base58Decode = (\<lambda>s. Some (utf8ToBytes s)),
     pf_parse = json_read,
     pf_urlOk = (\<lambda>_. True)\<rparr>"

lemma reference_platform_simps [simp]:
  "pf_hexToBytes reference_platform = hex_decode"
  "pf_bytesToHex reference_platform = hex_encode"
  "pf_edVerify reference_platform sig msg pub = Some (take 1 sig = take 1 pub)"
  "pf_edPoint reference_platform pub"
  "pf_edSign reference_platform msg key = take 1 key @ replicate 63 0"
  "pf_edPublic reference_platform key = key"
  "pf_sha256 reference_platform m = replicate 32 0"
  "pf_blake2b reference_platform m = replicate 64 0"
  "pf_hkdf reference_platform ikm salt info n = take n ikm"
  "pf_base58Encode reference_platform = utf8Decode"
  "pf_base58Decode reference_platform s = Some (utf8ToBytes s)"
  "pf_parse reference_platform = json_read"
  "pf_urlOk reference_platform s"
  by (simp_all add: reference_platform_def)

end
