(* ===== verification/Identity.thy ===== *)
theory Identity
  imports Platform
begin

text \<open>
  \<^verbatim>\<open>packages/core/src/identity\<close>: SS58 addresses (\<^verbatim>\<open>ss58.ts\<close>), the request signature (\<^verbatim>\<open>signing.ts\<close>), key
  derivation (\<^verbatim>\<open>derivation.ts\<close>, \<^verbatim>\<open>mnemonic.ts\<close>) and the password vault (\<^verbatim>\<open>vault.ts\<close>).
\<close>

section \<open>SS58 addresses\<close>

datatype ss58_error =
    PrefixOutOfRange
  | PublicKeyLength
  | NotBase58
  | EmptyAddress
  | AddressLength
  | UnexpectedPrefix
  | BadChecksum

definition WARREN_SS58_PREFIX :: int where
  "WARREN_SS58_PREFIX = 13295"

definition SS58PRE :: bytes where
  "SS58PRE = utf8ToBytes ''SS58PRE''"

definition encodePrefix :: "int \<Rightarrow> ss58_error + bytes" where
  "encodePrefix prefix =
     (if prefix < 0 \<or> prefix > 16383 then Inl PrefixOutOfRange
      else if prefix < 64 then Inr [word_of_int prefix]
      else let first = drop_bit 2 (prefix AND 0xFC) OR 0x40;
               second = drop_bit 8 prefix OR push_bit 6 (prefix AND 0x03)
           in Inr [word_of_int first, word_of_int second])"

definition encodeAddress :: "platform \<Rightarrow> bytes \<Rightarrow> int \<Rightarrow> ss58_error + string" where
  "encodeAddress pf publicKey prefix =
     bindR (guardR (length publicKey = 32) PublicKeyLength) (\<lambda>_.
     bindR (encodePrefix prefix) (\<lambda>pre.
     let payload = pre @ publicKey;
         checksum = take 2 (pf_blake2b pf (SS58PRE @ payload))
     in Inr (pf_base58Encode pf (payload @ checksum))))"

definition decodePrefix :: "bytes \<Rightarrow> nat \<Rightarrow> int" where
  "decodePrefix data prefixLen =
     (if prefixLen = 1 then uint (data ! 0)
      else let second = uint (data ! 1);
               high = second AND 0x3F;
               low2 = drop_bit 6 second;
               mid = uint (data ! 0) AND 0x3F
           in push_bit 8 high OR (push_bit 2 mid OR low2))"

definition decodeAddress :: "platform \<Rightarrow> string \<Rightarrow> int \<Rightarrow> ss58_error + bytes" where
  "decodeAddress pf address prefix =
     (case pf_base58Decode pf address of
        None \<Rightarrow> Inl NotBase58
      | Some data \<Rightarrow>
          bindR (guardR (data \<noteq> []) EmptyAddress) (\<lambda>_.
          let prefixLen = (if data ! 0 AND 0x40 \<noteq> 0 then 2 else 1) in
          bindR (guardR (length data = prefixLen + 34) AddressLength) (\<lambda>_.
          bindR (guardR (decodePrefix data prefixLen = prefix) UnexpectedPrefix) (\<lambda>_.
          let publicKey = take 32 (drop prefixLen data);
              checksum = take 2 (drop (prefixLen + 32) data);
              payload = take (prefixLen + 32) data;
              expected = take 2 (pf_blake2b pf (SS58PRE @ payload))
          in bindR (guardR (checksum ! 0 = expected ! 0 \<and> checksum ! 1 = expected ! 1) BadChecksum) (\<lambda>_.
             Inr publicKey)))))"

section \<open>Request signatures\<close>

definition canonicalMessage :: "string \<Rightarrow> string \<Rightarrow> int \<Rightarrow> string \<Rightarrow> string \<Rightarrow> string" where
  "canonicalMessage method path timestamp nonceHex bodyHashHex =
     method @ [CHR 0x0A] @ path @ [CHR 0x0A] @ show_int timestamp @ [CHR 0x0A] @ nonceHex @ [CHR 0x0A] @ bodyHashHex"

record RequestSignature =
  pubkeySs58 :: string
  signatureHex :: string
  sig_timestamp :: int
  sig_nonceHex :: string

record WarrenKeyPair =
  secretKey :: bytes
  publicKey :: bytes

definition signatureHeaders :: "RequestSignature \<Rightarrow> (string \<times> string) list" where
  "signatureHeaders sig =
     [(''X-Warren-PubKey'', pubkeySs58 sig), (''X-Warren-Sig'', signatureHex sig),
      (''X-Warren-Timestamp'', show_int (sig_timestamp sig)), (''X-Warren-Nonce'', sig_nonceHex sig)]"

definition signWithKeyPair ::
    "platform \<Rightarrow> WarrenKeyPair \<Rightarrow> string \<Rightarrow> string \<Rightarrow> string \<Rightarrow> int \<Rightarrow> string \<Rightarrow> ss58_error + RequestSignature" where
  "signWithKeyPair pf keyPair method path body timestamp nonceHex =
     (let bodyHashHex = pf_bytesToHex pf (pf_sha256 pf (utf8ToBytes body));
          message = canonicalMessage method path timestamp nonceHex bodyHashHex;
          signature = pf_edSign pf (utf8ToBytes message) (secretKey keyPair)
      in bindR (encodeAddress pf (publicKey keyPair) WARREN_SS58_PREFIX) (\<lambda>address.
         Inr \<lparr>pubkeySs58 = address, signatureHex = pf_bytesToHex pf signature,
              sig_timestamp = timestamp, sig_nonceHex = nonceHex\<rparr>))"

section \<open>Key derivation\<close>

definition HKDF_SALT :: bytes where
  "HKDF_SALT = utf8ToBytes ''warren/identity/v1''"

definition HKDF_INFO :: bytes where
  "HKDF_INFO = utf8ToBytes ''vpn-node-key''"

definition keyPairFromSeed :: "platform \<Rightarrow> bytes \<Rightarrow> WarrenKeyPair option" where
  "keyPairFromSeed pf seed32 =
     (if length seed32 \<noteq> 32 then None
      else let secret = pf_hkdf pf seed32 HKDF_SALT HKDF_INFO 32
           in Some \<lparr>secretKey = secret, publicKey = pf_edPublic pf secret\<rparr>)"

text \<open>\<open>None\<close> is the \<^verbatim>\<open>RangeError\<close> of a seed of the wrong size.\<close>

definition signRequest ::
    "platform \<Rightarrow> bytes \<Rightarrow> string \<Rightarrow> string \<Rightarrow> string \<Rightarrow> int \<Rightarrow> string \<Rightarrow> (ss58_error + RequestSignature) option" where
  "signRequest pf seed32 method path body timestamp nonceHex =
     map_option (\<lambda>pair. signWithKeyPair pf pair method path body timestamp nonceHex) (keyPairFromSeed pf seed32)"

definition wipeKeyPair :: "WarrenKeyPair \<Rightarrow> WarrenKeyPair" where
  "wipeKeyPair pair = pair\<lparr>secretKey := replicate (length (secretKey pair)) 0\<rparr>"

text \<open>\<open>nfkd\<close> is Unicode NFKD, \<open>validate\<close> and \<open>toSeed\<close> the BIP39 package; the result is the seed and the
  zeroized 64-byte buffer it was copied from.\<close>

definition seedFromMnemonic ::
    "(string \<Rightarrow> string) \<Rightarrow> (string \<Rightarrow> bool) \<Rightarrow> (string \<Rightarrow> bytes) \<Rightarrow> string \<Rightarrow> (bytes \<times> bytes) option" where
  "seedFromMnemonic nfkd validate toSeed mnemonic =
     (let normalized = nfkd mnemonic in
      if \<not> validate normalized then None
      else let seed64 = toSeed normalized in Some (take 32 seed64, replicate (length seed64) 0))"

section \<open>Arithmetic of the prefix\<close>

lemma and_mask_mod: "(x :: int) AND 0x3F = x mod 64" "(x :: int) AND 0x03 = x mod 4"
proof -
  have "(0x3F :: int) = mask 6" "(0x03 :: int) = mask 2" by (simp_all add: mask_eq_exp_minus_1)
  then have "x AND 0x3F = take_bit 6 x" "x AND 0x03 = take_bit 2 x" by (simp_all only: take_bit_eq_mask)
  then show "x AND 0x3F = x mod 64" "x AND 0x03 = x mod 4" by (simp_all add: take_bit_eq_mod)
qed

lemma or_disjoint_int: "0 \<le> a \<Longrightarrow> a < 2 ^ s \<Longrightarrow> push_bit s x OR a = x * 2 ^ s + (a :: int)"
proof -
  assume a: "0 \<le> a" "a < 2 ^ s"
  have "push_bit s x AND a = 0"
  proof (rule bit_eqI)
    fix n
    have "\<not> bit a n" if "s \<le> n"
      using a that by (metis bit_take_bit_iff linorder_not_less take_bit_int_eq_self)
    then show "bit (push_bit s x AND a) n = bit 0 n" by (auto simp: bit_simps)
  qed
  then show ?thesis by (simp add: disjunctive_add_eq_or [symmetric] push_bit_eq_mult)
qed

lemma middle_bits: "drop_bit 2 ((p :: int) AND 0xFC) = p div 4 mod 64"
proof -
  have "drop_bit 2 (p AND 0xFC) = drop_bit 2 p AND drop_bit 2 0xFC" by (rule drop_bit_and)
  also have "\<dots> = drop_bit 2 p AND 0x3F" by simp
  finally show ?thesis by (simp only: and_mask_mod) (simp add: drop_bit_eq_div)
qed

lemma uint_byte_lt: "uint (b :: byte) < 256"
proof -
  have "uint b < 2 ^ LENGTH(8)" by (rule unsigned_less)
  then show ?thesis by simp
qed

lemma uint_byte: "0 \<le> x \<Longrightarrow> x < 256 \<Longrightarrow> uint (word_of_int x :: byte) = x"
  by (simp add: uint_word_of_int)

text \<open>A two-byte prefix splits and joins without loss.\<close>

lemma two_byte_prefix:
  assumes "64 \<le> p" and "p \<le> 16383"
  shows "encodePrefix p = Inr [word_of_int (64 + p div 4 mod 64), word_of_int (p div 256 + p mod 4 * 64)]"
    and "decodePrefix ([word_of_int (64 + p div 4 mod 64), word_of_int (p div 256 + p mod 4 * 64)] @ rest) 2 = p"
proof -
  have mid: "0 \<le> p div 4 mod 64" "p div 4 mod 64 < 64" by simp_all
  have high: "0 \<le> p div 256" "p div 256 < 64" using assms by (simp_all add: div_less_iff_less_mult pos_imp_zdiv_nonneg_iff)
  have first: "p div 4 mod 64 OR 0x40 = 64 + p div 4 mod 64"
    using or_disjoint_int [of "p div 4 mod 64" 6 1] mid by (simp add: or.commute)
  have second: "p div 256 OR push_bit 6 (p mod 4) = p div 256 + p mod 4 * 64"
    using or_disjoint_int [of "p div 256" 6 "p mod 4"] high by (simp add: or.commute)
  show "encodePrefix p = Inr [word_of_int (64 + p div 4 mod 64), word_of_int (p div 256 + p mod 4 * 64)]"
    unfolding encodePrefix_def Let_def middle_bits first and_mask_mod
    using assms second by (simp add: drop_bit_eq_div)
  let ?f = "64 + p div 4 mod 64" and ?s = "p div 256 + p mod 4 * 64"
  have "?s < 256" using high pos_mod_bound [of 4 p] by linarith
  moreover have "0 \<le> ?s" using high by simp
  ultimately have us: "uint (word_of_int ?s :: byte) = ?s" by (intro uint_byte)
  have uf: "uint (word_of_int ?f :: byte) = ?f" using mid by (intro uint_byte) simp_all
  have parts: "?s AND 0x3F = p div 256" "drop_bit 6 ?s = p mod 4" "?f AND 0x3F = p div 4 mod 64"
    using high by (simp_all add: and_mask_mod drop_bit_eq_div)
  have low: "push_bit 2 (p div 4 mod 64) OR p mod 4 = p div 4 mod 64 * 4 + p mod 4"
    using or_disjoint_int [of "p mod 4" 2 "p div 4 mod 64"] by simp
  have "push_bit 8 (p div 256) OR (p div 4 mod 64 * 4 + p mod 4) = p div 256 * 256 + (p div 4 mod 64 * 4 + p mod 4)"
    using or_disjoint_int [of "p div 4 mod 64 * 4 + p mod 4" 8 "p div 256"] mid pos_mod_bound [of 4 p] pos_mod_sign [of 4 p]
    by simp
  also have "\<dots> = p"
  proof -
    have "p div 256 = p div 4 div 64" by (simp add: zdiv_zmult2_eq [symmetric])
    then have "p div 256 * 64 + p div 4 mod 64 = p div 4" by (simp only: div_mult_mod_eq)
    moreover have "p div 4 * 4 + p mod 4 = p" by (rule div_mult_mod_eq)
    ultimately show ?thesis by linarith
  qed
  finally show "decodePrefix ([word_of_int ?f, word_of_int ?s] @ rest) 2 = p"
    unfolding decodePrefix_def Let_def append_Cons nth_Cons_0 nth_Cons_Suc One_nat_def us uf parts low by simp
qed

lemma two_byte_marker: "(word_of_int (64 + p div 4 mod 64) :: byte) AND 0x40 \<noteq> 0"
proof -
  have "bit (64 + p div 4 mod 64 :: int) 6"
  proof -
    have "0 \<le> p div 4 mod 64" "p div 4 mod 64 < 64" by simp_all
    then have "(64 + p div 4 mod 64) div 64 = 1" by simp
    then show ?thesis by (simp add: bit_iff_odd)
  qed
  then have "bit (word_of_int (64 + p div 4 mod 64) :: byte) 6"
    by (simp only: bit_word_of_int_iff) simp
  then show ?thesis using and_exp_eq_0_iff_not_bit [of "word_of_int (64 + p div 4 mod 64) :: byte" 6] by simp
qed

lemma one_byte_marker: "0 \<le> p \<Longrightarrow> p < 64 \<Longrightarrow> (word_of_int p :: byte) AND 0x40 = 0"
proof -
  assume p: "0 \<le> p" "p < 64"
  then have "\<not> bit p 6" by (simp add: bit_iff_odd)
  then have "\<not> bit (word_of_int p :: byte) 6" by (simp add: bit_of_int_iff)
  then show ?thesis using and_exp_eq_0_iff_not_bit [of "word_of_int p :: byte" 6] by simp
qed

section \<open>Decoding what was encoded\<close>

lemma decodeAddress_payload:
  assumes dec: "pf_base58Decode pf a = Some (pre @ pk @ take 2 (pf_blake2b pf (SS58PRE @ pre @ pk)))"
    and blake: "length (pf_blake2b pf (SS58PRE @ pre @ pk)) = 64" and pk: "length pk = 32"
    and pre: "length pre = (if pre ! 0 AND 0x40 \<noteq> 0 then 2 else 1)" "pre \<noteq> []"
    and prefix: "decodePrefix (pre @ pk @ take 2 (pf_blake2b pf (SS58PRE @ pre @ pk))) (length pre) = p"
  shows "decodeAddress pf a p = Inr pk"
proof -
  let ?sum = "take 2 (pf_blake2b pf (SS58PRE @ pre @ pk))"
  let ?data = "pre @ pk @ ?sum"
  have first: "?data ! 0 = pre ! 0" using pre(2) by (simp add: nth_append)
  have len: "(if ?data ! 0 AND 0x40 \<noteq> 0 then 2 else 1) = length pre" using pre first by simp
  have "length ?data = length pre + 34" using blake pk by simp
  moreover have "take 32 (drop (length pre) ?data) = pk" "take 2 (drop (length pre + 32) ?data) = ?sum"
    "take (length pre + 32) ?data = pre @ pk"
    using pk by simp_all
  ultimately show ?thesis
    unfolding decodeAddress_def dec using pre(2) prefix by (simp add: Let_def len del: append_assoc)
qed

lemma decodePrefix_one: "0 \<le> p \<Longrightarrow> p < 64 \<Longrightarrow> decodePrefix (word_of_int p # rest) 1 = p"
  by (simp add: decodePrefix_def uint_byte)

lemma decodePrefix_sum:
  assumes "2 \<le> length data"
  shows "decodePrefix data 2 = uint (data ! 1) mod 64 * 256 + uint (data ! 0) mod 64 * 4 + uint (data ! 1) div 64"
proof -
  let ?s = "uint (data ! 1)" and ?f = "uint (data ! 0)"
  have s: "0 \<le> ?s" "?s < 256" using uint_byte_lt [of "data ! 1"] by simp_all
  have "?s div 64 < 4" "0 \<le> ?s div 64" using s by (simp_all add: div_less_iff_less_mult pos_imp_zdiv_nonneg_iff)
  then have low: "push_bit 2 (?f mod 64) OR ?s div 64 = ?f mod 64 * 4 + ?s div 64"
    using or_disjoint_int [of "?s div 64" 2 "?f mod 64"] by simp
  have "?f mod 64 * 4 + ?s div 64 < 256" "0 \<le> ?f mod 64 * 4 + ?s div 64"
    using \<open>?s div 64 < 4\<close> \<open>0 \<le> ?s div 64\<close> pos_mod_bound [of 64 ?f] pos_mod_sign [of 64 ?f] by linarith+
  then have "push_bit 8 (?s mod 64) OR (?f mod 64 * 4 + ?s div 64) = ?s mod 64 * 256 + (?f mod 64 * 4 + ?s div 64)"
    using or_disjoint_int [of "?f mod 64 * 4 + ?s div 64" 8 "?s mod 64"] by simp
  then show ?thesis
    by (simp only: decodePrefix_def Let_def and_mask_mod drop_bit_eq_div) (simp add: low [simplified])
qed

text \<open>The digits of the Warren prefix fix the second byte and the first up to its top bit.\<close>

lemma warren_prefix_bytes:
  assumes "2 \<le> length data" and "decodePrefix data 2 = WARREN_SS58_PREFIX" and "data ! 0 AND 0x40 \<noteq> 0"
  shows "data ! 1 = 0xF3" and "data ! 0 = 0x7B \<or> data ! 0 = 0xFB"
proof -
  let ?s = "uint (data ! 1)" and ?f = "uint (data ! 0)"
  have s: "0 \<le> ?s" "?s < 256" and f: "0 \<le> ?f" "?f < 256" using uint_byte_lt [of "data ! 1"] uint_byte_lt [of "data ! 0"] by simp_all
  have eq: "?s mod 64 * 256 + ?f mod 64 * 4 + ?s div 64 = 13295"
    using decodePrefix_sum [OF assms(1)] assms(2) by (simp add: WARREN_SS58_PREFIX_def)
  have b: "0 \<le> ?s div 64" "?s div 64 < 4" "0 \<le> ?f mod 64" "?f mod 64 < 64" "0 \<le> ?s mod 64" "?s mod 64 < 64"
    using s by (simp_all add: div_less_iff_less_mult pos_imp_zdiv_nonneg_iff)
  have digits: "x = 51 \<and> y = 59 \<and> z = 3"
    if "x * 256 + y * 4 + z = 13295" "0 \<le> z" "z < 4" "0 \<le> y" "y < 64" "0 \<le> x" "x < 64" for x y z :: int
  proof -
    have "x < 52" "50 < x" using that by linarith+
    then have x: "x = 51" by simp
    have "y < 60" "58 < y" using that x by linarith+
    then have "y = 59" by simp
    with that x show ?thesis by simp
  qed
  from digits [OF eq b] have "?s mod 64 = 51" "?f mod 64 = 59" "?s div 64 = 3" by simp_all
  moreover have "?s div 64 * 64 + ?s mod 64 = ?s" by (rule div_mult_mod_eq)
  ultimately have "?s = uint (0xF3 :: byte)" by simp
  then show "data ! 1 = 0xF3" by (simp only: word_uint_eq_iff)
  have "bit (data ! 0) 6"
    using assms(3) and_exp_eq_0_iff_not_bit [of "data ! 0" 6] by simp
  then have "bit ?f 6" by (simp add: bit_unsigned_iff)
  then have "odd (?f div 64)" by (simp add: bit_iff_odd)
  moreover have "0 \<le> ?f div 64" "?f div 64 < 4" using f by (simp_all add: div_less_iff_less_mult pos_imp_zdiv_nonneg_iff)
  moreover have "q = 1 \<or> q = 3" if "odd q" "0 \<le> q" "q < 4" for q :: int
  proof -
    from that(2,3) have "q = 0 \<or> q = 1 \<or> q = 2 \<or> q = 3" by auto
    with that(1) show ?thesis by auto
  qed
  ultimately have "?f div 64 = 1 \<or> ?f div 64 = 3" by simp
  moreover have "?f div 64 * 64 + ?f mod 64 = ?f" by (rule div_mult_mod_eq)
  ultimately have "?f = uint (0x7B :: byte) \<or> ?f = uint (0xFB :: byte)" using \<open>?f mod 64 = 59\<close> by auto
  then show "data ! 0 = 0x7B \<or> data ! 0 = 0xFB" by (simp only: word_uint_eq_iff)
qed

section \<open>Properties\<close>

text \<open>
  An address names its key: for every 32-byte public key and every prefix from 0 to 16383, \<^verbatim>\<open>encodeAddress\<close>
  returns an address and \<^verbatim>\<open>decodeAddress\<close> of it with that prefix returns the key, whenever base58 decoding
  inverts its encoding and BLAKE2b gives 64 bytes.
\<close>

theorem address_roundtrip:
  assumes base58: "\<And>bs. pf_base58Decode pf (pf_base58Encode pf bs) = Some bs"
    and blake: "\<And>bs. length (pf_blake2b pf bs) = 64"
    and "length pk = 32" and "0 \<le> p" and "p \<le> 16383"
  shows "\<exists>a. encodeAddress pf pk p = Inr a \<and> decodeAddress pf a p = Inr pk"
proof (cases "p < 64")
  case True
  let ?pre = "[word_of_int p :: byte]"
  have "encodePrefix p = Inr ?pre" using True assms(4) by (simp add: encodePrefix_def)
  moreover have "decodeAddress pf (pf_base58Encode pf (?pre @ pk @ take 2 (pf_blake2b pf (SS58PRE @ ?pre @ pk)))) p = Inr pk"
    using True assms(4) by (intro decodeAddress_payload [OF base58 blake assms(3)])
      (simp_all add: one_byte_marker decodePrefix_one [simplified])
  ultimately show ?thesis using assms(3) by (simp add: encodeAddress_def Let_def)
next
  case False
  let ?pre = "[word_of_int (64 + p div 4 mod 64), word_of_int (p div 256 + p mod 4 * 64) :: byte]"
  have p: "64 \<le> p" using False by simp
  have "decodeAddress pf (pf_base58Encode pf (?pre @ pk @ take 2 (pf_blake2b pf (SS58PRE @ ?pre @ pk)))) p = Inr pk"
  proof (rule decodeAddress_payload [OF base58 blake assms(3)])
    show "length ?pre = (if ?pre ! 0 AND 0x40 \<noteq> 0 then 2 else 1)"
      using two_byte_marker [of p] by (simp only: nth_Cons_0 if_True) simp
    have "length ?pre = 2" by simp
    then show "decodePrefix (?pre @ pk @ take 2 (pf_blake2b pf (SS58PRE @ ?pre @ pk))) (length ?pre) = p"
      using two_byte_prefix(2) [OF p assms(5)] by (simp only:)
  qed simp
  then show ?thesis
    using two_byte_prefix(1) [OF p assms(5)] assms(3) by (simp add: encodeAddress_def Let_def)
qed

theorem address_roundtrip_witness:
  "\<exists>a. encodeAddress reference_platform (replicate 32 7) WARREN_SS58_PREFIX = Inr a \<and>
    decodeAddress reference_platform a WARREN_SS58_PREFIX = Inr (replicate 32 7)"
  by (rule address_roundtrip) (simp_all add: WARREN_SS58_PREFIX_def)

text \<open>
  What \<^verbatim>\<open>decodeAddress\<close> accepts under the Warren prefix: the two prefix bytes, the returned 32-byte key and the
  matching checksum, and nothing else; but the first byte may carry its top bit, so besides the address
  \<^verbatim>\<open>encodeAddress\<close> gives there is one more spelling (first byte 251 for 123) of every key.
\<close>

theorem decodeAddress_accepts:
  assumes "decodeAddress pf a WARREN_SS58_PREFIX = Inr pk" and blake: "\<And>bs. length (pf_blake2b pf bs) = 64"
  shows "\<exists>first. (first = 0x7B \<or> first = 0xFB) \<and> length pk = 32 \<and>
    pf_base58Decode pf a = Some ([first, 0xF3] @ pk @ take 2 (pf_blake2b pf (SS58PRE @ [first, 0xF3] @ pk)))"
proof -
  from assms(1) obtain data where data: "pf_base58Decode pf a = Some data" and ne: "data \<noteq> []"
    by (auto simp: decodeAddress_def split: option.splits if_splits)
  let ?n = "if data ! 0 AND 0x40 \<noteq> 0 then 2 else 1 :: nat"
  have len: "length data = ?n + 34" and pre: "decodePrefix data ?n = WARREN_SS58_PREFIX"
    and pk: "pk = take 32 (drop ?n data)"
    and sum: "take 2 (drop (?n + 32) data) ! 0 = take 2 (pf_blake2b pf (SS58PRE @ take (?n + 32) data)) ! 0"
      "take 2 (drop (?n + 32) data) ! 1 = take 2 (pf_blake2b pf (SS58PRE @ take (?n + 32) data)) ! 1"
    using assms(1) data ne by (simp_all add: decodeAddress_def Let_def split: if_splits)
  have two: "data ! 0 AND 0x40 \<noteq> 0"
  proof (rule ccontr)
    assume "\<not> data ! 0 AND 0x40 \<noteq> 0"
    then have "uint (data ! 0) = 13295" using pre by (simp add: decodePrefix_def WARREN_SS58_PREFIX_def)
    then show False using uint_byte_lt [of "data ! 0"] by simp
  qed
  then have n: "?n = 2" by simp
  note bytes = warren_prefix_bytes [OF _ pre [unfolded n] two]
  have "length data = 36" using len n by simp
  then obtain b0 b1 rest where d: "data = b0 # b1 # rest" "length rest = 34"
    by (cases data; cases "tl data") auto
  have "b1 = 0xF3" "b0 = 0x7B \<or> b0 = 0xFB" using bytes d by simp_all
  moreover have "length pk = 32" "pk = take 32 rest" using pk n d by simp_all
  moreover have "drop 32 rest = take 2 (pf_blake2b pf (SS58PRE @ b0 # b1 # take 32 rest))"
  proof (rule nth_equalityI)
    show l: "length (drop 32 rest) = length (take 2 (pf_blake2b pf (SS58PRE @ b0 # b1 # take 32 rest)))"
      using d(2) by (simp add: blake)
    fix i assume "i < length (drop 32 rest)"
    then have "i = 0 \<or> i = 1" using d(2) by auto
    moreover have "take 2 (drop (?n + 32) data) = drop 32 rest" "take (?n + 32) data = b0 # b1 # take 32 rest"
      unfolding n using d by simp_all
    ultimately show "drop 32 rest ! i = take 2 (pf_blake2b pf (SS58PRE @ b0 # b1 # take 32 rest)) ! i"
      using sum by auto
  qed
  ultimately show ?thesis
    using data d by (intro exI [of _ b0]) (metis append_Cons append_Nil append_take_drop_id)
qed

theorem decodeAddress_accepts_witness:
  "pf_base58Decode reference_platform (utf8Decode ([0xFB, 0xF3] @ replicate 32 7 @ [0, 0])) =
     Some ([0xFB, 0xF3] @ replicate 32 7 @ [0, 0]) \<and>
   decodeAddress reference_platform (utf8Decode ([0xFB, 0xF3] @ replicate 32 7 @ [0, 0])) WARREN_SS58_PREFIX =
     Inr (replicate 32 7) \<and>
   (\<exists>first. (first = 0x7B \<or> first = 0xFB) \<and> length (replicate 32 (7 :: byte)) = 32 \<and>
    pf_base58Decode reference_platform (utf8Decode ([0xFB, 0xF3] @ replicate 32 7 @ [0, 0])) =
      Some ([first, 0xF3] @ replicate 32 7 @ take 2 (pf_blake2b reference_platform (SS58PRE @ [first, 0xF3] @ replicate 32 7))))"
proof -
  let ?a = "utf8Decode ([0xFB, 0xF3] @ replicate 32 7 @ [0, 0])"
  have dec: "pf_base58Decode reference_platform ?a = Some ([0xFB, 0xF3] @ replicate 32 7 @ [0, 0])"
    by (simp only: reference_platform_simps utf8_bytes_roundtrip)
  have "decodeAddress reference_platform ?a WARREN_SS58_PREFIX = Inr (replicate 32 7)"
  proof (rule decodeAddress_payload)
    have sum: "take 2 (replicate 64 (0 :: byte)) = [0, 0]" by (simp add: numeral_eq_Suc)
    show "pf_base58Decode reference_platform ?a =
        Some ([0xFB, 0xF3] @ replicate 32 7 @ take 2 (pf_blake2b reference_platform (SS58PRE @ [0xFB, 0xF3] @ replicate 32 7)))"
      unfolding dec by (simp only: reference_platform_simps sum)
    show "decodePrefix ([0xFB, 0xF3] @ replicate 32 7 @ take 2 (pf_blake2b reference_platform (SS58PRE @ [0xFB, 0xF3] @ replicate 32 7)))
        (length [0xFB, 0xF3 :: byte]) = WARREN_SS58_PREFIX"
    proof -
      have two: "length [0xFB, 0xF3 :: byte] = 2" by simp
      show ?thesis unfolding two by (subst decodePrefix_sum) (simp_all add: WARREN_SS58_PREFIX_def)
    qed
  qed simp_all
  then show ?thesis
    using decodeAddress_accepts [of reference_platform ?a "replicate 32 7"] dec by simp
qed

text \<open>
  The signed text is unambiguous: when method, path and nonce carry no line feed, two requests with the same
  canonical message agree on method, path, timestamp, nonce and body hash. Nothing of one field can be
  read as part of another.
\<close>

theorem canonicalMessage_unambiguous:
  assumes "canonicalMessage m p t n h = canonicalMessage m' p' t' n' h'"
    and "CHR 0x0A \<notin> set m \<union> set p \<union> set n" and "CHR 0x0A \<notin> set m' \<union> set p' \<union> set n'"
  shows "m = m' \<and> p = p' \<and> t = t' \<and> n = n' \<and> h = h'"
proof -
  have num: "CHR 0x0A \<notin> set (show_int i)" for i
    using show_nat_digits [of "nat i"] show_nat_digits [of "nat (- i)"]
    by (auto simp: show_int_def list_all_iff is_digit_def)
  have inj: "show_int i = show_int j \<Longrightarrow> i = j" for i j
  proof -
    assume eq: "show_int i = show_int j"
    have "read_number (show_int i @ []) = Some (i, [])" "read_number (show_int j @ []) = Some (j, [])"
      by (rule read_number_show, simp add: num_end_def)+
    with eq show "i = j" by simp
  qed
  have "m @ CHR 0x0A # p @ CHR 0x0A # show_int t @ CHR 0x0A # n @ CHR 0x0A # h =
      m' @ CHR 0x0A # p' @ CHR 0x0A # show_int t' @ CHR 0x0A # n' @ CHR 0x0A # h'"
    using assms(1) by (simp add: canonicalMessage_def)
  then have 1: "m = m'" and "p @ CHR 0x0A # show_int t @ CHR 0x0A # n @ CHR 0x0A # h =
      p' @ CHR 0x0A # show_int t' @ CHR 0x0A # n' @ CHR 0x0A # h'"
    using append_sep_inj [of m "CHR 0x0A" _ m'] assms(2,3) by auto
  then have 2: "p = p'" and "show_int t @ CHR 0x0A # n @ CHR 0x0A # h = show_int t' @ CHR 0x0A # n' @ CHR 0x0A # h'"
    using append_sep_inj [of p "CHR 0x0A" _ p'] assms(2,3) by auto
  then have 3: "show_int t = show_int t'" and "n @ CHR 0x0A # h = n' @ CHR 0x0A # h'"
    using append_sep_inj [of "show_int t" "CHR 0x0A" _ "show_int t'"] num by auto
  then have "n = n'" "h = h'"
    using append_sep_inj [of n "CHR 0x0A" _ n'] assms(2,3) by auto
  with 1 2 inj [OF 3] show ?thesis by simp
qed

theorem canonicalMessage_unambiguous_witness:
  "\<not> (canonicalMessage ''GET'' ''/v1/exits'' 17 ''00'' ''ab'' = canonicalMessage ''GET'' ''/v1/exits'' 18 ''00'' ''ab'')"
  using canonicalMessage_unambiguous [of "''GET''" "''/v1/exits''" 17 "''00''" "''ab''" "''GET''" "''/v1/exits''" 18 "''00''" "''ab''"]
  by auto

section \<open>The vault\<close>

text \<open>
  \<open>kdf\<close>, \<open>enc\<close> and \<open>dec\<close> are PBKDF2 and AES-GCM of WebCrypto (\<open>dec\<close> is \<open>None\<close> when authentication fails), \<open>b64\<close> and
  \<open>unb64\<close> are \<^verbatim>\<open>btoa\<close> and \<^verbatim>\<open>atob\<close> on byte strings, \<open>nfkd\<close> is Unicode normalization; salt and nonce are drawn by
  the caller.
\<close>

datatype vault_error = VaultMalformed | VaultCannotDecrypt | VaultDerivationFailed

datatype 'key vault_secret = Password string | CachedKey 'key

definition VAULT_ITERATIONS :: int where
  "VAULT_ITERATIONS = 900000"

record 'key vault_lib =
  vl_kdf :: "string \<Rightarrow> bytes \<Rightarrow> int \<Rightarrow> 'key option"
  vl_encrypt :: "'key \<Rightarrow> bytes \<Rightarrow> bytes \<Rightarrow> bytes"
  vl_decrypt :: "'key \<Rightarrow> bytes \<Rightarrow> bytes \<Rightarrow> bytes option"
  vl_b64 :: "bytes \<Rightarrow> string"
  vl_unb64 :: "string \<Rightarrow> bytes option"
  vl_nfkd :: "string \<Rightarrow> string"

record 'key derived_vault_key =
  dk_key :: 'key
  dk_saltB64 :: string
  dk_iterations :: int

text \<open>
  An absent or empty \<open>saltB64\<close> mints a fresh vault with the drawn salt; absent \<open>iterations\<close> take the default.
  What \<^verbatim>\<open>atob\<close> or \<^verbatim>\<open>deriveKey\<close> throws leaves the function as it is.
\<close>

definition deriveVaultKey ::
    "'key vault_lib \<Rightarrow> bytes \<Rightarrow> string \<Rightarrow> string option \<Rightarrow> int option \<Rightarrow> vault_error + 'key derived_vault_key" where
  "deriveVaultKey vl drawn password saltB64 iterations =
     (let n = (case iterations of Some n \<Rightarrow> n | None \<Rightarrow> VAULT_ITERATIONS);
          salt = (case saltB64 of Some t \<Rightarrow> if t = [] then Some drawn else vl_unb64 vl t | None \<Rightarrow> Some drawn)
      in case Option.bind salt (\<lambda>s. vl_kdf vl password s n) of
           None \<Rightarrow> Inl VaultDerivationFailed
         | Some k \<Rightarrow> Inr \<lparr>dk_key = k, dk_saltB64 = vl_b64 vl (the salt), dk_iterations = n\<rparr>)"

definition vault_blob :: "int \<Rightarrow> string \<Rightarrow> string \<Rightarrow> string \<Rightarrow> json" where
  "vault_blob iterations saltB64 ivB64 ctB64 = JObj
     [(''v'', JInt 1),
      (''kdf'', JObj [(''name'', JStr ''PBKDF2''), (''hash'', JStr ''SHA-256''), (''iterations'', JInt iterations),
         (''salt'', JStr saltB64)]),
      (''cipher'', JObj [(''name'', JStr ''AES-GCM''), (''iv'', JStr ivB64)]),
      (''ct'', JStr ctB64)]"

definition encryptMnemonic :: "'key vault_lib \<Rightarrow> bytes \<Rightarrow> bytes \<Rightarrow> string \<Rightarrow> string \<Rightarrow> vault_error + string" where
  "encryptMnemonic vl salt iv mnemonic password =
     bindR (deriveVaultKey vl salt password None None) (\<lambda>derived.
       let ct = vl_encrypt vl (dk_key derived) iv (utf8ToBytes (vl_nfkd vl mnemonic))
       in Inr (stringify (vault_blob (dk_iterations derived) (dk_saltB64 derived) (vl_b64 vl iv) (vl_b64 vl ct))))"

text \<open>
  The shape check of \<^verbatim>\<open>decryptMnemonic\<close>: version one and the three text fields neither missing nor empty; the
  iteration count may be missing. The blob's fields have the types \<^verbatim>\<open>VaultBlob\<close> declares; one of another type is
  taken as malformed.
\<close>

definition vault_fields :: "json \<Rightarrow> (int option \<times> string \<times> string \<times> string) option" where
  "vault_fields blob =
     (case (jget blob ''v'', jstring blob ''ct'', Option.bind (jget blob ''cipher'') (\<lambda>c. jstring c ''iv''),
            Option.bind (jget blob ''kdf'') (\<lambda>k. jstring k ''salt''),
            Option.bind (jget blob ''kdf'') (\<lambda>k. jget k ''iterations'')) of
        (Some (JInt v), Some ct, Some iv, Some salt, iterations) \<Rightarrow>
          (if v \<noteq> 1 \<or> ct = [] \<or> iv = [] \<or> salt = [] then None
           else case iterations of
             None \<Rightarrow> Some (None, salt, iv, ct)
           | Some (JInt n) \<Rightarrow> Some (Some n, salt, iv, ct)
           | Some _ \<Rightarrow> None)
      | _ \<Rightarrow> None)"

definition decryptMnemonic ::
    "'key vault_lib \<Rightarrow> (string \<Rightarrow> json option) \<Rightarrow> string \<Rightarrow> 'key vault_secret \<Rightarrow> vault_error + string" where
  "decryptMnemonic vl parse blobJson secret =
     (case Option.bind (parse blobJson) vault_fields of
        None \<Rightarrow> Inl VaultMalformed
      | Some (iterations, salt, iv, ct) \<Rightarrow>
          bindR (case secret of
               Password password \<Rightarrow> map_sum id dk_key (deriveVaultKey vl [] password (Some salt) iterations)
             | CachedKey k \<Rightarrow> Inr k)
            (\<lambda>key. case (vl_unb64 vl iv, vl_unb64 vl ct) of
                (Some ivBytes, Some ctBytes) \<Rightarrow>
                  (case vl_decrypt vl key ivBytes ctBytes of
                     None \<Rightarrow> Inl VaultCannotDecrypt
                   | Some plaintext \<Rightarrow> Inr (utf8Decode plaintext))
              | _ \<Rightarrow> Inl VaultCannotDecrypt))"

lemma vault_fields_blob:
  "salt \<noteq> [] \<Longrightarrow> iv \<noteq> [] \<Longrightarrow> ct \<noteq> [] \<Longrightarrow> vault_fields (vault_blob n salt iv ct) = Some (Some n, salt, iv, ct)"
  by (simp add: vault_fields_def vault_blob_def jstring_def jinteger_def)

lemma vault_blob_no_frac: "no_frac (vault_blob n salt iv ct)"
  by (simp add: vault_blob_def)

text \<open>
  The wallet at rest opens again: when the key derivation answers, \<^verbatim>\<open>encryptMnemonic\<close> returns a blob, and the blob
  decrypts with the same password, or with the key derived from it, to the normalized mnemonic. AES-GCM
  decryption inverting encryption, base64 decoding inverting its encoding (non-empty bytes giving non-empty text),
  \<^verbatim>\<open>JSON.parse\<close> inverting \<^verbatim>\<open>JSON.stringify\<close>.
\<close>

theorem vault_roundtrip:
  assumes aead: "\<And>k iv m. vl_decrypt vl k iv (vl_encrypt vl k iv m) = Some m"
    and b64: "\<And>bs. vl_unb64 vl (vl_b64 vl bs) = Some bs" "\<And>bs. vl_b64 vl bs = [] \<longleftrightarrow> bs = []"
    and parse: "\<And>j. no_frac j \<Longrightarrow> parse (stringify j) = Some j"
    and kdf: "vl_kdf vl pw salt VAULT_ITERATIONS = Some key"
    and "salt \<noteq> []" "iv \<noteq> []" "\<And>k iv m. vl_encrypt vl k iv m \<noteq> []"
  shows "\<exists>blob. encryptMnemonic vl salt iv mnemonic pw = Inr blob \<and>
    decryptMnemonic vl parse blob (Password pw) = Inr (vl_nfkd vl mnemonic) \<and>
    decryptMnemonic vl parse blob (CachedKey key) = Inr (vl_nfkd vl mnemonic)"
  using assms(5-8)
  by (simp add: decryptMnemonic_def encryptMnemonic_def deriveVaultKey_def Let_def parse vault_blob_no_frac
      vault_fields_blob b64 aead)

definition plain_vault_lib :: "string vault_lib" where
  "plain_vault_lib = \<lparr>vl_kdf = (\<lambda>pw salt n. if 0 < n then Some pw else None), vl_encrypt = (\<lambda>k iv m. 1 # utf8ToBytes k @ m),
     vl_decrypt = (\<lambda>k iv c. if take (Suc (length k)) c = 1 # utf8ToBytes k then Some (drop (Suc (length k)) c) else None),
     vl_b64 = hex_encode, vl_unb64 = hex_decode, vl_nfkd = (\<lambda>m. m)\<rparr>"

theorem vault_roundtrip_witness:
  "\<exists>blob. encryptMnemonic plain_vault_lib [1] [2] ''abandon art'' ''pw'' = Inr blob \<and>
     decryptMnemonic plain_vault_lib json_read blob (Password ''pw'') = Inr ''abandon art''"
proof -
  have empty: "hex_encode bs = [] \<longleftrightarrow> bs = []" for bs by (cases bs) simp_all
  have "length (utf8ToBytes k) = length k" for k by (simp add: utf8ToBytes_def)
  then have "\<exists>blob. encryptMnemonic plain_vault_lib [1] [2] ''abandon art'' ''pw'' = Inr blob \<and>
     decryptMnemonic plain_vault_lib json_read blob (Password ''pw'') = Inr (vl_nfkd plain_vault_lib ''abandon art'') \<and>
     decryptMnemonic plain_vault_lib json_read blob (CachedKey ''pw'') = Inr (vl_nfkd plain_vault_lib ''abandon art'')"
    by (intro vault_roundtrip) (simp_all add: plain_vault_lib_def json_read_stringify empty VAULT_ITERATIONS_def)
  then show ?thesis by (auto simp: plain_vault_lib_def)
qed

end
