(* ===== verification/Relay_List.thy ===== *)
theory Relay_List
  imports Identity
begin

text \<open>
  \<^verbatim>\<open>packages/core/src/discovery\<close>: the relay model (\<^verbatim>\<open>relay.ts\<close>) and the verifier of the signed relay list
  (\<^verbatim>\<open>verify.ts\<close>). The document is validated field by field, re-serialized in the frozen order, and the
  signature is checked on that text.
\<close>

section \<open>Relays\<close>

record Relay =
  endpointIdHex :: string
  exitIdHex :: string
  country :: string
  city :: string
  weight :: int
  active :: bool
  ipv6Egress :: bool
  hasIpv4 :: bool
  hasIpv6 :: bool
  addrs :: "string list"
  coverDomain :: "string option"

record VerifiedRelayList =
  generation :: int
  signedAt :: int
  expiresAt :: int
  relays :: "Relay list"
  serverPubkeyHex :: string

definition isExpired :: "VerifiedRelayList \<Rightarrow> int \<Rightarrow> bool" where
  "isExpired list nowUnixSecs \<longleftrightarrow> nowUnixSecs \<ge> expiresAt list"

section \<open>Validation\<close>

datatype discovery_error =
    DJson
  | DUnsupportedVersion int
  | DServerPubkeyMismatch
  | DValidityTooLong
  | DInvalidHex
  | DPubkeyNotOnCurve
  | DBadSignature
  | DInvalidNodeId
  | DInvalidEndpointAddress
  | DEndpointFamilyMismatch
  | DExpired
  | DRolledBack

definition SIGNED_VERSION :: int where
  "SIGNED_VERSION = 10"

definition MAX_VALIDITY_SECS :: int where
  "MAX_VALIDITY_SECS = 7 * 24 * 60 * 60"

definition is_hex :: "char \<Rightarrow> bool" where
  "is_hex c \<longleftrightarrow> hex_value c \<noteq> None"

definition hex_of_length :: "nat \<Rightarrow> string \<Rightarrow> bool" where
  "hex_of_length n s \<longleftrightarrow> length s = n \<and> list_all is_hex s"

lemma hex_encode_ok: "hex_of_length (2 * length bs) (hex_encode bs)"
proof (induction bs)
  case Nil
  then show ?case by (simp add: hex_of_length_def)
next
  case (Cons b bs)
  have "unat b div 16 < 16" using byte_lt_256 [of b] by (simp add: less_mult_imp_div_less)
  with Cons show ?case by (simp add: hex_of_length_def is_hex_def)
qed

lemma toLowerCase_hex_encode [simp]: "toLowerCase (hex_encode bs) = hex_encode bs"
proof (induction bs)
  case Nil
  then show ?case by (simp add: toLowerCase_def)
next
  case (Cons b bs)
  have "lower_char (hex_digit d) = hex_digit d" if "d < 16" for d
    using that by (auto simp: lower_char_def hex_digit_def Let_def)
  moreover have "unat b div 16 < 16" using byte_lt_256 [of b] by (simp add: less_mult_imp_div_less)
  ultimately show ?case using Cons by (simp add: toLowerCase_def)
qed

text \<open>\<^verbatim>\<open>asObject\<close>: an object, no key outside the lists, every required key there.\<close>

definition object_keys_ok :: "json \<Rightarrow> string list \<Rightarrow> string list \<Rightarrow> bool" where
  "object_keys_ok v keys optionalKeys =
     (case v of
        JObj ps \<Rightarrow> list_all (\<lambda>(k, _). k \<in> set keys \<or> k \<in> set optionalKeys) ps \<and>
          list_all (\<lambda>k. k \<in> fst ` set ps) keys
      | _ \<Rightarrow> False)"

definition asObject :: "json \<Rightarrow> string list \<Rightarrow> string list \<Rightarrow> discovery_error + json" where
  "asObject v keys optionalKeys = (if object_keys_ok v keys optionalKeys then Inr v else Inl DJson)"

definition of_option :: "'e \<Rightarrow> 'a option \<Rightarrow> 'e + 'a" where
  "of_option e x = (case x of None \<Rightarrow> Inl e | Some y \<Rightarrow> Inr y)"

definition asArray :: "json option \<Rightarrow> discovery_error + json list" where
  "asArray v = of_option DJson (Option.bind v as_array)"

definition asString :: "json option \<Rightarrow> discovery_error + string" where
  "asString v = of_option DJson (Option.bind v as_string)"

definition asU64 :: "json option \<Rightarrow> discovery_error + int" where
  "asU64 v =
     (case Option.bind v as_integer of
        None \<Rightarrow> Inl DJson
      | Some i \<Rightarrow> if \<not> isSafeInteger i \<or> i < 0 then Inl DJson else Inr i)"

definition asBool :: "json option \<Rightarrow> discovery_error + bool" where
  "asBool v = of_option DJson (Option.bind v as_bool)"

definition asObjectAt :: "json option \<Rightarrow> string list \<Rightarrow> string list \<Rightarrow> discovery_error + json" where
  "asObjectAt v keys optionalKeys = (case v of None \<Rightarrow> Inl DJson | Some j \<Rightarrow> asObject j keys optionalKeys)"

definition asOptional :: "(json option \<Rightarrow> 'e + 'a) \<Rightarrow> json option \<Rightarrow> 'e + 'a option" where
  "asOptional f v = (case v of None \<Rightarrow> Inr None | Some j \<Rightarrow> bindR (f (Some j)) (\<lambda>x. Inr (Some x)))"

fun split_on :: "char \<Rightarrow> string \<Rightarrow> string list" where
  "split_on c [] = [[]]"
| "split_on c (d # s) =
     (if d = c then [] # split_on c s
      else case split_on c s of [] \<Rightarrow> [[d]] | p # ps \<Rightarrow> (d # p) # ps)"

definition ipv4_part :: "string \<Rightarrow> bool" where
  "ipv4_part p \<longleftrightarrow>
     (p = ''0'' \<or> (p \<noteq> [] \<and> length p \<le> 3 \<and> list_all is_digit p \<and> hd p \<noteq> CHR ''0'')) \<and> read_nat p \<le> 255"

definition isIpv4 :: "string \<Rightarrow> bool" where
  "isIpv4 s \<longleftrightarrow> (let parts = split_on (CHR ''.'') s in length parts = 4 \<and> list_all ipv4_part parts)"

definition isIpv6 :: "platform \<Rightarrow> string \<Rightarrow> bool" where
  "isIpv6 pf s \<longleftrightarrow> CHR '':'' \<in> set s \<and> pf_urlOk pf (''http://['' @ s @ '']/'')"

record canonical_listener =
  cl_port :: int
  cl_transport :: string
  cl_alpn :: string

record canonical_endpoint =
  ce_addr :: string
  ce_family :: string
  ce_listeners :: "canonical_listener list"

record canonical_node =
  cn_id :: string
  cn_exit_id :: string
  cn_country :: string
  cn_city :: string
  cn_weight :: int
  cn_active :: bool
  cn_egress_ipv4 :: bool
  cn_egress_ipv6 :: bool
  cn_endpoints :: "canonical_endpoint list"
  cn_cover_domain :: "string option"
  cn_port_forward :: "bool option"
  cn_tcp_fallback :: "bool option"

definition validateListener :: "json \<Rightarrow> discovery_error + canonical_listener" where
  "validateListener l =
     bindR (asObject l [''port'', ''transport'', ''alpn''] []) (\<lambda>listener.
     bindR (asU64 (jget listener ''port'')) (\<lambda>port.
     bindR (asString (jget listener ''transport'')) (\<lambda>transport.
     bindR (asString (jget listener ''alpn'')) (\<lambda>alpn.
     Inr \<lparr>cl_port = port, cl_transport = transport, cl_alpn = alpn\<rparr>))))"

definition validateEndpoint :: "json \<Rightarrow> discovery_error + canonical_endpoint" where
  "validateEndpoint ep =
     bindR (asObject ep [''addr'', ''family'', ''listeners''] []) (\<lambda>endpoint.
     bindR (asArray (jget endpoint ''listeners'')) (\<lambda>ls.
     bindR (mapR validateListener ls) (\<lambda>listeners.
     bindR (asString (jget endpoint ''addr'')) (\<lambda>addr.
     bindR (asString (jget endpoint ''family'')) (\<lambda>family.
     Inr \<lparr>ce_addr = addr, ce_family = family, ce_listeners = listeners\<rparr>)))))"

definition validateNode :: "json \<Rightarrow> discovery_error + canonical_node" where
  "validateNode raw =
     bindR (asObject raw [''id'', ''exit_id'', ''location'', ''weight'', ''active'', ''egress'', ''endpoints'']
       [''cover_domain'', ''port_forward'', ''tcp_fallback'']) (\<lambda>node.
     bindR (asObjectAt (jget node ''location'') [''country'', ''city''] []) (\<lambda>location.
     bindR (asObjectAt (jget node ''egress'') [''ipv4'', ''ipv6''] []) (\<lambda>egress.
     bindR (asArray (jget node ''endpoints'')) (\<lambda>eps.
     bindR (mapR validateEndpoint eps) (\<lambda>endpoints.
     bindR (asString (jget node ''id'')) (\<lambda>id.
     bindR (asString (jget node ''exit_id'')) (\<lambda>exit_id.
     bindR (asString (jget location ''country'')) (\<lambda>ctry.
     bindR (asString (jget location ''city'')) (\<lambda>cty.
     bindR (asU64 (jget node ''weight'')) (\<lambda>wgt.
     bindR (asBool (jget node ''active'')) (\<lambda>act.
     bindR (asBool (jget egress ''ipv4'')) (\<lambda>e4.
     bindR (asBool (jget egress ''ipv6'')) (\<lambda>e6.
     bindR (asOptional asString (jget node ''cover_domain'')) (\<lambda>cover.
     bindR (asOptional asBool (jget node ''port_forward'')) (\<lambda>fwd.
     bindR (asOptional asBool (jget node ''tcp_fallback'')) (\<lambda>tcp.
     Inr \<lparr>cn_id = id, cn_exit_id = exit_id, cn_country = ctry, cn_city = cty, cn_weight = wgt, cn_active = act,
          cn_egress_ipv4 = e4, cn_egress_ipv6 = e6, cn_endpoints = endpoints, cn_cover_domain = cover,
          cn_port_forward = fwd, cn_tcp_fallback = tcp\<rparr>))))))))))))))))"

text \<open>The object a validated node is re-serialized as, in the frozen field order.\<close>

definition listener_json :: "canonical_listener \<Rightarrow> json" where
  "listener_json l = JObj [(''port'', JInt (cl_port l)), (''transport'', JStr (cl_transport l)), (''alpn'', JStr (cl_alpn l))]"

definition endpoint_json :: "canonical_endpoint \<Rightarrow> json" where
  "endpoint_json e = JObj [(''addr'', JStr (ce_addr e)), (''family'', JStr (ce_family e)),
     (''listeners'', JArr (map listener_json (ce_listeners e)))]"

definition node_json :: "canonical_node \<Rightarrow> json" where
  "node_json n = JObj
     ([(''id'', JStr (cn_id n)), (''exit_id'', JStr (cn_exit_id n)),
       (''location'', JObj [(''country'', JStr (cn_country n)), (''city'', JStr (cn_city n))]),
       (''weight'', JInt (cn_weight n)), (''active'', JBool (cn_active n)),
       (''egress'', JObj [(''ipv4'', JBool (cn_egress_ipv4 n)), (''ipv6'', JBool (cn_egress_ipv6 n))]),
       (''endpoints'', JArr (map endpoint_json (cn_endpoints n)))]
      @ opt_prop ''cover_domain'' JStr (cn_cover_domain n)
      @ opt_prop ''port_forward'' JBool (cn_port_forward n)
      @ opt_prop ''tcp_fallback'' JBool (cn_tcp_fallback n))"

section \<open>Resolving a node\<close>

record resolve_state =
  rs_hasIpv4 :: bool
  rs_hasIpv6 :: bool
  rs_addrs :: "string list"

definition dial_addr :: "canonical_endpoint \<Rightarrow> canonical_listener \<Rightarrow> string" where
  "dial_addr ep listener =
     (if ce_family ep = ''ipv6'' then ''['' @ ce_addr ep @ '']:'' @ show_int (cl_port listener)
      else ce_addr ep @ '':'' @ show_int (cl_port listener))"

definition resolveEndpoint :: "platform \<Rightarrow> canonical_endpoint \<Rightarrow> resolve_state \<Rightarrow> discovery_error + resolve_state" where
  "resolveEndpoint pf ep st =
     (let v4 = isIpv4 (ce_addr ep); v6 = isIpv6 pf (ce_addr ep);
          quic = map (dial_addr ep) (filter (\<lambda>l. cl_transport l = ''quic'') (ce_listeners ep)) in
      bindR (guardR (v4 \<or> v6) DInvalidEndpointAddress) (\<lambda>_.
      if ce_family ep = ''ipv4'' then
        bindR (guardR v4 DEndpointFamilyMismatch) (\<lambda>_.
          Inr (st\<lparr>rs_hasIpv4 := True, rs_addrs := rs_addrs st @ quic\<rparr>))
      else if ce_family ep = ''ipv6'' then
        bindR (guardR v6 DEndpointFamilyMismatch) (\<lambda>_.
          Inr (st\<lparr>rs_hasIpv6 := True, rs_addrs := rs_addrs st @ quic\<rparr>))
      else Inl DEndpointFamilyMismatch))"

fun resolveEndpoints :: "platform \<Rightarrow> canonical_endpoint list \<Rightarrow> resolve_state \<Rightarrow> discovery_error + resolve_state" where
  "resolveEndpoints pf [] st = Inr st"
| "resolveEndpoints pf (ep # eps) st = bindR (resolveEndpoint pf ep st) (resolveEndpoints pf eps)"

definition resolveRelay :: "platform \<Rightarrow> canonical_node \<Rightarrow> discovery_error + Relay" where
  "resolveRelay pf node =
     bindR (if hex_of_length 64 (cn_id node) then Inr (toLowerCase (cn_id node))
            else (case decodeAddress pf (cn_id node) WARREN_SS58_PREFIX of
                Inl _ \<Rightarrow> Inl DInvalidNodeId
              | Inr key \<Rightarrow> Inr (pf_bytesToHex pf key))) (\<lambda>idHex.
     bindR (guardR (hex_of_length 32 (cn_exit_id node)) DInvalidNodeId) (\<lambda>_.
     bindR (resolveEndpoints pf (cn_endpoints node) \<lparr>rs_hasIpv4 = False, rs_hasIpv6 = False, rs_addrs = []\<rparr>) (\<lambda>st.
     Inr \<lparr>endpointIdHex = idHex, exitIdHex = toLowerCase (cn_exit_id node), country = cn_country node,
          city = cn_city node, weight = cn_weight node, active = cn_active node,
          ipv6Egress = cn_egress_ipv6 node, hasIpv4 = rs_hasIpv4 st, hasIpv6 = rs_hasIpv6 st,
          addrs = rs_addrs st, coverDomain = cn_cover_domain node\<rparr>)))"

section \<open>Verifying the signed list\<close>

record signed_relay_list =
  sl_version :: int
  sl_nodes :: "canonical_node list"
  sl_generation :: int
  sl_signed_at :: int
  sl_expires_at :: int
  sl_server_pubkey_hex :: string
  sl_signature_hex :: string

definition parseSignedRelayList :: "platform \<Rightarrow> string \<Rightarrow> discovery_error + signed_relay_list" where
  "parseSignedRelayList pf signedJson =
     bindR (of_option DJson (pf_parse pf signedJson)) (\<lambda>parsed.
     bindR (asObject parsed [''version'', ''nodes'', ''generation'', ''signed_at'', ''expires_at'',
       ''server_pubkey_hex'', ''signature_hex''] []) (\<lambda>top.
     bindR (asU64 (jget top ''version'')) (\<lambda>version.
     bindR (guardR (version = SIGNED_VERSION) (DUnsupportedVersion version)) (\<lambda>_.
     bindR (asString (jget top ''server_pubkey_hex'')) (\<lambda>pubkeyHex.
     bindR (asString (jget top ''signature_hex'')) (\<lambda>sigHex.
     bindR (asU64 (jget top ''generation'')) (\<lambda>gen.
     bindR (asU64 (jget top ''signed_at'')) (\<lambda>signed_at.
     bindR (asU64 (jget top ''expires_at'')) (\<lambda>expires_at.
     bindR (asArray (jget top ''nodes'')) (\<lambda>raw.
     bindR (mapR validateNode raw) (\<lambda>nodes.
     Inr \<lparr>sl_version = version, sl_nodes = nodes, sl_generation = gen, sl_signed_at = signed_at,
          sl_expires_at = expires_at, sl_server_pubkey_hex = pubkeyHex, sl_signature_hex = sigHex\<rparr>)))))))))))"

definition canonical_list_json :: "signed_relay_list \<Rightarrow> json" where
  "canonical_list_json l = JObj
     [(''version'', JInt (sl_version l)), (''nodes'', JArr (map node_json (sl_nodes l))),
      (''generation'', JInt (sl_generation l)), (''signed_at'', JInt (sl_signed_at l)),
      (''expires_at'', JInt (sl_expires_at l)), (''server_pubkey_hex'', JStr (sl_server_pubkey_hex l))]"

definition pinned :: "string list \<Rightarrow> string \<Rightarrow> bool" where
  "pinned pins keyHex \<longleftrightarrow> pins = [] \<or> (\<exists>p \<in> set pins. toLowerCase p = toLowerCase keyHex)"

definition checkListSignature :: "platform \<Rightarrow> signed_relay_list \<Rightarrow> discovery_error + unit" where
  "checkListSignature pf l =
     (case (pf_hexToBytes pf (sl_server_pubkey_hex l), pf_hexToBytes pf (sl_signature_hex l)) of
        (Some pubkeyBytes, Some signatureBytes) \<Rightarrow>
          bindR (guardR (length pubkeyBytes = 32 \<and> length signatureBytes = 64) DInvalidHex) (\<lambda>_.
          case pf_edVerify pf signatureBytes (utf8ToBytes (stringify (canonical_list_json l))) pubkeyBytes of
            None \<Rightarrow> Inl DPubkeyNotOnCurve
          | Some valid \<Rightarrow> guardR valid DBadSignature)
      | _ \<Rightarrow> Inl DInvalidHex)"

definition verifySignedRelayList :: "platform \<Rightarrow> string \<Rightarrow> string list \<Rightarrow> discovery_error + VerifiedRelayList" where
  "verifySignedRelayList pf signedJson expectedServerPubkeys =
     bindR (parseSignedRelayList pf signedJson) (\<lambda>l.
     bindR (guardR (pinned expectedServerPubkeys (sl_server_pubkey_hex l)) DServerPubkeyMismatch) (\<lambda>_.
     bindR (checkListSignature pf l) (\<lambda>_.
     bindR (guardR (\<not> sl_expires_at l - sl_signed_at l > MAX_VALIDITY_SECS) DValidityTooLong) (\<lambda>_.
     bindR (mapR (resolveRelay pf) (sl_nodes l)) (\<lambda>rs.
     Inr \<lparr>generation = sl_generation l, signedAt = sl_signed_at l, expiresAt = sl_expires_at l, relays = rs,
          serverPubkeyHex = toLowerCase (sl_server_pubkey_hex l)\<rparr>)))))"

section \<open>The signed text determines the list\<close>

lemma listener_json_inj: "listener_json a = listener_json b \<longleftrightarrow> a = b"
  by (auto simp: listener_json_def)

lemma endpoint_json_inj: "endpoint_json a = endpoint_json b \<longleftrightarrow> a = b"
proof -
  have "map listener_json xs = map listener_json ys \<longleftrightarrow> xs = ys" for xs ys
    by (rule inj_map_eq_map) (simp add: inj_def listener_json_inj)
  then show ?thesis by (auto simp: endpoint_json_def)
qed

lemma node_json_inj: "node_json a = node_json b \<longleftrightarrow> a = b"
proof -
  have "map endpoint_json xs = map endpoint_json ys \<longleftrightarrow> xs = ys" for xs ys
    by (rule inj_map_eq_map) (simp add: inj_def endpoint_json_inj)
  then show ?thesis
    by (cases "cn_cover_domain a"; cases "cn_cover_domain b"; cases "cn_port_forward a"; cases "cn_port_forward b";
        cases "cn_tcp_fallback a"; cases "cn_tcp_fallback b") (auto simp: node_json_def)
qed

lemma canonical_list_no_frac: "no_frac (canonical_list_json l)"
proof -
  have "no_frac (node_json n)" for n
    by (cases "cn_cover_domain n"; cases "cn_port_forward n"; cases "cn_tcp_fallback n")
      (auto simp: node_json_def endpoint_json_def listener_json_def list_all_iff)
  then show ?thesis by (auto simp: canonical_list_json_def list_all_iff)
qed

lemma canonical_text_inj:
  assumes "stringify (canonical_list_json l) = stringify (canonical_list_json l')"
  shows "sl_nodes l = sl_nodes l'" "sl_generation l = sl_generation l'" "sl_signed_at l = sl_signed_at l'"
    "sl_expires_at l = sl_expires_at l'" "sl_server_pubkey_hex l = sl_server_pubkey_hex l'"
proof -
  have "canonical_list_json l = canonical_list_json l'"
    using assms by (intro stringify_inj canonical_list_no_frac)
  moreover have "map node_json xs = map node_json ys \<longleftrightarrow> xs = ys" for xs ys
    by (rule inj_map_eq_map) (simp add: inj_def node_json_inj)
  ultimately show "sl_nodes l = sl_nodes l'" "sl_generation l = sl_generation l'" "sl_signed_at l = sl_signed_at l'"
    "sl_expires_at l = sl_expires_at l'" "sl_server_pubkey_hex l = sl_server_pubkey_hex l'"
    by (auto simp: canonical_list_json_def)
qed

lemma verifySignedRelayList_Inr_conv:
  "verifySignedRelayList pf doc pins = Inr v \<longleftrightarrow>
     (\<exists>l rs. parseSignedRelayList pf doc = Inr l \<and> pinned pins (sl_server_pubkey_hex l) \<and>
       checkListSignature pf l = Inr () \<and> sl_expires_at l - sl_signed_at l \<le> 604800 \<and>
       mapR (resolveRelay pf) (sl_nodes l) = Inr rs \<and>
       v = \<lparr>generation = sl_generation l, signedAt = sl_signed_at l, expiresAt = sl_expires_at l, relays = rs,
            serverPubkeyHex = toLowerCase (sl_server_pubkey_hex l)\<rparr>)"
  by (auto simp: verifySignedRelayList_def bindR_eq_Inr_conv MAX_VALIDITY_SECS_def not_less split: if_splits)

lemma checkListSignature_Inr:
  assumes "checkListSignature pf l = Inr ()"
  shows "\<exists>pub sig. pf_hexToBytes pf (sl_server_pubkey_hex l) = Some pub \<and> length pub = 32 \<and>
    pf_hexToBytes pf (sl_signature_hex l) = Some sig \<and> length sig = 64 \<and>
    pf_edVerify pf sig (utf8ToBytes (stringify (canonical_list_json l))) pub = Some True"
  using assms by (auto simp: checkListSignature_def split: option.splits if_splits)

section \<open>What a resolved relay is\<close>

definition endpoint_ok :: "platform \<Rightarrow> canonical_endpoint \<Rightarrow> bool" where
  "endpoint_ok pf ep \<longleftrightarrow> (ce_family ep = ''ipv4'' \<and> isIpv4 (ce_addr ep)) \<or> (ce_family ep = ''ipv6'' \<and> isIpv6 pf (ce_addr ep))"

definition quic_addrs :: "canonical_endpoint \<Rightarrow> string list" where
  "quic_addrs ep = map (dial_addr ep) (filter (\<lambda>l. cl_transport l = ''quic'') (ce_listeners ep))"

lemma resolveEndpoint_Inr_conv:
  "resolveEndpoint pf ep st = Inr st' \<longleftrightarrow> endpoint_ok pf ep \<and>
     st' = \<lparr>rs_hasIpv4 = rs_hasIpv4 st \<or> ce_family ep = ''ipv4'', rs_hasIpv6 = rs_hasIpv6 st \<or> ce_family ep = ''ipv6'',
            rs_addrs = rs_addrs st @ quic_addrs ep\<rparr>"
  by (cases st) (auto simp: resolveEndpoint_def endpoint_ok_def quic_addrs_def Let_def split: if_splits)

lemma resolveEndpoints_Inr_conv:
  "resolveEndpoints pf eps st = Inr st' \<longleftrightarrow> list_all (endpoint_ok pf) eps \<and>
     st' = \<lparr>rs_hasIpv4 = rs_hasIpv4 st \<or> (\<exists>ep \<in> set eps. ce_family ep = ''ipv4''),
            rs_hasIpv6 = rs_hasIpv6 st \<or> (\<exists>ep \<in> set eps. ce_family ep = ''ipv6''),
            rs_addrs = rs_addrs st @ concat (map quic_addrs eps)\<rparr>"
  by (induction eps arbitrary: st) (auto simp: bindR_eq_Inr_conv resolveEndpoint_Inr_conv)

section \<open>Properties\<close>

definition signed_text :: "platform \<Rightarrow> string \<Rightarrow> string option" where
  "signed_text pf doc = (case parseSignedRelayList pf doc of Inl _ \<Rightarrow> None | Inr l \<Rightarrow> Some (stringify (canonical_list_json l)))"

text \<open>
  \<open>signedUnder pf key sigHex msg\<close>: the text \<open>sigHex\<close> is the hex of a 64-byte Ed25519 signature of the literal message
  \<open>msg\<close> under \<open>key\<close>. It is stated on the platform's verifier alone, none of the code's own checks.
\<close>

definition signedUnder :: "platform \<Rightarrow> bytes \<Rightarrow> string \<Rightarrow> bytes \<Rightarrow> bool" where
  "signedUnder pf key sigHex msg \<longleftrightarrow>
     (case pf_hexToBytes pf sigHex of
        None \<Rightarrow> False
      | Some sig \<Rightarrow> length sig = 64 \<and> pf_edVerify pf sig msg key = Some True)"

lemma checkListSignature_signed:
  assumes "checkListSignature pf l = Inr ()"
  shows "\<exists>pub. pf_hexToBytes pf (sl_server_pubkey_hex l) = Some pub \<and> length pub = 32 \<and>
    signedUnder pf pub (sl_signature_hex l) (utf8ToBytes (stringify (canonical_list_json l)))"
  using checkListSignature_Inr [OF assms] by (auto simp: signedUnder_def)

lemma asString_Inr [simp]: "asString v = Inr s \<longleftrightarrow> v = Some (JStr s)"
  by (cases v; cases "the v") (auto simp: asString_def of_option_def)

lemma parseSignedRelayList_document:
  assumes "parseSignedRelayList pf doc = Inr l"
  shows "\<exists>top. pf_parse pf doc = Some top \<and> jget top ''server_pubkey_hex'' = Some (JStr (sl_server_pubkey_hex l)) \<and>
    jget top ''signature_hex'' = Some (JStr (sl_signature_hex l))"
  using assms
  by (auto simp: parseSignedRelayList_def bindR_eq_Inr_conv asObject_def of_option_def split: option.splits if_splits)

lemma signed_text_Some:
  "signed_text pf doc = Some t \<longleftrightarrow> (\<exists>l. parseSignedRelayList pf doc = Inr l \<and> t = stringify (canonical_list_json l))"
  by (auto simp: signed_text_def split: sum.splits)

text \<open>
  The canonical text decides the result: two documents accepted with the same signed text, whatever their
  layout, key order or pins, give the same relays, generation, times and signer.
\<close>

lemma verifySignedRelayList_determined:
  assumes "verifySignedRelayList pf doc pins = Inr v" and "verifySignedRelayList pf doc' pins' = Inr v'"
    and "signed_text pf doc = Some t" and "signed_text pf doc' = Some t"
  shows "v' = v"
proof -
  from assms(1) obtain l rs where l: "parseSignedRelayList pf doc = Inr l" "mapR (resolveRelay pf) (sl_nodes l) = Inr rs"
    and v: "v = \<lparr>generation = sl_generation l, signedAt = sl_signed_at l, expiresAt = sl_expires_at l, relays = rs,
            serverPubkeyHex = toLowerCase (sl_server_pubkey_hex l)\<rparr>"
    by (auto simp: verifySignedRelayList_Inr_conv)
  from assms(2) obtain l' rs' where l': "parseSignedRelayList pf doc' = Inr l'" "mapR (resolveRelay pf) (sl_nodes l') = Inr rs'"
    and v': "v' = \<lparr>generation = sl_generation l', signedAt = sl_signed_at l', expiresAt = sl_expires_at l', relays = rs',
            serverPubkeyHex = toLowerCase (sl_server_pubkey_hex l')\<rparr>"
    by (auto simp: verifySignedRelayList_Inr_conv)
  from assms(3,4) l(1) l'(1) have "stringify (canonical_list_json l') = stringify (canonical_list_json l)"
    by (auto simp: signed_text_Some)
  from canonical_text_inj [OF this] l(2) l'(2) show "v' = v" by (simp add: v v')
qed

text \<open>
  C17. A relay list \<^verbatim>\<open>verifySignedRelayList\<close> accepts is authentic: the signature the document carries verifies, on
  the canonical text of what was parsed, under the 32-byte key the document names; that key is the one the
  result reports as signer, and one of the pins when there are pins; the result's generation, times and relays are
  those of the signed content, with a validity window of at most seven days; and every document accepted with
  the same signed text, whatever its layout, key order or pins, gives the same result.
\<close>

theorem verifySignedRelayList_authentic:
  assumes "verifySignedRelayList pf doc pins = Inr v"
  shows "\<exists>top keyHex sigHex l pub. pf_parse pf doc = Some top \<and>
    jget top ''server_pubkey_hex'' = Some (JStr keyHex) \<and> jget top ''signature_hex'' = Some (JStr sigHex) \<and>
    parseSignedRelayList pf doc = Inr l \<and> sl_server_pubkey_hex l = keyHex \<and>
    pf_hexToBytes pf keyHex = Some pub \<and> length pub = 32 \<and>
    signedUnder pf pub sigHex (utf8ToBytes (stringify (canonical_list_json l))) \<and>
    serverPubkeyHex v = toLowerCase keyHex \<and> (pins \<noteq> [] \<longrightarrow> (\<exists>p \<in> set pins. toLowerCase p = serverPubkeyHex v)) \<and>
    generation v = sl_generation l \<and> signedAt v = sl_signed_at l \<and> expiresAt v = sl_expires_at l \<and>
    mapR (resolveRelay pf) (sl_nodes l) = Inr (relays v) \<and> expiresAt v - signedAt v \<le> 604800 \<and>
    (\<forall>doc' pins' v'. verifySignedRelayList pf doc' pins' = Inr v' \<and> signed_text pf doc' = signed_text pf doc \<longrightarrow> v' = v)"
proof -
  from assms obtain l rs where l: "parseSignedRelayList pf doc = Inr l" "pinned pins (sl_server_pubkey_hex l)"
      "checkListSignature pf l = Inr ()" "sl_expires_at l - sl_signed_at l \<le> 604800"
      "mapR (resolveRelay pf) (sl_nodes l) = Inr rs"
    and v: "v = \<lparr>generation = sl_generation l, signedAt = sl_signed_at l, expiresAt = sl_expires_at l, relays = rs,
            serverPubkeyHex = toLowerCase (sl_server_pubkey_hex l)\<rparr>"
    by (auto simp: verifySignedRelayList_Inr_conv)
  have st: "signed_text pf doc = Some (stringify (canonical_list_json l))" using l(1) by (simp add: signed_text_def)
  have uniq: "\<forall>doc' pins' v'. verifySignedRelayList pf doc' pins' = Inr v' \<and> signed_text pf doc' = signed_text pf doc \<longrightarrow> v' = v"
    using verifySignedRelayList_determined [OF assms _ st] st by auto
  have pins: "pins \<noteq> [] \<longrightarrow> (\<exists>p \<in> set pins. toLowerCase p = serverPubkeyHex v)" using l(2) by (auto simp: v pinned_def)
  from parseSignedRelayList_document [OF l(1)] checkListSignature_signed [OF l(3)] l(1,4,5) pins uniq
  show ?thesis by (auto simp: v)
qed

definition sample_node :: canonical_node where
  "sample_node = \<lparr>cn_id = hex_encode (replicate 32 5), cn_exit_id = hex_encode (replicate 16 6), cn_country = ''CH'',
     cn_city = ''Zurich'', cn_weight = 10, cn_active = True, cn_egress_ipv4 = True, cn_egress_ipv6 = False,
     cn_endpoints = [\<lparr>ce_addr = ''10.0.0.1'', ce_family = ''ipv4'',
       ce_listeners = [\<lparr>cl_port = 443, cl_transport = ''quic'', cl_alpn = ''h3''\<rparr>]\<rparr>],
     cn_cover_domain = None, cn_port_forward = None, cn_tcp_fallback = None\<rparr>"

definition sample_document :: string where
  "sample_document = stringify (JObj [(''version'', JInt 10), (''nodes'', JArr []), (''generation'', JInt 4),
     (''signed_at'', JInt 100), (''expires_at'', JInt 200), (''server_pubkey_hex'', JStr (hex_encode (replicate 32 0))),
     (''signature_hex'', JStr (hex_encode (replicate 64 0)))])"

lemma sample_document_read:
  "json_read sample_document = Some (JObj [(''version'', JInt 10), (''nodes'', JArr []), (''generation'', JInt 4),
     (''signed_at'', JInt 100), (''expires_at'', JInt 200), (''server_pubkey_hex'', JStr (hex_encode (replicate 32 0))),
     (''signature_hex'', JStr (hex_encode (replicate 64 0)))])"
  unfolding sample_document_def by (rule json_read_stringify) simp

lemma sample_document_verified:
  "verifySignedRelayList reference_platform sample_document [hex_encode (replicate 32 0)] =
     Inr \<lparr>generation = 4, signedAt = 100, expiresAt = 200, relays = [],
          serverPubkeyHex = toLowerCase (hex_encode (replicate 32 0))\<rparr>"
proof -
  note sample_document_read
  then have "parseSignedRelayList reference_platform sample_document =
      Inr \<lparr>sl_version = 10, sl_nodes = [], sl_generation = 4, sl_signed_at = 100, sl_expires_at = 200,
        sl_server_pubkey_hex = hex_encode (replicate 32 0), sl_signature_hex = hex_encode (replicate 64 0)\<rparr>"
    by (simp add: parseSignedRelayList_def of_option_def asObject_def object_keys_ok_def asU64_def asString_def
        asArray_def isSafeInteger_def SIGNED_VERSION_def)
  then show ?thesis
    by (simp add: verifySignedRelayList_def pinned_def checkListSignature_def MAX_VALIDITY_SECS_def)
qed

theorem verifySignedRelayList_authentic_witness:
  "\<exists>top pub text. pf_parse reference_platform sample_document = Some top \<and>
    jget top ''server_pubkey_hex'' = Some (JStr (hex_encode (replicate 32 0))) \<and>
    hex_decode (hex_encode (replicate 32 0)) = Some pub \<and>
    signedUnder reference_platform pub (hex_encode (replicate 64 0)) (utf8ToBytes text)"
proof -
  from verifySignedRelayList_authentic [OF sample_document_verified] obtain top keyHex sigHex pub l where
    "pf_parse reference_platform sample_document = Some top" "jget top ''server_pubkey_hex'' = Some (JStr keyHex)"
    "jget top ''signature_hex'' = Some (JStr sigHex)" "pf_hexToBytes reference_platform keyHex = Some pub"
    "signedUnder reference_platform pub sigHex (utf8ToBytes (stringify (canonical_list_json l)))" by blast
  moreover from this sample_document_read have "keyHex = hex_encode (replicate 32 0)" "sigHex = hex_encode (replicate 64 0)"
    by auto
  ultimately show ?thesis by auto
qed

text \<open>
  A node \<^verbatim>\<open>resolveRelay\<close> accepts has only endpoints whose address is a literal of the declared family; the relay
  is marked reachable over a family exactly when an endpoint declares it; and its dialable addresses are
  those of the QUIC listeners, in order, IPv6 ones bracketed.
\<close>

theorem resolveRelay_endpoints:
  assumes "resolveRelay pf node = Inr r"
  shows "list_all (endpoint_ok pf) (cn_endpoints node) \<and>
    (hasIpv4 r \<longleftrightarrow> (\<exists>ep \<in> set (cn_endpoints node). ce_family ep = ''ipv4'')) \<and>
    (hasIpv6 r \<longleftrightarrow> (\<exists>ep \<in> set (cn_endpoints node). ce_family ep = ''ipv6'')) \<and>
    addrs r = concat (map quic_addrs (cn_endpoints node)) \<and> hex_of_length 32 (cn_exit_id node)"
  using assms
  by (auto simp: resolveRelay_def bindR_eq_Inr_conv resolveEndpoints_Inr_conv split: if_splits sum.splits)

lemma sample_node_resolved:
  "resolveRelay reference_platform sample_node = Inr
     \<lparr>endpointIdHex = toLowerCase (hex_encode (replicate 32 5)), exitIdHex = toLowerCase (hex_encode (replicate 16 6)),
      country = ''CH'', city = ''Zurich'', weight = 10, active = True, ipv6Egress = False, hasIpv4 = True,
      hasIpv6 = False, addrs = [''10.0.0.1:443''], coverDomain = None\<rparr>"
proof -
  have ids: "hex_of_length 64 (hex_encode (replicate 32 5))" "hex_of_length 32 (hex_encode (replicate 16 6))"
    using hex_encode_ok [of "replicate 32 5"] hex_encode_ok [of "replicate 16 6"] by simp_all
  have ip: "isIpv4 ''10.0.0.1''"
    by (simp add: isIpv4_def Let_def ipv4_part_def is_digit_def read_nat_def char_digit_def)
  have port: "show_int 443 = ''443''" by (simp add: show_int_def) code_simp
  show ?thesis
    by (simp add: resolveRelay_def sample_node_def ids resolveEndpoint_def ip port dial_addr_def)
qed

theorem resolveRelay_endpoints_witness:
  "addrs \<lparr>endpointIdHex = toLowerCase (hex_encode (replicate 32 5)), exitIdHex = toLowerCase (hex_encode (replicate 16 6)),
      country = ''CH'', city = ''Zurich'', weight = 10, active = True, ipv6Egress = False, hasIpv4 = True,
      hasIpv6 = False, addrs = [''10.0.0.1:443''], coverDomain = None\<rparr> =
     concat (map quic_addrs (cn_endpoints sample_node)) \<and> list_all (endpoint_ok reference_platform) (cn_endpoints sample_node)"
  using resolveRelay_endpoints [OF sample_node_resolved] by simp

end
