(* ===== verification/Selector.thy ===== *)
theory Selector
  imports Relay_List
begin

text \<open>
  \<^verbatim>\<open>packages/core/src/discovery/selector.ts\<close>: which relays a query admits, and the first-match, weighted and
  per-attempt selections. A random float is the fraction \<open>k / m\<close> it stands for (\<open>m\<close> is \<open>2 ^ 32\<close> for
  \<^verbatim>\<open>mulberry32\<close>, \<open>2 ^ 53\<close> for \<^verbatim>\<open>Math.random\<close>), and \<^verbatim>\<open>Math.floor(rng() * total)\<close> is the exact quotient; the
  product is exact in doubles while the total weight is below \<open>2 ^ 21\<close>.
\<close>

section \<open>Queries\<close>

datatype LocationConstraint = AnyLocation | InCountry string | InCity string string

datatype IpAvailability = BothFamilies | Ipv4Only | Ipv6Only

record ExitQuery =
  q_location :: "LocationConstraint option"
  q_ipAvailability :: "IpAvailability option"
  q_requireIpv6Egress :: bool

fun locationMatches :: "LocationConstraint option \<Rightarrow> Relay \<Rightarrow> bool" where
  "locationMatches None relay = True"
| "locationMatches (Some AnyLocation) relay = True"
| "locationMatches (Some (InCountry c)) relay = (toLowerCase (country relay) = toLowerCase c)"
| "locationMatches (Some (InCity c t)) relay =
     (toLowerCase (country relay) = toLowerCase c \<and> toLowerCase (city relay) = toLowerCase t)"

fun ipMatches :: "IpAvailability option \<Rightarrow> Relay \<Rightarrow> bool" where
  "ipMatches (Some Ipv4Only) relay = hasIpv4 relay"
| "ipMatches (Some Ipv6Only) relay = hasIpv6 relay"
| "ipMatches _ relay = (hasIpv4 relay \<or> hasIpv6 relay)"

definition relayMatches :: "Relay \<Rightarrow> ExitQuery \<Rightarrow> bool" where
  "relayMatches relay query \<longleftrightarrow>
     (if \<not> active relay then False
      else if \<not> locationMatches (q_location query) relay then False
      else if \<not> ipMatches (q_ipAvailability query) relay then False
      else if q_requireIpv6Egress query \<and> \<not> ipv6Egress relay then False
      else True)"

definition exit_candidates :: "Relay list \<Rightarrow> ExitQuery \<Rightarrow> Relay list" where
  "exit_candidates rs query = filter (\<lambda>r. relayMatches r query) rs"

section \<open>Selection\<close>

datatype selection_error = NoRelayMatch

definition selectExit :: "Relay list \<Rightarrow> ExitQuery \<Rightarrow> selection_error + Relay" where
  "selectExit rs query =
     (case exit_candidates rs query of [] \<Rightarrow> Inl NoRelayMatch | match # _ \<Rightarrow> Inr match)"

text \<open>The \<^verbatim>\<open>for\<close> loop over the pool; \<open>None\<close> is falling through it.\<close>

fun rollLoop :: "Relay list \<Rightarrow> int \<Rightarrow> Relay option" where
  "rollLoop [] roll = None"
| "rollLoop (relay # pool) roll = (if roll < weight relay then Some relay else rollLoop pool (roll - weight relay))"

definition totalWeight :: "Relay list \<Rightarrow> int" where
  "totalWeight pool = foldl (\<lambda>acc r. acc + weight r) 0 pool"

definition weightedPick :: "Relay list \<Rightarrow> int \<times> int \<Rightarrow> Relay" where
  "weightedPick pool u =
     (let total = totalWeight pool in
      if total = 0 then hd pool
      else (case rollLoop pool (fst u * total div snd u) of Some relay \<Rightarrow> relay | None \<Rightarrow> last pool))"

definition selectExitWeighted :: "Relay list \<Rightarrow> ExitQuery \<Rightarrow> int \<times> int \<Rightarrow> selection_error + Relay" where
  "selectExitWeighted rs query u =
     (let pool = filter (\<lambda>r. weight r > 0) (exit_candidates rs query)
      in if length pool = 0 then Inl NoRelayMatch else Inr (weightedPick pool u))"

definition mulberry32 :: "32 word \<Rightarrow> int \<times> int" where
  "mulberry32 seed =
     (let a = seed + 0x6d2b79f5;
          t0 = (a XOR drop_bit 15 a) * (1 OR a);
          t = (t0 + (t0 XOR drop_bit 7 t0) * (61 OR t0)) XOR t0
      in (uint (t XOR drop_bit 14 t), 4294967296))"

definition selectExitForAttempt :: "Relay list \<Rightarrow> ExitQuery \<Rightarrow> int \<Rightarrow> selection_error + Relay" where
  "selectExitForAttempt rs query retryAttempt = selectExitWeighted rs query (mulberry32 (word_of_int retryAttempt))"

section \<open>The weighted loop\<close>

lemma foldl_weights: "foldl (\<lambda>acc r. acc + weight r) a pool = a + sum_list (map weight pool)"
  by (induction pool arbitrary: a) simp_all

lemma totalWeight_sum: "totalWeight pool = sum_list (map weight pool)"
  by (simp add: totalWeight_def foldl_weights)

lemma totalWeight_nonneg: "\<forall>r \<in> set pool. 0 < weight r \<Longrightarrow> 0 \<le> totalWeight pool"
  by (induction pool) (auto simp: totalWeight_sum)

lemma totalWeight_pos: "pool \<noteq> [] \<Longrightarrow> \<forall>r \<in> set pool. 0 < weight r \<Longrightarrow> 0 < totalWeight pool"
  using totalWeight_nonneg [of "tl pool"] by (cases pool) (simp_all add: totalWeight_sum)

lemma div_below: "0 < m \<Longrightarrow> a < b * m \<Longrightarrow> a div m < b" for a b m :: int
proof (rule ccontr)
  assume m: "0 < m" and lt: "a < b * m" and "\<not> a div m < b"
  then have "b * m \<le> a div m * m" by (intro mult_right_mono) simp_all
  moreover have "a div m * m \<le> a" using div_mult_mod_eq [of a m] pos_mod_sign [OF m, of a] by linarith
  ultimately show False using lt by linarith
qed

lemma rollLoop_in_pool: "rollLoop pool roll = Some r \<Longrightarrow> r \<in> set pool"
  by (induction pool arbitrary: roll) (auto split: if_splits)

lemma rollLoop_hits:
  assumes "0 \<le> roll" and "roll < totalWeight pool" and "\<forall>r \<in> set pool. 0 < weight r"
  shows "\<exists>r. rollLoop pool roll = Some r"
  using assms
proof (induction pool arbitrary: roll)
  case Nil
  then show ?case by (simp add: totalWeight_sum)
next
  case (Cons x pool)
  show ?case
  proof (cases "roll < weight x")
    case False
    then have "0 \<le> roll - weight x" "roll - weight x < totalWeight pool"
      using Cons.prems by (simp_all add: totalWeight_sum)
    with Cons False show ?thesis by simp
  qed simp
qed

text \<open>Of the rolls below the total, exactly \<open>weight r\<close> choose \<open>r\<close>.\<close>

lemma rollLoop_share:
  assumes "distinct pool" and "x \<in> set pool" and "\<forall>r \<in> set pool. 0 < weight r"
  shows "card {roll. 0 \<le> roll \<and> roll < totalWeight pool \<and> rollLoop pool roll = Some x} = nat (weight x)"
  using assms
proof (induction pool)
  case Nil
  then show ?case by simp
next
  case (Cons y pool)
  have y: "0 < weight y" and total: "totalWeight (y # pool) = weight y + totalWeight pool"
    using Cons.prems(3) by (simp_all add: totalWeight_sum)
  have nonneg: "0 \<le> totalWeight pool"
    using Cons.prems(3) by (intro totalWeight_nonneg) simp
  show ?case
  proof (cases "x = y")
    case True
    have "{roll. 0 \<le> roll \<and> roll < totalWeight (y # pool) \<and> rollLoop (y # pool) roll = Some x} = {0..<weight y}"
      using True Cons.prems(1) y total nonneg by (auto dest: rollLoop_in_pool split: if_splits)
    then show ?thesis using True by simp
  next
    case False
    let ?S = "{roll. 0 \<le> roll \<and> roll < totalWeight pool \<and> rollLoop pool roll = Some x}"
    have "{roll. 0 \<le> roll \<and> roll < totalWeight (y # pool) \<and> rollLoop (y # pool) roll = Some x} = (\<lambda>r. r + weight y) ` ?S"
    proof (rule set_eqI)
      fix roll
      show "roll \<in> {roll. 0 \<le> roll \<and> roll < totalWeight (y # pool) \<and> rollLoop (y # pool) roll = Some x} \<longleftrightarrow>
          roll \<in> (\<lambda>r. r + weight y) ` ?S"
        using False y total by (auto simp: image_iff intro: exI [of _ "roll - weight y"] split: if_splits)
    qed
    then have "card {roll. 0 \<le> roll \<and> roll < totalWeight (y # pool) \<and> rollLoop (y # pool) roll = Some x} = card ?S"
      by (simp add: card_image inj_on_def)
    with Cons False show ?thesis by simp
  qed
qed

lemma mulberry32_fraction: "0 \<le> fst (mulberry32 s)" "fst (mulberry32 s) < snd (mulberry32 s)"
proof -
  have "uint (w :: 32 word) < 2 ^ LENGTH(32)" for w by (rule unsigned_less)
  then have lt: "uint (w :: 32 word) < 4294967296" for w by simp
  show "0 \<le> fst (mulberry32 s)" "fst (mulberry32 s) < snd (mulberry32 s)"
    unfolding mulberry32_def Let_def fst_conv snd_conv by (rule unsigned_greater_eq, rule lt)
qed

section \<open>Properties\<close>

text \<open>
  The first-match selection returns the first relay that satisfies every constraint of the query, and throws
  \<^verbatim>\<open>NoRelayMatchError\<close> exactly when none does.
\<close>

theorem selectExit_first_match:
  "(selectExit rs query = Inl NoRelayMatch \<longleftrightarrow> (\<forall>r \<in> set rs. \<not> relayMatches r query)) \<and>
   (selectExit rs query = Inr r \<longleftrightarrow>
      (\<exists>before after. rs = before @ r # after \<and> relayMatches r query \<and> (\<forall>b \<in> set before. \<not> relayMatches b query)))"
proof (rule conjI)
  show "selectExit rs query = Inl NoRelayMatch \<longleftrightarrow> (\<forall>r \<in> set rs. \<not> relayMatches r query)"
    by (cases "filter (\<lambda>r. relayMatches r query) rs")
      (auto simp: selectExit_def exit_candidates_def filter_empty_conv dest: filter_eq_ConsD)
  show "selectExit rs query = Inr r \<longleftrightarrow>
      (\<exists>before after. rs = before @ r # after \<and> relayMatches r query \<and> (\<forall>b \<in> set before. \<not> relayMatches b query))"
    unfolding selectExit_def exit_candidates_def
  proof -
    have "(\<exists>before after. rs = before @ r # after \<and> relayMatches r query \<and> (\<forall>b \<in> set before. \<not> relayMatches b query)) \<longleftrightarrow>
        (\<exists>ys. filter (\<lambda>r. relayMatches r query) rs = r # ys)"
      by (auto simp: filter_eq_Cons_iff)
    then show "(case filter (\<lambda>r. relayMatches r query) rs of [] \<Rightarrow> Inl NoRelayMatch | match # _ \<Rightarrow> Inr match) = Inr r \<longleftrightarrow>
        (\<exists>before after. rs = before @ r # after \<and> relayMatches r query \<and> (\<forall>b \<in> set before. \<not> relayMatches b query))"
      by (auto split: list.splits)
  qed
qed

text \<open>
  The weighted selection is total on a non-empty pool: for every random fraction in \<open>[0, 1)\<close> it returns a relay
  of the list that matches the query and has a positive weight, when one exists, and throws otherwise; in
  particular every retry attempt gets such a relay.
\<close>

theorem selectExitWeighted_sound:
  assumes "0 \<le> k" and "k < m"
  shows "(case selectExitWeighted rs query (k, m) of
      Inl e \<Rightarrow> (\<forall>r \<in> set rs. \<not> (relayMatches r query \<and> 0 < weight r))
    | Inr r \<Rightarrow> r \<in> set rs \<and> relayMatches r query \<and> 0 < weight r) \<and>
   (case selectExitForAttempt rs query attempt of
      Inl e \<Rightarrow> (\<forall>r \<in> set rs. \<not> (relayMatches r query \<and> 0 < weight r))
    | Inr r \<Rightarrow> r \<in> set rs \<and> relayMatches r query \<and> 0 < weight r)"
proof -
  let ?pool = "filter (\<lambda>r. weight r > 0) (exit_candidates rs query)"
  have weighted: "case selectExitWeighted rs query (k, m) of
      Inl e \<Rightarrow> (\<forall>r \<in> set rs. \<not> (relayMatches r query \<and> 0 < weight r))
    | Inr r \<Rightarrow> r \<in> set rs \<and> relayMatches r query \<and> 0 < weight r" if km: "0 \<le> k" "k < m" for k m
  proof (cases "?pool = []")
    case True
    then show ?thesis
      by (auto simp: selectExitWeighted_def exit_candidates_def filter_empty_conv)
  next
    case False
    have pos: "0 < totalWeight ?pool" using False by (intro totalWeight_pos) auto
    have "k * totalWeight ?pool < totalWeight ?pool * m"
      using km pos by (simp add: mult.commute [of k])
    then have "k * totalWeight ?pool div m < totalWeight ?pool" "0 \<le> k * totalWeight ?pool div m"
      using div_below [of m "k * totalWeight ?pool"] km pos by (simp_all add: pos_imp_zdiv_nonneg_iff)
    moreover have "\<forall>r \<in> set ?pool. 0 < weight r" by simp
    ultimately obtain r where r: "rollLoop ?pool (k * totalWeight ?pool div m) = Some r"
      using rollLoop_hits by blast
    then have "r \<in> set ?pool" by (rule rollLoop_in_pool)
    with False r pos show ?thesis
      by (simp add: selectExitWeighted_def weightedPick_def Let_def) (simp add: exit_candidates_def)
  qed
  obtain n d where u: "mulberry32 (word_of_int attempt) = (n, d)" by (cases "mulberry32 (word_of_int attempt)")
  then have "0 \<le> n" "n < d" using mulberry32_fraction [of "word_of_int attempt"] by simp_all
  from weighted [OF assms] weighted [OF this] show ?thesis
    unfolding selectExitForAttempt_def u by (rule conjI)
qed

theorem selectExitWeighted_sound_witness:
  "selectExitForAttempt [] \<lparr>q_location = None, q_ipAvailability = None, q_requireIpv6Egress = False\<rparr> 3 = Inl NoRelayMatch \<and>
   (case selectExitWeighted [] \<lparr>q_location = None, q_ipAvailability = None, q_requireIpv6Egress = False\<rparr> (1, 2) of
      Inl e \<Rightarrow> (\<forall>r \<in> set []. \<not> (relayMatches r \<lparr>q_location = None, q_ipAvailability = None, q_requireIpv6Egress = False\<rparr> \<and> 0 < weight r))
    | Inr r \<Rightarrow> r \<in> set [])"
  using selectExitWeighted_sound [of 1 2 "[]" "\<lparr>q_location = None, q_ipAvailability = None, q_requireIpv6Egress = False\<rparr>" 3]
  by (simp add: selectExitForAttempt_def selectExitWeighted_def exit_candidates_def)

text \<open>
  The weighted selection is fair: among the equally likely rolls \<open>0\<close> to \<open>total - 1\<close>, each relay of a pool of
  distinct relays with positive weights is chosen by exactly as many rolls as its weight.
\<close>

theorem weighted_selection_fair:
  assumes "distinct pool" and "x \<in> set pool" and "\<forall>r \<in> set pool. 0 < weight r"
  shows "card {roll. 0 \<le> roll \<and> roll < totalWeight pool \<and> weightedPick pool (roll, totalWeight pool) = x} = nat (weight x)"
proof -
  have ne: "pool \<noteq> []" using assms(2) by auto
  have pos: "0 < totalWeight pool" by (rule totalWeight_pos [OF ne assms(3)])
  have "weightedPick pool (roll, totalWeight pool) = x \<longleftrightarrow> rollLoop pool roll = Some x"
    if "0 \<le> roll" "roll < totalWeight pool" for roll
    using rollLoop_hits [OF that assms(3)] pos by (auto simp: weightedPick_def Let_def)
  then have "{roll. 0 \<le> roll \<and> roll < totalWeight pool \<and> weightedPick pool (roll, totalWeight pool) = x} =
      {roll. 0 \<le> roll \<and> roll < totalWeight pool \<and> rollLoop pool roll = Some x}" by blast
  then show ?thesis using rollLoop_share [OF assms] by simp
qed

definition sample_relay :: "int \<Rightarrow> Relay" where
  "sample_relay w = \<lparr>endpointIdHex = [], exitIdHex = [], country = ''CH'', city = ''Zurich'', weight = w, active = True,
     ipv6Egress = False, hasIpv4 = True, hasIpv6 = False, addrs = [], coverDomain = None\<rparr>"

theorem weighted_selection_fair_witness:
  "card {roll. 0 \<le> roll \<and> roll < totalWeight [sample_relay 2, sample_relay 5] \<and>
      weightedPick [sample_relay 2, sample_relay 5] (roll, totalWeight [sample_relay 2, sample_relay 5]) = sample_relay 5} = 5"
  using weighted_selection_fair [of "[sample_relay 2, sample_relay 5]" "sample_relay 5"] by (simp add: sample_relay_def)

theorem selectExit_first_match_witness:
  "selectExit [sample_relay 2, sample_relay 5] \<lparr>q_location = Some (InCity ''ch'' ''ZURICH''), q_ipAvailability = Some Ipv4Only,
     q_requireIpv6Egress = False\<rparr> = Inr (sample_relay 2)"
proof -
  let ?q = "\<lparr>q_location = Some (InCity ''ch'' ''ZURICH''), q_ipAvailability = Some Ipv4Only, q_requireIpv6Egress = False\<rparr>"
  have "relayMatches (sample_relay 2) ?q" by (simp add: relayMatches_def sample_relay_def toLowerCase_def) code_simp
  then have "\<exists>before after. [sample_relay 2, sample_relay 5] = before @ sample_relay 2 # after \<and>
      relayMatches (sample_relay 2) ?q \<and> (\<forall>b \<in> set before. \<not> relayMatches b ?q)"
    by (intro exI [of _ "[]"] exI [of _ "[sample_relay 5]"]) simp_all
  then show ?thesis using selectExit_first_match [of "[sample_relay 2, sample_relay 5]" ?q "sample_relay 2"] by blast
qed

end
