(* ===== verification/Kem.thy ===== *)
theory Kem
  imports Wire_Reader Stream_Framing
begin

text \<open>
  Key agreement: the HPKE sender of \<^verbatim>\<open>packages/core/src/edge/hpke.ts\<close> and the X-Wing hybrid of
  \<^verbatim>\<open>packages/core/src/edge/xwing.ts\<close>. The primitives of the \<^verbatim>\<open>@noble\<close> packages are the fields of \<open>crypto_lib\<close>; what
  the protocol relies on in them is \<open>crypto_laws\<close>. Random draws are arguments.
\<close>

section \<open>Big-endian counters\<close>

definition beU32 :: "int \<Rightarrow> bytes" where
  "beU32 n = writeUInt32BE (nat (n mod 2 ^ 32))"

definition beU64 :: "int \<Rightarrow> bytes" where
  "beU64 n = writeUInt32BE (nat (n mod 2 ^ 64 div 2 ^ 32)) @ writeUInt32BE (nat (n mod 2 ^ 64 mod 2 ^ 32))"

lemma writeUInt32BE_inj: "a < 2 ^ 32 \<Longrightarrow> b < 2 ^ 32 \<Longrightarrow> writeUInt32BE a = writeUInt32BE b \<longleftrightarrow> a = b"
  by (metis be.rd_wr)

lemma length_beU [simp]: "length (beU32 n) = 4" "length (beU64 n) = 8"
  by (simp_all add: beU32_def beU64_def)

lemma beU32_inj: "beU32 a = beU32 b \<longleftrightarrow> a mod 2 ^ 32 = b mod 2 ^ 32"
proof -
  have lt: "nat (n mod 2 ^ 32) < 2 ^ 32" for n :: int by (simp add: nat_less_iff)
  show ?thesis unfolding beU32_def writeUInt32BE_inj [OF lt lt] by (simp add: eq_nat_nat_iff)
qed

lemma beU64_inj: "beU64 a = beU64 b \<longleftrightarrow> a mod 2 ^ 64 = b mod 2 ^ 64"
proof -
  have hi: "nat (n mod 2 ^ 64 div 2 ^ 32) < 2 ^ 32" for n :: int
  proof -
    have "n mod 2 ^ 64 < 2 ^ 64" by simp
    then have "n mod 2 ^ 64 div 2 ^ 32 < 2 ^ 32" by (simp add: div_less_iff_less_mult)
    then show ?thesis by (simp add: nat_less_iff)
  qed
  have lo: "nat (n mod 2 ^ 64 mod 2 ^ 32) < 2 ^ 32" for n :: int by (simp add: nat_less_iff)
  have "beU64 a = beU64 b \<longleftrightarrow> a mod 2 ^ 64 div 2 ^ 32 = b mod 2 ^ 64 div 2 ^ 32 \<and>
      a mod 2 ^ 64 mod 2 ^ 32 = b mod 2 ^ 64 mod 2 ^ 32"
    unfolding beU64_def append_eq_append_conv [OF disjI1 [OF be.length_wr [THEN trans, OF be.length_wr [symmetric]]]]
      writeUInt32BE_inj [OF hi hi] writeUInt32BE_inj [OF lo lo]
    by (simp only: eq_nat_nat_iff pos_imp_zdiv_nonneg_iff pos_mod_sign zero_less_power zero_less_numeral)
  then show ?thesis using div_mult_mod_eq [of "a mod 2 ^ 64" "2 ^ 32"] div_mult_mod_eq [of "b mod 2 ^ 64" "2 ^ 32"] by metis
qed

section \<open>The primitives\<close>

text \<open>
  X25519 (\<open>None\<close> when \<^verbatim>\<open>getSharedSecret\<close> rejects the point), HKDF-SHA256, ChaCha20-Poly1305 as key, nonce and
  associated data to text, ML-KEM-768 (key generation gives public and secret key, encapsulation gives
  ciphertext and secret), SHA3-256 and SHAKE256.
\<close>

record crypto_lib =
  x_public :: "bytes \<Rightarrow> bytes"
  x_shared :: "bytes \<Rightarrow> bytes \<Rightarrow> bytes option"
  h_extract :: "bytes \<Rightarrow> bytes \<Rightarrow> bytes"
  h_expand :: "bytes \<Rightarrow> bytes \<Rightarrow> nat \<Rightarrow> bytes"
  a_encrypt :: "bytes \<Rightarrow> bytes \<Rightarrow> bytes \<Rightarrow> bytes \<Rightarrow> bytes"
  a_decrypt :: "bytes \<Rightarrow> bytes \<Rightarrow> bytes \<Rightarrow> bytes \<Rightarrow> bytes option"
  m_keygen :: "bytes \<Rightarrow> bytes \<times> bytes"
  m_encapsulate :: "bytes \<Rightarrow> bytes \<Rightarrow> (bytes \<times> bytes) option"
  m_decapsulate :: "bytes \<Rightarrow> bytes \<Rightarrow> bytes option"
  s_sha3 :: "bytes \<Rightarrow> bytes"
  s_shake :: "bytes \<Rightarrow> nat \<Rightarrow> bytes"

text \<open>
  Documented behaviour: the AEAD appends a sixteen-byte tag and opens what it sealed; X25519 public keys have 32
  bytes and both sides agree; ML-KEM decapsulation recovers the encapsulated secret; SHAKE gives as many bytes
  as asked.
\<close>

definition crypto_laws :: "crypto_lib \<Rightarrow> bool" where
  "crypto_laws cl \<longleftrightarrow>
     (\<forall>k n a m. a_decrypt cl k n a (a_encrypt cl k n a m) = Some m) \<and>
     (\<forall>k n a m. length (a_encrypt cl k n a m) = length m + 16) \<and>
     (\<forall>a. length (x_public cl a) = 32) \<and>
     (\<forall>a b. x_shared cl a (x_public cl b) = x_shared cl b (x_public cl a)) \<and>
     (\<forall>seed m. length seed = 64 \<and> length m = 32 \<longrightarrow>
        (\<exists>ct ss. m_encapsulate cl (fst (m_keygen cl seed)) m = Some (ct, ss) \<and> length ct = 1088 \<and>
          m_decapsulate cl ct (snd (m_keygen cl seed)) = Some ss)) \<and>
     (\<forall>s n. length (s_shake cl s n) = n)"

lemma crypto_lawsD:
  assumes "crypto_laws cl"
  shows "a_decrypt cl k n a (a_encrypt cl k n a m) = Some m"
    and "length (a_encrypt cl k n a m) = length m + 16"
    and "length (x_public cl s) = 32"
    and "x_shared cl s (x_public cl t) = x_shared cl t (x_public cl s)"
    and "length (s_shake cl s i) = i"
  using assms unfolding crypto_laws_def by blast+

lemma crypto_laws_mlkem:
  assumes "crypto_laws cl" and "length seed = 64" and "length m = 32"
  obtains ct ss where "m_encapsulate cl (fst (m_keygen cl seed)) m = Some (ct, ss)" and "length ct = 1088"
    and "m_decapsulate cl ct (snd (m_keygen cl seed)) = Some ss"
  using assms unfolding crypto_laws_def by blast

datatype seal_error =
    SealLength
  | SealCrypto
  | SealDifferentExit
  | SealVersion int
  | SealNoEpoch
  | SealAuth
  | SealWire wire_error

definition fromCrypto :: "seal_error \<Rightarrow> 'a option \<Rightarrow> seal_error + 'a" where
  "fromCrypto e r = (case r of None \<Rightarrow> Inl e | Some x \<Rightarrow> Inr x)"

lemma fromCrypto_simps [simp]: "fromCrypto e None = Inl e" "fromCrypto e (Some x) = Inr x"
  by (simp_all add: fromCrypto_def)

lemma fromCrypto_eq_Inr [simp]: "fromCrypto e r = Inr x \<longleftrightarrow> r = Some x"
  by (cases r) simp_all

section \<open>HPKE\<close>

definition i2osp2 :: "nat \<Rightarrow> bytes" where
  "i2osp2 n = [word_of_nat (n div 256), word_of_nat n]"

definition KEM_SUITE_ID :: bytes where
  "KEM_SUITE_ID = utf8ToBytes ''KEM'' @ i2osp2 0x0020"

definition HPKE_SUITE_ID :: bytes where
  "HPKE_SUITE_ID = utf8ToBytes ''HPKE'' @ i2osp2 0x0020 @ i2osp2 0x0001 @ i2osp2 0x0003"

definition labeledExtract :: "crypto_lib \<Rightarrow> bytes \<Rightarrow> string \<Rightarrow> bytes \<Rightarrow> bytes \<Rightarrow> bytes" where
  "labeledExtract cl salt label ikm suiteId =
     h_extract cl (utf8ToBytes ''HPKE-v1'' @ suiteId @ utf8ToBytes label @ ikm) salt"

definition labeledExpand :: "crypto_lib \<Rightarrow> bytes \<Rightarrow> string \<Rightarrow> bytes \<Rightarrow> nat \<Rightarrow> bytes \<Rightarrow> bytes" where
  "labeledExpand cl prk label info n suiteId =
     h_expand cl prk (i2osp2 n @ utf8ToBytes ''HPKE-v1'' @ suiteId @ utf8ToBytes label @ info) n"

record HpkeSender =
  enc :: bytes
  exporterSecret :: bytes

text \<open>\<open>hpkeExporter\<close> is the part of \<^verbatim>\<open>setupBaseSender\<close> after the Diffie-Hellman step.\<close>

definition hpkeExporter :: "crypto_lib \<Rightarrow> bytes \<Rightarrow> bytes \<Rightarrow> bytes \<Rightarrow> bytes \<Rightarrow> bytes" where
  "hpkeExporter cl pkE pkR dh info =
     (let kemContext = pkE @ pkR;
          eaePrk = labeledExtract cl [] ''eae_prk'' dh KEM_SUITE_ID;
          sharedSecret = labeledExpand cl eaePrk ''shared_secret'' kemContext 32 KEM_SUITE_ID;
          pskIdHash = labeledExtract cl [] ''psk_id_hash'' [] HPKE_SUITE_ID;
          infoHash = labeledExtract cl [] ''info_hash'' info HPKE_SUITE_ID;
          keyScheduleContext = [0x00] @ pskIdHash @ infoHash;
          secret = labeledExtract cl sharedSecret ''secret'' [] HPKE_SUITE_ID
      in labeledExpand cl secret ''exp'' keyScheduleContext 32 HPKE_SUITE_ID)"

definition setupBaseSender :: "crypto_lib \<Rightarrow> bytes \<Rightarrow> bytes \<Rightarrow> bytes \<Rightarrow> seal_error + HpkeSender" where
  "setupBaseSender cl pkR info skE =
     (let pkE = x_public cl skE
      in bindR (fromCrypto SealCrypto (x_shared cl skE pkR)) (\<lambda>dh.
         Inr \<lparr>enc = pkE, exporterSecret = hpkeExporter cl pkE pkR dh info\<rparr>))"

definition exportSecret :: "crypto_lib \<Rightarrow> bytes \<Rightarrow> bytes \<Rightarrow> nat \<Rightarrow> bytes" where
  "exportSecret cl secret context n = labeledExpand cl secret ''sec'' context n HPKE_SUITE_ID"

text \<open>
  The other end of the exchange is the exit, which follows RFC 9180: its decapsulation is the same schedule with
  the Diffie-Hellman step taken from its own secret key.
\<close>

definition setupBaseReceiver :: "crypto_lib \<Rightarrow> bytes \<Rightarrow> bytes \<Rightarrow> bytes \<Rightarrow> seal_error + bytes" where
  "setupBaseReceiver cl skR info pkE =
     bindR (fromCrypto SealCrypto (x_shared cl skR pkE)) (\<lambda>dh. Inr (hpkeExporter cl pkE (x_public cl skR) dh info))"

lemma setupBase_agree:
  assumes "crypto_laws cl" and "setupBaseSender cl (x_public cl skR) info skE = Inr s"
  shows "setupBaseReceiver cl skR info (enc s) = Inr (exporterSecret s)" and "length (enc s) = 32"
  using assms(2) crypto_lawsD(4) [OF assms(1), of skE skR] crypto_lawsD(3) [OF assms(1), of skE]
  by (auto simp: setupBaseSender_def setupBaseReceiver_def Let_def bindR_eq_Inr_conv)

section \<open>X-Wing\<close>

definition XWING_LABEL :: bytes where
  "XWING_LABEL = [0x5c, 0x2e, 0x2f, 0x2f, 0x5e, 0x5c]"

definition XWING_MLKEM_EK_LEN :: nat where
  "XWING_MLKEM_EK_LEN = 1184"

definition XWING_MLKEM_CT_LEN :: nat where
  "XWING_MLKEM_CT_LEN = 1088"

definition XWING_X25519_LEN :: nat where
  "XWING_X25519_LEN = 32"

record XWingRecipientPublicKey =
  xp_mlkem768Ek :: bytes
  xp_x25519Pubkey :: bytes

record XWingRecipientSecretKey =
  xs_mlkem768Dk :: bytes
  xs_x25519Secret :: bytes
  xs_x25519Pubkey :: bytes

record XWingCiphertext =
  xc_mlkemCt :: bytes
  xc_x25519Ct :: bytes

record XWingEncapsulation =
  xe_ciphertext :: XWingCiphertext
  xe_sharedSecret :: bytes

lemma XWingCiphertext_collapse [simp]:
  "\<lparr>xc_mlkemCt = xc_mlkemCt c, xc_x25519Ct = xc_x25519Ct c\<rparr> = (c :: XWingCiphertext)"
  by simp

definition expectBytes :: "bytes \<Rightarrow> nat \<Rightarrow> seal_error + unit" where
  "expectBytes bs n = guardR (length bs = n) SealLength"

definition xwingCombiner :: "crypto_lib \<Rightarrow> bytes \<Rightarrow> bytes \<Rightarrow> bytes \<Rightarrow> bytes \<Rightarrow> bytes" where
  "xwingCombiner cl ssM ssX ctX pkX = s_sha3 cl (ssM @ ssX @ ctX @ pkX @ XWING_LABEL)"

definition xwingRecipientPublicFromDescriptor :: "bytes \<Rightarrow> bytes \<Rightarrow> seal_error + XWingRecipientPublicKey" where
  "xwingRecipientPublicFromDescriptor ek pk =
     bindR (expectBytes ek XWING_MLKEM_EK_LEN) (\<lambda>_.
     bindR (expectBytes pk XWING_X25519_LEN) (\<lambda>_.
     Inr \<lparr>xp_mlkem768Ek = ek, xp_x25519Pubkey = pk\<rparr>))"

definition xwingRecipientFromParts :: "crypto_lib \<Rightarrow> bytes \<Rightarrow> bytes \<Rightarrow> seal_error + XWingRecipientSecretKey" where
  "xwingRecipientFromParts cl dk sk =
     bindR (expectBytes sk XWING_X25519_LEN) (\<lambda>_.
     Inr \<lparr>xs_mlkem768Dk = dk, xs_x25519Secret = sk, xs_x25519Pubkey = x_public cl sk\<rparr>)"

definition xwingRecipientFromComponentSeeds ::
    "crypto_lib \<Rightarrow> bytes \<Rightarrow> bytes \<Rightarrow> bytes \<Rightarrow> seal_error + (XWingRecipientSecretKey \<times> XWingRecipientPublicKey)" where
  "xwingRecipientFromComponentSeeds cl d z skxSeed =
     bindR (expectBytes d 32) (\<lambda>_.
     bindR (expectBytes z 32) (\<lambda>_.
     bindR (expectBytes skxSeed XWING_X25519_LEN) (\<lambda>_.
     let kp = m_keygen cl (d @ z)
     in bindR (xwingRecipientFromParts cl (snd kp) skxSeed) (\<lambda>secretKey.
        Inr (secretKey, \<lparr>xp_mlkem768Ek = fst kp, xp_x25519Pubkey = xs_x25519Pubkey secretKey\<rparr>)))))"

definition xwingRecipientFromXwingSeed ::
    "crypto_lib \<Rightarrow> bytes \<Rightarrow> seal_error + (XWingRecipientSecretKey \<times> XWingRecipientPublicKey)" where
  "xwingRecipientFromXwingSeed cl seed =
     bindR (expectBytes seed 32) (\<lambda>_.
     let expanded = s_shake cl seed 96
     in xwingRecipientFromComponentSeeds cl (js_slice expanded 0 32) (js_slice expanded 32 64) (js_slice expanded 64 96))"

definition xwingEncapsulate ::
    "crypto_lib \<Rightarrow> XWingRecipientPublicKey \<Rightarrow> bytes \<Rightarrow> bytes \<Rightarrow> seal_error + XWingEncapsulation" where
  "xwingEncapsulate cl recipient mSeed ephXSeed =
     bindR (expectBytes mSeed 32) (\<lambda>_.
     bindR (expectBytes ephXSeed XWING_X25519_LEN) (\<lambda>_.
     bindR (fromCrypto SealCrypto (m_encapsulate cl (xp_mlkem768Ek recipient) mSeed)) (\<lambda>(mlkemCt, ssM).
     let ctX = x_public cl ephXSeed
     in bindR (fromCrypto SealCrypto (x_shared cl ephXSeed (xp_x25519Pubkey recipient))) (\<lambda>ssX.
        Inr \<lparr>xe_ciphertext = \<lparr>xc_mlkemCt = mlkemCt, xc_x25519Ct = ctX\<rparr>,
             xe_sharedSecret = xwingCombiner cl ssM ssX ctX (xp_x25519Pubkey recipient)\<rparr>))))"

definition xwingDecapsulate :: "crypto_lib \<Rightarrow> XWingRecipientSecretKey \<Rightarrow> XWingCiphertext \<Rightarrow> seal_error + bytes" where
  "xwingDecapsulate cl secret ciphertext =
     bindR (expectBytes (xc_mlkemCt ciphertext) XWING_MLKEM_CT_LEN) (\<lambda>_.
     bindR (expectBytes (xc_x25519Ct ciphertext) XWING_X25519_LEN) (\<lambda>_.
     bindR (fromCrypto SealCrypto (m_decapsulate cl (xc_mlkemCt ciphertext) (xs_mlkem768Dk secret))) (\<lambda>ssM.
     bindR (fromCrypto SealCrypto (x_shared cl (xs_x25519Secret secret) (xc_x25519Ct ciphertext))) (\<lambda>ssX.
     Inr (xwingCombiner cl ssM ssX (xc_x25519Ct ciphertext) (xs_x25519Pubkey secret))))))"

text \<open>The reference flow returns the public key, the ciphertext, and the secret of either side.\<close>

definition xwingReferenceFlow :: "crypto_lib \<Rightarrow> bytes \<Rightarrow> bytes \<Rightarrow> seal_error + (bytes \<times> bytes \<times> bytes \<times> bytes)" where
  "xwingReferenceFlow cl seed eseed =
     bindR (expectBytes seed 32) (\<lambda>_.
     bindR (expectBytes eseed 64) (\<lambda>_.
     bindR (xwingRecipientFromXwingSeed cl seed) (\<lambda>(secretKey, publicKey).
     bindR (xwingEncapsulate cl publicKey (js_slice eseed 0 32) (js_slice eseed 32 64)) (\<lambda>e.
     bindR (xwingDecapsulate cl secretKey (xe_ciphertext e)) (\<lambda>ssDec.
     Inr (xp_mlkem768Ek publicKey @ xp_x25519Pubkey publicKey,
          xc_mlkemCt (xe_ciphertext e) @ xc_x25519Ct (xe_ciphertext e), xe_sharedSecret e, ssDec))))))"

lemma xwing_agree:
  assumes cl: "crypto_laws cl"
    and kp: "xwingRecipientFromComponentSeeds cl d z skx = Inr (sk, pk)"
    and e: "xwingEncapsulate cl pk m eph = Inr e"
  shows "xwingDecapsulate cl sk (xe_ciphertext e) = Inr (xe_sharedSecret e) \<and>
    length (xc_mlkemCt (xe_ciphertext e)) = 1088 \<and> length (xc_x25519Ct (xe_ciphertext e)) = 32"
proof -
  have len: "length (d @ z) = 64" "length m = 32"
    and pk: "pk = \<lparr>xp_mlkem768Ek = fst (m_keygen cl (d @ z)), xp_x25519Pubkey = x_public cl skx\<rparr>"
    and sk: "sk = \<lparr>xs_mlkem768Dk = snd (m_keygen cl (d @ z)), xs_x25519Secret = skx, xs_x25519Pubkey = x_public cl skx\<rparr>"
    using kp e by (auto simp: xwingRecipientFromComponentSeeds_def xwingRecipientFromParts_def xwingEncapsulate_def
        expectBytes_def Let_def bindR_eq_Inr_conv split: if_splits)
  obtain ct ss where k: "m_encapsulate cl (fst (m_keygen cl (d @ z))) m = Some (ct, ss)" "length ct = 1088"
      "m_decapsulate cl ct (snd (m_keygen cl (d @ z))) = Some ss"
    using crypto_laws_mlkem [OF cl len] by blast
  show ?thesis
    using e crypto_lawsD(3) [OF cl, of eph] crypto_lawsD(4) [OF cl, of eph skx]
    by (auto simp: xwingEncapsulate_def xwingDecapsulate_def pk sk k expectBytes_def Let_def bindR_eq_Inr_conv
        XWING_MLKEM_CT_LEN_def XWING_X25519_LEN_def split: if_splits)
qed

lemma xwingReferenceFlow_agree:
  assumes "crypto_laws cl" and "xwingReferenceFlow cl seed eseed = Inr (pub, ct, a, b)"
  shows "a = b \<and> length ct = 1120"
proof -
  obtain sk pk e where kp: "xwingRecipientFromXwingSeed cl seed = Inr (sk, pk)"
    and e: "xwingEncapsulate cl pk (js_slice eseed 0 32) (js_slice eseed 32 64) = Inr e"
    and out: "ct = xc_mlkemCt (xe_ciphertext e) @ xc_x25519Ct (xe_ciphertext e)" "a = xe_sharedSecret e"
      "xwingDecapsulate cl sk (xe_ciphertext e) = Inr b"
    using assms(2) by (auto simp: xwingReferenceFlow_def bindR_eq_Inr_conv)
  obtain d z skx where "xwingRecipientFromComponentSeeds cl d z skx = Inr (sk, pk)"
    using kp by (auto simp: xwingRecipientFromXwingSeed_def bindR_eq_Inr_conv Let_def)
  from xwing_agree [OF assms(1) this e] out show ?thesis by simp
qed

section \<open>A reference library\<close>

text \<open>One concrete choice of the primitives that has the documented behaviour.\<close>

definition reference_crypto :: crypto_lib where
  "reference_crypto = \<lparr>
     x_public = (\<lambda>sk. replicate 32 (sum_list sk)),
     x_shared = (\<lambda>sk pk. Some (map (\<lambda>b. sum_list sk * b) pk)),
     h_extract = (\<lambda>ikm salt. [sum_list ikm + 3 * sum_list salt]),
     h_expand = (\<lambda>prk info n. replicate n (sum_list prk + 5 * sum_list info)),
     a_encrypt = (\<lambda>k n a m. map (\<lambda>b. b + sum_list k) m @ replicate 16 (sum_list k + sum_list a)),
     a_decrypt = (\<lambda>k n a c. if 16 \<le> length c \<and> drop (length c - 16) c = replicate 16 (sum_list k + sum_list a)
        then Some (map (\<lambda>b. b - sum_list k) (take (length c - 16) c)) else None),
     m_keygen = (\<lambda>seed. (replicate 1184 (sum_list seed), seed)),
     m_encapsulate = (\<lambda>ek m. Some (replicate 1088 (sum_list m), [ek ! 0 * sum_list m])),
     m_decapsulate = (\<lambda>ct dk. Some [sum_list dk * ct ! 0]),
     s_sha3 = (\<lambda>bs. [sum_list bs]),
     s_shake = (\<lambda>bs n. replicate n (sum_list bs))\<rparr>"

lemma reference_crypto_laws: "crypto_laws reference_crypto"
  unfolding crypto_laws_def
  by (simp add: reference_crypto_def comp_def nth_append mult.commute)

section \<open>Properties\<close>

text \<open>
  The X-Wing hybrid agrees: for a recipient derived from component seeds, the exit's decapsulation of what the
  client encapsulated returns the client's shared secret, the ciphertext halves have the lengths the frame
  fields expect, and the two secrets of the reference flow are equal with a 1120-byte ciphertext.
\<close>

theorem xwing_decapsulates:
  assumes "crypto_laws cl" and "xwingRecipientFromComponentSeeds cl d z skx = Inr (sk, pk)"
    and "xwingEncapsulate cl pk m eph = Inr e"
  shows "xwingDecapsulate cl sk (xe_ciphertext e) = Inr (xe_sharedSecret e) \<and>
    length (xc_mlkemCt (xe_ciphertext e)) = 1088 \<and> length (xc_x25519Ct (xe_ciphertext e)) = 32 \<and>
    (\<forall>seed eseed pub ct a b. xwingReferenceFlow cl seed eseed = Inr (pub, ct, a, b) \<longrightarrow> a = b \<and> length ct = 1120)"
  using xwing_agree [OF assms] xwingReferenceFlow_agree [OF assms(1)] by blast

theorem xwing_decapsulates_witness:
  "\<exists>sk pk e. xwingRecipientFromComponentSeeds reference_crypto (replicate 32 1) (replicate 32 2) (replicate 32 3) = Inr (sk, pk) \<and>
     xwingEncapsulate reference_crypto pk (replicate 32 4) (replicate 32 5) = Inr e \<and>
     xwingDecapsulate reference_crypto sk (xe_ciphertext e) = Inr (xe_sharedSecret e)"
proof -
  obtain sk pk where kp:
    "xwingRecipientFromComponentSeeds reference_crypto (replicate 32 1) (replicate 32 2) (replicate 32 3) = Inr (sk, pk)"
    by (simp add: xwingRecipientFromComponentSeeds_def xwingRecipientFromParts_def expectBytes_def XWING_X25519_LEN_def Let_def)
  obtain e where e: "xwingEncapsulate reference_crypto pk (replicate 32 4) (replicate 32 5) = Inr e"
    by (simp add: xwingEncapsulate_def reference_crypto_def expectBytes_def XWING_X25519_LEN_def Let_def)
  show ?thesis using kp e xwing_decapsulates [OF reference_crypto_laws kp e] by blast
qed

end
