(* ===== verification/Seal.thy ===== *)
theory Seal
  imports Kem Frames
begin

text \<open>
  The multi-hop seal: the client session of \<^verbatim>\<open>packages/core/src/edge/seal.ts\<close> and the post-quantum client and exit
  sessions of \<^verbatim>\<open>packages/core/src/edge/pq-seal.ts\<close>. Every packet is encrypted under a key exported for its slot
  \<open>(epoch, seq)\<close> with a fixed nonce, so the separation of slots is what the scheme rests on: the locale
  \<open>slot_text\<close> states it once for the export infos and the associated data of both versions and directions.
\<close>

section \<open>Slots\<close>

definition WARREN_HPKE_INFO_V1 :: bytes where
  "WARREN_HPKE_INFO_V1 = utf8ToBytes ''warren/multihop/v1/hpke-info''"

definition WARREN_HPKE_AAD_V1 :: bytes where
  "WARREN_HPKE_AAD_V1 = utf8ToBytes ''warren/multihop/v1/aad''"

definition DIRECTION_TAG_REVERSE :: byte where
  "DIRECTION_TAG_REVERSE = 0x02"

definition PER_PACKET_KEY_LEN :: nat where
  "PER_PACKET_KEY_LEN = 32"

definition NONCE_ZERO_12 :: bytes where
  "NONCE_ZERO_12 = replicate 12 0"

definition composeExportInfo :: "int \<Rightarrow> int \<Rightarrow> bytes" where
  "composeExportInfo e s = WARREN_HPKE_AAD_V1 @ beU32 e @ beU64 s"

definition composeExportInfoReverse :: "int \<Rightarrow> int \<Rightarrow> bytes" where
  "composeExportInfoReverse e s = composeExportInfo e s @ [DIRECTION_TAG_REVERSE]"

definition composeAad :: "bytes \<Rightarrow> int \<Rightarrow> int \<Rightarrow> bytes" where
  "composeAad eid e s = WARREN_HPKE_AAD_V1 @ eid @ beU32 e @ beU64 s"

definition WARREN_PQ_HPKE_SALT_V2 :: bytes where
  "WARREN_PQ_HPKE_SALT_V2 = utf8ToBytes ''warren/multihop/v2/pq-hkdf-salt''"

definition WARREN_PQ_HPKE_AAD_V2 :: bytes where
  "WARREN_PQ_HPKE_AAD_V2 = utf8ToBytes ''warren/multihop/v2/pq-aad''"

definition composeExportInfoPq :: "int \<Rightarrow> int \<Rightarrow> bytes" where
  "composeExportInfoPq e s = WARREN_PQ_HPKE_AAD_V2 @ beU32 e @ beU64 s"

definition composeExportInfoReversePq :: "int \<Rightarrow> int \<Rightarrow> bytes" where
  "composeExportInfoReversePq e s = composeExportInfoPq e s @ [DIRECTION_TAG_REVERSE]"

definition composeAadPq :: "bytes \<Rightarrow> int \<Rightarrow> int \<Rightarrow> bytes" where
  "composeAadPq eid e s = WARREN_PQ_HPKE_AAD_V2 @ eid @ beU32 e @ beU64 s"

section \<open>Sealing and opening one packet\<close>

text \<open>
  The AEAD returns ciphertext and tag in one array; the frame carries them apart. \<open>joinSealed\<close> is the array the
  openers rebuild: sixteen bytes for the tag after the ciphertext, whatever the tag's own length (a longer one
  makes \<^verbatim>\<open>set\<close> throw).
\<close>

definition splitSealed :: "bytes \<Rightarrow> bytes \<times> bytes" where
  "splitSealed sealed = (take (length sealed - 16) sealed, drop (length sealed - 16) sealed)"

definition joinSealed :: "bytes \<Rightarrow> bytes \<Rightarrow> seal_error + bytes" where
  "joinSealed ct tag = (if length tag > 16 then Inl SealLength else Inr (ct @ tag @ replicate (16 - length tag) 0))"

section \<open>The classical session\<close>

record WarrenClientSession =
  wcs_sender :: HpkeSender
  wcs_exitId :: bytes

definition wcs_create :: "crypto_lib \<Rightarrow> bytes \<Rightarrow> bytes \<Rightarrow> bytes \<Rightarrow> seal_error + WarrenClientSession" where
  "wcs_create cl exitX25519Pubkey eid ephemeralPriv =
     bindR (setupBaseSender cl exitX25519Pubkey WARREN_HPKE_INFO_V1 ephemeralPriv) (\<lambda>sender.
     bindR (guardR (length eid = EXIT_ID_LEN) SealLength) (\<lambda>_.
     Inr \<lparr>wcs_sender = sender, wcs_exitId = eid\<rparr>))"

definition wcs_seal :: "crypto_lib \<Rightarrow> WarrenClientSession \<Rightarrow> bytes \<Rightarrow> int \<Rightarrow> int \<Rightarrow> WarrenMultihopFrame" where
  "wcs_seal cl ses payload e s =
     (let key = exportSecret cl (exporterSecret (wcs_sender ses)) (composeExportInfo e s) PER_PACKET_KEY_LEN;
          aad = composeAad (wcs_exitId ses) e s;
          (ct, tag) = splitSealed (a_encrypt cl key NONCE_ZERO_12 aad payload)
      in \<lparr>version = uint WARREN_HPKE_VERSION, exitId = wcs_exitId ses, epoch = e, seq = s,
          encapsulatedKey = enc (wcs_sender ses), aeadTag = tag, ciphertext = ct\<rparr>)"

definition wcs_sealFrameBytes :: "crypto_lib \<Rightarrow> WarrenClientSession \<Rightarrow> bytes \<Rightarrow> int \<Rightarrow> int \<Rightarrow> wire_error + bytes" where
  "wcs_sealFrameBytes cl ses payload e s = encodeMultihopFrame (wcs_seal cl ses payload e s)"

definition wcs_openResponse :: "crypto_lib \<Rightarrow> WarrenClientSession \<Rightarrow> WarrenMultihopFrame \<Rightarrow> seal_error + bytes" where
  "wcs_openResponse cl ses frame =
     bindR (guardR (exitId frame = wcs_exitId ses) SealDifferentExit) (\<lambda>_.
     let key = exportSecret cl (exporterSecret (wcs_sender ses)) (composeExportInfoReverse (epoch frame) (seq frame)) PER_PACKET_KEY_LEN;
         aad = composeAad (wcs_exitId ses) (epoch frame) (seq frame)
     in bindR (joinSealed (ciphertext frame) (aeadTag frame)) (\<lambda>sealed.
        fromCrypto SealAuth (a_decrypt cl key NONCE_ZERO_12 aad sealed)))"

text \<open>
  The exit's half of the classical seal is not part of the SDK; these two state what its protocol requires of it:
  open a forward frame with the forward info, answer with the reverse info.
\<close>

definition exit_open_v1 :: "crypto_lib \<Rightarrow> bytes \<Rightarrow> WarrenMultihopFrame \<Rightarrow> seal_error + bytes" where
  "exit_open_v1 cl skR frame =
     bindR (setupBaseReceiver cl skR WARREN_HPKE_INFO_V1 (encapsulatedKey frame)) (\<lambda>secret.
     fromCrypto SealAuth (a_decrypt cl (exportSecret cl secret (composeExportInfo (epoch frame) (seq frame)) PER_PACKET_KEY_LEN)
       NONCE_ZERO_12 (composeAad (exitId frame) (epoch frame) (seq frame)) (ciphertext frame @ aeadTag frame)))"

definition exit_reply_v1 ::
    "crypto_lib \<Rightarrow> bytes \<Rightarrow> WarrenMultihopFrame \<Rightarrow> bytes \<Rightarrow> int \<Rightarrow> int \<Rightarrow> seal_error + WarrenMultihopFrame" where
  "exit_reply_v1 cl skR frame reply e s =
     bindR (setupBaseReceiver cl skR WARREN_HPKE_INFO_V1 (encapsulatedKey frame)) (\<lambda>secret.
     let (ct, tag) = splitSealed (a_encrypt cl (exportSecret cl secret (composeExportInfoReverse e s) PER_PACKET_KEY_LEN)
           NONCE_ZERO_12 (composeAad (exitId frame) e s) reply)
     in Inr (frame\<lparr>epoch := e, seq := s, aeadTag := tag, ciphertext := ct\<rparr>))"

section \<open>The post-quantum client session\<close>

definition derivePerPacketKey :: "crypto_lib \<Rightarrow> bytes \<Rightarrow> bytes \<Rightarrow> bytes" where
  "derivePerPacketKey cl sharedSecret info =
     h_expand cl (h_extract cl sharedSecret WARREN_PQ_HPKE_SALT_V2) info PER_PACKET_KEY_LEN"

definition openWithSecret :: "crypto_lib \<Rightarrow> bytes \<Rightarrow> bytes \<Rightarrow> WarrenMultihopFrameV2 \<Rightarrow> bool \<Rightarrow> seal_error + bytes" where
  "openWithSecret cl sharedSecret eid frame backward =
     (let info = (if backward then composeExportInfoReversePq (epoch2 frame) (seq2 frame)
                  else composeExportInfoPq (epoch2 frame) (seq2 frame));
          key = derivePerPacketKey cl sharedSecret info;
          aad = composeAadPq eid (epoch2 frame) (seq2 frame)
      in bindR (joinSealed (ciphertext2 frame) (aeadTag2 frame)) (\<lambda>sealed.
         fromCrypto SealAuth (a_decrypt cl key NONCE_ZERO_12 aad sealed)))"

record PqPendingOldEpoch =
  po_sharedSecret :: bytes
  po_epoch :: int

record WarrenPqClientSession =
  pq_recipient :: XWingRecipientPublicKey
  pq_sharedSecret :: bytes
  pq_exitId' :: bytes
  pq_encapsulatedKey :: bytes
  pq_pqCt :: bytes
  pq_epoch :: int
  pq_pending :: "PqPendingOldEpoch option"

text \<open>\<^verbatim>\<open>create\<close> and \<^verbatim>\<open>createDeterministic\<close>, with the two draws of \<^verbatim>\<open>xwingEncapsulateRandom\<close> as arguments.\<close>

definition pq_create ::
    "crypto_lib \<Rightarrow> XWingRecipientPublicKey \<Rightarrow> bytes \<Rightarrow> bytes \<Rightarrow> bytes \<Rightarrow> seal_error + WarrenPqClientSession" where
  "pq_create cl recipient eid mSeed ephXSeed =
     bindR (xwingEncapsulate cl recipient mSeed ephXSeed) (\<lambda>e.
     bindR (guardR (length eid = EXIT_ID_LEN) SealLength) (\<lambda>_.
     Inr \<lparr>pq_recipient = recipient, pq_sharedSecret = xe_sharedSecret e, pq_exitId' = eid,
          pq_encapsulatedKey = xc_x25519Ct (xe_ciphertext e), pq_pqCt = xc_mlkemCt (xe_ciphertext e),
          pq_epoch = 0, pq_pending = None\<rparr>))"

definition pq_rekey :: "crypto_lib \<Rightarrow> bytes \<Rightarrow> bytes \<Rightarrow> WarrenPqClientSession \<Rightarrow> seal_error + WarrenPqClientSession" where
  "pq_rekey cl mSeed ephXSeed ses =
     bindR (xwingEncapsulate cl (pq_recipient ses) mSeed ephXSeed) (\<lambda>e.
     Inr (ses\<lparr>pq_pending := Some \<lparr>po_sharedSecret = pq_sharedSecret ses, po_epoch = pq_epoch ses\<rparr>,
          pq_sharedSecret := xe_sharedSecret e, pq_encapsulatedKey := xc_x25519Ct (xe_ciphertext e),
          pq_pqCt := xc_mlkemCt (xe_ciphertext e), pq_epoch := pq_epoch ses + 1\<rparr>))"

definition pq_prunePendingOldEpoch :: "WarrenPqClientSession \<Rightarrow> WarrenPqClientSession" where
  "pq_prunePendingOldEpoch ses = ses\<lparr>pq_pending := None\<rparr>"

definition pq_sealInner ::
    "crypto_lib \<Rightarrow> WarrenPqClientSession \<Rightarrow> bytes \<Rightarrow> int \<Rightarrow> int \<Rightarrow> bytes \<Rightarrow> WarrenMultihopFrameV2" where
  "pq_sealInner cl ses payload e s ctM =
     (let key = derivePerPacketKey cl (pq_sharedSecret ses) (composeExportInfoPq e s);
          aad = composeAadPq (pq_exitId' ses) e s;
          (ct, tag) = splitSealed (a_encrypt cl key NONCE_ZERO_12 aad payload)
      in \<lparr>version2 = uint WARREN_HPKE_VERSION_V2, exitId2 = pq_exitId' ses, epoch2 = e, seq2 = s,
          encapsulatedKey2 = pq_encapsulatedKey ses, pqCt = ctM, aeadTag2 = tag, ciphertext2 = ct\<rparr>)"

definition pq_sealSetup :: "crypto_lib \<Rightarrow> WarrenPqClientSession \<Rightarrow> bytes \<Rightarrow> int \<Rightarrow> int \<Rightarrow> WarrenMultihopFrameV2" where
  "pq_sealSetup cl ses payload e s = pq_sealInner cl ses payload e s (pq_pqCt ses)"

definition pq_seal :: "crypto_lib \<Rightarrow> WarrenPqClientSession \<Rightarrow> bytes \<Rightarrow> int \<Rightarrow> int \<Rightarrow> WarrenMultihopFrameV2" where
  "pq_seal cl ses payload e s = pq_sealInner cl ses payload e s []"

definition pq_openResponse :: "crypto_lib \<Rightarrow> WarrenPqClientSession \<Rightarrow> WarrenMultihopFrameV2 \<Rightarrow> seal_error + bytes" where
  "pq_openResponse cl ses frame =
     bindR (guardR (exitId2 frame = pq_exitId' ses) SealDifferentExit) (\<lambda>_.
     bindR (guardR (version2 frame = uint WARREN_HPKE_VERSION_V2) (SealVersion (version2 frame))) (\<lambda>_.
     bindR (if epoch2 frame = pq_epoch ses then Inr (pq_sharedSecret ses)
            else case pq_pending ses of
                Some old \<Rightarrow> if po_epoch old = epoch2 frame then Inr (po_sharedSecret old) else Inl SealNoEpoch
              | None \<Rightarrow> Inl SealNoEpoch)
       (\<lambda>secret. openWithSecret cl secret (pq_exitId' ses) frame True)))"

section \<open>The post-quantum exit session\<close>

record WarrenPqExitSession =
  px_sharedSecret :: bytes
  px_exitId :: bytes
  px_encapsulatedKey :: bytes

definition px_create ::
    "crypto_lib \<Rightarrow> XWingRecipientSecretKey \<Rightarrow> bytes \<Rightarrow> bytes \<Rightarrow> bytes \<Rightarrow> seal_error + WarrenPqExitSession" where
  "px_create cl secret encKey ctM eid =
     bindR (xwingDecapsulate cl secret \<lparr>xc_mlkemCt = ctM, xc_x25519Ct = encKey\<rparr>) (\<lambda>ss.
     Inr \<lparr>px_sharedSecret = ss, px_exitId = eid, px_encapsulatedKey = encKey\<rparr>)"

definition px_open :: "crypto_lib \<Rightarrow> WarrenPqExitSession \<Rightarrow> WarrenMultihopFrameV2 \<Rightarrow> seal_error + bytes" where
  "px_open cl ses frame =
     bindR (guardR (exitId2 frame = px_exitId ses) SealDifferentExit) (\<lambda>_.
     bindR (guardR (version2 frame = uint WARREN_HPKE_VERSION_V2) (SealVersion (version2 frame))) (\<lambda>_.
     openWithSecret cl (px_sharedSecret ses) (px_exitId ses) frame False))"

definition px_sealResponse :: "crypto_lib \<Rightarrow> WarrenPqExitSession \<Rightarrow> bytes \<Rightarrow> int \<Rightarrow> int \<Rightarrow> WarrenMultihopFrameV2" where
  "px_sealResponse cl ses payload e s =
     (let key = derivePerPacketKey cl (px_sharedSecret ses) (composeExportInfoReversePq e s);
          aad = composeAadPq (px_exitId ses) e s;
          (ct, tag) = splitSealed (a_encrypt cl key NONCE_ZERO_12 aad payload)
      in \<lparr>version2 = uint WARREN_HPKE_VERSION_V2, exitId2 = px_exitId ses, epoch2 = e, seq2 = s,
          encapsulatedKey2 = px_encapsulatedKey ses, pqCt = [], aeadTag2 = tag, ciphertext2 = ct\<rparr>)"

section \<open>Separation of slots\<close>

text \<open>
  A text that carries a slot: it determines the slot, up to the widths of the counters, and starts with its prefix.
\<close>

locale slot_text =
  fixes carrier_text :: "int \<Rightarrow> int \<Rightarrow> bytes" and lead :: bytes and suf :: bytes
  assumes shape: "carrier_text e s = lead @ beU32 e @ beU64 s @ suf"
begin

lemma slot_inj: "carrier_text e s = carrier_text e' s' \<longleftrightarrow> e mod 2 ^ 32 = e' mod 2 ^ 32 \<and> s mod 2 ^ 64 = s' mod 2 ^ 64"
  by (simp add: shape beU32_inj beU64_inj)

lemma slot_length: "length (carrier_text e s) = length lead + 12 + length suf"
  by (simp add: shape)

lemma slot_prefix: "take (length lead) (carrier_text e s) = lead"
  by (simp add: shape)

end

interpretation v1_fwd: slot_text composeExportInfo WARREN_HPKE_AAD_V1 "[]"
  by unfold_locales (simp add: composeExportInfo_def)

interpretation v1_rev: slot_text composeExportInfoReverse WARREN_HPKE_AAD_V1 "[DIRECTION_TAG_REVERSE]"
  by unfold_locales (simp add: composeExportInfoReverse_def composeExportInfo_def)

interpretation v1_aad: slot_text "composeAad eid" "WARREN_HPKE_AAD_V1 @ eid" "[]" for eid
  by unfold_locales (simp add: composeAad_def)

interpretation v2_fwd: slot_text composeExportInfoPq WARREN_PQ_HPKE_AAD_V2 "[]"
  by unfold_locales (simp add: composeExportInfoPq_def)

interpretation v2_rev: slot_text composeExportInfoReversePq WARREN_PQ_HPKE_AAD_V2 "[DIRECTION_TAG_REVERSE]"
  by unfold_locales (simp add: composeExportInfoReversePq_def composeExportInfoPq_def)

interpretation v2_aad: slot_text "composeAadPq eid" "WARREN_PQ_HPKE_AAD_V2 @ eid" "[]" for eid
  by unfold_locales (simp add: composeAadPq_def)

lemma prefix_lengths [simp]: "length WARREN_HPKE_AAD_V1 = 22" "length WARREN_PQ_HPKE_AAD_V2 = 25"
  by (simp_all add: WARREN_HPKE_AAD_V1_def WARREN_PQ_HPKE_AAD_V2_def utf8ToBytes_def)

lemma composeAad_inj:
  assumes "length x = 16" "length x' = 16"
  shows "composeAad x e s = composeAad x' e' s' \<longleftrightarrow> x = x' \<and> e mod 2 ^ 32 = e' mod 2 ^ 32 \<and> s mod 2 ^ 64 = s' mod 2 ^ 64"
    and "composeAadPq x e s = composeAadPq x' e' s' \<longleftrightarrow> x = x' \<and> e mod 2 ^ 32 = e' mod 2 ^ 32 \<and> s mod 2 ^ 64 = s' mod 2 ^ 64"
  using assms by (simp_all add: composeAad_def composeAadPq_def beU32_inj beU64_inj)

text \<open>
  Every packet slot has its own key input: the export info of a direction and version determines the slot
  \<open>(epoch, seq)\<close> up to the widths of the counters, the infos of the two directions and of the two versions are
  always different (so no two of the four streams ever share a key input), and the associated data
  determines the exit and the slot.
\<close>

theorem packet_slots_separate:
  assumes "length x = 16" and "length x' = 16"
  shows "(composeExportInfo e s = composeExportInfo e' s' \<longleftrightarrow> e mod 2 ^ 32 = e' mod 2 ^ 32 \<and> s mod 2 ^ 64 = s' mod 2 ^ 64) \<and>
    (composeExportInfoReverse e s = composeExportInfoReverse e' s' \<longleftrightarrow> e mod 2 ^ 32 = e' mod 2 ^ 32 \<and> s mod 2 ^ 64 = s' mod 2 ^ 64) \<and>
    (composeExportInfoPq e s = composeExportInfoPq e' s' \<longleftrightarrow> e mod 2 ^ 32 = e' mod 2 ^ 32 \<and> s mod 2 ^ 64 = s' mod 2 ^ 64) \<and>
    (composeExportInfoReversePq e s = composeExportInfoReversePq e' s' \<longleftrightarrow> e mod 2 ^ 32 = e' mod 2 ^ 32 \<and> s mod 2 ^ 64 = s' mod 2 ^ 64) \<and>
    distinct [composeExportInfo e s, composeExportInfoReverse e' s', composeExportInfoPq e'' s'', composeExportInfoReversePq e3 s3] \<and>
    (composeAad x e s = composeAad x' e' s' \<longleftrightarrow> x = x' \<and> e mod 2 ^ 32 = e' mod 2 ^ 32 \<and> s mod 2 ^ 64 = s' mod 2 ^ 64) \<and>
    (composeAadPq x e s = composeAadPq x' e' s' \<longleftrightarrow> x = x' \<and> e mod 2 ^ 32 = e' mod 2 ^ 32 \<and> s mod 2 ^ 64 = s' mod 2 ^ 64)"
proof -
  have "length (composeExportInfo e s) = 34" "length (composeExportInfoReverse e' s') = 35"
    "length (composeExportInfoPq e'' s'') = 37" "length (composeExportInfoReversePq e3 s3) = 38"
    by (simp_all add: v1_fwd.slot_length v1_rev.slot_length v2_fwd.slot_length v2_rev.slot_length)
  then have "distinct [composeExportInfo e s, composeExportInfoReverse e' s', composeExportInfoPq e'' s'',
      composeExportInfoReversePq e3 s3]" by auto
  then show ?thesis
    by (simp only: v1_fwd.slot_inj v1_rev.slot_inj v2_fwd.slot_inj v2_rev.slot_inj composeAad_inj [OF assms])
qed

theorem packet_slots_separate_witness:
  "composeExportInfo 0 1 \<noteq> composeExportInfo 0 2 \<and> composeExportInfo 0 1 = composeExportInfo (2 ^ 32) 1 \<and>
   composeAad (replicate 16 7) 0 1 \<noteq> composeAad (replicate 16 8) 0 1"
  using packet_slots_separate [of "replicate 16 7" "replicate 16 8" 0 1 0 2]
    packet_slots_separate [of "replicate 16 7" "replicate 16 8" 0 1 "2 ^ 32" 1]
    packet_slots_separate [of "replicate 16 7" "replicate 16 8" 0 1 0 1]
  by (simp add: replicate_eq_replicate)

section \<open>The classical session\<close>

lemma splitSealed_lengths:
  "length c = n + 16 \<Longrightarrow> length (fst (splitSealed c)) = n \<and> length (snd (splitSealed c)) = 16"
  by (simp add: splitSealed_def)

lemma splitSealed_append [simp]: "fst (splitSealed c) @ snd (splitSealed c) = c"
  by (simp add: splitSealed_def)

lemma joinSealed_split:
  assumes "length c = n + 16"
  shows "joinSealed (fst (splitSealed c)) (snd (splitSealed c)) = Inr c"
  using splitSealed_lengths [OF assms] by (simp add: joinSealed_def)

lemma wcs_create_Inr:
  "wcs_create cl pkR eid skE = Inr ses \<longleftrightarrow>
     setupBaseSender cl pkR WARREN_HPKE_INFO_V1 skE = Inr (wcs_sender ses) \<and> length eid = 16 \<and> wcs_exitId ses = eid"
  by (cases ses) (auto simp: wcs_create_def bindR_eq_Inr_conv)

lemma wcs_seal_ok:
  assumes cl: "crypto_laws cl" and ses: "wcs_create cl (x_public cl skR) eid skE = Inr ses"
    and "0 \<le> e" "e < 2 ^ 53" "0 \<le> s" "s < 2 ^ 64" "length payload < 2 ^ 53"
  shows "frame_ok (wcs_seal cl ses payload e s)"
proof -
  have "length (enc (wcs_sender ses)) = 32"
    using ses setupBase_agree(2) [OF cl] unfolding wcs_create_Inr by blast
  moreover have "wcs_exitId ses = eid" "length eid = 16" using ses by (simp_all add: wcs_create_Inr)
  ultimately show ?thesis
    using assms(3-) crypto_lawsD(2) [OF cl]
    by (simp add: frame_ok_def wcs_seal_def splitSealed_def Let_def WARREN_HPKE_VERSION_def)
qed

lemma wcs_receiver:
  assumes "crypto_laws cl" and "wcs_create cl (x_public cl skR) eid skE = Inr ses"
  shows "setupBaseReceiver cl skR WARREN_HPKE_INFO_V1 (enc (wcs_sender ses)) = Inr (exporterSecret (wcs_sender ses))"
  using assms(2) setupBase_agree(1) [OF assms(1)] unfolding wcs_create_Inr by blast

lemma exit_opens_v1:
  assumes cl: "crypto_laws cl" and ses: "wcs_create cl (x_public cl skR) eid skE = Inr ses"
  shows "exit_open_v1 cl skR (wcs_seal cl ses payload e s) = Inr payload"
  using wcs_receiver [OF assms]
  by (simp add: exit_open_v1_def wcs_seal_def Let_def case_prod_beta crypto_lawsD(1) [OF cl])

lemma exit_replies_v1:
  assumes cl: "crypto_laws cl" and ses: "wcs_create cl (x_public cl skR) eid skE = Inr ses"
    and "encapsulatedKey f = enc (wcs_sender ses)" and "exitId f = eid"
  shows "\<exists>g. exit_reply_v1 cl skR f reply e s = Inr g \<and> wcs_openResponse cl ses g = Inr reply"
proof -
  note laws = crypto_lawsD [OF cl]
  have eid: "wcs_exitId ses = eid" using ses by (simp add: wcs_create_Inr)
  show ?thesis
    using wcs_receiver [OF cl ses] assms(3,4) eid joinSealed_split [OF laws(2)]
    by (simp add: exit_reply_v1_def wcs_openResponse_def Let_def case_prod_beta laws(1))
qed

text \<open>
  The classical tunnel works end to end: for a session created against an exit's key, the bytes of a sealed
  packet decode to a frame the exit opens to the payload, the exit's reply opens at the client, and a reply
  that names another exit is refused before any key is derived.
\<close>

theorem classical_seal_roundtrip:
  assumes "crypto_laws cl" and "wcs_create cl (x_public cl skR) eid skE = Inr ses"
    and "0 \<le> e" "e < 2 ^ 53" "0 \<le> s" "s < 2 ^ 64" "length payload < 2 ^ 53"
  shows "\<exists>bs f g. wcs_sealFrameBytes cl ses payload e s = Inr bs \<and> decodeMultihopFrame bs = Inr f \<and>
    exit_open_v1 cl skR f = Inr payload \<and> exit_reply_v1 cl skR f reply e' s' = Inr g \<and>
    wcs_openResponse cl ses g = Inr reply \<and>
    (\<forall>other. other \<noteq> eid \<longrightarrow> wcs_openResponse cl ses (g\<lparr>exitId := other\<rparr>) = Inl SealDifferentExit)"
proof -
  let ?f = "wcs_seal cl ses payload e s"
  have ok: "frame_ok ?f" by (rule wcs_seal_ok [OF assms(1,2,3-)])
  then have bs: "wcs_sealFrameBytes cl ses payload e s = Inr (frame_wire ?f)" "decodeMultihopFrame (frame_wire ?f) = Inr ?f"
    using encodeMultihopFrame_ok [of ?f] decodeMultihopFrame_wire [of ?f]
    by (auto simp: frame_ok_def wcs_sealFrameBytes_def)
  have eid: "wcs_exitId ses = eid" using assms(2) by (simp add: wcs_create_Inr)
  then have f: "encapsulatedKey ?f = enc (wcs_sender ses)" "exitId ?f = eid"
    by (simp_all add: wcs_seal_def Let_def case_prod_beta)
  obtain g where g: "exit_reply_v1 cl skR ?f reply e' s' = Inr g" "wcs_openResponse cl ses g = Inr reply"
    using exit_replies_v1 [OF assms(1,2) f] by blast
  have "wcs_openResponse cl ses (g\<lparr>exitId := other\<rparr>) = Inl SealDifferentExit" if "other \<noteq> eid" for other
    using that eid by (simp add: wcs_openResponse_def)
  with bs g exit_opens_v1 [OF assms(1,2)] show ?thesis by blast
qed

theorem classical_seal_roundtrip_witness:
  "\<exists>ses bs f. wcs_create reference_crypto (x_public reference_crypto [9]) (replicate 16 7) [4] = Inr ses \<and>
     wcs_sealFrameBytes reference_crypto ses [1, 2, 3] 0 1 = Inr bs \<and> decodeMultihopFrame bs = Inr f \<and>
     exit_open_v1 reference_crypto [9] f = Inr [1, 2, 3]"
proof -
  obtain ses where ses: "wcs_create reference_crypto (x_public reference_crypto [9]) (replicate 16 7) [4] = Inr ses"
    by (simp add: wcs_create_def setupBaseSender_def reference_crypto_def Let_def)
  have "\<exists>bs f g. wcs_sealFrameBytes reference_crypto ses [1, 2, 3] 0 1 = Inr bs \<and> decodeMultihopFrame bs = Inr f \<and>
    exit_open_v1 reference_crypto [9] f = Inr [1, 2, 3] \<and> exit_reply_v1 reference_crypto [9] f [5] 0 1 = Inr g \<and>
    wcs_openResponse reference_crypto ses g = Inr [5] \<and>
    (\<forall>other. other \<noteq> replicate 16 7 \<longrightarrow> wcs_openResponse reference_crypto ses (g\<lparr>exitId := other\<rparr>) = Inl SealDifferentExit)"
    by (rule classical_seal_roundtrip [OF reference_crypto_laws ses]) simp_all
  with ses show ?thesis by blast
qed

section \<open>The post-quantum session\<close>

datatype pq_op = PqRekey bytes bytes | PqPrune

fun pq_run :: "crypto_lib \<Rightarrow> pq_op list \<Rightarrow> WarrenPqClientSession \<Rightarrow> seal_error + WarrenPqClientSession" where
  "pq_run cl [] ses = Inr ses"
| "pq_run cl (PqRekey m x # ops) ses = bindR (pq_rekey cl m x ses) (pq_run cl ops)"
| "pq_run cl (PqPrune # ops) ses = pq_run cl ops (pq_prunePendingOldEpoch ses)"

fun is_rekey :: "pq_op \<Rightarrow> bool" where
  "is_rekey (PqRekey m x) = True"
| "is_rekey PqPrune = False"

text \<open>
  The invariant of a client session: the exit's key decapsulates the material it carries to its secret, and a
  pending secret belongs to the epoch just before.
\<close>

definition pq_ok :: "crypto_lib \<Rightarrow> XWingRecipientSecretKey \<Rightarrow> XWingRecipientPublicKey \<Rightarrow> bytes \<Rightarrow> WarrenPqClientSession \<Rightarrow> bool" where
  "pq_ok cl sk pk eid ses \<longleftrightarrow> pq_recipient ses = pk \<and> pq_exitId' ses = eid \<and>
     xwingDecapsulate cl sk \<lparr>xc_mlkemCt = pq_pqCt ses, xc_x25519Ct = pq_encapsulatedKey ses\<rparr> = Inr (pq_sharedSecret ses) \<and>
     (\<forall>old. pq_pending ses = Some old \<longrightarrow> po_epoch old = pq_epoch ses - 1)"

lemma pq_create_ok:
  assumes "crypto_laws cl" and "xwingRecipientFromComponentSeeds cl d z skx = Inr (sk, pk)"
    and "pq_create cl pk eid m x = Inr ses"
  shows "pq_ok cl sk pk eid ses \<and> pq_epoch ses = 0"
  using assms(3) xwing_agree [OF assms(1,2)] by (auto simp: pq_create_def pq_ok_def bindR_eq_Inr_conv split: if_splits)

lemma pq_rekey_ok:
  assumes "crypto_laws cl" and "xwingRecipientFromComponentSeeds cl d z skx = Inr (sk, pk)"
    and "pq_ok cl sk pk eid ses" and "pq_rekey cl m x ses = Inr ses'"
  shows "pq_ok cl sk pk eid ses' \<and> pq_epoch ses' = pq_epoch ses + 1 \<and>
    pq_pending ses' = Some \<lparr>po_sharedSecret = pq_sharedSecret ses, po_epoch = pq_epoch ses\<rparr>"
  using assms(3,4) xwing_agree [OF assms(1,2)] by (auto simp: pq_rekey_def pq_ok_def bindR_eq_Inr_conv)

lemma pq_prune_ok: "pq_ok cl sk pk eid ses \<Longrightarrow> pq_ok cl sk pk eid (pq_prunePendingOldEpoch ses)"
  by (simp add: pq_ok_def pq_prunePendingOldEpoch_def)

lemma pq_run_ok:
  assumes "crypto_laws cl" and "xwingRecipientFromComponentSeeds cl d z skx = Inr (sk, pk)"
    and "pq_ok cl sk pk eid ses" and "pq_run cl ops ses = Inr ses'"
  shows "pq_ok cl sk pk eid ses' \<and> pq_epoch ses' = pq_epoch ses + int (length (filter is_rekey ops))"
  using assms(3,4)
proof (induction ops arbitrary: ses)
  case Nil
  then show ?case by simp
next
  case (Cons op ops)
  show ?case
  proof (cases op)
    case (PqRekey m x)
    then obtain mid where mid: "pq_rekey cl m x ses = Inr mid" "pq_run cl ops mid = Inr ses'"
      using Cons.prems(2) by (auto simp: bindR_eq_Inr_conv)
    from pq_rekey_ok [OF assms(1,2) Cons.prems(1) mid(1)] Cons.IH [OF _ mid(2)] PqRekey show ?thesis by auto
  next
    case PqPrune
    with Cons.prems Cons.IH [OF pq_prune_ok] show ?thesis by (simp add: pq_prunePendingOldEpoch_def)
  qed
qed

lemma openWithSecret_sealed:
  assumes "crypto_laws cl"
    and "(ciphertext2 f, aeadTag2 f) = splitSealed (a_encrypt cl (derivePerPacketKey cl ss
       (if backward then composeExportInfoReversePq (epoch2 f) (seq2 f) else composeExportInfoPq (epoch2 f) (seq2 f)))
       NONCE_ZERO_12 (composeAadPq eid (epoch2 f) (seq2 f)) payload)"
  shows "openWithSecret cl ss eid f backward = Inr payload"
proof -
  note laws = crypto_lawsD [OF assms(1)]
  have "ciphertext2 f = fst (splitSealed (a_encrypt cl (derivePerPacketKey cl ss
       (if backward then composeExportInfoReversePq (epoch2 f) (seq2 f) else composeExportInfoPq (epoch2 f) (seq2 f)))
       NONCE_ZERO_12 (composeAadPq eid (epoch2 f) (seq2 f)) payload))"
    and "aeadTag2 f = snd (splitSealed (a_encrypt cl (derivePerPacketKey cl ss
       (if backward then composeExportInfoReversePq (epoch2 f) (seq2 f) else composeExportInfoPq (epoch2 f) (seq2 f)))
       NONCE_ZERO_12 (composeAadPq eid (epoch2 f) (seq2 f)) payload))"
    using assms(2) by (metis fst_conv, metis snd_conv)
  then show ?thesis by (simp add: openWithSecret_def Let_def joinSealed_split [OF laws(2)] laws(1))
qed

lemma px_sealResponse_fields:
  "exitId2 (px_sealResponse cl ex reply e s) = px_exitId ex" "version2 (px_sealResponse cl ex reply e s) = 2"
  "epoch2 (px_sealResponse cl ex reply e s) = e" "seq2 (px_sealResponse cl ex reply e s) = s"
  by (simp_all add: px_sealResponse_def Let_def case_prod_beta WARREN_HPKE_VERSION_V2_def)

lemma px_sealResponse_opens:
  assumes "crypto_laws cl"
  shows "openWithSecret cl (px_sharedSecret ex) (px_exitId ex) (px_sealResponse cl ex reply e s) True = Inr reply"
  by (rule openWithSecret_sealed [OF assms]) (simp add: px_sealResponse_def Let_def case_prod_beta)

lemma px_open_sealed:
  assumes "crypto_laws cl" and "px_sharedSecret ex = pq_sharedSecret ses" and "px_exitId ex = pq_exitId' ses"
  shows "px_open cl ex (pq_sealInner cl ses payload e s ctM) = Inr payload"
proof -
  have "openWithSecret cl (px_sharedSecret ex) (px_exitId ex) (pq_sealInner cl ses payload e s ctM) False = Inr payload"
    by (rule openWithSecret_sealed [OF assms(1)]) (simp add: pq_sealInner_def Let_def case_prod_beta assms(2,3))
  then show ?thesis
    by (simp add: px_open_def pq_sealInner_def Let_def case_prod_beta assms(3) WARREN_HPKE_VERSION_V2_def)
qed

lemma px_create_of_session:
  assumes "pq_ok cl sk pk eid ses"
  shows "px_create cl sk (encapsulatedKey2 (pq_sealSetup cl ses payload e s)) (pqCt (pq_sealSetup cl ses payload e s)) eid =
    Inr \<lparr>px_sharedSecret = pq_sharedSecret ses, px_exitId = eid, px_encapsulatedKey = pq_encapsulatedKey ses\<rparr>"
  using assms by (simp add: px_create_def pq_sealSetup_def pq_sealInner_def Let_def case_prod_beta pq_ok_def)

lemma pq_openResponse_current:
  assumes "crypto_laws cl" and "px_sharedSecret ex = pq_sharedSecret ses" and "px_exitId ex = pq_exitId' ses"
  shows "pq_openResponse cl ses (px_sealResponse cl ex reply (pq_epoch ses) s) = Inr reply"
  using px_sealResponse_opens [OF assms(1), of ex reply "pq_epoch ses" s] assms(2,3)
  by (simp add: pq_openResponse_def px_sealResponse_fields WARREN_HPKE_VERSION_V2_def)

lemma pq_openResponse_pending:
  assumes "crypto_laws cl" and "pq_pending ses = Some \<lparr>po_sharedSecret = px_sharedSecret ex, po_epoch = e\<rparr>"
    and "px_exitId ex = pq_exitId' ses" and "e \<noteq> pq_epoch ses"
  shows "pq_openResponse cl ses (px_sealResponse cl ex reply e s) = Inr reply"
  using px_sealResponse_opens [OF assms(1), of ex reply e s] assms(2-)
  by (simp add: pq_openResponse_def px_sealResponse_fields WARREN_HPKE_VERSION_V2_def)

lemma pq_openResponse_unknown:
  assumes "exitId2 g = pq_exitId' ses" "version2 g = 2" "epoch2 g \<noteq> pq_epoch ses"
    and "\<forall>old. pq_pending ses = Some old \<longrightarrow> po_epoch old \<noteq> epoch2 g"
  shows "pq_openResponse cl ses g = Inl SealNoEpoch"
  using assms by (auto simp: pq_openResponse_def WARREN_HPKE_VERSION_V2_def split: option.split)

text \<open>
  C7. The post-quantum session through its rekeys: after any sequence of rekeys and prunes the epoch counts the
  rekeys; the setup frame of the current epoch lets the exit create a session that opens it and every data
  frame of the epoch, and whose replies the client opens; after one more rekey those replies still open in
  the overlap window, and after a prune they are refused; a reply of any epoch other than the current and
  the one before is always refused.
\<close>

theorem pq_session_overlap:
  assumes cl: "crypto_laws cl" and kp: "xwingRecipientFromComponentSeeds cl d z skx = Inr (sk, pk)"
    and "pq_create cl pk eid m x = Inr start" and "pq_run cl ops start = Inr ses"
  shows "pq_epoch ses = int (length (filter is_rekey ops)) \<and>
    (\<exists>ex. px_create cl sk (encapsulatedKey2 (pq_sealSetup cl ses payload e s)) (pqCt (pq_sealSetup cl ses payload e s)) eid = Inr ex \<and>
      px_open cl ex (pq_sealSetup cl ses payload e s) = Inr payload \<and> px_open cl ex (pq_seal cl ses data e' s') = Inr data \<and>
      pq_openResponse cl ses (px_sealResponse cl ex reply (pq_epoch ses) s'') = Inr reply \<and>
      (\<forall>m' x' ses'. pq_rekey cl m' x' ses = Inr ses' \<longrightarrow>
        pq_openResponse cl ses' (px_sealResponse cl ex reply (pq_epoch ses) s'') = Inr reply \<and>
        pq_openResponse cl (pq_prunePendingOldEpoch ses') (px_sealResponse cl ex reply (pq_epoch ses) s'') = Inl SealNoEpoch)) \<and>
    (\<forall>g. exitId2 g = eid \<and> version2 g = 2 \<and> epoch2 g \<notin> {pq_epoch ses, pq_epoch ses - 1} \<longrightarrow>
      pq_openResponse cl ses g = Inl SealNoEpoch)"
proof -
  let ?ex = "\<lparr>px_sharedSecret = pq_sharedSecret ses, px_exitId = eid, px_encapsulatedKey = pq_encapsulatedKey ses\<rparr>"
  have ok: "pq_ok cl sk pk eid ses" and count: "pq_epoch ses = int (length (filter is_rekey ops))"
    using pq_create_ok [OF cl kp assms(3)] pq_run_ok [OF cl kp _ assms(4)] by auto
  have ex: "px_sharedSecret ?ex = pq_sharedSecret ses" "px_exitId ?ex = pq_exitId' ses"
    using ok by (simp_all add: pq_ok_def)
  have opens: "px_open cl ?ex (pq_sealSetup cl ses payload e s) = Inr payload" "px_open cl ?ex (pq_seal cl ses data e' s') = Inr data"
    unfolding pq_sealSetup_def pq_seal_def by (rule px_open_sealed [OF cl ex])+
  have rekeyed: "pq_openResponse cl ses' (px_sealResponse cl ?ex reply (pq_epoch ses) s'') = Inr reply"
    "pq_openResponse cl (pq_prunePendingOldEpoch ses') (px_sealResponse cl ?ex reply (pq_epoch ses) s'') = Inl SealNoEpoch"
    if "pq_rekey cl m' x' ses = Inr ses'" for m' x' ses'
  proof -
    note r = pq_rekey_ok [OF cl kp ok that]
    then show "pq_openResponse cl ses' (px_sealResponse cl ?ex reply (pq_epoch ses) s'') = Inr reply"
      by (intro pq_openResponse_pending [OF cl]) (auto simp: pq_ok_def)
    from r show "pq_openResponse cl (pq_prunePendingOldEpoch ses') (px_sealResponse cl ?ex reply (pq_epoch ses) s'') = Inl SealNoEpoch"
      by (intro pq_openResponse_unknown) (auto simp: pq_ok_def pq_prunePendingOldEpoch_def px_sealResponse_fields)
  qed
  have "pq_openResponse cl ses g = Inl SealNoEpoch"
    if "exitId2 g = eid" "version2 g = 2" "epoch2 g \<notin> {pq_epoch ses, pq_epoch ses - 1}" for g
    using that ok by (intro pq_openResponse_unknown) (auto simp: pq_ok_def)
  then show ?thesis
    using count px_create_of_session [OF ok] opens pq_openResponse_current [OF cl ex] rekeyed by blast
qed

theorem pq_session_overlap_witness:
  "\<exists>sk pk start ses. xwingRecipientFromComponentSeeds reference_crypto (replicate 32 1) (replicate 32 2) (replicate 32 3) = Inr (sk, pk) \<and>
     pq_create reference_crypto pk (replicate 16 7) (replicate 32 4) (replicate 32 5) = Inr start \<and>
     pq_run reference_crypto [PqRekey (replicate 32 6) (replicate 32 8), PqPrune] start = Inr ses \<and> pq_epoch ses = 1"
proof -
  note evals = expectBytes_def XWING_X25519_LEN_def Let_def
  have len: "length (replicate 16 x) = 16" "length (replicate 32 x) = 32" for x :: byte by simp_all
  obtain sk pk where kp:
    "xwingRecipientFromComponentSeeds reference_crypto (replicate 32 1) (replicate 32 2) (replicate 32 3) = Inr (sk, pk)"
    by (simp add: xwingRecipientFromComponentSeeds_def xwingRecipientFromParts_def evals)
  have encaps: "\<exists>e. xwingEncapsulate reference_crypto p (replicate 32 a) (replicate 32 b) = Inr e" for p a b
    by (simp add: xwingEncapsulate_def reference_crypto_def evals)
  obtain start where start: "pq_create reference_crypto pk (replicate 16 7) (replicate 32 4) (replicate 32 5) = Inr start"
    using encaps [of pk 4 5] by (auto simp: pq_create_def)
  obtain ses where ses: "pq_run reference_crypto [PqRekey (replicate 32 6) (replicate 32 8), PqPrune] start = Inr ses"
    using encaps [of "pq_recipient start" 6 8] by (auto simp: pq_rekey_def)
  from pq_session_overlap [OF reference_crypto_laws kp start ses] kp start ses show ?thesis by auto
qed

end
