(* ===== verification/Token.thy ===== *)
theory Token
  imports Kem "HOL-Library.Signed_Division"
begin

text \<open>
  Privacy Pass tokens: the blind-RSA client of \<^verbatim>\<open>packages/core/src/edge/token.ts\<close> and the wallet-derived randomness of
  \<^verbatim>\<open>packages/core/src/edge/token-blinding.ts\<close>. A \<^verbatim>\<open>bigint\<close> is an \<open>int\<close>, with the truncating division of JavaScript
  (\<open>sdiv\<close>, \<open>smod\<close>) where the source divides. SHA-256, SHA-384 and HKDF are arguments; a digest of SHA-384 has the 48
  bytes of its definition.
\<close>

datatype token_error = TokenIssuer | TokenRange | TokenNoInverse | TokenDivZero | TokenEncoding

section \<open>Octet strings\<close>

definition os2ip :: "bytes \<Rightarrow> int" where
  "os2ip bs = fold (\<lambda>b n. n * 256 + uint b) bs 0"

fun i2osp_loop :: "nat \<Rightarrow> int \<Rightarrow> bytes \<Rightarrow> bytes \<times> int" where
  "i2osp_loop 0 v out = (out, v)"
| "i2osp_loop (Suc i) v out = i2osp_loop i (v div 256) (word_of_int (v mod 256) # out)"

definition i2osp :: "int \<Rightarrow> nat \<Rightarrow> token_error + bytes" where
  "i2osp n len =
     (case i2osp_loop len n [] of (out, v) \<Rightarrow> if v \<noteq> 0 then Inl TokenRange else Inr out)"

lemma os2ip_append: "os2ip (xs @ ys) = os2ip xs * 256 ^ length ys + os2ip ys"
proof -
  let ?f = "\<lambda>(b :: byte) n. n * 256 + uint b"
  have shift: "fold ?f ys k = k * 256 ^ length ys + fold ?f ys 0" for k
  proof (induction ys arbitrary: k)
    case Nil
    then show ?case by simp
  next
    case (Cons y ys)
    have "fold ?f (y # ys) k = fold ?f ys (k * 256 + uint y)" by simp
    also have "\<dots> = (k * 256 + uint y) * 256 ^ length ys + fold ?f ys 0" by (rule Cons)
    finally have k: "fold ?f (y # ys) k = (k * 256 + uint y) * 256 ^ length ys + fold ?f ys 0" .
    have "fold ?f (y # ys) 0 = fold ?f ys (uint y)" by simp
    also have "\<dots> = uint y * 256 ^ length ys + fold ?f ys 0" by (rule Cons)
    finally have "fold ?f (y # ys) 0 = uint y * 256 ^ length ys + fold ?f ys 0" .
    with k show ?case by (simp only: length_Cons power_Suc algebra_simps)
  qed
  show ?thesis unfolding os2ip_def fold_append o_apply by (rule shift)
qed

lemma os2ip_simps [simp]: "os2ip [] = 0" "os2ip (b # bs) = uint b * 256 ^ length bs + os2ip bs"
  using os2ip_append [of "[b]" bs] by (simp_all add: os2ip_def)

lemma os2ip_bounds: "0 \<le> os2ip bs \<and> os2ip bs < 256 ^ length bs"
proof (induction bs)
  case Nil
  then show ?case by simp
next
  case (Cons b bs)
  have "uint b \<le> 255" using byte_uint(2) [of b] by simp
  then have "uint b * 256 ^ length bs \<le> 255 * 256 ^ length bs" by (intro mult_right_mono) simp_all
  then have "uint b * 256 ^ length bs + os2ip bs < 256 * 256 ^ length bs" using Cons by linarith
  then show ?case using Cons byte_uint(1) [of b] by simp
qed

lemma i2osp_loop_os2ip: "i2osp_loop (length bs) (v * 256 ^ length bs + os2ip bs) out = (bs @ out, v)"
proof (induction bs arbitrary: out rule: rev_induct)
  case Nil
  then show ?case by simp
next
  case (snoc b bs)
  let ?x = "v * 256 ^ length (bs @ [b]) + os2ip (bs @ [b])"
  have x: "?x = (v * 256 ^ length bs + os2ip bs) * 256 + uint b"
    by (simp add: os2ip_append algebra_simps)
  have b: "uint b < 256" "0 \<le> uint b" by (rule byte_uint)+
  have "?x div 256 = v * 256 ^ length bs + os2ip bs" "?x mod 256 = uint b"
    unfolding x using b by (simp_all only: div_mult_self3 mod_mult_self3 div_pos_pos_trivial mod_pos_pos_trivial)
  then show ?case using snoc by (simp del: os2ip_simps)
qed

lemma i2osp_os2ip: "i2osp (os2ip bs) (length bs) = Inr bs"
  using i2osp_loop_os2ip [of bs 0 "[]"] by (simp add: i2osp_def)

lemma i2osp_loop_value:
  "i2osp_loop len v out = (out', w) \<Longrightarrow> \<exists>bs. out' = bs @ out \<and> length bs = len \<and> v = w * 256 ^ len + os2ip bs"
proof (induction len v out arbitrary: out' w rule: i2osp_loop.induct)
  case (1 v out)
  then show ?case by simp
next
  case (2 i v out)
  then obtain bs where bs: "out' = bs @ (word_of_int (v mod 256) # out)" "length bs = i" "v div 256 = w * 256 ^ i + os2ip bs"
    by auto
  have "uint (word_of_int (v mod 256) :: byte) = v mod 256"
    by (simp add: uint_word_of_int mod_mod_trivial)
  then have "v = w * 256 ^ Suc i + os2ip (bs @ [word_of_int (v mod 256)])"
    using bs(3) div_mult_mod_eq [of v 256] by (simp add: os2ip_append algebra_simps)
  with bs show ?case by (intro exI [of _ "bs @ [word_of_int (v mod 256)]"]) simp
qed

lemma i2osp_exact:
  assumes "0 \<le> n" "n < 256 ^ len"
  obtains bs where "i2osp n len = Inr bs" "length bs = len" "os2ip bs = n"
proof -
  obtain out w where loop: "i2osp_loop len n [] = (out, w)" by fastforce
  from i2osp_loop_value [OF loop] have len: "length out = len" and n: "n = w * 256 ^ len + os2ip out" by auto
  have "w = n div 256 ^ len" using n os2ip_bounds [of out] len by simp
  then have "w = 0" using assms by simp
  with loop len n that show thesis by (simp add: i2osp_def)
qed

section \<open>Modular arithmetic\<close>

function modPow_loop :: "int \<Rightarrow> int \<Rightarrow> int \<Rightarrow> int \<Rightarrow> int" where
  "modPow_loop result b e m =
     (if e > 0
      then modPow_loop (if odd e then (result * b) smod m else result) ((b * b) smod m) (e div 2) m
      else result)"
  by pat_completeness auto
termination
  by (relation "measure (\<lambda>(result, b, e, m). nat e)") auto

declare modPow_loop.simps [simp del]

definition modPow :: "int \<Rightarrow> int \<Rightarrow> int \<Rightarrow> token_error + int" where
  "modPow base e m = (if m = 0 then Inl TokenDivZero else Inr (modPow_loop 1 (base smod m) e m))"

function euclid_loop :: "int \<Rightarrow> int \<Rightarrow> int \<Rightarrow> int \<Rightarrow> int \<times> int" where
  "euclid_loop old_r r old_s s =
     (if r \<noteq> 0
      then let q = old_r sdiv r in euclid_loop r (old_r - q * r) s (old_s - q * s)
      else (old_r, old_s))"
  by pat_completeness auto
termination
proof (relation "measure (\<lambda>(old_r, r, old_s, s). nat \<bar>r\<bar>)")
  fix old_r r old_s s q :: int
  assume "r \<noteq> 0" "q = old_r sdiv r"
  then have "\<bar>old_r - q * r\<bar> < \<bar>r\<bar>"
    by (simp add: minus_sdiv_mult_eq_smod smod_int_alt_def abs_mult)
  then show "((r, old_r - q * r, s, old_s - q * s), old_r, r, old_s, s) \<in> measure (\<lambda>(old_r, r, old_s, s). nat \<bar>r\<bar>)"
    by simp
qed simp

declare euclid_loop.simps [simp del]

definition modInverse :: "int \<Rightarrow> int \<Rightarrow> token_error + int" where
  "modInverse a m =
     (if m = 0 then Inl TokenDivZero
      else case euclid_loop ((a smod m + m) smod m) m 1 0 of
        (g, s) \<Rightarrow> if g \<noteq> 1 then Inl TokenNoInverse else Inr ((s smod m + m) smod m))"

lemma modPow_loop_done: "\<not> e > 0 \<Longrightarrow> modPow_loop result b e m = result"
  by (subst modPow_loop.simps) simp

lemma euclid_loop_done [simp]: "euclid_loop old_r 0 old_s s = (old_r, old_s)"
  by (subst euclid_loop.simps) simp

lemma smod_nonneg: "0 \<le> a \<Longrightarrow> 0 < m \<Longrightarrow> a smod m = a mod m" for a m :: int
  by (simp add: smod_mod_positive)

lemma smod_normal:
  fixes a m :: int
  assumes "0 < m"
  shows "(a smod m + m) smod m = a mod m"
proof -
  have "0 \<le> a smod m + m" using smod_int_range [of m a] assms by auto
  moreover have "(a smod m + m) mod m = a mod m"
  proof -
    have "a smod m = a - m * (a sdiv m)" by (simp add: minus_mult_sdiv_eq_smod)
    then show ?thesis by (metis mod_add_self2 mod_diff_eq mod_mult_self1_is_0 diff_zero mod_mod_trivial)
  qed
  ultimately show ?thesis using assms by (simp add: smod_nonneg)
qed

lemma modPow_loop_value:
  assumes "0 < m" "0 \<le> b" "0 \<le> e" "0 \<le> result"
  shows "modPow_loop result b e m mod m = result * b ^ nat e mod m \<and> 0 \<le> modPow_loop result b e m \<and>
    (result < m \<or> odd e \<longrightarrow> modPow_loop result b e m < m)"
  using assms
proof (induction result b e m rule: modPow_loop.induct)
  case (1 result b e m)
  show ?case
  proof (cases "e > 0")
    case False
    then have "modPow_loop result b e m = result" "e = 0"
      using "1.prems" modPow_loop_done [of e result b m] by simp_all
    then show ?thesis using "1.prems" by simp
  next
    case True
    let ?r = "if odd e then (result * b) smod m else result"
    have r: "?r mod m = result * (if odd e then b else 1) mod m" "0 \<le> ?r" "result < m \<or> odd e \<longrightarrow> ?r < m"
      using "1.prems" by (auto simp: smod_nonneg)
    have b: "(b * b) smod m = b * b mod m" using "1.prems" by (simp add: smod_nonneg)
    note IH = "1.IH" [OF True, unfolded b]
    have ih: "modPow_loop ?r (b * b mod m) (e div 2) m mod m = ?r * (b * b mod m) ^ nat (e div 2) mod m"
      "0 \<le> modPow_loop ?r (b * b mod m) (e div 2) m"
      "?r < m \<longrightarrow> modPow_loop ?r (b * b mod m) (e div 2) m < m"
      using IH "1.prems" r(2) by simp_all
    have e: "nat e = 2 * nat (e div 2) + (if odd e then 1 else 0)"
      using True by (auto simp: nat_eq_iff nat_mult_distrib elim!: oddE evenE)
    have "?r * (b * b mod m) ^ nat (e div 2) mod m = ?r mod m * ((b * b) ^ nat (e div 2)) mod m"
      by (metis mod_mult_eq power_mod mod_mult_left_eq)
    also have "\<dots> = result * (if odd e then b else 1) * (b * b) ^ nat (e div 2) mod m"
      unfolding r(1) by (simp add: mod_mult_left_eq)
    also have "\<dots> = result * b ^ nat e mod m"
      by (subst e) (simp add: power_add power_mult power2_eq_square mult.assoc mult.commute mult.left_commute)
    finally have "?r * (b * b mod m) ^ nat (e div 2) mod m = result * b ^ nat e mod m" .
    moreover have "modPow_loop result b e m = modPow_loop ?r (b * b mod m) (e div 2) m"
      by (subst modPow_loop.simps) (simp only: True if_True b)
    ultimately show ?thesis using ih r(3) by presburger
  qed
qed

lemma modPow_value:
  assumes "1 < m" "0 \<le> base" "0 \<le> e"
  shows "modPow base e m = Inr (base ^ nat e mod m)"
proof -
  have "modPow_loop 1 (base mod m) e m = base ^ nat e mod m"
    using modPow_loop_value [of m "base mod m" e 1] assms mod_pos_pos_trivial [of "modPow_loop 1 (base mod m) e m" m]
    by (simp add: power_mod)
  then show ?thesis using assms by (simp add: modPow_def smod_nonneg)
qed

lemma euclid_loop_value:
  assumes "0 \<le> old_r" "0 \<le> r" "m dvd old_r - old_s * a" "m dvd r - s * a"
  shows "case euclid_loop old_r r old_s s of (g, t) \<Rightarrow> g = gcd old_r r \<and> m dvd g - t * a"
  using assms
proof (induction old_r r old_s s rule: euclid_loop.induct)
  case (1 old_r r old_s s)
  show ?case
  proof (cases "r = 0")
    case True
    then show ?thesis using "1.prems" by simp
  next
    case False
    let ?q = "old_r sdiv r"
    have rest: "old_r - ?q * r = old_r mod r" using "1.prems" False by (simp add: minus_sdiv_mult_eq_smod smod_nonneg)
    have "m dvd (old_r - old_s * a) - ?q * (r - s * a)" by (rule dvd_diff [OF "1.prems"(3) dvd_mult [OF "1.prems"(4)]])
    then have "m dvd (old_r - ?q * r) - (old_s - ?q * s) * a" by (simp add: algebra_simps)
    then have "case euclid_loop r (old_r - ?q * r) s (old_s - ?q * s) of (g, t) \<Rightarrow> g = gcd r (old_r - ?q * r) \<and> m dvd g - t * a"
      using "1.IH" [OF _ refl] False "1.prems" rest by simp
    moreover have "gcd r (old_r - ?q * r) = gcd old_r r" unfolding rest by (simp add: gcd_red_int [of old_r r] gcd.commute)
    ultimately show ?thesis using False by (simp add: euclid_loop.simps [of old_r r old_s s] Let_def)
  qed
qed

lemma modInverse_value:
  assumes "0 < m"
  shows "(\<exists>i. modInverse a m = Inr i) \<longleftrightarrow> coprime a m"
    and "modInverse a m = Inr i \<Longrightarrow> 0 \<le> i \<and> i < m \<and> a * i mod m = 1 mod m"
proof -
  obtain g t where loop: "euclid_loop (a mod m) m 1 0 = (g, t)" by fastforce
  have g: "g = gcd a m" "m dvd g - t * a"
  proof -
    have "case euclid_loop (a mod m) m 1 0 of (g, t) \<Rightarrow> g = gcd (a mod m) m \<and> m dvd g - t * (a mod m)"
      by (rule euclid_loop_value) (use assms in simp_all)
    then have "g = gcd (a mod m) m \<and> m dvd g - t * (a mod m)" unfolding loop prod.case .
    moreover have "m dvd t * a - t * (a mod m)" by (simp add: right_diff_distrib [symmetric] minus_mod_eq_mult_div)
    ultimately have "m dvd (g - t * (a mod m)) - (t * a - t * (a mod m))" by (meson dvd_diff)
    then show "m dvd g - t * a" by (simp add: algebra_simps)
    show "g = gcd a m" using \<open>g = gcd (a mod m) m \<and> _\<close> by (simp add: gcd_red_int [of a m] gcd.commute)
  qed
  have inv: "modInverse a m = (if g \<noteq> 1 then Inl TokenNoInverse else Inr (t mod m))"
    using assms loop by (simp add: modInverse_def smod_normal)
  show "(\<exists>i. modInverse a m = Inr i) \<longleftrightarrow> coprime a m"
    unfolding inv g(1) by (simp add: coprime_iff_gcd_eq_1)
  assume i: "modInverse a m = Inr i"
  then have "i = t mod m" "g = 1" unfolding inv by (simp_all split: if_splits)
  moreover have "a * (t mod m) mod m = 1 mod m"
    using g(2) \<open>g = 1\<close> by (metis mod_eq_dvd_iff mod_mult_right_eq mult.commute)
  ultimately show "0 \<le> i \<and> i < m \<and> a * i mod m = 1 mod m" using assms by simp
qed

section \<open>EMSA-PSS\<close>

definition HASH_LEN :: nat where
  "HASH_LEN = 48"

definition MOD_BITS :: nat where
  "MOD_BITS = 2048"

definition AUTHENTICATOR_LEN :: nat where
  "AUTHENTICATOR_LEN = 256"

definition NONCE_LEN :: nat where
  "NONCE_LEN = 32"

definition TOKEN_LEN :: nat where
  "TOKEN_LEN = 354"

definition TOKEN_TYPE_BLIND_RSA :: nat where
  "TOKEN_TYPE_BLIND_RSA = 2"

text \<open>The mask loop; a digest is never empty, so every turn makes progress.\<close>

function mgf1_loop :: "(bytes \<Rightarrow> bytes) \<Rightarrow> bytes \<Rightarrow> nat \<Rightarrow> nat \<Rightarrow> bytes \<Rightarrow> bytes" where
  "mgf1_loop sha384 seed len counter out =
     (let block = sha384 (seed @ writeUInt32BE (counter mod 2 ^ 32))
      in if length out < len \<and> block \<noteq> []
         then mgf1_loop sha384 seed len (counter + 1) (out @ take (min (length block) (len - length out)) block)
         else out)"
  by pat_completeness auto
termination
proof (relation "measure (\<lambda>(sha384, seed, len, counter, out). len - length out)")
  fix sha384 :: "bytes \<Rightarrow> bytes" and seed block out :: bytes and len counter :: nat
  assume "length out < len \<and> block \<noteq> []"
  then have "0 < min (length block) (len - length out)" by simp
  then show "((sha384, seed, len, counter + 1, out @ take (min (length block) (len - length out)) block),
      sha384, seed, len, counter, out) \<in> measure (\<lambda>(sha384, seed, len, counter, out). len - length out)"
    using \<open>length out < len \<and> block \<noteq> []\<close> by (simp add: diff_less_mono2)
qed simp

declare mgf1_loop.simps [simp del]

definition mgf1Sha384 :: "(bytes \<Rightarrow> bytes) \<Rightarrow> bytes \<Rightarrow> nat \<Rightarrow> bytes" where
  "mgf1Sha384 sha384 seed len = mgf1_loop sha384 seed len 0 []"

definition xorBytes :: "bytes \<Rightarrow> bytes \<Rightarrow> bytes" where
  "xorBytes = map2 (\<lambda>a b. a XOR b)"

definition maskFirst :: "byte \<Rightarrow> bytes \<Rightarrow> bytes" where
  "maskFirst m bs = bs[0 := bs ! 0 AND m]"

definition emsaPssEncode :: "(bytes \<Rightarrow> bytes) \<Rightarrow> bytes \<Rightarrow> nat \<Rightarrow> bytes \<Rightarrow> token_error + bytes" where
  "emsaPssEncode sha384 message emBits salt =
     (let emLen = (emBits + 7) div 8;
          sLen = length salt;
          mHash = sha384 message
      in if emLen < HASH_LEN + sLen + 2 then Inl TokenEncoding
         else let mPrime = replicate 8 0 @ mHash @ salt;
                  h = sha384 mPrime;
                  dbLen = emLen - HASH_LEN - 1;
                  db = replicate (dbLen - sLen - 1) 0 @ [0x01] @ salt;
                  dbMask = mgf1Sha384 sha384 h dbLen;
                  clearBits = 8 * emLen - emBits;
                  maskedDb = maskFirst (drop_bit clearBits 0xff) (xorBytes db dbMask)
              in Inr (maskedDb @ h @ [0xbc]))"

definition emsaPssVerify :: "(bytes \<Rightarrow> bytes) \<Rightarrow> bytes \<Rightarrow> bytes \<Rightarrow> nat \<Rightarrow> bool" where
  "emsaPssVerify sha384 message em emBits =
     (let emLen = (emBits + 7) div 8;
          sLen = HASH_LEN;
          mHash = sha384 message;
          dbLen = emLen - HASH_LEN - 1;
          maskedDb = js_slice em 0 dbLen;
          h = js_slice em dbLen (dbLen + HASH_LEN);
          clearBits = 8 * emLen - emBits;
          db = maskFirst (drop_bit clearBits 0xff) (xorBytes maskedDb (mgf1Sha384 sha384 h dbLen));
          salt = drop (dbLen - sLen) db;
          hPrime = sha384 (replicate 8 0 @ mHash @ salt)
      in \<not> emLen < HASH_LEN + sLen + 2 \<and> emLen - 1 < length em \<and> em ! (emLen - 1) = 0xbc \<and>
         maskedDb ! 0 AND push_bit (8 - clearBits) 0xff = 0 \<and>
         take (dbLen - sLen - 1) db = replicate (dbLen - sLen - 1) 0 \<and> db ! (dbLen - sLen - 1) = 0x01 \<and>
         take (length hPrime) h = hPrime)"

lemma length_mgf1_loop:
  assumes "\<And>bs. length (sha384 bs) = 48" and "length out \<le> len"
  shows "length (mgf1_loop sha384 seed len counter out) = len"
  using assms(2)
proof (induction "len - length out" arbitrary: counter out rule: less_induct)
  case less
  let ?block = "sha384 (seed @ writeUInt32BE (counter mod 2 ^ 32))"
  have block: "length ?block = 48" "?block \<noteq> []" using assms(1) by (auto simp flip: length_0_conv)
  show ?case
  proof (cases "length out < len")
    case True
    let ?out = "out @ take (min (length ?block) (len - length out)) ?block"
    have "len - length ?out < len - length out" "length ?out \<le> len" using True block(1) by simp_all
    from less.hyps [OF this] show ?thesis
      by (subst mgf1_loop.simps) (simp only: Let_def True block(2) simp_thms if_True)
  next
    case False
    then show ?thesis using less.prems by (subst mgf1_loop.simps) simp
  qed
qed

lemma length_mgf1 [codec_simps]: "(\<And>bs. length (sha384 bs) = 48) \<Longrightarrow> length (mgf1Sha384 sha384 seed len) = len"
  by (simp add: mgf1Sha384_def length_mgf1_loop)

lemma length_maskFirst [simp]: "length (maskFirst m bs) = length bs"
  by (simp add: maskFirst_def)

lemma length_xorBytes [simp]: "length (xorBytes a b) = min (length a) (length b)"
  by (simp add: xorBytes_def)

lemma xorBytes_cancel: "length a = length b \<Longrightarrow> xorBytes (xorBytes a b) b = a"
  by (induction a b rule: list_induct2) (simp_all add: xorBytes_def xor.assoc)

text \<open>The top bit is the only one cleared, so unmasking gives the data block back.\<close>

lemma unmask_head: "((a XOR m) AND 0x7f XOR m) AND 0x7f = a AND (0x7f :: byte)"
  by (rule bit_eqI) (auto simp: bit_simps)

lemma maskFirst_unmask:
  assumes "length db = length msk" "db \<noteq> []" "db ! 0 = 0"
  shows "maskFirst 0x7f (xorBytes (maskFirst 0x7f (xorBytes db msk)) msk) = db"
proof -
  obtain a as b bs where ab: "db = a # as" "msk = b # bs" "length as = length bs" "a = 0"
    using assms by (cases db; cases msk) auto
  have "xorBytes (xorBytes as bs) bs = as" using ab(3) by (rule xorBytes_cancel)
  then show ?thesis using unmask_head [of 0 b] by (simp add: ab(1,2,4) maskFirst_def xorBytes_def)
qed

lemma pss_masks: "drop_bit (Suc 0) (0xff :: byte) = 0x7f" "push_bit 7 (0xff :: byte) = 0x80"
  by (simp_all add: drop_bit_eq_div push_bit_eq_mult)

lemma emsaPssVerify_2047:
  "emsaPssVerify sha384 message em 2047 \<longleftrightarrow>
     (let maskedDb = js_slice em 0 207; h = js_slice em 207 255;
          db = maskFirst 0x7f (xorBytes maskedDb (mgf1Sha384 sha384 h 207));
          hPrime = sha384 (replicate 8 0 @ sha384 message @ drop 159 db)
      in 255 < length em \<and> em ! 255 = 0xbc \<and> maskedDb ! 0 AND 0x80 = 0 \<and>
         take 158 db = replicate 158 0 \<and> db ! 158 = 1 \<and> take (length hPrime) h = hPrime)"
proof -
  have top: "(32640 :: byte) = 0x80" by simp
  have "b AND 32640 = b AND 0x80" for b :: byte by (simp only: top)
  then show ?thesis using pss_masks unfolding emsaPssVerify_def HASH_LEN_def Let_def by simp
qed

lemma emsaPss_verify_encode:
  assumes "\<And>bs. length (sha384 bs) = 48" and "length salt = 48"
  obtains em where "emsaPssEncode sha384 message 2047 salt = Inr em" "length em = 256" "uint (em ! 0) < 128"
    "emsaPssVerify sha384 message em 2047"
proof -
  define h where "h = sha384 (replicate 8 0 @ sha384 message @ salt)"
  define db where "db = replicate 158 (0 :: byte) @ 1 # salt"
  define msk where "msk = mgf1Sha384 sha384 h 207"
  define masked where "masked = maskFirst 0x7f (xorBytes db msk)"
  define em where "em = masked @ h @ [0xbc]"
  note lens = assms length_mgf1 [OF assms(1)]
  have len: "length db = 207" "length msk = 207" "length masked = 207" "length h = 48" "length em = 256"
    by (simp_all add: em_def masked_def msk_def db_def h_def lens)
  have enc: "emsaPssEncode sha384 message 2047 salt = Inr em"
    using pss_masks by (simp add: emsaPssEncode_def HASH_LEN_def lens Let_def em_def masked_def msk_def db_def h_def)
  have slices: "js_slice em 0 207 = masked" "js_slice em 207 255 = h"
    by (simp_all add: js_slice_def em_def len)
  have unmask: "maskFirst 0x7f (xorBytes masked msk) = db"
    unfolding masked_def by (rule maskFirst_unmask) (use len in \<open>simp_all add: db_def nth_append\<close>)
  have head: "masked ! 0 = xorBytes db msk ! 0 AND 0x7f"
    unfolding masked_def maskFirst_def by (rule nth_list_update_eq) (simp add: len)
  have parts: "drop 159 db = salt" "take 158 db = replicate 158 0" "db ! 158 = 1" "em ! 255 = 0xbc"
    by (simp_all add: db_def em_def nth_append len)
  have "masked ! 0 AND 0x80 = 0" unfolding head by (simp add: and.assoc)
  then have "emsaPssVerify sha384 message em 2047"
    unfolding emsaPssVerify_2047 Let_def slices msk_def [symmetric] unmask parts h_def [symmetric]
    by (simp add: len)
  moreover have "em ! 0 \<le> 0x7f" using head by (simp add: em_def nth_append len word_and_le1)
  then have "uint (em ! 0) < 128" by (simp add: word_le_def)
  ultimately show thesis using enc len(5) that by blast
qed

section \<open>Issuer keys\<close>

record IssuerPublicKey =
  pk_n :: int
  pk_e :: int
  pk_keyId :: bytes

definition issuerPublicKey :: "(bytes \<Rightarrow> bytes) \<Rightarrow> bytes \<Rightarrow> bytes \<Rightarrow> bytes \<Rightarrow> IssuerPublicKey" where
  "issuerPublicKey sha256 n e spki = \<lparr>pk_n = os2ip n, pk_e = os2ip e, pk_keyId = sha256 spki\<rparr>"

text \<open>\<^verbatim>\<open>der[o] ?? 0\<close>, and \<^verbatim>\<open>subarray\<close> with its rule for negative positions.\<close>

definition der_at :: "bytes \<Rightarrow> int \<Rightarrow> byte" where
  "der_at der i = (if 0 \<le> i \<and> i < int (length der) then der ! nat i else 0)"

definition js_subarray :: "bytes \<Rightarrow> int \<Rightarrow> int \<Rightarrow> bytes" where
  "js_subarray bs i j =
     (let len = int (length bs);
          rel = (\<lambda>x. if x < 0 then max (len + x) 0 else min x len)
      in take (nat (rel j - rel i)) (drop (nat (rel i)) bs))"

text \<open>The length loop works on 32-bit signed numbers, as \<^verbatim>\<open><<\<close> and \<^verbatim>\<open>|\<close> do.\<close>

fun tlv_length :: "bytes \<Rightarrow> nat \<Rightarrow> int \<Rightarrow> 32 word \<Rightarrow> 32 word \<times> int" where
  "tlv_length der 0 i len = (len, i)"
| "tlv_length der (Suc k) i len = tlv_length der k (i + 1) (push_bit 8 len OR ucast (der_at der i))"

definition readTlv :: "bytes \<Rightarrow> int \<Rightarrow> byte \<times> int \<times> int" where
  "readTlv der offset =
     (let tag = der_at der offset;
          b = der_at der (offset + 1);
          i = offset + 2
      in if b AND 0x80 \<noteq> 0
         then (case tlv_length der (unat (b AND 0x7f)) i 0 of (len, i') \<Rightarrow> (tag, i', i' + sint len))
         else (tag, i, i + uint b))"

definition strip_zero :: "bytes \<Rightarrow> bytes" where
  "strip_zero a = (if length a > 1 \<and> a ! 0 = 0 then tl a else a)"

definition issuerPublicKeyFromSpki :: "(bytes \<Rightarrow> bytes) \<Rightarrow> bytes \<Rightarrow> token_error + IssuerPublicKey" where
  "issuerPublicKeyFromSpki sha256 spki =
     (case readTlv spki 0 of (_, outerStart, _) \<Rightarrow>
      case readTlv spki outerStart of (_, _, algEnd) \<Rightarrow>
      case readTlv spki algEnd of (bitTag, bitStart, _) \<Rightarrow>
      bindR (guardR (bitTag = 0x03) TokenIssuer) (\<lambda>_.
      case readTlv spki (bitStart + 1) of (_, rsaStart, _) \<Rightarrow>
      case readTlv spki rsaStart of (_, nStart, nEnd) \<Rightarrow>
      case readTlv spki nEnd of (_, eStart, eEnd) \<Rightarrow>
      Inr \<lparr>pk_n = os2ip (strip_zero (js_subarray spki nStart nEnd)), pk_e = os2ip (strip_zero (js_subarray spki eStart eEnd)),
           pk_keyId = sha256 spki\<rparr>))"

section \<open>Challenges\<close>

definition serializeTokenChallenge :: "string \<Rightarrow> bytes option \<Rightarrow> bytes option \<Rightarrow> token_error + bytes" where
  "serializeTokenChallenge issuerName redemptionContext originInfo =
     (let name = utf8ToBytes issuerName;
          rc = (case redemptionContext of Some c \<Rightarrow> c | None \<Rightarrow> []);
          oi = (case originInfo of Some i \<Rightarrow> i | None \<Rightarrow> [])
      in if length rc \<noteq> 0 \<and> length rc \<noteq> 32 then Inl TokenRange
         else Inr (i2osp2 TOKEN_TYPE_BLIND_RSA @ i2osp2 (length name) @ name @ [word_of_nat (length rc)] @ rc
           @ i2osp2 (length oi) @ oi))"

definition tokenChallengeDigest :: "(bytes \<Rightarrow> bytes) \<Rightarrow> string \<Rightarrow> bytes option \<Rightarrow> bytes option \<Rightarrow> token_error + bytes" where
  "tokenChallengeDigest sha256 issuerName redemptionContext originInfo =
     bindR (serializeTokenChallenge issuerName redemptionContext originInfo) (\<lambda>c. Inr (sha256 c))"

definition redemptionContextForEpoch :: "(bytes \<Rightarrow> bytes) \<Rightarrow> string \<Rightarrow> int \<Rightarrow> bytes" where
  "redemptionContextForEpoch sha256 contextLabel epoch = sha256 (utf8ToBytes contextLabel @ beU64 epoch)"

definition challengeDigestForEpoch :: "(bytes \<Rightarrow> bytes) \<Rightarrow> string \<Rightarrow> string \<Rightarrow> int \<Rightarrow> token_error + bytes" where
  "challengeDigestForEpoch sha256 issuerName contextLabel epoch =
     tokenChallengeDigest sha256 issuerName (Some (redemptionContextForEpoch sha256 contextLabel epoch)) None"

section \<open>Blinding and finalization\<close>

text \<open>\<^verbatim>\<open>out.set(a, o)\<close>, which throws when the array does not fit.\<close>

definition js_set :: "bytes \<Rightarrow> bytes \<Rightarrow> nat \<Rightarrow> token_error + bytes" where
  "js_set out a i = (if i + length a > length out then Inl TokenRange else Inr (take i out @ a @ drop (i + length a) out))"

definition buildTokenInput :: "bytes \<Rightarrow> bytes \<Rightarrow> bytes \<Rightarrow> token_error + bytes" where
  "buildTokenInput nonce challengeDigest tokenKeyId =
     bindR (js_set (i2osp2 TOKEN_TYPE_BLIND_RSA @ replicate 96 0) nonce 2) (\<lambda>out.
     bindR (js_set out challengeDigest 34) (\<lambda>out.
     js_set out tokenKeyId 66))"

record TokenClientState =
  ts_rInv :: int
  ts_tokenInput :: bytes
  ts_nonce :: bytes
  ts_challengeDigest :: bytes
  ts_tokenKeyId :: bytes

record blind_opts =
  opt_nonce :: "bytes option"
  opt_blind :: "int option"
  opt_salt :: "bytes option"

text \<open>
  A byte source is a state and a draw; the search for a blinding factor may go on forever (\<open>None\<close>), and a zero
  modulus throws in its first remainder. The byte source after the draws is returned as well.
\<close>

definition coprime_found :: "int \<Rightarrow> int \<Rightarrow> bool" where
  "coprime_found r n \<longleftrightarrow> r > 1 \<and> (case modInverse r n of Inr _ \<Rightarrow> True | Inl _ \<Rightarrow> False)"

partial_function (option) randomCoprime ::
    "int \<Rightarrow> ('r \<Rightarrow> nat \<Rightarrow> bytes \<times> 'r) \<Rightarrow> 'r \<Rightarrow> ((token_error + int) \<times> 'r) option" where
  "randomCoprime n draw st =
     (let bs = fst (draw st AUTHENTICATOR_LEN); st' = snd (draw st AUTHENTICATOR_LEN)
      in if n = 0 then Some (Inl TokenDivZero, st')
         else let r = os2ip bs smod n
              in if coprime_found r n then Some (Inr r, st') else randomCoprime n draw st')"

definition blindWith :: "IssuerPublicKey \<Rightarrow> bytes \<Rightarrow> bytes \<Rightarrow> bytes \<Rightarrow> bytes \<Rightarrow> int \<Rightarrow> token_error + (bytes \<times> TokenClientState)" where
  "blindWith pk tokenInput nonce challengeDigest em r =
     bindR (modInverse r (pk_n pk)) (\<lambda>rInv.
     bindR (modPow r (pk_e pk) (pk_n pk)) (\<lambda>re.
     bindR (i2osp ((os2ip em * re) smod pk_n pk) AUTHENTICATOR_LEN) (\<lambda>blindedRequest.
     Inr (blindedRequest, \<lparr>ts_rInv = rInv, ts_tokenInput = tokenInput, ts_nonce = nonce,
       ts_challengeDigest = challengeDigest, ts_tokenKeyId = pk_keyId pk\<rparr>))))"

definition drawn :: "bytes option \<Rightarrow> ('r \<Rightarrow> nat \<Rightarrow> bytes \<times> 'r) \<Rightarrow> 'r \<Rightarrow> nat \<Rightarrow> bytes \<times> 'r" where
  "drawn given draw st k = (case given of Some bs \<Rightarrow> (bs, st) | None \<Rightarrow> draw st k)"

text \<open>\<open>None\<close> is the search that never ends; the state returned is the byte source after the draws.\<close>

definition blindToken ::
    "(bytes \<Rightarrow> bytes) \<Rightarrow> IssuerPublicKey \<Rightarrow> bytes \<Rightarrow> blind_opts \<Rightarrow> ('r \<Rightarrow> nat \<Rightarrow> bytes \<times> 'r) \<Rightarrow> 'r \<Rightarrow>
       ((token_error + (bytes \<times> TokenClientState)) \<times> 'r) option" where
  "blindToken sha384 pk challengeDigest opts draw st =
     (case drawn (opt_nonce opts) draw st NONCE_LEN of (nonce, st1) \<Rightarrow>
      case drawn (opt_salt opts) draw st1 HASH_LEN of (salt, st2) \<Rightarrow>
      case bindR (buildTokenInput nonce challengeDigest (pk_keyId pk)) (\<lambda>tokenInput.
             bindR (emsaPssEncode sha384 tokenInput (MOD_BITS - 1) salt) (\<lambda>em. Inr (tokenInput, em))) of
        Inl e \<Rightarrow> Some (Inl e, st2)
      | Inr (tokenInput, em) \<Rightarrow>
          (case opt_blind opts of
             Some r \<Rightarrow> Some (blindWith pk tokenInput nonce challengeDigest em r, st2)
           | None \<Rightarrow>
               map_option (\<lambda>(found, st3). (bindR found (blindWith pk tokenInput nonce challengeDigest em), st3))
                 (randomCoprime (pk_n pk) draw st2)))"

record Token =
  tok_nonce :: bytes
  tok_challengeDigest :: bytes
  tok_tokenKeyId :: bytes
  tok_authenticator :: bytes

definition finalizeToken :: "(bytes \<Rightarrow> bytes) \<Rightarrow> IssuerPublicKey \<Rightarrow> bytes \<Rightarrow> TokenClientState \<Rightarrow> token_error + Token" where
  "finalizeToken sha384 pk blindSignature ts =
     bindR (guardR (length blindSignature = AUTHENTICATOR_LEN) TokenIssuer) (\<lambda>_.
     bindR (guardR (pk_n pk \<noteq> 0) TokenDivZero) (\<lambda>_.
     let s = (os2ip blindSignature * ts_rInv ts) smod pk_n pk
     in bindR (i2osp s AUTHENTICATOR_LEN) (\<lambda>sig.
        bindR (modPow s (pk_e pk) (pk_n pk)) (\<lambda>se.
        bindR (i2osp se AUTHENTICATOR_LEN) (\<lambda>em.
        bindR (guardR (emsaPssVerify sha384 (ts_tokenInput ts) em (MOD_BITS - 1)) TokenIssuer) (\<lambda>_.
        Inr \<lparr>tok_nonce = ts_nonce ts, tok_challengeDigest = ts_challengeDigest ts, tok_tokenKeyId = ts_tokenKeyId ts,
             tok_authenticator = sig\<rparr>))))))"

definition Token_serialize :: "Token \<Rightarrow> token_error + bytes" where
  "Token_serialize t =
     bindR (js_set (i2osp2 TOKEN_TYPE_BLIND_RSA @ replicate (TOKEN_LEN - 2) 0) (tok_nonce t) 2) (\<lambda>out.
     bindR (js_set out (tok_challengeDigest t) 34) (\<lambda>out.
     bindR (js_set out (tok_tokenKeyId t) 66) (\<lambda>out.
     js_set out (tok_authenticator t) 98)))"

definition tokenSerial :: "(bytes \<Rightarrow> bytes) \<Rightarrow> bytes \<Rightarrow> bytes option" where
  "tokenSerial sha256 bs =
     (if length bs \<noteq> TOKEN_LEN then None
      else if unat (bs ! 0) * 256 + unat (bs ! 1) \<noteq> TOKEN_TYPE_BLIND_RSA then None
      else Some (sha256 (take 98 bs)))"

section \<open>Wallet-derived randomness\<close>

definition BLINDING_SALT :: bytes where
  "BLINDING_SALT = utf8ToBytes ''warren/token-blinding/v1''"

definition BLINDING_PURPOSE_BROWSER_PROXY :: string where
  "BLINDING_PURPOSE_BROWSER_PROXY = ''browser-proxy/v1''"

definition BLINDING_PURPOSE_SESSION :: string where
  "BLINDING_PURPOSE_SESSION = ''session/v1''"

definition blindingKeyFromSeed :: "(bytes \<Rightarrow> bytes \<Rightarrow> bytes \<Rightarrow> nat \<Rightarrow> bytes) \<Rightarrow> bytes \<Rightarrow> string \<Rightarrow> bytes" where
  "blindingKeyFromSeed hkdf seed purpose = hkdf seed BLINDING_SALT (utf8ToBytes purpose) 32"

definition blinding_info :: "int \<Rightarrow> nat \<Rightarrow> nat \<Rightarrow> bytes" where
  "blinding_info epoch index block = beU64 epoch @ beU32 (int index) @ beU32 (int block)"

text \<open>The draws of one slot; the state is the block counter of the closure.\<close>

function deterministicTokenRandom ::
    "(bytes \<Rightarrow> bytes \<Rightarrow> bytes \<Rightarrow> nat \<Rightarrow> bytes) \<Rightarrow> bytes \<Rightarrow> int \<Rightarrow> nat \<Rightarrow> nat \<Rightarrow> nat \<Rightarrow> bytes \<times> nat" where
  "deterministicTokenRandom hkdf key epoch index block byteLength =
     (if byteLength = 0 then ([], block)
      else let chunk = take (min 32 byteLength) (hkdf key BLINDING_SALT (blinding_info epoch index block) 32)
           in case deterministicTokenRandom hkdf key epoch index (block + 1) (byteLength - 32) of
             (rest, block') \<Rightarrow> (chunk @ rest, block'))"
  by pat_completeness auto
termination
  by (relation "measure (\<lambda>(hkdf, key, epoch, index, block, byteLength). byteLength)") auto

declare deterministicTokenRandom.simps [simp del]

section \<open>Layout\<close>

lemma js_set_fits: "length pre = i \<Longrightarrow> length a \<le> length rest \<Longrightarrow> js_set (pre @ rest) a i = Inr (pre @ a @ drop (length a) rest)"
  by (simp add: js_set_def)

lemma length_i2osp2 [simp]: "length (i2osp2 n) = 2"
  by (simp add: i2osp2_def)

text \<open>Four fields of exact size written one after the other are their concatenation.\<close>

lemma js_set_three:
  assumes "length tt = 2" "length a = 32" "length b = 32" "length c = 32" "length rest = 96 + k"
  shows "bindR (js_set (tt @ rest) a 2) (\<lambda>out. bindR (js_set out b 34) (\<lambda>out. js_set out c 66)) =
    Inr (tt @ a @ b @ c @ drop 96 rest)"
proof -
  have 1: "js_set (tt @ rest) a 2 = Inr (tt @ a @ drop 32 rest)" using assms by (simp add: js_set_fits)
  have 2: "js_set ((tt @ a) @ drop 32 rest) b 34 = Inr ((tt @ a) @ b @ drop 64 rest)" using assms by (subst js_set_fits) simp_all
  have 3: "js_set ((tt @ a @ b) @ drop 64 rest) c 66 = Inr ((tt @ a @ b) @ c @ drop 96 rest)" using assms by (subst js_set_fits) simp_all
  show ?thesis using 1 2 3 by simp
qed

lemma buildTokenInput_exact:
  assumes "length nonce = 32" "length cd = 32" "length kid = 32"
  shows "buildTokenInput nonce cd kid = Inr (i2osp2 TOKEN_TYPE_BLIND_RSA @ nonce @ cd @ kid)"
  using js_set_three [OF length_i2osp2 assms, of "replicate 96 0" 0] by (simp add: buildTokenInput_def)

lemma Token_serialize_exact:
  assumes "length (tok_nonce t) = 32" "length (tok_challengeDigest t) = 32" "length (tok_tokenKeyId t) = 32"
    "length (tok_authenticator t) = 256"
  shows "Token_serialize t = Inr (i2osp2 TOKEN_TYPE_BLIND_RSA @ tok_nonce t @ tok_challengeDigest t @ tok_tokenKeyId t @ tok_authenticator t)"
proof -
  let ?pre = "i2osp2 TOKEN_TYPE_BLIND_RSA @ tok_nonce t @ tok_challengeDigest t @ tok_tokenKeyId t"
  have "Token_serialize t = bindR (bindR (js_set (i2osp2 TOKEN_TYPE_BLIND_RSA @ replicate 352 0) (tok_nonce t) 2)
      (\<lambda>out. bindR (js_set out (tok_challengeDigest t) 34) (\<lambda>out. js_set out (tok_tokenKeyId t) 66)))
      (\<lambda>out. js_set out (tok_authenticator t) 98)"
    by (simp add: Token_serialize_def TOKEN_LEN_def bindR_def split: sum.split)
  also have "\<dots> = js_set (?pre @ replicate 256 0) (tok_authenticator t) 98"
    using js_set_three [OF length_i2osp2 assms(1-3), of "replicate 352 0" 256] by simp
  also have "\<dots> = Inr (?pre @ tok_authenticator t)" using assms by (subst js_set_fits) simp_all
  finally show ?thesis by simp
qed

lemma tokenSerial_serialized:
  assumes "length a = 32" "length b = 32" "length c = 32" "length d = 256"
  shows "tokenSerial sha256 (i2osp2 TOKEN_TYPE_BLIND_RSA @ a @ b @ c @ d) = Some (sha256 (i2osp2 TOKEN_TYPE_BLIND_RSA @ a @ b @ c))"
  using assms by (simp add: tokenSerial_def TOKEN_LEN_def TOKEN_TYPE_BLIND_RSA_def i2osp2_def)

section \<open>Blind signing\<close>

lemma rsa_unblind:
  fixes m r n :: int
  assumes n: "1 < n" and m: "0 \<le> m" "m < n"
    and rsa: "\<And>x. 0 \<le> x \<Longrightarrow> x < n \<Longrightarrow> (x ^ e) ^ d mod n = x"
    and inv: "r * rInv mod n = 1 mod n" and r: "0 \<le> r" "r < n"
  shows "((m * (r ^ e mod n) mod n) ^ d mod n * rInv mod n) ^ e mod n = m"
proof -
  have rsa': "(x ^ e) ^ d mod n = x mod n" for x :: int
  proof -
    have "((x mod n) ^ e) ^ d mod n = x mod n" using rsa [of "x mod n"] n by simp
    then show ?thesis by (metis power_mod)
  qed
  have "(m * (r ^ e mod n) mod n) ^ d mod n = (m * r ^ e) ^ d mod n" by (metis mod_mult_right_eq power_mod)
  also have "\<dots> = m ^ d * (r ^ e) ^ d mod n" by (simp add: power_mult_distrib)
  also have "\<dots> = m ^ d * r mod n" by (metis rsa' mod_mult_right_eq)
  finally have s: "(m * (r ^ e mod n) mod n) ^ d mod n * rInv mod n = m ^ d * (r * rInv) mod n"
    by (metis mod_mult_left_eq mult.assoc)
  have "m ^ d * (r * rInv) mod n = m ^ d * (1 mod n) mod n" using inv by (metis mod_mult_right_eq)
  then have "m ^ d * (r * rInv) mod n = m ^ d mod n" by (simp add: mod_mult_right_eq)
  then have "((m * (r ^ e mod n) mod n) ^ d mod n * rInv mod n) ^ e mod n = (m ^ d mod n) ^ e mod n" by (simp only: s)
  also have "\<dots> = (m ^ e) ^ d mod n" by (simp add: power_mod power_mult [symmetric] mult.commute)
  also have "\<dots> = m" using rsa m by simp
  finally show ?thesis .
qed

text \<open>What an issuer key has to satisfy: a 2048-bit modulus and an exponent pair that undo each other.\<close>

definition rsa_key :: "IssuerPublicKey \<Rightarrow> nat \<Rightarrow> bool" where
  "rsa_key pk d \<longleftrightarrow> 2 ^ 2047 \<le> pk_n pk \<and> pk_n pk < 2 ^ 2048 \<and> 0 \<le> pk_e pk \<and> length (pk_keyId pk) = 32 \<and>
     (\<forall>x. 0 \<le> x \<and> x < pk_n pk \<longrightarrow> (x ^ nat (pk_e pk)) ^ d mod pk_n pk = x)"

lemma i2osp_mod:
  assumes "1 < n" "n < 2 ^ 2048"
  obtains bs where "i2osp (x mod n) 256 = Inr bs" "length bs = 256" "os2ip bs = x mod n"
proof -
  have "(256 :: int) ^ 256 = 2 ^ 2048" by simp
  then have "n < 256 ^ 256" using assms(2) by argo
  then have "x mod n < 256 ^ 256" using pos_mod_bound [of n x] assms(1) by linarith
  then show thesis using i2osp_exact [of "x mod n" 256] that assms(1) by (metis less_trans pos_mod_sign zero_less_one)
qed

lemma blindWith_value:
  assumes "1 < pk_n pk" "pk_n pk < 2 ^ 2048" "0 \<le> pk_e pk" "0 \<le> r" "blindWith pk ti nonce cd em r = Inr (breq, ts)"
  shows "length breq = 256" and "os2ip breq = os2ip em * (r ^ nat (pk_e pk) mod pk_n pk) mod pk_n pk"
    and "r * ts_rInv ts mod pk_n pk = 1 mod pk_n pk" "0 \<le> ts_rInv ts"
    and "ts_tokenInput ts = ti" "ts_nonce ts = nonce" "ts_challengeDigest ts = cd" "ts_tokenKeyId ts = pk_keyId pk"
proof -
  let ?v = "os2ip em * (r ^ nat (pk_e pk) mod pk_n pk) mod pk_n pk"
  have pow: "modPow r (pk_e pk) (pk_n pk) = Inr (r ^ nat (pk_e pk) mod pk_n pk)" using assms by (simp add: modPow_value)
  have v: "(os2ip em * (r ^ nat (pk_e pk) mod pk_n pk)) smod pk_n pk = ?v"
    using assms(1) os2ip_bounds [of em] by (intro smod_nonneg) simp_all
  obtain bs where bs: "i2osp ?v 256 = Inr bs" "length bs = 256" "os2ip bs = ?v"
    using i2osp_mod [OF assms(1,2)] by blast
  obtain rInv where rInv: "modInverse r (pk_n pk) = Inr rInv"
    using assms(5) by (auto simp: blindWith_def bindR_eq_Inr_conv)
  have ts: "breq = bs" "ts = \<lparr>ts_rInv = rInv, ts_tokenInput = ti, ts_nonce = nonce, ts_challengeDigest = cd, ts_tokenKeyId = pk_keyId pk\<rparr>"
    using assms(5) by (simp_all add: blindWith_def rInv pow v AUTHENTICATOR_LEN_def bs(1))
  show "length breq = 256" "os2ip breq = ?v" using bs ts by simp_all
  show "r * ts_rInv ts mod pk_n pk = 1 mod pk_n pk" "0 \<le> ts_rInv ts"
    using modInverse_value(2) [OF _ rInv] assms(1) ts by simp_all
  show "ts_tokenInput ts = ti" "ts_nonce ts = nonce" "ts_challengeDigest ts = cd" "ts_tokenKeyId ts = pk_keyId pk" by (simp_all add: ts)
qed

lemma finalize_signed:
  assumes key: "rsa_key pk d" and sha: "\<And>bs. length (sha384 bs) = 48"
    and em: "emsaPssVerify sha384 ti em 2047" "length em = 256" "os2ip em < pk_n pk"
    and blind: "blindWith pk ti nonce cd em r = Inr (breq, ts)" "0 \<le> r" "r < pk_n pk"
    and bsig: "i2osp (os2ip breq ^ d mod pk_n pk) 256 = Inr bsig"
  shows "\<exists>t. finalizeToken sha384 pk bsig ts = Inr t \<and> tok_nonce t = nonce \<and> tok_challengeDigest t = cd \<and>
    tok_tokenKeyId t = pk_keyId pk \<and> length (tok_authenticator t) = 256 \<and>
    os2ip (tok_authenticator t) ^ nat (pk_e pk) mod pk_n pk = os2ip em"
proof -
  have "(1 :: int) < 2 ^ 2047" by (rule one_less_power) simp_all
  then have n: "1 < pk_n pk" "pk_n pk < 2 ^ 2048" "0 \<le> pk_e pk" using key unfolding rsa_key_def by linarith+
  note b = blindWith_value [OF n blind(2) blind(1)]
  let ?s = "os2ip breq ^ d mod pk_n pk * ts_rInv ts mod pk_n pk"
  obtain bs where "i2osp (os2ip breq ^ d mod pk_n pk) 256 = Inr bs" "length bs = 256" "os2ip bs = os2ip breq ^ d mod pk_n pk"
    using i2osp_mod [OF n(1,2)] by blast
  then have bsig': "length bsig = 256" "os2ip bsig = os2ip breq ^ d mod pk_n pk" using bsig by simp_all
  have s: "(os2ip bsig * ts_rInv ts) smod pk_n pk = ?s"
    using b(4) n(1) bsig'(2) by (subst smod_nonneg) simp_all
  obtain sig where sig: "i2osp ?s 256 = Inr sig" "length sig = 256" "os2ip sig = ?s" using i2osp_mod [OF n(1,2)] by blast
  have se: "?s ^ nat (pk_e pk) mod pk_n pk = os2ip em"
    unfolding b(2) by (rule rsa_unblind) (use n em(3) os2ip_bounds [of em] key b(3) blind(2,3) in \<open>simp_all add: rsa_key_def\<close>)
  have pow: "modPow ?s (pk_e pk) (pk_n pk) = Inr (os2ip em)" using modPow_value [OF n(1) _ n(3), of ?s] n(1) se by simp
  have again: "i2osp (os2ip em) 256 = Inr em" using i2osp_os2ip [of em] em(2) by simp
  have "finalizeToken sha384 pk bsig ts = Inr \<lparr>tok_nonce = nonce, tok_challengeDigest = cd, tok_tokenKeyId = pk_keyId pk, tok_authenticator = sig\<rparr>"
    using n(1) by (simp add: finalizeToken_def Let_def AUTHENTICATOR_LEN_def MOD_BITS_def s sig(1) pow again bsig'(1) b(5-) em(1))
  then show ?thesis using sig se by simp
qed

section \<open>The search for a blinding factor\<close>

fun nth_draw :: "('r \<Rightarrow> nat \<Rightarrow> bytes \<times> 'r) \<Rightarrow> 'r \<Rightarrow> nat \<Rightarrow> bytes \<times> 'r" where
  "nth_draw draw st 0 = draw st AUTHENTICATOR_LEN"
| "nth_draw draw st (Suc k) = nth_draw draw (snd (draw st AUTHENTICATOR_LEN)) k"

text \<open>The draw after \<open>k\<close> others reduces to a unit of the ring modulo \<open>n\<close> other than one: what can blind a message.\<close>

definition unit_draw :: "int \<Rightarrow> ('r \<Rightarrow> nat \<Rightarrow> bytes \<times> 'r) \<Rightarrow> 'r \<Rightarrow> nat \<Rightarrow> bool" where
  "unit_draw n draw st k \<longleftrightarrow>
     (let r = os2ip (fst (nth_draw draw st k)) mod n in 1 < r \<and> r < n \<and> coprime r n)"

lemma coprime_found_iff: "0 < n \<Longrightarrow> coprime_found r n \<longleftrightarrow> 1 < r \<and> coprime r n"
  using modInverse_value(1) [of n r] by (auto simp: coprime_found_def split: sum.splits)

lemma unit_draw_found: "0 < n \<Longrightarrow> unit_draw n draw st k \<longleftrightarrow> coprime_found (os2ip (fst (nth_draw draw st k)) smod n) n"
  using os2ip_bounds [of "fst (nth_draw draw st k)"] by (simp add: unit_draw_def Let_def coprime_found_iff smod_nonneg)

lemma randomCoprime_first:
  assumes "0 < n" and "unit_draw n draw st k" and "\<forall>j < k. \<not> unit_draw n draw st j"
  shows "randomCoprime n draw st = Some (Inr (os2ip (fst (nth_draw draw st k)) mod n), snd (nth_draw draw st k))"
  using assms(2,3)
proof (induction k arbitrary: st)
  case 0
  have "os2ip bs smod n = os2ip bs mod n" for bs using os2ip_bounds [of bs] assms(1) by (intro smod_nonneg) simp_all
  with 0 assms(1) show ?case by (subst randomCoprime.simps) (simp add: unit_draw_found)
next
  case (Suc k)
  have "\<not> unit_draw n draw st 0" using Suc.prems(2) by blast
  moreover have "unit_draw n draw (snd (draw st AUTHENTICATOR_LEN)) k" using Suc.prems(1) by (simp add: unit_draw_def)
  moreover have "\<forall>j < k. \<not> unit_draw n draw (snd (draw st AUTHENTICATOR_LEN)) j"
  proof (intro allI impI)
    fix j assume "j < k"
    then have "\<not> unit_draw n draw st (Suc j)" using Suc.prems(2) by blast
    then show "\<not> unit_draw n draw (snd (draw st AUTHENTICATOR_LEN)) j" by (simp add: unit_draw_def)
  qed
  ultimately show ?case using Suc.IH assms(1) by (subst randomCoprime.simps) (simp add: unit_draw_found)
qed

lemma randomCoprime_result:
  assumes "randomCoprime n draw st = Some y"
  shows "n \<noteq> 0 \<longrightarrow> (\<exists>k. coprime_found (os2ip (fst (nth_draw draw st k)) smod n) n)"
  using assms
proof (rule randomCoprime.raw_induct [rotated,
    where P = "\<lambda>n draw st y. n \<noteq> 0 \<longrightarrow> (\<exists>k. coprime_found (os2ip (fst (nth_draw draw st k)) smod n) n)"])
  fix self :: "int \<Rightarrow> ('a \<Rightarrow> nat \<Rightarrow> bytes \<times> 'a) \<Rightarrow> 'a \<Rightarrow> ((token_error + int) \<times> 'a) option" and n draw st y
  assume IH: "\<And>n draw st y. self n draw st = Some y \<Longrightarrow>
      n \<noteq> 0 \<longrightarrow> (\<exists>k. coprime_found (os2ip (fst (nth_draw draw st k)) smod n) n)"
    and step: "(let bs = fst (draw st AUTHENTICATOR_LEN); st' = snd (draw st AUTHENTICATOR_LEN)
      in if n = 0 then Some (Inl TokenDivZero, st')
         else let r = os2ip bs smod n in if coprime_found r n then Some (Inr r, st') else self n draw st') = Some y"
  show "n \<noteq> 0 \<longrightarrow> (\<exists>k. coprime_found (os2ip (fst (nth_draw draw st k)) smod n) n)"
  proof (cases "n = 0 \<or> coprime_found (os2ip (fst (nth_draw draw st 0)) smod n) n")
    case False
    then have "self n draw (snd (draw st AUTHENTICATOR_LEN)) = Some y" using step by (simp add: Let_def)
    from IH [OF this] False obtain k where
      "coprime_found (os2ip (fst (nth_draw draw (snd (draw st AUTHENTICATOR_LEN)) k)) smod n) n" by blast
    then show ?thesis by (intro impI exI [of _ "Suc k"]) simp
  qed blast
qed

lemma first_unit_draw:
  assumes "unit_draw n draw st k"
  obtains i where "unit_draw n draw st i" "\<forall>j < i. \<not> unit_draw n draw st j"
  using assms LeastI [of "unit_draw n draw st"] not_less_Least [of _ "unit_draw n draw st"] by metis

lemma randomCoprime_search:
  assumes "0 < n" and "randomCoprime n draw st = Some y"
  obtains k where "unit_draw n draw st k" "\<forall>j < k. \<not> unit_draw n draw st j"
    "y = (Inr (os2ip (fst (nth_draw draw st k)) mod n), snd (nth_draw draw st k))"
proof -
  from randomCoprime_result [OF assms(2)] assms(1) obtain k where "unit_draw n draw st k" by (auto simp: unit_draw_found)
  then obtain i where i: "unit_draw n draw st i" "\<forall>j < i. \<not> unit_draw n draw st j" by (rule first_unit_draw)
  show thesis by (rule that [OF i]) (use randomCoprime_first [OF assms(1) i] assms(2) in simp)
qed

lemma randomCoprime_returns:
  assumes "0 < n" and "unit_draw n draw st k"
  shows "randomCoprime n draw st \<noteq> None"
proof -
  from assms(2) obtain i where "unit_draw n draw st i" "\<forall>j < i. \<not> unit_draw n draw st j" by (rule first_unit_draw)
  from randomCoprime_first [OF assms(1) this] show ?thesis by simp
qed

text \<open>
  C40. The rejection sampling of the blinding factor, for a positive modulus: when it ends, what it returns is the
  reduction of the first draw of the byte source that is above one and coprime to the modulus, and it consumed
  exactly the draws up to that one; and it goes on forever only when no draw of the source is such.
\<close>

theorem randomCoprime_terminates:
  assumes "0 < n"
  shows "case randomCoprime n draw st of
      None \<Rightarrow> \<forall>k. \<not> (let r = os2ip (fst (nth_draw draw st k)) mod n in 1 < r \<and> coprime r n)
    | Some (found, st') \<Rightarrow> \<exists>k r. r = os2ip (fst (nth_draw draw st k)) mod n \<and> 1 < r \<and> r < n \<and> coprime r n \<and>
        (\<forall>j < k. let q = os2ip (fst (nth_draw draw st j)) mod n in q \<le> 1 \<or> \<not> coprime q n) \<and>
        found = Inr r \<and> st' = snd (nth_draw draw st k)"
proof (cases "randomCoprime n draw st")
  case None
  then have "\<not> unit_draw n draw st k" for k using randomCoprime_returns [OF assms, of draw st k] by auto
  with None assms show ?thesis by (simp add: unit_draw_def Let_def)
next
  case (Some y)
  from randomCoprime_search [OF assms Some] obtain k where
    k: "unit_draw n draw st k" "\<forall>j < k. \<not> unit_draw n draw st j"
      "y = (Inr (os2ip (fst (nth_draw draw st k)) mod n), snd (nth_draw draw st k))" .
  from k(2) assms have "\<forall>j < k. let q = os2ip (fst (nth_draw draw st j)) mod n in q \<le> 1 \<or> \<not> coprime q n"
    by (auto simp: unit_draw_def Let_def not_less)
  with k(1,3) Some show ?thesis by (auto simp: unit_draw_def Let_def)
qed

text \<open>A byte source that counts: the draws from 5 on are 5, 6, 7 modulo 15, and the first unit among them is 7.\<close>

definition counting_draw :: "nat \<Rightarrow> nat \<Rightarrow> bytes \<times> nat" where
  "counting_draw st k = (replicate (k - 1) 0 @ [word_of_nat st], st + 1)"

lemma os2ip_zeros: "os2ip (replicate k 0) = 0"
  by (induction k) simp_all

lemma counting_draw_value:
  "st < 256 \<Longrightarrow> os2ip (fst (counting_draw st AUTHENTICATOR_LEN)) = int st" "snd (counting_draw st k) = st + 1"
  by (simp_all add: counting_draw_def os2ip_append os2ip_zeros unsigned_of_nat take_bit_nat_eq_self)

theorem randomCoprime_terminates_witness:
  "randomCoprime 15 counting_draw 5 = Some (Inr 7, 8)"
proof -
  have draws: "os2ip (fst (nth_draw counting_draw 5 0)) = 5" "os2ip (fst (nth_draw counting_draw 5 1)) = 6"
    "os2ip (fst (nth_draw counting_draw 5 2)) = 7" "snd (nth_draw counting_draw 5 2) = 8"
    by (simp_all add: counting_draw_value numeral_2_eq_2)
  have units: "coprime (7 :: int) 15" "\<not> coprime (6 :: int) 15" "\<not> coprime (5 :: int) 15"
    by code_simp+
  note search = randomCoprime_terminates [of 15 counting_draw 5, simplified]
  show ?thesis
  proof (cases "randomCoprime 15 counting_draw 5")
    case None
    with search have "\<not> (1 < os2ip (fst (nth_draw counting_draw 5 2)) mod 15 \<and> coprime (os2ip (fst (nth_draw counting_draw 5 2)) mod 15) 15)"
      by (simp add: Let_def)
    with draws units show ?thesis by simp
  next
    case (Some y)
    then obtain found st' where y: "y = (found, st')" by (cases y)
    with search Some obtain k r where k: "r = os2ip (fst (nth_draw counting_draw 5 k)) mod 15" "1 < r" "coprime r 15"
      "\<forall>j < k. let q = os2ip (fst (nth_draw counting_draw 5 j)) mod 15 in q \<le> 1 \<or> \<not> coprime q 15"
      "found = Inr r" "st' = snd (nth_draw counting_draw 5 k)" by auto
    have "k = 2"
    proof (rule ccontr)
      assume "k \<noteq> 2"
      then consider "k = 0" | "k = 1" | "2 < k" by linarith
      then show False using k(1,3) k(4) [rule_format, of 2] draws units by cases (simp_all add: Let_def)
    qed
    with k draws y Some show ?thesis by simp
  qed
qed

section \<open>Issued tokens\<close>

lemma os2ip_small_head: "length bs = 256 \<Longrightarrow> uint (bs ! 0) < 128 \<Longrightarrow> os2ip bs < 2 ^ 2047"
proof -
  assume len: "length bs = 256" and hd: "uint (bs ! 0) < 128"
  then obtain b r where bs: "bs = b # r" "length r = 255" by (cases bs) auto
  have "uint b * 256 ^ 255 \<le> 127 * 256 ^ 255" using hd bs(1) by (intro mult_right_mono) simp_all
  then have "os2ip bs < 128 * 256 ^ 255" using os2ip_bounds [of r] bs by simp
  also have "(128 :: int) * 256 ^ 255 = 2 ^ 2047" by simp
  finally show ?thesis .
qed

lemma blindToken_parts:
  assumes b: "blindToken sha384 pk cd \<lparr>opt_nonce = None, opt_blind = blind, opt_salt = None\<rparr> draw st = Some (Inr (breq, ts), st')"
    and "1 < pk_n pk" and draws: "\<And>st k. length (fst (draw st k)) = k"
    and r: "\<And>r. blind = Some r \<Longrightarrow> 0 \<le> r \<and> r < pk_n pk"
    and len: "length cd = 32" "length (pk_keyId pk) = 32"
  obtains nonce salt em r where "length nonce = 32" "length salt = 48"
    "emsaPssEncode sha384 (i2osp2 TOKEN_TYPE_BLIND_RSA @ nonce @ cd @ pk_keyId pk) 2047 salt = Inr em"
    "blindWith pk (i2osp2 TOKEN_TYPE_BLIND_RSA @ nonce @ cd @ pk_keyId pk) nonce cd em r = Inr (breq, ts)" "0 \<le> r" "r < pk_n pk"
proof -
  obtain nonce st1 where d1: "draw st 32 = (nonce, st1)" by fastforce
  obtain salt st2 where d2: "draw st1 48 = (salt, st2)" by fastforce
  have lens: "length nonce = 32" "length salt = 48" using draws [of st 32] draws [of st1 48] d1 d2 by simp_all
  let ?ti = "i2osp2 TOKEN_TYPE_BLIND_RSA @ nonce @ cd @ pk_keyId pk"
  have ti: "buildTokenInput nonce cd (pk_keyId pk) = Inr ?ti" using lens(1) len by (rule buildTokenInput_exact)
  note s = drawn_def NONCE_LEN_def HASH_LEN_def MOD_BITS_def d1 d2 ti
  obtain em where em: "emsaPssEncode sha384 ?ti 2047 salt = Inr em"
    using b by (cases "emsaPssEncode sha384 ?ti 2047 salt") (simp_all add: blindToken_def s)
  have "\<exists>r. blindWith pk ?ti nonce cd em r = Inr (breq, ts) \<and> 0 \<le> r \<and> r < pk_n pk"
  proof (cases blind)
    case (Some r)
    then show ?thesis using b assms(4) [OF Some] by (auto simp: blindToken_def s em)
  next
    case None
    then obtain found st3 where c: "randomCoprime (pk_n pk) draw st2 = Some (found, st3)"
      "bindR found (blindWith pk ?ti nonce cd em) = Inr (breq, ts)"
      using b by (auto simp: blindToken_def s em)
    have "0 < pk_n pk" using assms(2) by simp
    from this c(1) obtain k where "unit_draw (pk_n pk) draw st2 k"
      "found = Inr (os2ip (fst (nth_draw draw st2 k)) mod pk_n pk)" by (rule randomCoprime_search) simp
    then obtain r where "found = Inr r" "0 \<le> r" "r < pk_n pk" by (auto simp: unit_draw_def Let_def)
    with c(2) show ?thesis by (intro exI [of _ r]) simp
  qed
  with em lens that show thesis by blast
qed

lemma blind_token_issues:
  assumes key: "rsa_key pk d" and sha: "\<And>bs. length (sha384 bs) = 48" and draws: "\<And>st k. length (fst (draw st k)) = k"
    and cd: "length cd = 32" and r: "\<And>r. blind = Some r \<Longrightarrow> 0 \<le> r \<and> r < pk_n pk"
    and b: "blindToken sha384 pk cd \<lparr>opt_nonce = None, opt_blind = blind, opt_salt = None\<rparr> draw st = Some (Inr (breq, ts), st')"
    and bsig: "i2osp (os2ip breq ^ d mod pk_n pk) 256 = Inr bsig"
  shows "\<exists>t bs em. finalizeToken sha384 pk bsig ts = Inr t \<and> Token_serialize t = Inr bs \<and> length bs = 354 \<and>
    take 98 bs = ts_tokenInput ts \<and> tokenSerial sha256 bs = Some (sha256 (ts_tokenInput ts)) \<and>
    os2ip (drop 98 bs) ^ nat (pk_e pk) mod pk_n pk = os2ip em \<and> emsaPssVerify sha384 (ts_tokenInput ts) em 2047"
proof -
  have "(1 :: int) < 2 ^ 2047" by (rule one_less_power) simp_all
  then have n: "1 < pk_n pk" "pk_n pk < 2 ^ 2048" "0 \<le> pk_e pk" "2 ^ 2047 \<le> pk_n pk" "length (pk_keyId pk) = 32"
    using key unfolding rsa_key_def by linarith+
  obtain nonce salt em r where p: "length nonce = 32" "length salt = 48"
    "emsaPssEncode sha384 (i2osp2 TOKEN_TYPE_BLIND_RSA @ nonce @ cd @ pk_keyId pk) 2047 salt = Inr em"
    "blindWith pk (i2osp2 TOKEN_TYPE_BLIND_RSA @ nonce @ cd @ pk_keyId pk) nonce cd em r = Inr (breq, ts)" "0 \<le> r" "r < pk_n pk"
    using blindToken_parts [OF b n(1) draws r cd n(5)] by blast
  let ?ti = "i2osp2 TOKEN_TYPE_BLIND_RSA @ nonce @ cd @ pk_keyId pk"
  have em: "length em = 256" "uint (em ! 0) < 128" "emsaPssVerify sha384 ?ti em 2047"
    using emsaPss_verify_encode [of sha384 salt ?ti] sha p(2,3) by (metis Inr_inject)+
  have small: "os2ip em < pk_n pk" using os2ip_small_head [OF em(1,2)] n(4) by linarith
  obtain t where t: "finalizeToken sha384 pk bsig ts = Inr t" "tok_nonce t = nonce" "tok_challengeDigest t = cd"
    "tok_tokenKeyId t = pk_keyId pk" "length (tok_authenticator t) = 256"
    "os2ip (tok_authenticator t) ^ nat (pk_e pk) mod pk_n pk = os2ip em"
    using finalize_signed [OF key sha em(3,1) small p(4-6) bsig] by blast
  have ti: "ts_tokenInput ts = ?ti" by (rule blindWith_value(5) [OF n(1-3) p(5,4)])
  let ?bs = "i2osp2 TOKEN_TYPE_BLIND_RSA @ nonce @ cd @ pk_keyId pk @ tok_authenticator t"
  have ser: "Token_serialize t = Inr ?bs" using Token_serialize_exact [of t] t p(1) cd n(5) by simp
  have serial: "tokenSerial sha256 ?bs = Some (sha256 ?ti)"
    by (rule tokenSerial_serialized [OF p(1) cd n(5) t(5)])
  have "length ?bs = 354" "take 98 ?bs = ?ti" "drop 98 ?bs = tok_authenticator t" using p(1) cd n(5) t(5) by simp_all
  with t(1,6) ser serial em(3) ti show ?thesis by metis
qed

text \<open>
  C26. Blind issuance works: when the issuer raises the blinded request to its private exponent, finalization unblinds it
  into a token that serializes to 354 bytes, starts with the token input, has the redemption serial of that
  input, and whose authenticator is a valid RSASSA-PSS signature of the input under the issuer's public key.
\<close>

theorem blind_token_issued:
  assumes key: "rsa_key pk d" and sha: "\<And>bs. length (sha384 bs) = 48" and draws: "\<And>st k. length (fst (draw st k)) = k"
    and cd: "length cd = 32" and r: "\<And>r. blind = Some r \<Longrightarrow> 0 \<le> r \<and> r < pk_n pk"
    and b: "blindToken sha384 pk cd \<lparr>opt_nonce = None, opt_blind = blind, opt_salt = None\<rparr> draw st = Some (Inr (breq, ts), st')"
    and bsig: "i2osp (os2ip breq ^ d mod pk_n pk) 256 = Inr bsig"
  shows "\<exists>t bs em. finalizeToken sha384 pk bsig ts = Inr t \<and> Token_serialize t = Inr bs \<and> length bs = 354 \<and>
    take 98 bs = ts_tokenInput ts \<and> tokenSerial sha256 bs = Some (sha256 (ts_tokenInput ts)) \<and>
    os2ip (drop 98 bs) ^ nat (pk_e pk) mod pk_n pk = os2ip em \<and> emsaPssVerify sha384 (ts_tokenInput ts) em 2047"
  by (rule blind_token_issues [OF key sha draws cd r b bsig])

definition sample_key :: IssuerPublicKey where
  "sample_key = \<lparr>pk_n = 2 ^ 2048 - 1, pk_e = 1, pk_keyId = replicate 32 6\<rparr>"

definition sample_draw :: "nat \<Rightarrow> nat \<Rightarrow> bytes \<times> nat" where
  "sample_draw st k = (replicate k (word_of_nat st), st + 1)"

lemma sample_key_rsa: "rsa_key sample_key 1"
proof -
  have "(2 :: int) ^ 2048 = 2 * 2 ^ 2047" by simp
  moreover have "(1 :: int) \<le> 2 ^ 2047" by simp
  ultimately have "(2 :: int) ^ 2047 \<le> 2 ^ 2048 - 1" by linarith
  then show ?thesis by (simp add: rsa_key_def sample_key_def)
qed

lemma blindWith_returns:
  assumes "1 < pk_n pk" "pk_n pk < 2 ^ 2048" "0 \<le> pk_e pk" "0 \<le> r" "coprime r (pk_n pk)"
  shows "\<exists>breq ts. blindWith pk ti nonce cd em r = Inr (breq, ts)"
proof -
  obtain rInv where "modInverse r (pk_n pk) = Inr rInv" using modInverse_value(1) [of "pk_n pk" r] assms by auto
  moreover have "(os2ip em * (r ^ nat (pk_e pk) mod pk_n pk)) smod pk_n pk = os2ip em * (r ^ nat (pk_e pk) mod pk_n pk) mod pk_n pk"
    using assms(1) os2ip_bounds [of em] by (intro smod_nonneg) simp_all
  moreover obtain bs where "i2osp (os2ip em * (r ^ nat (pk_e pk) mod pk_n pk) mod pk_n pk) 256 = Inr bs"
    using i2osp_mod [OF assms(1,2)] by blast
  ultimately show ?thesis using assms by (simp add: blindWith_def modPow_value AUTHENTICATOR_LEN_def)
qed

lemma sample_blinding:
  "\<exists>breq ts st'. blindToken (\<lambda>_. replicate 48 5) sample_key (replicate 32 9)
     \<lparr>opt_nonce = None, opt_blind = Some 2, opt_salt = None\<rparr> sample_draw 0 = Some (Inr (breq, ts), st')"
proof -
  let ?sha = "\<lambda>_ :: bytes. replicate 48 (5 :: byte)" and ?n = "replicate 32 (0 :: byte)" and ?s = "replicate 48 (1 :: byte)"
  let ?ti = "i2osp2 TOKEN_TYPE_BLIND_RSA @ ?n @ replicate 32 9 @ pk_keyId sample_key"
  have ti: "buildTokenInput ?n (replicate 32 9) (pk_keyId sample_key) = Inr ?ti"
    by (rule buildTokenInput_exact) (simp_all add: sample_key_def)
  obtain em where em: "emsaPssEncode ?sha ?ti 2047 ?s = Inr em"
    using emsaPss_verify_encode [of ?sha ?s ?ti] by auto
  have "coprime 2 (pk_n sample_key)" by (simp add: sample_key_def)
  moreover have "1 < pk_n sample_key" "pk_n sample_key < 2 ^ 2048" "0 \<le> pk_e sample_key" by (simp_all add: sample_key_def)
  ultimately obtain breq ts where "blindWith sample_key ?ti ?n (replicate 32 9) em 2 = Inr (breq, ts)"
    using blindWith_returns [of sample_key 2 ?ti ?n "replicate 32 9" em] by force
  then show ?thesis
    using ti em by (simp add: blindToken_def drawn_def sample_draw_def NONCE_LEN_def HASH_LEN_def MOD_BITS_def)
qed

theorem blind_token_issued_witness:
  "\<exists>breq ts bsig t bs. i2osp (os2ip breq ^ 1 mod pk_n sample_key) 256 = Inr bsig \<and>
     finalizeToken (\<lambda>_. replicate 48 5) sample_key bsig ts = Inr t \<and> Token_serialize t = Inr bs \<and> length bs = 354"
proof -
  obtain breq ts st' where b: "blindToken (\<lambda>_. replicate 48 5) sample_key (replicate 32 9)
     \<lparr>opt_nonce = None, opt_blind = Some 2, opt_salt = None\<rparr> sample_draw 0 = Some (Inr (breq, ts), st')"
    using sample_blinding by blast
  have n: "1 < pk_n sample_key" "pk_n sample_key < 2 ^ 2048" by (simp_all add: sample_key_def)
  obtain bsig where bsig: "i2osp (os2ip breq ^ 1 mod pk_n sample_key) 256 = Inr bsig" using i2osp_mod [OF n] by blast
  have "\<exists>t bs em. finalizeToken (\<lambda>_. replicate 48 5) sample_key bsig ts = Inr t \<and> Token_serialize t = Inr bs \<and> length bs = 354 \<and>
    take 98 bs = ts_tokenInput ts \<and> tokenSerial (\<lambda>_. []) bs = Some [] \<and>
    os2ip (drop 98 bs) ^ nat (pk_e sample_key) mod pk_n sample_key = os2ip em \<and>
    emsaPssVerify (\<lambda>_. replicate 48 5) (ts_tokenInput ts) em 2047"
    by (rule blind_token_issued [OF sample_key_rsa _ _ _ _ b bsig])
       (use n in \<open>simp_all add: sample_draw_def sample_key_def\<close>)
  with bsig show ?thesis by blast
qed

section \<open>Separation of the derived streams\<close>

lemma det_random_length:
  assumes "\<And>k s i n. length (hkdf k s i n) = n"
  shows "length (fst (deterministicTokenRandom hkdf key e i block n)) = n \<and>
    snd (deterministicTokenRandom hkdf key e i block n) = block + (n + 31) div 32"
proof (induction n arbitrary: block rule: less_induct)
  case (less n)
  show ?case
  proof (cases "n = 0")
    case True
    then show ?thesis by (simp add: deterministicTokenRandom.simps [of _ _ _ _ _ 0])
  next
    case False
    then have "(n + 31) div 32 = Suc ((n - 32 + 31) div 32)" by (cases "n \<le> 32") auto
    moreover obtain rest b where rb: "deterministicTokenRandom hkdf key e i (block + 1) (n - 32) = (rest, b)" by fastforce
    moreover from this less [of "n - 32" "block + 1"] False have "length rest = n - 32" "b = block + 1 + (n - 32 + 31) div 32" by simp_all
    ultimately show ?thesis
      using False assms deterministicTokenRandom.simps [of hkdf key e i block n] by (simp add: Let_def)
  qed
qed

text \<open>
  The wallet-derived byte streams never overlap: a draw of a slot asks the key derivation at the blocks from the
  counter on, returns as many bytes as asked and advances the counter by the blocks used; and two requests
  share a derivation input only when epoch, index and block agree (up to their widths).
\<close>

theorem blinding_streams_separate:
  assumes "\<And>k s i n. length (hkdf k s i n) = n"
  shows "length (fst (deterministicTokenRandom hkdf key e i block n)) = n \<and>
    snd (deterministicTokenRandom hkdf key e i block n) = block + (n + 31) div 32 \<and>
    (0 < n \<longrightarrow> take 32 (fst (deterministicTokenRandom hkdf key e i block n)) =
       take n (hkdf key BLINDING_SALT (blinding_info e i block) 32)) \<and>
    (blinding_info e i block = blinding_info e' i' block' \<longleftrightarrow>
       e mod 2 ^ 64 = e' mod 2 ^ 64 \<and> i mod 2 ^ 32 = i' mod 2 ^ 32 \<and> block mod 2 ^ 32 = block' mod 2 ^ 32)"
proof -
  have nat_mod: "int a mod 2 ^ 32 = int b mod 2 ^ 32 \<longleftrightarrow> a mod 2 ^ 32 = b mod 2 ^ 32" for a b
  proof -
    have "int m mod 2 ^ 32 = int (m mod 2 ^ 32)" for m by (simp add: zmod_int)
    then show ?thesis by (simp only: of_nat_eq_iff)
  qed
  have "blinding_info e i block = blinding_info e' i' block' \<longleftrightarrow>
       e mod 2 ^ 64 = e' mod 2 ^ 64 \<and> i mod 2 ^ 32 = i' mod 2 ^ 32 \<and> block mod 2 ^ 32 = block' mod 2 ^ 32"
    unfolding blinding_info_def by (simp only: append_eq_append_conv length_beU beU64_inj beU32_inj nat_mod simp_thms)
  moreover have "take 32 (fst (deterministicTokenRandom hkdf key e i block n)) =
       take n (hkdf key BLINDING_SALT (blinding_info e i block) 32)" if "0 < n"
  proof -
    obtain rest b where rb: "deterministicTokenRandom hkdf key e i (block + 1) (n - 32) = (rest, b)" by fastforce
    have "length rest = n - 32"
      using det_random_length [of hkdf key e i "block + 1" "n - 32", OF assms] rb by simp
    then show ?thesis
      using that assms rb deterministicTokenRandom.simps [of hkdf key e i block n] by (cases "32 \<le> n") (simp_all add: Let_def)
  qed
  ultimately show ?thesis using det_random_length [of hkdf key e i block n, OF assms] by blast
qed

theorem blinding_streams_separate_witness:
  "blinding_info 7 0 0 \<noteq> blinding_info 7 1 0 \<and> length (fst (deterministicTokenRandom (\<lambda>k s i n. replicate n 1) [] 7 0 0 80)) = 80"
  using blinding_streams_separate [of "\<lambda>k s i n. replicate n 1" "[]" 7 0 0 80 7 1 0] by simp

end
