(* ===== verification/Errors.thy ===== *)
theory Errors
  imports Warren_Prelude
begin

text \<open>
  The errors the account API client, the token code and the device code throw:
  \<^verbatim>\<open>packages/core/src/api/errors.ts\<close> and \<^verbatim>\<open>packages/core/src/edge/errors.ts\<close>. A class with its fields is a record, an
  error of any other class (a \<^verbatim>\<open>RangeError\<close>, a package's exception) is \<open>OtherErr\<close>. Messages are left out.
\<close>

datatype WarrenApiErrorCode =
    api_server | api_transport | api_all_hosts_blocked | api_response | api_no_identity | api_bad_clock | api_clock_skew
  | api_device_revoked | api_device_unregistered | api_device_limit_reached

record WarrenApiError =
  ae_code :: WarrenApiErrorCode
  ae_status :: "int option"
  ae_body :: "string option"
  ae_offsetSecs :: "int option"

datatype WarrenEdgeErrorCode =
    edge_no_edge_pin | edge_token_issuer | edge_epoch_rejected | edge_no_blinding_key | edge_no_session_token | edge_handshake

record WarrenEdgeError =
  ee_code :: WarrenEdgeErrorCode
  ee_rejectReason :: "string option"

datatype warren_error = ApiErr WarrenApiError | EdgeErr WarrenEdgeError | DeviceErr string | OtherErr

text \<open>An error without the optional fields, and one with a status.\<close>

definition apiError :: "WarrenApiErrorCode \<Rightarrow> warren_error" where
  "apiError c = ApiErr \<lparr>ae_code = c, ae_status = None, ae_body = None, ae_offsetSecs = None\<rparr>"

definition apiStatusError :: "WarrenApiErrorCode \<Rightarrow> int \<Rightarrow> warren_error" where
  "apiStatusError c s = ApiErr \<lparr>ae_code = c, ae_status = Some s, ae_body = None, ae_offsetSecs = None\<rparr>"

definition edgeError :: "WarrenEdgeErrorCode \<Rightarrow> warren_error" where
  "edgeError c = EdgeErr \<lparr>ee_code = c, ee_rejectReason = None\<rparr>"

end
