(* ===== verification/Token_Acquire.thy ===== *)
theory Token_Acquire
  imports Token Platform Errors
begin

text \<open>
  Token acquisition, \<^verbatim>\<open>packages/core/src/edge/token-acquire.ts\<close>: the issuer directory, the batch of blinded requests of
  an epoch and the finalization of the issuer's answer. \<^verbatim>\<open>mintEpoch\<close> awaits once, so it is the pure part before the
  request (\<open>mint_request\<close>), the transport, and the pure part after the answer (\<open>mint_finish\<close>); a token manager
  with several passes in flight uses the two parts. The base64url codec and SHA-384 of the packages are fields added to
  the platform. Epochs and other numbers of the directory are integers.
\<close>

record token_platform = platform +
  tp_sha384 :: "bytes \<Rightarrow> bytes"
  tp_b64Encode :: "bytes \<Rightarrow> string"
  tp_b64Decode :: "string \<Rightarrow> bytes option"

record TokenIssuerKey =
  ik_epoch :: int
  ik_token_key_id :: string
  ik_spki_b64 :: string
  ik_not_before :: int
  ik_not_after :: int

record TokenIssuerDirectory =
  td_issuer_name :: string
  td_token_type :: int
  td_epoch_secs :: int
  td_context_label :: string
  td_quota_per_epoch :: int
  td_prefetch_epochs :: int
  td_keys :: "TokenIssuerKey list"

record TokenIssueRequest =
  tr_epochs :: "(int \<times> string list) list"
  tr_device_id :: "string option"

record TokenIssueResult =
  ir_epoch :: int
  ir_issued :: bool
  ir_blind_signatures :: "string list option"
  ir_token_key_id :: "string option"
  ir_reject_reason :: "string option"

type_synonym TokenIssueResponse = "TokenIssueResult list"

text \<open>The class of an error thrown by the token code.\<close>

fun token_thrown :: "token_error \<Rightarrow> warren_error" where
  "token_thrown TokenIssuer = edgeError edge_token_issuer"
| "token_thrown _ = OtherErr"

definition tokenR :: "token_error + 'a \<Rightarrow> warren_error + 'a" where
  "tokenR r = (case r of Inl e \<Rightarrow> Inl (token_thrown e) | Inr x \<Rightarrow> Inr x)"

lemma tokenR_eq_Inr [simp, result_simps]: "tokenR r = Inr x \<longleftrightarrow> r = Inr x"
  by (simp add: tokenR_def split: sum.splits)

lemma tokenR_Inr [simp]: "tokenR (Inr x) = Inr x"
  by (simp add: tokenR_def)

section \<open>The directory\<close>

definition issuerKeyForEpoch :: "token_platform \<Rightarrow> TokenIssuerDirectory \<Rightarrow> int \<Rightarrow> warren_error + IssuerPublicKey" where
  "issuerKeyForEpoch pf directory epoch =
     (case find (\<lambda>k. ik_epoch k = epoch) (td_keys directory) of
        None \<Rightarrow> Inl (edgeError edge_token_issuer)
      | Some entry \<Rightarrow>
          (case tp_b64Decode pf (ik_spki_b64 entry) of
             None \<Rightarrow> Inl OtherErr
           | Some spki \<Rightarrow>
               bindR (tokenR (issuerPublicKeyFromSpki (pf_sha256 pf) spki)) (\<lambda>pk.
               bindR (guardR (pf_bytesToHex pf (pk_keyId pk) = ik_token_key_id entry) (edgeError edge_token_issuer)) (\<lambda>_.
               Inr pk))))"

definition currentEpoch :: "TokenIssuerDirectory \<Rightarrow> int \<Rightarrow> warren_error + int" where
  "currentEpoch directory nowUnixSecs =
     (if td_epoch_secs directory \<le> 0 then Inl (edgeError edge_token_issuer) else Inr (nowUnixSecs div td_epoch_secs directory))"

section \<open>Minting an epoch\<close>

text \<open>The blinding loop from slot \<open>i\<close> on; \<open>None\<close> when a search for a blinding factor never ends.\<close>

definition slot_draw :: "token_platform \<Rightarrow> bytes \<Rightarrow> int \<Rightarrow> nat \<Rightarrow> nat \<Rightarrow> nat \<Rightarrow> bytes \<times> nat" where
  "slot_draw pf blindingKey epoch i block n = deterministicTokenRandom (pf_hkdf pf) blindingKey epoch i block n"

fun blind_batch ::
    "token_platform \<Rightarrow> IssuerPublicKey \<Rightarrow> bytes \<Rightarrow> bytes \<Rightarrow> int \<Rightarrow> nat \<Rightarrow> nat \<Rightarrow>
       (warren_error + (string \<times> TokenClientState) list) option" where
  "blind_batch pf pk challengeDigest blindingKey epoch i 0 = Some (Inr [])"
| "blind_batch pf pk challengeDigest blindingKey epoch i (Suc k) =
     (case blindToken (tp_sha384 pf) pk challengeDigest \<lparr>opt_nonce = None, opt_blind = None, opt_salt = None\<rparr>
             (slot_draw pf blindingKey epoch i) 0 of
        None \<Rightarrow> None
      | Some (Inl e, _) \<Rightarrow> Some (Inl (token_thrown e))
      | Some (Inr (blindedRequest, ts), _) \<Rightarrow>
          map_option (\<lambda>r. bindR r (\<lambda>rest. Inr ((tp_b64Encode pf blindedRequest, ts) # rest)))
            (blind_batch pf pk challengeDigest blindingKey epoch (Suc i) k))"

text \<open>What the continuation after the issue request holds.\<close>

record mint_pending =
  mp_epoch :: int
  mp_pk :: IssuerPublicKey
  mp_states :: "TokenClientState list"

definition mint_request ::
    "token_platform \<Rightarrow> TokenIssuerDirectory \<Rightarrow> int \<Rightarrow> int \<Rightarrow> bytes \<Rightarrow> string option \<Rightarrow>
       (warren_error + (TokenIssueRequest \<times> mint_pending)) option" where
  "mint_request pf directory epoch count blindingKey deviceId =
     (case issuerKeyForEpoch pf directory epoch of
        Inl e \<Rightarrow> Some (Inl e)
      | Inr pk \<Rightarrow>
          (case tokenR (challengeDigestForEpoch (pf_sha256 pf) (td_issuer_name directory) (td_context_label directory) epoch) of
             Inl e \<Rightarrow> Some (Inl e)
           | Inr challengeDigest \<Rightarrow>
               map_option (\<lambda>r. bindR r (\<lambda>batch. Inr
                   (\<lparr>tr_epochs = [(epoch, map fst batch)], tr_device_id = deviceId\<rparr>,
                    \<lparr>mp_epoch = epoch, mp_pk = pk, mp_states = map snd batch\<rparr>)))
                 (blind_batch pf pk challengeDigest blindingKey epoch 0 (nat (min count (td_quota_per_epoch directory))))))"

definition rejected_error :: "string option \<Rightarrow> warren_error" where
  "rejected_error reason = EdgeErr \<lparr>ee_code = edge_epoch_rejected,
     ee_rejectReason = (case reason of Some r \<Rightarrow> if r = [] then None else Some r | None \<Rightarrow> None)\<rparr>"

fun finalize_batch :: "token_platform \<Rightarrow> IssuerPublicKey \<Rightarrow> string list \<Rightarrow> TokenClientState list \<Rightarrow> warren_error + Token list" where
  "finalize_batch pf pk [] states = Inr []"
| "finalize_batch pf pk (sigB64 # sigs) [] = Inl (edgeError edge_token_issuer)"
| "finalize_batch pf pk (sigB64 # sigs) (ts # states) =
     (case tp_b64Decode pf sigB64 of
        None \<Rightarrow> Inl OtherErr
      | Some sig \<Rightarrow>
          bindR (tokenR (finalizeToken (tp_sha384 pf) pk sig ts)) (\<lambda>t.
          bindR (finalize_batch pf pk sigs states) (\<lambda>rest. Inr (t # rest))))"

definition mint_finish :: "token_platform \<Rightarrow> mint_pending \<Rightarrow> TokenIssueResponse \<Rightarrow> warren_error + Token list" where
  "mint_finish pf p resp =
     (case find (\<lambda>e. ir_epoch e = mp_epoch p) resp of
        None \<Rightarrow> Inl (rejected_error None)
      | Some r \<Rightarrow>
          if \<not> ir_issued r then Inl (rejected_error (ir_reject_reason r))
          else finalize_batch pf (mp_pk p) (case ir_blind_signatures r of Some s \<Rightarrow> s | None \<Rightarrow> []) (mp_states p))"

text \<open>The transport as state passing: \<open>issue w request\<close> answers in the world \<open>w\<close>.\<close>

definition mintEpoch ::
    "token_platform \<Rightarrow> ('w \<Rightarrow> TokenIssueRequest \<Rightarrow> (warren_error + TokenIssueResponse) \<times> 'w) \<Rightarrow> TokenIssuerDirectory \<Rightarrow> int \<Rightarrow> int \<Rightarrow>
       bytes \<Rightarrow> string option \<Rightarrow> 'w \<Rightarrow> ((warren_error + Token list) \<times> 'w) option" where
  "mintEpoch pf issue directory epoch count blindingKey deviceId w =
     (case mint_request pf directory epoch count blindingKey deviceId of
        None \<Rightarrow> None
      | Some (Inl e) \<Rightarrow> Some (Inl e, w)
      | Some (Inr (request, p)) \<Rightarrow>
          (case issue w request of
             (Inl e, w') \<Rightarrow> Some (Inl e, w')
           | (Inr resp, w') \<Rightarrow> Some (mint_finish pf p resp, w')))"

definition acquireTokens ::
    "token_platform \<Rightarrow> ('w \<Rightarrow> (warren_error + TokenIssuerDirectory) \<times> 'w) \<Rightarrow>
       ('w \<Rightarrow> TokenIssueRequest \<Rightarrow> (warren_error + TokenIssueResponse) \<times> 'w) \<Rightarrow> int \<Rightarrow> int option \<Rightarrow> bytes \<Rightarrow> 'w \<Rightarrow>
       ((warren_error + (int \<times> Token list)) \<times> 'w) option" where
  "acquireTokens pf getDirectory issue nowUnixSecs count blindingKey w =
     (case getDirectory w of
        (Inl e, w') \<Rightarrow> Some (Inl e, w')
      | (Inr directory, w') \<Rightarrow>
          (case currentEpoch directory nowUnixSecs of
             Inl e \<Rightarrow> Some (Inl e, w')
           | Inr epoch \<Rightarrow>
               map_option (\<lambda>(r, w''). (bindR r (\<lambda>tokens. Inr (epoch, tokens)), w''))
                 (mintEpoch pf issue directory epoch
                   (case count of Some c \<Rightarrow> c | None \<Rightarrow> td_quota_per_epoch directory) blindingKey None w')))"

section \<open>What a minted token is\<close>

text \<open>A token of the challenge \<open>cd\<close> whose authenticator is an RSASSA-PSS signature of its input under \<open>pk\<close>.\<close>

definition token_valid :: "(bytes \<Rightarrow> bytes) \<Rightarrow> IssuerPublicKey \<Rightarrow> bytes \<Rightarrow> Token \<Rightarrow> bool" where
  "token_valid sha384 pk cd t \<longleftrightarrow>
     tok_challengeDigest t = cd \<and> tok_tokenKeyId t = pk_keyId pk \<and> length (tok_authenticator t) = 256 \<and>
     (case bindR (buildTokenInput (tok_nonce t) cd (pk_keyId pk)) (\<lambda>input.
           bindR (modPow (os2ip (tok_authenticator t)) (pk_e pk) (pk_n pk)) (\<lambda>m.
           bindR (i2osp m 256) (\<lambda>em. Inr (emsaPssVerify sha384 input em 2047)))) of
        Inr ok \<Rightarrow> ok | Inl _ \<Rightarrow> False)"

text \<open>A client state that belongs to the key and the challenge.\<close>

definition state_of :: "IssuerPublicKey \<Rightarrow> bytes \<Rightarrow> TokenClientState \<Rightarrow> bool" where
  "state_of pk cd ts \<longleftrightarrow> ts_challengeDigest ts = cd \<and> ts_tokenKeyId ts = pk_keyId pk \<and>
     buildTokenInput (ts_nonce ts) cd (pk_keyId pk) = Inr (ts_tokenInput ts)"

lemma blindWith_state:
  "blindWith pk input nonce cd em r = Inr (breq, ts) \<Longrightarrow> buildTokenInput nonce cd (pk_keyId pk) = Inr input \<Longrightarrow> state_of pk cd ts"
  by (auto simp: blindWith_def state_of_def bindR_eq_Inr_conv)

lemma blindToken_state: "blindToken sha384 pk cd opts draw st = Some (Inr (breq, ts), st') \<Longrightarrow> state_of pk cd ts"
  by (auto simp: blindToken_def bindR_eq_Inr_conv intro: blindWith_state split: prod.splits sum.splits option.splits if_splits)

lemma blind_batch_states:
  "blind_batch pf pk cd key epoch i k = Some (Inr batch) \<Longrightarrow> length batch = k \<and> list_all (state_of pk cd) (map snd batch)"
proof (induction k arbitrary: i batch)
  case (Suc k)
  then obtain breq ts st' rest where "blindToken (tp_sha384 pf) pk cd \<lparr>opt_nonce = None, opt_blind = None, opt_salt = None\<rparr>
      (slot_draw pf key epoch i) 0 = Some (Inr (breq, ts), st')"
    "blind_batch pf pk cd key epoch (Suc i) k = Some (Inr rest)" "batch = (tp_b64Encode pf breq, ts) # rest"
    by (auto simp: bindR_eq_Inr_conv split: option.splits sum.splits)
  with Suc.IH blindToken_state show ?case by fastforce
qed simp

lemma i2osp_value: "i2osp n len = Inr bs \<Longrightarrow> length bs = len \<and> os2ip bs = n"
  using i2osp_loop_value [of len n "[]"] by (auto simp: i2osp_def split: prod.splits if_splits)

lemma finalizeToken_valid:
  assumes "finalizeToken sha384 pk sig ts = Inr t" "state_of pk cd ts"
  shows "token_valid sha384 pk cd t"
proof -
  define s where "s = (os2ip sig * ts_rInv ts) smod pk_n pk"
  obtain a m em where r: "i2osp s AUTHENTICATOR_LEN = Inr a" "modPow s (pk_e pk) (pk_n pk) = Inr m" "i2osp m AUTHENTICATOR_LEN = Inr em"
    "emsaPssVerify sha384 (ts_tokenInput ts) em (MOD_BITS - 1)"
    "t = \<lparr>tok_nonce = ts_nonce ts, tok_challengeDigest = ts_challengeDigest ts, tok_tokenKeyId = ts_tokenKeyId ts, tok_authenticator = a\<rparr>"
    using assms(1) unfolding finalizeToken_def Let_def s_def by (auto simp: bindR_eq_Inr_conv split: if_splits)
  with i2osp_value [OF r(1)] assms(2) show ?thesis
    by (simp add: token_valid_def state_of_def AUTHENTICATOR_LEN_def MOD_BITS_def)
qed

lemma finalize_batch_valid:
  "finalize_batch pf pk sigs states = Inr tokens \<Longrightarrow> list_all (state_of pk cd) states \<Longrightarrow>
     length tokens = length sigs \<and> length sigs \<le> length states \<and> list_all (token_valid (tp_sha384 pf) pk cd) tokens"
  by (induction pf pk sigs states arbitrary: tokens rule: finalize_batch.induct)
     (auto simp: bindR_eq_Inr_conv intro: finalizeToken_valid split: option.splits)

lemma mint_finish_valid:
  assumes "mint_request pf directory epoch count key dev = Some (Inr (request, p))" "mint_finish pf p resp = Inr tokens"
  shows "\<exists>pk cd. issuerKeyForEpoch pf directory epoch = Inr pk \<and>
    challengeDigestForEpoch (pf_sha256 pf) (td_issuer_name directory) (td_context_label directory) epoch = Inr cd \<and>
    length tokens \<le> nat (min count (td_quota_per_epoch directory)) \<and> list_all (token_valid (tp_sha384 pf) pk cd) tokens"
proof -
  obtain pk cd batch where b: "issuerKeyForEpoch pf directory epoch = Inr pk"
    "challengeDigestForEpoch (pf_sha256 pf) (td_issuer_name directory) (td_context_label directory) epoch = Inr cd"
    "blind_batch pf pk cd key epoch 0 (nat (min count (td_quota_per_epoch directory))) = Some (Inr batch)"
    "mp_pk p = pk" "mp_states p = map snd batch"
    using assms(1) by (auto simp: mint_request_def bindR_eq_Inr_conv split: sum.splits)
  obtain sigs where "finalize_batch pf pk sigs (map snd batch) = Inr tokens"
    using assms(2) b unfolding mint_finish_def
    by (cases "find (\<lambda>e. ir_epoch e = mp_epoch p) resp") (auto split: if_splits)
  from finalize_batch_valid [OF this] blind_batch_states [OF b(3)] b(1,2) show ?thesis by auto
qed

text \<open>
  Whatever the issuer answers, minting returns only tokens the client checked: at most the quota of them, each for
  the challenge of the epoch it was asked for, and each with a signature that verifies under the directory's key of
  that epoch, whose identifier is the published one.
\<close>

theorem mintEpoch_sound:
  assumes "mintEpoch pf issue directory epoch count key dev w = Some (Inr tokens, w')"
  shows "\<exists>pk cd entry. issuerKeyForEpoch pf directory epoch = Inr pk \<and>
    challengeDigestForEpoch (pf_sha256 pf) (td_issuer_name directory) (td_context_label directory) epoch = Inr cd \<and>
    entry \<in> set (td_keys directory) \<and> ik_epoch entry = epoch \<and> pf_bytesToHex pf (pk_keyId pk) = ik_token_key_id entry \<and>
    length tokens \<le> nat (min count (td_quota_per_epoch directory)) \<and> (\<forall>t \<in> set tokens. token_valid (tp_sha384 pf) pk cd t)"
proof -
  obtain request p resp where m: "mint_request pf directory epoch count key dev = Some (Inr (request, p))"
    "mint_finish pf p resp = Inr tokens"
    using assms by (auto simp: mintEpoch_def split: option.splits sum.splits prod.splits)
  from mint_finish_valid [OF m] obtain pk cd where r: "issuerKeyForEpoch pf directory epoch = Inr pk"
    "challengeDigestForEpoch (pf_sha256 pf) (td_issuer_name directory) (td_context_label directory) epoch = Inr cd"
    "length tokens \<le> nat (min count (td_quota_per_epoch directory))" "list_all (token_valid (tp_sha384 pf) pk cd) tokens" by blast
  then obtain entry where "find (\<lambda>k. ik_epoch k = epoch) (td_keys directory) = Some entry" "pf_bytesToHex pf (pk_keyId pk) = ik_token_key_id entry"
    by (auto simp: issuerKeyForEpoch_def bindR_eq_Inr_conv split: option.splits if_splits)
  then have "entry \<in> set (td_keys directory)" "ik_epoch entry = epoch" "pf_bytesToHex pf (pk_keyId pk) = ik_token_key_id entry"
    by (auto simp: find_Some_iff in_set_conv_nth)
  with r show ?thesis unfolding list_all_iff by blast
qed

section \<open>Minting from an honest issuer\<close>

text \<open>The answer of an issuer with the private exponent \<open>d\<close> that signs every blinded request it is sent.\<close>

definition honest_sign :: "token_platform \<Rightarrow> IssuerPublicKey \<Rightarrow> nat \<Rightarrow> string \<Rightarrow> string" where
  "honest_sign pf pk d blinded =
     (case tp_b64Decode pf blinded of
        None \<Rightarrow> []
      | Some breq \<Rightarrow> (case i2osp (os2ip breq ^ d mod pk_n pk) 256 of Inl _ \<Rightarrow> [] | Inr sig \<Rightarrow> tp_b64Encode pf sig))"

definition honest_issue :: "token_platform \<Rightarrow> IssuerPublicKey \<Rightarrow> nat \<Rightarrow> 'w \<Rightarrow> TokenIssueRequest \<Rightarrow> (warren_error + TokenIssueResponse) \<times> 'w" where
  "honest_issue pf pk d w request =
     (Inr (map (\<lambda>(epoch, blinded). \<lparr>ir_epoch = epoch, ir_issued = True, ir_blind_signatures = Some (map (honest_sign pf pk d) blinded),
        ir_token_key_id = None, ir_reject_reason = None\<rparr>) (tr_epochs request)), w)"

text \<open>What the packages promise: digests and derived keys have their lengths, and base64url decodes what it encodes.\<close>

definition mint_laws :: "token_platform \<Rightarrow> bool" where
  "mint_laws pf \<longleftrightarrow> (\<forall>bs. length (pf_sha256 pf bs) = 32) \<and> (\<forall>bs. length (tp_sha384 pf bs) = 48) \<and>
     (\<forall>k s i n. length (pf_hkdf pf k s i n) = n) \<and> (\<forall>bs. tp_b64Decode pf (tp_b64Encode pf bs) = Some bs)"

lemma slot_draw_lengths:
  assumes "mint_laws pf"
  shows "length (fst (slot_draw pf key epoch i st n)) = n" "snd (slot_draw pf key epoch i st n) = st + (n + 31) div 32"
  using det_random_length [of "pf_hkdf pf" key epoch i st n] assms by (simp_all add: slot_draw_def mint_laws_def)

text \<open>A slot is blinded: after the nonce and the salt the counter stands at block three, where the search starts.\<close>

lemma slot_blinds:
  assumes laws: "mint_laws pf" and key: "rsa_key pk d" and cd: "length cd = 32"
    and found: "randomCoprime (pk_n pk) (slot_draw pf key epoch i) 3 \<noteq> None"
  obtains breq ts st' where "blindToken (tp_sha384 pf) pk cd \<lparr>opt_nonce = None, opt_blind = None, opt_salt = None\<rparr>
    (slot_draw pf key epoch i) 0 = Some (Inr (breq, ts), st')"
proof -
  have "(1 :: int) < 2 ^ 2047" by (rule one_less_power) simp_all
  then have n: "1 < pk_n pk" "pk_n pk < 2 ^ 2048" "0 \<le> pk_e pk" "length (pk_keyId pk) = 32"
    using key unfolding rsa_key_def by linarith+
  obtain nonce where d1: "slot_draw pf key epoch i 0 32 = (nonce, 1)" "length nonce = 32"
    using slot_draw_lengths [OF laws, of key epoch i 0 32] by (cases "slot_draw pf key epoch i 0 32") auto
  obtain salt where d2: "slot_draw pf key epoch i 1 48 = (salt, 3)" "length salt = 48"
    using slot_draw_lengths [OF laws, of key epoch i 1 48] by (cases "slot_draw pf key epoch i 1 48") auto
  obtain y where y: "randomCoprime (pk_n pk) (slot_draw pf key epoch i) 3 = Some y" using found by auto
  have "0 < pk_n pk" using n(1) by simp
  from this y obtain k where k: "unit_draw (pk_n pk) (slot_draw pf key epoch i) 3 k"
    "y = (Inr (os2ip (fst (nth_draw (slot_draw pf key epoch i) 3 k)) mod pk_n pk), snd (nth_draw (slot_draw pf key epoch i) 3 k))"
    by (rule randomCoprime_search)
  then obtain r st3 where r: "randomCoprime (pk_n pk) (slot_draw pf key epoch i) 3 = Some (Inr r, st3)"
    and "coprime r (pk_n pk)" "0 \<le> r" using y by (auto simp: unit_draw_def Let_def)
  let ?ti = "i2osp2 TOKEN_TYPE_BLIND_RSA @ nonce @ cd @ pk_keyId pk"
  have ti: "buildTokenInput nonce cd (pk_keyId pk) = Inr ?ti" using d1(2) cd n(4) by (rule buildTokenInput_exact)
  obtain em where em: "emsaPssEncode (tp_sha384 pf) ?ti 2047 salt = Inr em"
    by (rule emsaPss_verify_encode [of "tp_sha384 pf" salt ?ti]) (use laws d2(2) in \<open>auto simp: mint_laws_def\<close>)
  obtain breq ts where b: "blindWith pk ?ti nonce cd em r = Inr (breq, ts)"
    using blindWith_returns [OF n(1-3) \<open>0 \<le> r\<close> \<open>coprime r (pk_n pk)\<close>] by blast
  have "blindToken (tp_sha384 pf) pk cd \<lparr>opt_nonce = None, opt_blind = None, opt_salt = None\<rparr>
    (slot_draw pf key epoch i) 0 = Some (Inr (breq, ts), st3)"
    using n(1) by (simp add: blindToken_def drawn_def NONCE_LEN_def HASH_LEN_def MOD_BITS_def d1 d2(1) [unfolded One_nat_def] ti em r b)
  then show thesis by (rule that)
qed

lemma slot_finalizes:
  assumes laws: "mint_laws pf" and key: "rsa_key pk d" and cd: "length cd = 32"
    and b: "blindToken (tp_sha384 pf) pk cd \<lparr>opt_nonce = None, opt_blind = None, opt_salt = None\<rparr>
      (slot_draw pf key epoch i) 0 = Some (Inr (breq, ts), st')"
  shows "\<exists>sig t. tp_b64Decode pf (honest_sign pf pk d (tp_b64Encode pf breq)) = Some sig \<and>
    finalizeToken (tp_sha384 pf) pk sig ts = Inr t"
proof -
  have "(1 :: int) < 2 ^ 2047" by (rule one_less_power) simp_all
  then have n: "1 < pk_n pk" "pk_n pk < 2 ^ 2048" using key unfolding rsa_key_def by linarith+
  obtain sig where sig: "i2osp (os2ip breq ^ d mod pk_n pk) 256 = Inr sig" using i2osp_mod [OF n] by blast
  have "\<exists>t bs em. finalizeToken (tp_sha384 pf) pk sig ts = Inr t \<and> Token_serialize t = Inr bs \<and> length bs = 354 \<and>
    take 98 bs = ts_tokenInput ts \<and> tokenSerial (pf_sha256 pf) bs = Some (pf_sha256 pf (ts_tokenInput ts)) \<and>
    os2ip (drop 98 bs) ^ nat (pk_e pk) mod pk_n pk = os2ip em \<and> emsaPssVerify (tp_sha384 pf) (ts_tokenInput ts) em 2047"
    by (rule blind_token_issues [OF key _ _ cd _ b sig]) (use laws slot_draw_lengths(1) [OF laws] in \<open>simp_all add: mint_laws_def\<close>)
  then show ?thesis using sig laws by (auto simp: honest_sign_def mint_laws_def)
qed

lemma batch_finalizes:
  assumes laws: "mint_laws pf" and key: "rsa_key pk d" and cd: "length cd = 32"
    and found: "\<And>j. i \<le> j \<Longrightarrow> j < i + k \<Longrightarrow> randomCoprime (pk_n pk) (slot_draw pf key epoch j) 3 \<noteq> None"
  shows "\<exists>batch tokens. blind_batch pf pk cd key epoch i k = Some (Inr batch) \<and>
    finalize_batch pf pk (map (honest_sign pf pk d) (map fst batch)) (map snd batch) = Inr tokens \<and> length tokens = k"
  using found
proof (induction k arbitrary: i)
  case (Suc k)
  obtain breq ts st' where b: "blindToken (tp_sha384 pf) pk cd \<lparr>opt_nonce = None, opt_blind = None, opt_salt = None\<rparr>
    (slot_draw pf key epoch i) 0 = Some (Inr (breq, ts), st')"
    by (rule slot_blinds [OF laws key cd, of key epoch i]) (use Suc.prems [of i] in auto)
  obtain sig t where "tp_b64Decode pf (honest_sign pf pk d (tp_b64Encode pf breq)) = Some sig"
    "finalizeToken (tp_sha384 pf) pk sig ts = Inr t" using slot_finalizes [OF laws key cd b] by blast
  moreover obtain batch tokens where "blind_batch pf pk cd key epoch (Suc i) k = Some (Inr batch)"
    "finalize_batch pf pk (map (honest_sign pf pk d) (map fst batch)) (map snd batch) = Inr tokens" "length tokens = k"
    using Suc.IH [of "Suc i"] Suc.prems by auto
  ultimately show ?case using b by (intro exI [of _ "(tp_b64Encode pf breq, ts) # batch"] exI [of _ "t # tokens"]) simp
qed simp

lemma epoch_challenge:
  assumes "mint_laws pf"
  obtains cd where "challengeDigestForEpoch (pf_sha256 pf) name label epoch = Inr cd" "length cd = 32"
  using assms
  by (auto simp: challengeDigestForEpoch_def tokenChallengeDigest_def serializeTokenChallenge_def
      redemptionContextForEpoch_def mint_laws_def Let_def)

lemma mint_returns:
  assumes laws: "mint_laws pf" and pk: "issuerKeyForEpoch pf directory epoch = Inr pk" and key: "rsa_key pk d"
    and found: "\<And>i. i < nat (min count (td_quota_per_epoch directory)) \<Longrightarrow> randomCoprime (pk_n pk) (slot_draw pf key epoch i) 3 \<noteq> None"
  shows "\<exists>tokens. mintEpoch pf (honest_issue pf pk d) directory epoch count key dev w = Some (Inr tokens, w) \<and>
    length tokens = nat (min count (td_quota_per_epoch directory))"
proof -
  let ?k = "nat (min count (td_quota_per_epoch directory))"
  obtain cd where cd: "challengeDigestForEpoch (pf_sha256 pf) (td_issuer_name directory) (td_context_label directory) epoch = Inr cd"
    "length cd = 32" using epoch_challenge [OF laws] .
  obtain batch tokens where b: "blind_batch pf pk cd key epoch 0 ?k = Some (Inr batch)"
    "finalize_batch pf pk (map (honest_sign pf pk d) (map fst batch)) (map snd batch) = Inr tokens" "length tokens = ?k"
    using batch_finalizes [OF laws key cd(2), of 0 ?k key epoch, OF found] by auto
  then show ?thesis
    by (simp add: mintEpoch_def mint_request_def pk cd(1) honest_issue_def mint_finish_def)
qed

section \<open>What a minted token is worth\<close>

text \<open>
  The nonce of slot \<open>i\<close> of an epoch: the first block of that slot's stream under the blinding key, with the salt and
  the info string written out.
\<close>

definition slot_nonce :: "token_platform \<Rightarrow> bytes \<Rightarrow> int \<Rightarrow> nat \<Rightarrow> bytes" where
  "slot_nonce pf key epoch i =
     pf_hkdf pf key (utf8ToBytes ''warren/token-blinding/v1'') (beU64 epoch @ beU32 (int i) @ beU32 0) 32"

text \<open>
  A token the exits redeem: its 354 bytes are the type, the nonce, the challenge digest and the key identifier, each
  in its place, then an RSASSA-PSS signature of those 98 bytes that opens under the issuer's public exponent.
\<close>

definition redeemable :: "(bytes \<Rightarrow> bytes) \<Rightarrow> IssuerPublicKey \<Rightarrow> bytes \<Rightarrow> bytes \<Rightarrow> Token \<Rightarrow> bool" where
  "redeemable sha384 pk cd nonce t \<longleftrightarrow>
     (case Token_serialize t of
        Inl _ \<Rightarrow> False
      | Inr bs \<Rightarrow> length bs = 354 \<and> take 98 bs = [0, 2] @ nonce @ cd @ pk_keyId pk \<and>
          (case i2osp (os2ip (drop 98 bs) ^ nat (pk_e pk) mod pk_n pk) 256 of
             Inl _ \<Rightarrow> False
           | Inr em \<Rightarrow> emsaPssVerify sha384 (take 98 bs) em 2047))"

lemma slot_draw_nonce:
  assumes "mint_laws pf"
  shows "slot_draw pf key epoch i 0 32 = (slot_nonce pf key epoch i, 1)"
  using assms
  by (simp add: slot_draw_def slot_nonce_def mint_laws_def BLINDING_SALT_def blinding_info_def
      deterministicTokenRandom.simps [of "pf_hkdf pf" key epoch i 0 32]
      deterministicTokenRandom.simps [of "pf_hkdf pf" key epoch i "Suc 0" 0])

lemma blindWith_nonce: "blindWith pk input nonce cd em r = Inr (breq, ts) \<Longrightarrow> ts_nonce ts = nonce"
  by (auto simp: blindWith_def bindR_eq_Inr_conv)

lemma slot_state:
  assumes "mint_laws pf"
    and "blindToken sha384 pk cd \<lparr>opt_nonce = None, opt_blind = None, opt_salt = None\<rparr> (slot_draw pf key epoch i) 0 =
      Some (Inr (breq, ts), st')"
  shows "ts_nonce ts = slot_nonce pf key epoch i"
  using assms(2)
  by (auto simp: blindToken_def drawn_def NONCE_LEN_def slot_draw_nonce [OF assms(1)] bindR_eq_Inr_conv
      dest: blindWith_nonce split: prod.splits sum.splits option.splits)

lemma blind_batch_nonces:
  assumes "mint_laws pf"
  shows "blind_batch pf pk cd key epoch i k = Some (Inr batch) \<Longrightarrow>
    map (ts_nonce \<circ> snd) batch = map (slot_nonce pf key epoch) [i..<i + k]"
proof (induction k arbitrary: i batch)
  case (Suc k)
  then obtain breq ts st' rest where r: "blindToken (tp_sha384 pf) pk cd \<lparr>opt_nonce = None, opt_blind = None, opt_salt = None\<rparr>
      (slot_draw pf key epoch i) 0 = Some (Inr (breq, ts), st')"
    "blind_batch pf pk cd key epoch (Suc i) k = Some (Inr rest)" "batch = (tp_b64Encode pf breq, ts) # rest"
    by (auto simp: bindR_eq_Inr_conv split: option.splits sum.splits)
  have "[i..<i + Suc k] = i # [Suc i..<Suc i + k]" by (simp add: upt_conv_Cons)
  with Suc.IH [OF r(2)] slot_state [OF assms r(1)] r(3) show ?case by simp
qed simp

lemma finalizeToken_nonce: "finalizeToken sha384 pk sig ts = Inr t \<Longrightarrow> tok_nonce t = ts_nonce ts"
  by (auto simp: finalizeToken_def Let_def bindR_eq_Inr_conv split: if_splits)

lemma finalize_batch_nonces:
  "finalize_batch pf pk sigs states = Inr tokens \<Longrightarrow> map tok_nonce tokens = take (length tokens) (map ts_nonce states)"
  by (induction pf pk sigs states arbitrary: tokens rule: finalize_batch.induct)
     (auto simp: bindR_eq_Inr_conv dest: finalizeToken_nonce split: option.splits)

lemma token_valid_redeemable:
  assumes "token_valid sha384 pk cd t" and "1 < pk_n pk" "0 \<le> pk_e pk"
    and "length (tok_nonce t) = 32" "length cd = 32" "length (pk_keyId pk) = 32"
  shows "redeemable sha384 pk cd (tok_nonce t) t"
proof -
  let ?ti = "i2osp2 TOKEN_TYPE_BLIND_RSA @ tok_nonce t @ cd @ pk_keyId pk"
  have v: "tok_challengeDigest t = cd" "tok_tokenKeyId t = pk_keyId pk" "length (tok_authenticator t) = 256"
    using assms(1) by (simp_all add: token_valid_def)
  have input: "buildTokenInput (tok_nonce t) cd (pk_keyId pk) = Inr ?ti" using assms(4-6) by (rule buildTokenInput_exact)
  have pow: "modPow (os2ip (tok_authenticator t)) (pk_e pk) (pk_n pk) =
      Inr (os2ip (tok_authenticator t) ^ nat (pk_e pk) mod pk_n pk)"
    using modPow_value [OF assms(2) _ assms(3)] os2ip_bounds by blast
  have ser: "Token_serialize t = Inr (?ti @ tok_authenticator t)" using Token_serialize_exact [of t] assms(4-6) v by simp
  have ty: "i2osp2 TOKEN_TYPE_BLIND_RSA = [0, 2]" by (simp add: i2osp2_def TOKEN_TYPE_BLIND_RSA_def)
  show ?thesis
    using assms(1,4-6) v unfolding redeemable_def ser sum.case
    by (cases "i2osp (os2ip (tok_authenticator t) ^ nat (pk_e pk) mod pk_n pk) 256") (simp_all add: token_valid_def input pow ty)
qed

text \<open>Whatever the issuer answers, the tokens returned are redeemable, each with the nonce of its own slot.\<close>

lemma mint_redeemable:
  assumes laws: "mint_laws pf" and pk: "issuerKeyForEpoch pf directory epoch = Inr pk" and key: "rsa_key pk d"
    and cd: "challengeDigestForEpoch (pf_sha256 pf) (td_issuer_name directory) (td_context_label directory) epoch = Inr cd"
    and run: "mintEpoch pf issue directory epoch count key dev w = Some (Inr tokens, w')"
  shows "length tokens \<le> nat (min count (td_quota_per_epoch directory)) \<and>
    (\<forall>i < length tokens. redeemable (tp_sha384 pf) pk cd (slot_nonce pf key epoch i) (tokens ! i))"
proof -
  let ?k = "nat (min count (td_quota_per_epoch directory))"
  have "(1 :: int) < 2 ^ 2047" by (rule one_less_power) simp_all
  then have n: "1 < pk_n pk" "0 \<le> pk_e pk" "length (pk_keyId pk) = 32" using key unfolding rsa_key_def by linarith+
  have cd32: "length cd = 32" using epoch_challenge [OF laws] cd by (metis Inr_inject)
  obtain request p resp where m: "mint_request pf directory epoch count key dev = Some (Inr (request, p))"
    "mint_finish pf p resp = Inr tokens"
    using run by (auto simp: mintEpoch_def split: option.splits sum.splits prod.splits)
  obtain batch where b: "blind_batch pf pk cd key epoch 0 ?k = Some (Inr batch)" "mp_pk p = pk" "mp_states p = map snd batch"
    using m(1) pk cd by (auto simp: mint_request_def bindR_eq_Inr_conv)
  obtain sigs where fin: "finalize_batch pf pk sigs (map snd batch) = Inr tokens"
    using m(2) b unfolding mint_finish_def by (cases "find (\<lambda>e. ir_epoch e = mp_epoch p) resp") (auto split: if_splits)
  note st = blind_batch_states [OF b(1)]
  have len: "length tokens \<le> ?k" and valid: "list_all (token_valid (tp_sha384 pf) pk cd) tokens"
    using finalize_batch_valid [OF fin conjunct2 [OF st]] st by auto
  have "map tok_nonce tokens = take (length tokens) (map (slot_nonce pf key epoch) [0..<?k])"
    using finalize_batch_nonces [OF fin] blind_batch_nonces [OF laws b(1)] by simp
  then have nonce: "tok_nonce (tokens ! i) = slot_nonce pf key epoch i" if "i < length tokens" for i
    using that len nth_map [OF that, of tok_nonce] by simp
  have "redeemable (tp_sha384 pf) pk cd (slot_nonce pf key epoch i) (tokens ! i)" if "i < length tokens" for i
    using token_valid_redeemable [of "tp_sha384 pf" pk cd "tokens ! i"] valid that n cd32 nonce [OF that] laws
    by (simp add: list_all_length slot_nonce_def mint_laws_def)
  with len show ?thesis by blast
qed

text \<open>
  C23. Minting, for an epoch whose key the directory names and whose slots' searches end. Against an issuer that
  signs what it is sent it succeeds, with the smaller of the count asked for and the quota many tokens. Whatever
  the issuer answers, the tokens it returns are no more than that, and the one at each place is redeemable:
  354 bytes that name the epoch's challenge and the issuer's key, carry the nonce of that very slot and end in a
  signature of theirs that opens under the issuer's public key.
\<close>

theorem mintEpoch_honest:
  assumes "mint_laws pf" and "issuerKeyForEpoch pf directory epoch = Inr pk" and "rsa_key pk d"
    and "\<And>i. i < nat (min count (td_quota_per_epoch directory)) \<Longrightarrow> randomCoprime (pk_n pk) (slot_draw pf key epoch i) 3 \<noteq> None"
  shows "\<exists>cd. challengeDigestForEpoch (pf_sha256 pf) (td_issuer_name directory) (td_context_label directory) epoch = Inr cd \<and>
    (\<exists>tokens. mintEpoch pf (honest_issue pf pk d) directory epoch count key dev w = Some (Inr tokens, w) \<and>
       length tokens = nat (min count (td_quota_per_epoch directory))) \<and>
    (\<forall>issue tokens w'. mintEpoch pf issue directory epoch count key dev w = Some (Inr tokens, w') \<longrightarrow>
       length tokens \<le> nat (min count (td_quota_per_epoch directory)) \<and>
       (\<forall>i < length tokens. redeemable (tp_sha384 pf) pk cd (slot_nonce pf key epoch i) (tokens ! i)))"
proof -
  obtain cd where cd: "challengeDigestForEpoch (pf_sha256 pf) (td_issuer_name directory) (td_context_label directory) epoch = Inr cd"
    using epoch_challenge [OF assms(1)] by blast
  have "\<exists>tokens. mintEpoch pf (honest_issue pf pk d) directory epoch count key dev w = Some (Inr tokens, w) \<and>
      length tokens = nat (min count (td_quota_per_epoch directory))"
    by (rule mint_returns [OF assms])
  moreover have "\<forall>issue tokens w'. mintEpoch pf issue directory epoch count key dev w = Some (Inr tokens, w') \<longrightarrow>
       length tokens \<le> nat (min count (td_quota_per_epoch directory)) \<and>
       (\<forall>i < length tokens. redeemable (tp_sha384 pf) pk cd (slot_nonce pf key epoch i) (tokens ! i))"
    by (intro allI impI) (rule mint_redeemable [OF assms(1-3) cd])
  ultimately show ?thesis using cd by (intro exI [of _ cd] conjI)
qed

section \<open>A sample issuer\<close>

text \<open>
  The codec writes each byte as one character, the key derivation is constant except for the last block of the first
  search, which makes the blinding factor two, and the issuer key has the modulus \<open>2 ^ 2048 - 1\<close> and exponent one.
\<close>

definition sample_hkdf :: "bytes \<Rightarrow> bytes \<Rightarrow> bytes \<Rightarrow> nat \<Rightarrow> bytes" where
  "sample_hkdf k s i n = (if last i = 10 \<and> 0 < n then replicate (n - 1) 0 @ [2] else replicate n 0)"

definition sample_token_platform :: token_platform where
  "sample_token_platform = platform.extend (reference_platform\<lparr>pf_hkdf := sample_hkdf\<rparr>)
     (token_platform.fields (\<lambda>_. replicate 48 5) utf8Decode (\<lambda>s. Some (utf8ToBytes s)))"

lemma sample_token_platform_simps [simp]:
  "pf_hkdf sample_token_platform = sample_hkdf" "pf_sha256 sample_token_platform = (\<lambda>_. replicate 32 0)"
  "pf_bytesToHex sample_token_platform = hex_encode" "tp_sha384 sample_token_platform = (\<lambda>_. replicate 48 5)"
  "tp_b64Encode sample_token_platform = utf8Decode" "tp_b64Decode sample_token_platform s = Some (utf8ToBytes s)"
  "pf_parse sample_token_platform = json_read"
  by (simp_all add: sample_token_platform_def token_platform.defs platform.defs reference_platform_def)

definition sample_spki :: bytes where
  "sample_spki = [0x30, 0, 0x30, 0, 3, 0, 0, 0x30, 0, 2, 0x82, 1, 0] @ replicate 256 0xff @ [2, 1, 1]"

definition sample_directory :: TokenIssuerDirectory where
  "sample_directory = \<lparr>td_issuer_name = ''issuer'', td_token_type = 2, td_epoch_secs = 3600, td_context_label = ''ctx'',
     td_quota_per_epoch = 1, td_prefetch_epochs = 1,
     td_keys = [\<lparr>ik_epoch = 7, ik_token_key_id = hex_encode (replicate 32 0), ik_spki_b64 = utf8Decode sample_spki,
       ik_not_before = 0, ik_not_after = 0\<rparr>]\<rparr>"

definition sample_issuer :: IssuerPublicKey where
  "sample_issuer = \<lparr>pk_n = 2 ^ 2048 - 1, pk_e = 1, pk_keyId = replicate 32 0\<rparr>"

lemma sample_issuer_rsa: "rsa_key sample_issuer 1"
  using sample_key_rsa by (simp add: rsa_key_def sample_issuer_def sample_key_def)

lemma sample_laws: "mint_laws sample_token_platform"
  by (simp add: mint_laws_def sample_hkdf_def)

lemma os2ip_replicate_ff: "os2ip (replicate k 0xff) = 256 ^ k - 1"
proof (induction k)
  case (Suc k)
  have "os2ip (replicate (Suc k) 0xff) = 255 * 256 ^ k + os2ip (replicate k 0xff)" by simp
  with Suc show ?case by simp
qed simp

lemma os2ip_replicate_zero: "os2ip (replicate k 0 @ bs) = os2ip bs"
  by (induction k) simp_all

lemma sample_spki_at [simp]:
  "der_at sample_spki 0 = 0x30" "der_at sample_spki 1 = 0" "der_at sample_spki 2 = 0x30" "der_at sample_spki 3 = 0"
  "der_at sample_spki 4 = 3" "der_at sample_spki 5 = 0" "der_at sample_spki 7 = 0x30" "der_at sample_spki 8 = 0"
  "der_at sample_spki 9 = 2" "der_at sample_spki 10 = 0x82" "der_at sample_spki 11 = 1" "der_at sample_spki 12 = 0"
  "der_at sample_spki 269 = 2" "der_at sample_spki 270 = 1"
  by (simp_all add: der_at_def sample_spki_def nth_append)

lemma sample_tlvs:
  "readTlv sample_spki 0 = (0x30, 2, 2)" "readTlv sample_spki 2 = (0x30, 4, 4)" "readTlv sample_spki 4 = (3, 6, 6)"
  "readTlv sample_spki 7 = (0x30, 9, 9)" "readTlv sample_spki 9 = (2, 13, 269)" "readTlv sample_spki 269 = (2, 271, 272)"
proof -
  have "tlv_length sample_spki (Suc (Suc 0)) 11 0 = (256, 13)" by simp
  then have "tlv_length sample_spki 2 11 0 = (256, 13)" unfolding numeral_2_eq_2 .
  moreover have "unat ((0x82 :: byte) AND 0x7f) = 2" by simp
  ultimately show "readTlv sample_spki 9 = (2, 13, 269)" unfolding readTlv_def by simp
qed (simp_all add: readTlv_def Let_def)

lemma sample_issuer_key: "issuerKeyForEpoch sample_token_platform sample_directory 7 = Inr sample_issuer"
proof -
  have "js_subarray sample_spki 13 269 = replicate 256 0xff" "js_subarray sample_spki 271 272 = [1]"
    by (simp_all add: js_subarray_def sample_spki_def Let_def)
  then have "strip_zero (js_subarray sample_spki 13 269) = replicate 256 0xff" "strip_zero (js_subarray sample_spki 271 272) = [1]"
    by (simp_all add: strip_zero_def)
  moreover have "os2ip (replicate 256 0xff) = 2 ^ 2048 - 1" by (subst os2ip_replicate_ff) simp
  ultimately have "issuerPublicKeyFromSpki (\<lambda>_. replicate 32 0) sample_spki = Inr sample_issuer"
    by (simp add: issuerPublicKeyFromSpki_def sample_tlvs sample_issuer_def)
  then show ?thesis by (simp add: issuerKeyForEpoch_def sample_directory_def sample_issuer_def)
qed


text \<open>The search of slot zero of epoch seven draws the blocks three to ten and finds two.\<close>

lemma det_random_blocks:
  assumes "\<And>k s i n. length (hkdf k s i n) = n"
  shows "fst (deterministicTokenRandom hkdf key e i block (32 * k)) =
    concat (map (\<lambda>j. hkdf key BLINDING_SALT (blinding_info e i (block + j)) 32) [0..<k])"
proof (induction k arbitrary: block)
  case 0
  then show ?case by (subst deterministicTokenRandom.simps) simp
next
  case (Suc k)
  have "32 * Suc k - 32 = 32 * k" by simp
  moreover have "[0..<Suc k] = 0 # map Suc [0..<k]" by (simp only: map_Suc_upt upt_conv_Cons zero_less_Suc)
  then have "map (\<lambda>j. hkdf key BLINDING_SALT (blinding_info e i (block + j)) 32) [0..<Suc k] =
    hkdf key BLINDING_SALT (blinding_info e i block) 32 # map (\<lambda>j. hkdf key BLINDING_SALT (blinding_info e i (block + 1 + j)) 32) [0..<k]"
    by (simp only: list.map map_map comp_def add_0_right add_Suc_right add_Suc One_nat_def add_0)
  ultimately show ?case
    using Suc [of "block + 1"] assms by (subst deterministicTokenRandom.simps) (auto simp: Let_def split: prod.split)
qed

lemma sample_search: "randomCoprime (pk_n sample_issuer) (slot_draw sample_token_platform key 7 0) 3 \<noteq> None"
proof -
  have blocks: "fst (slot_draw sample_token_platform key 7 0 3 256) =
    concat (map (\<lambda>j. sample_hkdf key BLINDING_SALT (blinding_info 7 0 (3 + j)) 32) [0..<8])"
    using det_random_blocks [of sample_hkdf key 7 0 3 8] by (simp add: slot_draw_def sample_hkdf_def)
  have "[0..<8] = [0, 1, 2, 3, 4, 5, 6, 7]" by (simp add: upt_rec)
  then have "os2ip (fst (slot_draw sample_token_platform key 7 0 3 256)) = 2"
    unfolding blocks by (simp add: sample_hkdf_def blinding_info_def beU32_def writeUInt32BE_def os2ip_replicate_zero)
  moreover have "coprime 2 (pk_n sample_issuer)" "2 < pk_n sample_issuer" by (simp_all add: sample_issuer_def)
  moreover have "(2 :: int) mod pk_n sample_issuer = 2" by (simp add: sample_issuer_def)
  ultimately have "unit_draw (pk_n sample_issuer) (slot_draw sample_token_platform key 7 0) 3 0"
    by (simp add: AUTHENTICATOR_LEN_def unit_draw_def)
  then show ?thesis by (intro randomCoprime_returns) (simp_all add: sample_issuer_def)
qed

theorem mintEpoch_honest_witness:
  "\<exists>t cd. mintEpoch sample_token_platform (honest_issue sample_token_platform sample_issuer 1) sample_directory 7 1 [] None () = Some (Inr [t], ()) \<and>
    redeemable (tp_sha384 sample_token_platform) sample_issuer cd (slot_nonce sample_token_platform [] 7 0) t"
proof -
  have one: "nat (min 1 (td_quota_per_epoch sample_directory)) = 1" by (simp add: sample_directory_def)
  have search: "randomCoprime (pk_n sample_issuer) (slot_draw sample_token_platform [] 7 i) 3 \<noteq> None"
    if "i < nat (min 1 (td_quota_per_epoch sample_directory))" for i
    using that sample_search [of "[]"] one by simp
  note honest = mintEpoch_honest [where count = 1 and key = "[]" and dev = None and w = "()", OF sample_laws sample_issuer_key sample_issuer_rsa search]
  then obtain cd tokens where
    t: "mintEpoch sample_token_platform (honest_issue sample_token_platform sample_issuer 1) sample_directory 7 1 [] None () = Some (Inr tokens, ())"
      "length tokens = 1" unfolding one by blast
  from honest t obtain cd where "redeemable (tp_sha384 sample_token_platform) sample_issuer cd (slot_nonce sample_token_platform [] 7 0) (tokens ! 0)"
    by (metis zero_less_one)
  moreover obtain t0 where "tokens = [t0]" using t(2) by (auto simp: length_Suc_conv)
  ultimately show ?thesis using t(1) by auto
qed

theorem mintEpoch_sound_witness:
  "\<exists>t cd. token_valid (tp_sha384 sample_token_platform) sample_issuer cd t"
proof -
  have "nat (min 1 (td_quota_per_epoch sample_directory)) = 1" by (simp add: sample_directory_def)
  then obtain t where "mintEpoch sample_token_platform (honest_issue sample_token_platform sample_issuer 1) sample_directory 7 1 [] None () = Some (Inr [t], ())"
    using mint_returns [OF sample_laws sample_issuer_key sample_issuer_rsa, of 1 "[]" None "()"] sample_search [of "[]"]
    by (auto simp: length_Suc_conv)
  from mintEpoch_sound [OF this] show ?thesis using sample_issuer_key by auto
qed

end
