(* ===== verification/Token_Manager.thy ===== *)
theory Token_Manager
  imports Token_Acquire "HOL-Library.AList" "HOL-Library.Multiset"
begin

text \<open>
  The token manager, \<^verbatim>\<open>packages/core/src/edge/token-manager.ts\<close>. Its \<^verbatim>\<open>refresh\<close> awaits the transport several times and other
  calls of the manager run in between, so a pass in flight is a value (\<open>pass\<close>: what it waits for and what its
  continuation holds) and the manager with its passes and leases is a transition system: an event is a call of a
  method or the answer to the request a pass waits for, and each event runs the code up to the next await. A step is
  \<open>None\<close> when its event does not fit the state or when blinding never ends. A \<^verbatim>\<open>Map\<close> is an association list in
  insertion order, the \<^verbatim>\<open>Set\<close>s are sets, the persistence is the in-memory one. The length of an epoch is an integer
  number of seconds. \<^verbatim>\<open>Number(key)\<close> on the keys of a persisted bundle is an argument: the integer the
  key denotes, \<open>None\<close> when it denotes none.
\<close>

section \<open>State\<close>

record DeviceRegistration =
  dv_device_id :: string
  dv_name :: string
  dv_platform :: string
  dv_app_version :: string

record manager =
  tm_store :: "(int \<times> bytes list) list"
  tm_settled :: "int set"
  tm_directory :: "TokenIssuerDirectory option"
  tm_epochSecs :: "int option"
  tm_held :: "string set"
  tm_rotation :: nat
  tm_blindingKey :: "bytes option"
  tm_device :: "DeviceRegistration option"
  tm_named :: "string list"
  tm_revoked :: bool
  tm_saved :: "string option"

definition REJECT_ALREADY_ISSUED :: string where
  "REJECT_ALREADY_ISSUED = ''already_issued''"

definition BUNDLE_VERSION :: int where
  "BUNDLE_VERSION = 1"

section \<open>Persistence\<close>

text \<open>The properties of an object: array indices in ascending order, then the other keys as inserted.\<close>

definition js_property_order :: "(int \<times> 'a) list \<Rightarrow> (int \<times> 'a) list" where
  "js_property_order s = (let index = (\<lambda>(e, _). 0 \<le> e \<and> e < 2 ^ 32 - 1)
     in sort_key fst (filter index s) @ filter (\<lambda>p. \<not> index p) s)"

definition epoch_entry :: "token_platform \<Rightarrow> int \<times> bytes list \<Rightarrow> string \<times> json" where
  "epoch_entry pf = (\<lambda>(epoch, tokens). (show_int epoch, JArr (map (\<lambda>t. JStr (tp_b64Encode pf t)) tokens)))"

definition bundle_json :: "token_platform \<Rightarrow> manager \<Rightarrow> json" where
  "bundle_json pf m = JObj [
     (''v'', JInt BUNDLE_VERSION),
     (''epochSecs'', JInt (case tm_epochSecs m of Some n \<Rightarrow> n | None \<Rightarrow> 0)),
     (''epochs'', JObj (map (epoch_entry pf) (js_property_order (tm_store m))))]"

definition persist :: "token_platform \<Rightarrow> manager \<Rightarrow> manager" where
  "persist pf m = m\<lparr>tm_saved := Some (stringify (bundle_json pf m))\<rparr>"

fun js_entries :: "json \<Rightarrow> (string \<times> json) list" where
  "js_entries (JObj ps) = ps"
| "js_entries (JArr xs) = map (\<lambda>(i, x). (show_nat i, x)) (List.enumerate 0 xs)"
| "js_entries _ = []"

definition decode_token :: "token_platform \<Rightarrow> json \<Rightarrow> bytes option" where
  "decode_token pf j =
     (case j of
        JStr b64 \<Rightarrow> (case tp_b64Decode pf b64 of Some bs \<Rightarrow> if length bs = TOKEN_LEN then Some bs else None | None \<Rightarrow> None)
      | _ \<Rightarrow> None)"

definition load_entry :: "token_platform \<Rightarrow> (string \<Rightarrow> int option) \<Rightarrow> string \<times> json \<Rightarrow> (int \<times> bytes list) list \<Rightarrow> (int \<times> bytes list) list" where
  "load_entry pf toNumber kv store =
     (case (toNumber (fst kv), snd kv) of
        (Some epoch, JArr encoded) \<Rightarrow>
          if epoch < 0 then store
          else let tokens = List.map_filter (decode_token pf) encoded
               in if tokens \<noteq> [] then AList.update epoch tokens store else store
      | _ \<Rightarrow> store)"

definition loadPersisted :: "token_platform \<Rightarrow> (string \<Rightarrow> int option) \<Rightarrow> manager \<Rightarrow> manager" where
  "loadPersisted pf toNumber m =
     (case Option.bind (tm_saved m) (pf_parse pf) of
        None \<Rightarrow> m
      | Some parsed \<Rightarrow>
          if \<not> is_object parsed \<or> jget parsed ''v'' \<noteq> Some (JInt BUNDLE_VERSION) then m
          else let m' = (case jinteger parsed ''epochSecs'' of Some n \<Rightarrow> if n > 0 then m\<lparr>tm_epochSecs := Some n\<rparr> else m | None \<Rightarrow> m)
               in (case jget parsed ''epochs'' of
                     Some e \<Rightarrow> if is_object e then m'\<lparr>tm_store := fold (load_entry pf toNumber) (js_entries e) (tm_store m')\<rparr> else m'
                   | None \<Rightarrow> m'))"

text \<open>The constructor over a persistence that holds \<open>saved\<close>; the rotation is the given or the drawn one.\<close>

definition newManager ::
    "token_platform \<Rightarrow> (string \<Rightarrow> int option) \<Rightarrow> bool \<Rightarrow> string option \<Rightarrow> bytes option \<Rightarrow> nat \<Rightarrow> DeviceRegistration option \<Rightarrow> warren_error + manager" where
  "newManager pf toNumber hasRegistrar saved blindingKey rotation device =
     (if device \<noteq> None \<and> \<not> hasRegistrar then Inl (DeviceErr ''no_registrar'')
      else Inr (loadPersisted pf toNumber
        \<lparr>tm_store = [], tm_settled = {}, tm_directory = None, tm_epochSecs = None, tm_held = {}, tm_rotation = rotation,
         tm_blindingKey = blindingKey, tm_device = device, tm_named = [], tm_revoked = False, tm_saved = saved\<rparr>))"

section \<open>Vending\<close>

definition epochAt :: "manager \<Rightarrow> int \<Rightarrow> int option" where
  "epochAt m nowUnixSecs =
     (case tm_epochSecs m of None \<Rightarrow> None | Some n \<Rightarrow> if n \<le> 0 then None else Some (nowUnixSecs div n))"

definition serialKey :: "token_platform \<Rightarrow> bytes \<Rightarrow> string option" where
  "serialKey pf token = map_option (pf_bytesToHex pf) (tokenSerial (pf_sha256 pf) token)"

definition token_free :: "token_platform \<Rightarrow> manager \<Rightarrow> bytes \<Rightarrow> bool" where
  "token_free pf m token = (case serialKey pf token of None \<Rightarrow> False | Some key \<Rightarrow> key \<notin> tm_held m)"

definition storeGet :: "manager \<Rightarrow> int \<Rightarrow> bytes list" where
  "storeGet m epoch = (case map_of (tm_store m) epoch of Some ts \<Rightarrow> ts | None \<Rightarrow> [])"

definition sessionStack :: "token_platform \<Rightarrow> manager \<Rightarrow> int \<Rightarrow> bytes list" where
  "sessionStack pf m nowUnixSecs =
     (case epochAt m nowUnixSecs of
        None \<Rightarrow> []
      | Some epoch \<Rightarrow>
          let tokens = storeGet m epoch
          in if tokens = [] then []
             else let start = tm_rotation m mod length tokens
                  in filter (token_free pf m) (drop start tokens @ take start tokens))"

text \<open>A lease is the key it holds and whether it is live.\<close>

type_synonym lease = "string \<times> bool"

definition claim :: "token_platform \<Rightarrow> bytes \<Rightarrow> manager \<Rightarrow> lease option \<times> manager" where
  "claim pf token m =
     (case serialKey pf token of
        None \<Rightarrow> (None, m)
      | Some key \<Rightarrow> if key \<in> tm_held m then (None, m) else (Some (key, True), m\<lparr>tm_held := insert key (tm_held m)\<rparr>))"

definition release :: "lease \<Rightarrow> manager \<Rightarrow> lease \<times> manager" where
  "release l m = (if \<not> snd l then (l, m) else ((fst l, False), m\<lparr>tm_held := tm_held m - {fst l}\<rparr>))"

definition takeCurrentStack :: "token_platform \<Rightarrow> int \<Rightarrow> manager \<Rightarrow> bytes list \<times> manager" where
  "takeCurrentStack pf nowUnixSecs m =
     (case epochAt m nowUnixSecs of
        None \<Rightarrow> ([], m)
      | Some epoch \<Rightarrow>
          let tokens = storeGet m epoch
          in if tokens = [] then ([], m)
             else let rest = butlast tokens
                  in ([last tokens], persist pf (m\<lparr>tm_store :=
                       (if rest = [] then AList.delete epoch (tm_store m) else AList.update epoch rest (tm_store m))\<rparr>)))"

definition available :: "manager \<Rightarrow> int \<Rightarrow> nat" where
  "available m epoch = length (storeGet m epoch)"

definition epochs :: "manager \<Rightarrow> int list" where
  "epochs m = sort (map fst (tm_store m))"

definition pruneBefore :: "int \<Rightarrow> manager \<Rightarrow> manager" where
  "pruneBefore minEpoch m = m\<lparr>tm_store := filter (\<lambda>(e, _). \<not> e < minEpoch) (tm_store m)\<rparr>"

definition deviceName :: "manager \<Rightarrow> string option" where
  "deviceName m = map_option dv_name (tm_device m)"

definition setDeviceName :: "string \<Rightarrow> manager \<Rightarrow> manager" where
  "setDeviceName name m = m\<lparr>tm_device := map_option (\<lambda>d. d\<lparr>dv_name := name\<rparr>) (tm_device m)\<rparr>"

section \<open>Refresh passes\<close>

record pass_ctx =
  pc_directory :: TokenIssuerDirectory
  pc_key :: bytes
  pc_registered :: bool

datatype pass =
    PRegister int
  | PDirectory int
  | PIssue pass_ctx int "int list" "DeviceRegistration option" TokenIssueRequest mint_pending
  | PReregister pass_ctx int "int list" DeviceRegistration
  | PReissue pass_ctx int "int list" TokenIssueRequest mint_pending
  | PDone
  | PFailed warren_error

definition revokedError :: warren_error where
  "revokedError = apiStatusError api_device_revoked 403"

fun answersEveryEpoch :: "WarrenApiError \<Rightarrow> bool" where
  "answersEveryEpoch err \<longleftrightarrow> ae_code err = api_device_unregistered \<or> ae_code err = api_device_limit_reached"

fun is_code :: "WarrenApiErrorCode \<Rightarrow> warren_error \<Rightarrow> bool" where
  "is_code c (ApiErr e) \<longleftrightarrow> ae_code e = c"
| "is_code c _ \<longleftrightarrow> False"

fun ends_pass :: "warren_error \<Rightarrow> bool" where
  "ends_pass (ApiErr e) \<longleftrightarrow> ae_status e = Some 401 \<or> answersEveryEpoch e"
| "ends_pass _ \<longleftrightarrow> False"

fun already_issued :: "warren_error \<Rightarrow> bool" where
  "already_issued (EdgeErr e) \<longleftrightarrow> ee_rejectReason e = Some REJECT_ALREADY_ISSUED"
| "already_issued _ \<longleftrightarrow> False"

definition adopt :: "string \<Rightarrow> manager \<Rightarrow> manager" where
  "adopt name m =
     (case tm_device m of
        None \<Rightarrow> m
      | Some d \<Rightarrow> if dv_name d = name then m else m\<lparr>tm_device := Some (d\<lparr>dv_name := name\<rparr>), tm_named := tm_named m @ [name]\<rparr>)"

definition revoke :: "token_platform \<Rightarrow> manager \<Rightarrow> manager" where
  "revoke pf m = persist pf (m\<lparr>tm_revoked := True, tm_store := []\<rparr>)"

definition refresh_start :: "int \<Rightarrow> manager \<Rightarrow> pass" where
  "refresh_start now m =
     (if tm_blindingKey m = None then PFailed (edgeError edge_no_blinding_key)
      else if tm_revoked m then PFailed revokedError
      else if tm_device m = None then PDirectory now
      else PRegister now)"

definition registerAtStart :: "token_platform \<Rightarrow> int \<Rightarrow> warren_error + string \<Rightarrow> manager \<Rightarrow> manager \<times> pass" where
  "registerAtStart pf now answer m =
     (case answer of
        Inr name \<Rightarrow> (adopt name m, PDirectory now)
      | Inl err \<Rightarrow>
          if is_code api_device_revoked err then (revoke pf m, PFailed err)
          else if is_code api_device_limit_reached err then (m, PFailed err)
          else (m, PDirectory now))"

text \<open>The body of the target loop once the mint of \<open>epoch\<close> settled: the error ends the pass when there is one.\<close>

definition mint_outcome :: "token_platform \<Rightarrow> int \<Rightarrow> warren_error + Token list \<Rightarrow> manager \<Rightarrow> manager \<times> warren_error option" where
  "mint_outcome pf epoch result m =
     (case result of
        Inr tokens \<Rightarrow>
          if tm_revoked m then (m, None)
          else let m' = m\<lparr>tm_settled := insert epoch (tm_settled m)\<rparr>
               in (case mapR Token_serialize tokens of
                     Inl _ \<Rightarrow> (m', None)
                   | Inr serialized \<Rightarrow> (m'\<lparr>tm_store := AList.update epoch (storeGet m' epoch @ serialized) (tm_store m')\<rparr>, None))
      | Inl err \<Rightarrow>
          if is_code api_device_revoked err then (revoke pf m, Some err)
          else if ends_pass err then (persist pf m, Some err)
          else if already_issued err then (m\<lparr>tm_settled := insert epoch (tm_settled m)\<rparr>, None)
          else (m, None))"

fun run_targets :: "token_platform \<Rightarrow> pass_ctx \<Rightarrow> int list \<Rightarrow> manager \<Rightarrow> (manager \<times> pass) option" where
  "run_targets pf ctx [] m = Some (persist pf m, PDone)"
| "run_targets pf ctx (epoch # rest) m =
     (case mint_request pf (pc_directory ctx) epoch (td_quota_per_epoch (pc_directory ctx)) (pc_key ctx)
             (map_option dv_device_id (tm_device m)) of
        None \<Rightarrow> None
      | Some (Inr (request, p)) \<Rightarrow> Some (m, PIssue ctx epoch rest (tm_device m) request p)
      | Some (Inl err) \<Rightarrow>
          (case mint_outcome pf epoch (Inl err) m of
             (m', Some e) \<Rightarrow> Some (m', PFailed e)
           | (m', None) \<Rightarrow> run_targets pf ctx rest m'))"

definition resume_pass :: "token_platform \<Rightarrow> pass_ctx \<Rightarrow> int \<Rightarrow> int list \<Rightarrow> warren_error + Token list \<Rightarrow> manager \<Rightarrow> (manager \<times> pass) option" where
  "resume_pass pf ctx epoch rest result m =
     (case mint_outcome pf epoch result m of
        (m', Some e) \<Rightarrow> Some (m', PFailed e)
      | (m', None) \<Rightarrow> run_targets pf ctx rest m')"

definition got_directory :: "token_platform \<Rightarrow> int \<Rightarrow> warren_error + TokenIssuerDirectory \<Rightarrow> manager \<Rightarrow> (manager \<times> pass) option" where
  "got_directory pf now answer m =
     (case bindR answer (\<lambda>directory. bindR (currentEpoch directory now) (\<lambda>current. Inr (directory, current))) of
        Inl e \<Rightarrow> Some (m, PFailed e)
      | Inr (directory, current) \<Rightarrow>
          let m1 = pruneBefore current m;
              m2 = m1\<lparr>tm_settled := Set.filter (\<lambda>e. \<not> e < current) (tm_settled m1), tm_directory := Some directory,
                     tm_epochSecs := Some (td_epoch_secs directory)\<rparr>;
              targets = filter (\<lambda>e. e \<ge> current \<and> e \<notin> tm_settled m2) (map ik_epoch (td_keys directory))
          in (case tm_blindingKey m of
                None \<Rightarrow> None
              | Some key \<Rightarrow> run_targets pf \<lparr>pc_directory = directory, pc_key = key, pc_registered = False\<rparr> targets m2))"

definition got_issue :: "token_platform \<Rightarrow> mint_pending \<Rightarrow> warren_error + TokenIssueResponse \<Rightarrow> warren_error + Token list" where
  "got_issue pf p answer = bindR answer (mint_finish pf p)"

definition mintAsDevice ::
    "token_platform \<Rightarrow> pass_ctx \<Rightarrow> int \<Rightarrow> int list \<Rightarrow> DeviceRegistration option \<Rightarrow> warren_error + Token list \<Rightarrow> manager \<Rightarrow> (manager \<times> pass) option" where
  "mintAsDevice pf ctx epoch rest device result m =
     (case (result, device) of
        (Inl err, Some d) \<Rightarrow>
          if is_code api_device_unregistered err \<and> \<not> pc_registered ctx
          then Some (m, PReregister (ctx\<lparr>pc_registered := True\<rparr>) epoch rest d)
          else resume_pass pf ctx epoch rest result m
      | _ \<Rightarrow> resume_pass pf ctx epoch rest result m)"

definition reregistered ::
    "token_platform \<Rightarrow> pass_ctx \<Rightarrow> int \<Rightarrow> int list \<Rightarrow> DeviceRegistration \<Rightarrow> warren_error + string \<Rightarrow> manager \<Rightarrow> (manager \<times> pass) option" where
  "reregistered pf ctx epoch rest d answer m =
     (case answer of
        Inl err \<Rightarrow> resume_pass pf ctx epoch rest (Inl err) m
      | Inr name \<Rightarrow>
          let m' = adopt name m
          in (case mint_request pf (pc_directory ctx) epoch (td_quota_per_epoch (pc_directory ctx)) (pc_key ctx) (Some (dv_device_id d)) of
                None \<Rightarrow> None
              | Some (Inl err) \<Rightarrow> resume_pass pf ctx epoch rest (Inl err) m'
              | Some (Inr (request, p)) \<Rightarrow> Some (m', PReissue ctx epoch rest request p)))"

section \<open>The transition system\<close>

record tm_system =
  sy_manager :: manager
  sy_passes :: "pass list"
  sy_leases :: "lease list"

datatype tm_event =
    EvRefresh int
  | EvRegistered nat "warren_error + string"
  | EvDirectory nat "warren_error + TokenIssuerDirectory"
  | EvIssued nat "warren_error + TokenIssueResponse"
  | EvTake int
  | EvClaim bytes
  | EvRelease nat
  | EvSetName string

definition passed :: "tm_system \<Rightarrow> nat \<Rightarrow> (manager \<times> pass) option \<Rightarrow> tm_system option" where
  "passed s i r = map_option (\<lambda>(m, p). s\<lparr>sy_manager := m, sy_passes := (sy_passes s)[i := p]\<rparr>) r"

definition pass_at :: "tm_system \<Rightarrow> nat \<Rightarrow> pass option" where
  "pass_at s i = (if i < length (sy_passes s) then Some (sy_passes s ! i) else None)"

fun tm_step :: "token_platform \<Rightarrow> tm_event \<Rightarrow> tm_system \<Rightarrow> tm_system option" where
  "tm_step pf (EvRefresh now) s = Some (s\<lparr>sy_passes := sy_passes s @ [refresh_start now (sy_manager s)]\<rparr>)"
| "tm_step pf (EvRegistered i answer) s =
     (case pass_at s i of
        Some (PRegister now) \<Rightarrow> passed s i (Some (registerAtStart pf now answer (sy_manager s)))
      | Some (PReregister ctx epoch rest d) \<Rightarrow> passed s i (reregistered pf ctx epoch rest d answer (sy_manager s))
      | _ \<Rightarrow> None)"
| "tm_step pf (EvDirectory i answer) s =
     (case pass_at s i of
        Some (PDirectory now) \<Rightarrow> passed s i (got_directory pf now answer (sy_manager s))
      | _ \<Rightarrow> None)"
| "tm_step pf (EvIssued i answer) s =
     (case pass_at s i of
        Some (PIssue ctx epoch rest device request p) \<Rightarrow> passed s i (mintAsDevice pf ctx epoch rest device (got_issue pf p answer) (sy_manager s))
      | Some (PReissue ctx epoch rest request p) \<Rightarrow> passed s i (resume_pass pf ctx epoch rest (got_issue pf p answer) (sy_manager s))
      | _ \<Rightarrow> None)"
| "tm_step pf (EvTake now) s = Some (s\<lparr>sy_manager := snd (takeCurrentStack pf now (sy_manager s))\<rparr>)"
| "tm_step pf (EvClaim token) s =
     (case claim pf token (sy_manager s) of
        (None, m) \<Rightarrow> Some (s\<lparr>sy_manager := m\<rparr>)
      | (Some l, m) \<Rightarrow> Some (s\<lparr>sy_manager := m, sy_leases := sy_leases s @ [l]\<rparr>))"
| "tm_step pf (EvRelease i) s =
     (if i < length (sy_leases s)
      then (case release (sy_leases s ! i) (sy_manager s) of
              (l, m) \<Rightarrow> Some (s\<lparr>sy_manager := m, sy_leases := (sy_leases s)[i := l]\<rparr>))
      else None)"
| "tm_step pf (EvSetName name) s = Some (s\<lparr>sy_manager := setDeviceName name (sy_manager s)\<rparr>)"

inductive tm_reach :: "token_platform \<Rightarrow> manager \<Rightarrow> tm_system \<Rightarrow> bool" for pf m0 where
  start: "tm_reach pf m0 \<lparr>sy_manager = m0, sy_passes = [], sy_leases = []\<rparr>"
| step: "tm_reach pf m0 s \<Longrightarrow> tm_step pf ev s = Some s' \<Longrightarrow> tm_reach pf m0 s'"

inductive_cases tm_reachE: "tm_reach pf m0 s"

section \<open>Invariants of the manager\<close>

lemma passed_Some: "passed s i r = Some s' \<longleftrightarrow>
    (\<exists>m p. r = Some (m, p) \<and> s' = s\<lparr>sy_manager := m, sy_passes := (sy_passes s)[i := p]\<rparr>)"
  by (auto simp: passed_def)

lemma js_set_length: "js_set out a i = Inr out' \<Longrightarrow> length out' = length out"
  by (auto simp: js_set_def split: if_splits)

lemma Token_serialize_length: "Token_serialize t = Inr bs \<Longrightarrow> length bs = TOKEN_LEN"
proof -
  assume "Token_serialize t = Inr bs"
  then obtain x y z where "js_set (i2osp2 TOKEN_TYPE_BLIND_RSA @ replicate (TOKEN_LEN - 2) 0) (tok_nonce t) 2 = Inr x"
    "js_set x (tok_challengeDigest t) 34 = Inr y" "js_set y (tok_tokenKeyId t) 66 = Inr z" "js_set z (tok_authenticator t) 98 = Inr bs"
    unfolding Token_serialize_def bindR_eq_Inr_conv by blast
  from this [THEN js_set_length] show ?thesis by (simp add: TOKEN_LEN_def)
qed

lemma serialized_length:
  assumes "mapR Token_serialize tokens = Inr serialized"
  shows "list_all (\<lambda>t. length t = TOKEN_LEN) serialized"
  using assms Token_serialize_length unfolding mapR_eq_Inr_conv list_all_length list_all2_conv_all_nth by metis

text \<open>What the code does to a manager between two awaits is a sequence of these updates.\<close>

locale pass_invariant =
  fixes pf :: token_platform and I :: "manager \<Rightarrow> bool"
  assumes keeps_persist: "I m \<Longrightarrow> I (persist pf m)"
    and keeps_revoke: "I m \<Longrightarrow> I (revoke pf m)"
    and keeps_adopt: "I m \<Longrightarrow> I (adopt name m)"
    and keeps_name: "I m \<Longrightarrow> I (setDeviceName name m)"
    and keeps_settle: "I m \<Longrightarrow> I (m\<lparr>tm_settled := S\<rparr>)"
    and keeps_stock: "I m \<Longrightarrow> \<not> tm_revoked m \<Longrightarrow> list_all (\<lambda>t. length t = TOKEN_LEN) serialized \<Longrightarrow>
      I (m\<lparr>tm_store := AList.update epoch (storeGet m epoch @ serialized) (tm_store m)\<rparr>)"
    and keeps_directory: "I m \<Longrightarrow> I ((pruneBefore current m)\<lparr>tm_settled := S, tm_directory := d, tm_epochSecs := Some n\<rparr>)"
    and keeps_take: "I m \<Longrightarrow> I (snd (takeCurrentStack pf now m))"
begin

lemma keeps_minted:
  assumes "I m" "\<not> tm_revoked m" "mapR Token_serialize tokens = Inr serialized"
  shows "I (m\<lparr>tm_settled := S, tm_store := AList.update epoch (storeGet m epoch @ serialized) (tm_store m)\<rparr>)"
  using keeps_stock [OF keeps_settle [OF assms(1)] _ serialized_length [OF assms(3)], of S epoch] assms(2) by (simp add: storeGet_def)

lemma keeps_outcome: "I m \<Longrightarrow> mint_outcome pf epoch result m = (m', e) \<Longrightarrow> I m'"
  unfolding mint_outcome_def
  by (auto simp: Let_def storeGet_def intro: keeps_persist keeps_revoke keeps_settle
      keeps_minted [unfolded storeGet_def] split: sum.splits if_splits)

lemma keeps_targets: "I m \<Longrightarrow> run_targets pf ctx targets m = Some (m', p) \<Longrightarrow> I m'"
proof (induction targets arbitrary: m)
  case Nil
  then show ?case using keeps_persist by auto
next
  case (Cons epoch rest)
  then show ?case by (auto split: option.splits sum.splits prod.splits dest: keeps_outcome)
qed

lemma keeps_resume: "I m \<Longrightarrow> resume_pass pf ctx epoch rest result m = Some (m', p) \<Longrightarrow> I m'"
  by (auto simp: resume_pass_def split: option.splits prod.splits dest: keeps_outcome keeps_targets)

lemma keeps_start: "I m \<Longrightarrow> registerAtStart pf now answer m = (m', p) \<Longrightarrow> I m'"
  by (auto simp: registerAtStart_def intro: keeps_adopt keeps_revoke split: sum.splits if_splits)

lemma keeps_got: "I m \<Longrightarrow> got_directory pf now answer m = Some (m', p) \<Longrightarrow> I m'"
  unfolding got_directory_def Let_def
  by (auto split: sum.splits option.splits prod.splits dest: keeps_targets [OF keeps_directory])

lemma keeps_mint: "I m \<Longrightarrow> mintAsDevice pf ctx epoch rest device result m = Some (m', p) \<Longrightarrow> I m'"
  by (auto simp: mintAsDevice_def split: sum.splits option.splits if_splits dest: keeps_resume)

lemma keeps_reregistered: "I m \<Longrightarrow> reregistered pf ctx epoch rest d answer m = Some (m', p) \<Longrightarrow> I m'"
  by (auto simp: reregistered_def Let_def split: sum.splits option.splits prod.splits
      dest: keeps_resume keeps_resume [OF keeps_adopt] intro: keeps_adopt)

lemma keeps_pass_step:
  assumes "tm_step pf ev s = Some s'" "I (sy_manager s)" "\<And>token. ev \<noteq> EvClaim token" "\<And>i. ev \<noteq> EvRelease i"
  shows "I (sy_manager s')"
  using assms
  by (cases ev) (auto simp: passed_Some intro: keeps_take keeps_name dest: keeps_start keeps_got keeps_mint keeps_reregistered keeps_resume
    split: option.splits pass.splits)

end

text \<open>An invariant that the leases keep too holds in every reachable state.\<close>

locale manager_invariant = pass_invariant +
  assumes keeps_claim: "I m \<Longrightarrow> I (snd (claim pf token m))"
    and keeps_release: "I m \<Longrightarrow> I (snd (release l m))"
begin

lemma keeps_step:
  assumes "tm_step pf ev s = Some s'" "I (sy_manager s)"
  shows "I (sy_manager s')"
proof (cases ev)
  case (EvClaim token)
  with assms show ?thesis using keeps_claim [of "sy_manager s" token] by (auto split: prod.splits option.splits)
next
  case (EvRelease i)
  with assms show ?thesis using keeps_release [of "sy_manager s" "sy_leases s ! i"] by (auto split: prod.splits if_splits)
qed (rule keeps_pass_step [OF assms]; simp)+

lemma keeps_reach: "tm_reach pf m0 s \<Longrightarrow> I m0 \<Longrightarrow> I (sy_manager s)"
  by (induction rule: tm_reach.induct) (auto intro: keeps_step)

end

section \<open>Revocation\<close>

definition empty_bundle :: "int \<Rightarrow> json" where
  "empty_bundle n = JObj [(''v'', JInt BUNDLE_VERSION), (''epochSecs'', JInt n), (''epochs'', JObj [])]"

definition revoked_empty :: "manager \<Rightarrow> bool" where
  "revoked_empty m \<longleftrightarrow> (tm_revoked m \<longrightarrow> tm_store m = [] \<and> (\<exists>n. tm_saved m = Some (stringify (empty_bundle n))))"

lemma saved_empty: "tm_store m = [] \<Longrightarrow> \<exists>n. tm_saved (persist pf m) = Some (stringify (empty_bundle n))"
  by (auto simp: persist_def bundle_json_def empty_bundle_def js_property_order_def)

lemmas manager_updates = persist_def revoke_def adopt_def setDeviceName_def pruneBefore_def claim_def release_def

interpretation revoked: manager_invariant pf revoked_empty for pf
proof
  fix m now
  show "revoked_empty m \<Longrightarrow> revoked_empty (persist pf m)" "revoked_empty (revoke pf m)"
    using saved_empty [of m pf] saved_empty [of "m\<lparr>tm_revoked := True, tm_store := []\<rparr>" pf]
    unfolding revoked_empty_def revoke_def by (simp_all add: persist_def)
  show "revoked_empty m \<Longrightarrow> revoked_empty (snd (takeCurrentStack pf now m))"
    by (auto simp: revoked_empty_def takeCurrentStack_def storeGet_def persist_def Let_def split: option.splits)
qed (auto simp: revoked_empty_def manager_updates split: option.splits)

interpretation sticky: manager_invariant pf tm_revoked for pf
  by unfold_locales (auto simp: manager_updates takeCurrentStack_def Let_def split: option.splits)

definition store_wf :: "manager \<Rightarrow> bool" where
  "store_wf m \<longleftrightarrow> distinct (map fst (tm_store m)) \<and> list_all (\<lambda>(e, ts). list_all (\<lambda>t. length t = TOKEN_LEN) ts) (tm_store m)"


lemma update_wf:
  "store_wf m \<Longrightarrow> list_all (\<lambda>t. length t = TOKEN_LEN) ts \<Longrightarrow> store_wf (m\<lparr>tm_store := AList.update epoch ts (tm_store m)\<rparr>)"
proof -
  assume "store_wf m" "list_all (\<lambda>t. length t = TOKEN_LEN) ts"
  moreover have "set (AList.update epoch ts s) \<subseteq> insert (epoch, ts) (set s)" for s :: "(int \<times> bytes list) list"
    by (induction s) auto
  ultimately show ?thesis by (fastforce simp: store_wf_def list_all_iff distinct_update)
qed

lemma storeGet_wf: "store_wf m \<Longrightarrow> list_all (\<lambda>t. length t = TOKEN_LEN) (storeGet m epoch)"
  by (auto simp: store_wf_def storeGet_def list_all_iff split: option.splits dest!: map_of_SomeD)

lemma filtered_wf: "store_wf m \<Longrightarrow> store_wf (m\<lparr>tm_store := filter P (tm_store m)\<rparr>)"
  by (auto simp: store_wf_def list_all_iff distinct_map_filter)

lemma store_wf_cong: "tm_store m = tm_store m' \<Longrightarrow> store_wf m = store_wf m'"
  by (simp add: store_wf_def)

interpretation wf: manager_invariant pf store_wf for pf
proof
  fix m current S d n now
  assume wf: "store_wf m"
  show "store_wf ((pruneBefore current m)\<lparr>tm_settled := S, tm_directory := d, tm_epochSecs := Some n\<rparr>)"
    using filtered_wf [OF wf] by (simp add: store_wf_def pruneBefore_def)
  have "list_all (\<lambda>t. length t = TOKEN_LEN) (butlast (storeGet m e))" for e
    using storeGet_wf [OF wf, of e] by (auto simp: list_all_iff dest: in_set_butlastD)
  from wf update_wf [OF wf this] filtered_wf [OF wf]
  show "store_wf (snd (takeCurrentStack pf now m))"
    by (auto simp: takeCurrentStack_def persist_def Let_def AList.delete_eq store_wf_def split: option.splits)
next
  fix m and serialized :: "bytes list" and epoch
  assume "store_wf m" "list_all (\<lambda>t. length t = TOKEN_LEN) serialized"
  then show "store_wf (m\<lparr>tm_store := AList.update epoch (storeGet m epoch @ serialized) (tm_store m)\<rparr>)"
    by (intro update_wf) (simp_all add: storeGet_wf)
qed (auto simp: store_wf_def manager_updates split: option.splits)


text \<open>No pass touches the leased serials.\<close>

interpretation held: pass_invariant pf "\<lambda>m. tm_held m = H" for pf H
  by unfold_locales (auto simp: manager_updates takeCurrentStack_def Let_def split: option.splits)

text \<open>The keys of the live leases.\<close>

definition live_keys :: "lease list \<Rightarrow> string list" where
  "live_keys ls = map fst (filter snd ls)"

lemma live_keys_simps [simp]: "live_keys [] = []" "live_keys (ls @ ls') = live_keys ls @ live_keys ls'"
  "live_keys (l # ls) = (if snd l then fst l # live_keys ls else live_keys ls)"
  by (simp_all add: live_keys_def)

definition leases_wf :: "tm_system \<Rightarrow> bool" where
  "leases_wf s \<longleftrightarrow> tm_held (sy_manager s) = set (live_keys (sy_leases s)) \<and> distinct (live_keys (sy_leases s))"

lemma leases_wf_release:
  assumes "leases_wf s" "i < length (sy_leases s)" "release (sy_leases s ! i) (sy_manager s) = (l, m)"
  shows "leases_wf (s\<lparr>sy_manager := m, sy_leases := (sy_leases s)[i := l]\<rparr>)"
proof -
  have split: "sy_leases s = take i (sy_leases s) @ sy_leases s ! i # drop (Suc i) (sy_leases s)"
    "(sy_leases s)[i := l] = take i (sy_leases s) @ l # drop (Suc i) (sy_leases s)"
    using assms(2) by (rule id_take_nth_drop, rule upd_conv_take_nth_drop)
  have "live_keys (sy_leases s) = live_keys (take i (sy_leases s)) @ live_keys [sy_leases s ! i] @ live_keys (drop (Suc i) (sy_leases s))"
    by (subst split(1)) simp
  with assms(1,3) show ?thesis
    by (auto simp: leases_wf_def split(2) release_def split: if_splits)
qed

lemma leases_wf_step:
  assumes "tm_step pf ev s = Some s'" "leases_wf s"
  shows "leases_wf s'"
proof (cases ev)
  case (EvClaim token)
  then show ?thesis using assms by (auto simp: leases_wf_def claim_def split: option.splits if_splits)
next
  case (EvRelease i)
  then show ?thesis using assms leases_wf_release by (auto split: if_splits prod.splits)
qed (use assms held.keeps_pass_step [OF assms(1), of "tm_held (sy_manager s)"] in
    \<open>auto simp: leases_wf_def passed_Some split: option.splits pass.splits\<close>)

lemma leases_wf_reach: "tm_reach pf m0 s \<Longrightarrow> tm_held m0 = {} \<Longrightarrow> leases_wf s"
proof (induction rule: tm_reach.induct)
  case start
  then show ?case by (simp add: leases_wf_def)
qed (rule leases_wf_step)

section \<open>A new manager\<close>

lemma load_entry_wf: "store_wf m \<Longrightarrow> store_wf (m\<lparr>tm_store := load_entry pf toNumber kv (tm_store m)\<rparr>)"
proof -
  assume wf: "store_wf m"
  have "list_all (\<lambda>t. length t = TOKEN_LEN) (List.map_filter (decode_token pf) encoded)" for encoded
    by (auto simp: list_all_iff List.map_filter_def decode_token_def split: json.splits option.splits if_splits)
  from update_wf [OF wf this] wf show ?thesis
    by (auto simp: load_entry_def Let_def split: option.splits json.splits)
qed

lemma fold_load_wf: "store_wf m \<Longrightarrow> store_wf (m\<lparr>tm_store := fold (load_entry pf toNumber) kvs (tm_store m)\<rparr>)"
proof (induction kvs arbitrary: m)
  case (Cons kv kvs)
  from Cons.IH [OF load_entry_wf [OF Cons.prems]] show ?case by simp
qed simp

lemma newManager_start:
  assumes "newManager pf toNumber reg saved key rot dev = Inr m0"
  shows "store_wf m0" "\<not> tm_revoked m0" "tm_held m0 = {}" "tm_settled m0 = {}"
proof -
  define m where "m = \<lparr>tm_store = [], tm_settled = {}, tm_directory = None, tm_epochSecs = None, tm_held = {}, tm_rotation = rot,
    tm_blindingKey = key, tm_device = dev, tm_named = [], tm_revoked = False, tm_saved = saved\<rparr>"
  have m0: "m0 = loadPersisted pf toNumber m" using assms by (simp add: newManager_def m_def split: if_splits)
  have wf: "store_wf (m\<lparr>tm_epochSecs := n\<rparr>)" "store_wf m" for n by (simp_all add: store_wf_def m_def)
  show "store_wf m0" unfolding m0 loadPersisted_def Let_def
    using fold_load_wf wf by (auto split: option.splits)
  show "\<not> tm_revoked m0" "tm_held m0 = {}" "tm_settled m0 = {}"
    unfolding m0 loadPersisted_def Let_def by (simp_all add: m_def split: option.splits)
qed

section \<open>Properties\<close>

text \<open>The requests of a pass that name the account, so that a revocation can be answered to them.\<close>

fun awaits_account :: "pass \<Rightarrow> bool" where
  "awaits_account (PRegister now) = True"
| "awaits_account (PReregister ctx epoch rest d) = True"
| "awaits_account (PIssue ctx epoch rest device request p) = True"
| "awaits_account (PReissue ctx epoch rest request p) = True"
| "awaits_account _ = False"

fun answer_event :: "nat \<Rightarrow> warren_error \<Rightarrow> pass \<Rightarrow> tm_event" where
  "answer_event i err (PIssue ctx epoch rest device request p) = EvIssued i (Inl err)"
| "answer_event i err (PReissue ctx epoch rest request p) = EvIssued i (Inl err)"
| "answer_event i err _ = EvRegistered i (Inl err)"

lemma revocation_answer:
  assumes "pass_at s i = Some p" "awaits_account p" "is_code api_device_revoked err"
  shows "tm_step pf (answer_event i err p) s =
    Some (s\<lparr>sy_manager := revoke pf (sy_manager s), sy_passes := (sy_passes s)[i := PFailed err]\<rparr>)"
proof -
  have "\<not> is_code api_device_unregistered err" using assms(3) by (cases err) auto
  with assms show ?thesis
    by (cases p) (auto simp: passed_def registerAtStart_def reregistered_def mintAsDevice_def resume_pass_def mint_outcome_def
        got_issue_def split: option.splits)
qed

lemma revoked_vends_nothing: "tm_store m = [] \<Longrightarrow> sessionStack pf m now = [] \<and> takeCurrentStack pf now m = ([], m)"
  by (auto simp: sessionStack_def takeCurrentStack_def storeGet_def split: option.splits)

text \<open>
  C6. Revocation wins over everything in flight: a \<^verbatim>\<open>device_revoked\<close> answer to any request that names the account revokes
  the manager, and in every reachable state with the manager revoked, whatever passes and answers are still
  outstanding, the store and the persisted bundle hold no token, no token is vended, a refresh fails before any request,
  and every later state is revoked too.
\<close>

theorem revoked_device_holds_nothing:
  assumes m0: "newManager pf toNumber reg saved key rot dev = Inr m0" and s: "tm_reach pf m0 s"
  shows "(\<forall>i p err. pass_at s i = Some p \<and> awaits_account p \<and> is_code api_device_revoked err \<longrightarrow>
      (\<exists>s'. tm_step pf (answer_event i err p) s = Some s' \<and> tm_revoked (sy_manager s') \<and> pass_at s' i = Some (PFailed err))) \<and>
    (tm_revoked (sy_manager s) \<longrightarrow>
      tm_store (sy_manager s) = [] \<and> (\<exists>n. tm_saved (sy_manager s) = Some (stringify (empty_bundle n))) \<and>
      (\<forall>now. sessionStack pf (sy_manager s) now = [] \<and> fst (takeCurrentStack pf now (sy_manager s)) = [] \<and>
        (\<exists>err. refresh_start now (sy_manager s) = PFailed err)) \<and>
      (\<forall>ev s'. tm_step pf ev s = Some s' \<longrightarrow> tm_revoked (sy_manager s')))"
proof (intro conjI impI allI)
  fix i p err
  assume "pass_at s i = Some p \<and> awaits_account p \<and> is_code api_device_revoked err"
  moreover from this have "i < length (sy_passes s)" by (auto simp: pass_at_def split: if_splits)
  ultimately show "\<exists>s'. tm_step pf (answer_event i err p) s = Some s' \<and> tm_revoked (sy_manager s') \<and> pass_at s' i = Some (PFailed err)"
    using revocation_answer [of s i p err pf] by (auto simp: revoke_def persist_def pass_at_def)
next
  assume r: "tm_revoked (sy_manager s)"
  have "revoked_empty m0" using newManager_start(2) [OF m0] by (simp add: revoked_empty_def)
  from revoked.keeps_reach [OF s this] r
  show store: "tm_store (sy_manager s) = []" and "\<exists>n. tm_saved (sy_manager s) = Some (stringify (empty_bundle n))"
    by (auto simp: revoked_empty_def)
  fix now
  show "sessionStack pf (sy_manager s) now = []" "fst (takeCurrentStack pf now (sy_manager s)) = []"
    using revoked_vends_nothing [OF store] by simp_all
  show "\<exists>err. refresh_start now (sy_manager s) = PFailed err" using r by (simp add: refresh_start_def)
next
  fix ev s'
  assume "tm_revoked (sy_manager s)" "tm_step pf ev s = Some s'"
  then show "tm_revoked (sy_manager s')" by (rule sticky.keeps_step [rotated])
qed

text \<open>
  C30. The state of the manager is well formed in every reachable state: an epoch has one entry, every stored token has
  the 354 bytes of a token, and the leased serials are exactly those of the live leases, which are pairwise distinct, so
  no two sessions of the manager ever hold the same serial.
\<close>

theorem manager_well_formed:
  assumes "newManager pf toNumber reg saved key rot dev = Inr m0" and "tm_reach pf m0 s"
  shows "distinct (map fst (tm_store (sy_manager s))) \<and>
    (\<forall>(e, ts) \<in> set (tm_store (sy_manager s)). \<forall>t \<in> set ts. length t = 354) \<and>
    tm_held (sy_manager s) = set (live_keys (sy_leases s)) \<and> distinct (live_keys (sy_leases s))"
  using wf.keeps_reach [OF assms(2) newManager_start(1) [OF assms(1)]] leases_wf_reach [OF assms(2) newManager_start(3) [OF assms(1)]]
  by (auto simp: store_wf_def leases_wf_def list_all_iff TOKEN_LEN_def)

text \<open>
  The stack a session walks: exactly the well-formed tokens of the current epoch whose serial no live session holds,
  in the order of the batch from the rotation on. Its head can be claimed; the claim takes the tokens of that serial and
  no other off the stack, and releasing the lease, once or twice, restores the stack.
\<close>

theorem sessionStack_claim:
  assumes "sessionStack pf m now = t # rest"
  shows "(\<exists>epoch. epochAt m now = Some epoch \<and>
      t # rest = filter (token_free pf m) (rotate (tm_rotation m) (storeGet m epoch))) \<and>
    (\<exists>l m'. claim pf t m = (Some l, m') \<and> serialKey pf t = Some (fst l) \<and>
      sessionStack pf m' now = filter (\<lambda>u. serialKey pf u \<noteq> Some (fst l)) (t # rest) \<and> claim pf t m' = (None, m') \<and>
      (\<exists>l' m''. release l m' = (l', m'') \<and> sessionStack pf m'' now = t # rest \<and> release l' m'' = (l', m'')))"
proof -
  obtain epoch where e: "epochAt m now = Some epoch" "storeGet m epoch \<noteq> []"
    using assms by (auto simp: sessionStack_def Let_def split: option.splits if_splits)
  have stack: "sessionStack pf m1 now = filter (token_free pf m1) (rotate (tm_rotation m) (storeGet m epoch))"
    if "m1 = m\<lparr>tm_held := H\<rparr>" for m1 H
    using e by (simp add: that sessionStack_def epochAt_def storeGet_def Let_def rotate_drop_take)
  have "t \<in> set (filter (token_free pf m) (rotate (tm_rotation m) (storeGet m epoch)))"
    using stack [of m "tm_held m"] assms by (metis list.set_intros(1) manager.surjective manager.update_convs(5))
  then obtain key where key: "serialKey pf t = Some key" "key \<notin> tm_held m" by (auto simp: token_free_def split: option.splits)
  let ?m = "m\<lparr>tm_held := insert key (tm_held m)\<rparr>"
  have free: "token_free pf ?m = (\<lambda>u. serialKey pf u \<noteq> Some key \<and> token_free pf m u)"
    by (auto simp: token_free_def split: option.splits)
  have base: "t # rest = filter (token_free pf m) (rotate (tm_rotation m) (storeGet m epoch))"
    using stack [of m "tm_held m"] assms by simp
  have "sessionStack pf ?m now = filter (\<lambda>u. serialKey pf u \<noteq> Some key) (t # rest)"
    unfolding base using stack [of ?m] by (simp add: free conj_commute)
  moreover have "claim pf t m = (Some (key, True), ?m)" "claim pf t ?m = (None, ?m)" using key by (simp_all add: claim_def)
  moreover have "release (key, True) ?m = ((key, False), m)" "release (key, False) m = ((key, False), m)"
    using key by (simp_all add: release_def)
  ultimately show ?thesis using e(1) base key(1) assms by (metis fst_conv)
qed

lemma storeGet_update [simp]:
  "storeGet (m\<lparr>tm_store := AList.update e ts (tm_store m)\<rparr>) e' = (if e' = e then ts else storeGet m e')"
  by (simp add: storeGet_def update_conv')

lemma storeGet_delete [simp]:
  "storeGet (m\<lparr>tm_store := AList.delete e (tm_store m)\<rparr>) e' = (if e' = e then [] else storeGet m e')"
  by (simp add: storeGet_def delete_conv')

lemma storeGet_persist [simp]: "storeGet (persist pf m) e = storeGet m e"
  by (simp add: storeGet_def persist_def)

lemma epochAt_cong: "tm_epochSecs m = tm_epochSecs m' \<Longrightarrow> epochAt m now = epochAt m' now"
  by (simp add: epochAt_def)

text \<open>Several vends one after the other.\<close>

fun take_many :: "token_platform \<Rightarrow> int \<Rightarrow> nat \<Rightarrow> manager \<Rightarrow> bytes list \<times> manager" where
  "take_many pf now 0 m = ([], m)"
| "take_many pf now (Suc k) m =
     (case takeCurrentStack pf now m of (ts, m') \<Rightarrow> case take_many pf now k m' of (us, m'') \<Rightarrow> (ts @ us, m''))"

lemma take_one:
  assumes "epochAt m now = Some epoch"
  shows "fst (takeCurrentStack pf now m) = take 1 (rev (storeGet m epoch))"
    and "storeGet (snd (takeCurrentStack pf now m)) e = (if e = epoch then butlast (storeGet m epoch) else storeGet m e)"
    and "epochAt (snd (takeCurrentStack pf now m)) now = Some epoch"
    and "storeGet m epoch \<noteq> [] \<Longrightarrow> tm_saved (snd (takeCurrentStack pf now m)) =
      Some (stringify (bundle_json pf (snd (takeCurrentStack pf now m))))"
proof -
  have "take 1 (rev ts) = [last ts]" if "ts \<noteq> []" for ts :: "bytes list"
    using that by (cases ts rule: rev_exhaust) simp_all
  then show "fst (takeCurrentStack pf now m) = take 1 (rev (storeGet m epoch))"
    by (simp add: takeCurrentStack_def assms Let_def)
  show "storeGet (snd (takeCurrentStack pf now m)) e = (if e = epoch then butlast (storeGet m epoch) else storeGet m e)"
    by (simp add: takeCurrentStack_def assms Let_def)
  show "epochAt (snd (takeCurrentStack pf now m)) now = Some epoch"
    using assms by (simp add: takeCurrentStack_def assms Let_def persist_def epochAt_def)
  show "tm_saved (snd (takeCurrentStack pf now m)) = Some (stringify (bundle_json pf (snd (takeCurrentStack pf now m))))"
    if "storeGet m epoch \<noteq> []"
    using that by (simp add: takeCurrentStack_def assms Let_def persist_def bundle_json_def)
qed

text \<open>
  Vending conserves the stock: however often it is called within an epoch, \<^verbatim>\<open>takeCurrentStack\<close> hands out the tokens of that
  epoch from the last to the first, each once, then nothing; what is handed out and what is left make up the batch, and
  no other epoch is touched.
\<close>

theorem takeCurrentStack_conserves:
  assumes "epochAt m now = Some epoch"
  shows "fst (take_many pf now k m) = take k (rev (storeGet m epoch)) \<and>
    storeGet (snd (take_many pf now k m)) epoch @ rev (fst (take_many pf now k m)) = storeGet m epoch \<and>
    (\<forall>e. e \<noteq> epoch \<longrightarrow> storeGet (snd (take_many pf now k m)) e = storeGet m e)"
  using assms
proof (induction k arbitrary: m)
  case (Suc k)
  note one = take_one [OF Suc.prems, of pf]
  obtain ts m1 where m1: "takeCurrentStack pf now m = (ts, m1)" by fastforce
  obtain us m2 where m2: "take_many pf now k m1 = (us, m2)" by fastforce
  have "epochAt m1 now = Some epoch" using one(3) m1 by simp
  from Suc.IH [OF this, unfolded m2 fst_conv snd_conv] have ih: "us = take k (rev (storeGet m1 epoch))" "storeGet m2 epoch @ rev us = storeGet m1 epoch"
    "\<forall>e. e \<noteq> epoch \<longrightarrow> storeGet m2 e = storeGet m1 e"
    by blast+
  have "ts = take 1 (rev (storeGet m epoch))" "storeGet m1 epoch = butlast (storeGet m epoch)"
    "\<forall>e. e \<noteq> epoch \<longrightarrow> storeGet m1 e = storeGet m e"
    using one(1,2) m1 by simp_all
  then show ?case
    using ih m1 m2 by (cases "storeGet m epoch" rule: rev_exhaust) auto
qed simp

section \<open>Restarts\<close>

text \<open>What the platform promises about the text of a bundle.\<close>

definition bundle_laws :: "token_platform \<Rightarrow> (string \<Rightarrow> int option) \<Rightarrow> bool" where
  "bundle_laws pf toNumber \<longleftrightarrow> (\<forall>j. no_frac j \<longrightarrow> pf_parse pf (stringify j) = Some j) \<and>
     (\<forall>n. toNumber (show_int n) = Some n) \<and> (\<forall>bs. tp_b64Decode pf (tp_b64Encode pf bs) = Some bs)"

lemma load_entry_rendered:
  assumes "bundle_laws pf toNumber" "list_all (\<lambda>t. length t = TOKEN_LEN) ts"
  shows "load_entry pf toNumber (epoch_entry pf (e, ts)) s = (if 0 \<le> e \<and> ts \<noteq> [] then AList.update e ts s else s)"
proof -
  have "List.map_filter (decode_token pf) (map (\<lambda>t. JStr (tp_b64Encode pf t)) ts) = ts"
    using assms by (induction ts) (simp_all add: List.map_filter_def decode_token_def bundle_laws_def)
  then show ?thesis using assms(1) by (simp add: load_entry_def epoch_entry_def bundle_laws_def)
qed

lemma fold_load_rendered:
  assumes "bundle_laws pf toNumber" "list_all (\<lambda>(e, ts). list_all (\<lambda>t. length t = TOKEN_LEN) ts) xs" "distinct (map fst xs)"
  shows "map_of (fold (load_entry pf toNumber) (map (epoch_entry pf) xs) s) e =
    (case map_of xs e of Some ts \<Rightarrow> if 0 \<le> e \<and> ts \<noteq> [] then Some ts else map_of s e | None \<Rightarrow> map_of s e)"
  using assms(2,3)
proof (induction xs arbitrary: s)
  case (Cons x xs)
  obtain e' ts where x: "x = (e', ts)" by fastforce
  then have "map_of xs e' = None" using Cons.prems by (simp add: map_of_eq_None_iff)
  with Cons x show ?case by (auto simp: load_entry_rendered [OF assms(1)] update_conv' split: option.splits)
qed simp

lemma property_order_map_of:
  assumes "distinct (map fst s)"
  shows "map_of (js_property_order s) = map_of s" "distinct (map fst (js_property_order s))" "set (js_property_order s) = set s"
proof -
  have "mset (js_property_order s) = mset s"
    by (simp add: js_property_order_def Let_def flip: mset_filter) (simp add: mset_filter multiset_partition [symmetric])
  then show set: "set (js_property_order s) = set s" by (rule mset_eq_setD)
  from \<open>mset (js_property_order s) = mset s\<close> have "mset (map fst (js_property_order s)) = mset (map fst s)" by simp
  then show dist: "distinct (map fst (js_property_order s))" using assms mset_eq_imp_distinct_iff by blast
  show "map_of (js_property_order s) = map_of s" using map_of_inject_set [OF dist assms] set by simp
qed

text \<open>
  A restart loses nothing that can be spent: a manager constructed over the bundle another one persisted has the
  same epoch length and the same tokens for every epoch from zero on, and no epoch settled, so it asks the issuer again.
\<close>

theorem persist_load_roundtrip:
  assumes laws: "bundle_laws pf toNumber" and wf: "store_wf m"
    and new: "newManager pf toNumber reg (tm_saved (persist pf m)) key rot dev = Inr m0"
  shows "(\<forall>e. storeGet m0 e = (if 0 \<le> e then storeGet m e else [])) \<and>
    tm_epochSecs m0 = (case tm_epochSecs m of Some n \<Rightarrow> if 0 < n then Some n else None | None \<Rightarrow> None) \<and> tm_settled m0 = {}"
proof -
  let ?o = "js_property_order (tm_store m)"
  have d: "distinct (map fst (tm_store m))" using wf by (simp add: store_wf_def)
  note o = property_order_map_of [OF d]
  have lens: "list_all (\<lambda>(e, ts). list_all (\<lambda>t. length t = TOKEN_LEN) ts) ?o" using wf o(3) by (simp add: store_wf_def list_all_iff)
  have "no_frac (bundle_json pf m)" by (auto simp: bundle_json_def list_all_iff epoch_entry_def)
  then have parse: "pf_parse pf (stringify (bundle_json pf m)) = Some (bundle_json pf m)" using laws by (simp add: bundle_laws_def)
  have fields: "is_object (bundle_json pf m)" "jget (bundle_json pf m) ''v'' = Some (JInt BUNDLE_VERSION)"
    "jinteger (bundle_json pf m) ''epochSecs'' = Some (case tm_epochSecs m of Some n \<Rightarrow> n | None \<Rightarrow> 0)"
    "jget (bundle_json pf m) ''epochs'' = Some (JObj (map (epoch_entry pf) ?o))"
    by (simp_all add: bundle_json_def)
  have "tm_store m0 = fold (load_entry pf toNumber) (map (epoch_entry pf) ?o) []"
    "tm_epochSecs m0 = (case tm_epochSecs m of Some n \<Rightarrow> if 0 < n then Some n else None | None \<Rightarrow> None)" "tm_settled m0 = {}"
    using new parse fields
    by (auto simp: newManager_def loadPersisted_def persist_def Let_def simp del: jinteger_eq_Some split: if_splits option.splits)
  then show ?thesis
    using fold_load_rendered [OF laws lens o(2), of "[]"] o(1) by (auto simp: storeGet_def split: option.splits)
qed

section \<open>The settle ledger\<close>

definition settling :: "warren_error + Token list \<Rightarrow> manager \<Rightarrow> bool" where
  "settling result m = (case result of Inr _ \<Rightarrow> \<not> tm_revoked m | Inl err \<Rightarrow> already_issued err)"

lemma outcome_settled:
  "mint_outcome pf e result m = (m', err) \<Longrightarrow> tm_settled m' = (if settling result m then insert e (tm_settled m) else tm_settled m)"
  by (cases result rule: sum.exhaust; (rename_tac x; case_tac x)?)
     (auto simp: mint_outcome_def settling_def persist_def revoke_def Let_def split: sum.splits if_splits)

lemma mint_request_error: "mint_request pf directory epoch c key dev = Some (Inl err) \<Longrightarrow> \<not> already_issued err"
proof -
  have thrown: "\<not> already_issued (token_thrown e)" for e by (cases e) (simp_all add: edgeError_def)
  have batch: "blind_batch pf pk cd key epoch i k = Some (Inl err) \<Longrightarrow> \<not> already_issued err" for pk cd i k
    by (induction k arbitrary: i) (auto simp: bindR_eq_Inl_conv thrown split: option.splits sum.splits)
  have "issuerKeyForEpoch pf directory epoch = Inl err \<Longrightarrow> \<not> already_issued err"
    by (auto simp: issuerKeyForEpoch_def tokenR_def bindR_eq_Inl_conv thrown edgeError_def split: option.splits sum.splits if_splits)
  moreover assume "mint_request pf directory epoch c key dev = Some (Inl err)"
  ultimately show ?thesis
    using batch by (auto simp: mint_request_def tokenR_def bindR_eq_Inl_conv thrown split: sum.splits)
qed

lemma targets_settled: "run_targets pf ctx targets m = Some (m', p) \<Longrightarrow> tm_settled m' = tm_settled m"
proof (induction targets arbitrary: m)
  case Nil
  then show ?case by (auto simp: persist_def)
next
  case (Cons e rest)
  then show ?case
    by (auto split: option.splits sum.splits prod.splits dest!: outcome_settled mint_request_error simp: settling_def)
qed

lemma resume_settled:
  assumes "resume_pass pf ctx e rest result m = Some (m', p)"
  shows "tm_settled m' = (if settling result m then insert e (tm_settled m) else tm_settled m)"
proof -
  obtain m1 err where o: "mint_outcome pf e result m = (m1, err)" by fastforce
  then have "tm_settled m' = tm_settled m1"
    using assms targets_settled [of pf ctx rest m1 m' p] by (cases err) (simp_all add: resume_pass_def)
  with outcome_settled [OF o] show ?thesis by simp
qed

text \<open>The epoch an event settles: what the pass it belongs to was minting, if the answer says so.\<close>

fun settles :: "token_platform \<Rightarrow> tm_system \<Rightarrow> tm_event \<Rightarrow> int set" where
  "settles pf s (EvIssued i answer) =
     (case pass_at s i of
        Some (PIssue ctx e rest device request p) \<Rightarrow> if settling (got_issue pf p answer) (sy_manager s) then {e} else {}
      | Some (PReissue ctx e rest request p) \<Rightarrow> if settling (got_issue pf p answer) (sy_manager s) then {e} else {}
      | _ \<Rightarrow> {})"
| "settles pf s (EvRegistered i (Inl err)) =
     (case pass_at s i of Some (PReregister ctx e rest d) \<Rightarrow> if already_issued err then {e} else {} | _ \<Rightarrow> {})"
| "settles pf s _ = {}"

lemma adopt_settled [simp]: "tm_settled (adopt name m) = tm_settled m" "tm_revoked (adopt name m) = tm_revoked m"
  by (auto simp: adopt_def split: option.splits)

lemma registered_settled:
  assumes "reregistered pf ctx e rest d answer m = Some (m', p)"
  shows "tm_settled m' = tm_settled m \<union> (case answer of Inl err \<Rightarrow> if already_issued err then {e} else {} | Inr _ \<Rightarrow> {})"
proof (cases answer)
  case (Inl err)
  with assms have "resume_pass pf ctx e rest (Inl err) m = Some (m', p)" by (simp add: reregistered_def)
  from resume_settled [OF this] Inl show ?thesis by (simp add: settling_def)
next
  case (Inr name)
  with assms consider (refused) err where "mint_request pf (pc_directory ctx) e (td_quota_per_epoch (pc_directory ctx)) (pc_key ctx)
      (Some (dv_device_id d)) = Some (Inl err)" "resume_pass pf ctx e rest (Inl err) (adopt name m) = Some (m', p)"
    | (asked) "m' = adopt name m"
    by (auto simp: reregistered_def Let_def split: option.splits sum.splits)
  then show ?thesis
  proof cases
    case refused
    from resume_settled [OF refused(2)] mint_request_error [OF refused(1)] Inr show ?thesis by (simp add: settling_def)
  qed (simp add: Inr)
qed

lemma start_settled: "registerAtStart pf now answer m = (m', p) \<Longrightarrow> tm_settled m' = tm_settled m"
  by (auto simp: registerAtStart_def revoke_def persist_def split: sum.splits if_splits)

lemma mint_settled:
  "mintAsDevice pf ctx e rest device result m = Some (m', p) \<Longrightarrow>
     tm_settled m' = (if settling result m then insert e (tm_settled m) else tm_settled m)"
proof -
  have "is_code api_device_unregistered err \<Longrightarrow> \<not> already_issued err" for err by (cases err) auto
  then show "mintAsDevice pf ctx e rest device result m = Some (m', p) \<Longrightarrow> ?thesis"
    by (auto simp: mintAsDevice_def settling_def split: sum.splits option.splits if_splits dest!: resume_settled)
qed

lemma directory_settled:
  "got_directory pf now answer m = Some (m', p) \<Longrightarrow> tm_settled m' \<subseteq> tm_settled m"
  unfolding got_directory_def Let_def
  by (auto split: sum.splits option.splits prod.splits dest!: targets_settled simp: pruneBefore_def)

lemma take_settled: "tm_settled (snd (takeCurrentStack pf now m)) = tm_settled m"
  by (auto simp: takeCurrentStack_def persist_def Let_def split: option.splits)

text \<open>
  C24. The settle ledger: an event settles an epoch exactly when it answers the mint of that epoch with tokens the
  client finalized while not revoked, or with the definitive \<^verbatim>\<open>already_issued\<close>. Every other answer, a transport error, a
  refusal that can heal, an unusable key, leaves the ledger as it was, so the next refresh asks again; only a new
  directory removes epochs from it.
\<close>

theorem settle_ledger:
  assumes "tm_step pf ev s = Some s'"
  shows "(case ev of
      EvDirectory i answer \<Rightarrow> tm_settled (sy_manager s') \<subseteq> tm_settled (sy_manager s)
    | _ \<Rightarrow> tm_settled (sy_manager s') = tm_settled (sy_manager s) \<union> settles pf s ev)"
proof (cases ev)
  case (EvRegistered i answer)
  with assms consider (atStart) now where "pass_at s i = Some (PRegister now)"
      "passed s i (Some (registerAtStart pf now answer (sy_manager s))) = Some s'"
    | (again) ctx e rest d where "pass_at s i = Some (PReregister ctx e rest d)"
      "passed s i (reregistered pf ctx e rest d answer (sy_manager s)) = Some s'"
    by (auto split: option.splits pass.splits)
  then show ?thesis
  proof cases
    case atStart
    obtain m p where m: "registerAtStart pf now answer (sy_manager s) = (m, p)" by fastforce
    with atStart(2) have "s' = s\<lparr>sy_manager := m, sy_passes := (sy_passes s)[i := p]\<rparr>" by (simp add: passed_Some)
    then have "sy_manager s' = m" by simp
    with atStart(1) start_settled [OF m] EvRegistered show ?thesis by (cases answer) simp_all
  next
    case again
    then obtain m p where "reregistered pf ctx e rest d answer (sy_manager s) = Some (m, p)" "sy_manager s' = m"
      by (auto simp: passed_Some)
    with again(1) registered_settled [OF this(1)] EvRegistered show ?thesis by (cases answer) simp_all
  qed
next
  case (EvIssued i answer)
  with assms obtain p where "pass_at s i = Some p" by (cases "pass_at s i") auto
  with assms EvIssued show ?thesis by (cases p) (auto simp: passed_Some dest!: mint_settled resume_settled)
next
  case (EvDirectory i answer)
  then show ?thesis using assms
    by (auto simp: passed_Some split: option.splits pass.splits dest!: directory_settled)
qed (use assms in \<open>auto simp: take_settled manager_updates split: option.splits if_splits prod.splits\<close>)

section \<open>A pass against an answering issuer\<close>

text \<open>The pass \<open>i\<close> alone, each of its issue requests answered by \<open>answer\<close>, for at most \<open>k\<close> answers.\<close>

fun drive :: "token_platform \<Rightarrow> (TokenIssueRequest \<Rightarrow> warren_error + TokenIssueResponse) \<Rightarrow> nat \<Rightarrow> nat \<Rightarrow> tm_system \<Rightarrow> tm_system option" where
  "drive pf answer i 0 s = Some s"
| "drive pf answer i (Suc k) s =
     (case pass_at s i of
        Some (PIssue ctx epoch rest device request p) \<Rightarrow> Option.bind (tm_step pf (EvIssued i (answer request)) s) (drive pf answer i k)
      | _ \<Rightarrow> Some s)"

text \<open>
  The opening of a pass: the refresh, the answer \<open>reg\<close> to the registration that a manager of a device makes first, and the
  directory. The registration lets the pass go on unless it is refused for good.
\<close>

definition open_pass ::
    "token_platform \<Rightarrow> int \<Rightarrow> warren_error + string \<Rightarrow> TokenIssuerDirectory \<Rightarrow> tm_system \<Rightarrow> tm_system option" where
  "open_pass pf now reg directory s =
     (let i = length (sy_passes s) in
      Option.bind (tm_step pf (EvRefresh now) s) (\<lambda>s1.
      Option.bind (if tm_device (sy_manager s) = None then Some s1 else tm_step pf (EvRegistered i reg) s1) (\<lambda>s2.
      tm_step pf (EvDirectory i (Inr directory)) s2)))"

definition registers :: "warren_error + string \<Rightarrow> bool" where
  "registers reg \<longleftrightarrow>
     (case reg of Inr _ \<Rightarrow> True | Inl err \<Rightarrow> \<not> is_code api_device_revoked err \<and> \<not> is_code api_device_limit_reached err)"

text \<open>The serialized tokens the mint of an epoch for a device (or none) ends with, when its request is answered by \<open>answer\<close>.\<close>

definition mints :: "token_platform \<Rightarrow> (TokenIssueRequest \<Rightarrow> warren_error + TokenIssueResponse) \<Rightarrow> TokenIssuerDirectory \<Rightarrow> bytes \<Rightarrow>
    string option \<Rightarrow> int \<Rightarrow> bytes list option" where
  "mints pf answer directory key dev e =
     (case mint_request pf directory e (td_quota_per_epoch directory) key dev of
        Some (Inr (request, p)) \<Rightarrow>
          (case bindR (got_issue pf p (answer request)) (\<lambda>tokens. tokenR (mapR Token_serialize tokens)) of
             Inr bs \<Rightarrow> Some bs | Inl _ \<Rightarrow> None)
      | _ \<Rightarrow> None)"

lemma mints_Some:
  assumes "mints pf answer directory key dev e = Some bs"
  obtains request p tokens where "mint_request pf directory e (td_quota_per_epoch directory) key dev = Some (Inr (request, p))"
    "got_issue pf p (answer request) = Inr tokens" "mapR Token_serialize tokens = Inr bs"
  using assms by (auto simp: mints_def bindR_eq_Inr_conv split: option.splits sum.splits)

lemma drive_done: "pass_at s i = Some PDone \<Longrightarrow> drive pf answer i k s = Some s"
  by (cases k) simp_all

lemma drive_more: "drive pf answer i k s = Some s' \<Longrightarrow> pass_at s' i = Some PDone \<Longrightarrow> k \<le> k' \<Longrightarrow> drive pf answer i k' s = Some s'"
proof (induction k arbitrary: k' s)
  case 0
  then show ?case by (simp add: drive_done)
next
  case (Suc k)
  then obtain j where j: "k' = Suc j" "k \<le> j" by (cases k') auto
  with Suc show ?case by (auto split: option.splits pass.splits simp: bind_eq_Some_conv)
qed

text \<open>A pass over targets that all mint: it ends, settles them all, and appends each batch to its epoch.\<close>

lemma drive_targets:
  assumes i: "i < length (sy_passes s)"
    and minted: "\<And>e. e \<in> set targets \<Longrightarrow> mints pf answer (pc_directory ctx) (pc_key ctx) (map_option dv_device_id dev) e = Some (batch e)"
    and m: "\<not> tm_revoked m" "tm_device m = dev"
  shows "\<exists>m' p m''. run_targets pf ctx targets m = Some (m', p) \<and>
    drive pf answer i (length targets) (s\<lparr>sy_manager := m', sy_passes := (sy_passes s)[i := p]\<rparr>) =
      Some (s\<lparr>sy_manager := m'', sy_passes := (sy_passes s)[i := PDone]\<rparr>) \<and>
    (\<forall>e. storeGet m'' e = storeGet m e @ concat (replicate (count_list targets e) (batch e))) \<and>
    tm_settled m'' = tm_settled m \<union> set targets"
  using minted m
proof (induction targets arbitrary: m)
  case Nil
  then show ?case by (auto simp: persist_def storeGet_def)
next
  case (Cons t rest)
  obtain request p tokens where t: "mint_request pf (pc_directory ctx) t (td_quota_per_epoch (pc_directory ctx)) (pc_key ctx) (map_option dv_device_id dev) = Some (Inr (request, p))"
    "got_issue pf p (answer request) = Inr tokens" "mapR Token_serialize tokens = Inr (batch t)"
    using mints_Some [OF Cons.prems(1) [of t]] by auto
  let ?m = "m\<lparr>tm_settled := insert t (tm_settled m), tm_store := AList.update t (storeGet m t @ batch t) (tm_store m)\<rparr>"
  have out: "mint_outcome pf t (Inr tokens) m = (?m, None)"
    using Cons.prems(2) t(3) by (simp add: mint_outcome_def Let_def storeGet_def)
  have get: "storeGet ?m e = (if e = t then storeGet m t @ batch t else storeGet m e)" for e
    by (simp add: storeGet_def update_conv')
  obtain m' q m'' where ih: "run_targets pf ctx rest ?m = Some (m', q)"
    "drive pf answer i (length rest) (s\<lparr>sy_manager := m', sy_passes := (sy_passes s)[i := q]\<rparr>) =
      Some (s\<lparr>sy_manager := m'', sy_passes := (sy_passes s)[i := PDone]\<rparr>)"
    "\<forall>e. storeGet m'' e = storeGet ?m e @ concat (replicate (count_list rest e) (batch e))"
    "tm_settled m'' = tm_settled ?m \<union> set rest"
    using Cons.IH [of ?m] Cons.prems by auto
  have step: "tm_step pf (EvIssued i (answer request)) (s\<lparr>sy_manager := m, sy_passes := (sy_passes s)[i := PIssue ctx t rest dev request p]\<rparr>) =
      Some (s\<lparr>sy_manager := m', sy_passes := (sy_passes s)[i := q]\<rparr>)"
    using i ih(1) by (cases dev) (simp_all add: pass_at_def mintAsDevice_def resume_pass_def t(2) out passed_def)
  show ?case
    using t(1) Cons.prems(3) i step ih(2,3,4) get
    by (intro exI [of _ m] exI [of _ "PIssue ctx t rest dev request p"] exI [of _ m'']) (auto simp: pass_at_def)
qed

lemma count_distinct: "distinct xs \<Longrightarrow> x \<in> set xs \<Longrightarrow> count_list xs x = 1"
  by (induction xs) auto

lemma pass_opens:
  assumes "tm_blindingKey (sy_manager s) = Some key" "\<not> tm_revoked (sy_manager s)"
    and reg: "tm_device (sy_manager s) = None \<or> registers reg"
  shows "\<exists>m1. tm_blindingKey m1 = Some key \<and> \<not> tm_revoked m1 \<and> tm_settled m1 = tm_settled (sy_manager s) \<and>
    tm_store m1 = tm_store (sy_manager s) \<and>
    map_option dv_device_id (tm_device m1) = map_option dv_device_id (tm_device (sy_manager s)) \<and>
    (\<forall>s2. tm_step pf (EvDirectory (length (sy_passes s)) (Inr directory))
        (s\<lparr>sy_manager := m1, sy_passes := sy_passes s @ [PDirectory now]\<rparr>) = Some s2 \<longrightarrow>
      open_pass pf now reg directory s = Some s2)"
proof (cases "tm_device (sy_manager s)")
  case None
  with assms(1,2) show ?thesis by (intro exI [of _ "sy_manager s"]) (simp add: open_pass_def refresh_start_def)
next
  case (Some d)
  let ?m1 = "case reg of Inr name \<Rightarrow> adopt name (sy_manager s) | Inl _ \<Rightarrow> sy_manager s"
  have "registerAtStart pf now reg (sy_manager s) = (?m1, PDirectory now)"
    using reg Some by (auto simp: registers_def registerAtStart_def split: sum.splits)
  then have "open_pass pf now reg directory s =
      tm_step pf (EvDirectory (length (sy_passes s)) (Inr directory)) (s\<lparr>sy_manager := ?m1, sy_passes := sy_passes s @ [PDirectory now]\<rparr>)"
    using assms(1,2) Some by (simp add: open_pass_def Let_def refresh_start_def pass_at_def passed_def)
  then show ?thesis
    using assms(1,2) Some by (intro exI [of _ ?m1]) (auto simp: adopt_def split: sum.split)
qed

lemma refresh_drives:
  assumes m: "tm_blindingKey (sy_manager s) = Some key" "\<not> tm_revoked (sy_manager s)"
    and reg: "tm_device (sy_manager s) = None \<or> registers reg"
    and secs: "0 < td_epoch_secs directory" and dist: "distinct (map ik_epoch (td_keys directory))"
    and minted: "\<And>e. e \<in> ik_epoch ` set (td_keys directory) \<Longrightarrow> now div td_epoch_secs directory \<le> e \<Longrightarrow>
      e \<notin> tm_settled (sy_manager s) \<Longrightarrow>
      mints pf answer directory key (map_option dv_device_id (tm_device (sy_manager s))) e = Some (batch e)"
  shows "\<exists>s2 s3. open_pass pf now reg directory s = Some s2 \<and>
    drive pf answer (length (sy_passes s)) (length (td_keys directory)) s2 = Some s3 \<and> pass_at s3 (length (sy_passes s)) = Some PDone \<and>
    (\<forall>e \<in> ik_epoch ` set (td_keys directory). now div td_epoch_secs directory \<le> e \<and> e \<notin> tm_settled (sy_manager s) \<longrightarrow>
      e \<in> tm_settled (sy_manager s3) \<and> storeGet (sy_manager s3) e = storeGet (sy_manager s) e @ batch e)"
proof -
  let ?i = "length (sy_passes s)" and ?c = "now div td_epoch_secs directory"
  let ?targets = "filter (\<lambda>e. ?c \<le> e \<and> e \<notin> tm_settled (sy_manager s)) (map ik_epoch (td_keys directory))"
  obtain m1 where m1: "tm_blindingKey m1 = Some key" "\<not> tm_revoked m1" "tm_settled m1 = tm_settled (sy_manager s)"
      "tm_store m1 = tm_store (sy_manager s)"
      "map_option dv_device_id (tm_device m1) = map_option dv_device_id (tm_device (sy_manager s))"
    and opened: "\<And>s2. tm_step pf (EvDirectory ?i (Inr directory)) (s\<lparr>sy_manager := m1, sy_passes := sy_passes s @ [PDirectory now]\<rparr>) = Some s2
      \<Longrightarrow> open_pass pf now reg directory s = Some s2"
    using pass_opens [OF m reg] by metis
  let ?s1 = "s\<lparr>sy_manager := m1, sy_passes := sy_passes s @ [PDirectory now]\<rparr>"
  define m2 where "m2 = (pruneBefore ?c m1)\<lparr>tm_settled := Set.filter (\<lambda>e. \<not> e < ?c) (tm_settled m1),
    tm_directory := Some directory, tm_epochSecs := Some (td_epoch_secs directory)\<rparr>"
  let ?ctx = "\<lparr>pc_directory = directory, pc_key = key, pc_registered = False\<rparr>"
  have targets: "filter (\<lambda>e. e \<ge> ?c \<and> e \<notin> tm_settled m2) (map ik_epoch (td_keys directory)) = ?targets"
    by (intro filter_cong) (auto simp: m2_def m1)
  have got: "got_directory pf now (Inr directory) m1 = run_targets pf ?ctx ?targets m2"
    unfolding targets [symmetric] using secs m1(1) by (simp add: got_directory_def currentEpoch_def Let_def m2_def pruneBefore_def)
  have get: "storeGet m2 e = storeGet (sy_manager s) e" if "?c \<le> e" for e
  proof -
    have "map_of (filter (\<lambda>(e, _). \<not> e < ?c) xs) e = map_of xs e" for xs :: "(int \<times> bytes list) list"
      using that by (induction xs) auto
    then show ?thesis by (simp add: storeGet_def m2_def pruneBefore_def m1)
  qed
  obtain m' p m'' where d: "run_targets pf ?ctx ?targets m2 = Some (m', p)"
    "drive pf answer ?i (length ?targets) (?s1\<lparr>sy_manager := m', sy_passes := (sy_passes ?s1)[?i := p]\<rparr>) =
      Some (?s1\<lparr>sy_manager := m'', sy_passes := (sy_passes ?s1)[?i := PDone]\<rparr>)"
    "\<forall>e. storeGet m'' e = storeGet m2 e @ concat (replicate (count_list ?targets e) (batch e))"
    "tm_settled m'' = tm_settled m2 \<union> set ?targets"
    using drive_targets [of ?i ?s1 ?targets pf answer ?ctx "tm_device m1" batch m2] m1 minted by (auto simp: m2_def pruneBefore_def)
  let ?s2 = "?s1\<lparr>sy_manager := m', sy_passes := (sy_passes ?s1)[?i := p]\<rparr>"
  let ?s3 = "?s1\<lparr>sy_manager := m'', sy_passes := (sy_passes ?s1)[?i := PDone]\<rparr>"
  have done3: "pass_at ?s3 ?i = Some PDone" by (simp add: pass_at_def)
  have s2: "tm_step pf (EvDirectory ?i (Inr directory)) ?s1 = Some ?s2" using got d(1) by (simp add: pass_at_def passed_def)
  have s3: "drive pf answer ?i (length (td_keys directory)) ?s2 = Some ?s3"
    by (rule drive_more [OF d(2) done3]) (metis length_filter_le length_map)
  have "e \<in> tm_settled m'' \<and> storeGet m'' e = storeGet (sy_manager s) e @ batch e"
    if "e \<in> ik_epoch ` set (td_keys directory)" "?c \<le> e" "e \<notin> tm_settled (sy_manager s)" for e
  proof -
    from that have "e \<in> set ?targets" by auto
    moreover have "distinct ?targets" using dist by simp
    ultimately have "count_list ?targets e = 1" by (simp add: count_distinct)
    with \<open>e \<in> set ?targets\<close> d(3,4) get [OF that(2)] show ?thesis by simp
  qed
  with opened [OF s2] s3 done3 show ?thesis by (intro exI conjI) (assumption, assumption, assumption, simp)
qed

text \<open>An issuer with a key of its own for each epoch, which signs every request.\<close>

definition honest_answer :: "token_platform \<Rightarrow> (int \<Rightarrow> IssuerPublicKey \<times> nat) \<Rightarrow> TokenIssueRequest \<Rightarrow> warren_error + TokenIssueResponse" where
  "honest_answer pf issuer request =
     (case tr_epochs request of
        (e, _) # _ \<Rightarrow> fst (honest_issue pf (fst (issuer e)) (snd (issuer e)) () request)
      | [] \<Rightarrow> Inr [])"

text \<open>The issuer can serve the epoch: its key is the published one and the searches of the batch end.\<close>

definition servable :: "token_platform \<Rightarrow> (int \<Rightarrow> IssuerPublicKey \<times> nat) \<Rightarrow> TokenIssuerDirectory \<Rightarrow> bytes \<Rightarrow> int \<Rightarrow> bool" where
  "servable pf issuer directory key e \<longleftrightarrow> issuerKeyForEpoch pf directory e = Inr (fst (issuer e)) \<and> rsa_key (fst (issuer e)) (snd (issuer e)) \<and>
     (\<forall>i < nat (td_quota_per_epoch directory). randomCoprime (pk_n (fst (issuer e))) (slot_draw pf key e i) 3 \<noteq> None)"

lemma redeemable_serializes:
  "\<forall>i < length tokens. redeemable sha384 pk cd (nonce i) (tokens ! i) \<Longrightarrow> \<exists>bs. mapR Token_serialize tokens = Inr bs"
proof (induction tokens arbitrary: nonce)
  case (Cons t tokens)
  from Cons.prems have "redeemable sha384 pk cd (nonce 0) t" by (metis length_greater_0_conv list.distinct(1) nth_Cons_0)
  moreover have "\<forall>i < length tokens. redeemable sha384 pk cd (nonce (Suc i)) (tokens ! i)" using Cons.prems by auto
  ultimately show ?case using Cons.IH [of "nonce \<circ> Suc"] by (auto simp: redeemable_def split: sum.splits)
qed simp

lemma servable_mints:
  assumes laws: "mint_laws pf" and sv: "servable pf issuer directory key e"
  shows "\<exists>bs. mints pf (honest_answer pf issuer) directory key dev e = Some bs \<and> length bs = nat (td_quota_per_epoch directory)"
proof -
  let ?q = "td_quota_per_epoch directory"
  obtain tokens where t: "mintEpoch pf (honest_issue pf (fst (issuer e)) (snd (issuer e))) directory e ?q key dev () = Some (Inr tokens, ())"
    "length tokens = nat ?q"
    using mint_returns [OF laws, of directory e "fst (issuer e)" "snd (issuer e)" ?q key dev "()"] sv by (auto simp: servable_def)
  obtain cd where cd: "challengeDigestForEpoch (pf_sha256 pf) (td_issuer_name directory) (td_context_label directory) e = Inr cd"
    using epoch_challenge [OF laws] by blast
  from sv have "issuerKeyForEpoch pf directory e = Inr (fst (issuer e))" "rsa_key (fst (issuer e)) (snd (issuer e))"
    by (simp_all add: servable_def)
  from mint_redeemable [OF laws this cd t(1)] obtain bs where bs: "mapR Token_serialize tokens = Inr bs"
    using redeemable_serializes by blast
  from t obtain request p where r: "mint_request pf directory e ?q key dev = Some (Inr (request, p))"
    "bindR (fst (honest_issue pf (fst (issuer e)) (snd (issuer e)) () request)) (mint_finish pf p) = Inr tokens"
    by (auto simp: mintEpoch_def split: option.splits sum.splits prod.splits)
  obtain b where "tr_epochs request = [(e, b)]"
    using r(1) by (auto simp: mint_request_def bindR_eq_Inr_conv split: sum.splits)
  then have "honest_answer pf issuer request = fst (honest_issue pf (fst (issuer e)) (snd (issuer e)) () request)"
    by (simp add: honest_answer_def)
  then have "mints pf (honest_answer pf issuer) directory key dev e = Some bs" by (simp add: mints_def r got_issue_def bs)
  with mapR_length [OF bs] t(2) show ?thesis by auto
qed

text \<open>
  C25. A refresh stocks what is published: for a manager that may mint, registered to a device or to none, a pass that
  runs alone against an issuer that can serve the published epochs ends after at most one request per key, and every
  unsettled epoch from the current one on is then settled and holds its full quota of tokens on top of what the
  store had. A manager of a device registers it first; any answer to that will do, except a revocation or the
  device limit.
\<close>

theorem refresh_stocks_epochs:
  assumes "mint_laws pf"
    and "tm_blindingKey (sy_manager s) = Some key" "\<not> tm_revoked (sy_manager s)"
    and "tm_device (sy_manager s) = None \<or> registers reg"
    and "0 < td_epoch_secs directory" "distinct (map ik_epoch (td_keys directory))"
    and "\<And>e. e \<in> ik_epoch ` set (td_keys directory) \<Longrightarrow> servable pf issuer directory key e"
  shows "\<exists>s2 s3. open_pass pf now reg directory s = Some s2 \<and>
    drive pf (honest_answer pf issuer) (length (sy_passes s)) (length (td_keys directory)) s2 = Some s3 \<and>
    pass_at s3 (length (sy_passes s)) = Some PDone \<and>
    (\<forall>e \<in> ik_epoch ` set (td_keys directory). now div td_epoch_secs directory \<le> e \<and> e \<notin> tm_settled (sy_manager s) \<longrightarrow>
      e \<in> tm_settled (sy_manager s3) \<and> available (sy_manager s3) e = available (sy_manager s) e + nat (td_quota_per_epoch directory))"
proof -
  let ?mints = "mints pf (honest_answer pf issuer) directory key (map_option dv_device_id (tm_device (sy_manager s)))"
  have mints: "?mints e = Some (the (?mints e)) \<and> length (the (?mints e)) = nat (td_quota_per_epoch directory)"
    if "e \<in> ik_epoch ` set (td_keys directory)" for e
    using servable_mints [OF assms(1) assms(7) [OF that], of "map_option dv_device_id (tm_device (sy_manager s))"] by auto
  from refresh_drives [OF assms(2-6), where answer = "honest_answer pf issuer" and batch = "\<lambda>e. the (?mints e)" and pf = pf and now = now]
  obtain s2 s3 where "open_pass pf now reg directory s = Some s2"
    "drive pf (honest_answer pf issuer) (length (sy_passes s)) (length (td_keys directory)) s2 = Some s3"
    "pass_at s3 (length (sy_passes s)) = Some PDone"
    "\<forall>e \<in> ik_epoch ` set (td_keys directory). now div td_epoch_secs directory \<le> e \<and> e \<notin> tm_settled (sy_manager s) \<longrightarrow>
      e \<in> tm_settled (sy_manager s3) \<and> storeGet (sy_manager s3) e = storeGet (sy_manager s) e @ the (?mints e)"
    using mints by blast
  with mints show ?thesis by (intro exI conjI) (assumption, assumption, assumption, auto simp: available_def)
qed

text \<open>
  A refresh appends without looking at what is stored: when the store already holds the batch the issuer serves
  again for a published current epoch that this process has not settled, which is the state after a restart, the store holds
  every token of the batch twice after the pass.
\<close>

theorem refresh_doubles_reserved_batch:
  assumes "tm_blindingKey (sy_manager s) = Some key" "\<not> tm_revoked (sy_manager s)" "tm_device (sy_manager s) = None"
    and "td_keys directory = [k]" "now div td_epoch_secs directory \<le> ik_epoch k" "0 < td_epoch_secs directory"
    and "ik_epoch k \<notin> tm_settled (sy_manager s)"
    and "mints pf answer directory key None (ik_epoch k) = Some bs" "storeGet (sy_manager s) (ik_epoch k) = bs"
  shows "\<exists>s2 s3. open_pass pf now reg directory s = Some s2 \<and>
    drive pf answer (length (sy_passes s)) 1 s2 = Some s3 \<and> pass_at s3 (length (sy_passes s)) = Some PDone \<and>
    storeGet (sy_manager s3) (ik_epoch k) = bs @ bs"
  using refresh_drives [OF assms(1,2) disjI1 [OF assms(3)] assms(6), where answer = answer and batch = "\<lambda>_. bs" and pf = pf and now = now and reg = reg]
    assms by auto

section \<open>Sample runs\<close>

definition sample_token :: "byte \<Rightarrow> bytes" where
  "sample_token b = 0 # 2 # b # replicate 351 0"

definition sample_device :: DeviceRegistration where
  "sample_device = \<lparr>dv_device_id = ''id'', dv_name = ''otter'', dv_platform = ''linux'', dv_app_version = ''1.0''\<rparr>"

definition sample_manager :: manager where
  "sample_manager = \<lparr>tm_store = [(7, [sample_token 1, sample_token 2])], tm_settled = {}, tm_directory = None, tm_epochSecs = Some 3600,
     tm_held = {}, tm_rotation = 1, tm_blindingKey = Some [], tm_device = None, tm_named = [], tm_revoked = False, tm_saved = None\<rparr>"

definition fresh_manager :: "DeviceRegistration option \<Rightarrow> manager" where
  "fresh_manager dev = \<lparr>tm_store = [], tm_settled = {}, tm_directory = None, tm_epochSecs = None, tm_held = {}, tm_rotation = 0,
     tm_blindingKey = Some [], tm_device = dev, tm_named = [], tm_revoked = False, tm_saved = None\<rparr>"

lemma fresh_manager_new: "newManager pf toNumber True None (Some []) 0 dev = Inr (fresh_manager dev)"
  by (simp add: newManager_def loadPersisted_def fresh_manager_def)

lemma sample_token_serial: "serialKey sample_token_platform (sample_token b) = Some (hex_encode (replicate 32 0))"
  by (simp add: serialKey_def tokenSerial_def sample_token_def TOKEN_LEN_def TOKEN_TYPE_BLIND_RSA_def)

theorem revoked_device_holds_nothing_witness:
  "\<exists>s. tm_reach sample_token_platform (fresh_manager (Some sample_device)) s \<and> tm_revoked (sy_manager s) \<and>
    tm_store (sy_manager s) = [] \<and> (\<exists>n. tm_saved (sy_manager s) = Some (stringify (empty_bundle n)))"
proof -
  let ?pf = sample_token_platform and ?m = "fresh_manager (Some sample_device)"
  let ?s0 = "\<lparr>sy_manager = ?m, sy_passes = [PRegister 0], sy_leases = []\<rparr>" and ?err = "apiError api_device_revoked"
  note rh = revoked_device_holds_nothing [OF fresh_manager_new [of ?pf "\<lambda>_. None" "Some sample_device"]]
  have "tm_step ?pf (EvRefresh 0) \<lparr>sy_manager = ?m, sy_passes = [], sy_leases = []\<rparr> = Some ?s0"
    by (simp add: refresh_start_def fresh_manager_def)
  then have s0: "tm_reach ?pf ?m ?s0" by (rule tm_reach.step [OF tm_reach.start])
  have "pass_at ?s0 0 = Some (PRegister 0)" "awaits_account (PRegister 0)" "is_code api_device_revoked ?err"
    by (simp_all add: pass_at_def apiError_def)
  then obtain s where "tm_step ?pf (answer_event 0 ?err (PRegister 0)) ?s0 = Some s" "tm_revoked (sy_manager s)"
    using rh [OF s0] by blast
  then have "tm_reach ?pf ?m s" "tm_revoked (sy_manager s)" using tm_reach.step [OF s0] by blast+
  with rh [of s] show ?thesis by blast
qed

theorem manager_well_formed_witness:
  "\<exists>s. tm_reach sample_token_platform (fresh_manager None) s \<and> tm_held (sy_manager s) = {hex_encode (replicate 32 0)} \<and>
    set (live_keys (sy_leases s)) = {hex_encode (replicate 32 0)}"
proof -
  let ?pf = sample_token_platform and ?k = "hex_encode (replicate 32 0)"
  let ?s = "\<lparr>sy_manager = (fresh_manager None)\<lparr>tm_held := {?k}\<rparr>, sy_passes = [], sy_leases = [(?k, True)]\<rparr>"
  have "tm_step ?pf (EvClaim (sample_token 1)) \<lparr>sy_manager = fresh_manager None, sy_passes = [], sy_leases = []\<rparr> = Some ?s"
    by (simp add: claim_def sample_token_serial fresh_manager_def)
  then have "tm_reach ?pf (fresh_manager None) ?s" by (rule tm_reach.step [OF tm_reach.start])
  with manager_well_formed [OF fresh_manager_new [of ?pf "\<lambda>_. None" None] this] show ?thesis by force
qed

theorem sessionStack_claim_witness:
  "sessionStack sample_token_platform sample_manager 25200 = [sample_token 2, sample_token 1] \<and>
    (\<exists>l m'. claim sample_token_platform (sample_token 2) sample_manager = (Some l, m') \<and> sessionStack sample_token_platform m' 25200 = [])"
proof -
  have s: "sessionStack sample_token_platform sample_manager 25200 = [sample_token 2, sample_token 1]"
    by (simp add: sessionStack_def epochAt_def sample_manager_def storeGet_def Let_def token_free_def sample_token_serial)
  from sessionStack_claim [OF s] s show ?thesis by (auto simp: sample_token_serial)
qed

theorem takeCurrentStack_conserves_witness:
  "fst (take_many sample_token_platform 25200 3 sample_manager) = [sample_token 2, sample_token 1]"
proof -
  have "epochAt sample_manager 25200 = Some 7" by (simp add: epochAt_def sample_manager_def)
  from takeCurrentStack_conserves [OF this, of sample_token_platform 3] show ?thesis by (simp add: storeGet_def sample_manager_def)
qed

definition sample_number :: "string \<Rightarrow> int option" where
  "sample_number k = map_option fst (read_number k)"

lemma sample_bundle_laws: "bundle_laws sample_token_platform sample_number"
proof -
  have "read_number (show_int n) = Some (n, [])" for n using read_number_show [of "[]" n] by (simp add: num_end_def)
  then show ?thesis by (simp add: bundle_laws_def sample_number_def json_read_stringify)
qed

theorem persist_load_roundtrip_witness:
  "\<exists>m0. newManager sample_token_platform sample_number True (tm_saved (persist sample_token_platform sample_manager)) None 0 None = Inr m0 \<and>
    storeGet m0 7 = [sample_token 1, sample_token 2] \<and> tm_epochSecs m0 = Some 3600"
proof -
  have wf: "store_wf sample_manager" by (simp add: store_wf_def sample_manager_def sample_token_def TOKEN_LEN_def)
  obtain m0 where n: "newManager sample_token_platform sample_number True (tm_saved (persist sample_token_platform sample_manager)) None 0 None = Inr m0"
    by (simp add: newManager_def)
  from persist_load_roundtrip [OF sample_bundle_laws wf n] n show ?thesis by (simp add: storeGet_def sample_manager_def)
qed

text \<open>A pass that waits for the second answer to the mint of epoch 7; the answer is that the batch was issued already.\<close>

definition waiting_system :: tm_system where
  "waiting_system = \<lparr>sy_manager = sample_manager,
     sy_passes = [PReissue \<lparr>pc_directory = sample_directory, pc_key = [], pc_registered = True\<rparr> 7 []
       \<lparr>tr_epochs = [(7, [])], tr_device_id = None\<rparr> \<lparr>mp_epoch = 7, mp_pk = sample_issuer, mp_states = []\<rparr>],
     sy_leases = []\<rparr>"

theorem settle_ledger_witness:
  "\<exists>s'. tm_step sample_token_platform (EvIssued 0 (Inl (rejected_error (Some REJECT_ALREADY_ISSUED)))) waiting_system = Some s' \<and>
    tm_settled (sy_manager waiting_system) = {} \<and> tm_settled (sy_manager s') = {7}"
proof -
  obtain s' where s': "tm_step sample_token_platform (EvIssued 0 (Inl (rejected_error (Some REJECT_ALREADY_ISSUED)))) waiting_system = Some s'"
    by (simp add: waiting_system_def pass_at_def resume_pass_def got_issue_def mint_outcome_def rejected_error_def passed_def REJECT_ALREADY_ISSUED_def)
  with settle_ledger [OF this] show ?thesis
    by (simp add: waiting_system_def sample_manager_def pass_at_def got_issue_def rejected_error_def REJECT_ALREADY_ISSUED_def settling_def)
qed

definition sample_keys :: "int \<Rightarrow> IssuerPublicKey \<times> nat" where
  "sample_keys e = (sample_issuer, 1)"

lemma sample_servable: "servable sample_token_platform sample_keys sample_directory [] 7"
proof -
  have "td_quota_per_epoch sample_directory = 1" by (simp add: sample_directory_def)
  then show ?thesis
    using sample_search [of "[]"] sample_issuer_rsa by (simp add: servable_def sample_keys_def sample_issuer_key)
qed

theorem refresh_stocks_epochs_witness:
  "\<exists>s2 s3. open_pass sample_token_platform 25200 (Inr ''badger'') sample_directory
      \<lparr>sy_manager = fresh_manager (Some sample_device), sy_passes = [], sy_leases = []\<rparr> = Some s2 \<and>
    drive sample_token_platform (honest_answer sample_token_platform sample_keys) 0 1 s2 = Some s3 \<and>
    pass_at s3 0 = Some PDone \<and> available (sy_manager s3) 7 = 1"
proof -
  let ?s = "\<lparr>sy_manager = fresh_manager (Some sample_device), sy_passes = [], sy_leases = []\<rparr>"
  have "\<exists>s2 s3. open_pass sample_token_platform 25200 (Inr ''badger'') sample_directory ?s = Some s2 \<and>
    drive sample_token_platform (honest_answer sample_token_platform sample_keys) (length (sy_passes ?s)) (length (td_keys sample_directory)) s2 = Some s3 \<and>
    pass_at s3 (length (sy_passes ?s)) = Some PDone \<and>
    (\<forall>e \<in> ik_epoch ` set (td_keys sample_directory). 25200 div td_epoch_secs sample_directory \<le> e \<and> e \<notin> tm_settled (sy_manager ?s) \<longrightarrow>
      e \<in> tm_settled (sy_manager s3) \<and> available (sy_manager s3) e = available (sy_manager ?s) e + nat (td_quota_per_epoch sample_directory))"
    by (rule refresh_stocks_epochs [OF sample_laws]) (use sample_servable in \<open>auto simp: fresh_manager_def sample_directory_def registers_def\<close>)
  moreover have "length (td_keys sample_directory) = 1" by (simp add: sample_directory_def)
  ultimately show ?thesis by (auto simp: fresh_manager_def sample_directory_def available_def storeGet_def)
qed

theorem refresh_doubles_reserved_batch_witness:
  "\<exists>bs s2 s3. length bs = 1 \<and>
    open_pass sample_token_platform 25200 (Inr []) sample_directory
      \<lparr>sy_manager = (fresh_manager None)\<lparr>tm_store := [(7, bs)]\<rparr>, sy_passes = [], sy_leases = []\<rparr> = Some s2 \<and>
    drive sample_token_platform (honest_answer sample_token_platform sample_keys) 0 1 s2 = Some s3 \<and>
    storeGet (sy_manager s3) 7 = bs @ bs"
proof -
  obtain k where k: "td_keys sample_directory = [k]" "ik_epoch k = 7" by (simp add: sample_directory_def)
  obtain bs where bs: "mints sample_token_platform (honest_answer sample_token_platform sample_keys) sample_directory [] None 7 = Some bs" "length bs = 1"
    using servable_mints [OF sample_laws sample_servable] by (force simp: sample_directory_def)
  let ?s = "\<lparr>sy_manager = (fresh_manager None)\<lparr>tm_store := [(7, bs)]\<rparr>, sy_passes = [], sy_leases = []\<rparr>"
  have get: "storeGet (sy_manager ?s) (ik_epoch k) = bs" by (simp add: storeGet_def k)
  have "\<exists>s2 s3. open_pass sample_token_platform 25200 (Inr []) sample_directory ?s = Some s2 \<and>
    drive sample_token_platform (honest_answer sample_token_platform sample_keys) (length (sy_passes ?s)) 1 s2 = Some s3 \<and>
    pass_at s3 (length (sy_passes ?s)) = Some PDone \<and> storeGet (sy_manager s3) (ik_epoch k) = bs @ bs"
    by (rule refresh_doubles_reserved_batch [OF _ _ _ k(1) _ _ _ _ get])
       (use bs(1) in \<open>simp_all add: fresh_manager_def k sample_directory_def\<close>)
  with bs(2) show ?thesis unfolding k by (intro exI [of _ bs]) auto
qed

end
