(* ===== verification/Session_Walk.thy ===== *)
theory Session_Walk
  imports Token_Manager Control
begin

text \<open>
  The admission walk, \<^verbatim>\<open>packages/core/src/edge/session-walk.ts\<close>. The walk runs against a world \<open>'w\<close>: the pool of leases it
  claims from, the setup attempts it makes and the connections it closes, each a state-passing argument. The pool is
  stated as a locale and interpreted by the leases of the token manager.
\<close>

definition INDEPENDENT_SESSION_PLACEMENT :: bytes where
  "INDEPENDENT_SESSION_PLACEMENT = replicate 4 0"

record SessionAttempt =
  at_control :: ControlMessage
  at_connection :: nat

record 'l SessionWalkResult =
  wr_attempt :: SessionAttempt
  wr_token :: bytes
  wr_lease :: "'l option"

text \<open>The walk throws \<^verbatim>\<open>no_session_token\<close> after so many refusals, or what an attempt threw.\<close>

datatype walk_error = NoSessionToken nat | AttemptThrew warren_error

fun walk_thrown :: "walk_error \<Rightarrow> warren_error" where
  "walk_thrown (NoSessionToken refused) = edgeError edge_no_session_token"
| "walk_thrown (AttemptThrew e) = e"

record ('l, 'w) walk_io =
  io_attempt :: "bytes \<Rightarrow> 'l option \<Rightarrow> 'w \<Rightarrow> (warren_error + SessionAttempt) \<times> 'w"
  io_close :: "SessionAttempt \<Rightarrow> 'w \<Rightarrow> 'w"
  io_claim :: "(bytes \<Rightarrow> 'w \<Rightarrow> 'l option \<times> 'w) option"
  io_release :: "'l \<Rightarrow> 'w \<Rightarrow> 'w"

definition release_opt :: "('l, 'w) walk_io \<Rightarrow> 'l option \<Rightarrow> 'w \<Rightarrow> 'w" where
  "release_opt io lease w = (case lease of Some l \<Rightarrow> io_release io l w | None \<Rightarrow> w)"

definition claim_opt :: "('l, 'w) walk_io \<Rightarrow> bytes \<Rightarrow> 'w \<Rightarrow> 'l option \<times> 'w" where
  "claim_opt io token w = (case io_claim io of Some c \<Rightarrow> c token w | None \<Rightarrow> (None, w))"

fun walk_loop :: "('l, 'w) walk_io \<Rightarrow> nat \<Rightarrow> bytes list \<Rightarrow> 'w \<Rightarrow> (walk_error + 'l SessionWalkResult) \<times> 'w" where
  "walk_loop io refused [] w = (Inl (NoSessionToken refused), w)"
| "walk_loop io refused (token # rest) w =
     (case claim_opt io token w of (lease, w1) \<Rightarrow>
        if io_claim io \<noteq> None \<and> lease = None then walk_loop io refused rest w1
        else (case io_attempt io token lease w1 of
                (Inl e, w2) \<Rightarrow> (Inl (AttemptThrew e), release_opt io lease w2)
              | (Inr answered, w2) \<Rightarrow>
                  if at_control answered = MRejected
                  then walk_loop io (refused + 1) rest (release_opt io lease (io_close io answered w2))
                  else (Inr \<lparr>wr_attempt = answered, wr_token = token, wr_lease = lease\<rparr>, w2)))"

definition walkSessionTokens :: "('l, 'w) walk_io \<Rightarrow> bytes list \<Rightarrow> 'w \<Rightarrow> (walk_error + 'l SessionWalkResult) \<times> 'w" where
  "walkSessionTokens io stack w = walk_loop io 0 (take MAX_SESSION_TOKENS stack) w"

section \<open>Lease pools\<close>

text \<open>
  What the walk relies on: a claim takes a key nobody holds or changes nothing and giving it back frees it. An attempt
  that throws, and the closing of an answered one, may have given back the lease they were handed, and change nothing
  else of the pool.
\<close>

locale lease_pool =
  fixes io :: "('l, 'w) walk_io" and pool_claim :: "bytes \<Rightarrow> 'w \<Rightarrow> 'l option \<times> 'w" and held :: "'w \<Rightarrow> 'k set" and lease_key :: "'l \<Rightarrow> 'k"
  assumes has_claim: "io_claim io = Some pool_claim"
    and claim_fresh: "pool_claim token w = (Some l, w') \<Longrightarrow> lease_key l \<notin> held w \<and> held w' = insert (lease_key l) (held w)"
    and claim_refused: "pool_claim token w = (None, w') \<Longrightarrow> held w' = held w"
    and release_claimed: "pool_claim token w = (Some l, w') \<Longrightarrow> held (io_release io l w'') = held w'' - {lease_key l}"
    and attempt_answered: "io_attempt io token (Some l) w = (Inr a, w') \<Longrightarrow> held w' = held w"
    and attempt_threw: "io_attempt io token (Some l) w = (Inl e, w') \<Longrightarrow> held w' = held w \<or> held w' = held w - {lease_key l}"
    and close_answered: "io_attempt io token (Some l) w = (Inr a, w') \<Longrightarrow>
      held (io_close io a w') = held w \<or> held (io_close io a w') = held w - {lease_key l}"
begin

lemma attempt_released:
  assumes "pool_claim token w = (Some l, w1)" "held w2 = held w1 \<or> held w2 = held w1 - {lease_key l}"
  shows "held (io_release io l w2) = held w"
  using claim_fresh [OF assms(1)] release_claimed [OF assms(1), of w2] assms(2) by auto

lemma walk_balance:
  "walk_loop io refused tokens w = (r, w') \<Longrightarrow>
     (case r of Inl _ \<Rightarrow> held w' = held w
      | Inr res \<Rightarrow> wr_token res \<in> set tokens \<and> at_control (wr_attempt res) \<noteq> MRejected \<and>
          (\<exists>l. wr_lease res = Some l \<and> lease_key l \<notin> held w \<and> held w' = insert (lease_key l) (held w)))"
proof (induction tokens arbitrary: refused w)
  case (Cons token rest)
  obtain lease w1 where c: "pool_claim token w = (lease, w1)" by fastforce
  show ?case
  proof (cases lease)
    case None
    then have "walk_loop io refused rest w1 = (r, w')" using Cons.prems c has_claim by (simp add: claim_opt_def)
    from Cons.IH [OF this] claim_refused [of token w w1] c None show ?thesis by (auto split: sum.splits)
  next
    case (Some l)
    obtain a w2 where a: "io_attempt io token lease w1 = (a, w2)" by fastforce
    have rel: "held w3 = held w1 \<or> held w3 = held w1 - {lease_key l} \<Longrightarrow> held (io_release io l w3) = held w" for w3
      using attempt_released c Some by blast
    show ?thesis
    proof (cases a)
      case (Inl e)
      then have "held (io_release io l w2) = held w" using a Some attempt_threw [of token l w1 e w2] rel by simp
      then show ?thesis using Cons.prems c a Some Inl has_claim by (auto simp: claim_opt_def release_opt_def)
    next
      case (Inr answered)
      show ?thesis
      proof (cases "at_control answered = MRejected")
        case True
        let ?w3 = "io_release io l (io_close io answered w2)"
        have "walk_loop io (refused + 1) rest ?w3 = (r, w')"
          using Cons.prems c a Some Inr True has_claim by (simp add: claim_opt_def release_opt_def)
        from Cons.IH [OF this] rel [of "io_close io answered w2"] close_answered [of token l w1 answered w2] a Some Inr show ?thesis
          by (auto split: sum.splits)
      next
        case False
        then show ?thesis
          using Cons.prems c a Some Inr attempt_answered [of token l w1 answered w2] has_claim claim_fresh [of token w l w1]
          by (auto simp: claim_opt_def)
      qed
    qed
  qed
qed auto

end

section \<open>Walking the manager's stack\<close>

text \<open>The world of a session: the token manager, and the attempts closed so far; the exit answers by \<open>reply\<close>.\<close>

definition manager_io ::
    "token_platform \<Rightarrow> (bytes \<Rightarrow> warren_error + SessionAttempt) \<Rightarrow> (lease, manager \<times> SessionAttempt list) walk_io" where
  "manager_io pf reply = \<lparr>
     io_attempt = (\<lambda>token lease w. (reply token, w)),
     io_close = (\<lambda>a (m, closed). (m, closed @ [a])),
     io_claim = Some (\<lambda>token (m, closed). case claim pf token m of (l, m') \<Rightarrow> (l, (m', closed))),
     io_release = (\<lambda>l (m, closed). (snd (release l m), closed))\<rparr>"

interpretation manager_pool: lease_pool "manager_io pf reply"
  "\<lambda>token (m, closed). case claim pf token m of (l, m') \<Rightarrow> (l, (m', closed))" "\<lambda>(m, closed). tm_held m" fst for pf reply
  by unfold_locales (auto simp: manager_io_def claim_def release_def split: option.splits if_splits prod.splits)

text \<open>
  The specification: among the first eight tokens of the stack, the first one the exit does not refuse decides; the
  attempts before it are closed, and only its serial stays leased.
\<close>

definition refuses :: "(bytes \<Rightarrow> warren_error + SessionAttempt) \<Rightarrow> bytes \<Rightarrow> bool" where
  "refuses reply token = (case reply token of Inr a \<Rightarrow> at_control a = MRejected | Inl _ \<Rightarrow> False)"

definition walk_spec ::
    "token_platform \<Rightarrow> (bytes \<Rightarrow> warren_error + SessionAttempt) \<Rightarrow> bytes list \<Rightarrow> manager \<Rightarrow>
       (walk_error + lease SessionWalkResult) \<times> manager \<times> SessionAttempt list" where
  "walk_spec pf reply tokens m =
     (let closed = map (projr \<circ> reply) (takeWhile (refuses reply) tokens)
      in case dropWhile (refuses reply) tokens of
           [] \<Rightarrow> (Inl (NoSessionToken (length tokens)), m, closed)
         | token # _ \<Rightarrow>
             (case reply token of
                Inl e \<Rightarrow> (Inl (AttemptThrew e), m, closed)
              | Inr a \<Rightarrow> let key = the (serialKey pf token)
                        in (Inr \<lparr>wr_attempt = a, wr_token = token, wr_lease = Some (key, True)\<rparr>,
                            m\<lparr>tm_held := insert key (tm_held m)\<rparr>, closed)))"

lemma claim_free:
  assumes "token_free pf m t"
  obtains key where "serialKey pf t = Some key" "claim pf t m = (Some (key, True), m\<lparr>tm_held := insert key (tm_held m)\<rparr>)"
    "snd (release (key, True) (m\<lparr>tm_held := insert key (tm_held m)\<rparr>)) = m"
  using assms by (auto simp: token_free_def claim_def release_def split: option.splits)

lemma manager_io_simps [simp]:
  "io_attempt (manager_io pf reply) t l w = (reply t, w)" "io_close (manager_io pf reply) a (m, closed) = (m, closed @ [a])"
  "io_claim (manager_io pf reply) = Some (\<lambda>token (m, closed). case claim pf token m of (l, m') \<Rightarrow> (l, (m', closed)))"
  "io_release (manager_io pf reply) l' (m, closed) = (snd (release l' m), closed)"
  by (simp_all add: manager_io_def)

lemma walk_manager:
  assumes "list_all (token_free pf m) tokens"
  shows "walk_loop (manager_io pf reply) n tokens (m, closed) =
    (case walk_spec pf reply tokens m of
       (r, m', c) \<Rightarrow> ((case r of Inl (NoSessionToken k) \<Rightarrow> Inl (NoSessionToken (n + k)) | _ \<Rightarrow> r), (m', closed @ c)))"
  using assms
proof (induction tokens arbitrary: n closed)
  case Nil
  then show ?case by (simp add: walk_spec_def)
next
  case (Cons t rest)
  then obtain key where k: "serialKey pf t = Some key" "claim pf t m = (Some (key, True), m\<lparr>tm_held := insert key (tm_held m)\<rparr>)"
    "snd (release (key, True) (m\<lparr>tm_held := insert key (tm_held m)\<rparr>)) = m" by (auto elim: claim_free)
  have c: "claim_opt (manager_io pf reply) t (m, closed) = (Some (key, True), m\<lparr>tm_held := insert key (tm_held m)\<rparr>, closed)"
    by (simp add: claim_opt_def k)
  show ?case
  proof (cases "reply t")
    case (Inl e)
    then show ?thesis using c k by (simp add: walk_spec_def refuses_def release_opt_def)
  next
    case (Inr a)
    show ?thesis
    proof (cases "at_control a = MRejected")
      case True
      have "walk_loop (manager_io pf reply) n (t # rest) (m, closed) = walk_loop (manager_io pf reply) (n + 1) rest (m, closed @ [a])"
        using c k Inr True by (simp add: release_opt_def)
      moreover have "walk_spec pf reply (t # rest) m =
        (case walk_spec pf reply rest m of
           (r, m', cl) \<Rightarrow> ((case r of Inl (NoSessionToken j) \<Rightarrow> Inl (NoSessionToken (Suc j)) | _ \<Rightarrow> r), m', a # cl))"
        using Inr True refuses_def [of reply t]
        by (cases "dropWhile (refuses reply) rest") (auto simp: walk_spec_def Let_def simp del: dropWhile_eq_Nil_conv split: sum.splits)
      ultimately show ?thesis using Cons by (auto split: prod.splits sum.splits walk_error.splits)
    next
      case False
      then show ?thesis using c k Inr by (simp add: walk_spec_def refuses_def Let_def)
    qed
  qed
qed

lemma stack_free: "list_all (token_free pf m) (take n (sessionStack pf m now))"
  by (auto simp: sessionStack_def list_all_iff Let_def split: option.splits dest!: in_set_takeD)

text \<open>
  C12. The walk over the manager's stack refines its specification: the first of at most eight free tokens the exit does
  not refuse decides the session; every refused attempt before it is closed and its lease given back, an error thrown
  by an attempt is passed on with the lease given back, and when all are refused the walk fails having counted them.
\<close>

theorem walk_refines_spec:
  "walkSessionTokens (manager_io pf reply) (sessionStack pf m now) (m, []) =
     (case walk_spec pf reply (take 8 (sessionStack pf m now)) m of (r, m', closed) \<Rightarrow> (r, (m', closed)))"
  using walk_manager [OF stack_free, of pf reply 0 8 m now "[]"]
  by (auto simp: walkSessionTokens_def MAX_SESSION_TOKENS_def split: prod.splits sum.splits walk_error.splits)

text \<open>
  No walk leaks a lease: over any list of tokens, claimable or not, a walk that fails leaves exactly the serials
  leased that were before, and one that is answered adds exactly the serial of the token it was answered on, which no
  session held.
\<close>

theorem walk_keeps_leases:
  assumes "walkSessionTokens (manager_io pf reply) stack (m, closed) = (r, (m', closed'))"
  shows "(case r of
      Inl _ \<Rightarrow> tm_held m' = tm_held m
    | Inr res \<Rightarrow> wr_token res \<in> set (take 8 stack) \<and> at_control (wr_attempt res) \<noteq> MRejected \<and>
        (\<exists>l. wr_lease res = Some l \<and> fst l \<notin> tm_held m \<and> tm_held m' = insert (fst l) (tm_held m)))"
  using manager_pool.walk_balance [OF assms [unfolded walkSessionTokens_def]] by (auto simp: MAX_SESSION_TOKENS_def split: sum.splits)

theorem walk_keeps_leases_witness:
  "\<exists>res m'. walkSessionTokens (manager_io sample_token_platform (\<lambda>_. Inr \<lparr>at_control = MIpExhausted, at_connection = 0\<rparr>))
      [sample_token 1] (sample_manager, []) = (Inr res, (m', [])) \<and> tm_held m' = {hex_encode (replicate 32 0)}"
proof -
  let ?io = "manager_io sample_token_platform (\<lambda>_. Inr \<lparr>at_control = MIpExhausted, at_connection = 0\<rparr>)"
  obtain res m' where w: "walkSessionTokens ?io [sample_token 1] (sample_manager, []) = (Inr res, (m', []))"
    "wr_lease res = Some (hex_encode (replicate 32 0), True)"
    by (simp add: walkSessionTokens_def MAX_SESSION_TOKENS_def manager_io_def claim_opt_def claim_def sample_token_serial sample_manager_def)
  from walk_keeps_leases [OF w(1)] w show ?thesis by (auto simp: sample_manager_def)
qed

end
