(* ===== verification/Device.thy ===== *)
theory Device
  imports Token_Manager
begin

text \<open>
  The device identity of an install, \<^verbatim>\<open>packages/core/src/device/index.ts\<close>: identifiers, generated names, the kept identity
  and the readers of what the registry answers. Random draws are arguments; the persistence is the text it keeps
  (the in-memory one of the source), \<open>None\<close> when it keeps none.
\<close>

section \<open>Identifiers and platforms\<close>

definition DEVICE_ID_LEN :: nat where
  "DEVICE_ID_LEN = 16"

definition parseDeviceId :: "token_platform \<Rightarrow> string \<Rightarrow> warren_error + string" where
  "parseDeviceId pf v =
     (case tp_b64Decode pf v of
        None \<Rightarrow> Inl (DeviceErr ''invalid_device_id'')
      | Some bs \<Rightarrow> if length bs \<noteq> DEVICE_ID_LEN then Inl (DeviceErr ''invalid_device_id'') else Inr v)"

definition deviceIdFromBytes :: "token_platform \<Rightarrow> bytes \<Rightarrow> warren_error + string" where
  "deviceIdFromBytes pf bs =
     (if length bs \<noteq> DEVICE_ID_LEN then Inl (DeviceErr ''invalid_device_id'') else Inr (tp_b64Encode pf bs))"

definition deviceIdBytes :: "token_platform \<Rightarrow> string \<Rightarrow> bytes option" where
  "deviceIdBytes pf i = tp_b64Decode pf i"

definition DEVICE_PLATFORMS :: "string list" where
  "DEVICE_PLATFORMS = [''android'', ''ios'', ''macos'', ''windows'', ''linux'', ''cli'', ''browser'']"

definition parseDevicePlatform :: "json option \<Rightarrow> string" where
  "parseDevicePlatform v =
     (case find (\<lambda>p. v = Some (JStr p)) DEVICE_PLATFORMS of Some p \<Rightarrow> p | None \<Rightarrow> ''other'')"

section \<open>Names\<close>

definition DEVICE_NAME_ADJECTIVES :: "string list" where
  "DEVICE_NAME_ADJECTIVES =
    [''amber'', ''bold'', ''brave'', ''bright'', ''calm'', ''clever'', ''cosy'', ''crisp'', ''curious'', ''dapper'',
     ''eager'', ''fair'', ''gentle'', ''glad'', ''golden'', ''happy'', ''honest'', ''jolly'', ''keen'', ''kind'',
     ''lively'', ''lucky'', ''merry'', ''mighty'', ''nimble'', ''noble'', ''patient'', ''plucky'', ''proud'',
     ''quick'', ''quiet'', ''rapid'', ''shy'', ''silver'', ''sleek'', ''steady'', ''sunny'', ''swift'', ''tidy'',
     ''witty'']"

definition DEVICE_NAME_ANIMALS :: "string list" where
  "DEVICE_NAME_ANIMALS =
    [''badger'', ''beaver'', ''bison'', ''crane'', ''deer'', ''dolphin'', ''eagle'', ''falcon'', ''ferret'',
     ''finch'', ''fox'', ''gecko'', ''hare'', ''hedgehog'', ''heron'', ''ibis'', ''jackal'', ''koala'', ''lemur'',
     ''lynx'', ''marten'', ''mole'', ''moose'', ''newt'', ''otter'', ''owl'', ''panda'', ''puffin'', ''rabbit'',
     ''raven'', ''robin'', ''seal'', ''sparrow'', ''squirrel'', ''stoat'', ''swan'', ''tapir'', ''toad'', ''walrus'',
     ''wolf'']"

text \<open>The two draws of 32 bits, in the order they are made.\<close>

definition deviceNameFrom :: "32 word \<Rightarrow> 32 word \<Rightarrow> string" where
  "deviceNameFrom u v =
     DEVICE_NAME_ADJECTIVES ! (unat u mod length DEVICE_NAME_ADJECTIVES) @ '' '' @
     DEVICE_NAME_ANIMALS ! (unat v mod length DEVICE_NAME_ANIMALS)"

section \<open>The identity\<close>

record DeviceIdentity =
  di_deviceId :: string
  di_name :: string

definition generateDeviceIdentity :: "token_platform \<Rightarrow> bytes \<Rightarrow> 32 word \<Rightarrow> 32 word \<Rightarrow> warren_error + DeviceIdentity" where
  "generateDeviceIdentity pf random u v =
     bindR (deviceIdFromBytes pf random) (\<lambda>i. Inr \<lparr>di_deviceId = i, di_name = deviceNameFrom u v\<rparr>)"

definition deviceRegistration :: "DeviceIdentity \<Rightarrow> string \<Rightarrow> string \<Rightarrow> warren_error + DeviceRegistration" where
  "deviceRegistration identity platform appVersion =
     (if platform \<notin> set DEVICE_PLATFORMS then Inl (DeviceErr ''invalid_platform'')
      else Inr \<lparr>dv_device_id = di_deviceId identity, dv_name = di_name identity, dv_platform = platform, dv_app_version = appVersion\<rparr>)"

definition encodeDeviceIdentity :: "DeviceIdentity \<Rightarrow> string" where
  "encodeDeviceIdentity identity = stringify (JObj [(''device_id'', JStr (di_deviceId identity)), (''name'', JStr (di_name identity))])"

definition parseDeviceIdentity :: "token_platform \<Rightarrow> string \<Rightarrow> DeviceIdentity option" where
  "parseDeviceIdentity pf t =
     (case pf_parse pf t of
        None \<Rightarrow> None
      | Some parsed \<Rightarrow>
          if \<not> is_object parsed then None
          else (case (jstring parsed ''device_id'', jstring parsed ''name'') of
                  (Some device_id, Some name) \<Rightarrow>
                    if name = [] then None
                    else (case parseDeviceId pf device_id of
                            Inr i \<Rightarrow> Some \<lparr>di_deviceId = i, di_name = name\<rparr>
                          | Inl _ \<Rightarrow> None)
                | _ \<Rightarrow> None))"

definition readKept :: "token_platform \<Rightarrow> string option \<Rightarrow> DeviceIdentity option" where
  "readKept pf kept = Option.bind kept (parseDeviceIdentity pf)"

text \<open>The kept identity, or the one made from the draws, with the text kept afterwards.\<close>

definition keptDeviceIdentity ::
    "token_platform \<Rightarrow> bytes \<Rightarrow> 32 word \<Rightarrow> 32 word \<Rightarrow> string option \<Rightarrow> (warren_error + DeviceIdentity) \<times> string option" where
  "keptDeviceIdentity pf random u v kept =
     (case readKept pf kept of
        Some identity \<Rightarrow> (Inr identity, kept)
      | None \<Rightarrow>
          (case generateDeviceIdentity pf random u v of
             Inl e \<Rightarrow> (Inl e, kept)
           | Inr fresh \<Rightarrow> (Inr fresh, Some (encodeDeviceIdentity fresh))))"

definition keepDeviceName :: "token_platform \<Rightarrow> string \<Rightarrow> string option \<Rightarrow> bool \<times> string option" where
  "keepDeviceName pf name kept =
     (case readKept pf kept of
        None \<Rightarrow> (False, kept)
      | Some identity \<Rightarrow> (True, Some (encodeDeviceIdentity (identity\<lparr>di_name := name\<rparr>))))"

definition forgetDeviceIdentity :: "string option \<Rightarrow> string option" where
  "forgetDeviceIdentity kept = None"

section \<open>Registry answers\<close>

record DeviceView =
  vw_device_id :: string
  vw_name :: string
  vw_platform :: string
  vw_app_version :: string
  vw_registered_on :: string
  vw_last_seen_on :: string
  vw_this_device :: bool

definition badAnswer :: warren_error where
  "badAnswer = apiError api_response"

definition readDeviceView :: "token_platform \<Rightarrow> json \<Rightarrow> warren_error + DeviceView" where
  "readDeviceView pf v =
     (if \<not> is_object v then Inl badAnswer
      else (case (jstring v ''device_id'', jstring v ''name'', jstring v ''app_version'', jstring v ''registered_on'',
                  jstring v ''last_seen_on'', jbool v ''this_device'') of
              (Some device_id, Some name, Some app_version, Some registered_on, Some last_seen_on, Some this_device) \<Rightarrow>
                (case parseDeviceId pf device_id of
                   Inl _ \<Rightarrow> Inl badAnswer
                 | Inr i \<Rightarrow> Inr \<lparr>vw_device_id = i, vw_name = name, vw_platform = parseDevicePlatform (jget v ''platform''),
                     vw_app_version = app_version, vw_registered_on = registered_on, vw_last_seen_on = last_seen_on,
                     vw_this_device = this_device\<rparr>)
            | _ \<Rightarrow> Inl badAnswer))"

definition readDeviceList :: "token_platform \<Rightarrow> json \<Rightarrow> warren_error + (DeviceView list \<times> string option)" where
  "readDeviceList pf v =
     (if \<not> is_object v then Inl badAnswer
      else (case jarray v ''devices'' of
              None \<Rightarrow> Inl badAnswer
            | Some devices \<Rightarrow>
                let older = jget v ''older_client_seen_on''
                in if older \<noteq> None \<and> older \<noteq> Some JNull \<and> jstring v ''older_client_seen_on'' = None then Inl badAnswer
                   else bindR (mapR (readDeviceView pf) devices) (\<lambda>views. Inr (views, jstring v ''older_client_seen_on''))))"

section \<open>Properties\<close>

text \<open>What the packages promise: base64url decodes what it encodes, and the text of a value parses to it.\<close>

definition device_laws :: "token_platform \<Rightarrow> bool" where
  "device_laws pf \<longleftrightarrow> (\<forall>bs. tp_b64Decode pf (tp_b64Encode pf bs) = Some bs) \<and> (\<forall>j. no_frac j \<longrightarrow> pf_parse pf (stringify j) = Some j)"

lemma parse_encoded:
  assumes "device_laws pf" "parseDeviceId pf (di_deviceId identity) = Inr (di_deviceId identity)"
  shows "parseDeviceIdentity pf (encodeDeviceIdentity identity) = (if di_name identity = [] then None else Some identity)"
proof -
  let ?j = "JObj [(''device_id'', JStr (di_deviceId identity)), (''name'', JStr (di_name identity))]"
  have "no_frac ?j" by simp
  then have "pf_parse pf (stringify ?j) = Some ?j" using assms(1) unfolding device_laws_def by blast
  then show ?thesis
    using assms(2) unfolding parseDeviceIdentity_def encodeDeviceIdentity_def by (simp add: jstring_def del: stringify.simps)
qed

lemma parsed_id: "parseDeviceIdentity pf t = Some identity \<Longrightarrow> parseDeviceId pf (di_deviceId identity) = Inr (di_deviceId identity)"
  by (auto simp: parseDeviceIdentity_def parseDeviceId_def split: option.splits if_splits sum.splits)

lemma drawn_id:
  assumes "device_laws pf" "generateDeviceIdentity pf random u v = Inr identity"
  shows "parseDeviceId pf (di_deviceId identity) = Inr (di_deviceId identity)" "di_name identity \<noteq> []"
  using assms by (auto simp: generateDeviceIdentity_def deviceIdFromBytes_def parseDeviceId_def device_laws_def bindR_eq_Inr_conv
      deviceNameFrom_def split: if_splits)

lemma kept_reads_back:
  assumes "device_laws pf" "keptDeviceIdentity pf random u v kept = (Inr identity, kept')"
  shows "readKept pf kept' = Some identity" "parseDeviceId pf (di_deviceId identity) = Inr (di_deviceId identity)"
proof -
  show 1: "readKept pf kept' = Some identity"
    using assms parse_encoded [OF assms(1) drawn_id(1) [OF assms(1)]] drawn_id(2) [OF assms(1)]
    by (auto simp: keptDeviceIdentity_def readKept_def split: option.splits sum.splits)
  then show "parseDeviceId pf (di_deviceId identity) = Inr (di_deviceId identity)"
    by (auto simp: readKept_def bind_eq_Some_conv intro: parsed_id)
qed

text \<open>
  An install keeps one identity: whatever was kept before, the identity returned is the one every later start reads,
  whatever is drawn then; a rename keeps the identifier and the new name, except that keeping the empty name leaves a
  text that does not read back, so the next start draws a new device; and once forgotten nothing is kept.
\<close>

theorem device_identity_kept:
  assumes "device_laws pf" "keptDeviceIdentity pf random u v kept = (Inr identity, kept')"
  shows "keptDeviceIdentity pf random' u' v' kept' = (Inr identity, kept') \<and>
    fst (keepDeviceName pf name kept') \<and>
    readKept pf (snd (keepDeviceName pf name kept')) = (if name = [] then None else Some (identity\<lparr>di_name := name\<rparr>)) \<and>
    (\<exists>bs. deviceIdBytes pf (di_deviceId identity) = Some bs \<and> length bs = 16) \<and>
    readKept pf (forgetDeviceIdentity kept') = None \<and> keepDeviceName pf name (forgetDeviceIdentity kept') = (False, None)"
proof -
  note k = kept_reads_back [OF assms]
  have "parseDeviceIdentity pf (encodeDeviceIdentity (identity\<lparr>di_name := name\<rparr>)) = (if name = [] then None else Some (identity\<lparr>di_name := name\<rparr>))"
    using parse_encoded [OF assms(1), of "identity\<lparr>di_name := name\<rparr>"] k(2) by simp
  moreover have "\<exists>bs. deviceIdBytes pf (di_deviceId identity) = Some bs \<and> length bs = 16"
    using k(2) by (auto simp: parseDeviceId_def deviceIdBytes_def DEVICE_ID_LEN_def split: option.splits if_splits)
  ultimately show ?thesis
    using k(1) by (simp add: keptDeviceIdentity_def keepDeviceName_def forgetDeviceIdentity_def readKept_def)
qed

lemma sample_device_laws: "device_laws sample_token_platform"
  by (simp add: device_laws_def json_read_stringify)

theorem device_identity_kept_witness:
  "\<exists>identity kept. keptDeviceIdentity sample_token_platform (replicate 16 1) 0 24 None = (Inr identity, kept) \<and>
    keptDeviceIdentity sample_token_platform (replicate 16 2) 1 1 kept = (Inr identity, kept) \<and> di_name identity = ''amber otter''"
proof -
  obtain identity kept where k: "keptDeviceIdentity sample_token_platform (replicate 16 1) 0 24 None = (Inr identity, kept)"
    "di_name identity = ''amber otter''"
    by (simp add: keptDeviceIdentity_def readKept_def generateDeviceIdentity_def deviceIdFromBytes_def DEVICE_ID_LEN_def
        deviceNameFrom_def DEVICE_NAME_ADJECTIVES_def DEVICE_NAME_ANIMALS_def)
  from device_identity_kept [OF sample_device_laws k(1), of "replicate 16 2" 1 1] k show ?thesis by blast
qed

end
