(* ===== verification/Api_Client.thy ===== *)
theory Api_Client
  imports Device Identity
begin

text \<open>
  The account API client: \<^verbatim>\<open>packages/core/src/api/clock.ts\<close>, \<^verbatim>\<open>transport.ts\<close> and \<^verbatim>\<open>client.ts\<close>. A call runs against a world \<open>'w\<close> (the
  transport, the device clock and the nonce source pass it on) and the client's own state, its signing key and its
  server clock; \<open>bindA\<close> sequences calls and stops at the first error. \<^verbatim>\<open>Date.parse\<close> of the trimmed header (milliseconds,
  \<open>None\<close> for \<^verbatim>\<open>NaN\<close>) and the URL parser (origin and path of the base URL once its host is replaced, \<open>None\<close> when it
  throws) are fields of the environment. Each client has a server clock of its own. Request bodies and decoded
  answers are JSON values, as the casts of the source leave them.
\<close>

section \<open>The server clock\<close>

definition SIGNATURE_WINDOW_SECS :: int where
  "SIGNATURE_WINDOW_SECS = 60"

definition MAX_FORWARD_CORRECTION_SECS :: int where
  "MAX_FORWARD_CORRECTION_SECS = 15 * 60"

definition clockOffsetSecs :: "(string \<Rightarrow> int option) \<Rightarrow> string \<Rightarrow> int \<Rightarrow> int option" where
  "clockOffsetSecs dateParse dateHeader deviceNow = map_option (\<lambda>ms. ms div 1000 - deviceNow) (dateParse dateHeader)"

definition applicableOffset :: "int \<Rightarrow> int" where
  "applicableOffset offsetSecs =
     (if \<bar>offsetSecs\<bar> * 2 \<le> SIGNATURE_WINDOW_SECS then 0
      else if offsetSecs > MAX_FORWARD_CORRECTION_SECS then 0
      else offsetSecs)"

definition correctedTimestamp :: "int \<Rightarrow> int \<Rightarrow> int" where
  "correctedTimestamp deviceNow offsetSecs =
     (let corrected = deviceNow + applicableOffset offsetSecs
      in if isSafeInteger corrected \<and> corrected \<ge> 0 then corrected else deviceNow)"

text \<open>A server clock is its last measured offset.\<close>

definition observeDate :: "(string \<Rightarrow> int option) \<Rightarrow> string \<Rightarrow> int \<Rightarrow> int \<Rightarrow> int option \<times> int" where
  "observeDate dateParse dateHeader deviceNow offset =
     (case clockOffsetSecs dateParse dateHeader deviceNow of None \<Rightarrow> (None, offset) | Some n \<Rightarrow> (Some n, n))"

definition clock_stamp :: "int \<Rightarrow> int \<Rightarrow> int" where
  "clock_stamp offset deviceNow = correctedTimestamp deviceNow offset"

section \<open>Transport\<close>

record HttpRequest =
  rq_method :: string
  rq_url :: string
  rq_headers :: "(string \<times> string) list"
  rq_body :: string
  rq_useSni :: bool

record HttpResponse =
  rs_status :: int
  rs_body :: string
  rs_date :: "string option"

text \<open>
  A rejection of the transport: a \<^verbatim>\<open>WarrenTransportError\<close> with its \<^verbatim>\<open>connect\<close> flag, or anything else, such as the
  \<^verbatim>\<open>TypeError\<close> of \<^verbatim>\<open>fetch\<close>, which does not say whether the connection had been made. Only the first kind with the
  flag unset stops the sequence of hosts.
\<close>

datatype send_error = TransportFailed bool | OtherRejection

record 'w api_env =
  en_send :: "HttpRequest \<Rightarrow> 'w \<Rightarrow> (send_error + HttpResponse) \<times> 'w"
  en_now :: "'w \<Rightarrow> int \<times> 'w"
  en_nonce :: "'w \<Rightarrow> string \<times> 'w"
  en_dateParse :: "string \<Rightarrow> int option"
  en_urlWithHost :: "string \<Rightarrow> string \<Rightarrow> (string \<times> string) option"
  en_platform :: token_platform

record WarrenApiClient =
  ac_baseUrl :: string
  ac_alternativeHosts :: "string list"
  ac_keyPair :: "WarrenKeyPair option"
  ac_clock :: int

type_synonym ('w, 'a) api = "WarrenApiClient \<times> 'w \<Rightarrow> (warren_error + 'a) \<times> (WarrenApiClient \<times> 'w)"

definition returnA :: "'a \<Rightarrow> ('w, 'a) api" where
  "returnA x s = (Inr x, s)"

definition throwA :: "warren_error \<Rightarrow> ('w, 'a) api" where
  "throwA e s = (Inl e, s)"

definition bindA :: "('w, 'a) api \<Rightarrow> ('a \<Rightarrow> ('w, 'b) api) \<Rightarrow> ('w, 'b) api" where
  "bindA f g s = (case f s of (Inl e, s') \<Rightarrow> (Inl e, s') | (Inr x, s') \<Rightarrow> g x s')"

definition liftA :: "warren_error + 'a \<Rightarrow> ('w, 'a) api" where
  "liftA r s = (r, s)"

definition nowA :: "'w api_env \<Rightarrow> ('w, int) api" where
  "nowA env s = (case en_now env (snd s) of (n, w) \<Rightarrow> (Inr n, (fst s, w)))"

definition nonceA :: "'w api_env \<Rightarrow> ('w, string) api" where
  "nonceA env s = (case en_nonce env (snd s) of (n, w) \<Rightarrow> (Inr n, (fst s, w)))"

section \<open>Construction\<close>

definition trimSlashes :: "string \<Rightarrow> string" where
  "trimSlashes url = rev (dropWhile (\<lambda>c. c = CHR ''/'') (rev url))"

text \<open>The constructor; a seed of the wrong size throws.\<close>

definition newClient :: "token_platform \<Rightarrow> string \<Rightarrow> bytes option \<Rightarrow> string list \<Rightarrow> warren_error + WarrenApiClient" where
  "newClient pf baseUrl seed alternativeHosts =
     (case seed of
        None \<Rightarrow> Inr \<lparr>ac_baseUrl = trimSlashes baseUrl, ac_alternativeHosts = alternativeHosts, ac_keyPair = None, ac_clock = 0\<rparr>
      | Some s \<Rightarrow>
          (case keyPairFromSeed (platform.truncate pf) s of
             None \<Rightarrow> Inl OtherErr
           | Some pair \<Rightarrow> Inr \<lparr>ac_baseUrl = trimSlashes baseUrl, ac_alternativeHosts = alternativeHosts, ac_keyPair = Some pair, ac_clock = 0\<rparr>))"

definition dispose :: "WarrenApiClient \<Rightarrow> WarrenApiClient" where
  "dispose cl = cl\<lparr>ac_keyPair := None\<rparr>"

definition replaceHost :: "'w api_env \<Rightarrow> string \<Rightarrow> string \<Rightarrow> warren_error + string" where
  "replaceHost env baseUrl hostname =
     (case en_urlWithHost env baseUrl hostname of
        None \<Rightarrow> Inl OtherErr
      | Some (origin, pathname) \<Rightarrow> Inr (origin @ (if pathname = ''/'' then [] else pathname)))"

definition candidates :: "'w api_env \<Rightarrow> WarrenApiClient \<Rightarrow> string \<Rightarrow> warren_error + (string \<times> bool) list" where
  "candidates env cl path =
     bindR (mapR (\<lambda>host. bindR (replaceHost env (ac_baseUrl cl) host) (\<lambda>u. Inr (u @ path, True))) (ac_alternativeHosts cl)) (\<lambda>alts.
     Inr ((ac_baseUrl cl @ path, True) # alts @ [(ac_baseUrl cl @ path, False)]))"

section \<open>Sending\<close>

fun send_loop :: "'w api_env \<Rightarrow> string \<Rightarrow> string \<Rightarrow> (string \<times> string) list \<Rightarrow> (string \<times> bool) list \<Rightarrow> ('w, HttpResponse) api" where
  "send_loop env method body headers [] s = (Inl (apiError api_all_hosts_blocked), s)"
| "send_loop env method body headers ((url, sni) # rest) s =
     (case en_send env \<lparr>rq_method = method, rq_url = url, rq_headers = headers, rq_body = body, rq_useSni = sni\<rparr> (snd s) of
        (Inr res, w) \<Rightarrow> (Inr res, (fst s, w))
      | (Inl err, w) \<Rightarrow>
          if err = TransportFailed False then (Inl (apiError api_transport), (fst s, w))
          else send_loop env method body headers rest (fst s, w))"

definition sendToFirstHostThatAnswers ::
    "'w api_env \<Rightarrow> string \<Rightarrow> string \<Rightarrow> string \<Rightarrow> (string \<times> string) list \<Rightarrow> ('w, HttpResponse) api" where
  "sendToFirstHostThatAnswers env method path body headers s =
     bindA (liftA (candidates env (fst s) path)) (send_loop env method body headers) s"

definition USER_AGENT :: string where
  "USER_AGENT = ''warren-app''"

definition plain_headers :: "string \<Rightarrow> (string \<times> string) list" where
  "plain_headers body =
     [(''accept'', ''application/json''), (''user-agent'', USER_AGENT)] @
     (if length body > 0 then [(''content-type'', ''application/json'')] else [])"

definition buildHeaders :: "'w api_env \<Rightarrow> string \<Rightarrow> string \<Rightarrow> string \<Rightarrow> bool \<Rightarrow> ('w, (string \<times> string) list \<times> int) api" where
  "buildHeaders env method path body isSigned s =
     (if \<not> isSigned then (Inr (plain_headers body, 0), s)
      else (case ac_keyPair (fst s) of
              None \<Rightarrow> (Inl (apiError api_no_identity), s)
            | Some pair \<Rightarrow>
                bindA (nowA env) (\<lambda>deviceNow.
                if \<not> isSafeInteger deviceNow \<or> deviceNow < 0 then throwA (apiError api_bad_clock)
                else bindA (nonceA env) (\<lambda>nonce s'.
                  let timestamp = clock_stamp (ac_clock (fst s')) deviceNow
                  in (case signWithKeyPair (platform.truncate (en_platform env)) pair method path body timestamp nonce of
                        Inl _ \<Rightarrow> (Inl OtherErr, s')
                      | Inr sig \<Rightarrow> (Inr (plain_headers body @ signatureHeaders sig, timestamp), s')))) s))"

definition stampOffset :: "'w api_env \<Rightarrow> HttpResponse \<Rightarrow> int \<Rightarrow> int option" where
  "stampOffset env res stamp = (case rs_date res of None \<Rightarrow> None | Some d \<Rightarrow> clockOffsetSecs (en_dateParse env) d stamp)"

definition refusesTheClock :: "'w api_env \<Rightarrow> HttpResponse \<Rightarrow> int \<Rightarrow> bool" where
  "refusesTheClock env res stamp \<longleftrightarrow>
     Option.bind (pf_parse (en_platform env) (rs_body res)) (\<lambda>j. jget j ''error'') = Some (JStr ''clock_skew'') \<or>
     (case stampOffset env res stamp of Some n \<Rightarrow> \<bar>n\<bar> > SIGNATURE_WINDOW_SECS | None \<Rightarrow> False)"

definition stampFitsTheWindow :: "'w api_env \<Rightarrow> HttpResponse \<Rightarrow> int \<Rightarrow> bool" where
  "stampFitsTheWindow env res stamp = (case stampOffset env res stamp of Some n \<Rightarrow> \<bar>n\<bar> \<le> SIGNATURE_WINDOW_SECS | None \<Rightarrow> False)"

definition refusedForTheClock :: "'w api_env \<Rightarrow> HttpResponse \<Rightarrow> int \<Rightarrow> ('w, bool) api" where
  "refusedForTheClock env res stamp =
     (if rs_status res \<noteq> 401 then returnA False
      else (case rs_date res of
              None \<Rightarrow> returnA (refusesTheClock env res stamp)
            | Some d \<Rightarrow>
                bindA (nowA env) (\<lambda>deviceNow (cl, w).
                  (Inr (refusesTheClock env res stamp), (cl\<lparr>ac_clock := snd (observeDate (en_dateParse env) d deviceNow (ac_clock cl))\<rparr>, w)))))"

definition clockSkew :: "'w api_env \<Rightarrow> HttpResponse \<Rightarrow> ('w, 'a) api" where
  "clockSkew env res =
     (case rs_date res of
        None \<Rightarrow> throwA (apiStatusError api_clock_skew 401)
      | Some d \<Rightarrow>
          bindA (nowA env) (\<lambda>deviceNow.
            throwA (ApiErr \<lparr>ae_code = api_clock_skew, ae_status = Some 401, ae_body = None,
              ae_offsetSecs = clockOffsetSecs (en_dateParse env) d deviceNow\<rparr>)))"

text \<open>The second attempt of a signed request whose first answer refused the clock.\<close>

definition signAgain :: "'w api_env \<Rightarrow> string \<Rightarrow> string \<Rightarrow> string \<Rightarrow> HttpResponse \<Rightarrow> ('w, HttpResponse) api" where
  "signAgain env method path body res =
     bindA (buildHeaders env method path body True) (\<lambda>(headers, stamp).
     if \<not> stampFitsTheWindow env res stamp then clockSkew env res
     else bindA (sendToFirstHostThatAnswers env method path body headers) (\<lambda>retried.
       bindA (refusedForTheClock env retried stamp) (\<lambda>again.
       if again then clockSkew env retried else returnA retried)))"

definition request :: "'w api_env \<Rightarrow> string \<Rightarrow> string \<Rightarrow> string \<Rightarrow> bool \<Rightarrow> ('w, HttpResponse) api" where
  "request env method path body isSigned =
     bindA (buildHeaders env method path body isSigned) (\<lambda>(headers, stamp).
     bindA (sendToFirstHostThatAnswers env method path body headers) (\<lambda>res.
     if \<not> isSigned then returnA res
     else bindA (refusedForTheClock env res stamp) (\<lambda>refused.
       if \<not> refused then returnA res else signAgain env method path body res)))"

section \<open>Answers\<close>

definition expectOk :: "HttpResponse \<Rightarrow> warren_error + HttpResponse" where
  "expectOk res =
     (if rs_status res < 200 \<or> rs_status res \<ge> 300
      then Inl (ApiErr \<lparr>ae_code = api_server, ae_status = Some (rs_status res), ae_body = Some (rs_body res), ae_offsetSecs = None\<rparr>)
      else Inr res)"

definition json_body :: "'w api_env \<Rightarrow> HttpResponse \<Rightarrow> warren_error + json" where
  "json_body env res =
     (case pf_parse (en_platform env) (rs_body res) of None \<Rightarrow> Inl (apiError api_response) | Some j \<Rightarrow> Inr j)"

definition deviceRefusal :: "'w api_env \<Rightarrow> HttpResponse \<Rightarrow> warren_error + HttpResponse" where
  "deviceRefusal env res =
     (if rs_status res \<noteq> 403 then Inr res
      else (case Option.bind (pf_parse (en_platform env) (rs_body res)) (\<lambda>j. jget j ''error'') of
              Some (JStr e) \<Rightarrow>
                if e = ''device_revoked'' then Inl (apiStatusError api_device_revoked 403)
                else if e = ''device_unregistered'' then Inl (apiStatusError api_device_unregistered 403)
                else Inr res
            | _ \<Rightarrow> Inr res))"

text \<open>\<^verbatim>\<open>encodeURIComponent\<close> on the UTF-8 bytes of a string.\<close>

definition uri_unreserved :: "char \<Rightarrow> bool" where
  "uri_unreserved c \<longleftrightarrow> (let n = of_char c :: nat in (65 \<le> n \<and> n \<le> 90) \<or> (97 \<le> n \<and> n \<le> 122) \<or> (48 \<le> n \<and> n \<le> 57) \<or>
     c \<in> set ''-_.!~*'' \<or> n = 39 \<or> n = 40 \<or> n = 41)"

definition upper_hex :: "nat \<Rightarrow> char" where
  "upper_hex d = (if d < 10 then char_of (48 + d) else char_of (55 + d))"

definition encodeURIComponent :: "string \<Rightarrow> string" where
  "encodeURIComponent s = concat (map (\<lambda>c. if uri_unreserved c then [c]
     else [CHR 0x25, upper_hex (of_char c div 16), upper_hex (of_char c mod 16)]) s)"

section \<open>Endpoints\<close>

definition okBody :: "'w api_env \<Rightarrow> string \<Rightarrow> string \<Rightarrow> string \<Rightarrow> bool \<Rightarrow> ('w, HttpResponse) api" where
  "okBody env method path body isSigned = bindA (request env method path body isSigned) (\<lambda>res. liftA (expectOk res))"

definition okJson :: "'w api_env \<Rightarrow> string \<Rightarrow> string \<Rightarrow> string \<Rightarrow> bool \<Rightarrow> ('w, json) api" where
  "okJson env method path body isSigned = bindA (okBody env method path body isSigned) (\<lambda>res. liftA (json_body env res))"

definition exits :: "'w api_env \<Rightarrow> ('w, string) api" where
  "exits env = bindA (okBody env ''GET'' ''/v1/exits'' [] False) (\<lambda>res. returnA (rs_body res))"

definition registerAccount :: "'w api_env \<Rightarrow> json \<Rightarrow> ('w, json) api" where
  "registerAccount env req = okJson env ''POST'' ''/v1/register'' (stringify req) False"

definition subscription :: "'w api_env \<Rightarrow> ('w, json) api" where
  "subscription env = okJson env ''GET'' ''/v1/subscription'' [] True"

definition check :: "'w api_env \<Rightarrow> ('w, json) api" where
  "check env = okJson env ''GET'' ''/v1/check'' [] True"

definition deleteAccount :: "'w api_env \<Rightarrow> ('w, unit) api" where
  "deleteAccount env = bindA (okBody env ''DELETE'' ''/v1/account'' [] True) (\<lambda>_. returnA ())"

definition reportExitDown :: "'w api_env \<Rightarrow> json \<Rightarrow> ('w, unit) api" where
  "reportExitDown env req = bindA (okBody env ''POST'' ''/v1/incidents/exit-down'' (stringify req) True) (\<lambda>_. returnA ())"

text \<open>The cast of \<^verbatim>\<open>pullPendingVoucher\<close> reads \<^verbatim>\<open>voucher_secret\<close> off any value; reading it off \<^verbatim>\<open>null\<close> throws.\<close>

definition pullPendingVoucher :: "'w api_env \<Rightarrow> string \<Rightarrow> string \<Rightarrow> ('w, json option) api" where
  "pullPendingVoucher env wpid pullSecret =
     bindA (request env ''POST'' (''/v1/checkout/'' @ encodeURIComponent wpid @ ''/voucher'')
       (stringify (JObj [(''pull_secret'', JStr pullSecret)])) False) (\<lambda>res.
     if rs_status res = 404 then returnA None
     else bindA (liftA (bindR (expectOk res) (json_body env))) (\<lambda>j. if j = JNull then throwA OtherErr else returnA (jget j ''voucher_secret'')))"

definition sessionOpen :: "'w api_env \<Rightarrow> json \<Rightarrow> ('w, json) api" where
  "sessionOpen env req = okJson env ''POST'' ''/v1/session/open'' (stringify req) True"

definition sessionClose :: "'w api_env \<Rightarrow> json \<Rightarrow> ('w, unit) api" where
  "sessionClose env req = bindA (okBody env ''POST'' ''/v1/session/close'' (stringify req) True) (\<lambda>_. returnA ())"

definition initApplePayment :: "'w api_env \<Rightarrow> ('w, json) api" where
  "initApplePayment env = okJson env ''POST'' ''/v1/payments/apple/init'' [] True"

definition checkApplePayment :: "'w api_env \<Rightarrow> json \<Rightarrow> ('w, json) api" where
  "checkApplePayment env req = okJson env ''POST'' ''/v1/payments/apple/check'' (stringify req) True"

record IncidentPubkeyMismatchRequest =
  pm_exitIdHex :: string
  pm_oldPubkeyHex :: string
  pm_newPubkeyHex :: string
  pm_countryCode :: "string option"
  pm_city :: "string option"
  pm_tsUnix :: int

definition or_empty :: "string option \<Rightarrow> string" where
  "or_empty s = (case s of Some t \<Rightarrow> t | None \<Rightarrow> [])"

definition reportPubkeyMismatch :: "'w api_env \<Rightarrow> IncidentPubkeyMismatchRequest \<Rightarrow> ('w, unit) api" where
  "reportPubkeyMismatch env req =
     bindA (okBody env ''POST'' ''/v1/incidents/pubkey-mismatch'' (stringify (JObj [
       (''exit_id_hex'', JStr (pm_exitIdHex req)), (''old_pubkey_hex'', JStr (pm_oldPubkeyHex req)),
       (''new_pubkey_hex'', JStr (pm_newPubkeyHex req)), (''country_code'', JStr (or_empty (pm_countryCode req))),
       (''city'', JStr (or_empty (pm_city req))), (''ts_unix'', JInt (pm_tsUnix req))])) True) (\<lambda>_. returnA ())"

definition multihopDirectoryAt :: "'w api_env \<Rightarrow> string \<Rightarrow> ('w, string option) api" where
  "multihopDirectoryAt env path =
     bindA (request env ''GET'' path [] False) (\<lambda>res.
     if rs_status res = 404 then returnA None else bindA (liftA (expectOk res)) (\<lambda>r. returnA (Some (rs_body r))))"

definition multihopDirectory :: "'w api_env \<Rightarrow> ('w, string option) api" where
  "multihopDirectory env =
     bindA (multihopDirectoryAt env ''/v2/multihop/directory'') (\<lambda>d.
     case d of Some t \<Rightarrow> returnA (Some t) | None \<Rightarrow> multihopDirectoryAt env ''/v1/multihop/directory'')"

definition getTokenDirectory :: "'w api_env \<Rightarrow> ('w, json) api" where
  "getTokenDirectory env = okJson env ''GET'' ''/v1/tokens/keys'' [] False"

definition issue_json :: "TokenIssueRequest \<Rightarrow> json" where
  "issue_json req = JObj ((''epochs'', JArr (map (\<lambda>(epoch, blinded). JObj [(''epoch'', JInt epoch), (''blinded'', JArr (map JStr blinded))])
     (tr_epochs req))) # opt_prop ''device_id'' JStr (tr_device_id req))"

definition issueAt :: "'w api_env \<Rightarrow> string \<Rightarrow> TokenIssueRequest \<Rightarrow> ('w, json) api" where
  "issueAt env path req =
     bindA (request env ''POST'' path (stringify (issue_json req)) True) (\<lambda>res.
     liftA (bindR (deviceRefusal env res) (\<lambda>r. bindR (expectOk r) (json_body env))))"

definition issueTokens :: "'w api_env \<Rightarrow> TokenIssueRequest \<Rightarrow> ('w, json) api" where
  "issueTokens env req = issueAt env ''/v1/tokens/issue'' req"

definition DEVICES_PATH :: string where
  "DEVICES_PATH = ''/v1/devices''"

definition devicePath :: "string \<Rightarrow> string" where
  "devicePath i = DEVICES_PATH @ ''/'' @ encodeURIComponent i"

definition registration_json :: "DeviceRegistration \<Rightarrow> json" where
  "registration_json r = JObj [(''device_id'', JStr (dv_device_id r)), (''name'', JStr (dv_name r)),
     (''platform'', JStr (dv_platform r)), (''app_version'', JStr (dv_app_version r))]"

definition registerDevice :: "'w api_env \<Rightarrow> DeviceRegistration \<Rightarrow> ('w, DeviceView) api" where
  "registerDevice env registration =
     bindA (request env ''POST'' DEVICES_PATH (stringify (registration_json registration)) True) (\<lambda>res.
     if rs_status res = 409 then throwA (apiStatusError api_device_limit_reached 409)
     else liftA (bindR (deviceRefusal env res) (\<lambda>r. bindR (expectOk r) (\<lambda>r. bindR (json_body env r) (readDeviceView (en_platform env))))))"

definition listDevices :: "'w api_env \<Rightarrow> string option \<Rightarrow> ('w, DeviceView list \<times> string option) api" where
  "listDevices env thisDevice =
     bindA (request env ''GET'' (case thisDevice of None \<Rightarrow> DEVICES_PATH | Some i \<Rightarrow> DEVICES_PATH @ ''?device_id='' @ encodeURIComponent i) [] True) (\<lambda>res.
     liftA (bindR (deviceRefusal env res) (\<lambda>r. bindR (expectOk r) (\<lambda>r. bindR (json_body env r) (readDeviceList (en_platform env))))))"

definition renameDevice :: "'w api_env \<Rightarrow> string \<Rightarrow> string \<Rightarrow> ('w, unit) api" where
  "renameDevice env i name =
     bindA (request env ''PATCH'' (devicePath i) (stringify (JObj [(''name'', JStr name)])) True) (\<lambda>res.
     bindA (liftA (bindR (deviceRefusal env res) expectOk)) (\<lambda>_. returnA ()))"

definition revokeDevice :: "'w api_env \<Rightarrow> string \<Rightarrow> ('w, unit) api" where
  "revokeDevice env i =
     bindA (request env ''DELETE'' (devicePath i) [] True) (\<lambda>res.
     bindA (liftA (bindR (deviceRefusal env res) expectOk)) (\<lambda>_. returnA ()))"

record 'w token_transport =
  tt_getDirectory :: "('w, json) api"
  tt_issue :: "TokenIssueRequest \<Rightarrow> ('w, json) api"
  tt_registerDevice :: "DeviceRegistration \<Rightarrow> ('w, DeviceView) api"

definition tokenTransport :: "'w api_env \<Rightarrow> 'w token_transport" where
  "tokenTransport env = \<lparr>tt_getDirectory = getTokenDirectory env, tt_issue = issueTokens env, tt_registerDevice = registerDevice env\<rparr>"

definition browserProxyTokenTransport :: "'w api_env \<Rightarrow> 'w token_transport" where
  "browserProxyTokenTransport env = \<lparr>tt_getDirectory = okJson env ''GET'' ''/v1/browser-proxy/keys'' [] False,
     tt_issue = issueAt env ''/v1/browser-proxy/issue'', tt_registerDevice = registerDevice env\<rparr>"

section \<open>The corrected stamp\<close>

lemma applicable_bounds: "applicableOffset n \<le> 900" "n \<le> 900 \<Longrightarrow> \<bar>n - applicableOffset n\<bar> \<le> 30" "900 < n \<Longrightarrow> applicableOffset n = 0"
  by (auto simp: applicableOffset_def SIGNATURE_WINDOW_SECS_def MAX_FORWARD_CORRECTION_SECS_def)

lemma corrected_close:
  assumes "0 \<le> device" "isSafeInteger device" "0 \<le> server" "isSafeInteger server" "server - device \<le> 900"
  shows "\<bar>server - correctedTimestamp device (server - device)\<bar> \<le> 30"
  using assms applicable_bounds(2) [of "server - device"]
  by (auto simp: correctedTimestamp_def Let_def applicableOffset_def isSafeInteger_def SIGNATURE_WINDOW_SECS_def MAX_FORWARD_CORRECTION_SECS_def)

text \<open>
  The stamp of a signed request: it is never more than a quarter of an hour ahead of the device clock, whatever a
  server claimed; a device within that bound of the server, and one that runs ahead of it by any amount, stamps within
  half the signature window of the server's clock once the offset is measured; beyond the bound the device's own time is kept.
\<close>

theorem corrected_stamp_bounds:
  assumes "0 \<le> device" "isSafeInteger device"
  shows "correctedTimestamp device offset \<le> device + MAX_FORWARD_CORRECTION_SECS \<and> 0 \<le> correctedTimestamp device offset \<and>
    (MAX_FORWARD_CORRECTION_SECS < offset \<longrightarrow> correctedTimestamp device offset = device) \<and>
    (\<forall>server. 0 \<le> server \<and> isSafeInteger server \<and> server - device \<le> MAX_FORWARD_CORRECTION_SECS \<longrightarrow>
      2 * \<bar>server - correctedTimestamp device (server - device)\<bar> \<le> SIGNATURE_WINDOW_SECS)"
proof -
  have "correctedTimestamp device offset \<le> device + 900" "0 \<le> correctedTimestamp device offset"
    using assms applicable_bounds(1) [of offset] by (auto simp: correctedTimestamp_def Let_def)
  moreover have "900 < offset \<longrightarrow> correctedTimestamp device offset = device"
    using assms applicable_bounds(3) [of offset] by (auto simp: correctedTimestamp_def Let_def)
  moreover have "2 * \<bar>server - correctedTimestamp device (server - device)\<bar> \<le> 60"
    if "0 \<le> server" "isSafeInteger server" "server - device \<le> 900" for server
    using corrected_close [OF assms that] by simp
  ultimately show ?thesis by (simp add: MAX_FORWARD_CORRECTION_SECS_def SIGNATURE_WINDOW_SECS_def)
qed

theorem corrected_stamp_bounds_witness:
  "2 * \<bar>1000 - correctedTimestamp 1091 (1000 - 1091)\<bar> \<le> SIGNATURE_WINDOW_SECS \<and> correctedTimestamp 1091 (1000 - 1091) = 1000"
  using corrected_stamp_bounds [of 1091 0] by (simp add: isSafeInteger_def correctedTimestamp_def applicableOffset_def Let_def
      SIGNATURE_WINDOW_SECS_def MAX_FORWARD_CORRECTION_SECS_def)

section \<open>What a call sends\<close>

text \<open>An environment that also records every exchange with the transport.\<close>

type_synonym exchange = "HttpRequest \<times> (send_error + HttpResponse)"

definition logged :: "'w api_env \<Rightarrow> ('w \<times> exchange list) api_env" where
  "logged env = \<lparr>
     en_send = (\<lambda>rq (w, l). case en_send env rq w of (r, w') \<Rightarrow> (r, (w', l @ [(rq, r)]))),
     en_now = (\<lambda>(w, l). case en_now env w of (n, w') \<Rightarrow> (n, (w', l))),
     en_nonce = (\<lambda>(w, l). case en_nonce env w of (n, w') \<Rightarrow> (n, (w', l))),
     en_dateParse = en_dateParse env, en_urlWithHost = en_urlWithHost env, en_platform = en_platform env\<rparr>"

text \<open>
  One round over the hosts: one set of headers, and before the last exchange only rejections that are not a
  \<^verbatim>\<open>WarrenTransportError\<close> with \<^verbatim>\<open>connect: false\<close>.
\<close>

definition advances :: "send_error + HttpResponse \<Rightarrow> bool" where
  "advances r \<longleftrightarrow> (case r of Inl err \<Rightarrow> err \<noteq> TransportFailed False | Inr _ \<Rightarrow> False)"

definition send_round :: "(string \<times> string) list \<Rightarrow> exchange list \<Rightarrow> bool" where
  "send_round h ex \<longleftrightarrow> list_all (\<lambda>e. rq_headers (fst e) = h) ex \<and> list_all (\<lambda>e. advances (snd e)) (butlast ex)"

lemma send_loop_exchanges:
  "send_loop (logged env) method body h cands (cl, (w, l)) = (r, (cl', (w', l'))) \<Longrightarrow>
     cl' = cl \<and> (\<exists>ex. l' = l @ ex \<and> send_round h ex \<and> length ex \<le> length cands \<and> (\<forall>res. r = Inr res \<longrightarrow> ex \<noteq> [] \<and> snd (last ex) = Inr res))"
proof (induction cands arbitrary: w l)
  case Nil
  then show ?case by (auto simp: send_round_def)
next
  case (Cons c cands)
  obtain url sni where c: "c = (url, sni)" by fastforce
  let ?rq = "\<lparr>rq_method = method, rq_url = url, rq_headers = h, rq_body = body, rq_useSni = sni\<rparr>"
  obtain a w1 where a: "en_send env ?rq w = (a, w1)" by fastforce
  then have send: "en_send (logged env) ?rq (w, l) = (a, (w1, l @ [(?rq, a)]))" by (simp add: logged_def)
  show ?case
  proof (cases "advances a")
    case True
    then have "send_loop (logged env) method body h cands (cl, (w1, l @ [(?rq, a)])) = (r, (cl', (w', l')))"
      using Cons.prems send c by (cases a) (simp_all add: advances_def)
    from Cons.IH [OF this] obtain ex where ex: "cl' = cl" "l' = (l @ [(?rq, a)]) @ ex" "send_round h ex" "length ex \<le> length cands"
      "\<forall>res. r = Inr res \<longrightarrow> ex \<noteq> [] \<and> snd (last ex) = Inr res" by blast
    have "send_round h ((?rq, a) # ex)" using ex(3) True by (auto simp: send_round_def)
    with ex show ?thesis by (intro conjI exI [of _ "(?rq, a) # ex"]) auto
  next
    case False
    then have "cl' = cl \<and> l' = l @ [(?rq, a)] \<and> (\<forall>res. r = Inr res \<longrightarrow> a = Inr res)"
      using Cons.prems send c by (cases a) (auto simp: advances_def)
    then show ?thesis by (intro conjI exI [of _ "[(?rq, a)]"]) (auto simp: send_round_def)
  qed
qed

lemma bindA_iff:
  "bindA f g s = (r, s') \<longleftrightarrow> (\<exists>e. f s = (Inl e, s') \<and> r = Inl e) \<or> (\<exists>x s1. f s = (Inr x, s1) \<and> g x s1 = (r, s'))"
  by (auto simp: bindA_def split: prod.splits sum.splits)

lemmas api_frame = nowA_def nonceA_def returnA_def throwA_def logged_def

lemma buildHeaders_frame:
  "buildHeaders (logged env) method path body isSigned (cl, (w, l)) = (r, (cl', (w', l'))) \<Longrightarrow> l' = l \<and> cl' = cl"
  by (auto simp: buildHeaders_def bindA_def api_frame Let_def split: prod.splits sum.splits option.splits if_splits)

lemma refused_frame:
  "refusedForTheClock (logged env) res stamp (cl, (w, l)) = (r, (cl', (w', l'))) \<Longrightarrow> l' = l \<and> ac_alternativeHosts cl' = ac_alternativeHosts cl \<and> (r = Inr True \<longrightarrow> rs_status res = 401)"
  by (auto simp: refusedForTheClock_def bindA_def api_frame split: prod.splits sum.splits option.splits if_splits)

lemma skew_frame: "clockSkew (logged env) res (cl, (w, l)) = (r, (cl', (w', l'))) \<Longrightarrow> l' = l"
  by (auto simp: clockSkew_def bindA_def api_frame split: prod.splits option.splits)

lemma hosts_exchanges:
  assumes "sendToFirstHostThatAnswers (logged env) method path body h (cl, (w, l)) = (r, (cl', (w', l')))"
  shows "cl' = cl \<and> (\<exists>ex. l' = l @ ex \<and> send_round h ex \<and> length ex \<le> length (ac_alternativeHosts cl) + 2 \<and>
    (\<forall>res. r = Inr res \<longrightarrow> ex \<noteq> [] \<and> snd (last ex) = Inr res))"
proof (cases "candidates (logged env) cl path")
  case (Inl e)
  with assms show ?thesis by (auto simp: sendToFirstHostThatAnswers_def bindA_def liftA_def send_round_def)
next
  case (Inr cands)
  then have "length cands = length (ac_alternativeHosts cl) + 2"
    by (auto simp: candidates_def bindR_eq_Inr_conv dest: mapR_length)
  with assms Inr show ?thesis
    using send_loop_exchanges [of env "method" body h cands cl w l] by (auto simp: sendToFirstHostThatAnswers_def bindA_def liftA_def)
qed

lemma no_round [simp]: "send_round h []"
  by (simp add: send_round_def)

text \<open>An environment that also records the nonces drawn, and what a signed request shows of its nonce and its stamp.\<close>

definition noncing :: "'w api_env \<Rightarrow> ('w \<times> string list) api_env" where
  "noncing env = \<lparr>
     en_send = (\<lambda>rq (w, ns). case en_send env rq w of (r, w') \<Rightarrow> (r, (w', ns))),
     en_now = (\<lambda>(w, ns). case en_now env w of (n, w') \<Rightarrow> (n, (w', ns))),
     en_nonce = (\<lambda>(w, ns). case en_nonce env w of (n, w') \<Rightarrow> (n, (w', ns @ [n]))),
     en_dateParse = en_dateParse env, en_urlWithHost = en_urlWithHost env, en_platform = en_platform env\<rparr>"

definition stamped :: "string \<Rightarrow> int \<Rightarrow> (string \<times> string) list \<Rightarrow> bool" where
  "stamped n t h \<longleftrightarrow> map_of h ''X-Warren-Nonce'' = Some n \<and> map_of h ''X-Warren-Timestamp'' = Some (show_int t)"

lemma signed_headers_stamped:
  assumes "signWithKeyPair pf pair method path body t n = Inr sig"
  shows "stamped n t (plain_headers body @ signatureHeaders sig)"
proof -
  have "sig_timestamp sig = t" "sig_nonceHex sig = n"
    using assms by (auto simp: signWithKeyPair_def Let_def bindR_eq_Inr_conv)
  then show ?thesis by (simp add: stamped_def plain_headers_def signatureHeaders_def)
qed

abbreviation traced :: "'w api_env \<Rightarrow> (('w \<times> string list) \<times> exchange list) api_env" where
  "traced env \<equiv> logged (noncing env)"

lemma buildHeaders_nonces:
  assumes "buildHeaders (traced env) method path body isSigned (cl, ((w, ns), l)) = (Inr (h, stamp), (cl', ((w', ns'), l')))"
  shows "if isSigned then \<exists>n. ns' = ns @ [n] \<and> stamped n stamp h else ns' = ns \<and> h = plain_headers body"
  using assms
  by (auto simp: buildHeaders_def bindA_iff nowA_def nonceA_def throwA_def logged_def noncing_def Let_def
      intro: signed_headers_stamped split: prod.splits sum.splits option.splits if_splits)

lemma send_loop_nonces:
  "send_loop (traced env) method body h cands (cl, ((w, ns), l)) = (r, (cl', ((w', ns'), l'))) \<Longrightarrow> ns' = ns"
proof (induction cands arbitrary: w ns l)
  case (Cons c cands)
  then show ?case
    by (cases c) (auto simp: logged_def noncing_def split: prod.splits sum.splits if_splits)
qed simp

lemma hosts_nonces:
  "sendToFirstHostThatAnswers (traced env) method path body h (cl, ((w, ns), l)) = (r, (cl', ((w', ns'), l'))) \<Longrightarrow> ns' = ns"
  by (auto simp: sendToFirstHostThatAnswers_def bindA_iff liftA_def dest: send_loop_nonces)

lemma refused_nonces:
  "refusedForTheClock (traced env) res stamp (cl, ((w, ns), l)) = (r, (cl', ((w', ns'), l'))) \<Longrightarrow> ns' = ns"
  by (auto simp: refusedForTheClock_def bindA_def api_frame noncing_def split: prod.splits sum.splits option.splits if_splits)

lemma skew_nonces:
  "clockSkew (traced env) res (cl, ((w, ns), l)) = (r, (cl', ((w', ns'), l'))) \<Longrightarrow> ns' = ns"
  by (auto simp: clockSkew_def bindA_def api_frame noncing_def split: prod.splits option.splits)

lemma signAgain_nonces:
  assumes "signAgain (traced env) method path body res (cl, ((w, ns), l)) = (r, (cl', ((w', ns'), l')))"
  shows "\<exists>ms. ns' = ns @ ms"
proof -
  obtain b cl1 w1 ns1 l1 where b: "buildHeaders (traced env) method path body True (cl, ((w, ns), l)) = (b, (cl1, ((w1, ns1), l1)))"
    by (metis surj_pair)
  then have "\<exists>ms. ns1 = ns @ ms"
    by (auto simp: buildHeaders_def bindA_iff nowA_def nonceA_def throwA_def logged_def noncing_def Let_def
      split: prod.splits sum.splits option.splits if_splits)
  moreover have "ns' = ns1"
    using assms b
    by (auto simp: signAgain_def bindA_iff returnA_def dest!: refused_nonces skew_nonces hosts_nonces split: if_splits)
  ultimately show ?thesis by simp
qed

text \<open>The \<^verbatim>\<open>Date\<close> of an answer, at most a minute away from a stamp.\<close>

definition dated_within :: "'w api_env \<Rightarrow> HttpResponse \<Rightarrow> int \<Rightarrow> bool" where
  "dated_within env res stamp \<longleftrightarrow>
     (case Option.bind (rs_date res) (en_dateParse env) of None \<Rightarrow> False | Some ms \<Rightarrow> \<bar>ms div 1000 - stamp\<bar> \<le> 60)"

lemma stampFits_dated: "stampFitsTheWindow (traced env) res stamp = dated_within env res stamp"
  by (cases "rs_date res"; cases "en_dateParse env (the (rs_date res))")
     (simp_all add: stampFitsTheWindow_def stampOffset_def clockOffsetSecs_def dated_within_def SIGNATURE_WINDOW_SECS_def
      logged_def noncing_def)

lemma signAgain_exchanges:
  assumes "signAgain (traced env) method path body res (cl, ((w, ns), l)) = (r, (cl', ((w', ns'), l')))"
  shows "\<exists>h ex. l' = l @ ex \<and> send_round h ex \<and> length ex \<le> length (ac_alternativeHosts cl) + 2 \<and>
    (ex \<noteq> [] \<longrightarrow> (\<exists>n stamp. ns' = ns @ [n] \<and> stamped n stamp h \<and> dated_within env res stamp))"
proof -
  obtain b cl1 w1 ns1 l1 where b: "buildHeaders (traced env) method path body True (cl, ((w, ns), l)) = (b, (cl1, ((w1, ns1), l1)))"
    by (metis surj_pair)
  have 1: "l1 = l" "cl1 = cl" using buildHeaders_frame [OF b] by simp_all
  show ?thesis
  proof (cases b)
    case (Inl e)
    with assms b 1 show ?thesis by (auto simp: signAgain_def bindA_def intro!: exI [of _ "[]"])
  next
    case (Inr x)
    obtain h stamp where x: "x = (h, stamp)" by fastforce
    from buildHeaders_nonces [OF b [unfolded Inr x]] obtain n where n: "ns1 = ns @ [n]" "stamped n stamp h" by auto
    show ?thesis
    proof (cases "stampFitsTheWindow (traced env) res stamp")
      case False
      with assms b Inr x 1 have "clockSkew (traced env) res (cl, ((w1, ns1), l)) = (r, (cl', ((w', ns'), l')))"
        by (simp add: signAgain_def bindA_def)
      from skew_frame [OF this] show ?thesis by (auto intro!: exI [of _ "[]"])
    next
      case True
      obtain a cl2 w2 ns2 l2 where a: "sendToFirstHostThatAnswers (traced env) method path body h (cl, ((w1, ns1), l)) = (a, (cl2, ((w2, ns2), l2)))"
        by (metis surj_pair)
      from hosts_exchanges [OF a] obtain ex where ex: "l2 = l @ ex" "send_round h ex" "length ex \<le> length (ac_alternativeHosts cl) + 2" by blast
      have "l' = l2"
        using assms b Inr x 1 True a
        by (auto simp: signAgain_def bindA_iff returnA_def dest!: refused_frame skew_frame split: if_splits)
      moreover have "ns' = ns2"
        using assms b Inr x 1 True a
        by (auto simp: signAgain_def bindA_iff returnA_def dest!: refused_nonces skew_nonces split: if_splits)
      ultimately show ?thesis using ex n hosts_nonces [OF a] True unfolding stampFits_dated by blast
    qed
  qed
qed

text \<open>
  C15. What a call sends. It sends at most two rounds over the hosts, each of at most one exchange per host and one more
  without SNI, all with the same headers; within a round it moves to the next host only after a rejection that is not a
  \<^verbatim>\<open>WarrenTransportError\<close> with \<^verbatim>\<open>connect: false\<close>, so nothing follows an answer of any status. Every request of a signed
  call's first round carries the first nonce it drew. A second round is sent only by a signed call whose first
  round ended in a \<^verbatim>\<open>401\<close> with a \<^verbatim>\<open>Date\<close>; it is no replay: each of its requests carries the second nonce drawn, of
  two in all, and a stamp at most a minute away from that \<^verbatim>\<open>Date\<close>. An unsigned call draws none. Rejections of any other kind,
  such as those of \<^verbatim>\<open>fetch\<close> after the connection, do move on under the same headers, nonce included.
\<close>

theorem request_exchanges:
  assumes "request (traced env) method path body isSigned (cl, ((w, []), [])) = (r, (cl', ((w', ns), l)))"
  shows "\<exists>h1 h2 r1 r2. l = r1 @ r2 \<and> send_round h1 r1 \<and> send_round h2 r2 \<and>
    length r1 \<le> length (ac_alternativeHosts cl) + 2 \<and> length r2 \<le> length (ac_alternativeHosts cl) + 2 \<and>
    (\<not> isSigned \<longrightarrow> ns = [] \<and> r2 = []) \<and>
    (isSigned \<and> r1 \<noteq> [] \<longrightarrow> (\<exists>n stamp. take 1 ns = [n] \<and> stamped n stamp h1)) \<and>
    (r2 \<noteq> [] \<longrightarrow> isSigned \<and> r1 \<noteq> [] \<and> (\<exists>n1 n2 stamp res. ns = [n1, n2] \<and> stamped n2 stamp h2 \<and>
       snd (last r1) = Inr res \<and> rs_status res = 401 \<and> dated_within env res stamp))"
proof -
  obtain b cl1 w1 ns1 l1 where b: "buildHeaders (traced env) method path body isSigned (cl, ((w, []), [])) = (b, (cl1, ((w1, ns1), l1)))"
    by (metis surj_pair)
  have 1: "l1 = []" "cl1 = cl" using buildHeaders_frame [OF b] by simp_all
  show ?thesis
  proof (cases b)
    case (Inl e)
    with assms b 1 have "l = []" "ns = ns1" by (auto simp: request_def bindA_def)
    moreover have "isSigned"
    proof (rule ccontr)
      assume "\<not> isSigned"
      then show False using b Inl by (simp add: buildHeaders_def)
    qed
    ultimately show ?thesis by (intro exI [of _ "[]"]) simp
  next
    case (Inr x)
    obtain h stamp where x: "x = (h, stamp)" by fastforce
    note n = buildHeaders_nonces [OF b [unfolded Inr x]]
    obtain a cl2 w2 ns2 l2 where a: "sendToFirstHostThatAnswers (traced env) method path body h (cl, ((w1, ns1), [])) = (a, (cl2, ((w2, ns2), l2)))"
      by (metis surj_pair)
    from hosts_exchanges [OF a] have ex: "cl2 = cl" "send_round h l2" "length l2 \<le> length (ac_alternativeHosts cl) + 2"
      "\<forall>res. a = Inr res \<longrightarrow> l2 \<noteq> [] \<and> snd (last l2) = Inr res" by auto
    have ns2: "ns2 = ns1" by (rule hosts_nonces [OF a])
    have "(l = l2 \<and> ns = ns1) \<or> (\<exists>res cl3 w3 ns3 l3. a = Inr res \<and> isSigned \<and>
        refusedForTheClock (traced env) res stamp (cl2, ((w2, ns2), l2)) = (Inr True, (cl3, ((w3, ns3), l3))) \<and>
        signAgain (traced env) method path body res (cl3, ((w3, ns3), l3)) = (r, (cl', ((w', ns), l))))"
      using assms b Inr x 1 a ns2
      by (auto simp: request_def bindA_iff returnA_def dest: refused_frame refused_nonces split: if_splits)
    then show ?thesis
    proof
      assume "l = l2 \<and> ns = ns1"
      with ex n show ?thesis by (intro exI [of _ h] exI [of _ l2] exI [of _ "[]"]) (auto split: if_splits)
    next
      assume "\<exists>res cl3 w3 ns3 l3. a = Inr res \<and> isSigned \<and>
        refusedForTheClock (traced env) res stamp (cl2, ((w2, ns2), l2)) = (Inr True, (cl3, ((w3, ns3), l3))) \<and>
        signAgain (traced env) method path body res (cl3, ((w3, ns3), l3)) = (r, (cl', ((w', ns), l)))"
      then obtain res cl3 w3 ns3 l3 where again: "a = Inr res" isSigned
        "refusedForTheClock (traced env) res stamp (cl2, ((w2, ns2), l2)) = (Inr True, (cl3, ((w3, ns3), l3)))"
        "signAgain (traced env) method path body res (cl3, ((w3, ns3), l3)) = (r, (cl', ((w', ns), l)))" by blast
      from n again(2) obtain n1 where n1: "ns1 = [n1]" "stamped n1 stamp h" by auto
      from refused_frame [OF again(3)] refused_nonces [OF again(3)] signAgain_exchanges [OF again(4)] ex(1)
      obtain h2 r2 where r2: "l = l2 @ r2" "send_round h2 r2" "length r2 \<le> length (ac_alternativeHosts cl) + 2" "rs_status res = 401"
        "r2 \<noteq> [] \<longrightarrow> (\<exists>n s. ns = ns2 @ [n] \<and> stamped n s h2 \<and> dated_within env res s)"
        by auto
      have "take 1 ns = [n1]" using signAgain_nonces [OF again(4)] refused_nonces [OF again(3)] ns2 n1(1) by auto
      with ex again(1,2) n1 ns2 r2 show ?thesis
        by (intro exI [of _ h] exI [of _ h2] exI [of _ l2] exI [of _ r2]) auto
    qed
  qed
qed

section \<open>Recovering from a drifted clock\<close>

text \<open>
  A device whose clock reads \<open>device\<close> and a server whose clock reads \<open>server\<close>: the server accepts a stamp within the window
  and otherwise answers a \<^verbatim>\<open>401\<close> with its \<^verbatim>\<open>Date\<close>.
\<close>

definition stamp_of :: "HttpRequest \<Rightarrow> int" where
  "stamp_of rq =
     (case Option.bind (map_of (rq_headers rq) ''X-Warren-Timestamp'') read_number of Some (n, _) \<Rightarrow> n | None \<Rightarrow> 0)"

definition skew_env :: "token_platform \<Rightarrow> int \<Rightarrow> int \<Rightarrow> string \<Rightarrow> string \<Rightarrow> HttpResponse \<Rightarrow> unit api_env" where
  "skew_env pf device server date refusal good = \<lparr>
     en_send = (\<lambda>rq w. (Inr (if \<bar>server - stamp_of rq\<bar> \<le> SIGNATURE_WINDOW_SECS then good
       else \<lparr>rs_status = 401, rs_body = refusal, rs_date = Some date\<rparr>), w)),
     en_now = (\<lambda>w. (device, w)), en_nonce = (\<lambda>w. (replicate 32 CHR ''0'', w)),
     en_dateParse = (\<lambda>d. if d = date then Some (server * 1000) else None),
     en_urlWithHost = (\<lambda>b h. Some (h, ''/'')), en_platform = pf\<rparr>"

lemma skew_build:
  assumes "0 \<le> device" "isSafeInteger device" "ac_keyPair cl = Some pair" "length (publicKey pair) = 32"
  shows "\<exists>h. buildHeaders (skew_env pf device server date refusal good) method path body True (cl, w) =
      (Inr (h, clock_stamp (ac_clock cl) device), (cl, w)) \<and>
    map_of h ''X-Warren-Timestamp'' = Some (show_int (clock_stamp (ac_clock cl) device))"
proof -
  let ?pf = "platform.truncate pf" and ?n = "replicate 32 CHR ''0''" and ?t = "clock_stamp (ac_clock cl) device"
  obtain addr where "encodeAddress ?pf (publicKey pair) WARREN_SS58_PREFIX = Inr addr"
    using assms(4) by (simp add: encodeAddress_def encodePrefix_def WARREN_SS58_PREFIX_def Let_def)
  then obtain sig where sig: "signWithKeyPair ?pf pair method path body ?t ?n = Inr sig" "sig_timestamp sig = ?t"
    by (simp add: signWithKeyPair_def Let_def)
  let ?h = "plain_headers body @ signatureHeaders sig"
  have "buildHeaders (skew_env pf device server date refusal good) method path body True (cl, w) = (Inr (?h, ?t), (cl, w))"
    using assms(1-3) sig(1) by (simp add: buildHeaders_def bindA_def nowA_def nonceA_def skew_env_def Let_def)
  moreover have "map_of ?h ''X-Warren-Timestamp'' = Some (show_int ?t)"
    by (simp add: plain_headers_def signatureHeaders_def sig(2))
  ultimately show ?thesis by blast
qed

lemma skew_send:
  assumes "map_of h ''X-Warren-Timestamp'' = Some (show_int n)"
  shows "sendToFirstHostThatAnswers (skew_env pf device server date refusal good) method path body h (cl, w) =
    (Inr (if \<bar>server - n\<bar> \<le> 60 then good else \<lparr>rs_status = 401, rs_body = refusal, rs_date = Some date\<rparr>), (cl, w))"
proof -
  have ok: "\<exists>ys. mapR (\<lambda>host. bindR (replaceHost (skew_env pf device server date refusal good) (ac_baseUrl cl) host) (\<lambda>u. Inr (u @ path, True))) hosts = Inr ys" for hosts
    by (induction hosts) (auto simp: replaceHost_def skew_env_def)
  then obtain ys where "mapR (\<lambda>host. bindR (replaceHost (skew_env pf device server date refusal good) (ac_baseUrl cl) host)
      (\<lambda>u. Inr (u @ path, True))) (ac_alternativeHosts cl) = Inr ys" by blast
  then obtain cands where "candidates (skew_env pf device server date refusal good) cl path = Inr ((ac_baseUrl cl @ path, True) # cands)"
    by (simp add: candidates_def)
  moreover have "read_number (show_int n) = Some (n, [])" using read_number_show [of "[]" n] by (simp add: num_end_def)
  ultimately show ?thesis
    using assms by (simp add: sendToFirstHostThatAnswers_def bindA_def liftA_def)
      (simp add: skew_env_def stamp_of_def SIGNATURE_WINDOW_SECS_def)
qed

lemma skew_answers:
  fixes server device :: int
  assumes "env = skew_env pf device server date refusal good" "res = \<lparr>rs_status = 401, rs_body = refusal, rs_date = Some date\<rparr>"
  shows "stampFitsTheWindow env res n \<longleftrightarrow> \<bar>server - n\<bar> \<le> 60"
    and "60 < \<bar>server - n\<bar> \<Longrightarrow> refusedForTheClock env res n (cl, w) = (Inr True, (cl\<lparr>ac_clock := server - device\<rparr>, w))"
    and "clockSkew env res (cl, w) = (Inl (ApiErr \<lparr>ae_code = api_clock_skew, ae_status = Some 401, ae_body = None,
      ae_offsetSecs = Some (server - device)\<rparr>), (cl, w))"
proof -
  have off: "clockOffsetSecs (en_dateParse env) date k = Some (server - k)" for k by (simp add: assms skew_env_def clockOffsetSecs_def)
  then have stamp: "stampOffset env res k = Some (server - k)" for k by (simp add: assms stampOffset_def)
  show "stampFitsTheWindow env res n \<longleftrightarrow> \<bar>server - n\<bar> \<le> 60"
    by (simp add: stampFitsTheWindow_def stamp SIGNATURE_WINDOW_SECS_def)
  have now: "nowA env s = (Inr device, s)" for s by (cases s) (simp add: nowA_def assms skew_env_def)
  have refuse: "refusesTheClock env res n" if "60 < \<bar>server - n\<bar>"
    using that unfolding refusesTheClock_def stamp by (simp add: SIGNATURE_WINDOW_SECS_def)
  show "refusedForTheClock env res n (cl, w) = (Inr True, (cl\<lparr>ac_clock := server - device\<rparr>, w))" if "60 < \<bar>server - n\<bar>"
    using refuse [OF that] off unfolding refusedForTheClock_def by (simp add: assms(2) bindA_def now observeDate_def)
  show "clockSkew env res (cl, w) = (Inl (ApiErr \<lparr>ae_code = api_clock_skew, ae_status = Some 401, ae_body = None,
      ae_offsetSecs = Some (server - device)\<rparr>), (cl, w))"
    using assms(2) off by (simp add: clockSkew_def bindA_def now throwA_def)
qed

text \<open>
  C29. A signed call recovers from a drifted clock: against a server that refuses stamps outside its window with its
  \<^verbatim>\<open>Date\<close>, whatever offset was learned before, the call returns the server's answer whenever the server is at most a
  quarter of an hour ahead of the device or the device is ahead of the server by any amount; otherwise, unless the first
  stamp was accepted, it fails with \<^verbatim>\<open>clock_skew\<close> and the measured offset.
\<close>

theorem clock_recovery:
  assumes clocks: "0 \<le> device" "isSafeInteger device" "0 \<le> server" "isSafeInteger server"
    and key: "ac_keyPair cl = Some pair" "length (publicKey pair) = 32" and good: "rs_status good \<noteq> 401"
  shows "fst (request (skew_env pf device server date refusal good) method path body True (cl, ())) =
    (if \<bar>server - clock_stamp (ac_clock cl) device\<bar> \<le> SIGNATURE_WINDOW_SECS \<or> server - device \<le> MAX_FORWARD_CORRECTION_SECS then Inr good
     else Inl (ApiErr \<lparr>ae_code = api_clock_skew, ae_status = Some 401, ae_body = None, ae_offsetSecs = Some (server - device)\<rparr>))"
proof -
  define env where "env = skew_env pf device server date refusal good"
  define res where "res = \<lparr>rs_status = 401, rs_body = refusal, rs_date = Some date\<rparr>"
  note a = skew_answers [OF env_def res_def]
  have ok: "refusedForTheClock env good n s = (Inr False, s)" for n s using good by (simp add: refusedForTheClock_def returnA_def)
  obtain h1 where h1: "buildHeaders env method path body True (cl, ()) = (Inr (h1, clock_stamp (ac_clock cl) device), (cl, ()))"
    "map_of h1 ''X-Warren-Timestamp'' = Some (show_int (clock_stamp (ac_clock cl) device))"
    using skew_build [OF clocks(1,2) key] unfolding env_def by blast
  have send: "sendToFirstHostThatAnswers env method path body h (c, ()) = (Inr (if \<bar>server - n\<bar> \<le> 60 then good else res), (c, ()))"
    if "map_of h ''X-Warren-Timestamp'' = Some (show_int n)" for h n c
    unfolding env_def res_def by (rule skew_send [OF that])
  show ?thesis
  proof (cases "\<bar>server - clock_stamp (ac_clock cl) device\<bar> \<le> 60")
    case True
    then show ?thesis
      using h1(1) send [OF h1(2), of cl] ok
      by (simp add: request_def bindA_def returnA_def SIGNATURE_WINDOW_SECS_def flip: env_def)
  next
    case False
    let ?cl = "cl\<lparr>ac_clock := server - device\<rparr>" and ?t = "clock_stamp (server - device) device"
    obtain h2 where h2: "buildHeaders env method path body True (?cl, ()) = (Inr (h2, ?t), (?cl, ()))"
      "map_of h2 ''X-Warren-Timestamp'' = Some (show_int ?t)"
      using skew_build [OF clocks(1,2), of ?cl pair pf server date refusal good "method" path body "()"] key unfolding env_def by auto
    have t: "\<bar>server - ?t\<bar> \<le> 60 \<longleftrightarrow> server - device \<le> 900"
      using corrected_close [OF clocks] False applicable_bounds(3) [of "server - device"] clocks
      by (cases "server - device \<le> 900") (auto simp: clock_stamp_def correctedTimestamp_def)
    have "request env method path body True (cl, ()) = signAgain env method path body res (?cl, ())"
      using h1(1) send [OF h1(2), of cl] a(2) False by (simp add: request_def bindA_def)
    then show ?thesis
      using h2(1) send [OF h2(2), of ?cl] a(1) t ok False
      by (simp add: signAgain_def a(3) bindA_def returnA_def SIGNATURE_WINDOW_SECS_def MAX_FORWARD_CORRECTION_SECS_def flip: env_def)
  qed
qed

theorem clock_recovery_witness:
  "fst (request (skew_env sample_token_platform 1091 1000 ''date'' [] \<lparr>rs_status = 200, rs_body = ''{}'', rs_date = None\<rparr>) ''GET'' ''/v1/check'' [] True
     (\<lparr>ac_baseUrl = ''https://api'', ac_alternativeHosts = [], ac_keyPair = Some \<lparr>secretKey = [], publicKey = replicate 32 1\<rparr>, ac_clock = 0\<rparr>, ())) =
   Inr \<lparr>rs_status = 200, rs_body = ''{}'', rs_date = None\<rparr>"
proof -
  let ?pair = "\<lparr>secretKey = [], publicKey = replicate 32 1\<rparr> :: WarrenKeyPair"
  let ?cl = "\<lparr>ac_baseUrl = ''https://api'', ac_alternativeHosts = [], ac_keyPair = Some ?pair, ac_clock = 0\<rparr>"
  have "ac_keyPair ?cl = Some ?pair" "length (publicKey ?pair) = 32" "isSafeInteger 1091" "isSafeInteger 1000"
    by (simp_all add: isSafeInteger_def)
  from clock_recovery [OF _ this(3) _ this(4,1,2), of "\<lparr>rs_status = 200, rs_body = ''{}'', rs_date = None\<rparr>"]
  show ?thesis by (simp add: MAX_FORWARD_CORRECTION_SECS_def)
qed

section \<open>A signed call over three exchanges\<close>

text \<open>
  A world that counts what was asked of it: the first host rejects with an error that is no \<^verbatim>\<open>WarrenTransportError\<close>, the
  next one refuses the clock, and every later exchange is answered. The second nonce differs from the first.
\<close>

definition counting_env :: "nat api_env" where
  "counting_env = \<lparr>
     en_send = (\<lambda>rq w. (if w = 1 then Inl OtherRejection
        else if w = 2 then Inr \<lparr>rs_status = 401, rs_body = [], rs_date = Some ''date''\<rparr>
        else Inr \<lparr>rs_status = 200, rs_body = ''{}'', rs_date = None\<rparr>, w + 1)),
     en_now = (\<lambda>w. (1091, w)), en_nonce = (\<lambda>w. (if w = 0 then ''aa'' else ''bb'', w + 1)),
     en_dateParse = (\<lambda>d. if d = ''date'' then Some 1000000 else None),
     en_urlWithHost = (\<lambda>b h. Some (h, ''/'')), en_platform = sample_token_platform\<rparr>"

definition counting_client :: "int \<Rightarrow> WarrenApiClient" where
  "counting_client off = \<lparr>ac_baseUrl = ''https://api'', ac_alternativeHosts = [],
     ac_keyPair = Some \<lparr>secretKey = [], publicKey = replicate 32 1\<rparr>, ac_clock = off\<rparr>"

lemma counting_build:
  "\<exists>h. buildHeaders (traced counting_env) ''GET'' ''/v1/check'' [] True (counting_client off, ((w, ns), l)) =
    (Inr (h, clock_stamp off 1091), (counting_client off, ((w + 1, ns @ [if w = 0 then ''aa'' else ''bb'']), l)))"
proof -
  let ?pf = "platform.truncate sample_token_platform" and ?pair = "\<lparr>secretKey = [], publicKey = replicate 32 1\<rparr> :: WarrenKeyPair"
  obtain addr where "encodeAddress ?pf (publicKey ?pair) WARREN_SS58_PREFIX = Inr addr"
    by (simp add: encodeAddress_def encodePrefix_def WARREN_SS58_PREFIX_def Let_def)
  then have "\<exists>sig. signWithKeyPair ?pf ?pair method path body t n = Inr sig" for "method" path body t n
    by (simp add: signWithKeyPair_def Let_def)
  then obtain sig where "signWithKeyPair ?pf ?pair ''GET'' ''/v1/check'' [] (clock_stamp off 1091) (if w = 0 then ''aa'' else ''bb'') = Inr sig"
    by blast
  then show ?thesis
    by (simp add: buildHeaders_def bindA_def nowA_def nonceA_def counting_client_def counting_env_def logged_def noncing_def
        isSafeInteger_def Let_def)
qed

lemma counting_run:
  "\<exists>cl' ns l. request (traced counting_env) ''GET'' ''/v1/check'' [] True (counting_client 0, ((0, []), [])) =
     (Inr \<lparr>rs_status = 200, rs_body = ''{}'', rs_date = None\<rparr>, (cl', ((5, ns), l))) \<and> length l = 3"
proof -
  let ?env = "traced counting_env" and ?no = "\<lparr>rs_status = 401, rs_body = [], rs_date = Some ''date''\<rparr>"
    and ?ok = "\<lparr>rs_status = 200, rs_body = ''{}'', rs_date = None\<rparr>"
  have cands: "candidates ?env (counting_client off) path = Inr [(''https://api'' @ path, True), (''https://api'' @ path, False)]" for off path
    by (simp add: candidates_def counting_client_def)
  obtain h1 where h1: "buildHeaders ?env ''GET'' ''/v1/check'' [] True (counting_client 0, ((0, []), [])) =
      (Inr (h1, clock_stamp 0 1091), (counting_client 0, ((1, [''aa'']), [])))"
    using counting_build [of 0 0 "[]" "[]"] by auto
  have s1: "\<exists>l. sendToFirstHostThatAnswers ?env ''GET'' ''/v1/check'' [] h1 (counting_client 0, ((1, [''aa'']), [])) =
      (Inr ?no, (counting_client 0, ((3, [''aa'']), l))) \<and> length l = 2"
    by (simp add: sendToFirstHostThatAnswers_def bindA_def liftA_def cands)
       (simp add: logged_def noncing_def counting_env_def)
  then obtain l1 where l1: "sendToFirstHostThatAnswers ?env ''GET'' ''/v1/check'' [] h1 (counting_client 0, ((1, [''aa'']), [])) =
      (Inr ?no, (counting_client 0, ((3, [''aa'']), l1)))" "length l1 = 2" by blast
  have stamp: "clock_stamp 0 1091 = 1091" "clock_stamp (-91) 1091 = 1000"
    by (simp_all add: clock_stamp_def correctedTimestamp_def applicableOffset_def Let_def isSafeInteger_def
        SIGNATURE_WINDOW_SECS_def MAX_FORWARD_CORRECTION_SECS_def)
  have offs: "stampOffset ?env ?no t = Some (1000 - t)" for t
    by (simp add: stampOffset_def clockOffsetSecs_def logged_def noncing_def counting_env_def)
  have "refusesTheClock ?env ?no 1091" unfolding refusesTheClock_def offs by (simp add: SIGNATURE_WINDOW_SECS_def)
  then have r1: "refusedForTheClock ?env ?no 1091 (counting_client 0, ((3, [''aa'']), l)) =
      (Inr True, (counting_client (-91), ((3, [''aa'']), l)))" for l
    by (simp add: refusedForTheClock_def bindA_def nowA_def observeDate_def clockOffsetSecs_def counting_client_def)
       (simp add: logged_def noncing_def counting_env_def)
  obtain h2 where h2: "buildHeaders ?env ''GET'' ''/v1/check'' [] True (counting_client (-91), ((3, [''aa'']), l1)) =
      (Inr (h2, 1000), (counting_client (-91), ((4, [''aa'', ''bb'']), l1)))"
    using counting_build [of "-91" 3 "[''aa'']" l1] stamp by auto
  have fits: "stampFitsTheWindow ?env ?no 1000" by (simp add: stampFitsTheWindow_def offs SIGNATURE_WINDOW_SECS_def)
  have "\<exists>l. sendToFirstHostThatAnswers ?env ''GET'' ''/v1/check'' [] h2 (counting_client (-91), ((4, [''aa'', ''bb'']), l1)) =
      (Inr ?ok, (counting_client (-91), ((5, [''aa'', ''bb'']), l))) \<and> length l = 3"
    by (simp add: sendToFirstHostThatAnswers_def bindA_def liftA_def cands)
       (simp add: logged_def noncing_def counting_env_def l1(2))
  then obtain l2 where l2: "sendToFirstHostThatAnswers ?env ''GET'' ''/v1/check'' [] h2 (counting_client (-91), ((4, [''aa'', ''bb'']), l1)) =
      (Inr ?ok, (counting_client (-91), ((5, [''aa'', ''bb'']), l2)))" "length l2 = 3" by blast
  have "refusedForTheClock ?env ?ok t s = (Inr False, s)" for t s by (simp add: refusedForTheClock_def returnA_def)
  then show ?thesis
    using l2(2) by (simp add: request_def signAgain_def bindA_def returnA_def h1 l1(1) stamp(1) r1 h2 fits l2(1) del: One_nat_def)
qed

theorem request_exchanges_witness:
  "\<exists>cl' l n1 n2. request (traced counting_env) ''GET'' ''/v1/check'' [] True (counting_client 0, ((0, []), [])) =
     (Inr \<lparr>rs_status = 200, rs_body = ''{}'', rs_date = None\<rparr>, (cl', ((5, [n1, n2]), l))) \<and>
    length l = 3 \<and> map_of (rq_headers (fst (last l))) ''X-Warren-Nonce'' = Some n2"
proof -
  let ?ok = "\<lparr>rs_status = 200, rs_body = ''{}'', rs_date = None\<rparr>"
  obtain cl' ns l where run: "request (traced counting_env) ''GET'' ''/v1/check'' [] True (counting_client 0, ((0, []), [])) =
     (Inr ?ok, (cl', ((5, ns), l)))" and three: "length l = 3"
    using counting_run by blast
  from request_exchanges [OF run] obtain h2 r1 r2 where r: "l = r1 @ r2" "send_round h2 r2"
    "length r1 \<le> length (ac_alternativeHosts (counting_client 0)) + 2"
    "r2 \<noteq> [] \<longrightarrow> True \<and> r1 \<noteq> [] \<and> (\<exists>n1 n2 stamp res. ns = [n1, n2] \<and> stamped n2 stamp h2 \<and>
       snd (last r1) = Inr res \<and> rs_status res = 401 \<and> dated_within counting_env res stamp)"
    by blast
  from r(1,3) three have "r2 \<noteq> []" by (auto simp: counting_client_def)
  with r obtain n1 n2 stamp where n: "ns = [n1, n2]" "stamped n2 stamp h2" by blast
  have "rq_headers (fst (last l)) = h2" using r(1,2) \<open>r2 \<noteq> []\<close> by (simp add: send_round_def list_all_iff)
  with run n three show ?thesis by (auto simp: stamped_def)
qed

end
