(* ===== verification/Directory.thy ===== *)
theory Directory
  imports Relay_List Stream_Framing
begin

text \<open>
  The multi-hop directory: the post-quantum exit descriptor (\<^verbatim>\<open>packages/core/src/edge/pq-descriptor.ts\<close>) and
  the directory verifier (\<^verbatim>\<open>packages/core/src/discovery/multihop.ts\<close>), whose trust chain is server envelope,
  operational certificate, then the operational signatures of every node.
\<close>

section \<open>Post-quantum exit descriptors\<close>

definition WARREN_PKI_OPERATIONAL_EXIT_PQ_V1 :: bytes where
  "WARREN_PKI_OPERATIONAL_EXIT_PQ_V1 = utf8ToBytes ''warren/multihop/v2/operational-signs-exit-pq''"

definition MLKEM768_ENCAPS_KEY_LEN :: nat where
  "MLKEM768_ENCAPS_KEY_LEN = 1184"

datatype pq_error = PqDowngrade | MissingPqKey | BadPqKeyLength | PqBadSignature

datatype PqAvailability = PqAvailable | ClassicalFallback

record ExitDescriptorPq =
  pq_exitId :: bytes
  pq_exitX25519 :: bytes
  pq_dnsDisabled :: bool
  pq_exitMlkem768 :: "bytes option"
  pq_signature :: bytes

definition hexField :: "platform \<Rightarrow> json option \<Rightarrow> pq_error + bytes" where
  "hexField pf v =
     (case Option.bind v as_string of
        None \<Rightarrow> Inl PqBadSignature
      | Some s \<Rightarrow> of_option PqBadSignature (pf_hexToBytes pf s))"

text \<open>A text \<^verbatim>\<open>JSON.parse\<close> refuses, or a value without properties, throws no \<^verbatim>\<open>WarrenPqError\<close>: the outer \<open>None\<close>.\<close>

definition parseExitDescriptorPqJson :: "platform \<Rightarrow> string \<Rightarrow> (pq_error + ExitDescriptorPq) option" where
  "parseExitDescriptorPqJson pf text =
     (case pf_parse pf text of
        None \<Rightarrow> None
      | Some JNull \<Rightarrow> None
      | Some parsed \<Rightarrow> Some (
          bindR (hexField pf (jget parsed ''exit_id'')) (\<lambda>eid.
          bindR (hexField pf (jget parsed ''exit_x25519_multihop_pubkey'')) (\<lambda>xkey.
          bindR (case jget parsed ''exit_mlkem768_pubkey'' of
              None \<Rightarrow> Inr None
            | Some JNull \<Rightarrow> Inr None
            | Some v \<Rightarrow> bindR (hexField pf (Some v)) (\<lambda>k. Inr (Some k))) (\<lambda>mlkem.
          bindR (hexField pf (jget parsed ''signature'')) (\<lambda>sig.
          Inr \<lparr>pq_exitId = eid, pq_exitX25519 = xkey,
               pq_dnsDisabled = (jget parsed ''dns_disabled'' = Some (JBool True)),
               pq_exitMlkem768 = mlkem, pq_signature = sig\<rparr>))))))"

definition exitDescriptorSigningPayloadPq :: "bytes \<Rightarrow> bytes \<Rightarrow> bool \<Rightarrow> bytes \<Rightarrow> pq_error + bytes" where
  "exitDescriptorSigningPayloadPq eid xkey dnsDisabled ek =
     bindR (guardR (length eid = 16) PqBadSignature) (\<lambda>_.
     bindR (guardR (length xkey = 32) PqBadSignature) (\<lambda>_.
     Inr (WARREN_PKI_OPERATIONAL_EXIT_PQ_V1 @ eid @ xkey @ [if dnsDisabled then 1 else 0] @ ek)))"

definition verifyExitDescriptorPq :: "platform \<Rightarrow> bytes \<Rightarrow> ExitDescriptorPq \<Rightarrow> pq_error + unit" where
  "verifyExitDescriptorPq pf operationalPubkey d =
     bindR (of_option MissingPqKey (pq_exitMlkem768 d)) (\<lambda>ek.
     bindR (guardR (length ek = MLKEM768_ENCAPS_KEY_LEN) BadPqKeyLength) (\<lambda>_.
     bindR (guardR (length operationalPubkey = 32 \<and> length (pq_signature d) = 64) PqBadSignature) (\<lambda>_.
     bindR (exitDescriptorSigningPayloadPq (pq_exitId d) (pq_exitX25519 d) (pq_dnsDisabled d) ek) (\<lambda>payload.
     case pf_edVerify pf (pq_signature d) payload operationalPubkey of
       None \<Rightarrow> Inl PqBadSignature
     | Some valid \<Rightarrow> guardR valid PqBadSignature))))"

definition negotiatePq :: "platform \<Rightarrow> bytes \<Rightarrow> ExitDescriptorPq \<Rightarrow> bool \<Rightarrow> pq_error + PqAvailability" where
  "negotiatePq pf operationalPubkey d requirePq =
     (case verifyExitDescriptorPq pf operationalPubkey d of
        Inr _ \<Rightarrow> Inr PqAvailable
      | Inl _ \<Rightarrow> if requirePq then Inl PqDowngrade else Inr ClassicalFallback)"

section \<open>Directory documents\<close>

definition MULTIHOP_DIRECTORY_VERSION :: int where
  "MULTIHOP_DIRECTORY_VERSION = 2"

definition ROOT_OPERATIONAL_V1 :: bytes where
  "ROOT_OPERATIONAL_V1 = utf8ToBytes ''warren/multihop/v1/root-signs-operational''"

definition OPERATIONAL_EXIT_V1 :: bytes where
  "OPERATIONAL_EXIT_V1 = utf8ToBytes ''warren/multihop/v1/operational-signs-exit''"

definition OPERATIONAL_EXIT_V2 :: bytes where
  "OPERATIONAL_EXIT_V2 = utf8ToBytes ''warren/multihop/v2/operational-signs-exit''"

definition OPERATIONAL_RELAY_V1 :: bytes where
  "OPERATIONAL_RELAY_V1 = utf8ToBytes ''warren/multihop/v1/operational-signs-relay''"

definition OPERATIONAL_NODE_V1 :: bytes where
  "OPERATIONAL_NODE_V1 = utf8ToBytes ''warren/multihop/v1/operational-signs-node''"

datatype directory_error =
    RJson
  | RUnsupportedVersion int
  | RServerPubkeyMismatch
  | RInvalidHex
  | RBadEnvelopeSignature
  | RBadOperationalCert
  | RValidityTooLong
  | RExpired
  | RRolledBack

record VerifiedExit =
  ve_exitIdHex :: string
  ve_exitEd25519PubkeyHex :: string
  ve_exitX25519PubkeyHex :: string
  ve_endpoint :: string
  ve_endpointV6 :: "string option"
  ve_country :: string
  ve_city :: string
  ve_weight :: int
  ve_dnsDisabled :: bool
  ve_edgeCertSha256 :: "string option"
  ve_coverDomain :: "string option"
  ve_exitMlkem768PubkeyHex :: "string option"

record VerifiedDirectory =
  vd_exits :: "VerifiedExit list"
  vd_generation :: int
  vd_signedAt :: int
  vd_expiresAt :: int
  vd_dropped :: int
  vd_serverPubkeyHex :: string

definition isDirectoryExpired :: "VerifiedDirectory \<Rightarrow> int \<Rightarrow> bool" where
  "isDirectoryExpired dir nowUnixSecs \<longleftrightarrow> nowUnixSecs \<ge> vd_expiresAt dir"

definition dirObject :: "json option \<Rightarrow> string list \<Rightarrow> string list \<Rightarrow> directory_error + json" where
  "dirObject v required opts =
     (case v of Some j \<Rightarrow> if object_keys_ok j required opts then Inr j else Inl RJson | None \<Rightarrow> Inl RJson)"

definition dirArray :: "json option \<Rightarrow> directory_error + json list" where
  "dirArray v = of_option RJson (Option.bind v as_array)"

definition dirString :: "json option \<Rightarrow> directory_error + string" where
  "dirString v = of_option RJson (Option.bind v as_string)"

definition dirU64 :: "json option \<Rightarrow> directory_error + int" where
  "dirU64 v =
     (case Option.bind v as_integer of
        None \<Rightarrow> Inl RJson
      | Some i \<Rightarrow> if \<not> isSafeInteger i \<or> i < 0 then Inl RJson else Inr i)"

definition dirBool :: "json option \<Rightarrow> directory_error + bool" where
  "dirBool v = of_option RJson (Option.bind v as_bool)"

definition asFixedHex :: "nat \<Rightarrow> json option \<Rightarrow> directory_error + string" where
  "asFixedHex n v =
     bindR (dirString v) (\<lambda>s. bindR (guardR (hex_of_length (2 * n) s) RJson) (\<lambda>_. Inr (toLowerCase s)))"

definition asHex :: "json option \<Rightarrow> directory_error + string" where
  "asHex v =
     bindR (dirString v) (\<lambda>s.
     bindR (guardR (length s mod 2 = 0 \<and> list_all is_hex s) RJson) (\<lambda>_. Inr (toLowerCase s)))"

record dir_relay =
  dr_relay_id :: string
  dr_relay_ed25519_pubkey :: string
  dr_endpoint :: string
  dr_endpoint_v6 :: "string option"
  dr_cover_domain :: "string option"
  dr_tcp_fallback :: "bool option"
  dr_signature :: string

record dir_exit =
  dx_exit_id :: string
  dx_exit_ed25519_pubkey :: string
  dx_exit_x25519_multihop_pubkey :: string
  dx_endpoint :: "string option"
  dx_cover_domain :: "string option"
  dx_signature :: string
  dx_dns_disabled :: "bool option"
  dx_exit_mlkem768_pubkey :: "string option"

record dir_node =
  dn_relay :: dir_relay
  dn_exit :: dir_exit
  dn_country :: string
  dn_city :: string
  dn_asn :: int
  dn_weight :: int
  dn_attestation_hex :: string
  dn_edge_cert_sha256 :: "string option"

definition validateExit :: "json \<Rightarrow> directory_error + dir_exit" where
  "validateExit exitRaw =
     bindR (asFixedHex 16 (jget exitRaw ''exit_id'')) (\<lambda>eid.
     bindR (asFixedHex 32 (jget exitRaw ''exit_ed25519_pubkey'')) (\<lambda>edkey.
     bindR (asFixedHex 32 (jget exitRaw ''exit_x25519_multihop_pubkey'')) (\<lambda>xkey.
     bindR (asOptional dirString (jget exitRaw ''endpoint'')) (\<lambda>endpoint.
     bindR (asOptional dirString (jget exitRaw ''cover_domain'')) (\<lambda>cover.
     bindR (asFixedHex 64 (jget exitRaw ''signature'')) (\<lambda>sig.
     bindR (asOptional dirBool (jget exitRaw ''dns_disabled'')) (\<lambda>dns.
     bindR (asOptional asHex (jget exitRaw ''exit_mlkem768_pubkey'')) (\<lambda>mlkem.
     Inr \<lparr>dx_exit_id = eid, dx_exit_ed25519_pubkey = edkey, dx_exit_x25519_multihop_pubkey = xkey,
          dx_endpoint = endpoint, dx_cover_domain = cover, dx_signature = sig, dx_dns_disabled = dns,
          dx_exit_mlkem768_pubkey = mlkem\<rparr>))))))))"

definition validateDirRelay :: "json \<Rightarrow> directory_error + dir_relay" where
  "validateDirRelay relayRaw =
     bindR (asFixedHex 16 (jget relayRaw ''relay_id'')) (\<lambda>rid.
     bindR (asFixedHex 32 (jget relayRaw ''relay_ed25519_pubkey'')) (\<lambda>rkey.
     bindR (dirString (jget relayRaw ''endpoint'')) (\<lambda>endpoint.
     bindR (asOptional dirString (jget relayRaw ''endpoint_v6'')) (\<lambda>v6.
     bindR (asOptional dirString (jget relayRaw ''cover_domain'')) (\<lambda>cover.
     bindR (asOptional dirBool (jget relayRaw ''tcp_fallback'')) (\<lambda>tcp.
     bindR (asFixedHex 64 (jget relayRaw ''signature'')) (\<lambda>sig.
     Inr \<lparr>dr_relay_id = rid, dr_relay_ed25519_pubkey = rkey, dr_endpoint = endpoint, dr_endpoint_v6 = v6,
          dr_cover_domain = cover, dr_tcp_fallback = tcp, dr_signature = sig\<rparr>)))))))"

definition validateDirNode :: "json \<Rightarrow> directory_error + dir_node" where
  "validateDirNode raw =
     bindR (dirObject (Some raw) [''relay'', ''exit'', ''country'', ''city'', ''weight'', ''attestation_hex'']
       [''asn'', ''edge_cert_sha256'']) (\<lambda>node.
     bindR (dirObject (jget node ''relay'') [''relay_id'', ''relay_ed25519_pubkey'', ''endpoint'', ''signature'']
       [''endpoint_v6'', ''cover_domain'', ''tcp_fallback'']) (\<lambda>relayRaw.
     bindR (dirObject (jget node ''exit'') [''exit_id'', ''exit_ed25519_pubkey'', ''exit_x25519_multihop_pubkey'',
       ''signature''] [''endpoint'', ''cover_domain'', ''dns_disabled'', ''exit_mlkem768_pubkey'']) (\<lambda>exitRaw.
     bindR (validateExit exitRaw) (\<lambda>ex.
     bindR (validateDirRelay relayRaw) (\<lambda>rel.
     bindR (dirString (jget node ''country'')) (\<lambda>ctry.
     bindR (dirString (jget node ''city'')) (\<lambda>cty.
     bindR (case jget node ''asn'' of None \<Rightarrow> Inr 0 | Some v \<Rightarrow> dirU64 (Some v)) (\<lambda>asn.
     bindR (dirU64 (jget node ''weight'')) (\<lambda>wgt.
     bindR (dirString (jget node ''attestation_hex'')) (\<lambda>att.
     bindR (asOptional (asFixedHex 32) (jget node ''edge_cert_sha256'')) (\<lambda>edge.
     Inr \<lparr>dn_relay = rel, dn_exit = ex, dn_country = ctry, dn_city = cty, dn_asn = asn, dn_weight = wgt,
          dn_attestation_hex = att, dn_edge_cert_sha256 = edge\<rparr>)))))))))))"

text \<open>\<^verbatim>\<open>if (flag) o.key = true\<close>: absent and \<^verbatim>\<open>false\<close> are written the same way, not at all.\<close>

definition true_prop :: "string \<Rightarrow> bool option \<Rightarrow> (string \<times> json) list" where
  "true_prop k v = (if v = Some True then [(k, JBool True)] else [])"

definition canonicalNode :: "dir_node \<Rightarrow> json" where
  "canonicalNode n =
     (let x = dn_exit n; r = dn_relay n;
          exit_obj = JObj ([(''exit_id'', JStr (dx_exit_id x)), (''exit_ed25519_pubkey'', JStr (dx_exit_ed25519_pubkey x)),
              (''exit_x25519_multihop_pubkey'', JStr (dx_exit_x25519_multihop_pubkey x))]
            @ opt_prop ''endpoint'' JStr (dx_endpoint x) @ opt_prop ''cover_domain'' JStr (dx_cover_domain x)
            @ [(''signature'', JStr (dx_signature x))] @ true_prop ''dns_disabled'' (dx_dns_disabled x)
            @ opt_prop ''exit_mlkem768_pubkey'' JStr (dx_exit_mlkem768_pubkey x));
          relay_obj = JObj ([(''relay_id'', JStr (dr_relay_id r)), (''relay_ed25519_pubkey'', JStr (dr_relay_ed25519_pubkey r)),
              (''endpoint'', JStr (dr_endpoint r))]
            @ opt_prop ''endpoint_v6'' JStr (dr_endpoint_v6 r) @ opt_prop ''cover_domain'' JStr (dr_cover_domain r)
            @ true_prop ''tcp_fallback'' (dr_tcp_fallback r) @ [(''signature'', JStr (dr_signature r))])
      in JObj ([(''relay'', relay_obj), (''exit'', exit_obj), (''country'', JStr (dn_country n)),
           (''city'', JStr (dn_city n)), (''asn'', JInt (dn_asn n)), (''weight'', JInt (dn_weight n)),
           (''attestation_hex'', JStr (dn_attestation_hex n))]
         @ opt_prop ''edge_cert_sha256'' JStr (dn_edge_cert_sha256 n)))"

section \<open>Keys and signatures\<close>

definition pubkey :: "platform \<Rightarrow> string \<Rightarrow> directory_error + bytes" where
  "pubkey pf hex =
     bindR (of_option RInvalidHex (pf_hexToBytes pf hex)) (\<lambda>bs.
     bindR (guardR (length bs = 32) RInvalidHex) (\<lambda>_.
     bindR (guardR (pf_edPoint pf bs) RInvalidHex) (\<lambda>_. Inr bs)))"

definition sig64 :: "platform \<Rightarrow> string \<Rightarrow> directory_error + bytes" where
  "sig64 pf hex =
     bindR (of_option RInvalidHex (pf_hexToBytes pf hex)) (\<lambda>bs.
     bindR (guardR (length bs = 64) RInvalidHex) (\<lambda>_. Inr bs))"

definition verifyParts :: "platform \<Rightarrow> bytes \<Rightarrow> string \<Rightarrow> bytes \<Rightarrow> bytes list \<Rightarrow> bool" where
  "verifyParts pf pub sigHex context parts =
     (case pf_hexToBytes pf sigHex of
        None \<Rightarrow> False
      | Some signature \<Rightarrow> length signature = 64 \<and>
          pf_edVerify pf signature (context @ concat parts) pub = Some True)"

text \<open>\<^verbatim>\<open>setUint32(0, asn >>> 0, false)\<close>: the number modulo \<open>2 ^ 32\<close>, big-endian.\<close>

definition asnBe :: "int \<Rightarrow> bytes" where
  "asnBe asn = writeUInt32BE (nat (asn mod 2 ^ 32))"

record NodeVouch =
  nv_dnsDisabled :: bool
  nv_exitMlkem768PubkeyHex :: "string option"

text \<open>The hex fields of a validated node are hexadecimal, so \<^verbatim>\<open>hexToBytes\<close> of them returns; \<open>hex\<close> is its value.\<close>

definition hexBytes :: "platform \<Rightarrow> string \<Rightarrow> bytes" where
  "hexBytes pf s = (case pf_hexToBytes pf s of None \<Rightarrow> [] | Some bs \<Rightarrow> bs)"

definition vouchNode :: "platform \<Rightarrow> bytes \<Rightarrow> dir_node \<Rightarrow> NodeVouch option" where
  "vouchNode pf operational n =
     (let r = dn_relay n; x = dn_exit n;
          relayOk = verifyParts pf operational (dr_signature r) OPERATIONAL_RELAY_V1
            [hexBytes pf (dr_relay_id r), hexBytes pf (dr_relay_ed25519_pubkey r)];
          attestationOk = verifyParts pf operational (dn_attestation_hex n) OPERATIONAL_NODE_V1
            [hexBytes pf (dr_relay_id r), hexBytes pf (dx_exit_ed25519_pubkey x), asnBe (dn_asn n), utf8ToBytes (dn_country n)];
          dnsDisabled = (dx_dns_disabled x = Some True);
          eid = hexBytes pf (dx_exit_id x);
          xkey = hexBytes pf (dx_exit_x25519_multihop_pubkey x);
          pqOk = (case dx_exit_mlkem768_pubkey x of
              None \<Rightarrow> False
            | Some ek \<Rightarrow> verifyExitDescriptorPq pf operational
                \<lparr>pq_exitId = eid, pq_exitX25519 = xkey, pq_dnsDisabled = dnsDisabled,
                 pq_exitMlkem768 = Some (hexBytes pf ek), pq_signature = hexBytes pf (dx_signature x)\<rparr> = Inr ())
      in if \<not> relayOk then None
         else if \<not> attestationOk then None
         else if pqOk then Some \<lparr>nv_dnsDisabled = dnsDisabled, nv_exitMlkem768PubkeyHex = dx_exit_mlkem768_pubkey x\<rparr>
         else if verifyParts pf operational (dx_signature x) OPERATIONAL_EXIT_V2 [eid, xkey, [if dnsDisabled then 1 else 0]]
         then Some \<lparr>nv_dnsDisabled = dnsDisabled, nv_exitMlkem768PubkeyHex = None\<rparr>
         else if verifyParts pf operational (dx_signature x) OPERATIONAL_EXIT_V1 [eid, xkey]
         then (if dnsDisabled then None else Some \<lparr>nv_dnsDisabled = False, nv_exitMlkem768PubkeyHex = None\<rparr>)
         else None)"

section \<open>Verifying a directory\<close>

record signed_directory =
  sd_version :: int
  sd_nodes :: "dir_node list"
  sd_generation :: int
  sd_signed_at :: int
  sd_expires_at :: int
  sd_operational_pubkey_hex :: string
  sd_operational_cert_hex :: string
  sd_server_pubkey_hex :: string
  sd_signature_hex :: string

definition parseDirectory :: "platform \<Rightarrow> string \<Rightarrow> directory_error + signed_directory" where
  "parseDirectory pf text =
     bindR (of_option RJson (pf_parse pf text)) (\<lambda>parsed.
     bindR (dirObject (Some parsed) [''version'', ''nodes'', ''generation'', ''signed_at'', ''expires_at'',
       ''operational_pubkey_hex'', ''operational_cert_hex'', ''server_pubkey_hex'', ''signature_hex''] []) (\<lambda>top.
     bindR (dirU64 (jget top ''version'')) (\<lambda>version.
     bindR (guardR (version = MULTIHOP_DIRECTORY_VERSION) (RUnsupportedVersion version)) (\<lambda>_.
     bindR (dirString (jget top ''server_pubkey_hex'')) (\<lambda>server.
     bindR (dirString (jget top ''operational_pubkey_hex'')) (\<lambda>op.
     bindR (dirString (jget top ''operational_cert_hex'')) (\<lambda>cert.
     bindR (dirString (jget top ''signature_hex'')) (\<lambda>sig.
     bindR (dirU64 (jget top ''generation'')) (\<lambda>gen.
     bindR (dirU64 (jget top ''signed_at'')) (\<lambda>signed_at.
     bindR (dirU64 (jget top ''expires_at'')) (\<lambda>expires_at.
     bindR (dirArray (jget top ''nodes'')) (\<lambda>raw.
     bindR (mapR validateDirNode raw) (\<lambda>nodes.
     Inr \<lparr>sd_version = version, sd_nodes = nodes, sd_generation = gen, sd_signed_at = signed_at,
          sd_expires_at = expires_at, sd_operational_pubkey_hex = op, sd_operational_cert_hex = cert,
          sd_server_pubkey_hex = server, sd_signature_hex = sig\<rparr>)))))))))))))"

definition canonical_directory_json :: "signed_directory \<Rightarrow> json" where
  "canonical_directory_json d = JObj
     [(''version'', JInt (sd_version d)), (''nodes'', JArr (map canonicalNode (sd_nodes d))),
      (''generation'', JInt (sd_generation d)), (''signed_at'', JInt (sd_signed_at d)),
      (''expires_at'', JInt (sd_expires_at d)), (''operational_pubkey_hex'', JStr (sd_operational_pubkey_hex d)),
      (''operational_cert_hex'', JStr (sd_operational_cert_hex d)), (''server_pubkey_hex'', JStr (sd_server_pubkey_hex d))]"

definition checkEnvelope :: "platform \<Rightarrow> signed_directory \<Rightarrow> directory_error + unit" where
  "checkEnvelope pf d =
     bindR (pubkey pf (sd_server_pubkey_hex d)) (\<lambda>serverPubkey.
     bindR (sig64 pf (sd_signature_hex d)) (\<lambda>envelopeSig.
     guardR (pf_edVerify pf envelopeSig (utf8ToBytes (stringify (canonical_directory_json d))) serverPubkey = Some True)
       RBadEnvelopeSignature))"

definition certifiedBy :: "platform \<Rightarrow> string list \<Rightarrow> string \<Rightarrow> bytes \<Rightarrow> bool" where
  "certifiedBy pf roots certHex operational \<longleftrightarrow> roots = [] \<or>
     (\<exists>rootHex \<in> set roots.
        case pubkey pf rootHex of Inl _ \<Rightarrow> False | Inr root \<Rightarrow> verifyParts pf root certHex ROOT_OPERATIONAL_V1 [operational])"

definition exitOf :: "dir_node \<Rightarrow> NodeVouch \<Rightarrow> VerifiedExit" where
  "exitOf n vouch =
     \<lparr>ve_exitIdHex = dx_exit_id (dn_exit n), ve_exitEd25519PubkeyHex = dx_exit_ed25519_pubkey (dn_exit n),
      ve_exitX25519PubkeyHex = dx_exit_x25519_multihop_pubkey (dn_exit n), ve_endpoint = dr_endpoint (dn_relay n),
      ve_endpointV6 = dr_endpoint_v6 (dn_relay n), ve_country = dn_country n, ve_city = dn_city n,
      ve_weight = dn_weight n, ve_dnsDisabled = nv_dnsDisabled vouch, ve_edgeCertSha256 = dn_edge_cert_sha256 n,
      ve_coverDomain = dx_cover_domain (dn_exit n), ve_exitMlkem768PubkeyHex = nv_exitMlkem768PubkeyHex vouch\<rparr>"

definition vouchedExits :: "platform \<Rightarrow> bytes \<Rightarrow> dir_node list \<Rightarrow> VerifiedExit list" where
  "vouchedExits pf operational nodes =
     concat (map (\<lambda>n. case vouchNode pf operational n of None \<Rightarrow> [] | Some vouch \<Rightarrow> [exitOf n vouch]) nodes)"

definition verifyMultihopDirectory ::
    "platform \<Rightarrow> string \<Rightarrow> string list \<Rightarrow> string list \<Rightarrow> directory_error + VerifiedDirectory" where
  "verifyMultihopDirectory pf text serverPins rootPins =
     bindR (parseDirectory pf text) (\<lambda>d.
     bindR (guardR (pinned serverPins (sd_server_pubkey_hex d)) RServerPubkeyMismatch) (\<lambda>_.
     bindR (checkEnvelope pf d) (\<lambda>_.
     bindR (guardR (\<not> sd_expires_at d - sd_signed_at d > MAX_VALIDITY_SECS) RValidityTooLong) (\<lambda>_.
     bindR (pubkey pf (sd_operational_pubkey_hex d)) (\<lambda>operational.
     bindR (guardR (certifiedBy pf rootPins (sd_operational_cert_hex d) operational) RBadOperationalCert) (\<lambda>_.
     let exits = vouchedExits pf operational (sd_nodes d) in
     Inr \<lparr>vd_exits = exits, vd_generation = sd_generation d, vd_signedAt = sd_signed_at d,
          vd_expiresAt = sd_expires_at d, vd_dropped = int (length (sd_nodes d)) - int (length exits),
          vd_serverPubkeyHex = toLowerCase (sd_server_pubkey_hex d)\<rparr>))))))"

section \<open>What a vouched node is\<close>

text \<open>
  The signatures of a node, spelled out on \<open>signedUnder\<close> and the literal messages: context string, then the bytes of
  the fields it binds.
\<close>

definition nodeSigned :: "platform \<Rightarrow> bytes \<Rightarrow> dir_node \<Rightarrow> bool" where
  "nodeSigned pf operational n \<longleftrightarrow>
     signedUnder pf operational (dr_signature (dn_relay n))
       (utf8ToBytes ''warren/multihop/v1/operational-signs-relay'' @ hexBytes pf (dr_relay_id (dn_relay n))
         @ hexBytes pf (dr_relay_ed25519_pubkey (dn_relay n))) \<and>
     signedUnder pf operational (dn_attestation_hex n)
       (utf8ToBytes ''warren/multihop/v1/operational-signs-node'' @ hexBytes pf (dr_relay_id (dn_relay n))
         @ hexBytes pf (dx_exit_ed25519_pubkey (dn_exit n)) @ writeUInt32BE (nat (dn_asn n mod 2 ^ 32))
         @ utf8ToBytes (dn_country n))"

text \<open>The exit descriptor signed in the post-quantum context, with its ML-KEM key; in the v2 context; in v1.\<close>

definition exitSignedPq :: "platform \<Rightarrow> bytes \<Rightarrow> dir_node \<Rightarrow> string \<Rightarrow> bool \<Rightarrow> bool" where
  "exitSignedPq pf operational n ek dns \<longleftrightarrow> length (hexBytes pf ek) = 1184 \<and>
     length (hexBytes pf (dx_exit_id (dn_exit n))) = 16 \<and>
     length (hexBytes pf (dx_exit_x25519_multihop_pubkey (dn_exit n))) = 32 \<and>
     signedUnder pf operational (dx_signature (dn_exit n))
       (utf8ToBytes ''warren/multihop/v2/operational-signs-exit-pq'' @ hexBytes pf (dx_exit_id (dn_exit n))
         @ hexBytes pf (dx_exit_x25519_multihop_pubkey (dn_exit n)) @ [if dns then 1 else 0] @ hexBytes pf ek)"

definition exitSignedV2 :: "platform \<Rightarrow> bytes \<Rightarrow> dir_node \<Rightarrow> bool \<Rightarrow> bool" where
  "exitSignedV2 pf operational n dns \<longleftrightarrow>
     signedUnder pf operational (dx_signature (dn_exit n))
       (utf8ToBytes ''warren/multihop/v2/operational-signs-exit'' @ hexBytes pf (dx_exit_id (dn_exit n))
         @ hexBytes pf (dx_exit_x25519_multihop_pubkey (dn_exit n)) @ [if dns then 1 else 0])"

definition exitSignedV1 :: "platform \<Rightarrow> bytes \<Rightarrow> dir_node \<Rightarrow> bool" where
  "exitSignedV1 pf operational n \<longleftrightarrow>
     signedUnder pf operational (dx_signature (dn_exit n))
       (utf8ToBytes ''warren/multihop/v1/operational-signs-exit'' @ hexBytes pf (dx_exit_id (dn_exit n))
         @ hexBytes pf (dx_exit_x25519_multihop_pubkey (dn_exit n)))"

lemma verifyParts_signedUnder: "verifyParts pf pub sigHex c parts \<longleftrightarrow> signedUnder pf pub sigHex (c @ concat parts)"
  by (simp add: verifyParts_def signedUnder_def)

text \<open>The nodes a directory is to surface: both node signatures, and one form of exit descriptor that covers its flags.\<close>

definition nodeVouched :: "platform \<Rightarrow> bytes \<Rightarrow> dir_node \<Rightarrow> bool" where
  "nodeVouched pf operational n \<longleftrightarrow>
     (let dns = (dx_dns_disabled (dn_exit n) = Some True) in
      nodeSigned pf operational n \<and>
      ((case dx_exit_mlkem768_pubkey (dn_exit n) of None \<Rightarrow> False | Some ek \<Rightarrow> exitSignedPq pf operational n ek dns) \<or>
       exitSignedV2 pf operational n dns \<or> (exitSignedV1 pf operational n \<and> \<not> dns)))"

lemma signedUnder_hexBytes:
  "signedUnder pf key sigHex msg \<longleftrightarrow>
     length (hexBytes pf sigHex) = 64 \<and> pf_edVerify pf (hexBytes pf sigHex) msg key = Some True"
  by (auto simp: signedUnder_def hexBytes_def split: option.split)

lemma nodeSigned_parts:
  "nodeSigned pf operational n \<longleftrightarrow>
     verifyParts pf operational (dr_signature (dn_relay n)) OPERATIONAL_RELAY_V1
       [hexBytes pf (dr_relay_id (dn_relay n)), hexBytes pf (dr_relay_ed25519_pubkey (dn_relay n))] \<and>
     verifyParts pf operational (dn_attestation_hex n) OPERATIONAL_NODE_V1
       [hexBytes pf (dr_relay_id (dn_relay n)), hexBytes pf (dx_exit_ed25519_pubkey (dn_exit n)), asnBe (dn_asn n),
        utf8ToBytes (dn_country n)]"
  by (simp add: nodeSigned_def verifyParts_signedUnder asnBe_def OPERATIONAL_RELAY_V1_def OPERATIONAL_NODE_V1_def)

lemma exitSigned_parts:
  "exitSignedV2 pf operational n dns \<longleftrightarrow>
     verifyParts pf operational (dx_signature (dn_exit n)) OPERATIONAL_EXIT_V2
       [hexBytes pf (dx_exit_id (dn_exit n)), hexBytes pf (dx_exit_x25519_multihop_pubkey (dn_exit n)), [if dns then 1 else 0]]"
  "exitSignedV1 pf operational n \<longleftrightarrow>
     verifyParts pf operational (dx_signature (dn_exit n)) OPERATIONAL_EXIT_V1
       [hexBytes pf (dx_exit_id (dn_exit n)), hexBytes pf (dx_exit_x25519_multihop_pubkey (dn_exit n))]"
  by (simp_all add: exitSignedV2_def exitSignedV1_def verifyParts_signedUnder OPERATIONAL_EXIT_V2_def OPERATIONAL_EXIT_V1_def)

lemma exitSignedPq_verify:
  assumes "length operational = 32"
  shows "exitSignedPq pf operational n ek dns \<longleftrightarrow>
     verifyExitDescriptorPq pf operational
       \<lparr>pq_exitId = hexBytes pf (dx_exit_id (dn_exit n)),
        pq_exitX25519 = hexBytes pf (dx_exit_x25519_multihop_pubkey (dn_exit n)), pq_dnsDisabled = dns,
        pq_exitMlkem768 = Some (hexBytes pf ek), pq_signature = hexBytes pf (dx_signature (dn_exit n))\<rparr> = Inr ()"
  using assms
  by (auto simp: exitSignedPq_def signedUnder_hexBytes verifyExitDescriptorPq_def exitDescriptorSigningPayloadPq_def
      MLKEM768_ENCAPS_KEY_LEN_def of_option_def bindR_eq_Inr_conv WARREN_PKI_OPERATIONAL_EXIT_PQ_V1_def
      split: option.splits if_splits)

lemmas vouch_signatures = nodeSigned_parts exitSigned_parts

lemma vouchNode_None:
  assumes "length operational = 32"
  shows "vouchNode pf operational n = None \<longleftrightarrow> \<not> nodeVouched pf operational n"
  unfolding vouchNode_def nodeVouched_def Let_def vouch_signatures
  by (auto simp: exitSignedPq_verify [OF assms] split: option.splits)

lemma vouchNode_Some:
  assumes "length operational = 32" and "vouchNode pf operational n = Some v"
  shows "nodeSigned pf operational n" and "nv_dnsDisabled v \<longleftrightarrow> dx_dns_disabled (dn_exit n) = Some True"
    and "\<And>ek. nv_exitMlkem768PubkeyHex v = Some ek \<Longrightarrow>
      dx_exit_mlkem768_pubkey (dn_exit n) = Some ek \<and> exitSignedPq pf operational n ek (nv_dnsDisabled v)"
    and "nv_exitMlkem768PubkeyHex v = None \<Longrightarrow>
      exitSignedV2 pf operational n (nv_dnsDisabled v) \<or> (exitSignedV1 pf operational n \<and> \<not> nv_dnsDisabled v)"
  using assms(2) unfolding vouchNode_def Let_def vouch_signatures exitSignedPq_verify [OF assms(1)]
  by (auto split: if_splits option.splits)

lemma vouchedExits_set:
  "e \<in> set (vouchedExits pf operational nodes) \<longleftrightarrow>
     (\<exists>n v. n \<in> set nodes \<and> vouchNode pf operational n = Some v \<and> e = exitOf n v)"
  by (auto simp: vouchedExits_def split: option.splits) (metis option.exhaust)+

lemma vouchedExits_length:
  "length (vouchedExits pf operational nodes) = length (filter (\<lambda>n. vouchNode pf operational n \<noteq> None) nodes)"
  by (induction nodes) (auto simp: vouchedExits_def split: option.splits)

lemma verifyMultihopDirectory_Inr_conv:
  "verifyMultihopDirectory pf text serverPins rootPins = Inr v \<longleftrightarrow>
     (\<exists>d operational. parseDirectory pf text = Inr d \<and> pinned serverPins (sd_server_pubkey_hex d) \<and>
       checkEnvelope pf d = Inr () \<and> sd_expires_at d - sd_signed_at d \<le> 604800 \<and>
       pubkey pf (sd_operational_pubkey_hex d) = Inr operational \<and>
       certifiedBy pf rootPins (sd_operational_cert_hex d) operational \<and>
       v = \<lparr>vd_exits = vouchedExits pf operational (sd_nodes d), vd_generation = sd_generation d,
            vd_signedAt = sd_signed_at d, vd_expiresAt = sd_expires_at d,
            vd_dropped = int (length (sd_nodes d)) - int (length (vouchedExits pf operational (sd_nodes d))),
            vd_serverPubkeyHex = toLowerCase (sd_server_pubkey_hex d)\<rparr>)"
  by (auto simp: verifyMultihopDirectory_def bindR_eq_Inr_conv MAX_VALIDITY_SECS_def not_less Let_def split: if_splits)

section \<open>The signed text determines the directory\<close>

text \<open>\<^verbatim>\<open>false\<close> and absent flags are not told apart by the canonical text, nor by anything the result uses.\<close>

definition norm_flag :: "bool option \<Rightarrow> bool option" where
  "norm_flag b = (if b = Some True then Some True else None)"

definition norm_node :: "dir_node \<Rightarrow> dir_node" where
  "norm_node n = n\<lparr>dn_relay := (dn_relay n)\<lparr>dr_tcp_fallback := norm_flag (dr_tcp_fallback (dn_relay n))\<rparr>,
     dn_exit := (dn_exit n)\<lparr>dx_dns_disabled := norm_flag (dx_dns_disabled (dn_exit n))\<rparr>\<rparr>"

lemma norm_node_simps:
  "dr_relay_id (dn_relay (norm_node n)) = dr_relay_id (dn_relay n)"
  "dr_relay_ed25519_pubkey (dn_relay (norm_node n)) = dr_relay_ed25519_pubkey (dn_relay n)"
  "dr_endpoint (dn_relay (norm_node n)) = dr_endpoint (dn_relay n)"
  "dr_endpoint_v6 (dn_relay (norm_node n)) = dr_endpoint_v6 (dn_relay n)"
  "dr_signature (dn_relay (norm_node n)) = dr_signature (dn_relay n)"
  "dx_exit_id (dn_exit (norm_node n)) = dx_exit_id (dn_exit n)"
  "dx_exit_ed25519_pubkey (dn_exit (norm_node n)) = dx_exit_ed25519_pubkey (dn_exit n)"
  "dx_exit_x25519_multihop_pubkey (dn_exit (norm_node n)) = dx_exit_x25519_multihop_pubkey (dn_exit n)"
  "dx_cover_domain (dn_exit (norm_node n)) = dx_cover_domain (dn_exit n)"
  "dx_signature (dn_exit (norm_node n)) = dx_signature (dn_exit n)"
  "dx_exit_mlkem768_pubkey (dn_exit (norm_node n)) = dx_exit_mlkem768_pubkey (dn_exit n)"
  "dx_dns_disabled (dn_exit (norm_node n)) = Some True \<longleftrightarrow> dx_dns_disabled (dn_exit n) = Some True"
  "dn_country (norm_node n) = dn_country n" "dn_city (norm_node n) = dn_city n" "dn_asn (norm_node n) = dn_asn n"
  "dn_weight (norm_node n) = dn_weight n" "dn_attestation_hex (norm_node n) = dn_attestation_hex n"
  "dn_edge_cert_sha256 (norm_node n) = dn_edge_cert_sha256 n"
  by (simp_all add: norm_node_def norm_flag_def)

lemma norm_node_neutral:
  "vouchNode pf operational (norm_node n) = vouchNode pf operational n" "exitOf (norm_node n) v = exitOf n v"
  by (simp_all only: vouchNode_def exitOf_def norm_node_simps Let_def)

lemma vouchedExits_norm: "vouchedExits pf operational (map norm_node ns) = vouchedExits pf operational ns"
  by (simp add: vouchedExits_def o_def norm_node_neutral cong: option.case_cong)

lemma opt_prop_append_inj:
  assumes "opt_prop k f x @ xs = opt_prop k f y @ ys" and "\<And>a b. f a = f b \<longleftrightarrow> a = b"
    and "k \<notin> fst ` set xs" and "k \<notin> fst ` set ys"
  shows "x = y \<and> xs = ys"
  using assms by (cases x; cases y) (auto simp: image_iff)

lemma true_prop_opt: "true_prop k v = opt_prop k JBool (norm_flag v)"
  by (simp add: true_prop_def norm_flag_def)

lemma fst_opt_prop: "fst ` set (opt_prop k f x) \<subseteq> {k}"
  by (cases x) simp_all

lemma canonicalNode_inj:
  assumes "canonicalNode a = canonicalNode b"
  shows "norm_node a = norm_node b"
proof -
  have keys: "k \<notin> fst ` set (opt_prop j f x)" if "k \<noteq> j" for k j f and x :: "'z option"
    using that by (cases x) simp_all
  have x1: "opt_prop ''endpoint'' JStr (dx_endpoint (dn_exit a)) @ opt_prop ''cover_domain'' JStr (dx_cover_domain (dn_exit a))
       @ [(''signature'', JStr (dx_signature (dn_exit a)))] @ true_prop ''dns_disabled'' (dx_dns_disabled (dn_exit a))
       @ opt_prop ''exit_mlkem768_pubkey'' JStr (dx_exit_mlkem768_pubkey (dn_exit a)) =
     opt_prop ''endpoint'' JStr (dx_endpoint (dn_exit b)) @ opt_prop ''cover_domain'' JStr (dx_cover_domain (dn_exit b))
       @ [(''signature'', JStr (dx_signature (dn_exit b)))] @ true_prop ''dns_disabled'' (dx_dns_disabled (dn_exit b))
       @ opt_prop ''exit_mlkem768_pubkey'' JStr (dx_exit_mlkem768_pubkey (dn_exit b))"
    using assms by (simp add: canonicalNode_def Let_def)
  have r1: "opt_prop ''endpoint_v6'' JStr (dr_endpoint_v6 (dn_relay a)) @ opt_prop ''cover_domain'' JStr (dr_cover_domain (dn_relay a))
       @ true_prop ''tcp_fallback'' (dr_tcp_fallback (dn_relay a)) @ [(''signature'', JStr (dr_signature (dn_relay a)))] =
     opt_prop ''endpoint_v6'' JStr (dr_endpoint_v6 (dn_relay b)) @ opt_prop ''cover_domain'' JStr (dr_cover_domain (dn_relay b))
       @ true_prop ''tcp_fallback'' (dr_tcp_fallback (dn_relay b)) @ [(''signature'', JStr (dr_signature (dn_relay b)))]"
    using assms by (simp add: canonicalNode_def Let_def)
  have e1: "opt_prop ''edge_cert_sha256'' JStr (dn_edge_cert_sha256 a) @ [] = opt_prop ''edge_cert_sha256'' JStr (dn_edge_cert_sha256 b) @ []"
    using assms by (simp add: canonicalNode_def Let_def)
  from opt_prop_append_inj [OF x1] have x2: "dx_endpoint (dn_exit a) = dx_endpoint (dn_exit b)"
    and x3: "opt_prop ''cover_domain'' JStr (dx_cover_domain (dn_exit a))
       @ ((''signature'', JStr (dx_signature (dn_exit a))) # opt_prop ''dns_disabled'' JBool (norm_flag (dx_dns_disabled (dn_exit a)))
       @ opt_prop ''exit_mlkem768_pubkey'' JStr (dx_exit_mlkem768_pubkey (dn_exit a))) =
      opt_prop ''cover_domain'' JStr (dx_cover_domain (dn_exit b))
       @ ((''signature'', JStr (dx_signature (dn_exit b))) # opt_prop ''dns_disabled'' JBool (norm_flag (dx_dns_disabled (dn_exit b)))
       @ opt_prop ''exit_mlkem768_pubkey'' JStr (dx_exit_mlkem768_pubkey (dn_exit b)))"
    by (simp_all add: keys true_prop_opt image_Un)
  from opt_prop_append_inj [OF x3] have x4: "dx_cover_domain (dn_exit a) = dx_cover_domain (dn_exit b)"
    "dx_signature (dn_exit a) = dx_signature (dn_exit b)"
    and x5: "opt_prop ''dns_disabled'' JBool (norm_flag (dx_dns_disabled (dn_exit a)))
       @ opt_prop ''exit_mlkem768_pubkey'' JStr (dx_exit_mlkem768_pubkey (dn_exit a)) =
      opt_prop ''dns_disabled'' JBool (norm_flag (dx_dns_disabled (dn_exit b)))
       @ opt_prop ''exit_mlkem768_pubkey'' JStr (dx_exit_mlkem768_pubkey (dn_exit b))"
    by (simp_all add: keys image_Un)
  from opt_prop_append_inj [OF x5] have x6: "norm_flag (dx_dns_disabled (dn_exit a)) = norm_flag (dx_dns_disabled (dn_exit b))"
    and "opt_prop ''exit_mlkem768_pubkey'' JStr (dx_exit_mlkem768_pubkey (dn_exit a)) @ [] =
      opt_prop ''exit_mlkem768_pubkey'' JStr (dx_exit_mlkem768_pubkey (dn_exit b)) @ []"
    by (simp_all add: keys)
  from opt_prop_append_inj [OF this(2)] have x7: "dx_exit_mlkem768_pubkey (dn_exit a) = dx_exit_mlkem768_pubkey (dn_exit b)"
    by simp
  from opt_prop_append_inj [OF r1] have r2: "dr_endpoint_v6 (dn_relay a) = dr_endpoint_v6 (dn_relay b)"
    and r3: "opt_prop ''cover_domain'' JStr (dr_cover_domain (dn_relay a))
       @ (opt_prop ''tcp_fallback'' JBool (norm_flag (dr_tcp_fallback (dn_relay a))) @ [(''signature'', JStr (dr_signature (dn_relay a)))]) =
     opt_prop ''cover_domain'' JStr (dr_cover_domain (dn_relay b))
       @ (opt_prop ''tcp_fallback'' JBool (norm_flag (dr_tcp_fallback (dn_relay b))) @ [(''signature'', JStr (dr_signature (dn_relay b)))])"
    by (simp_all add: keys true_prop_opt image_Un)
  from opt_prop_append_inj [OF r3] have r4: "dr_cover_domain (dn_relay a) = dr_cover_domain (dn_relay b)"
    and r5: "opt_prop ''tcp_fallback'' JBool (norm_flag (dr_tcp_fallback (dn_relay a))) @ [(''signature'', JStr (dr_signature (dn_relay a)))] =
      opt_prop ''tcp_fallback'' JBool (norm_flag (dr_tcp_fallback (dn_relay b))) @ [(''signature'', JStr (dr_signature (dn_relay b)))]"
    by (simp_all add: keys image_Un)
  from opt_prop_append_inj [OF r5] have r6: "norm_flag (dr_tcp_fallback (dn_relay a)) = norm_flag (dr_tcp_fallback (dn_relay b))"
    "dr_signature (dn_relay a) = dr_signature (dn_relay b)"
    by simp_all
  from opt_prop_append_inj [OF e1] have "dn_edge_cert_sha256 a = dn_edge_cert_sha256 b" by simp
  with x2 x4 x6 x7 r2 r4 r6 assms show ?thesis
    by (simp add: canonicalNode_def Let_def norm_node_def)
qed

lemma canonicalNode_no_frac: "no_frac (canonicalNode n)"
  by (cases "dx_endpoint (dn_exit n)"; cases "dx_cover_domain (dn_exit n)"; cases "dx_exit_mlkem768_pubkey (dn_exit n)";
      cases "dr_endpoint_v6 (dn_relay n)"; cases "dr_cover_domain (dn_relay n)"; cases "dn_edge_cert_sha256 n")
    (simp_all add: canonicalNode_def Let_def true_prop_def)

lemma canonical_directory_inj:
  assumes "stringify (canonical_directory_json d) = stringify (canonical_directory_json e)"
  shows "map norm_node (sd_nodes d) = map norm_node (sd_nodes e)" "sd_generation d = sd_generation e"
    "sd_signed_at d = sd_signed_at e" "sd_expires_at d = sd_expires_at e"
    "sd_operational_pubkey_hex d = sd_operational_pubkey_hex e" "sd_server_pubkey_hex d = sd_server_pubkey_hex e"
proof -
  have "no_frac (canonical_directory_json x)" for x
    by (auto simp: canonical_directory_json_def list_all_iff canonicalNode_no_frac)
  with assms have eq: "canonical_directory_json d = canonical_directory_json e" by (intro stringify_inj)
  then have "map canonicalNode (sd_nodes d) = map canonicalNode (sd_nodes e)" by (simp add: canonical_directory_json_def)
  then show "map norm_node (sd_nodes d) = map norm_node (sd_nodes e)"
    by (auto simp: list_eq_iff_nth_eq dest!: canonicalNode_inj)
  show "sd_generation d = sd_generation e" "sd_signed_at d = sd_signed_at e" "sd_expires_at d = sd_expires_at e"
    "sd_operational_pubkey_hex d = sd_operational_pubkey_hex e" "sd_server_pubkey_hex d = sd_server_pubkey_hex e"
    using eq by (simp_all add: canonical_directory_json_def)
qed

section \<open>Properties\<close>

lemma pubkey_Inr:
  "pubkey pf hex = Inr key \<longleftrightarrow> pf_hexToBytes pf hex = Some key \<and> length key = 32 \<and> pf_edPoint pf key"
  by (auto simp: pubkey_def of_option_def bindR_eq_Inr_conv split: option.splits)

lemma checkEnvelope_signed:
  assumes "checkEnvelope pf d = Inr ()"
  shows "\<exists>serverKey. pf_hexToBytes pf (sd_server_pubkey_hex d) = Some serverKey \<and> length serverKey = 32 \<and>
    signedUnder pf serverKey (sd_signature_hex d) (utf8ToBytes (stringify (canonical_directory_json d)))"
  using assms
  by (auto simp: checkEnvelope_def pubkey_Inr sig64_def of_option_def bindR_eq_Inr_conv signedUnder_def
      split: option.splits if_splits)

lemma certifiedBy_signed:
  assumes "certifiedBy pf roots certHex operational" and "roots \<noteq> []"
  shows "\<exists>rootHex \<in> set roots. \<exists>root. pf_hexToBytes pf rootHex = Some root \<and> length root = 32 \<and>
    signedUnder pf root certHex (utf8ToBytes ''warren/multihop/v1/root-signs-operational'' @ operational)"
proof -
  from assms obtain rootHex where "rootHex \<in> set roots"
    "case pubkey pf rootHex of Inl _ \<Rightarrow> False | Inr root \<Rightarrow> verifyParts pf root certHex ROOT_OPERATIONAL_V1 [operational]"
    by (auto simp: certifiedBy_def)
  then show ?thesis
    by (intro bexI [of _ rootHex]) (auto simp: verifyParts_signedUnder ROOT_OPERATIONAL_V1_def pubkey_Inr split: sum.splits)
qed

lemma parseDirectory_document:
  assumes "parseDirectory pf txt0 = Inr d"
  shows "\<exists>top. pf_parse pf txt0 = Some top \<and> jget top ''server_pubkey_hex'' = Some (JStr (sd_server_pubkey_hex d)) \<and>
    jget top ''signature_hex'' = Some (JStr (sd_signature_hex d))"
  using assms
  by (auto simp: parseDirectory_def bindR_eq_Inr_conv dirObject_def of_option_def dirString_def bind_eq_Some_conv
      elim!: as_string.elims split: option.splits if_splits)

text \<open>An exit the directory returns, against the node it stands for.\<close>

definition exitFrom :: "platform \<Rightarrow> bytes \<Rightarrow> dir_node \<Rightarrow> VerifiedExit \<Rightarrow> bool" where
  "exitFrom pf operational n e \<longleftrightarrow>
     ve_exitIdHex e = dx_exit_id (dn_exit n) \<and> ve_exitEd25519PubkeyHex e = dx_exit_ed25519_pubkey (dn_exit n) \<and>
     ve_exitX25519PubkeyHex e = dx_exit_x25519_multihop_pubkey (dn_exit n) \<and> ve_endpoint e = dr_endpoint (dn_relay n) \<and>
     ve_country e = dn_country n \<and> ve_edgeCertSha256 e = dn_edge_cert_sha256 n \<and>
     (ve_dnsDisabled e \<longleftrightarrow> dx_dns_disabled (dn_exit n) = Some True) \<and> nodeSigned pf operational n \<and>
     (case ve_exitMlkem768PubkeyHex e of
        Some ek \<Rightarrow> dx_exit_mlkem768_pubkey (dn_exit n) = Some ek \<and> exitSignedPq pf operational n ek (ve_dnsDisabled e)
      | None \<Rightarrow> exitSignedV2 pf operational n (ve_dnsDisabled e) \<or> (exitSignedV1 pf operational n \<and> \<not> ve_dnsDisabled e))"

lemma vouchedExits_from:
  assumes "length operational = 32"
  shows "list_all2 (exitFrom pf operational) (filter (nodeVouched pf operational) nodes) (vouchedExits pf operational nodes)"
proof (induction nodes)
  case Nil
  then show ?case by (simp add: vouchedExits_def)
next
  case (Cons n nodes)
  show ?case
  proof (cases "vouchNode pf operational n")
    case None
    with Cons vouchNode_None [OF assms, of pf n] show ?thesis by (simp add: vouchedExits_def)
  next
    case (Some w)
    then have "exitFrom pf operational n (exitOf n w)"
      using vouchNode_Some [OF assms Some] by (auto simp: exitFrom_def exitOf_def split: option.split)
    moreover have "nodeVouched pf operational n" using vouchNode_None [OF assms, of pf n] Some by simp
    ultimately show ?thesis using Cons Some by (simp add: vouchedExits_def)
  qed
qed

text \<open>
  C1. The trust chain of the directory holds for every exit it returns, down to the signatures themselves: the
  signature in the document verifies, on the canonical text of what was parsed, under the 32-byte server key the
  document names, which is the signer the result reports and one of the pins when there are pins; when roots are
  pinned, a pinned root's key signed the operational key; and under that operational key verify the exit's
  relay descriptor, its attestation (identity, AS number, country) and its exit descriptor. A surfaced ML-KEM
  key is always one the post-quantum signature covers together with the DNS flag, and a set DNS flag is
  always covered by a signature (never by a legacy one). The exits are those of exactly the nodes so signed, in
  the document's order, and the others are counted as dropped.
\<close>

theorem verifyMultihopDirectory_trust:
  assumes "verifyMultihopDirectory pf doc serverPins rootPins = Inr v"
  shows "\<exists>top serverHex sigHex d serverKey operational. pf_parse pf doc = Some top \<and>
    jget top ''server_pubkey_hex'' = Some (JStr serverHex) \<and> jget top ''signature_hex'' = Some (JStr sigHex) \<and>
    parseDirectory pf doc = Inr d \<and> pf_hexToBytes pf serverHex = Some serverKey \<and> length serverKey = 32 \<and>
    signedUnder pf serverKey sigHex (utf8ToBytes (stringify (canonical_directory_json d))) \<and>
    vd_serverPubkeyHex v = toLowerCase serverHex \<and>
    (serverPins \<noteq> [] \<longrightarrow> (\<exists>p \<in> set serverPins. toLowerCase p = vd_serverPubkeyHex v)) \<and>
    pf_hexToBytes pf (sd_operational_pubkey_hex d) = Some operational \<and> length operational = 32 \<and>
    (rootPins \<noteq> [] \<longrightarrow> (\<exists>rootHex \<in> set rootPins. \<exists>root. pf_hexToBytes pf rootHex = Some root \<and> length root = 32 \<and>
       signedUnder pf root (sd_operational_cert_hex d)
         (utf8ToBytes ''warren/multihop/v1/root-signs-operational'' @ operational))) \<and>
    vd_generation v = sd_generation d \<and> vd_signedAt v = sd_signed_at d \<and> vd_expiresAt v = sd_expires_at d \<and>
    vd_expiresAt v - vd_signedAt v \<le> 604800 \<and>
    list_all2 (exitFrom pf operational) (filter (nodeVouched pf operational) (sd_nodes d)) (vd_exits v) \<and>
    vd_dropped v = int (length (filter (\<lambda>n. \<not> nodeVouched pf operational n) (sd_nodes d)))"
proof -
  from assms obtain d operational where d: "parseDirectory pf doc = Inr d" "pinned serverPins (sd_server_pubkey_hex d)"
      "checkEnvelope pf d = Inr ()" "sd_expires_at d - sd_signed_at d \<le> 604800"
      "pubkey pf (sd_operational_pubkey_hex d) = Inr operational"
      "certifiedBy pf rootPins (sd_operational_cert_hex d) operational"
    and v: "v = \<lparr>vd_exits = vouchedExits pf operational (sd_nodes d), vd_generation = sd_generation d,
            vd_signedAt = sd_signed_at d, vd_expiresAt = sd_expires_at d,
            vd_dropped = int (length (sd_nodes d)) - int (length (vouchedExits pf operational (sd_nodes d))),
            vd_serverPubkeyHex = toLowerCase (sd_server_pubkey_hex d)\<rparr>"
    by (auto simp: verifyMultihopDirectory_Inr_conv)
  from d(5) have operational: "pf_hexToBytes pf (sd_operational_pubkey_hex d) = Some operational" "length operational = 32"
    by (simp_all add: pubkey_Inr)
  have exits: "list_all2 (exitFrom pf operational) (filter (nodeVouched pf operational) (sd_nodes d)) (vd_exits v)"
    using vouchedExits_from [OF operational(2)] by (simp add: v)
  have "length (filter (nodeVouched pf operational) (sd_nodes d)) +
      length (filter (\<lambda>n. \<not> nodeVouched pf operational n) (sd_nodes d)) = length (sd_nodes d)"
    by (rule sum_length_filter_compl)
  with list_all2_lengthD [OF exits]
  have dropped: "vd_dropped v = int (length (filter (\<lambda>n. \<not> nodeVouched pf operational n) (sd_nodes d)))"
    by (simp add: v)
  have pins: "serverPins \<noteq> [] \<longrightarrow> (\<exists>p \<in> set serverPins. toLowerCase p = vd_serverPubkeyHex v)"
    using d(2) by (auto simp: v pinned_def)
  from parseDirectory_document [OF d(1)] checkEnvelope_signed [OF d(3)] certifiedBy_signed [OF d(6)] d(1,4) operational exits
    dropped pins
  show ?thesis by (auto simp: v)
qed

definition sample_directory_json :: json where
  "sample_directory_json = JObj
     [(''version'', JInt 2),
      (''nodes'', JArr [JObj
        [(''relay'', JObj [(''relay_id'', JStr (hex_encode (replicate 16 1))),
           (''relay_ed25519_pubkey'', JStr (hex_encode (replicate 32 2))), (''endpoint'', JStr ''10.0.0.1:443''),
           (''signature'', JStr (hex_encode (replicate 64 0)))]),
         (''exit'', JObj [(''exit_id'', JStr (hex_encode (replicate 16 3))),
           (''exit_ed25519_pubkey'', JStr (hex_encode (replicate 32 4))),
           (''exit_x25519_multihop_pubkey'', JStr (hex_encode (replicate 32 5))),
           (''signature'', JStr (hex_encode (replicate 64 0))), (''dns_disabled'', JBool True)]),
         (''country'', JStr ''CH''), (''city'', JStr ''Zurich''), (''weight'', JInt 1),
         (''attestation_hex'', JStr (hex_encode (replicate 64 0)))]]),
      (''generation'', JInt 7), (''signed_at'', JInt 100), (''expires_at'', JInt 200),
      (''operational_pubkey_hex'', JStr (hex_encode (replicate 32 0))),
      (''operational_cert_hex'', JStr (hex_encode (replicate 64 0))),
      (''server_pubkey_hex'', JStr (hex_encode (replicate 32 0))),
      (''signature_hex'', JStr (hex_encode (replicate 64 0)))]"

definition sample_dir_node :: dir_node where
  "sample_dir_node =
     \<lparr>dn_relay = \<lparr>dr_relay_id = hex_encode (replicate 16 1), dr_relay_ed25519_pubkey = hex_encode (replicate 32 2),
        dr_endpoint = ''10.0.0.1:443'', dr_endpoint_v6 = None, dr_cover_domain = None, dr_tcp_fallback = None,
        dr_signature = hex_encode (replicate 64 0)\<rparr>,
      dn_exit = \<lparr>dx_exit_id = hex_encode (replicate 16 3), dx_exit_ed25519_pubkey = hex_encode (replicate 32 4),
        dx_exit_x25519_multihop_pubkey = hex_encode (replicate 32 5), dx_endpoint = None, dx_cover_domain = None,
        dx_signature = hex_encode (replicate 64 0), dx_dns_disabled = Some True, dx_exit_mlkem768_pubkey = None\<rparr>,
      dn_country = ''CH'', dn_city = ''Zurich'', dn_asn = 0, dn_weight = 1,
      dn_attestation_hex = hex_encode (replicate 64 0), dn_edge_cert_sha256 = None\<rparr>"

lemma sample_directory_parsed:
  "parseDirectory reference_platform (stringify sample_directory_json) =
     Inr \<lparr>sd_version = 2, sd_nodes = [sample_dir_node], sd_generation = 7, sd_signed_at = 100, sd_expires_at = 200,
          sd_operational_pubkey_hex = hex_encode (replicate 32 0), sd_operational_cert_hex = hex_encode (replicate 64 0),
          sd_server_pubkey_hex = hex_encode (replicate 32 0), sd_signature_hex = hex_encode (replicate 64 0)\<rparr>"
proof -
  have read: "json_read (stringify sample_directory_json) = Some sample_directory_json"
    by (rule json_read_stringify) (simp add: sample_directory_json_def)
  have hex: "hex_of_length 32 (hex_encode (replicate 16 b))" "hex_of_length 64 (hex_encode (replicate 32 b))"
    "hex_of_length 128 (hex_encode (replicate 64 b))" for b
    using hex_encode_ok [of "replicate 16 b"] hex_encode_ok [of "replicate 32 b"] hex_encode_ok [of "replicate 64 b"] by simp_all
  show ?thesis
    by (simp add: parseDirectory_def read of_option_def)
      (simp add: sample_directory_json_def sample_dir_node_def dirObject_def object_keys_ok_def dirU64_def dirString_def
        dirArray_def of_option_def isSafeInteger_def MULTIHOP_DIRECTORY_VERSION_def validateDirNode_def validateExit_def
        validateDirRelay_def asFixedHex_def asOptional_def dirBool_def hex)
qed

lemma sample_directory_verified:
  "\<exists>e. verifyMultihopDirectory reference_platform (stringify sample_directory_json) [hex_encode (replicate 32 0)]
      [hex_encode (replicate 32 0)] =
     Inr \<lparr>vd_exits = [e], vd_generation = 7, vd_signedAt = 100, vd_expiresAt = 200, vd_dropped = 0,
          vd_serverPubkeyHex = hex_encode (replicate 32 0)\<rparr> \<and> ve_dnsDisabled e"
proof -
  have "vouchNode reference_platform (replicate 32 0) sample_dir_node = Some \<lparr>nv_dnsDisabled = True, nv_exitMlkem768PubkeyHex = None\<rparr>"
    by (simp add: vouchNode_def sample_dir_node_def verifyParts_def Let_def)
  then show ?thesis
    by (simp add: verifyMultihopDirectory_def sample_directory_parsed pinned_def checkEnvelope_def pubkey_def of_option_def
        sig64_def MAX_VALIDITY_SECS_def certifiedBy_def verifyParts_def Let_def vouchedExits_def exitOf_def)
qed

theorem verifyMultihopDirectory_trust_witness:
  "\<exists>v operational. verifyMultihopDirectory reference_platform (stringify sample_directory_json) [hex_encode (replicate 32 0)]
      [hex_encode (replicate 32 0)] = Inr v \<and> length (vd_exits v) = 1 \<and>
    hex_decode (hex_encode (replicate 32 0)) = Some operational \<and>
    (\<forall>e \<in> set (vd_exits v). exitFrom reference_platform operational sample_dir_node e)"
proof -
  from sample_directory_verified obtain v where v: "verifyMultihopDirectory reference_platform (stringify sample_directory_json)
      [hex_encode (replicate 32 0)] [hex_encode (replicate 32 0)] = Inr v" and one: "length (vd_exits v) = 1"
    by auto
  from verifyMultihopDirectory_trust [OF v] obtain d operational where
    d: "parseDirectory reference_platform (stringify sample_directory_json) = Inr d"
      "pf_hexToBytes reference_platform (sd_operational_pubkey_hex d) = Some operational"
      "list_all2 (exitFrom reference_platform operational) (filter (nodeVouched reference_platform operational) (sd_nodes d))
         (vd_exits v)" by blast
  from d(1) have nodes: "sd_nodes d = [sample_dir_node]" "sd_operational_pubkey_hex d = hex_encode (replicate 32 0)"
    unfolding sample_directory_parsed by auto
  with d(3) one have "\<forall>e \<in> set (vd_exits v). exitFrom reference_platform operational sample_dir_node e"
    by (auto simp: list_all2_Cons1 split: if_splits dest: list_all2_lengthD)
  with v one d(2) nodes show ?thesis by auto
qed

definition directory_text :: "platform \<Rightarrow> string \<Rightarrow> string option" where
  "directory_text pf text =
     (case parseDirectory pf text of Inl _ \<Rightarrow> None | Inr d \<Rightarrow> Some (stringify (canonical_directory_json d)))"

text \<open>
  The signed envelope decides the directory: two documents accepted with the same canonical text give the
  same exits, generation, times, dropped count and signer, whatever their layout, unknown white space or
  explicit \<^verbatim>\<open>false\<close> flags.
\<close>

theorem verifyMultihopDirectory_determined:
  assumes "verifyMultihopDirectory pf text serverPins rootPins = Inr v"
    and "verifyMultihopDirectory pf text' serverPins' rootPins' = Inr v'"
    and "directory_text pf text = directory_text pf text'"
  shows "v = v'"
proof -
  from assms(1) obtain d op where d: "parseDirectory pf text = Inr d" "pubkey pf (sd_operational_pubkey_hex d) = Inr op"
    "v = \<lparr>vd_exits = vouchedExits pf op (sd_nodes d), vd_generation = sd_generation d,
            vd_signedAt = sd_signed_at d, vd_expiresAt = sd_expires_at d,
            vd_dropped = int (length (sd_nodes d)) - int (length (vouchedExits pf op (sd_nodes d))),
            vd_serverPubkeyHex = toLowerCase (sd_server_pubkey_hex d)\<rparr>"
    by (auto simp: verifyMultihopDirectory_Inr_conv)
  from assms(2) obtain d' op' where d': "parseDirectory pf text' = Inr d'" "pubkey pf (sd_operational_pubkey_hex d') = Inr op'"
    "v' = \<lparr>vd_exits = vouchedExits pf op' (sd_nodes d'), vd_generation = sd_generation d',
            vd_signedAt = sd_signed_at d', vd_expiresAt = sd_expires_at d',
            vd_dropped = int (length (sd_nodes d')) - int (length (vouchedExits pf op' (sd_nodes d'))),
            vd_serverPubkeyHex = toLowerCase (sd_server_pubkey_hex d')\<rparr>"
    by (auto simp: verifyMultihopDirectory_Inr_conv)
  from assms(3) d(1) d'(1) have "stringify (canonical_directory_json d) = stringify (canonical_directory_json d')"
    by (simp add: directory_text_def)
  note same = canonical_directory_inj [OF this]
  have "op = op'" using d(2) d'(2) same(5) by simp
  moreover have "vouchedExits pf op (sd_nodes d) = vouchedExits pf op (sd_nodes d')"
    using same(1) by (metis vouchedExits_norm)
  moreover have "length (sd_nodes d) = length (sd_nodes d')" using same(1) by (metis length_map)
  ultimately show ?thesis using d(3) d'(3) same by simp
qed

theorem verifyMultihopDirectory_determined_witness:
  "\<exists>v. verifyMultihopDirectory reference_platform (stringify sample_directory_json) [] [] = Inr v \<and>
    verifyMultihopDirectory reference_platform (stringify sample_directory_json) [hex_encode (replicate 32 0)]
      [hex_encode (replicate 32 0)] = Inr v"
proof -
  from sample_directory_verified obtain v where v: "verifyMultihopDirectory reference_platform (stringify sample_directory_json)
      [hex_encode (replicate 32 0)] [hex_encode (replicate 32 0)] = Inr v" by auto
  obtain w where w: "verifyMultihopDirectory reference_platform (stringify sample_directory_json) [] [] = Inr w"
    by (simp add: verifyMultihopDirectory_def sample_directory_parsed pinned_def checkEnvelope_def pubkey_def of_option_def
        sig64_def MAX_VALIDITY_SECS_def certifiedBy_def Let_def)
  from verifyMultihopDirectory_determined [OF v w refl] v w show ?thesis by blast
qed

text \<open>
  C19. The post-quantum negotiation refuses a downgrade: the hybrid seal is chosen exactly when the operational
  key signed a payload with a 1184-byte ML-KEM key; a client that requires it never falls back to the
  classical seal, and a middlebox that strips the key from the descriptor makes such a client refuse.
\<close>

theorem negotiatePq_no_downgrade:
  "(negotiatePq pf key d req = Inr PqAvailable \<longleftrightarrow>
      (\<exists>ek. pq_exitMlkem768 d = Some ek \<and> length ek = 1184 \<and> length key = 32 \<and> length (pq_signature d) = 64 \<and>
        length (pq_exitId d) = 16 \<and> length (pq_exitX25519 d) = 32 \<and>
        pf_edVerify pf (pq_signature d) (WARREN_PKI_OPERATIONAL_EXIT_PQ_V1 @ pq_exitId d @ pq_exitX25519 d
          @ [if pq_dnsDisabled d then 1 else 0] @ ek) key = Some True)) \<and>
   negotiatePq pf key d True \<noteq> Inr ClassicalFallback \<and>
   negotiatePq pf key (d\<lparr>pq_exitMlkem768 := None\<rparr>) True = Inl PqDowngrade"
proof (intro conjI)
  show "negotiatePq pf key d req = Inr PqAvailable \<longleftrightarrow>
      (\<exists>ek. pq_exitMlkem768 d = Some ek \<and> length ek = 1184 \<and> length key = 32 \<and> length (pq_signature d) = 64 \<and>
        length (pq_exitId d) = 16 \<and> length (pq_exitX25519 d) = 32 \<and>
        pf_edVerify pf (pq_signature d) (WARREN_PKI_OPERATIONAL_EXIT_PQ_V1 @ pq_exitId d @ pq_exitX25519 d
          @ [if pq_dnsDisabled d then 1 else 0] @ ek) key = Some True)"
    by (cases "pq_exitMlkem768 d")
      (auto simp: negotiatePq_def verifyExitDescriptorPq_def exitDescriptorSigningPayloadPq_def of_option_def
        MLKEM768_ENCAPS_KEY_LEN_def split: if_splits option.splits sum.splits)
  show "negotiatePq pf key d True \<noteq> Inr ClassicalFallback"
    by (auto simp: negotiatePq_def split: sum.splits)
  show "negotiatePq pf key (d\<lparr>pq_exitMlkem768 := None\<rparr>) True = Inl PqDowngrade"
    by (simp add: negotiatePq_def verifyExitDescriptorPq_def of_option_def)
qed

text \<open>
  The operational key's signatures cannot be moved between roles: the messages it signs for a relay, for a node
  attestation and for an exit (v1, v2 and post-quantum), with the field lengths the parser enforces, are
  pairwise different, and none is a message of the root key.
\<close>

theorem signing_messages_separate:
  assumes "length eid = 16" "length xkey = 32" "length eid' = 16" "length xkey' = 32" "length ek = 1184"
  shows "distinct [OPERATIONAL_RELAY_V1 @ r, OPERATIONAL_NODE_V1 @ a, OPERATIONAL_EXIT_V1 @ eid @ xkey,
    OPERATIONAL_EXIT_V2 @ eid' @ xkey' @ [dns], WARREN_PKI_OPERATIONAL_EXIT_PQ_V1 @ eid'' @ xkey'' @ [dns'] @ ek,
    ROOT_OPERATIONAL_V1 @ oper]"
proof -
  have c: "OPERATIONAL_RELAY_V1 = utf8ToBytes ''warren/multihop/v'' @ utf8ToBytes ''1/operational-signs-relay''"
    "OPERATIONAL_NODE_V1 = utf8ToBytes ''warren/multihop/v'' @ utf8ToBytes ''1/operational-signs-node''"
    "OPERATIONAL_EXIT_V1 = utf8ToBytes ''warren/multihop/v'' @ utf8ToBytes ''1/operational-signs-exit''"
    "OPERATIONAL_EXIT_V2 = utf8ToBytes ''warren/multihop/v'' @ utf8ToBytes ''2/operational-signs-exit''"
    "WARREN_PKI_OPERATIONAL_EXIT_PQ_V1 = utf8ToBytes ''warren/multihop/v'' @ utf8ToBytes ''2/operational-signs-exit'' @ utf8ToBytes ''-pq''"
    "ROOT_OPERATIONAL_V1 = utf8ToBytes ''warren/multihop/v'' @ utf8ToBytes ''1/root-signs-operational''"
    unfolding OPERATIONAL_RELAY_V1_def OPERATIONAL_NODE_V1_def OPERATIONAL_EXIT_V1_def OPERATIONAL_EXIT_V2_def
      WARREN_PKI_OPERATIONAL_EXIT_PQ_V1_def ROOT_OPERATIONAL_V1_def
    by (simp_all add: utf8ToBytes_def)
  have pq: "eid' @ xkey' @ [dns] \<noteq> utf8ToBytes ''-pq'' @ eid'' @ xkey'' @ [dns'] @ ek"
  proof
    assume "eid' @ xkey' @ [dns] = utf8ToBytes ''-pq'' @ eid'' @ xkey'' @ [dns'] @ ek"
    then have "length (eid' @ xkey' @ [dns]) = length (utf8ToBytes ''-pq'' @ eid'' @ xkey'' @ [dns'] @ ek)" by simp
    then show False using assms by simp
  qed
  show ?thesis
    unfolding c append.assoc distinct.simps list.set
    using pq by (auto simp: utf8ToBytes_def)
qed

theorem signing_messages_separate_witness:
  "distinct [OPERATIONAL_RELAY_V1 @ [], OPERATIONAL_NODE_V1 @ [], OPERATIONAL_EXIT_V1 @ replicate 16 0 @ replicate 32 0,
    OPERATIONAL_EXIT_V2 @ replicate 16 0 @ replicate 32 0 @ [0],
    WARREN_PKI_OPERATIONAL_EXIT_PQ_V1 @ replicate 16 0 @ replicate 32 0 @ [0] @ replicate 1184 0, ROOT_OPERATIONAL_V1 @ []]"
  by (rule signing_messages_separate) simp_all

end
