(* ===== verification/Stores.thy ===== *)
theory Stores
  imports Directory
begin

text \<open>
  \<^verbatim>\<open>packages/core/src/discovery/stores.ts\<close>: the acceptance policy over the two verifiers. The persistence
  interfaces \<^verbatim>\<open>GenerationStore\<close> and \<^verbatim>\<open>ServerKeyStore\<close> are the locale \<open>trust_stores\<close>; the process-memory stores of the
  source are its interpretation. A store the caller omitted is \<open>None\<close>.
\<close>

section \<open>Stores\<close>

record ('g, 'k) store_ops =
  so_loadFloor :: "'g \<Rightarrow> int"
  so_storeFloor :: "int \<Rightarrow> 'g \<Rightarrow> 'g"
  so_loadPin :: "'k \<Rightarrow> string option"
  so_storePin :: "string \<Rightarrow> 'k \<Rightarrow> 'k"

type_synonym InMemoryGenerationStore = int

type_synonym InMemoryServerKeyStore = "string option"

definition memLoadFloor :: "InMemoryGenerationStore \<Rightarrow> int" where
  "memLoadFloor floor = floor"

definition memStoreFloor :: "int \<Rightarrow> InMemoryGenerationStore \<Rightarrow> InMemoryGenerationStore" where
  "memStoreFloor gen floor = (if gen > floor then gen else floor)"

definition memLoadPin :: "InMemoryServerKeyStore \<Rightarrow> string option" where
  "memLoadPin pin = pin"

definition memStorePin :: "string \<Rightarrow> InMemoryServerKeyStore \<Rightarrow> InMemoryServerKeyStore" where
  "memStorePin keyHex pin = Some keyHex"

definition mem_ops :: "(InMemoryGenerationStore, InMemoryServerKeyStore) store_ops" where
  "mem_ops = \<lparr>so_loadFloor = memLoadFloor, so_storeFloor = memStoreFloor, so_loadPin = memLoadPin, so_storePin = memStorePin\<rparr>"

record ('g, 'k) stores =
  generationStore :: "'g option"
  serverKeyStore :: "'k option"

section \<open>Acceptance\<close>

definition tofuPin :: "('g, 'k) store_ops \<Rightarrow> ('g, 'k) stores \<Rightarrow> string option" where
  "tofuPin ops st = Option.bind (serverKeyStore st) (so_loadPin ops)"

definition effectivePins :: "('g, 'k) store_ops \<Rightarrow> string list \<Rightarrow> ('g, 'k) stores \<Rightarrow> string list" where
  "effectivePins ops pins st =
     (if pins \<noteq> [] then pins else case tofuPin ops st of Some tofu \<Rightarrow> [tofu] | None \<Rightarrow> [])"

definition floorOf :: "('g, 'k) store_ops \<Rightarrow> ('g, 'k) stores \<Rightarrow> int" where
  "floorOf ops st = (case generationStore st of None \<Rightarrow> 0 | Some g \<Rightarrow> so_loadFloor ops g)"

definition finishAccept ::
    "('g, 'k) store_ops \<Rightarrow> string list \<Rightarrow> int \<Rightarrow> string \<Rightarrow> bool \<Rightarrow> 'e \<Rightarrow> 'e \<Rightarrow> ('g, 'k) stores \<Rightarrow> 'e + ('g, 'k) stores" where
  "finishAccept ops pins gen keyHex expired expiredError rolledBackError st =
     bindR (guardR (\<not> expired) expiredError) (\<lambda>_.
     bindR (guardR (\<not> gen < floorOf ops st) rolledBackError) (\<lambda>_.
     let st' = st\<lparr>generationStore := map_option (so_storeFloor ops gen) (generationStore st)\<rparr>
     in Inr (if pins = [] \<and> tofuPin ops st' = None
          then st'\<lparr>serverKeyStore := map_option (so_storePin ops keyHex) (serverKeyStore st')\<rparr>
          else st')))"

definition acceptSignedRelayList ::
    "platform \<Rightarrow> ('g, 'k) store_ops \<Rightarrow> string list \<Rightarrow> int \<Rightarrow> string \<Rightarrow> ('g, 'k) stores \<Rightarrow>
     discovery_error + (VerifiedRelayList \<times> ('g, 'k) stores)" where
  "acceptSignedRelayList pf ops pins now signedJson st =
     bindR (verifySignedRelayList pf signedJson (effectivePins ops pins st)) (\<lambda>verified.
     bindR (finishAccept ops pins (generation verified) (serverPubkeyHex verified) (isExpired verified now)
       DExpired DRolledBack st) (\<lambda>st'. Inr (verified, st')))"

definition acceptMultihopDirectory ::
    "platform \<Rightarrow> ('g, 'k) store_ops \<Rightarrow> string list \<Rightarrow> string list \<Rightarrow> int \<Rightarrow> string \<Rightarrow> ('g, 'k) stores \<Rightarrow>
     directory_error + (VerifiedDirectory \<times> ('g, 'k) stores)" where
  "acceptMultihopDirectory pf ops pins rootPins now text st =
     bindR (verifyMultihopDirectory pf text (effectivePins ops pins st) rootPins) (\<lambda>verified.
     bindR (finishAccept ops pins (vd_generation verified) (vd_serverPubkeyHex verified) (now \<ge> vd_expiresAt verified)
       RExpired RRolledBack st) (\<lambda>st'. Inr (verified, st')))"

text \<open>
  A client over time: documents fetched one after the other, each with the clock reading at its acceptance;
  a refused document leaves the stores as they are. The accepted ones are collected.
\<close>

fun accept_all :: "(int \<Rightarrow> 'd \<Rightarrow> 's \<Rightarrow> 'e + ('v \<times> 's)) \<Rightarrow> (int \<times> 'd) list \<Rightarrow> 's \<Rightarrow> 'v list \<times> 's" where
  "accept_all acc [] st = ([], st)"
| "accept_all acc ((now, doc) # docs) st =
     (case acc now doc st of
        Inl _ \<Rightarrow> accept_all acc docs st
      | Inr (v, st') \<Rightarrow> (case accept_all acc docs st' of (vs, st'') \<Rightarrow> (v # vs, st'')))"

text \<open>
  One client that fetches both kinds of document: a single key store serves both, while every feed has a
  generation sequence, and so a generation store, of its own (the doc comment of \<^verbatim>\<open>acceptMultihopDirectory\<close>
  asks for that; two documents of one feed share a store).
\<close>

datatype signed_document = RelayListDocument string | DirectoryDocument string

datatype accepted = AcceptedList VerifiedRelayList | AcceptedDirectory VerifiedDirectory

fun signer :: "accepted \<Rightarrow> string" where
  "signer (AcceptedList v) = serverPubkeyHex v"
| "signer (AcceptedDirectory v) = vd_serverPubkeyHex v"

fun acceptDocument ::
    "platform \<Rightarrow> ('g, 'k) store_ops \<Rightarrow> string list \<Rightarrow> string list \<Rightarrow> int \<Rightarrow> 'f \<times> signed_document \<Rightarrow>
     ('f \<Rightarrow> 'g option) \<times> 'k option \<Rightarrow>
     (discovery_error + directory_error) + (accepted \<times> ('f \<Rightarrow> 'g option) \<times> 'k option)" where
  "acceptDocument pf ops pins roots now (feed, RelayListDocument doc) (floors, key) =
     (case acceptSignedRelayList pf ops pins now doc \<lparr>generationStore = floors feed, serverKeyStore = key\<rparr> of
        Inl e \<Rightarrow> Inl (Inl e)
      | Inr (v, st) \<Rightarrow> Inr (AcceptedList v, floors(feed := generationStore st), serverKeyStore st))"
| "acceptDocument pf ops pins roots now (feed, DirectoryDocument doc) (floors, key) =
     (case acceptMultihopDirectory pf ops pins roots now doc \<lparr>generationStore = floors feed, serverKeyStore = key\<rparr> of
        Inl e \<Rightarrow> Inl (Inr e)
      | Inr (v, st) \<Rightarrow> Inr (AcceptedDirectory v, floors(feed := generationStore st), serverKeyStore st))"

text \<open>What the verifiers say of a document, the pins aside.\<close>

fun verifies_as :: "platform \<Rightarrow> string list \<Rightarrow> signed_document \<Rightarrow> accepted \<Rightarrow> bool" where
  "verifies_as pf roots (RelayListDocument doc) (AcceptedList v) \<longleftrightarrow> verifySignedRelayList pf doc [] = Inr v"
| "verifies_as pf roots (DirectoryDocument doc) (AcceptedDirectory v) \<longleftrightarrow> verifyMultihopDirectory pf doc [] roots = Inr v"
| "verifies_as pf roots _ _ \<longleftrightarrow> False"

section \<open>The contract of the stores and what it buys\<close>

locale trust_stores =
  fixes ops :: "('g, 'k) store_ops"
  assumes load_store_floor: "so_loadFloor ops (so_storeFloor ops g s) = max g (so_loadFloor ops s)"
    and load_store_pin: "so_loadPin ops (so_storePin ops p k) = Some p"
begin

lemma finishAccept_floor:
  assumes "finishAccept ops pins gen key expired e1 e2 st = Inr st'" and "generationStore st \<noteq> None"
  shows "\<not> expired" "floorOf ops st \<le> gen" "floorOf ops st' = gen" "generationStore st' \<noteq> None"
  using assms by (auto simp: finishAccept_def floorOf_def Let_def load_store_floor split: if_splits option.splits)

lemma finishAccept_pin:
  assumes "finishAccept ops [] gen key expired e1 e2 st = Inr st'" and "serverKeyStore st \<noteq> None"
  shows "tofuPin ops st' = Some (case tofuPin ops st of None \<Rightarrow> key | Some p \<Rightarrow> p)" "serverKeyStore st' \<noteq> None"
  using assms by (auto simp: finishAccept_def tofuPin_def Let_def load_store_pin split: if_splits option.splits)

text \<open>
  A client whose acceptance is \<open>finishAccept\<close> after a verifier: \<open>gen_of\<close>, \<open>key_of\<close> and \<open>exp_of\<close> are what the verifier
  returns, and under one pin the verifier returns that pin's key.
\<close>

definition policy :: "(int \<Rightarrow> string \<Rightarrow> ('g, 'k) stores \<Rightarrow> 'e + ('v \<times> ('g, 'k) stores)) \<Rightarrow>
    ('v \<Rightarrow> int) \<Rightarrow> ('v \<Rightarrow> string) \<Rightarrow> ('v \<Rightarrow> int) \<Rightarrow> string list \<Rightarrow> bool" where
  "policy acc gen_of key_of exp_of pins \<longleftrightarrow>
     (\<forall>now doc st v st'. acc now doc st = Inr (v, st') \<longrightarrow>
        (\<exists>e1 e2 :: 'e. finishAccept ops pins (gen_of v) (key_of v) (now \<ge> exp_of v) e1 e2 st = Inr st') \<and>
        toLowerCase (key_of v) = key_of v \<and>
        (pins = [] \<longrightarrow> (case tofuPin ops st of None \<Rightarrow> True | Some p \<Rightarrow> key_of v = toLowerCase p)))"

lemma policy_step:
  assumes "policy acc gen_of key_of exp_of pins" and "acc now doc st = Inr (v, st')" and "generationStore st \<noteq> None"
  shows "now < exp_of v" "floorOf ops st \<le> gen_of v" "floorOf ops st' = gen_of v" "generationStore st' \<noteq> None"
  using assms finishAccept_floor unfolding policy_def by (metis not_le)+

lemma accept_all_rollback:
  assumes "policy acc gen_of key_of exp_of pins" and "generationStore st \<noteq> None" and "accept_all acc docs st = (vs, st')"
  shows "sorted (map gen_of vs) \<and> (\<forall>v \<in> set vs. floorOf ops st \<le> gen_of v) \<and> floorOf ops st \<le> floorOf ops st' \<and>
    (\<forall>v \<in> set vs. \<exists>(now, doc) \<in> set docs. now < exp_of v)"
  using assms(2,3)
proof (induction docs arbitrary: st vs)
  case Nil
  then show ?case by simp
next
  case (Cons nd docs)
  obtain now doc where nd: "nd = (now, doc)" by (cases nd)
  show ?case
  proof (cases "acc now doc st")
    case (Inl e)
    then have "accept_all acc docs st = (vs, st')" using Cons.prems(2) nd by simp
    from Cons.IH [OF Cons.prems(1) this] show ?thesis by auto
  next
    case (Inr r)
    obtain v st1 where r: "r = (v, st1)" by (cases r)
    obtain ws where ws: "accept_all acc docs st1 = (ws, st')" "vs = v # ws"
      using Cons.prems(2) nd Inr r by (auto split: prod.splits)
    note step = policy_step [OF assms(1) Inr [unfolded r] Cons.prems(1)]
    from Cons.IH [OF step(4) ws(1)] step(1,2,3) ws(2) nd show ?thesis by auto
  qed
qed

lemma policy_pin:
  fixes acc :: "int \<Rightarrow> string \<Rightarrow> ('g, 'k) stores \<Rightarrow> 'e + ('v \<times> ('g, 'k) stores)"
  assumes "policy acc gen_of key_of exp_of []" and "acc now doc st = Inr (v, st')" and "serverKeyStore st \<noteq> None"
  shows "\<exists>p. tofuPin ops st' = Some p \<and> key_of v = toLowerCase p" "serverKeyStore st' \<noteq> None"
    "tofuPin ops st = Some p \<Longrightarrow> tofuPin ops st' = Some p"
proof -
  from assms(1,2) obtain e1 e2 :: 'e where fin: "finishAccept ops [] (gen_of v) (key_of v) (now \<ge> exp_of v) e1 e2 st = Inr st'"
    and low: "toLowerCase (key_of v) = key_of v"
    and pin: "case tofuPin ops st of None \<Rightarrow> True | Some p \<Rightarrow> key_of v = toLowerCase p"
    unfolding policy_def by blast
  note p = finishAccept_pin [OF fin assms(3)]
  show "serverKeyStore st' \<noteq> None" by (rule p(2))
  show "\<exists>p. tofuPin ops st' = Some p \<and> key_of v = toLowerCase p"
    using p(1) pin low by (auto split: option.splits)
  show "tofuPin ops st' = Some p" if "tofuPin ops st = Some p" using p(1) that by simp
qed

end

interpretation mem: trust_stores mem_ops
  by unfold_locales (simp_all add: mem_ops_def memLoadFloor_def memStoreFloor_def memLoadPin_def memStorePin_def)

section \<open>The two acceptance functions follow the policy\<close>

lemma pinned_key_relay_list:
  assumes "verifySignedRelayList pf doc pins = Inr v"
  shows "toLowerCase (serverPubkeyHex v) = serverPubkeyHex v" "pins \<noteq> [] \<Longrightarrow> serverPubkeyHex v \<in> toLowerCase ` set pins"
  using assms by (auto simp: verifySignedRelayList_Inr_conv pinned_def intro: rev_image_eqI)

lemma pinned_key_directory:
  assumes "verifyMultihopDirectory pf doc pins roots = Inr v"
  shows "toLowerCase (vd_serverPubkeyHex v) = vd_serverPubkeyHex v"
    "pins \<noteq> [] \<Longrightarrow> vd_serverPubkeyHex v \<in> toLowerCase ` set pins"
  using assms by (auto simp: verifyMultihopDirectory_Inr_conv pinned_def intro: rev_image_eqI)

lemma acceptSignedRelayList_policy:
  "mem.policy (acceptSignedRelayList pf mem_ops pins) generation serverPubkeyHex expiresAt pins"
  unfolding mem.policy_def
proof (intro allI impI conjI)
  fix now doc st v st'
  assume acc: "acceptSignedRelayList pf mem_ops pins now doc st = Inr (v, st')"
  then have ver: "verifySignedRelayList pf doc (effectivePins mem_ops pins st) = Inr v"
    and fin: "finishAccept mem_ops pins (generation v) (serverPubkeyHex v) (now \<ge> expiresAt v) DExpired DRolledBack st = Inr st'"
    by (auto simp: acceptSignedRelayList_def bindR_eq_Inr_conv isExpired_def)
  show "\<exists>e1 e2 :: discovery_error. finishAccept mem_ops pins (generation v) (serverPubkeyHex v) (now \<ge> expiresAt v) e1 e2 st = Inr st'"
    using fin by blast
  show "toLowerCase (serverPubkeyHex v) = serverPubkeyHex v" by (rule pinned_key_relay_list(1) [OF ver])
  show "case tofuPin mem_ops st of None \<Rightarrow> True | Some p \<Rightarrow> serverPubkeyHex v = toLowerCase p" if "pins = []"
    using pinned_key_relay_list(2) [OF ver] that by (auto simp: effectivePins_def split: option.splits)
qed

lemma acceptMultihopDirectory_policy:
  "mem.policy (acceptMultihopDirectory pf mem_ops pins roots) vd_generation vd_serverPubkeyHex vd_expiresAt pins"
  unfolding mem.policy_def
proof (intro allI impI conjI)
  fix now doc st v st'
  assume acc: "acceptMultihopDirectory pf mem_ops pins roots now doc st = Inr (v, st')"
  then have ver: "verifyMultihopDirectory pf doc (effectivePins mem_ops pins st) roots = Inr v"
    and fin: "finishAccept mem_ops pins (vd_generation v) (vd_serverPubkeyHex v) (now \<ge> vd_expiresAt v) RExpired RRolledBack st = Inr st'"
    by (auto simp: acceptMultihopDirectory_def bindR_eq_Inr_conv)
  show "\<exists>e1 e2 :: directory_error. finishAccept mem_ops pins (vd_generation v) (vd_serverPubkeyHex v) (now \<ge> vd_expiresAt v) e1 e2 st = Inr st'"
    using fin by blast
  show "toLowerCase (vd_serverPubkeyHex v) = vd_serverPubkeyHex v" by (rule pinned_key_directory(1) [OF ver])
  show "case tofuPin mem_ops st of None \<Rightarrow> True | Some p \<Rightarrow> vd_serverPubkeyHex v = toLowerCase p" if "pins = []"
    using pinned_key_directory(2) [OF ver] that by (auto simp: effectivePins_def split: option.splits)
qed

section \<open>One key store over both kinds of document\<close>

lemma finishAccept_key_store:
  assumes "\<forall>p k. so_loadPin ops (so_storePin ops p k) = Some p"
    and "finishAccept ops [] gen keyHex expired e1 e2 \<lparr>generationStore = g, serverKeyStore = Some k\<rparr> = Inr st"
  shows "\<exists>k'. serverKeyStore st = Some k' \<and>
    so_loadPin ops k' = Some (case so_loadPin ops k of None \<Rightarrow> keyHex | Some p \<Rightarrow> p)"
  using assms by (auto simp: finishAccept_def tofuPin_def Let_def bindR_eq_Inr_conv split: if_splits option.splits)

lemma verified_without_pins:
  "verifySignedRelayList pf doc pins = Inr v \<Longrightarrow> verifySignedRelayList pf doc [] = Inr v"
  "verifyMultihopDirectory pf doc pins roots = Inr d \<Longrightarrow> verifyMultihopDirectory pf doc [] roots = Inr d"
  by (auto simp: verifySignedRelayList_Inr_conv verifyMultihopDirectory_Inr_conv pinned_def)

lemma effectivePins_key_store:
  "effectivePins ops [] \<lparr>generationStore = g, serverKeyStore = Some k\<rparr> =
     (case so_loadPin ops k of Some p \<Rightarrow> [p] | None \<Rightarrow> [])"
  by (simp add: effectivePins_def tofuPin_def)

lemma acceptDocument_step:
  assumes "\<forall>p k. so_loadPin ops (so_storePin ops p k) = Some p"
    and "acceptDocument pf ops [] roots now fd (floors, Some k) = Inr (v, floors', key')"
  shows "verifies_as pf roots (snd fd) v \<and> toLowerCase (signer v) = signer v \<and>
    (\<forall>p. so_loadPin ops k = Some p \<longrightarrow> signer v = toLowerCase p) \<and>
    (\<exists>k'. key' = Some k' \<and> so_loadPin ops k' = Some (case so_loadPin ops k of None \<Rightarrow> signer v | Some p \<Rightarrow> p))"
proof -
  obtain feed doc where fd: "fd = (feed, doc)" by (cases fd)
  show ?thesis
  proof (cases doc)
    case (RelayListDocument t)
    with assms(2) obtain w st where v: "v = AcceptedList w" "key' = serverKeyStore st"
      and ver: "verifySignedRelayList pf t (case so_loadPin ops k of Some p \<Rightarrow> [p] | None \<Rightarrow> []) = Inr w"
      and fin: "finishAccept ops [] (generation w) (serverPubkeyHex w) (isExpired w now) DExpired DRolledBack
          \<lparr>generationStore = floors feed, serverKeyStore = Some k\<rparr> = Inr st"
      by (auto simp: fd acceptSignedRelayList_def bindR_eq_Inr_conv effectivePins_key_store split: sum.splits)
    from finishAccept_key_store [OF assms(1) fin] pinned_key_relay_list [OF ver] verified_without_pins(1) [OF ver]
    show ?thesis by (auto simp: v fd RelayListDocument split: option.splits)
  next
    case (DirectoryDocument t)
    with assms(2) obtain w st where v: "v = AcceptedDirectory w" "key' = serverKeyStore st"
      and ver: "verifyMultihopDirectory pf t (case so_loadPin ops k of Some p \<Rightarrow> [p] | None \<Rightarrow> []) roots = Inr w"
      and fin: "finishAccept ops [] (vd_generation w) (vd_serverPubkeyHex w) (now \<ge> vd_expiresAt w) RExpired RRolledBack
          \<lparr>generationStore = floors feed, serverKeyStore = Some k\<rparr> = Inr st"
      by (auto simp: fd acceptMultihopDirectory_def bindR_eq_Inr_conv effectivePins_key_store split: sum.splits)
    from finishAccept_key_store [OF assms(1) fin] pinned_key_directory [OF ver] verified_without_pins(2) [OF ver]
    show ?thesis by (auto simp: v fd DirectoryDocument split: option.splits)
  qed
qed

text \<open>The signer a run has settled on: the pin it started with, else the signer of the first document it accepted.\<close>

definition run_pin :: "string option \<Rightarrow> accepted list \<Rightarrow> string option" where
  "run_pin pin vs = (case pin of Some p \<Rightarrow> Some p | None \<Rightarrow> case vs of [] \<Rightarrow> None | v # _ \<Rightarrow> Some (signer v))"

lemma accept_documents_signer:
  assumes law: "\<forall>p k. so_loadPin ops (so_storePin ops p k) = Some p"
    and "accept_all (acceptDocument pf ops [] roots) docs (floors, Some k) = (vs, floors', key')"
  shows "(\<forall>v \<in> set vs. Some (signer v) = map_option toLowerCase (run_pin (so_loadPin ops k) vs)) \<and>
    (\<exists>k'. key' = Some k' \<and> so_loadPin ops k' = run_pin (so_loadPin ops k) vs) \<and>
    (\<forall>v \<in> set vs. \<exists>(now, feed, doc) \<in> set docs. verifies_as pf roots doc v)"
  using assms(2)
proof (induction docs arbitrary: floors k vs)
  case Nil
  then show ?case by (auto simp: run_pin_def split: option.split)
next
  case (Cons nd docs)
  obtain now feed doc where nd: "nd = (now, feed, doc)" by (cases nd)
  show ?case
  proof (cases "acceptDocument pf ops [] roots now (feed, doc) (floors, Some k)")
    case (Inl e)
    then have "accept_all (acceptDocument pf ops [] roots) docs (floors, Some k) = (vs, floors', key')"
      using Cons.prems nd by simp
    from Cons.IH [OF this] show ?thesis by auto
  next
    case (Inr r)
    obtain v fl1 key1 where r: "r = (v, fl1, key1)" by (cases r)
    note step = acceptDocument_step [OF law Inr [unfolded r]]
    then obtain k1 where k1: "key1 = Some k1" "so_loadPin ops k1 = Some (case so_loadPin ops k of None \<Rightarrow> signer v | Some p \<Rightarrow> p)"
      by blast
    obtain ws where ws: "accept_all (acceptDocument pf ops [] roots) docs (fl1, Some k1) = (ws, floors', key')" "vs = v # ws"
      using Cons.prems nd Inr r k1(1) by (auto split: prod.splits)
    from Cons.IH [OF ws(1)] step k1(2) ws(2) nd show ?thesis
      by (auto simp: run_pin_def split: option.splits)
  qed
qed

section \<open>Properties\<close>

text \<open>
  C11. Anti-rollback of the relay list within a run: over any sequence of fetched documents, the accepted lists have
  non-decreasing generations, none below the floor the run started with, each accepted before its expiry.
\<close>

theorem relay_list_anti_rollback:
  assumes "generationStore st \<noteq> None" and "accept_all (acceptSignedRelayList pf mem_ops pins) docs st = (vs, st')"
  shows "sorted (map generation vs) \<and> (\<forall>v \<in> set vs. floorOf mem_ops st \<le> generation v) \<and>
    floorOf mem_ops st \<le> floorOf mem_ops st' \<and> (\<forall>v \<in> set vs. \<exists>(now, doc) \<in> set docs. now < expiresAt v)"
  by (rule mem.accept_all_rollback [OF acceptSignedRelayList_policy assms])

theorem relay_list_anti_rollback_witness:
  "\<exists>vs st'. accept_all (acceptSignedRelayList reference_platform mem_ops []) [(150, sample_document), (150, [])]
      \<lparr>generationStore = Some 4, serverKeyStore = None\<rparr> = (vs, st') \<and> map generation vs = [4] \<and> sorted (map generation vs)"
proof -
  let ?st = "\<lparr>generationStore = Some 4, serverKeyStore = None\<rparr> :: (int, string option) stores"
  have empty: "verifySignedRelayList reference_platform [] pins = Inl DJson" for pins
    by (simp add: verifySignedRelayList_def parseSignedRelayList_def of_option_def json_read_def)
  have "verifySignedRelayList reference_platform sample_document [] =
      Inr \<lparr>generation = 4, signedAt = 100, expiresAt = 200, relays = [], serverPubkeyHex = hex_encode (replicate 32 0)\<rparr>"
    using sample_document_verified by (auto simp: verifySignedRelayList_Inr_conv pinned_def)
  then have "accept_all (acceptSignedRelayList reference_platform mem_ops []) [(150, sample_document), (150, [])] ?st =
      ([\<lparr>generation = 4, signedAt = 100, expiresAt = 200, relays = [], serverPubkeyHex = hex_encode (replicate 32 0)\<rparr>], ?st)"
    by (simp add: acceptSignedRelayList_def effectivePins_def tofuPin_def finishAccept_def floorOf_def isExpired_def
        empty mem_ops_def memLoadFloor_def memStoreFloor_def Let_def)
  with relay_list_anti_rollback [OF _ this] show ?thesis by auto
qed

text \<open>
  C20. Trust on first use, over one run of a client without explicit pins that fetches relay lists and directories
  in any order, with one key store for both and a generation store per feed. The key store is any one that
  loads the key it stored last. Every document accepted, of either kind, verifies and is signed by one server
  key: the stored one if the run started with one, else the key of the first document accepted; and that key is what
  the store holds at the end.
\<close>

theorem trust_on_first_use:
  assumes "\<forall>p k. so_loadPin ops (so_storePin ops p k) = Some p"
    and "accept_all (acceptDocument pf ops [] roots) docs (floors, Some k) = (vs, floors', key')"
  shows "(\<forall>v \<in> set vs. \<exists>(now, feed, doc) \<in> set docs. verifies_as pf roots doc v) \<and>
    (case so_loadPin ops k of
       Some p \<Rightarrow> (\<forall>v \<in> set vs. signer v = toLowerCase p) \<and> Option.bind key' (so_loadPin ops) = Some p
     | None \<Rightarrow> (\<forall>v \<in> set vs. signer v = signer (hd vs)) \<and>
         Option.bind key' (so_loadPin ops) = (if vs = [] then None else Some (signer (hd vs))))"
proof -
  note run = accept_documents_signer [OF assms]
  show ?thesis
  proof (cases "so_loadPin ops k")
    case None
    show ?thesis
    proof (cases vs)
      case Nil
      with run None show ?thesis by (auto simp: run_pin_def)
    next
      case (Cons w ws)
      with run None have all: "\<forall>u \<in> set vs. signer u = toLowerCase (signer w)" by (simp add: run_pin_def)
      then have "\<forall>u \<in> set vs. signer u = signer w" using Cons by (metis list.set_intros(1))
      moreover have "Option.bind key' (so_loadPin ops) = Some (signer w)"
        using run None Cons by (auto simp: run_pin_def)
      ultimately show ?thesis using run None Cons by (simp only: option.case list.sel list.distinct if_False) blast
    qed
  next
    case (Some p)
    with run show ?thesis by (auto simp: run_pin_def)
  qed
qed

theorem trust_on_first_use_witness:
  "\<exists>v d floors' key'. accept_all (acceptDocument reference_platform mem_ops [] [hex_encode (replicate 32 0)])
      [(150, 0 :: nat, RelayListDocument sample_document), (150, 1, DirectoryDocument (stringify sample_directory_json)),
       (250, 0, RelayListDocument sample_document)] (\<lambda>feed. Some 4, Some None) =
     ([AcceptedList v, AcceptedDirectory d], floors', key') \<and>
    vd_serverPubkeyHex d = serverPubkeyHex v \<and> Option.bind key' (so_loadPin mem_ops) = Some (serverPubkeyHex v)"
proof -
  let ?key = "hex_encode (replicate 32 0)"
  have list: "verifySignedRelayList reference_platform sample_document pins =
      Inr \<lparr>generation = 4, signedAt = 100, expiresAt = 200, relays = [], serverPubkeyHex = ?key\<rparr>"
    if "pins = [] \<or> pins = [?key]" for pins
    using sample_document_verified that by (auto simp: verifySignedRelayList_Inr_conv pinned_def)
  obtain e where dir: "verifyMultihopDirectory reference_platform (stringify sample_directory_json) [?key] [?key] =
      Inr \<lparr>vd_exits = [e], vd_generation = 7, vd_signedAt = 100, vd_expiresAt = 200, vd_dropped = 0, vd_serverPubkeyHex = ?key\<rparr>"
    using sample_directory_verified by blast
  have law: "\<forall>p k. so_loadPin mem_ops (so_storePin mem_ops p k) = Some p" by (simp add: mem.load_store_pin)
  have "\<exists>v d floors' key'. accept_all (acceptDocument reference_platform mem_ops [] [?key])
      [(150, 0 :: nat, RelayListDocument sample_document), (150, 1, DirectoryDocument (stringify sample_directory_json)),
       (250, 0, RelayListDocument sample_document)] (\<lambda>feed. Some 4, Some None) =
     ([AcceptedList v, AcceptedDirectory d], floors', key')"
    by (simp add: acceptSignedRelayList_def acceptMultihopDirectory_def effectivePins_def tofuPin_def finishAccept_def
        floorOf_def isExpired_def list dir mem_ops_def memLoadFloor_def memStoreFloor_def memLoadPin_def memStorePin_def Let_def)
  then obtain v d floors' key' where run: "accept_all (acceptDocument reference_platform mem_ops [] [?key])
      [(150, 0 :: nat, RelayListDocument sample_document), (150, 1, DirectoryDocument (stringify sample_directory_json)),
       (250, 0, RelayListDocument sample_document)] (\<lambda>feed. Some 4, Some None) =
     ([AcceptedList v, AcceptedDirectory d], floors', key')" by blast
  have "so_loadPin mem_ops None = None" by (simp add: mem_ops_def memLoadPin_def)
  with trust_on_first_use [OF law run] run show ?thesis by simp
qed

text \<open>
  Anti-rollback of the multi-hop directory within a run, as for the relay list.
\<close>

theorem directory_anti_rollback:
  assumes "generationStore st \<noteq> None" and "accept_all (acceptMultihopDirectory pf mem_ops pins roots) docs st = (vs, st')"
  shows "sorted (map vd_generation vs) \<and> (\<forall>v \<in> set vs. floorOf mem_ops st \<le> vd_generation v) \<and>
    floorOf mem_ops st \<le> floorOf mem_ops st' \<and> (\<forall>v \<in> set vs. \<exists>(now, doc) \<in> set docs. now < vd_expiresAt v)"
  by (rule mem.accept_all_rollback [OF acceptMultihopDirectory_policy assms])

theorem directory_anti_rollback_witness:
  "\<exists>vs st'. accept_all (acceptMultihopDirectory reference_platform mem_ops [] []) [(150, stringify sample_directory_json)]
      \<lparr>generationStore = Some 3, serverKeyStore = None\<rparr> = (vs, st') \<and> sorted (map vd_generation vs) \<and>
    floorOf mem_ops \<lparr>generationStore = Some 3, serverKeyStore = None\<rparr> \<le> floorOf mem_ops st'"
proof -
  let ?st = "\<lparr>generationStore = Some 3, serverKeyStore = None\<rparr> :: (int, string option) stores"
  obtain vs st' where vs: "accept_all (acceptMultihopDirectory reference_platform mem_ops [] [])
      [(150, stringify sample_directory_json)] ?st = (vs, st')"
    by (cases "accept_all (acceptMultihopDirectory reference_platform mem_ops [] []) [(150, stringify sample_directory_json)] ?st")
  from directory_anti_rollback [OF _ vs] vs show ?thesis by auto
qed

end
