(* ===== verification/Split_Tunnel.thy ===== *)
theory Split_Tunnel
  imports Json
begin

text \<open>
  Split tunneling (\<^verbatim>\<open>extension/src/split.ts\<close>): which hosts follow the tunnel, the proxy settings the extension gives
  the browser, and the PAC script Chromium runs for the mode that tunnels only the listed hosts. The values handed to
  \<^verbatim>\<open>proxy.settings\<close> are JSON values; \<open>num\<close> is the conversion \<^verbatim>\<open>Number(text)\<close> of a port, with \<open>JNull\<close> for a \<^verbatim>\<open>NaN\<close>.
\<close>

section \<open>Strings\<close>

definition startsWith :: "string \<Rightarrow> string \<Rightarrow> bool" where
  "startsWith s p \<longleftrightarrow> take (length p) s = p"

definition endsWith :: "string \<Rightarrow> string \<Rightarrow> bool" where
  "endsWith s p \<longleftrightarrow> length p \<le> length s \<and> drop (length s - length p) s = p"

text \<open>\<^verbatim>\<open>s.slice(-n)\<close> for a positive \<^verbatim>\<open>n\<close>: the last \<^verbatim>\<open>n\<close> characters, the whole string when it is shorter.\<close>

definition slice_last :: "nat \<Rightarrow> string \<Rightarrow> string" where
  "slice_last n s = drop (length s - n) s"

text \<open>The text before and after the last colon; without one, \<^verbatim>\<open>slice(0, -1)\<close> and \<^verbatim>\<open>slice(0)\<close>.\<close>

fun last_colon :: "string \<Rightarrow> (string \<times> string) option" where
  "last_colon [] = None"
| "last_colon (c # s) =
     (case last_colon s of
        Some (h, p) \<Rightarrow> Some (c # h, p)
      | None \<Rightarrow> if c = CHR '':'' then Some ([], s) else None)"

lemma slice_last_endsWith: "slice_last (length p) s = p \<longleftrightarrow> endsWith s p"
  by (auto simp: slice_last_def endsWith_def) (metis diff_le_self length_drop diff_diff_cancel nat_le_linear)

lemma last_colon_append: "CHR '':'' \<notin> set p \<Longrightarrow> last_colon (h @ CHR '':'' # p) = Some (h, p)"
proof (induction h)
  case Nil
  have "last_colon p = None" using Nil by (induction p) auto
  then show ?case by simp
qed auto

section \<open>Configuration\<close>

datatype SplitTunnelMode = ModeAll | ModeBypass | ModeOnly

record SplitTunnelConfig =
  sp_mode :: SplitTunnelMode
  sp_rules :: "string list"
  sp_tabs :: "int list option"

definition DEFAULT_SPLIT :: SplitTunnelConfig where
  "DEFAULT_SPLIT = \<lparr>sp_mode = ModeAll, sp_rules = [], sp_tabs = None\<rparr>"

definition LOOPBACK_BYPASS :: "string list" where
  "LOOPBACK_BYPASS = [''localhost'', ''127.0.0.1'']"

section \<open>The matcher\<close>

definition hostMatchesRule :: "string \<Rightarrow> string \<Rightarrow> bool" where
  "hostMatchesRule host rule =
     (let h = toLowerCase host; r = toLowerCase rule
      in if r = ''*'' then True
         else if startsWith r ''*.'' then endsWith h (drop 1 r)
         else if startsWith r ''.'' then endsWith h r
         else h = r \<or> endsWith h (''.'' @ r))"

definition isLoopback :: "string \<Rightarrow> bool" where
  "isLoopback host =
     (let h = toLowerCase host
      in h = ''localhost'' \<or> endsWith h ''.localhost'' \<or> h = ''127.0.0.1'' \<or> h = ''[::1]'')"

definition shouldTunnelHost :: "string \<Rightarrow> SplitTunnelConfig \<Rightarrow> bool" where
  "shouldTunnelHost host config =
     (if isLoopback host then False
      else let matched = list_ex (hostMatchesRule host) (sp_rules config)
           in (case sp_mode config of ModeBypass \<Rightarrow> \<not> matched | ModeOnly \<Rightarrow> matched | ModeAll \<Rightarrow> True))"

definition shouldTunnelRequest :: "string \<Rightarrow> int option \<Rightarrow> SplitTunnelConfig \<Rightarrow> bool" where
  "shouldTunnelRequest host tabId config =
     (if isLoopback host then False
      else if sp_mode config = ModeOnly \<and>
              (case (tabId, sp_tabs config) of (Some t, Some tabs) \<Rightarrow> t \<in> set tabs | _ \<Rightarrow> False)
           then True
      else shouldTunnelHost host config)"

section \<open>Chromium\<close>

definition parseAddress :: "(string \<Rightarrow> json) \<Rightarrow> string \<Rightarrow> string \<times> json" where
  "parseAddress num address =
     (case last_colon address of
        Some (h, p) \<Rightarrow> (h, num p)
      | None \<Rightarrow> (butlast address, num address))"

text \<open>The block of a lockdown: loopback port 1 over TLS.\<close>

definition LOCKDOWN_PROXY :: "(string \<times> json) list" where
  "LOCKDOWN_PROXY = [(''scheme'', JStr ''https''), (''host'', JStr ''127.0.0.1''), (''port'', JInt 1)]"

definition fixed_servers :: "(string \<times> json) list \<Rightarrow> string list \<Rightarrow> json" where
  "fixed_servers singleProxy bypassList =
     JObj [(''mode'', JStr ''fixed_servers''),
           (''rules'', JObj [(''singleProxy'', JObj singleProxy), (''bypassList'', JArr (map JStr bypassList))])]"

definition buildChromiumLockdownValue :: "string list \<Rightarrow> json" where
  "buildChromiumLockdownValue exempt = fixed_servers LOCKDOWN_PROXY (LOOPBACK_BYPASS @ exempt)"

text \<open>
  The script text, around the two texts it interpolates: the rules as JSON and the proxy the tunneled hosts get. The
  ingress of \<^verbatim>\<open>browser-routing.ts\<close> builds the same script around its own proxy.
\<close>

definition NL :: string where
  "NL = [CHR 0x0A]"

definition pac_head :: string where
  "pac_head =
     ''function FindProxyForURL(url, host) {'' @ NL
     @ ''  host = host.toLowerCase();'' @ NL
     @ ''  if (host === 'localhost' || dnsDomainIs(host, '.localhost') || host === '127.0.0.1' || host === '::1') return 'DIRECT';'' @ NL
     @ ''  var rules = ''"

definition pac_loop :: string where
  "pac_loop =
     '';'' @ NL
     @ ''  var matched = false;'' @ NL
     @ ''  for (var i = 0; i < rules.length; i++) {'' @ NL
     @ ''    var r = rules[i];'' @ NL
     @ ''    if (r === '*') { matched = true; break; }'' @ NL
     @ ''    if (r.charAt(0) === '*') r = r.slice(1);'' @ NL
     @ ''    if (r.charAt(0) === '.') { if (host.slice(-r.length) === r) { matched = true; break; } continue; }'' @ NL
     @ ''    if (host === r || host.slice(-(r.length + 1)) === '.' + r) { matched = true; break; }'' @ NL
     @ ''  }'' @ NL
     @ ''  var tunnel = ''"

definition pac_script :: "string \<Rightarrow> SplitTunnelConfig \<Rightarrow> string" where
  "pac_script proxy config =
     pac_head @ stringify (JArr (map (\<lambda>r. JStr (toLowerCase r)) (sp_rules config))) @ pac_loop
     @ (if sp_mode config = ModeOnly then ''matched'' else ''!matched'') @ '';'' @ NL
     @ ''  return tunnel ? '' @ [CHR 0x27] @ proxy @ [CHR 0x27] @ '' : 'DIRECT';'' @ NL @ ''}''"

definition buildPacScript :: "string \<Rightarrow> SplitTunnelConfig \<Rightarrow> string" where
  "buildPacScript http config = pac_script (''PROXY '' @ http) config"

definition pac_value :: "string \<Rightarrow> json" where
  "pac_value script =
     JObj [(''mode'', JStr ''pac_script''), (''pacScript'', JObj [(''data'', JStr script), (''mandatory'', JBool True)])]"

definition split_bypass :: "SplitTunnelConfig \<Rightarrow> string list" where
  "split_bypass config = (if sp_mode config = ModeBypass then LOOPBACK_BYPASS @ sp_rules config else LOOPBACK_BYPASS)"

definition buildChromiumProxyValue :: "(string \<Rightarrow> json) \<Rightarrow> string \<Rightarrow> SplitTunnelConfig \<Rightarrow> json" where
  "buildChromiumProxyValue num http config =
     (if sp_mode config = ModeOnly then pac_value (buildPacScript http config)
      else case parseAddress num http of (host, port) \<Rightarrow>
        fixed_servers [(''scheme'', JStr ''http''), (''host'', JStr host), (''port'', port)] (split_bypass config))"

text \<open>
  What the script computes on a host: the loop over the rules, and the string it returns. It is a translation of the
  JavaScript inside \<open>pac_script\<close>, made by hand as the other code of the repository is; no interpreter of that language
  links the two. \<^verbatim>\<open>dnsDomainIs\<close> is the suffix test of the PAC library.
\<close>

definition pac_rule_matches :: "string \<Rightarrow> string \<Rightarrow> bool" where
  "pac_rule_matches host rule =
     (if rule = ''*'' then True
      else let r = (if take 1 rule = ''*'' then drop 1 rule else rule)
           in if take 1 r = ''.'' then slice_last (length r) host = r
              else host = r \<or> slice_last (length r + 1) host = ''.'' @ r)"

definition FindProxyForURL :: "string \<Rightarrow> SplitTunnelConfig \<Rightarrow> string \<Rightarrow> string" where
  "FindProxyForURL proxy config host =
     (let h = toLowerCase host
      in if h = ''localhost'' \<or> endsWith h ''.localhost'' \<or> h = ''127.0.0.1'' \<or> h = ''::1'' then ''DIRECT''
         else let matched = list_ex (pac_rule_matches h) (map toLowerCase (sp_rules config));
                  tunnel = (if sp_mode config = ModeOnly then matched else \<not> matched)
              in if tunnel then proxy else ''DIRECT'')"

section \<open>Firefox\<close>

definition buildFirefoxProxyValue :: "string \<Rightarrow> SplitTunnelConfig \<Rightarrow> json" where
  "buildFirefoxProxyValue socks5 config =
     JObj [(''proxyType'', JStr ''manual''), (''socks'', JStr socks5), (''socksVersion'', JInt 5),
           (''proxyDNS'', JBool True), (''passthrough'', JStr (join '', '' (split_bypass config)))]"

section \<open>The two platforms\<close>

text \<open>A rule that names a host, a suffix, or everything: a star is the whole rule or is followed by a dot.\<close>

definition plain_rule :: "string \<Rightarrow> bool" where
  "plain_rule r \<longleftrightarrow> take 1 r = ''*'' \<longrightarrow> r = ''*'' \<or> take 2 r = ''*.''"

lemma lower_char_special:
  "c = CHR ''*'' \<or> c = CHR ''.'' \<Longrightarrow> lower_char d = c \<longleftrightarrow> d = c"
proof -
  assume c: "c = CHR ''*'' \<or> c = CHR ''.''"
  then have small: "(of_char c :: nat) < 65" by auto
  show ?thesis
  proof (cases "65 \<le> (of_char d :: nat) \<and> (of_char d :: nat) \<le> 90")
    case True
    then have "(of_char (lower_char d) :: nat) = of_char d + 32" by (simp add: lower_char_def)
    with True small have "lower_char d \<noteq> c" "d \<noteq> c" by force+
    then show ?thesis by simp
  qed (auto simp: lower_char_def Let_def)
qed

lemma plain_rule_lower: "plain_rule (toLowerCase r) = plain_rule r"
proof (cases r)
  case (Cons a s)
  then show ?thesis
    by (cases s) (auto simp: plain_rule_def toLowerCase_def lower_char_special)
qed (simp add: plain_rule_def toLowerCase_def)

lemma pac_rule_plain:
  assumes "plain_rule rule"
  shows "pac_rule_matches (toLowerCase host) (toLowerCase rule) = hostMatchesRule host rule"
proof -
  let ?r = "toLowerCase rule" and ?h = "toLowerCase host"
  have "plain_rule ?r" using assms by (simp add: plain_rule_lower)
  then consider "?r = ''*''" | s where "?r = CHR ''*'' # CHR ''.'' # s" | s where "?r = CHR ''.'' # s"
    | "take 1 ?r \<noteq> ''*''" "take 1 ?r \<noteq> ''.''"
    by (cases ?r; cases "drop 1 ?r") (auto simp: plain_rule_def)
  then show ?thesis
  proof cases
    case 4
    then have "\<not> startsWith ?r ''*.''" "\<not> startsWith ?r ''.''" "?r \<noteq> ''*''"
      by (cases ?r; auto simp: startsWith_def)+
    with 4 show ?thesis
      using slice_last_endsWith [of "''.'' @ ?r" ?h] by (simp add: pac_rule_matches_def hostMatchesRule_def Let_def)
  qed (auto simp: pac_rule_matches_def hostMatchesRule_def startsWith_def Let_def slice_last_endsWith [symmetric])
qed

text \<open>
  C34. The PAC script of the mode \<^verbatim>\<open>only\<close> sends to the proxy exactly the hosts the matcher tunnels, for hosts that are not
  IPv6 loopback and plain rules. It does not on a rule like \<^verbatim>\<open>*example.com\<close>, which the script reads as the domain and
  the matcher as a host of that very name.
\<close>

theorem pac_decides_as_matcher:
  assumes "sp_mode config = ModeOnly" "\<forall>r \<in> set (sp_rules config). plain_rule r"
    "toLowerCase host \<noteq> ''::1''" "toLowerCase host \<noteq> ''[::1]''"
  shows "FindProxyForURL proxy config host = (if shouldTunnelHost host config then proxy else ''DIRECT'') \<and>
    (let starred = config\<lparr>sp_rules := [''*example.com'']\<rparr>
     in FindProxyForURL proxy starred ''www.example.com'' = proxy \<and> \<not> shouldTunnelHost ''www.example.com'' starred)"
proof -
  have "list_ex (pac_rule_matches (toLowerCase host)) (map toLowerCase rs) = list_ex (hostMatchesRule host) rs"
    if "\<forall>r \<in> set rs. plain_rule r" for rs
    using that by (induction rs) (auto simp: pac_rule_plain)
  from this [OF assms(2)]
  have "FindProxyForURL proxy config host = (if shouldTunnelHost host config then proxy else ''DIRECT'')"
    using assms(1,3,4) by (auto simp: FindProxyForURL_def shouldTunnelHost_def isLoopback_def Let_def)
  moreover have "pac_rule_matches ''www.example.com'' ''*example.com''" "\<not> hostMatchesRule ''www.example.com'' ''*example.com''"
    "\<not> isLoopback ''www.example.com''" "toLowerCase ''www.example.com'' = ''www.example.com''"
    "toLowerCase ''*example.com'' = ''*example.com''" "\<not> endsWith ''www.example.com'' ''.localhost''"
    by code_simp+
  ultimately show ?thesis using assms(1) by (simp add: FindProxyForURL_def shouldTunnelHost_def Let_def)
qed

theorem pac_decides_as_matcher_witness:
  "FindProxyForURL ''PROXY 127.0.0.1:8118'' \<lparr>sp_mode = ModeOnly, sp_rules = [''Example.com'', ''*.org''], sp_tabs = None\<rparr>
     ''www.example.com'' = ''PROXY 127.0.0.1:8118''"
proof -
  let ?c = "\<lparr>sp_mode = ModeOnly, sp_rules = [''Example.com'', ''*.org''], sp_tabs = None\<rparr> :: SplitTunnelConfig"
  have eval: "\<forall>r \<in> set (sp_rules ?c). plain_rule r" "toLowerCase ''www.example.com'' \<noteq> ''::1''"
    "toLowerCase ''www.example.com'' \<noteq> ''[::1]''" "shouldTunnelHost ''www.example.com'' ?c"
    by code_simp+
  show ?thesis
    using pac_decides_as_matcher [of ?c "''www.example.com''" "''PROXY 127.0.0.1:8118''"] eval by simp
qed

end
