(* ===== verification/Browser_Routing.thy ===== *)
theory Browser_Routing
  imports Split_Tunnel
begin

text \<open>
  The zero-install tier of the extension (\<^verbatim>\<open>extension/src/browser-routing.ts\<close>): the routing record kept across the death
  of the background worker, the answers of the Firefox \<^verbatim>\<open>proxy.onRequest\<close> listener, the Chromium proxy settings and
  their reading back, and the answers to a proxy's \<^verbatim>\<open>407\<close>.

  What the browser does is a parameter: \<open>hostname\<close> is \<^verbatim>\<open>new URL(url).hostname\<close> (\<open>None\<close> when it throws), the settings
  API is the record \<open>proxy_settings\<close> over a world. A promise the code awaits is passed by its outcome, \<open>Inl ()\<close> for a
  rejection.
\<close>

section \<open>Routing records\<close>

datatype IngressEndpoint = HttpsIngress string json | MasqueIngress string json string

fun endpoint_host :: "IngressEndpoint \<Rightarrow> string" where
  "endpoint_host (HttpsIngress host port) = host"
| "endpoint_host (MasqueIngress host port template) = host"

fun endpoint_port :: "IngressEndpoint \<Rightarrow> json" where
  "endpoint_port (HttpsIngress host port) = port"
| "endpoint_port (MasqueIngress host port template) = port"

text \<open>
  The code casts a validated value and keeps it, so a field it does not validate stays what was stored: the split of an
  ingress or multi-hop record is its JSON value, as is the time of installation.
\<close>

record RoutingState =
  rt_endpoint :: IngressEndpoint
  rt_split :: json
  rt_country :: string
  rt_city :: string
  rt_hops :: int
  rt_installedAt :: "json option"

record LockdownState =
  lk_exempt :: "string list"
  lk_installedAt :: json

record MultihopRoutingState =
  mh_socks5 :: string
  mh_split :: json
  mh_installedAt :: json

datatype RoutingRecord = IngressRecord RoutingState | LockdownRecord LockdownState | MultihopRecord MultihopRoutingState

fun is_number :: "json \<Rightarrow> bool" where
  "is_number (JInt i) = True"
| "is_number (JFrac s) = True"
| "is_number _ = False"

fun all_strings :: "json list \<Rightarrow> string list option" where
  "all_strings [] = Some []"
| "all_strings (JStr s # r) = map_option (Cons s) (all_strings r)"
| "all_strings _ = None"

definition stored_mode :: "json \<Rightarrow> SplitTunnelMode option" where
  "stored_mode split =
     (case jget split ''mode'' of
        Some (JStr m) \<Rightarrow>
          if m = ''all'' then Some ModeAll else if m = ''bypass'' then Some ModeBypass
          else if m = ''only'' then Some ModeOnly else None
      | _ \<Rightarrow> None)"

definition isSplit :: "json option \<Rightarrow> bool" where
  "isSplit v =
     (case v of
        None \<Rightarrow> False
      | Some split \<Rightarrow>
          is_object split \<and> stored_mode split \<noteq> None \<and>
          (case jarray split ''rules'' of None \<Rightarrow> False | Some rs \<Rightarrow> all_strings rs \<noteq> None))"

text \<open>The test \<^verbatim>\<open>/^[^:]+:\d+$/\<close>.\<close>

definition host_port_text :: "string \<Rightarrow> bool" where
  "host_port_text s =
     (let h = takeWhile (\<lambda>c. c \<noteq> CHR '':'') s; rest = drop (length h) s
      in h \<noteq> [] \<and> (case rest of c # p \<Rightarrow> p \<noteq> [] \<and> list_all is_digit p | [] \<Rightarrow> False))"

definition asMultihopState :: "json \<Rightarrow> MultihopRoutingState option" where
  "asMultihopState v =
     (case (jstring v ''socks5'', jget v ''split'', jget v ''installedAt'') of
        (Some socks5, Some split, Some at) \<Rightarrow>
          if host_port_text socks5 \<and> isSplit (Some split) \<and> is_number at
          then Some \<lparr>mh_socks5 = socks5, mh_split = split, mh_installedAt = at\<rparr> else None
      | _ \<Rightarrow> None)"

definition asLockdownState :: "json \<Rightarrow> LockdownState option" where
  "asLockdownState v =
     (case (Option.bind (jarray v ''exempt'') all_strings, jget v ''installedAt'') of
        (Some exempt, Some at) \<Rightarrow> if is_number at then Some \<lparr>lk_exempt = exempt, lk_installedAt = at\<rparr> else None
      | _ \<Rightarrow> None)"

definition as_endpoint :: "json \<Rightarrow> IngressEndpoint option" where
  "as_endpoint e =
     (case (jget e ''kind'', jstring e ''host'', jget e ''port'') of
        (Some (JStr kind), Some host, Some port) \<Rightarrow>
          if \<not> is_number port then None
          else if kind = ''https'' then Some (HttpsIngress host port)
          else if kind = ''masque'' then map_option (MasqueIngress host port) (jstring e ''masqueTemplate'')
          else None
      | _ \<Rightarrow> None)"

definition asIngressState :: "json \<Rightarrow> RoutingState option" where
  "asIngressState v =
     (case (jget v ''tier'', Option.bind (jget v ''endpoint'') as_endpoint, jget v ''split'', jget v ''exit'', jinteger v ''hops'') of
        (Some (JStr tier), Some endpoint, Some split, Some exit, Some hops) \<Rightarrow>
          (case (jstring exit ''country'', jstring exit ''city'') of
             (Some country, Some city) \<Rightarrow>
               if tier = ''ingress'' \<and> stored_mode split \<noteq> None \<and> hops \<in> {1, 2}
               then Some \<lparr>rt_endpoint = endpoint, rt_split = split, rt_country = country, rt_city = city,
                          rt_hops = hops, rt_installedAt = jget v ''installedAt''\<rparr>
               else None
           | _ \<Rightarrow> None)
      | _ \<Rightarrow> None)"

definition asRoutingRecord :: "json option \<Rightarrow> RoutingRecord option" where
  "asRoutingRecord value =
     (case value of
        None \<Rightarrow> None
      | Some v \<Rightarrow>
          if \<not> is_object v then None
          else if jget v ''tier'' = Some (JStr ''lockdown'') then map_option LockdownRecord (asLockdownState v)
          else if jget v ''tier'' = Some (JStr ''multihop'') then map_option MultihopRecord (asMultihopState v)
          else map_option IngressRecord (asIngressState v))"

text \<open>The store over a storage area: what a load answers to the value the area holds.\<close>

definition routing_load :: "unit + json option \<Rightarrow> unit + RoutingRecord option" where
  "routing_load got = (case got of Inl e \<Rightarrow> Inl e | Inr value \<Rightarrow> Inr (asRoutingRecord value))"

text \<open>What a save stores: the record as the object it is.\<close>

fun stored_endpoint :: "IngressEndpoint \<Rightarrow> json" where
  "stored_endpoint (HttpsIngress host port) = JObj [(''kind'', JStr ''https''), (''host'', JStr host), (''port'', port)]"
| "stored_endpoint (MasqueIngress host port template) =
     JObj [(''kind'', JStr ''masque''), (''host'', JStr host), (''port'', port), (''masqueTemplate'', JStr template)]"

fun record_json :: "RoutingRecord \<Rightarrow> json" where
  "record_json (IngressRecord r) =
     JObj ([(''tier'', JStr ''ingress''), (''endpoint'', stored_endpoint (rt_endpoint r)), (''split'', rt_split r),
            (''exit'', JObj [(''country'', JStr (rt_country r)), (''city'', JStr (rt_city r))]), (''hops'', JInt (rt_hops r))]
           @ opt_prop ''installedAt'' id (rt_installedAt r))"
| "record_json (LockdownRecord k) =
     JObj [(''tier'', JStr ''lockdown''), (''exempt'', JArr (map JStr (lk_exempt k))), (''installedAt'', lk_installedAt k)]"
| "record_json (MultihopRecord m) =
     JObj [(''tier'', JStr ''multihop''), (''socks5'', JStr (mh_socks5 m)), (''split'', mh_split m), (''installedAt'', mh_installedAt m)]"

definition routing_save :: "RoutingRecord \<Rightarrow> json option \<Rightarrow> json option" where
  "routing_save record area = Some (record_json record)"

definition routing_clear :: "json option \<Rightarrow> json option" where
  "routing_clear area = None"

section \<open>The split of a stored record\<close>

text \<open>
  The matcher on a stored split, whose rules and tabs may be anything: \<open>Inl ()\<close> is the \<^verbatim>\<open>TypeError\<close> of a call on a value
  without that method. On a typed configuration it is \<open>shouldTunnelRequest\<close>.
\<close>

fun some_rule :: "string \<Rightarrow> json list \<Rightarrow> unit + bool" where
  "some_rule host [] = Inr False"
| "some_rule host (JStr rule # rest) = (if hostMatchesRule host rule then Inr True else some_rule host rest)"
| "some_rule host (_ # rest) = Inl ()"

fun has_substring :: "string \<Rightarrow> string \<Rightarrow> bool" where
  "has_substring [] p = (p = [])"
| "has_substring (c # s) p = (startsWith (c # s) p \<or> has_substring s p)"

definition tabs_include :: "json option \<Rightarrow> int \<Rightarrow> unit + bool" where
  "tabs_include tabs t =
     (case tabs of
        None \<Rightarrow> Inr False
      | Some JNull \<Rightarrow> Inr False
      | Some (JArr xs) \<Rightarrow> Inr (JInt t \<in> set xs)
      | Some (JStr s) \<Rightarrow> Inr (has_substring s (show_int t))
      | _ \<Rightarrow> Inl ())"

definition stored_tunnels_host :: "string \<Rightarrow> json \<Rightarrow> unit + bool" where
  "stored_tunnels_host host split =
     (if isLoopback host then Inr False
      else case jarray split ''rules'' of
        None \<Rightarrow> Inl ()
      | Some rules \<Rightarrow> bindR (some_rule host rules) (\<lambda>matched. Inr
          (case stored_mode split of Some ModeBypass \<Rightarrow> \<not> matched | Some ModeOnly \<Rightarrow> matched | _ \<Rightarrow> True)))"

definition stored_tunnels_request :: "string \<Rightarrow> int option \<Rightarrow> json \<Rightarrow> unit + bool" where
  "stored_tunnels_request host tabId split =
     (if isLoopback host then Inr False
      else bindR (case tabId of
                    Some t \<Rightarrow> if stored_mode split = Some ModeOnly then tabs_include (jget split ''tabs'') t else Inr False
                  | None \<Rightarrow> Inr False) (\<lambda>tab.
        if tab then Inr True else stored_tunnels_host host split))"

section \<open>Firefox\<close>

definition CREDENTIAL_USERNAME :: string where
  "CREDENTIAL_USERNAME = ''warren''"

text \<open>\<^verbatim>\<open>ExtensionProxyAuth\<close>, the credentials of the native host's listeners.\<close>

record ExtensionProxyAuth =
  xa_username :: string
  xa_password :: string

datatype ProxyType = PtHttps | PtMasque | PtSocks | PtDirect

record FirefoxProxyInfo =
  fx_type :: ProxyType
  fx_host :: "string option"
  fx_port :: "json option"
  fx_masqueTemplate :: "string option"
  fx_proxyAuthorizationHeader :: "string option"
  fx_failoverTimeout :: "int option"
  fx_proxyDNS :: "bool option"
  fx_username :: "string option"
  fx_password :: "string option"

definition proxy_info :: "ProxyType \<Rightarrow> FirefoxProxyInfo" where
  "proxy_info t = \<lparr>fx_type = t, fx_host = None, fx_port = None, fx_masqueTemplate = None,
     fx_proxyAuthorizationHeader = None, fx_failoverTimeout = None, fx_proxyDNS = None, fx_username = None, fx_password = None\<rparr>"

text \<open>What the listener answers: one proxy, a list of them in order, or a rejected promise.\<close>

datatype firefox_answer = OneProxy FirefoxProxyInfo | ProxyList "FirefoxProxyInfo list" | Rejected

definition FAIL_CLOSED_PROXY :: "FirefoxProxyInfo list" where
  "FAIL_CLOSED_PROXY = [(proxy_info PtHttps)\<lparr>fx_host := Some ''127.0.0.1'', fx_port := Some (JInt 1)\<rparr>]"

abbreviation "direct \<equiv> OneProxy (proxy_info PtDirect)"

text \<open>\<^verbatim>\<open>btoa\<close>, and the \<^verbatim>\<open>Buffer\<close> conversion that stands in for it: base64 with padding.\<close>

definition b64_char :: "nat \<Rightarrow> char" where
  "b64_char n =
     (if n < 26 then char_of (65 + n) else if n < 52 then char_of (71 + n)
      else if n < 62 then char_of (n - 4) else if n = 62 then CHR ''+'' else CHR ''/'')"

fun btoa :: "string \<Rightarrow> string" where
  "btoa [] = []"
| "btoa [a] = (let x = of_char a in [b64_char (x div 4), b64_char (x mod 4 * 16), CHR ''='', CHR ''=''])"
| "btoa [a, b] =
     (let x = of_char a; y = of_char b
      in [b64_char (x div 4), b64_char (x mod 4 * 16 + y div 16), b64_char (y mod 16 * 4), CHR ''=''])"
| "btoa (a # b # c # r) =
     (let x = of_char a; y = of_char b; z = of_char c
      in [b64_char (x div 4), b64_char (x mod 4 * 16 + y div 16), b64_char (y mod 16 * 4 + z div 64), b64_char (z mod 64)])
     @ btoa r"

definition basicAuth :: "string \<Rightarrow> string" where
  "basicAuth credential = ''Basic '' @ btoa (CREDENTIAL_USERNAME @ '':'' @ credential)"

fun firefoxProxyInfoFor :: "IngressEndpoint \<Rightarrow> string option \<Rightarrow> FirefoxProxyInfo list" where
  "firefoxProxyInfoFor (HttpsIngress host port) credential =
     [(proxy_info PtHttps)\<lparr>fx_host := Some host, fx_port := Some port,
        fx_proxyAuthorizationHeader := map_option basicAuth credential\<rparr>]"
| "firefoxProxyInfoFor (MasqueIngress host port template) credential =
     [(proxy_info PtMasque)\<lparr>fx_host := Some host, fx_port := Some port,
        fx_masqueTemplate := Some (case credential of None \<Rightarrow> template | Some c \<Rightarrow> template @ ''?credential='' @ c),
        fx_failoverTimeout := Some 5, fx_proxyAuthorizationHeader := map_option basicAuth credential\<rparr>,
      (proxy_info PtHttps)\<lparr>fx_host := Some host, fx_port := Some port,
        fx_proxyAuthorizationHeader := map_option basicAuth credential\<rparr>]"

definition isLoopbackHost :: "string \<Rightarrow> bool" where
  "isLoopbackHost name =
     (let host = toLowerCase name
      in host = ''localhost'' \<or> endsWith host ''.localhost'' \<or> host = ''127.0.0.1'' \<or> host = ''::1'' \<or> host = ''[::1]'')"

definition isLoopbackUrl :: "(string \<Rightarrow> string option) \<Rightarrow> string \<Rightarrow> bool" where
  "isLoopbackUrl hostname url = (case hostname url of None \<Rightarrow> False | Some h \<Rightarrow> isLoopbackHost h)"

definition socksProxyInfo :: "(string \<Rightarrow> json) \<Rightarrow> string \<Rightarrow> FirefoxProxyInfo" where
  "socksProxyInfo num socks5 =
     (case parseAddress num socks5 of (host, port) \<Rightarrow>
        (proxy_info PtSocks)\<lparr>fx_host := Some host, fx_port := Some port, fx_proxyDNS := Some True\<rparr>)"

definition with_auth :: "ExtensionProxyAuth \<Rightarrow> FirefoxProxyInfo \<Rightarrow> FirefoxProxyInfo" where
  "with_auth auth x = x\<lparr>fx_username := Some (xa_username auth), fx_password := Some (xa_password auth)\<rparr>"

text \<open>
  The listener, on the outcomes of the two promises it awaits: the load of the record and the current credential. The
  credentials \<open>local\<close> holds for a listener are those of the live session.
\<close>

definition route_tunneled ::
    "(string \<Rightarrow> json) \<Rightarrow> (unit + string option) \<Rightarrow> (string \<Rightarrow> ExtensionProxyAuth option) option \<Rightarrow> RoutingRecord \<Rightarrow> firefox_answer" where
  "route_tunneled num cred local record =
     (case record of
        MultihopRecord m \<Rightarrow>
          (case Option.bind local (\<lambda>l. l (mh_socks5 m)) of
             Some auth \<Rightarrow> OneProxy (with_auth auth (socksProxyInfo num (mh_socks5 m)))
           | None \<Rightarrow> ProxyList FAIL_CLOSED_PROXY)
      | IngressRecord r \<Rightarrow>
          (case cred of Inl _ \<Rightarrow> Rejected | Inr c \<Rightarrow> ProxyList (firefoxProxyInfoFor (rt_endpoint r) c))
      | LockdownRecord k \<Rightarrow> ProxyList FAIL_CLOSED_PROXY)"

fun record_split :: "RoutingRecord \<Rightarrow> json option" where
  "record_split (IngressRecord r) = Some (rt_split r)"
| "record_split (MultihopRecord m) = Some (mh_split m)"
| "record_split (LockdownRecord k) = None"

definition firefox_onRequest ::
    "(string \<Rightarrow> string option) \<Rightarrow> (string \<Rightarrow> json) \<Rightarrow> (unit + RoutingRecord option) \<Rightarrow> (unit + string option) \<Rightarrow>
     (string \<Rightarrow> ExtensionProxyAuth option) option \<Rightarrow> string \<Rightarrow> int option \<Rightarrow> firefox_answer" where
  "firefox_onRequest hostname num load cred local url tabId =
     (if isLoopbackUrl hostname url then direct
      else case load of
        Inl _ \<Rightarrow> ProxyList FAIL_CLOSED_PROXY
      | Inr None \<Rightarrow> direct
      | Inr (Some state) \<Rightarrow>
          (case map_option toLowerCase (hostname url) of
             None \<Rightarrow> ProxyList FAIL_CLOSED_PROXY
           | Some host \<Rightarrow>
               (case state of
                  LockdownRecord k \<Rightarrow>
                    if list_ex (\<lambda>h. toLowerCase h = host) (lk_exempt k) then direct else ProxyList FAIL_CLOSED_PROXY
                | _ \<Rightarrow>
                    (case stored_tunnels_request host tabId (the (record_split state)) of
                       Inl _ \<Rightarrow> Rejected
                     | Inr False \<Rightarrow> direct
                     | Inr True \<Rightarrow> route_tunneled num cred local state))))"

section \<open>Chromium settings\<close>

definition buildIngressPac :: "string \<Rightarrow> json \<Rightarrow> SplitTunnelConfig \<Rightarrow> string" where
  "buildIngressPac host port config = pac_script (''HTTPS '' @ host @ '':'' @ stringify port) config"

definition buildChromiumIngressValue :: "IngressEndpoint \<Rightarrow> SplitTunnelConfig \<Rightarrow> json" where
  "buildChromiumIngressValue endpoint config =
     (if sp_mode config = ModeOnly
      then pac_value (buildIngressPac (endpoint_host endpoint) (endpoint_port endpoint) config)
      else fixed_servers
             [(''scheme'', JStr ''https''), (''host'', JStr (endpoint_host endpoint)), (''port'', endpoint_port endpoint)]
             (split_bypass config))"

text \<open>What Chromium is asked to hold: the ingress with its split, or a lockdown with its exempt hosts.\<close>

datatype chromium_routing = ChromiumIngress IngressEndpoint SplitTunnelConfig | ChromiumLockdown "string list"

fun chromiumValueOf :: "chromium_routing \<Rightarrow> json" where
  "chromiumValueOf (ChromiumLockdown exempt) = buildChromiumLockdownValue exempt"
| "chromiumValueOf (ChromiumIngress endpoint config) = buildChromiumIngressValue endpoint config"

definition single_proxy :: "json \<Rightarrow> json option" where
  "single_proxy v = Option.bind (jget v ''rules'') (\<lambda>r. jget r ''singleProxy'')"

definition isLockdownValue :: "json option \<Rightarrow> bool" where
  "isLockdownValue value =
     (case value of
        None \<Rightarrow> False
      | Some v \<Rightarrow>
          is_object v \<and> jget v ''mode'' = Some (JStr ''fixed_servers'') \<and>
          (case single_proxy v of
             None \<Rightarrow> False
           | Some proxy \<Rightarrow>
               jget proxy ''scheme'' = Some (JStr ''https'') \<and> jget proxy ''host'' = Some (JStr ''127.0.0.1'') \<and>
               jget proxy ''port'' = Some (JInt 1)))"

text \<open>
  The first match of \<^verbatim>\<open>/HTTPS ([^:'"]+):\d+/\<close>: the class excludes the colon, so at each place the run of the class
  is all there is to try.
\<close>

definition host_char :: "char \<Rightarrow> bool" where
  "host_char c \<longleftrightarrow> c \<noteq> CHR '':'' \<and> c \<noteq> CHR 0x27 \<and> c \<noteq> CHR 0x22"

definition https_at :: "string \<Rightarrow> string option" where
  "https_at s =
     (if startsWith s ''HTTPS ''
      then let rest = drop 6 s; host = takeWhile host_char rest; after = drop (length host) rest
           in (case after of
                 c # d # _ \<Rightarrow> if host \<noteq> [] \<and> c = CHR '':'' \<and> is_digit d then Some host else None
               | _ \<Rightarrow> None)
      else None)"

fun https_match :: "string \<Rightarrow> string option" where
  "https_match [] = None"
| "https_match (c # s) = (case https_at (c # s) of Some h \<Rightarrow> Some h | None \<Rightarrow> https_match s)"

definition ingressHostFromValue :: "json option \<Rightarrow> string option" where
  "ingressHostFromValue value =
     (case value of
        None \<Rightarrow> None
      | Some v \<Rightarrow>
          if jget v ''mode'' = Some (JStr ''fixed_servers'')
          then Option.bind (single_proxy v) (\<lambda>p. jstring p ''host'')
          else if jget v ''mode'' = Some (JStr ''pac_script'')
          then Option.bind (Option.bind (jget v ''pacScript'') (\<lambda>p. jstring p ''data'')) https_match
          else None)"

text \<open>\<^verbatim>\<open>WarrenExtensionError\<close> of \<^verbatim>\<open>extension/src/client.ts\<close>: its code, and the host's own code when it has one.\<close>

datatype WarrenExtensionErrorCode =
    HostUnavailable | ProtocolError | HostError | AlreadyConnected | NotConnected | ProxyUncontrollable | PrivateBrowsingRequired

datatype ext_error = ExtError WarrenExtensionErrorCode "string option" | ForeignError

record proxy_details =
  pd_value :: "json option"
  pd_levelOfControl :: string

record 'w proxy_settings =
  ps_get :: "'w \<Rightarrow> (unit + proxy_details) \<times> 'w"
  ps_set :: "json \<Rightarrow> 'w \<Rightarrow> (unit + unit) \<times> 'w"
  ps_clear :: "'w \<Rightarrow> (unit + unit) \<times> 'w"

definition CONTROLLED :: string where
  "CONTROLLED = ''controlled_by_this_extension''"

definition controllable :: "string \<Rightarrow> bool" where
  "controllable level \<longleftrightarrow> level = ''controllable_by_this_extension'' \<or> level = CONTROLLED"

definition installChromiumRouting :: "'w proxy_settings \<Rightarrow> chromium_routing \<Rightarrow> 'w \<Rightarrow> (ext_error + unit) \<times> 'w" where
  "installChromiumRouting ps routing w =
     (case ps_get ps w of
        (Inl _, w1) \<Rightarrow> (Inl ForeignError, w1)
      | (Inr before, w1) \<Rightarrow>
          if \<not> controllable (pd_levelOfControl before) then (Inl (ExtError ProxyUncontrollable None), w1)
          else (case ps_set ps (chromiumValueOf routing) w1 of
                  (Inl _, w2) \<Rightarrow> (Inl ForeignError, w2)
                | (Inr _, w2) \<Rightarrow>
                    (case ps_get ps w2 of
                       (Inl _, w3) \<Rightarrow> (Inl ForeignError, w3)
                     | (Inr after, w3) \<Rightarrow>
                         if pd_levelOfControl after \<noteq> CONTROLLED then (Inl (ExtError ProxyUncontrollable None), w3)
                         else (Inr (), w3))))"

record chromium_reading =
  cr_controlled :: bool
  cr_ours :: bool
  cr_lockdown :: bool
  cr_host :: "string option"

definition readChromiumRouting :: "'w proxy_settings \<Rightarrow> string \<Rightarrow> 'w \<Rightarrow> (ext_error + chromium_reading) \<times> 'w" where
  "readChromiumRouting ps expectedHost w =
     (case ps_get ps w of
        (Inl _, w') \<Rightarrow> (Inl ForeignError, w')
      | (Inr details, w') \<Rightarrow>
          (let controlled = (pd_levelOfControl details = CONTROLLED);
               lockdown = (controlled \<and> isLockdownValue (pd_value details));
               host = (if lockdown then None else ingressHostFromValue (pd_value details))
           in (Inr \<lparr>cr_controlled = controlled, cr_ours = (controlled \<and> host = Some expectedHost), cr_lockdown = lockdown,
                    cr_host = (if host = Some [] then None else host)\<rparr>, w')))"

definition clearChromiumRouting :: "'w proxy_settings \<Rightarrow> 'w \<Rightarrow> (unit + unit) \<times> 'w" where
  "clearChromiumRouting ps w = ps_clear ps w"

section \<open>Proxy challenges\<close>

text \<open>
  \<^verbatim>\<open>attachChromiumProxyAuth\<close>: the listener keeps the requests it answered in a set of at most 512, oldest first. A
  challenge is looked up in it at once, its credentials come after two awaited calls, and only then is the request
  remembered; several challenges may be in flight. The sources are the outcomes those calls had.
\<close>

record AuthChallenge =
  ch_isProxy :: bool
  ch_requestId :: "string option"
  ch_challenger :: "(string \<times> int) option"

record ProxyAuthSources =
  so_ingress :: "((unit + RoutingRecord option) \<times> (unit + string option)) option"
  so_local :: "(string \<Rightarrow> ExtensionProxyAuth option) option"

datatype auth_response = NotOurs | Cancel | Credentials ExtensionProxyAuth

definition ANSWERED_MEMORY :: nat where
  "ANSWERED_MEMORY = 512"

definition credentialFor :: "ProxyAuthSources \<Rightarrow> string \<Rightarrow> int \<Rightarrow> unit + ExtensionProxyAuth option" where
  "credentialFor sources host port =
     (if isLoopbackHost host then Inr (Option.bind (so_local sources) (\<lambda>l. l (host @ '':'' @ show_int port)))
      else case so_ingress sources of
        None \<Rightarrow> Inr None
      | Some (Inl _, _) \<Rightarrow> Inl ()
      | Some (Inr record, cred) \<Rightarrow>
          (case record of
             Some (IngressRecord r) \<Rightarrow>
               if toLowerCase (endpoint_host (rt_endpoint r)) \<noteq> toLowerCase host \<or> endpoint_port (rt_endpoint r) \<noteq> JInt port
               then Inr None
               else (case cred of
                       Inl _ \<Rightarrow> Inl ()
                     | Inr c \<Rightarrow> Inr (map_option (\<lambda>p. \<lparr>xa_username = CREDENTIAL_USERNAME, xa_password = p\<rparr>) c))
           | _ \<Rightarrow> Inr None))"

definition remember :: "string \<Rightarrow> string list \<Rightarrow> string list" where
  "remember r answered =
     (let s = (if r \<in> set answered then answered else answered @ [r])
      in if length s > ANSWERED_MEMORY then drop 1 s else s)"

record auth_state =
  au_answered :: "string list"
  au_pending :: "(string \<times> string \<times> int) list"
  au_log :: "(AuthChallenge \<times> ProxyAuthSources option \<times> auth_response) list"

datatype auth_event = AuthRequired AuthChallenge | AuthResolved nat ProxyAuthSources

text \<open>The challenge of an admitted request, rebuilt from what the rest of the answer reads of it.\<close>

definition admitted :: "string \<times> string \<times> int \<Rightarrow> AuthChallenge" where
  "admitted p = \<lparr>ch_isProxy = True, ch_requestId = Some (fst p), ch_challenger = Some (snd p)\<rparr>"

fun auth_step :: "auth_event \<Rightarrow> auth_state \<Rightarrow> auth_state" where
  "auth_step (AuthRequired d) s =
     (if \<not> ch_isProxy d then s\<lparr>au_log := au_log s @ [(d, None, NotOurs)]\<rparr>
      else case (ch_challenger d, ch_requestId d) of
        (Some c, Some r) \<Rightarrow>
          if r \<in> set (au_answered s) then s\<lparr>au_log := au_log s @ [(d, None, Cancel)]\<rparr>
          else s\<lparr>au_pending := au_pending s @ [(r, c)]\<rparr>
      | _ \<Rightarrow> s\<lparr>au_log := au_log s @ [(d, None, Cancel)]\<rparr>)"
| "auth_step (AuthResolved i sources) s =
     (if i < length (au_pending s) then
        (let p = au_pending s ! i; s' = s\<lparr>au_pending := take i (au_pending s) @ drop (Suc i) (au_pending s)\<rparr>
         in (case credentialFor sources (fst (snd p)) (snd (snd p)) of
               Inr (Some auth) \<Rightarrow>
                 s'\<lparr>au_answered := remember (fst p) (au_answered s),
                    au_log := au_log s @ [(admitted p, Some sources, Credentials auth)]\<rparr>
             | _ \<Rightarrow> s'\<lparr>au_log := au_log s @ [(admitted p, Some sources, Cancel)]\<rparr>))
      else s)"

definition auth_run :: "auth_event list \<Rightarrow> auth_state" where
  "auth_run events = fold auth_step events \<lparr>au_answered = [], au_pending = [], au_log = []\<rparr>"

section \<open>Reading a stored record\<close>

lemma some_rule_strings: "all_strings rs = Some rules \<Longrightarrow> some_rule host rs = Inr (list_ex (hostMatchesRule host) rules)"
  by (induction rs arbitrary: rules rule: all_strings.induct) auto

lemma all_strings_map [simp]: "all_strings (map JStr rules) = Some rules"
  by (induction rules) auto

text \<open>A record the validation accepts is loaded as it was saved, and nothing after a clear.\<close>

fun record_ok :: "RoutingRecord \<Rightarrow> bool" where
  "record_ok (IngressRecord r) \<longleftrightarrow> is_number (endpoint_port (rt_endpoint r)) \<and> stored_mode (rt_split r) \<noteq> None \<and> rt_hops r \<in> {1, 2}"
| "record_ok (LockdownRecord k) \<longleftrightarrow> is_number (lk_installedAt k)"
| "record_ok (MultihopRecord m) \<longleftrightarrow> host_port_text (mh_socks5 m) \<and> isSplit (Some (mh_split m)) \<and> is_number (mh_installedAt m)"

lemma as_stored_endpoint: "is_number (endpoint_port e) \<Longrightarrow> as_endpoint (stored_endpoint e) = Some e"
  by (cases e) (simp_all add: as_endpoint_def jstring_def)

lemma routing_roundtrip:
  assumes "record_ok stored"
  shows "routing_load (Inr (routing_save stored area)) = Inr (Some stored)"
proof (cases stored)
  case (IngressRecord r)
  with assms show ?thesis
    by (cases "rt_installedAt r"; cases "stored_mode (rt_split r)")
      (auto simp: routing_load_def routing_save_def asRoutingRecord_def asIngressState_def jstring_def jinteger_def as_stored_endpoint)
next
  case (LockdownRecord k)
  with assms show ?thesis
    by (simp add: routing_load_def routing_save_def asRoutingRecord_def asLockdownState_def jarray_def)
next
  case (MultihopRecord m)
  with assms show ?thesis
    by (simp add: routing_load_def routing_save_def asRoutingRecord_def asMultihopState_def jstring_def)
qed

lemma routing_cleared: "routing_load (Inr (routing_clear area)) = Inr None"
  by (simp add: routing_load_def routing_clear_def asRoutingRecord_def)

definition mode_name :: "SplitTunnelMode \<Rightarrow> string" where
  "mode_name m = (case m of ModeAll \<Rightarrow> ''all'' | ModeBypass \<Rightarrow> ''bypass'' | ModeOnly \<Rightarrow> ''only'')"

text \<open>A typed configuration as it is stored: there the matcher is the typed one and never throws.\<close>

definition split_json :: "SplitTunnelConfig \<Rightarrow> json" where
  "split_json c = JObj ([(''mode'', JStr (mode_name (sp_mode c))), (''rules'', JArr (map JStr (sp_rules c)))]
     @ opt_prop ''tabs'' (\<lambda>ts. JArr (map JInt ts)) (sp_tabs c))"

lemma split_json_simps [simp]:
  "stored_mode (split_json c) = Some (sp_mode c)"
  "jarray (split_json c) ''rules'' = Some (map JStr (sp_rules c))"
  "jget (split_json c) ''tabs'' = map_option (\<lambda>ts. JArr (map JInt ts)) (sp_tabs c)"
  by (cases "sp_tabs c"; cases "sp_mode c";
      simp add: split_json_def stored_mode_def mode_name_def jarray_def opt_prop_def)+

lemma stored_tunnels_typed: "stored_tunnels_request host tabId (split_json c) = Inr (shouldTunnelRequest host tabId c)"
proof -
  have "stored_tunnels_host host (split_json c) = Inr (shouldTunnelHost host c)"
    by (simp add: stored_tunnels_host_def shouldTunnelHost_def some_rule_strings Let_def split: SplitTunnelMode.split)
  then show ?thesis
    by (cases "sp_tabs c")
      (auto simp: stored_tunnels_request_def shouldTunnelRequest_def tabs_include_def split: option.split)
qed

section \<open>Firefox never goes direct by accident\<close>

lemma ingress_leg: "x \<in> set (firefoxProxyInfoFor e c) \<Longrightarrow>
    fx_type x \<in> {PtHttps, PtMasque} \<and> fx_host x = Some (endpoint_host e) \<and> fx_port x = Some (endpoint_port e) \<and>
    fx_username x = None \<and> fx_password x = None"
  by (cases e) (auto simp: proxy_info_def)

lemma socks_leg: "fx_type (with_auth auth (socksProxyInfo num s)) = PtSocks"
  by (simp add: with_auth_def socksProxyInfo_def proxy_info_def split: prod.split)

lemma routed_direct: "route_tunneled num cred local state \<noteq> direct"
  using socks_leg by (auto simp: route_tunneled_def split: RoutingRecord.split option.split sum.split)
    (metis FirefoxProxyInfo.select_convs(1) ProxyType.distinct(11) proxy_info_def)

definition direct_allowed :: "(string \<Rightarrow> string option) \<Rightarrow> RoutingRecord \<Rightarrow> string \<Rightarrow> int option \<Rightarrow> bool" where
  "direct_allowed hostname state url tabId =
     (case hostname url of
        None \<Rightarrow> False
      | Some host \<Rightarrow>
          (case state of
             LockdownRecord k \<Rightarrow> \<exists>h \<in> set (lk_exempt k). toLowerCase h = toLowerCase host
           | _ \<Rightarrow> stored_tunnels_request (toLowerCase host) tabId (the (record_split state)) = Inr False))"

lemma firefox_answers:
  "firefox_onRequest hostname num load cred local url tabId = direct \<longleftrightarrow>
     isLoopbackUrl hostname url \<or> load = Inr None \<or> (\<exists>state. load = Inr (Some state) \<and> direct_allowed hostname state url tabId)"
  "\<not> isLoopbackUrl hostname url \<Longrightarrow> firefox_onRequest hostname num (Inl ()) cred local url tabId = ProxyList FAIL_CLOSED_PROXY"
  "firefox_onRequest hostname num load cred local url tabId = ProxyList ps \<Longrightarrow>
     ps = FAIL_CLOSED_PROXY \<or>
     (\<exists>r c. load = Inr (Some (IngressRecord r)) \<and> cred = Inr c \<and> ps = firefoxProxyInfoFor (rt_endpoint r) c \<and>
        (\<forall>x \<in> set ps. fx_type x \<in> {PtHttps, PtMasque} \<and> fx_host x = Some (endpoint_host (rt_endpoint r)) \<and>
           fx_port x = Some (endpoint_port (rt_endpoint r)) \<and> fx_username x = None \<and> fx_password x = None))"
  "firefox_onRequest hostname num load cred local url tabId = OneProxy x \<Longrightarrow> x \<noteq> proxy_info PtDirect \<Longrightarrow>
     \<exists>m l auth. load = Inr (Some (MultihopRecord m)) \<and> local = Some l \<and> l (mh_socks5 m) = Some auth \<and>
       x = with_auth auth (socksProxyInfo num (mh_socks5 m))"
  "\<not> isLoopbackUrl hostname url \<Longrightarrow>
     firefox_onRequest hostname num (routing_load (Inr (Some (JObj [(''tier'', JStr ''lockdown'')])))) cred local url tabId = direct"
proof -
  let ?run = "firefox_onRequest hostname num load cred local url tabId"
  show "?run = direct \<longleftrightarrow> isLoopbackUrl hostname url \<or> load = Inr None \<or>
      (\<exists>state. load = Inr (Some state) \<and> direct_allowed hostname state url tabId)"
    using routed_direct
    by (auto simp: firefox_onRequest_def direct_allowed_def list_ex_iff
        split: sum.split option.split RoutingRecord.split bool.split)
  show "ps = FAIL_CLOSED_PROXY \<or>
     (\<exists>r c. load = Inr (Some (IngressRecord r)) \<and> cred = Inr c \<and> ps = firefoxProxyInfoFor (rt_endpoint r) c \<and>
        (\<forall>x \<in> set ps. fx_type x \<in> {PtHttps, PtMasque} \<and> fx_host x = Some (endpoint_host (rt_endpoint r)) \<and>
           fx_port x = Some (endpoint_port (rt_endpoint r)) \<and> fx_username x = None \<and> fx_password x = None))"
    if "?run = ProxyList ps"
    using that ingress_leg
    by (fastforce simp: firefox_onRequest_def route_tunneled_def
        split: if_splits sum.splits option.splits RoutingRecord.splits bool.splits)
  show "\<exists>m l auth. load = Inr (Some (MultihopRecord m)) \<and> local = Some l \<and> l (mh_socks5 m) = Some auth \<and>
       x = with_auth auth (socksProxyInfo num (mh_socks5 m))"
    if "?run = OneProxy x" "x \<noteq> proxy_info PtDirect"
    using that
    by (auto simp: firefox_onRequest_def route_tunneled_def bind_eq_Some_conv
        split: if_splits sum.splits option.splits RoutingRecord.splits bool.splits)
qed (simp_all add: firefox_onRequest_def routing_load_def asRoutingRecord_def asLockdownState_def jarray_def)

text \<open>
  C14. What the Firefox listener answers. A request goes direct exactly when it addresses this machine, no routing is
  recorded, or the record exempts it: an exempt host of a lockdown, a host the split keeps out of the tunnel. A store
  that cannot be read fails closed. Every proxy of another answer is the loopback block, the ingress the record names,
  with the current credential, or the recorded listener with the credentials the live session holds for it. A record
  the validation refuses reads as no routing at all, so the request then goes direct.
\<close>

theorem firefox_fails_closed:
  fixes hostname num cred local url tabId
  defines "run \<equiv> \<lambda>load. firefox_onRequest hostname num load cred local url tabId"
  shows "(run load = direct \<longleftrightarrow>
      isLoopbackUrl hostname url \<or> load = Inr None \<or> (\<exists>state. load = Inr (Some state) \<and> direct_allowed hostname state url tabId)) \<and>
    (\<not> isLoopbackUrl hostname url \<longrightarrow> run (Inl ()) = ProxyList FAIL_CLOSED_PROXY \<and>
       run (routing_load (Inr (Some (JObj [(''tier'', JStr ''lockdown'')])))) = direct) \<and>
    (\<forall>ps. run load = ProxyList ps \<longrightarrow> ps = FAIL_CLOSED_PROXY \<or>
       (\<exists>r c. load = Inr (Some (IngressRecord r)) \<and> cred = Inr c \<and> ps = firefoxProxyInfoFor (rt_endpoint r) c \<and>
          (\<forall>x \<in> set ps. fx_type x \<in> {PtHttps, PtMasque} \<and> fx_host x = Some (endpoint_host (rt_endpoint r)) \<and>
             fx_port x = Some (endpoint_port (rt_endpoint r)) \<and> fx_username x = None \<and> fx_password x = None))) \<and>
    (\<forall>x. run load = OneProxy x \<longrightarrow> x \<noteq> proxy_info PtDirect \<longrightarrow>
       (\<exists>m l auth. load = Inr (Some (MultihopRecord m)) \<and> local = Some l \<and> l (mh_socks5 m) = Some auth \<and>
          x = with_auth auth (socksProxyInfo num (mh_socks5 m))))"
  unfolding run_def by (intro conjI allI impI firefox_answers)

theorem firefox_fails_closed_witness:
  "firefox_onRequest (\<lambda>u. Some u) (\<lambda>t. JInt (int (read_nat t))) (Inl ()) (Inr None) None ''example.com'' None = ProxyList FAIL_CLOSED_PROXY"
proof -
  have "\<not> isLoopbackUrl (\<lambda>u. Some u) ''example.com''" by code_simp
  then show ?thesis
    using firefox_fails_closed [of "\<lambda>u. Some u" "\<lambda>t. JInt (int (read_nat t))" "Inl ()" "Inr None" None "''example.com''" None] by blast
qed

section \<open>Chromium reads back what it was given\<close>

lemma https_match_skip: "CHR ''H'' \<notin> set s \<Longrightarrow> https_match (s @ t) = https_match t"
  by (induction s) (auto simp: https_at_def startsWith_def)

lemma https_match_here:
  assumes "host \<noteq> []" "list_all host_char host"
  shows "https_match (''HTTPS '' @ host @ '':'' @ show_nat n @ t) = Some host"
proof -
  have "takeWhile host_char (host @ CHR '':'' # u) = host" for u
    using assms(2) by (simp add: takeWhile_append2 list_all_iff host_char_def)
  moreover obtain d u where "show_nat n = d # u" "is_digit d"
    using show_nat_digits [of n] by (cases "show_nat n") auto
  ultimately have "https_at (''HTTPS '' @ host @ '':'' @ show_nat n @ t) = Some host"
    using assms(1) by (simp add: https_at_def startsWith_def Let_def)
  then show ?thesis by simp
qed

lemma hex_digit_no_H: "d < 16 \<Longrightarrow> hex_digit d \<noteq> CHR ''H''"
proof
  assume "d < 16" "hex_digit d = CHR ''H''"
  then have "hex_value (CHR ''H'') = Some d" by (metis hex_value_digit)
  then show False by (simp add: hex_value_def)
qed

lemma escape_no_H:
  assumes "c \<noteq> CHR ''H''"
  shows "CHR ''H'' \<notin> set (json_escape c)"
proof -
  define n where "n = (of_char c :: nat)"
  have "n div 16 < 16" "n mod 16 < 16" by (simp_all add: n_def less_mult_imp_div_less)
  note hex = this [THEN hex_digit_no_H]
  show ?thesis
    using assms hex hex [symmetric] unfolding json_escape_def Let_def n_def [symmetric] by (simp del: of_char_eq_iff)
qed

lemma lower_no_H: "CHR ''H'' \<notin> set (toLowerCase r)"
proof
  assume "CHR ''H'' \<in> set (toLowerCase r)"
  then obtain c where "lower_char c = CHR ''H''" by (auto simp: toLowerCase_def)
  then have "(of_char (lower_char c) :: nat) = 72" by simp
  then show False
    by (cases "65 \<le> (of_char c :: nat) \<and> (of_char c :: nat) \<le> 90") (auto simp: lower_char_def Let_def split: if_splits)
qed

lemma set_join: "set (join sep xs) \<subseteq> set sep \<union> \<Union> (set ` set xs)"
  by (induction sep xs rule: join.induct) auto

lemma rules_no_H: "CHR ''H'' \<notin> set (stringify (JArr (map (\<lambda>r. JStr (toLowerCase r)) rules)))"
proof -
  have "CHR ''H'' \<notin> set (json_quote (toLowerCase r))" for r
  proof -
    have "\<forall>c \<in> set (toLowerCase r). CHR ''H'' \<notin> set (json_escape c)"
      using lower_no_H [of r] escape_no_H by metis
    then show ?thesis by (auto simp: json_quote_def)
  qed
  then have "CHR ''H'' \<notin> set (join '','' (map stringify (map (\<lambda>r. JStr (toLowerCase r)) rules)))"
    using set_join by fastforce
  then show ?thesis by simp
qed

lemma pac_names_ingress:
  assumes "host \<noteq> []" "list_all host_char host" "0 \<le> n"
  shows "https_match (buildIngressPac host (JInt n) config) = Some host"
proof -
  have lit: "CHR ''H'' \<notin> set pac_head" "CHR ''H'' \<notin> set pac_loop" "CHR ''H'' \<notin> set NL"
    by (simp_all add: pac_head_def pac_loop_def NL_def)
  have "\<exists>pre post. buildIngressPac host (JInt n) config = pre @ ''HTTPS '' @ host @ '':'' @ show_nat (nat n) @ post \<and> CHR ''H'' \<notin> set pre"
    using lit rules_no_H [of "sp_rules config"] assms(3)
    by (intro exI [of _ "pac_head @ stringify (JArr (map (\<lambda>r. JStr (toLowerCase r)) (sp_rules config))) @ pac_loop
          @ (if sp_mode config = ModeOnly then ''matched'' else ''!matched'') @ '';'' @ NL @ ''  return tunnel ? '' @ [CHR 0x27]"]
        exI [of _ "[CHR 0x27] @ '' : 'DIRECT';'' @ NL @ ''}''"])
      (simp add: buildIngressPac_def pac_script_def show_int_def)
  then show ?thesis using https_match_skip https_match_here [OF assms(1,2)] by metis
qed

lemma lockdown_value: "isLockdownValue (Some (buildChromiumLockdownValue exempt))"
  by (simp add: isLockdownValue_def buildChromiumLockdownValue_def fixed_servers_def single_proxy_def LOCKDOWN_PROXY_def)

lemma ingress_value:
  assumes "endpoint_host e \<noteq> []" "list_all host_char (endpoint_host e)" "endpoint_port e = JInt n" "0 \<le> n"
    "endpoint_host e \<noteq> ''127.0.0.1'' \<or> n \<noteq> 1"
  shows "ingressHostFromValue (Some (buildChromiumIngressValue e c)) = Some (endpoint_host e)"
    and "\<not> isLockdownValue (Some (buildChromiumIngressValue e c))"
  using pac_names_ingress [OF assms(1,2,4)] assms(3,5)
  by (auto simp: buildChromiumIngressValue_def ingressHostFromValue_def isLockdownValue_def fixed_servers_def pac_value_def
      single_proxy_def jstring_def)

lemma install_done:
  assumes "installChromiumRouting ps routing w = (Inr (), w')" and "\<And>w. snd (ps_get ps w) = w"
  obtains d where "ps_set ps (chromiumValueOf routing) w = (Inr (), w')" "ps_get ps w' = (Inr d, w')" "pd_levelOfControl d = CONTROLLED"
  using assms(1) assms(2) [of w] assms(2) [of w']
  by (auto simp: installChromiumRouting_def prod_eq_iff split: prod.splits sum.splits if_splits)
    (metis assms(2) snd_conv)+

text \<open>What the settings API documents: reading changes nothing, and an extension in control reads the value it set.\<close>

definition keeps_settings :: "'w proxy_settings \<Rightarrow> bool" where
  "keeps_settings ps \<longleftrightarrow> (\<forall>w. snd (ps_get ps w) = w) \<and>
     (\<forall>v w w' d. ps_set ps v w = (Inr (), w') \<and> ps_get ps w' = (Inr d, w') \<and> pd_levelOfControl d = CONTROLLED \<longrightarrow> pd_value d = Some v)"

lemma chromium_reads_back:
  assumes kept: "keeps_settings ps"
  shows "installChromiumRouting ps (ChromiumLockdown exempt) w = (Inr (), w') \<Longrightarrow>
      readChromiumRouting ps expected w' =
        (Inr \<lparr>cr_controlled = True, cr_ours = False, cr_lockdown = True, cr_host = None\<rparr>, w')"
    and "installChromiumRouting ps (ChromiumIngress e c) w = (Inr (), w') \<Longrightarrow>
      endpoint_host e \<noteq> [] \<Longrightarrow> list_all host_char (endpoint_host e) \<Longrightarrow> endpoint_port e = JInt n \<Longrightarrow> 0 \<le> n \<Longrightarrow>
      endpoint_host e \<noteq> ''127.0.0.1'' \<or> n \<noteq> 1 \<Longrightarrow>
      readChromiumRouting ps expected w' =
        (Inr \<lparr>cr_controlled = True, cr_ours = (expected = endpoint_host e), cr_lockdown = False, cr_host = Some (endpoint_host e)\<rparr>, w')"
    and "ps_get ps w = (Inr d, w) \<Longrightarrow> \<not> controllable (pd_levelOfControl d) \<Longrightarrow>
      installChromiumRouting ps routing w = (Inl (ExtError ProxyUncontrollable None), w)"
proof -
  have get: "\<And>w. snd (ps_get ps w) = w"
    and held: "\<And>v w w' d. ps_set ps v w = (Inr (), w') \<Longrightarrow> ps_get ps w' = (Inr d, w') \<Longrightarrow>
                 pd_levelOfControl d = CONTROLLED \<Longrightarrow> pd_value d = Some v"
    using kept unfolding keeps_settings_def by blast+
  show "readChromiumRouting ps expected w' =
        (Inr \<lparr>cr_controlled = True, cr_ours = False, cr_lockdown = True, cr_host = None\<rparr>, w')"
    if "installChromiumRouting ps (ChromiumLockdown exempt) w = (Inr (), w')"
    using that by (elim install_done [OF _ get])
      (auto simp: readChromiumRouting_def lockdown_value dest!: held)
  show "readChromiumRouting ps expected w' =
        (Inr \<lparr>cr_controlled = True, cr_ours = (expected = endpoint_host e), cr_lockdown = False, cr_host = Some (endpoint_host e)\<rparr>, w')"
    if "installChromiumRouting ps (ChromiumIngress e c) w = (Inr (), w')" "endpoint_host e \<noteq> []"
      "list_all host_char (endpoint_host e)" "endpoint_port e = JInt n" "0 \<le> n" "endpoint_host e \<noteq> ''127.0.0.1'' \<or> n \<noteq> 1"
    using that(1) ingress_value [OF that(2-), of c] that(2)
    by (elim install_done [OF _ get]) (auto simp: readChromiumRouting_def Let_def dest!: held)
qed (simp add: installChromiumRouting_def)

text \<open>
  On a browser whose settings answer the value that was set while this extension controls them, an installed routing
  is read back for what it is. A lockdown reads as a lockdown and nobody's ingress; an ingress, set as a fixed proxy or
  inside the PAC script, reads as ours exactly under its own host name, whatever the rules of the split are. When the
  settings are controlled elsewhere, installing refuses and sets nothing.
\<close>

theorem chromium_routing_reads_back:
  assumes "keeps_settings ps"
  shows "(\<forall>exempt w w'. installChromiumRouting ps (ChromiumLockdown exempt) w = (Inr (), w') \<longrightarrow>
      readChromiumRouting ps expected w' =
        (Inr \<lparr>cr_controlled = True, cr_ours = False, cr_lockdown = True, cr_host = None\<rparr>, w')) \<and>
    (\<forall>e c n w w'. installChromiumRouting ps (ChromiumIngress e c) w = (Inr (), w') \<and>
      endpoint_host e \<noteq> [] \<and> list_all host_char (endpoint_host e) \<and> endpoint_port e = JInt n \<and> 0 \<le> n \<and>
      (endpoint_host e \<noteq> ''127.0.0.1'' \<or> n \<noteq> 1) \<longrightarrow>
      readChromiumRouting ps expected w' =
        (Inr \<lparr>cr_controlled = True, cr_ours = (expected = endpoint_host e), cr_lockdown = False, cr_host = Some (endpoint_host e)\<rparr>, w')) \<and>
    (\<forall>routing w d. ps_get ps w = (Inr d, w) \<and> \<not> controllable (pd_levelOfControl d) \<longrightarrow>
      installChromiumRouting ps routing w = (Inl (ExtError ProxyUncontrollable None), w))"
  using chromium_reads_back [OF assms] by blast

text \<open>A browser no other extension competes for, over the value it holds.\<close>

definition sample_settings :: "json option proxy_settings" where
  "sample_settings =
     \<lparr>ps_get = (\<lambda>w. (Inr \<lparr>pd_value = w, pd_levelOfControl = (if w = None then ''controllable_by_this_extension'' else CONTROLLED)\<rparr>, w)),
      ps_set = (\<lambda>v w. (Inr (), Some v)), ps_clear = (\<lambda>w. (Inr (), None))\<rparr>"

theorem chromium_routing_reads_back_witness:
  "readChromiumRouting sample_settings ''ingress.example''
     (Some (buildChromiumIngressValue (HttpsIngress ''ingress.example'' (JInt 443))
        \<lparr>sp_mode = ModeOnly, sp_rules = [''HTTPS evil:1''], sp_tabs = None\<rparr>)) =
   (Inr \<lparr>cr_controlled = True, cr_ours = True, cr_lockdown = False, cr_host = Some ''ingress.example''\<rparr>,
    Some (buildChromiumIngressValue (HttpsIngress ''ingress.example'' (JInt 443))
        \<lparr>sp_mode = ModeOnly, sp_rules = [''HTTPS evil:1''], sp_tabs = None\<rparr>))"
proof -
  let ?e = "HttpsIngress ''ingress.example'' (JInt 443)"
  let ?c = "\<lparr>sp_mode = ModeOnly, sp_rules = [''HTTPS evil:1''], sp_tabs = None\<rparr> :: SplitTunnelConfig"
  have kept: "keeps_settings sample_settings" by (auto simp: keeps_settings_def sample_settings_def)
  have "installChromiumRouting sample_settings (ChromiumIngress ?e ?c) None = (Inr (), Some (buildChromiumIngressValue ?e ?c))"
    by (simp add: installChromiumRouting_def sample_settings_def controllable_def)
  moreover have "list_all host_char (endpoint_host ?e)" by code_simp
  ultimately show ?thesis
    using chromium_routing_reads_back [OF kept, of "''ingress.example''"] by fastforce
qed

section \<open>A credential goes to its own proxy\<close>

definition justified :: "AuthChallenge \<Rightarrow> ProxyAuthSources option \<Rightarrow> auth_response \<Rightarrow> bool" where
  "justified d sources resp =
     (case resp of
        NotOurs \<Rightarrow> \<not> ch_isProxy d
      | Cancel \<Rightarrow> ch_isProxy d
      | Credentials auth \<Rightarrow>
          ch_isProxy d \<and>
          (case (ch_challenger d, sources) of
             (Some (host, port), Some so) \<Rightarrow>
               if isLoopbackHost host
               then Option.bind (so_local so) (\<lambda>l. l (host @ '':'' @ show_int port)) = Some auth
               else (\<exists>r c. so_ingress so = Some (Inr (Some (IngressRecord r)), Inr (Some c)) \<and>
                       toLowerCase (endpoint_host (rt_endpoint r)) = toLowerCase host \<and>
                       endpoint_port (rt_endpoint r) = JInt port \<and>
                       auth = \<lparr>xa_username = CREDENTIAL_USERNAME, xa_password = c\<rparr>)
           | _ \<Rightarrow> False))"

lemma justified_simps [simp]: "justified d so NotOurs = (\<not> ch_isProxy d)" "justified d so Cancel = ch_isProxy d"
  by (simp_all add: justified_def)

lemma credentialFor_own:
  "credentialFor so host port = Inr (Some auth) \<Longrightarrow> justified (admitted (r, host, port)) (Some so) (Credentials auth)"
  by (auto simp: credentialFor_def justified_def admitted_def
      split: if_splits option.splits sum.splits prod.splits RoutingRecord.splits)

definition auth_wf :: "auth_state \<Rightarrow> bool" where
  "auth_wf s \<longleftrightarrow> distinct (au_answered s) \<and> length (au_answered s) \<le> ANSWERED_MEMORY \<and>
     (\<forall>(d, so, resp) \<in> set (au_log s). justified d so resp)"

lemma remember_wf:
  "distinct xs \<Longrightarrow> length xs \<le> ANSWERED_MEMORY \<Longrightarrow> distinct (remember r xs) \<and> length (remember r xs) \<le> ANSWERED_MEMORY"
  by (auto simp: remember_def Let_def distinct_tl drop_Suc)

lemma auth_step_wf: "auth_wf s \<Longrightarrow> auth_wf (auth_step e s)"
proof (cases e)
  case (AuthRequired d)
  then show "auth_wf s \<Longrightarrow> ?thesis" by (auto simp: auth_wf_def split: option.split)
next
  case (AuthResolved i so)
  assume wf: "auth_wf s"
  obtain r host port where p: "au_pending s ! i = (r, host, port)" by (metis prod_cases3)
  have cancel: "justified (admitted (r, host, port)) (Some so) Cancel" by (simp add: justified_def admitted_def)
  show ?thesis
    using wf remember_wf credentialFor_own [of so host port _ r] cancel
    by (auto simp: AuthResolved auth_wf_def p Let_def split: sum.split option.split)
qed

text \<open>The requests given credentials, in order, and a challenge served with no other in flight.\<close>

definition given :: "auth_state \<Rightarrow> string option list" where
  "given s = map (\<lambda>(d, so, resp). ch_requestId d) (filter (\<lambda>(d, so, resp). case resp of Credentials a \<Rightarrow> True | _ \<Rightarrow> False) (au_log s))"

definition served :: "ProxyAuthSources \<times> AuthChallenge \<Rightarrow> auth_event list" where
  "served c = [AuthRequired (snd c), AuthResolved 0 (fst c)]"

lemma auth_run_wf: "auth_wf (auth_run events)"
proof -
  have "auth_wf (fold auth_step events s)" if "auth_wf s" for s
    using that by (induction events arbitrary: s) (simp_all add: auth_step_wf)
  moreover have "auth_wf \<lparr>au_answered = [], au_pending = [], au_log = []\<rparr>" by (simp add: auth_wf_def)
  ultimately show ?thesis by (simp add: auth_run_def)
qed

lemma serve_once:
  assumes "au_pending s = []" "given s = map Some (au_answered s)" "length (au_answered s) < ANSWERED_MEMORY"
  shows "au_pending (fold auth_step (served c) s) = []"
    and "given (fold auth_step (served c) s) = map Some (au_answered (fold auth_step (served c) s))"
    and "length (au_answered (fold auth_step (served c) s)) \<le> Suc (length (au_answered s))"
proof -
  have "au_pending (fold auth_step (served c) s) = [] \<and>
      given (fold auth_step (served c) s) = map Some (au_answered (fold auth_step (served c) s)) \<and>
      length (au_answered (fold auth_step (served c) s)) \<le> Suc (length (au_answered s))"
    using assms by (auto simp: served_def given_def remember_def admitted_def Let_def split: option.split sum.split)
  then show "au_pending (fold auth_step (served c) s) = []"
    "given (fold auth_step (served c) s) = map Some (au_answered (fold auth_step (served c) s))"
    "length (au_answered (fold auth_step (served c) s)) \<le> Suc (length (au_answered s))" by simp_all
qed

lemma serve_many:
  assumes "au_pending s = []" "given s = map Some (au_answered s)" "length (au_answered s) + length cs \<le> ANSWERED_MEMORY"
  shows "given (fold auth_step (concat (map served cs)) s) = map Some (au_answered (fold auth_step (concat (map served cs)) s))"
  using assms
proof (induction cs arbitrary: s)
  case (Cons c cs)
  then have "length (au_answered s) < ANSWERED_MEMORY" by simp
  with Cons show ?case using serve_once [of s c] by simp
qed simp

lemma proxy_credentials:
  "(d, sources, resp) \<in> set (au_log (auth_run events)) \<Longrightarrow> justified d sources resp"
  "distinct (au_answered (auth_run events)) \<and> length (au_answered (auth_run events)) \<le> 512"
  "length challenges \<le> 512 \<Longrightarrow> distinct (given (auth_run (concat (map served challenges))))"
proof -
  show "justified d sources resp" if "(d, sources, resp) \<in> set (au_log (auth_run events))"
    using auth_run_wf [of events] that by (auto simp: auth_wf_def)
  show wf: "distinct (au_answered (auth_run events)) \<and> length (au_answered (auth_run events)) \<le> 512" for events
    using auth_run_wf [of events] by (simp add: auth_wf_def ANSWERED_MEMORY_def)
  show "distinct (given (auth_run (concat (map served challenges))))" if "length challenges \<le> 512"
    using serve_many [of "\<lparr>au_answered = [], au_pending = [], au_log = []\<rparr>" challenges] that
      wf [of "concat (map served challenges)"]
    by (simp add: auth_run_def given_def ANSWERED_MEMORY_def distinct_map)
qed

text \<open>While no more than the memory holds were answered, every request given credentials is remembered.\<close>

lemma given_simps [simp]:
  "given (s\<lparr>au_log := au_log s @ [(d, so, resp)]\<rparr>) = given s @ (case resp of Credentials a \<Rightarrow> [ch_requestId d] | _ \<Rightarrow> [])"
  "given (s\<lparr>au_pending := p, au_log := au_log s @ [(d, so, resp)]\<rparr>) = given s @ (case resp of Credentials a \<Rightarrow> [ch_requestId d] | _ \<Rightarrow> [])"
  "given (s\<lparr>au_pending := p, au_answered := q, au_log := au_log s @ [(d, so, resp)]\<rparr>) =
     given s @ (case resp of Credentials a \<Rightarrow> [ch_requestId d] | _ \<Rightarrow> [])"
  "given (s\<lparr>au_pending := p\<rparr>) = given s"
  by (simp_all add: given_def split: auth_response.split)

lemma auth_step_remembers:
  assumes "length (au_answered s) \<le> length (given s)"
    and "length (given s) \<le> ANSWERED_MEMORY \<longrightarrow> set (given s) = Some ` set (au_answered s)"
  shows "length (au_answered (auth_step e s)) \<le> length (given (auth_step e s)) \<and>
    (length (given (auth_step e s)) \<le> ANSWERED_MEMORY \<longrightarrow> set (given (auth_step e s)) = Some ` set (au_answered (auth_step e s)))"
proof (cases e)
  case (AuthRequired d)
  then show ?thesis using assms by (simp split: option.split)
next
  case (AuthResolved i so)
  obtain r host port where p: "au_pending s ! i = (r, host, port)" by (metis prod_cases3)
  show ?thesis
    using assms
    by (cases "credentialFor so host port"; cases "i < length (au_pending s)")
      (auto simp: AuthResolved p Let_def remember_def admitted_def split: option.split)
qed

lemma auth_run_remembers:
  assumes "length (given (auth_run events)) \<le> 512"
  shows "set (given (auth_run events)) = Some ` set (au_answered (auth_run events))"
proof -
  let ?inv = "\<lambda>s. length (au_answered s) \<le> length (given s) \<and>
    (length (given s) \<le> ANSWERED_MEMORY \<longrightarrow> set (given s) = Some ` set (au_answered s))"
  have "?inv (fold auth_step events s)" if "?inv s" for s
    using that by (induction events arbitrary: s) (simp_all del: auth_step.simps add: auth_step_remembers)
  from this [of "\<lparr>au_answered = [], au_pending = [], au_log = []\<rparr>"] assms show ?thesis
    by (simp add: auth_run_def given_def ANSWERED_MEMORY_def)
qed

text \<open>
  C31. The answers to proxy challenges. Over any sequence of challenges and any interleaving of their awaited calls, a site's
  own challenge is left alone, and a proxy gets credentials only when they are its own: a loopback listener those the live
  session holds for that very address, another proxy the current ingress credential, and only when it is the host and
  port the routing record names. At most 512 answered requests are remembered; until more were answered, a challenge that
  arrives for a request already given credentials, whatever is in flight, is cancelled at once, so at most 512 challenges
  served one at a time give no request credentials twice. Two challenges of one request that are in flight together are
  not caught: both are given the credentials.
\<close>

theorem proxy_credentials_own_proxy:
  "(\<forall>d sources resp. (d, sources, resp) \<in> set (au_log (auth_run events)) \<longrightarrow> justified d sources resp) \<and>
   distinct (au_answered (auth_run events)) \<and> length (au_answered (auth_run events)) \<le> 512 \<and>
   (\<forall>challenges. length challenges \<le> 512 \<longrightarrow> distinct (given (auth_run (concat (map served challenges))))) \<and>
   (\<forall>d. length (given (auth_run events)) \<le> 512 \<and> ch_isProxy d \<and> ch_requestId d \<in> set (given (auth_run events)) \<longrightarrow>
      auth_run (events @ [AuthRequired d]) = (auth_run events)\<lparr>au_log := au_log (auth_run events) @ [(d, None, Cancel)]\<rparr>) \<and>
   (\<forall>host port r sources auth. credentialFor sources host port = Inr (Some auth) \<longrightarrow>
      (let d = \<lparr>ch_isProxy = True, ch_requestId = Some r, ch_challenger = Some (host, port)\<rparr>
       in given (auth_run [AuthRequired d, AuthRequired d, AuthResolved 0 sources, AuthResolved 0 sources]) = [Some r, Some r]))"
proof (intro conjI allI impI)
  fix d :: AuthChallenge
  assume a: "length (given (auth_run events)) \<le> 512 \<and> ch_isProxy d \<and> ch_requestId d \<in> set (given (auth_run events))"
  then obtain r where "ch_requestId d = Some r" "r \<in> set (au_answered (auth_run events))" using auth_run_remembers by fastforce
  then show "auth_run (events @ [AuthRequired d]) = (auth_run events)\<lparr>au_log := au_log (auth_run events) @ [(d, None, Cancel)]\<rparr>"
    using a by (simp add: auth_run_def split: option.split)
next
  fix host port r sources auth
  assume "credentialFor sources host port = Inr (Some auth)"
  then show "let d = \<lparr>ch_isProxy = True, ch_requestId = Some r, ch_challenger = Some (host, port)\<rparr>
      in given (auth_run [AuthRequired d, AuthRequired d, AuthResolved 0 sources, AuthResolved 0 sources]) = [Some r, Some r]"
    by (simp add: auth_run_def given_def admitted_def)
qed (use proxy_credentials in \<open>blast+\<close>)

definition sample_challenge :: "ProxyAuthSources \<times> AuthChallenge" where
  "sample_challenge =
     (\<lparr>so_ingress = None, so_local = Some (\<lambda>a. if a = ''127.0.0.1:8118'' then Some \<lparr>xa_username = ''u'', xa_password = ''p''\<rparr> else None)\<rparr>,
      \<lparr>ch_isProxy = True, ch_requestId = Some ''r1'', ch_challenger = Some (''127.0.0.1'', 8118)\<rparr>)"

theorem proxy_credentials_own_proxy_witness:
  "given (auth_run (concat (map served [sample_challenge, sample_challenge]))) = [Some ''r1''] \<and>
   distinct (given (auth_run (concat (map served [sample_challenge, sample_challenge]))))"
proof -
  have "isLoopbackHost ''127.0.0.1''" "show_int 8118 = ''8118''"
    by (code_simp, simp add: show_int_def show_nat.simps digit_char_def char_of_def bit_0)
  then have "given (auth_run (concat (map served [sample_challenge, sample_challenge]))) = [Some ''r1'']"
    by (simp add: auth_run_def served_def sample_challenge_def given_def credentialFor_def remember_def admitted_def ANSWERED_MEMORY_def)
  moreover have "distinct (given (auth_run (concat (map served [sample_challenge, sample_challenge]))))"
    by (rule proxy_credentials_own_proxy [THEN conjunct2, THEN conjunct2, THEN conjunct2, THEN conjunct1, rule_format]) simp
  ultimately show ?thesis by blast
qed

end
