(* ===== verification/Phase.thy ===== *)
theory Phase
  imports Warren_Prelude
begin

text \<open>
  The connection phase every client shows (\<^verbatim>\<open>core/src/phase.ts\<close>) and the browser extension's bridge to it
  (\<^verbatim>\<open>extension/src/phase.ts\<close>): the reduction of a tunnel status and of the evidence about the egress path to one of
  five phases.
\<close>

section \<open>The shared reduction\<close>

datatype ConnectionPhase = Exposed | Connecting | Protected | Interrupted | Blocked

text \<open>The tunnel status, with the fields its last two states carry: \<^verbatim>\<open>lockedDown\<close> and \<^verbatim>\<open>blockingError\<close>.\<close>

datatype TunnelStatus =
    TunnelConnected
  | TunnelConnecting
  | TunnelDisconnecting
  | TunnelDraining
  | TunnelReconnecting
  | TunnelDisconnected bool
  | TunnelError bool

record EgressEvidence =
  eg_hostOffline :: bool
  eg_exitEgressDead :: bool

definition VERIFIED_EGRESS :: EgressEvidence where
  "VERIFIED_EGRESS = \<lparr>eg_hostOffline = False, eg_exitEgressDead = False\<rparr>"

definition egressVerified :: "EgressEvidence \<Rightarrow> bool" where
  "egressVerified evidence \<longleftrightarrow> \<not> eg_hostOffline evidence \<and> \<not> eg_exitEgressDead evidence"

fun reducePhase :: "TunnelStatus \<Rightarrow> EgressEvidence \<Rightarrow> ConnectionPhase" where
  "reducePhase TunnelConnected evidence = (if egressVerified evidence then Protected else Interrupted)"
| "reducePhase TunnelConnecting evidence = Connecting"
| "reducePhase TunnelDisconnecting evidence = Connecting"
| "reducePhase TunnelDraining evidence = Connecting"
| "reducePhase TunnelReconnecting evidence = Interrupted"
| "reducePhase (TunnelDisconnected lockedDown) evidence = (if lockedDown then Blocked else Exposed)"
| "reducePhase (TunnelError blockingError) evidence = (if blockingError then Exposed else Blocked)"

section \<open>The extension\<close>

text \<open>\<^verbatim>\<open>ExtensionVpnState\<close> of \<^verbatim>\<open>extension/src/protocol.ts\<close>, the states the native host relays.\<close>

datatype ExtensionVpnState = VpnConnecting | VpnConnected | VpnReconnecting | VpnDraining | VpnFailed | VpnDisconnected

fun tunnelStatusOfVpnState :: "ExtensionVpnState \<Rightarrow> bool \<Rightarrow> TunnelStatus" where
  "tunnelStatusOfVpnState VpnConnecting proxied = TunnelConnecting"
| "tunnelStatusOfVpnState VpnConnected proxied = TunnelConnected"
| "tunnelStatusOfVpnState VpnReconnecting proxied = TunnelReconnecting"
| "tunnelStatusOfVpnState VpnDraining proxied = TunnelDraining"
| "tunnelStatusOfVpnState VpnFailed proxied = TunnelError (\<not> proxied)"
| "tunnelStatusOfVpnState VpnDisconnected proxied = TunnelDisconnected proxied"

record VpnPhaseInputs =
  vi_proxied :: bool
  vi_egress :: "EgressEvidence option"

definition phaseOfVpnState :: "ExtensionVpnState \<Rightarrow> VpnPhaseInputs \<Rightarrow> ConnectionPhase" where
  "phaseOfVpnState state inputs =
     reducePhase (tunnelStatusOfVpnState state (vi_proxied inputs))
       (case vi_egress inputs of None \<Rightarrow> VERIFIED_EGRESS | Some e \<Rightarrow> e)"

section \<open>What the phase promises\<close>

lemma reducePhase_Protected: "reducePhase s e = Protected \<longleftrightarrow> s = TunnelConnected \<and> egressVerified e"
  by (cases s) simp_all

lemma reducePhase_Exposed: "reducePhase s e = Exposed \<longleftrightarrow> s = TunnelDisconnected False \<or> s = TunnelError True"
  by (cases s) simp_all

lemma reducePhase_Blocked: "reducePhase s e = Blocked \<longleftrightarrow> s = TunnelDisconnected True \<or> s = TunnelError False"
  by (cases s) simp_all

lemma tunnelStatusOfVpnState_cases:
  "tunnelStatusOfVpnState v p = TunnelConnected \<longleftrightarrow> v = VpnConnected"
  "tunnelStatusOfVpnState v p = TunnelDisconnected d \<longleftrightarrow> v = VpnDisconnected \<and> p = d"
  "tunnelStatusOfVpnState v p = TunnelError d \<longleftrightarrow> v = VpnFailed \<and> p = (\<not> d)"
  by (cases v; auto)+

text \<open>
  The extension shows the protected phase exactly for a connected tunnel with no evidence against its egress, the
  exposed one exactly when nothing carries the browser and its proxy settings are not held, and the blocked one exactly
  when nothing carries it while they are.
\<close>

theorem vpn_phase_honest:
  "(phaseOfVpnState state inputs = Protected \<longleftrightarrow>
     state = VpnConnected \<and> (case vi_egress inputs of None \<Rightarrow> True | Some e \<Rightarrow> egressVerified e)) \<and>
   (phaseOfVpnState state inputs = Exposed \<longleftrightarrow> state \<in> {VpnFailed, VpnDisconnected} \<and> \<not> vi_proxied inputs) \<and>
   (phaseOfVpnState state inputs = Blocked \<longleftrightarrow> state \<in> {VpnFailed, VpnDisconnected} \<and> vi_proxied inputs)"
  by (auto simp: phaseOfVpnState_def reducePhase_Protected reducePhase_Exposed reducePhase_Blocked
      tunnelStatusOfVpnState_cases egressVerified_def VERIFIED_EGRESS_def split: option.split)

end
