(* ===== verification/Host_Session.thy ===== *)
theory Host_Session
  imports Device Browser_Routing Phase
begin

text \<open>
  The native host of the browser extension: the message readers of \<^verbatim>\<open>extension/src/protocol.ts\<close>, the session of
  \<^verbatim>\<open>extension/src/host/session.ts\<close> and the choices of \<^verbatim>\<open>extension/src/host/run.ts\<close>.

  \<^verbatim>\<open>HostSession.handle\<close> is asynchronous and the host does not wait for one request before it reads the next, so the
  session is a transition system: an event is a request, a close, a state a tunnel reports, or the settling of one
  promise some call in flight waits for. Between two awaits a call runs alone, in one step. A tunnel is a number, in
  order of creation.
\<close>

section \<open>Messages\<close>

definition EXTENSION_PROTOCOL_VERSION :: int where
  "EXTENSION_PROTOCOL_VERSION = 3"

record ExtensionEndpoints =
  ep_socks5 :: string
  ep_http :: "string option"

record ExtensionTunnelExit =
  tx_country :: string
  tx_city :: string

definition is_letter :: "char \<Rightarrow> bool" where
  "is_letter c \<longleftrightarrow> (let n = of_char c :: nat in 65 \<le> n \<and> n \<le> 90 \<or> 97 \<le> n \<and> n \<le> 122)"

definition upper_char :: "char \<Rightarrow> char" where
  "upper_char c = (let n = of_char c :: nat in if 97 \<le> n \<and> n \<le> 122 then char_of (n - 32) else c)"

definition parseTunnelExit :: "json option \<Rightarrow> ExtensionTunnelExit option" where
  "parseTunnelExit v =
     (case v of
        None \<Rightarrow> None
      | Some value \<Rightarrow>
          (case (jstring value ''country'', jstring value ''city'') of
             (Some country, Some city) \<Rightarrow>
               if length country = 2 \<and> list_all is_letter country
               then Some \<lparr>tx_country = map upper_char country, tx_city = city\<rparr> else None
           | _ \<Rightarrow> None))"

text \<open>The answers and events the host sends, with the identifier of the request as it came.\<close>

datatype HostMessage =
    HelloOk json "string option"
  | StatusOk json string "ExtensionEndpoints option" "ExtensionTunnelExit option"
  | ConnectOk json ExtensionEndpoints ExtensionProxyAuth "ExtensionTunnelExit option"
  | DisconnectOk json
  | ExitsOk json "(string \<times> string \<times> bool) list"
  | AccountOk json json
  | Failed json string string
  | StateEvent string

text \<open>What the extension reads of a message: a state event, an answer, or nothing.\<close>

datatype parsed_message = ParsedState json | ParsedResponse json bool json

definition parseHostMessage :: "json \<Rightarrow> parsed_message option" where
  "parseHostMessage m =
     (if \<not> is_object m then None
      else case (jget m ''type'' = Some (JStr ''state''), jget m ''state'') of
        (True, Some (JStr state)) \<Rightarrow> Some (ParsedState (JStr state))
      | _ \<Rightarrow>
          (case (jget m ''id'', jget m ''ok'') of
             (Some i, Some (JBool ok)) \<Rightarrow> if is_number i then Some (ParsedResponse i ok m) else None
           | _ \<Rightarrow> None))"

section \<open>Configuration\<close>

record NativeHostConfig =
  nh_apiBase :: "string option"
  nh_serverPubkeyPin :: "string option"
  nh_multihopRootPinHex :: "string option"
  nh_stateDir :: "string option"

definition nonempty :: "string option \<Rightarrow> string option" where
  "nonempty v = (if v = Some [] then None else v)"

definition configFromEnv :: "(string \<Rightarrow> string option) \<Rightarrow> NativeHostConfig" where
  "configFromEnv env =
     \<lparr>nh_apiBase = nonempty (env ''WARREN_API_BASE''), nh_serverPubkeyPin = nonempty (env ''WARREN_SERVER_PUBKEY_PIN''),
      nh_multihopRootPinHex = nonempty (env ''WARREN_MULTIHOP_ROOT_PIN''), nh_stateDir = nonempty (env ''WARREN_STATE_DIR'')\<rparr>"

datatype ProductChannel = Prod | Beta

definition hostApiBase :: "(ProductChannel \<Rightarrow> string) \<Rightarrow> string \<Rightarrow> NativeHostConfig \<Rightarrow> ProductChannel option \<Rightarrow> string" where
  "hostApiBase urls buildUrl config channel =
     (case nonempty (nh_apiBase config) of
        Some base \<Rightarrow> base
      | None \<Rightarrow> (case channel of Some c \<Rightarrow> urls c | None \<Rightarrow> buildUrl))"

text \<open>\<^verbatim>\<open>origin.replace(/\/$/, '')\<close>.\<close>

definition drop_slash :: "string \<Rightarrow> string" where
  "drop_slash s = (if s \<noteq> [] \<and> last s = CHR ''/'' then butlast s else s)"

definition callerAllowed :: "string list \<Rightarrow> string list \<Rightarrow> bool" where
  "callerAllowed argv allowed =
     (if allowed = [] then True
      else list_ex (\<lambda>arg. list_ex (\<lambda>entry.
        arg = entry \<or>
        (let origin = (if startsWith entry ''chrome-extension://'' then entry else ''chrome-extension://'' @ entry @ ''/'')
         in arg = origin \<or> arg = drop_slash origin)) allowed) argv)"

section \<open>The session\<close>

definition isChannel :: "json \<Rightarrow> ProductChannel option" where
  "isChannel v = (if v = JStr ''prod'' then Some Prod else if v = JStr ''beta'' then Some Beta else None)"

text \<open>\<^verbatim>\<open>String(v)\<close>.\<close>

primrec js_String :: "json \<Rightarrow> string" where
  "js_String JNull = ''null''"
| "js_String (JBool b) = (if b then ''true'' else ''false'')"
| "js_String (JInt i) = show_int i"
| "js_String (JFrac t) = t"
| "js_String (JStr s) = s"
| "js_String (JArr xs) = join '','' (map (\<lambda>p. if fst p = JNull then [] else snd p) (map (\<lambda>x. (x, js_String x)) xs))"
| "js_String (JObj ps) = ''[object Object]''"

text \<open>\<^verbatim>\<open>s.trim().length === 0\<close>, with the white space of ASCII.\<close>

definition blank :: "string \<Rightarrow> bool" where
  "blank s \<longleftrightarrow> list_all (\<lambda>c. let n = of_char c :: nat in n = 32 \<or> 9 \<le> n \<and> n \<le> 13) s"

definition isDevice :: "token_platform \<Rightarrow> json \<Rightarrow> bool" where
  "isDevice pf v =
     (case (jstring v ''name'', jstring v ''appVersion'') of
        (Some name, Some version) \<Rightarrow>
          \<not> blank name \<and> \<not> blank version \<and>
          (case parseDeviceId pf (case jget v ''id'' of None \<Rightarrow> ''undefined'' | Some i \<Rightarrow> js_String i) of
             Inr _ \<Rightarrow> True | Inl _ \<Rightarrow> False)
      | _ \<Rightarrow> False)"

definition isCredential :: "json option \<Rightarrow> string option" where
  "isCredential v = (case v of Some (JStr s) \<Rightarrow> if s = [] then None else Some s | _ \<Rightarrow> None)"

text \<open>A thrown value: the \<^verbatim>\<open>code\<close> it has, as text, and the message of an \<^verbatim>\<open>Error\<close>.\<close>

record thrown_value =
  th_code :: "string option"
  th_message :: "string option"

definition errorCode :: "thrown_value \<Rightarrow> string \<Rightarrow> string" where
  "errorCode e fallback = (case th_code e of Some c \<Rightarrow> c | None \<Rightarrow> fallback)"

definition errorMessage :: "thrown_value \<Rightarrow> string \<Rightarrow> string" where
  "errorMessage e fallback = (case th_message e of Some m \<Rightarrow> m | None \<Rightarrow> fallback)"

text \<open>What a tunnel's \<^verbatim>\<open>connect\<close> reports.\<close>

record tunnel_report =
  tr_socks5 :: string
  tr_http :: "string option"
  tr_username :: "json option"
  tr_password :: "json option"
  tr_exit :: "json option"

record connect_options =
  co_selector :: "json option"
  co_entrySelector :: "json option"
  co_httpProxy :: "json option"

record tunnel_init =
  ti_mnemonic :: "json option"
  ti_daita :: "json option"
  ti_channel :: "ProductChannel option"
  ti_device :: "json option"

text \<open>The calls in flight, by the promise they wait for. A teardown of a close answers nobody.\<close>

datatype host_call =
    Creating json tunnel_init connect_options
  | Dialing json nat connect_options
  | Aborting json "nat option" thrown_value
  | TearingDown "json option" "nat option"
  | ListingExits json
  | AskingAccount json

record host_session =
  hs_tunnel :: "nat option"
  hs_endpoints :: "ExtensionEndpoints option"
  hs_exit :: "ExtensionTunnelExit option"
  hs_state :: string
  hs_connecting :: bool
  hs_channel :: "ProductChannel option"
  hs_calls :: "host_call list"
  hs_created :: nat
  hs_shutdown :: "nat list"
  hs_sent :: "HostMessage list"

definition newHostSession :: host_session where
  "newHostSession = \<lparr>hs_tunnel = None, hs_endpoints = None, hs_exit = None, hs_state = ''disconnected'', hs_connecting = False,
     hs_channel = None, hs_calls = [], hs_created = 0, hs_shutdown = [], hs_sent = []\<rparr>"

record host_options =
  ho_platform :: token_platform
  ho_listExits :: bool
  ho_accountStatus :: bool

definition send :: "HostMessage \<Rightarrow> host_session \<Rightarrow> host_session" where
  "send m s = s\<lparr>hs_sent := hs_sent s @ [m]\<rparr>"

definition call :: "host_call \<Rightarrow> host_session \<Rightarrow> host_session" where
  "call c s = s\<lparr>hs_calls := hs_calls s @ [c]\<rparr>"

definition shutdown_opt :: "nat option \<Rightarrow> host_session \<Rightarrow> host_session" where
  "shutdown_opt t s = (case t of None \<Rightarrow> s | Some n \<Rightarrow> s\<lparr>hs_shutdown := hs_shutdown s @ [n]\<rparr>)"

text \<open>\<^verbatim>\<open>teardown\<close> up to its await.\<close>

definition teardown :: "json option \<Rightarrow> host_session \<Rightarrow> host_session" where
  "teardown reply s =
     call (TearingDown reply (hs_tunnel s))
       (shutdown_opt (hs_tunnel s) (s\<lparr>hs_tunnel := None, hs_endpoints := None, hs_exit := None, hs_state := ''disconnected''\<rparr>))"

text \<open>\<^verbatim>\<open>v ? v : undefined\<close>.\<close>

definition truthy :: "json option \<Rightarrow> json option" where
  "truthy v = (if v \<in> {Some JNull, Some (JBool False), Some (JInt 0), Some (JStr [])} then None else v)"

definition connect_request :: "host_options \<Rightarrow> json \<Rightarrow> json \<Rightarrow> host_session \<Rightarrow> host_session" where
  "connect_request opts i request s =
     (if hs_connecting s \<or> hs_tunnel s \<noteq> None then send (Failed i ''already_connected'' ''a session is already up'') s
      else if (case jget request ''device'' of None \<Rightarrow> False | Some d \<Rightarrow> \<not> isDevice (ho_platform opts) d)
      then send (Failed i ''protocol'' ''malformed device'') s
      else call (Creating i \<lparr>ti_mnemonic = jget request ''mnemonic'', ti_daita = jget request ''daita'',
                             ti_channel = hs_channel s, ti_device = jget request ''device''\<rparr>
                  \<lparr>co_selector = truthy (jget request ''selector''), co_entrySelector = truthy (jget request ''entrySelector''),
                   co_httpProxy = jget request ''httpProxy''\<rparr>) (s\<lparr>hs_connecting := True\<rparr>))"

text \<open>\<^verbatim>\<open>handle\<close> up to its first await; \<open>datapath\<close> is what \<^verbatim>\<open>datapathStatus\<close> answers at that moment.\<close>

definition handle :: "host_options \<Rightarrow> string option \<Rightarrow> json \<Rightarrow> host_session \<Rightarrow> host_session" where
  "handle opts datapath request s =
     (case jget request ''id'' of
        None \<Rightarrow> s
      | Some i \<Rightarrow>
          if \<not> is_number i then s
          else (case jget request ''type'' of
             Some (JStr t) \<Rightarrow>
               if t = ''hello'' then
                 (if jget request ''protocol'' \<noteq> Some (JInt EXTENSION_PROTOCOL_VERSION)
                  then send (Failed i ''protocol'' ''unsupported protocol version'') s
                  else case jget request ''channel'' of
                    Some c \<Rightarrow>
                      (case isChannel c of
                         None \<Rightarrow> send (Failed i ''protocol'' ''unknown release channel'') s
                       | Some ch \<Rightarrow> send (HelloOk i (nonempty datapath)) (s\<lparr>hs_channel := Some ch\<rparr>))
                  | None \<Rightarrow> send (HelloOk i (nonempty datapath)) (s\<lparr>hs_channel := None\<rparr>))
               else if t = ''status'' then send (StatusOk i (hs_state s) (hs_endpoints s) (hs_exit s)) s
               else if t = ''connect'' then connect_request opts i request s
               else if t = ''disconnect'' then teardown (Some i) s
               else if t = ''exits'' then
                 (if \<not> ho_listExits opts then send (Failed i ''protocol'' ''host has no discovery source'') s
                  else call (ListingExits i) s)
               else if t = ''account'' then
                 (if \<not> ho_accountStatus opts then send (Failed i ''protocol'' ''host has no account source'') s
                  else call (AskingAccount i) s)
               else send (Failed i ''protocol'' ''unknown request type'') s
           | _ \<Rightarrow> send (Failed i ''protocol'' ''unknown request type'') s))"

text \<open>The error path of \<^verbatim>\<open>connect\<close>: the half-built tunnel is shut down before the answer.\<close>

definition abort_connect :: "json \<Rightarrow> nat option \<Rightarrow> thrown_value \<Rightarrow> host_session \<Rightarrow> host_session" where
  "abort_connect i t e s = call (Aborting i t e) (shutdown_opt t s)"

definition dialed :: "json \<Rightarrow> nat \<Rightarrow> tunnel_report \<Rightarrow> host_session \<Rightarrow> host_session" where
  "dialed i t r s =
     (case (isCredential (tr_username r), isCredential (tr_password r)) of
        (Some username, Some password) \<Rightarrow>
          (let endpoints = \<lparr>ep_socks5 = tr_socks5 r, ep_http = nonempty (tr_http r)\<rparr>; exit = parseTunnelExit (tr_exit r)
           in send (ConnectOk i endpoints \<lparr>xa_username = username, xa_password = password\<rparr> exit)
                (s\<lparr>hs_tunnel := Some t, hs_endpoints := Some endpoints, hs_exit := exit, hs_state := ''connected'', hs_connecting := False\<rparr>))
      | _ \<Rightarrow> abort_connect i (Some t)
               \<lparr>th_code = Some ''protocol'', th_message = Some ''the tunnel reported no listener credentials''\<rparr> s)"

text \<open>The outcomes of the promises a call can wait for.\<close>

datatype settled =
    Rejects thrown_value
  | Done
  | Reports tunnel_report
  | Locations "(string \<times> string \<times> bool) list"
  | ExpiresAt json

fun settle :: "host_call \<Rightarrow> settled \<Rightarrow> host_session \<Rightarrow> host_session option" where
  "settle (Creating i init options) (Rejects e) s = Some (abort_connect i None e s)"
| "settle (Creating i init options) Done s = Some (call (Dialing i (hs_created s) options) (s\<lparr>hs_created := Suc (hs_created s)\<rparr>))"
| "settle (Dialing i t options) (Rejects e) s = Some (abort_connect i (Some t) e s)"
| "settle (Dialing i t options) (Reports r) s = Some (dialed i t r s)"
| "settle (Aborting i t e) Done s =
     Some (send (Failed i (errorCode e ''tunnel'') (errorMessage e ''connect failed'')) (s\<lparr>hs_state := ''disconnected'', hs_connecting := False\<rparr>))"
| "settle (TearingDown (Some i) t) Done s = Some (send (DisconnectOk i) s)"
| "settle (TearingDown None t) Done s = Some s"
| "settle (ListingExits i) (Locations ls) s = Some (send (ExitsOk i ls) s)"
| "settle (ListingExits i) (Rejects e) s = Some (send (Failed i (errorCode e ''host'') (errorMessage e ''exits failed'')) s)"
| "settle (AskingAccount i) (ExpiresAt n) s = Some (send (AccountOk i n) s)"
| "settle (AskingAccount i) (Rejects e) s = Some (send (Failed i (errorCode e ''host'') (errorMessage e ''account failed'')) s)"
| "settle _ _ s = None"

datatype host_event = Request "string option" json | CloseSession | TunnelState string | Settle nat settled

text \<open>One step; \<open>None\<close> for an event that cannot happen, the settling of a promise nobody waits for.\<close>

fun host_step :: "host_options \<Rightarrow> host_event \<Rightarrow> host_session \<Rightarrow> host_session option" where
  "host_step opts (Request datapath request) s = Some (handle opts datapath request s)"
| "host_step opts CloseSession s = Some (teardown None s)"
| "host_step opts (TunnelState st) s = Some (send (StateEvent st) (s\<lparr>hs_state := st\<rparr>))"
| "host_step opts (Settle k r) s =
     (if k < length (hs_calls s)
      then settle (hs_calls s ! k) r (s\<lparr>hs_calls := take k (hs_calls s) @ drop (Suc k) (hs_calls s)\<rparr>) else None)"

fun host_run :: "host_options \<Rightarrow> host_event list \<Rightarrow> host_session \<Rightarrow> host_session option" where
  "host_run opts [] s = Some s"
| "host_run opts (e # es) s = Option.bind (host_step opts e s) (host_run opts es)"

section \<open>One tunnel at a time\<close>

fun connects :: "host_call \<Rightarrow> bool" where
  "connects (Creating i init options) = True"
| "connects (Dialing i t options) = True"
| "connects (Aborting i t e) = True"
| "connects _ = False"

fun dials :: "host_call \<Rightarrow> nat list" where
  "dials (Dialing i t options) = [t]"
| "dials _ = []"

definition dialing :: "host_call list \<Rightarrow> nat set" where
  "dialing cs = (\<Union>c \<in> set cs. set (dials c))"

lemma dialing_simps [simp]:
  "dialing [] = {}" "dialing (c # cs) = set (dials c) \<union> dialing cs" "dialing (xs @ ys) = dialing xs \<union> dialing ys"
  by (auto simp: dialing_def)

lemma connects_dials: "\<not> connects c \<Longrightarrow> dials c = []"
  by (cases c) auto

lemma no_connects_no_dials: "filter connects cs = [] \<Longrightarrow> dialing cs = {}"
  by (auto simp: dialing_def filter_empty_conv connects_dials)

text \<open>The tunnels created and never told to shut down.\<close>

definition live :: "host_session \<Rightarrow> nat set" where
  "live s = {..<hs_created s} - set (hs_shutdown s)"

definition host_inv :: "host_session \<Rightarrow> bool" where
  "host_inv s \<longleftrightarrow>
     length (filter connects (hs_calls s)) = (if hs_connecting s then 1 else 0) \<and>
     (hs_connecting s \<longrightarrow> hs_tunnel s = None) \<and>
     live s = set_option (hs_tunnel s) \<union> dialing (hs_calls s) \<and>
     distinct (hs_shutdown s) \<and> set (hs_shutdown s) \<subseteq> {..<hs_created s} \<and>
     (hs_endpoints s = None \<longleftrightarrow> hs_tunnel s = None) \<and> (hs_tunnel s = None \<longrightarrow> hs_exit s = None)"

lemmas host_ops = send_def call_def shutdown_opt_def teardown_def abort_connect_def dialed_def connect_request_def

lemma host_inv_new: "host_inv newHostSession"
  by (simp add: host_inv_def newHostSession_def live_def)

lemma host_inv_send [simp]: "host_inv (send m s) = host_inv s"
  by (simp add: host_inv_def send_def live_def)

lemma host_inv_idle: "host_inv s \<Longrightarrow> \<not> connects c \<Longrightarrow> host_inv (call c s)"
  by (simp add: host_inv_def call_def live_def connects_dials)

lemma host_inv_channel: "host_inv s \<Longrightarrow> host_inv (s\<lparr>hs_channel := c\<rparr>)"
  by (simp add: host_inv_def live_def)

lemma host_inv_teardown:
  assumes "host_inv s"
  shows "host_inv (teardown reply s)"
proof (cases "hs_tunnel s")
  case None
  with assms show ?thesis by (simp add: host_inv_def host_ops live_def)
next
  case (Some t)
  with assms have "\<not> hs_connecting s" by (auto simp: host_inv_def)
  with assms have "dialing (hs_calls s) = {}" by (simp add: host_inv_def no_connects_no_dials)
  with assms Some have "live s = {t}" by (simp add: host_inv_def)
  then have "t \<notin> set (hs_shutdown s)" "t < hs_created s" "{..<hs_created s} - insert t (set (hs_shutdown s)) = {}"
    by (auto simp: live_def)
  with assms Some \<open>dialing (hs_calls s) = {}\<close> \<open>\<not> hs_connecting s\<close> show ?thesis
    by (simp add: host_inv_def host_ops live_def)
qed

lemma host_inv_connecting:
  "host_inv s \<Longrightarrow> \<not> hs_connecting s \<Longrightarrow> hs_tunnel s = None \<Longrightarrow> host_inv (call (Creating i init options) (s\<lparr>hs_connecting := True\<rparr>))"
  by (simp add: call_def host_inv_def live_def)

lemma host_inv_connect: "host_inv s \<Longrightarrow> host_inv (connect_request opts i request s)"
  unfolding connect_request_def using host_inv_connecting by simp

lemma host_inv_handle: "host_inv s \<Longrightarrow> host_inv (handle opts datapath request s)"
  by (auto simp: handle_def host_inv_teardown host_inv_connect host_inv_idle host_inv_channel split: option.split json.split)

lemma host_inv_settle:
  assumes inv: "host_inv s" and calls: "hs_calls s = xs @ c # ys" and step: "settle c r (s\<lparr>hs_calls := xs @ ys\<rparr>) = Some s'"
  shows "host_inv s'"
proof (cases "connects c")
  case True
  with inv calls have rest: "filter connects (xs @ ys) = []" "hs_connecting s" "hs_tunnel s = None"
    by (auto simp: host_inv_def split: if_splits)
  note none = no_connects_no_dials [OF rest(1)]
  have live: "live s = set (dials c)" using inv calls none rest(3) by (auto simp: host_inv_def)
  show ?thesis
  proof (cases c)
    case (Creating i init options)
    then have "{..<hs_created s} \<subseteq> set (hs_shutdown s)" "set (hs_shutdown s) \<subseteq> {..<hs_created s}"
      using live inv by (auto simp: live_def host_inv_def)
    then have fresh: "{..<Suc (hs_created s)} - set (hs_shutdown s) = {hs_created s}" "set (hs_shutdown s) \<subseteq> {..<Suc (hs_created s)}"
      by (auto simp: lessThan_Suc)
    from Creating show ?thesis using step inv rest none live fresh
      by (cases r) (clarsimp simp: host_inv_def host_ops live_def simp del: lessThan_iff)+
  next
    case (Dialing i t options)
    then have t: "t \<notin> set (hs_shutdown s)" "t < hs_created s" "{..<hs_created s} - insert t (set (hs_shutdown s)) = {}"
      using live by (auto simp: live_def)
    show ?thesis using Dialing step inv rest none live t
      by (cases r) (auto simp: host_inv_def host_ops live_def Let_def split: option.splits)
  next
    case (Aborting i t e)
    then show ?thesis using step inv rest none live by (cases r) (auto simp: host_inv_def host_ops live_def)
  qed (use True in simp_all)
next
  case False
  with inv calls have rest: "host_inv (s\<lparr>hs_calls := xs @ ys\<rparr>)"
    by (simp add: host_inv_def live_def connects_dials)
  show ?thesis
  proof (cases c)
    case (TearingDown reply t)
    then show ?thesis using rest step by (cases r; cases reply) auto
  qed (use False rest step in \<open>cases r; auto\<close>)+
qed

lemma host_inv_step:
  assumes "host_inv s" "host_step opts e s = Some s'"
  shows "host_inv s'"
proof (cases e)
  case (Settle k r)
  with assms(2) have k: "k < length (hs_calls s)"
    and step: "settle (hs_calls s ! k) r (s\<lparr>hs_calls := take k (hs_calls s) @ drop (Suc k) (hs_calls s)\<rparr>) = Some s'"
    by (simp_all split: if_splits)
  from host_inv_settle [OF assms(1) id_take_nth_drop [OF k] step] show ?thesis .
next
  case (TunnelState st)
  with assms show ?thesis by (auto simp: host_inv_def live_def send_def)
qed (use assms in \<open>auto simp: host_inv_handle host_inv_teardown\<close>)

lemma host_inv_run: "host_inv s \<Longrightarrow> host_run opts es s = Some s' \<Longrightarrow> host_inv s'"
  by (induction es arbitrary: s) (auto simp: bind_eq_Some_conv dest: host_inv_step)

text \<open>
  C9. Whatever requests arrive and however their calls interleave, at most one tunnel is up: the session's own, or the one
  a connect is dialing, and never both. Every tunnel is shut down at most once, and one that is created and neither
  held nor being dialed has been told to shut down, so a failed connect leaves nothing running. With no tunnel there is
  no address and no exit to report.
\<close>

theorem host_one_tunnel:
  assumes "host_run opts es newHostSession = Some s"
  shows "live s = set_option (hs_tunnel s) \<union> dialing (hs_calls s) \<and> card (live s) \<le> 1 \<and>
    (\<not> hs_connecting s \<longrightarrow> live s = set_option (hs_tunnel s)) \<and> distinct (hs_shutdown s) \<and>
    (hs_tunnel s = None \<longleftrightarrow> hs_endpoints s = None) \<and> (hs_tunnel s = None \<longrightarrow> hs_exit s = None)"
proof -
  from host_inv_run [OF host_inv_new assms] have inv: "host_inv s" .
  have "card (dialing cs) \<le> length (filter connects cs)" for cs
  proof (induction cs)
    case (Cons c cs)
    then show ?case by (cases c) (auto simp: card_insert_if dialing_def)
  qed simp
  from this [of "hs_calls s"] inv have "card (live s) \<le> 1"
    by (cases "hs_connecting s"; cases "hs_tunnel s") (auto simp: host_inv_def no_connects_no_dials)
  with inv show ?thesis by (auto simp: host_inv_def no_connects_no_dials)
qed

section \<open>Every request is answered once\<close>

fun asked :: "host_event \<Rightarrow> json list" where
  "asked (Request datapath request) =
     (case jget request ''id'' of Some i \<Rightarrow> if is_number i then [i] else [] | None \<Rightarrow> [])"
| "asked _ = []"

fun message_ids :: "HostMessage \<Rightarrow> json list" where
  "message_ids (StateEvent st) = []"
| "message_ids (HelloOk i d) = [i]"
| "message_ids (StatusOk i st en ex) = [i]"
| "message_ids (ConnectOk i en a ex) = [i]"
| "message_ids (DisconnectOk i) = [i]"
| "message_ids (ExitsOk i ls) = [i]"
| "message_ids (AccountOk i n) = [i]"
| "message_ids (Failed i c m) = [i]"

fun call_ids :: "host_call \<Rightarrow> json list" where
  "call_ids (TearingDown reply t) = (case reply of Some i \<Rightarrow> [i] | None \<Rightarrow> [])"
| "call_ids (Creating i init options) = [i]"
| "call_ids (Dialing i t options) = [i]"
| "call_ids (Aborting i t e) = [i]"
| "call_ids (ListingExits i) = [i]"
| "call_ids (AskingAccount i) = [i]"

definition answered_ids :: "host_session \<Rightarrow> json list" where
  "answered_ids s = concat (map message_ids (hs_sent s))"

definition open_ids :: "host_session \<Rightarrow> json list" where
  "open_ids s = concat (map call_ids (hs_calls s))"

definition ledger :: "host_session \<Rightarrow> json multiset" where
  "ledger s = mset (answered_ids s) + mset (open_ids s)"

lemma ledger_ops [simp]:
  "ledger (send m s) = mset (message_ids m) + ledger s"
  "ledger (call c s) = mset (call_ids c) + ledger s"
  "ledger (shutdown_opt t s) = ledger s"
  "ledger (s\<lparr>hs_tunnel := a\<rparr>) = ledger s"
  "ledger (s\<lparr>hs_endpoints := b\<rparr>) = ledger s"
  "ledger (s\<lparr>hs_exit := c'\<rparr>) = ledger s"
  "ledger (s\<lparr>hs_state := d\<rparr>) = ledger s"
  "ledger (s\<lparr>hs_connecting := e\<rparr>) = ledger s"
  "ledger (s\<lparr>hs_channel := ch\<rparr>) = ledger s"
  "ledger (s\<lparr>hs_created := n\<rparr>) = ledger s"
  by (auto simp: ledger_def answered_ids_def open_ids_def host_ops split: option.split)

lemma ledger_teardown: "ledger (teardown reply s) = mset (case reply of Some i \<Rightarrow> [i] | None \<Rightarrow> []) + ledger s"
  by (simp add: teardown_def)

lemma ledger_connect: "ledger (connect_request opts i request s) = {#i#} + ledger s"
  by (simp add: connect_request_def)

lemma ledger_handle: "ledger (handle opts datapath request s) = mset (asked (Request datapath request)) + ledger s"
  by (simp add: handle_def ledger_teardown ledger_connect split: option.split json.split)

lemma ledger_dialed: "ledger (dialed i t r s) = {#i#} + ledger s"
  by (simp add: dialed_def abort_connect_def Let_def split: option.split)

lemma ledger_settle: "settle c r s = Some s' \<Longrightarrow> ledger s' = mset (call_ids c) + ledger s"
  by (cases "(c, r, s)" rule: settle.cases) (auto simp: abort_connect_def ledger_dialed)

lemma ledger_step: "host_step opts e s = Some s' \<Longrightarrow> ledger s' = mset (asked e) + ledger s"
proof (cases e)
  case (Settle k r)
  assume "host_step opts e s = Some s'"
  with Settle have k: "k < length (hs_calls s)"
    and step: "settle (hs_calls s ! k) r (s\<lparr>hs_calls := take k (hs_calls s) @ drop (Suc k) (hs_calls s)\<rparr>) = Some s'"
    by (simp_all split: if_splits)
  have "mset (open_ids s) = mset (concat (map call_ids (take k (hs_calls s) @ hs_calls s ! k # drop (Suc k) (hs_calls s))))"
    using id_take_nth_drop [OF k] by (simp add: open_ids_def)
  then show ?thesis
    using ledger_settle [OF step] Settle by (simp add: ledger_def open_ids_def answered_ids_def)
qed (auto simp: ledger_handle ledger_teardown)

lemma host_ledger:
  assumes "host_run opts es newHostSession = Some s"
  shows "mset (answered_ids s) + mset (open_ids s) = mset (concat (map asked es))"
proof -
  have "host_run opts es s0 = Some s \<Longrightarrow> ledger s = mset (concat (map asked es)) + ledger s0" for s0
    by (induction es arbitrary: s0) (auto simp: bind_eq_Some_conv ledger_step)
  from this [OF assms] show ?thesis
    by (simp add: ledger_def newHostSession_def answered_ids_def open_ids_def)
qed

text \<open>
  Every request with an identifier is answered exactly once: over any run, the identifiers answered and those of the
  calls still in flight are together the identifiers asked, each as often as it was asked. When nothing is in flight,
  each request has had its one answer.
\<close>

theorem host_answers_once:
  assumes "host_run opts es newHostSession = Some s"
  shows "mset (answered_ids s) + mset (open_ids s) = mset (concat (map asked es)) \<and>
    (hs_calls s = [] \<longrightarrow> mset (answered_ids s) = mset (concat (map asked es)))"
  using host_ledger [OF assms] by (auto simp: open_ids_def)

section \<open>A disconnect during a connect\<close>

text \<open>
  C37. A disconnect that arrives while a tunnel is being dialed finds none to tear down: it is answered, nothing is shut
  down, and the connect then installs its tunnel and reports the session connected.
\<close>

theorem host_disconnect_races_connect:
  assumes "hs_connecting s" "hs_tunnel s = None" "k < length (hs_calls s)" "hs_calls s ! k = Dialing i t options"
    and "jget request ''type'' = Some (JStr ''disconnect'')" "jget request ''id'' = Some (JInt n)"
    and "isCredential (tr_username r) = Some u" "isCredential (tr_password r) = Some p"
  shows "\<exists>s'. host_run opts [Request datapath request, Settle (length (hs_calls s)) Done, Settle k (Reports r)] s = Some s' \<and>
    DisconnectOk (JInt n) \<in> set (hs_sent s') \<and> hs_shutdown s' = hs_shutdown s \<and>
    hs_tunnel s' = Some t \<and> hs_state s' = ''connected''"
  using assms by (simp add: handle_def host_ops nth_append Let_def)

definition sample_options :: host_options where
  "sample_options = \<lparr>ho_platform = sample_token_platform, ho_listExits = False, ho_accountStatus = False\<rparr>"

definition sample_report :: tunnel_report where
  "sample_report = \<lparr>tr_socks5 = ''127.0.0.1:1080'', tr_http = None, tr_username = Some (JStr ''u''), tr_password = Some (JStr ''p''), tr_exit = None\<rparr>"

definition sample_events :: "host_event list" where
  "sample_events =
     [Request None (JObj [(''id'', JInt 1), (''type'', JStr ''connect''), (''mnemonic'', JStr ''m'')]), Settle 0 Done]"

definition sample_dialing :: host_session where
  "sample_dialing = newHostSession\<lparr>hs_connecting := True, hs_created := 1,
     hs_calls := [Dialing (JInt 1) 0 \<lparr>co_selector = None, co_entrySelector = None, co_httpProxy = None\<rparr>]\<rparr>"

lemma sample_dials: "host_run sample_options sample_events newHostSession = Some sample_dialing"
  by (simp add: sample_events_def sample_dialing_def newHostSession_def handle_def host_ops truthy_def)

theorem host_one_tunnel_witness: "live sample_dialing = {0}"
  using host_one_tunnel [OF sample_dials] by (simp add: sample_dialing_def newHostSession_def)

theorem host_answers_once_witness: "mset (open_ids sample_dialing) = {#JInt 1#}"
  using host_answers_once [OF sample_dials]
  by (simp add: sample_dialing_def newHostSession_def sample_events_def answered_ids_def)

theorem host_disconnect_races_connect_witness:
  "\<exists>s'. host_run sample_options
      [Request None (JObj [(''id'', JInt 2), (''type'', JStr ''disconnect'')]), Settle 1 Done, Settle 0 (Reports sample_report)]
      sample_dialing = Some s' \<and> DisconnectOk (JInt 2) \<in> set (hs_sent s') \<and> hs_tunnel s' = Some 0"
proof -
  let ?r = "JObj [(''id'', JInt 2), (''type'', JStr ''disconnect'')]"
  have "hs_connecting sample_dialing" "hs_tunnel sample_dialing = None" "0 < length (hs_calls sample_dialing)"
    "hs_calls sample_dialing ! 0 = Dialing (JInt 1) 0 \<lparr>co_selector = None, co_entrySelector = None, co_httpProxy = None\<rparr>"
    "jget ?r ''type'' = Some (JStr ''disconnect'')" "jget ?r ''id'' = Some (JInt 2)"
    "isCredential (tr_username sample_report) = Some ''u''" "isCredential (tr_password sample_report) = Some ''p''"
    by (simp_all add: sample_dialing_def newHostSession_def sample_report_def isCredential_def)
  from host_disconnect_races_connect [OF this, of sample_options None]
  have "\<exists>s'. host_run sample_options [Request None ?r, Settle (length (hs_calls sample_dialing)) Done, Settle 0 (Reports sample_report)]
      sample_dialing = Some s' \<and> DisconnectOk (JInt 2) \<in> set (hs_sent s') \<and> hs_tunnel s' = Some 0" by blast
  moreover have "length (hs_calls sample_dialing) = 1" by (simp add: sample_dialing_def)
  ultimately show ?thesis by simp
qed

end
