(* ===== verification/Browser_Vpn.thy ===== *)
theory Browser_Vpn
  imports Host_Session
begin

text \<open>
  The extension's VPN client (\<^verbatim>\<open>extension/src/client.ts\<close>, with \<^verbatim>\<open>extension/src/leaks.ts\<close>): it drives the native host over
  a native-messaging port and points the browser's proxy settings at the host's listeners.

  The class is asynchronous, so it is a transition system. An event is a call of a public method, a message of the
  host, the loss of the port, a timeout, or the settling of a browser API call; between two of them the code runs
  alone. A settings call takes effect when it settles. Consecutive browser calls between which the code touches no
  state of its own are one call with a combined outcome. The promises a dying port rejects are settled by events of
  their own. The state holds what the browser was told: the settings value this extension set (\<open>None\<close> when it holds
  none), the registered request handlers, and whether the leaks are closed.
\<close>

section \<open>State\<close>

datatype ExtensionPlatform = Chromium | Firefox

text \<open>
  The environment: the platform, whether \<^verbatim>\<open>proxy.settings.get\<close> and \<^verbatim>\<open>proxy.onRequest\<close> exist, whether opening the
  n-th port succeeds, the release channel as text, and \<^verbatim>\<open>Number\<close>.
\<close>

record vpn_env =
  ve_platform :: ExtensionPlatform
  ve_hasGet :: bool
  ve_hasOnRequest :: bool
  ve_nativeOk :: "nat \<Rightarrow> bool"
  ve_channel :: string
  ve_num :: "string \<Rightarrow> json"

record fx_handler =
  hd_id :: nat
  hd_socks5 :: string
  hd_split :: SplitTunnelConfig

record vpn_options =
  vo_mnemonic :: string
  vo_selector :: "json option"
  vo_entrySelector :: "json option"
  vo_httpProxy :: "bool option"
  vo_split :: "SplitTunnelConfig option"
  vo_daita :: "bool option"
  vo_device :: "json option"

text \<open>The local variables of one \<^verbatim>\<open>connect\<close>: \<^verbatim>\<open>before\<close> is a value only when this extension held the settings.\<close>

record connect_vars =
  cv_options :: vpn_options
  cv_before :: "json option"
  cv_leaksHeld :: bool
  cv_hardened :: bool
  cv_heldHandler :: "fx_handler option"

datatype question = AskStatus | AskDatapath | AskExits | AskAccount string

text \<open>What continues when the host answers a request; \<open>KIgnored\<close> after a timeout.\<close>

datatype continuation = KConnect connect_vars | KDisconnect | KReconnect vpn_options | KQuestion question | KIgnored

datatype waiter = WHello nat | WCall continuation

datatype vpn_call =
    AwaitHello nat continuation
  | RejectedCall waiter ext_error
  | Preflight connect_vars
  | Hardening connect_vars json
  | Routing connect_vars json "json option"
  | Restoring connect_vars ext_error
  | ClearingSettings
  | LockdownFirst vpn_options
  | BlockingListener
  | SplitRouting "fx_handler option" SplitTunnelConfig "json option"

datatype vpn_result = ResultOk json | ResultError ext_error

record vpn =
  vp_port :: "nat option"
  vp_portDead :: bool
  vp_handshake :: "nat option"
  vp_hellos :: "(ext_error + json option) option list"
  vp_proxied :: bool
  vp_tunnelUp :: bool
  vp_endpoints :: "ExtensionEndpoints option"
  vp_auth :: "ExtensionProxyAuth option"
  vp_exit :: "ExtensionTunnelExit option"
  vp_connecting :: bool
  vp_questions :: nat
  vp_releasing :: bool
  vp_nextId :: nat
  vp_handler :: "fx_handler option"
  vp_pending :: "(nat \<times> waiter) list"
  vp_calls :: "vpn_call list"
  vp_opened :: nat
  vp_registered :: nat
  vp_posted :: "(nat option \<times> json) list"
  vp_states :: "json list"
  vp_hostLost :: nat
  vp_results :: "vpn_result list"
  br_settings :: "json option"
  br_handlers :: "fx_handler list"
  br_leaksClosed :: bool

definition newVpn :: vpn where
  "newVpn = \<lparr>vp_port = None, vp_portDead = False, vp_handshake = None, vp_hellos = [], vp_proxied = False, vp_tunnelUp = False,
     vp_endpoints = None, vp_auth = None, vp_exit = None, vp_connecting = False, vp_questions = 0, vp_releasing = False,
     vp_nextId = 1, vp_handler = None, vp_pending = [], vp_calls = [], vp_opened = 0, vp_registered = 0, vp_posted = [],
     vp_states = [], vp_hostLost = 0, vp_results = [], br_settings = None, br_handlers = [], br_leaksClosed = False\<rparr>"

definition await :: "vpn_call \<Rightarrow> vpn \<Rightarrow> vpn" where
  "await c s = s\<lparr>vp_calls := vp_calls s @ [c]\<rparr>"

definition result :: "vpn_result \<Rightarrow> vpn \<Rightarrow> vpn" where
  "result r s = s\<lparr>vp_results := vp_results s @ [r]\<rparr>"

abbreviation "portAlive s \<equiv> vp_port s \<noteq> None \<and> \<not> vp_portDead s"

text \<open>A value that may be undefined, as the result of a call.\<close>

abbreviation "or_null v \<equiv> (case v of Some j \<Rightarrow> j | None \<Rightarrow> JNull)"

section \<open>Credentials\<close>

text \<open>\<^verbatim>\<open>forListener\<close>: the credentials of the live listener at that address.\<close>

definition forListener :: "vpn \<Rightarrow> string \<Rightarrow> ExtensionProxyAuth option" where
  "forListener s listener =
     (case (vp_auth s, vp_endpoints s) of
        (Some auth, Some endpoints) \<Rightarrow>
          if Some listener = ep_http endpoints \<or> listener = ep_socks5 endpoints then Some auth else None
      | _ \<Rightarrow> None)"

definition listenerAuth :: "json option \<Rightarrow> ExtensionProxyAuth option" where
  "listenerAuth v =
     (case v of
        None \<Rightarrow> None
      | Some auth \<Rightarrow>
          (case (isCredential (jget auth ''username''), isCredential (jget auth ''password'')) of
             (Some u, Some p) \<Rightarrow> Some \<lparr>xa_username = u, xa_password = p\<rparr>
           | _ \<Rightarrow> None))"

text \<open>The request handler Firefox runs for a tunnel, on the state of the moment.\<close>

definition vpn_onRequest :: "vpn_env \<Rightarrow> (string \<Rightarrow> string option) \<Rightarrow> vpn \<Rightarrow> fx_handler \<Rightarrow> string \<Rightarrow> int option \<Rightarrow> firefox_answer" where
  "vpn_onRequest env hostname s h url tabId =
     (case hostname url of
        None \<Rightarrow> Rejected
      | Some host \<Rightarrow>
          if \<not> shouldTunnelRequest host tabId (hd_split h) then direct
          else (case forListener s (hd_socks5 h) of
                  Some auth \<Rightarrow> OneProxy (with_auth auth (socksProxyInfo (ve_num env) (hd_socks5 h)))
                | None \<Rightarrow> ProxyList FAIL_CLOSED_PROXY))"

section \<open>The port\<close>

definition openPort :: "vpn_env \<Rightarrow> vpn \<Rightarrow> ext_error + vpn" where
  "openPort env s =
     (if portAlive s then Inr s
      else if \<not> ve_nativeOk env (vp_opened s) then Inl (ExtError HostUnavailable None)
      else Inr (s\<lparr>vp_port := Some (vp_opened s), vp_portDead := False, vp_handshake := None, vp_opened := Suc (vp_opened s)\<rparr>))"

definition reject_pending :: "vpn \<Rightarrow> vpn" where
  "reject_pending s =
     s\<lparr>vp_calls := vp_calls s @ map (\<lambda>(i, w). RejectedCall w (ExtError HostUnavailable None)) (vp_pending s), vp_pending := []\<rparr>"

definition closePort :: "vpn \<Rightarrow> vpn" where
  "closePort s = reject_pending (s\<lparr>vp_port := None, vp_portDead := False\<rparr>)"

text \<open>A message on the open port, whose answer \<open>w\<close> waits for.\<close>

definition post :: "waiter \<Rightarrow> (string \<times> json) list \<Rightarrow> vpn \<Rightarrow> vpn" where
  "post w body s =
     s\<lparr>vp_posted := vp_posted s @ [(vp_port s, JObj ((''id'', JInt (int (vp_nextId s))) # body))],
       vp_pending := vp_pending s @ [(vp_nextId s, w)], vp_nextId := Suc (vp_nextId s)\<rparr>"

definition connect_body :: "vpn_env \<Rightarrow> vpn_options \<Rightarrow> (string \<times> json) list" where
  "connect_body env opts =
     [(''type'', JStr ''connect''), (''mnemonic'', JStr (vo_mnemonic opts))]
     @ opt_prop ''selector'' id (vo_selector opts) @ opt_prop ''entrySelector'' id (vo_entrySelector opts)
     @ opt_prop ''httpProxy'' JBool (if ve_platform env = Chromium then Some True else vo_httpProxy opts)
     @ opt_prop ''daita'' JBool (vo_daita opts) @ opt_prop ''device'' id (vo_device opts)"

fun request_body :: "vpn_env \<Rightarrow> continuation \<Rightarrow> (string \<times> json) list" where
  "request_body env (KConnect v) = connect_body env (cv_options v)"
| "request_body env (KQuestion AskStatus) = [(''type'', JStr ''status'')]"
| "request_body env (KQuestion AskDatapath) = []"
| "request_body env (KQuestion AskExits) = [(''type'', JStr ''exits'')]"
| "request_body env (KQuestion (AskAccount m)) = [(''type'', JStr ''account''), (''mnemonic'', JStr m)]"
| "request_body env _ = [(''type'', JStr ''disconnect'')]"

definition hello :: "vpn_env \<Rightarrow> vpn \<Rightarrow> vpn" where
  "hello env s =
     post (WHello (length (vp_hellos s)))
       [(''type'', JStr ''hello''), (''protocol'', JInt EXTENSION_PROTOCOL_VERSION), (''channel'', JStr (ve_channel env))]
       (s\<lparr>vp_handshake := Some (length (vp_hellos s)), vp_hellos := vp_hellos s @ [None]\<rparr>)"

section \<open>Browser settings\<close>

definition removeOnRequestHandler :: "vpn \<Rightarrow> vpn" where
  "removeOnRequestHandler s =
     (case vp_handler s of
        None \<Rightarrow> s
      | Some h \<Rightarrow> s\<lparr>br_handlers := removeAll h (br_handlers s), vp_handler := None\<rparr>)"

definition registerFirefoxOnRequest :: "string \<Rightarrow> SplitTunnelConfig \<Rightarrow> vpn \<Rightarrow> vpn" where
  "registerFirefoxOnRequest socks5 split s =
     (let h = \<lparr>hd_id = vp_registered s, hd_socks5 = socks5, hd_split = split\<rparr>
      in s\<lparr>vp_handler := Some h, br_handlers := br_handlers s @ [h], vp_registered := Suc (vp_registered s)\<rparr>)"

text \<open>\<^verbatim>\<open>applyProxy\<close> up to the settings call it makes, if it makes one.\<close>

definition applyProxy :: "vpn_env \<Rightarrow> ExtensionEndpoints \<Rightarrow> SplitTunnelConfig \<Rightarrow> vpn \<Rightarrow> (ext_error + json option) \<times> vpn" where
  "applyProxy env endpoints split s =
     (case ve_platform env of
        Firefox \<Rightarrow>
          (Inr (if sp_mode split = ModeOnly then None else Some (buildFirefoxProxyValue (ep_socks5 endpoints) split)),
           registerFirefoxOnRequest (ep_socks5 endpoints) split s)
      | Chromium \<Rightarrow>
          (case nonempty (ep_http endpoints) of
             None \<Rightarrow> (Inl (ExtError ProtocolError None), s)
           | Some http \<Rightarrow> (Inr (Some (buildChromiumProxyValue (ve_num env) http split)), s)))"

text \<open>How a settings call settles: it throws, resolves false (Firefox), takes, or resolves and changes nothing.\<close>

datatype set_outcome = SetThrows | SetFalse | SetTakes | SetIgnored

definition set_settings :: "set_outcome \<Rightarrow> json option \<Rightarrow> vpn \<Rightarrow> vpn" where
  "set_settings out v s = (if out = SetTakes \<and> v \<noteq> None then s\<lparr>br_settings := v\<rparr> else s)"

definition set_error :: "vpn_env \<Rightarrow> set_outcome \<Rightarrow> json option \<Rightarrow> ext_error option" where
  "set_error env out v =
     (if v = None then None
      else if out = SetThrows then Some ForeignError
      else if out = SetFalse \<and> ve_platform env = Firefox then Some (ExtError ProxyUncontrollable None)
      else None)"

text \<open>\<^verbatim>\<open>verifyRouting\<close>.\<close>

definition verifyRouting :: "vpn_env \<Rightarrow> SplitTunnelConfig \<Rightarrow> vpn \<Rightarrow> ext_error option" where
  "verifyRouting env split s =
     (if ve_platform env = Firefox \<and> sp_mode split = ModeOnly \<and> vp_handler s \<noteq> None then None
      else if ve_hasGet env \<and> br_settings s = None then Some (ExtError ProxyUncontrollable None) else None)"

section \<open>Connect\<close>

text \<open>\<^verbatim>\<open>connect\<close> up to its first await.\<close>

definition connect_start :: "vpn_options \<Rightarrow> vpn \<Rightarrow> vpn" where
  "connect_start opts s =
     (if vp_connecting s \<or> vp_tunnelUp s then result (ResultError (ExtError AlreadyConnected None)) s
      else await (Preflight \<lparr>cv_options = opts, cv_before = None, cv_leaksHeld = False, cv_hardened = False, cv_heldHandler = vp_handler s\<rparr>)
             (s\<lparr>vp_connecting := True, vp_handler := None\<rparr>))"

text \<open>The end of a failed connect, and its failure: what the browser held is put back before that when it was hardened.\<close>

definition connect_end :: "connect_vars \<Rightarrow> ext_error \<Rightarrow> vpn \<Rightarrow> vpn" where
  "connect_end v e s =
     result (ResultError e) ((closePort (s\<lparr>vp_handler := cv_heldHandler v\<rparr>))\<lparr>vp_connecting := False\<rparr>)"

definition connect_failed :: "connect_vars \<Rightarrow> ext_error \<Rightarrow> vpn \<Rightarrow> vpn" where
  "connect_failed v e s =
     (let s' = s\<lparr>vp_endpoints := None, vp_auth := None\<rparr>
      in if cv_hardened v then await (Restoring v e) (removeOnRequestHandler s') else connect_end v e s')"

text \<open>The failure of a request, by what waits for it.\<close>

definition question_done :: "vpn_result \<Rightarrow> vpn \<Rightarrow> vpn" where
  "question_done r s =
     (let s' = result r (s\<lparr>vp_questions := vp_questions s - 1\<rparr>)
      in if vp_questions s' = 0 \<and> \<not> vp_tunnelUp s' \<and> \<not> vp_connecting s' then closePort s' else s')"

definition start_clearing :: "vpn \<Rightarrow> vpn" where
  "start_clearing s = await ClearingSettings (removeOnRequestHandler s)"

definition release_host :: "vpn \<Rightarrow> vpn" where
  "release_host s =
     (closePort (s\<lparr>vp_tunnelUp := False, vp_endpoints := None, vp_auth := None, vp_exit := None\<rparr>))\<lparr>vp_releasing := False\<rparr>"

definition reconnect_released :: "vpn_options \<Rightarrow> vpn \<Rightarrow> vpn" where
  "reconnect_released opts s = connect_start opts (release_host s)"

fun request_failed :: "continuation \<Rightarrow> ext_error \<Rightarrow> vpn \<Rightarrow> vpn" where
  "request_failed (KConnect v) e s = connect_failed v e s"
| "request_failed KDisconnect e s = start_clearing s"
| "request_failed (KReconnect opts) e s = reconnect_released opts s"
| "request_failed (KQuestion q) e s = question_done (ResultError e) s"
| "request_failed KIgnored e s = s"

text \<open>The request goes out once the port's hello has gone through; the datapath question has its answer then.\<close>

definition after_hello :: "vpn_env \<Rightarrow> continuation \<Rightarrow> json option \<Rightarrow> vpn \<Rightarrow> vpn" where
  "after_hello env k datapath s =
     (if k = KQuestion AskDatapath then question_done (ResultOk (or_null datapath)) s
      else case openPort env s of
        Inl e \<Rightarrow> request_failed k e s
      | Inr s' \<Rightarrow> post (WCall k) (request_body env k) s')"

definition request_host :: "vpn_env \<Rightarrow> continuation \<Rightarrow> vpn \<Rightarrow> vpn" where
  "request_host env k s =
     (case openPort env s of
        Inl e \<Rightarrow> request_failed k e s
      | Inr s1 \<Rightarrow>
          (case vp_handshake s1 of
             None \<Rightarrow> await (AwaitHello (length (vp_hellos s1)) k) (hello env s1)
           | Some n \<Rightarrow>
               (case vp_hellos s1 ! n of
                  None \<Rightarrow> await (AwaitHello n k) s1
                | Some (Inl e) \<Rightarrow> request_failed k e s1
                | Some (Inr d) \<Rightarrow> after_hello env k d s1)))"

text \<open>
  After the preflight: \<open>level\<close> is who controls the settings when this extension holds none, \<open>leaksHeld\<close> whether it
  holds the WebRTC setting, \<open>incognito\<close> what Firefox says of private browsing.
\<close>

definition preflight_done :: "vpn_env \<Rightarrow> string \<Rightarrow> bool \<Rightarrow> bool option \<Rightarrow> connect_vars \<Rightarrow> vpn \<Rightarrow> vpn" where
  "preflight_done env level leaksHeld incognito v s =
     (let v1 = v\<lparr>cv_before := (if ve_hasGet env then br_settings s else None), cv_leaksHeld := leaksHeld\<rparr>
      in if ve_hasGet env \<and> br_settings s = None \<and> \<not> controllable level
         then connect_failed v (ExtError ProxyUncontrollable None) s
         else if ve_platform env = Firefox \<and> incognito = Some False
         then connect_failed v1 (ExtError PrivateBrowsingRequired None) s
         else if ve_platform env = Firefox \<and> \<not> ve_hasOnRequest env
         then connect_failed v1 (ExtError ProxyUncontrollable None) s
         else request_host env (KConnect v1) s)"

definition endpoints_of :: "json option \<Rightarrow> ExtensionEndpoints" where
  "endpoints_of v =
     \<lparr>ep_socks5 = (case Option.bind v (\<lambda>e. jstring e ''socks5'') of Some a \<Rightarrow> a | None \<Rightarrow> []),
      ep_http = Option.bind v (\<lambda>e. jstring e ''http'')\<rparr>"

definition connect_answered :: "connect_vars \<Rightarrow> json \<Rightarrow> vpn \<Rightarrow> vpn" where
  "connect_answered v res s =
     (if jget res ''type'' \<noteq> Some (JStr ''connect'') \<or> listenerAuth (jget res ''auth'') = None
      then connect_failed v (ExtError ProtocolError None) s
      else await (Hardening v res) s)"

definition connect_split :: "connect_vars \<Rightarrow> SplitTunnelConfig" where
  "connect_split v = (case vo_split (cv_options v) of Some c \<Rightarrow> c | None \<Rightarrow> DEFAULT_SPLIT)"

definition hardened_done :: "vpn_env \<Rightarrow> connect_vars \<Rightarrow> json \<Rightarrow> vpn \<Rightarrow> vpn" where
  "hardened_done env v res s =
     (let v1 = v\<lparr>cv_hardened := True\<rparr>; s1 = s\<lparr>br_leaksClosed := True\<rparr>
      in if vp_portDead s1 then connect_failed v1 (ExtError HostUnavailable None) s1
         else let endpoints = endpoints_of (jget res ''endpoints'');
                  s2 = s1\<lparr>vp_endpoints := Some endpoints, vp_auth := listenerAuth (jget res ''auth'')\<rparr>
              in (case applyProxy env endpoints (connect_split v) s2 of
                    (Inl e, s3) \<Rightarrow> connect_failed v1 e s3
                  | (Inr value, s3) \<Rightarrow> await (Routing v1 res value) s3))"

definition routing_done :: "vpn_env \<Rightarrow> set_outcome \<Rightarrow> connect_vars \<Rightarrow> json \<Rightarrow> json option \<Rightarrow> vpn \<Rightarrow> vpn" where
  "routing_done env out v res value s =
     (let s1 = set_settings out value s
      in case set_error env out value of
           Some e \<Rightarrow> connect_failed v e s1
         | None \<Rightarrow>
             (case verifyRouting env (connect_split v) s1 of
                Some e \<Rightarrow> connect_failed v e s1
              | None \<Rightarrow>
                  if vp_portDead s1 then connect_failed v (ExtError HostUnavailable None) s1
                  else result (ResultOk (or_null (jget res ''endpoints'')))
                    (s1\<lparr>vp_proxied := True, vp_tunnelUp := True, vp_exit := parseTunnelExit (jget res ''exit''), vp_connecting := False,
                        br_handlers := (case cv_heldHandler v of None \<Rightarrow> br_handlers s1 | Some h \<Rightarrow> removeAll h (br_handlers s1))\<rparr>)))"

text \<open>
  \<^verbatim>\<open>restoreBrowserSettings\<close> after its handler is removed: \<open>settings_ok\<close> and \<open>leaks_ok\<close> say which of its two calls
  took; the second is not made after the first threw.
\<close>

definition restore_done :: "bool \<Rightarrow> bool \<Rightarrow> connect_vars \<Rightarrow> ext_error \<Rightarrow> vpn \<Rightarrow> vpn" where
  "restore_done settings_ok leaks_ok v e s =
     (let s1 = (if settings_ok then s\<lparr>br_settings := cv_before v\<rparr> else s);
          s2 = (if settings_ok \<and> leaks_ok \<and> \<not> cv_leaksHeld v \<and> cv_before v = None then s1\<lparr>br_leaksClosed := False\<rparr> else s1)
      in connect_end v e s2)"

section \<open>Disconnect, reconnect, split\<close>

definition disconnect_start :: "vpn_env \<Rightarrow> vpn \<Rightarrow> vpn" where
  "disconnect_start env s =
     (let s1 = s\<lparr>vp_releasing := True\<rparr> in if portAlive s1 then request_host env KDisconnect s1 else start_clearing s1)"

definition clearing_done :: "bool \<Rightarrow> bool \<Rightarrow> vpn \<Rightarrow> vpn" where
  "clearing_done settings_ok leaks_ok s =
     (let s1 = (if settings_ok then s\<lparr>br_settings := None\<rparr> else s);
          s2 = (if settings_ok \<and> leaks_ok then s1\<lparr>br_leaksClosed := False, vp_proxied := False\<rparr> else s1)
      in result (if settings_ok \<and> leaks_ok then ResultOk JNull else ResultError ForeignError) (release_host s2))"

definition reconnect_release :: "vpn_env \<Rightarrow> vpn_options \<Rightarrow> vpn \<Rightarrow> vpn" where
  "reconnect_release env opts s =
     (let s1 = s\<lparr>vp_releasing := True\<rparr> in if portAlive s1 then request_host env (KReconnect opts) s1 else reconnect_released opts s1)"

definition reconnect_start :: "vpn_env \<Rightarrow> vpn_options \<Rightarrow> vpn \<Rightarrow> vpn" where
  "reconnect_start env opts s =
     (if \<not> vp_tunnelUp s then connect_start opts s
      else if vp_connecting s then result (ResultError (ExtError AlreadyConnected None)) s
      else if ve_platform env = Chromium then await (LockdownFirst opts) s
      else reconnect_release env opts s)"

definition lockdown_done :: "vpn_env \<Rightarrow> set_outcome \<Rightarrow> vpn_options \<Rightarrow> vpn \<Rightarrow> vpn" where
  "lockdown_done env out opts s =
     (if out = SetThrows then result (ResultError ForeignError) s
      else reconnect_release env opts (set_settings out (Some (buildChromiumLockdownValue [])) s))"

definition applySplit_start :: "vpn_env \<Rightarrow> SplitTunnelConfig \<Rightarrow> vpn \<Rightarrow> vpn" where
  "applySplit_start env split s =
     (case vp_endpoints s of
        Some endpoints \<Rightarrow>
          if vp_tunnelUp s then
            (case applyProxy env endpoints split (s\<lparr>vp_handler := None\<rparr>) of
               (Inl e, s1) \<Rightarrow> result (ResultError e) s1
             | (Inr value, s1) \<Rightarrow> await (SplitRouting (vp_handler s) split value) s1)
          else result (ResultError (ExtError NotConnected None)) s
      | None \<Rightarrow> result (ResultError (ExtError NotConnected None)) s)"

definition split_done :: "vpn_env \<Rightarrow> set_outcome \<Rightarrow> fx_handler option \<Rightarrow> SplitTunnelConfig \<Rightarrow> json option \<Rightarrow> vpn \<Rightarrow> vpn" where
  "split_done env out previous split value s =
     (let s1 = set_settings out value s
      in case set_error env out value of
           Some e \<Rightarrow> result (ResultError e) s1
         | None \<Rightarrow>
             (let s2 = (case previous of None \<Rightarrow> s1 | Some h \<Rightarrow> s1\<lparr>br_handlers := removeAll h (br_handlers s1)\<rparr>)
              in (case verifyRouting env split s2 of
                    Some e \<Rightarrow> result (ResultError e) s2
                  | None \<Rightarrow> result (ResultOk JNull) s2)))"

section \<open>What the host says\<close>

definition question_type :: "question \<Rightarrow> string" where
  "question_type q = (case q of AskStatus \<Rightarrow> ''status'' | AskDatapath \<Rightarrow> ''hello'' | AskExits \<Rightarrow> ''exits'' | AskAccount m \<Rightarrow> ''account'')"

text \<open>What \<^verbatim>\<open>status\<close>, \<^verbatim>\<open>listExits\<close> and \<^verbatim>\<open>account\<close> return of the host's answer.\<close>

fun question_answer :: "question \<Rightarrow> json \<Rightarrow> json" where
  "question_answer AskStatus res =
     JObj (opt_prop ''state'' id (jget res ''state'') @ opt_prop ''endpoints'' id (truthy (jget res ''endpoints''))
       @ (if jget res ''via'' = Some (JStr ''system'') then [(''via'', JStr ''system'')] else [])
       @ opt_prop ''exit'' (\<lambda>x. JObj [(''country'', JStr (tx_country x)), (''city'', JStr (tx_city x))]) (parseTunnelExit (jget res ''exit'')))"
| "question_answer AskExits res = or_null (jget res ''locations'')"
| "question_answer (AskAccount m) res = JObj (opt_prop ''expiresAt'' id (jget res ''expiresAt''))"
| "question_answer AskDatapath res = or_null (jget res ''datapath'')"

fun request_answered :: "continuation \<Rightarrow> json \<Rightarrow> vpn \<Rightarrow> vpn" where
  "request_answered (KConnect v) res s = connect_answered v res s"
| "request_answered KDisconnect res s = start_clearing s"
| "request_answered (KReconnect opts) res s = reconnect_released opts s"
| "request_answered (KQuestion q) res s =
     question_done (if jget res ''type'' = Some (JStr (question_type q)) then ResultOk (question_answer q res) else ResultError (ExtError ProtocolError None)) s"
| "request_answered KIgnored res s = s"

fun awaits_hello :: "nat \<Rightarrow> vpn_call \<Rightarrow> continuation option" where
  "awaits_hello n (AwaitHello m k) = (if m = n then Some k else None)"
| "awaits_hello n _ = None"

text \<open>The hello is refused: whoever waits for it is rejected.\<close>

definition hello_rejected :: "nat \<Rightarrow> ext_error \<Rightarrow> vpn \<Rightarrow> vpn" where
  "hello_rejected n e s =
     s\<lparr>vp_hellos := (vp_hellos s)[n := Some (Inl e)],
       vp_calls := map (\<lambda>c. case awaits_hello n c of Some k \<Rightarrow> RejectedCall (WCall k) e | None \<Rightarrow> c) (vp_calls s)\<rparr>"

definition hello_accepted :: "vpn_env \<Rightarrow> nat \<Rightarrow> json option \<Rightarrow> vpn \<Rightarrow> vpn" where
  "hello_accepted env n datapath s =
     fold (\<lambda>k. after_hello env k datapath) (List.map_filter (awaits_hello n) (vp_calls s))
       (s\<lparr>vp_hellos := (vp_hellos s)[n := Some (Inr datapath)], vp_calls := filter (\<lambda>c. awaits_hello n c = None) (vp_calls s)\<rparr>)"

definition hello_answered :: "vpn_env \<Rightarrow> nat \<Rightarrow> bool \<Rightarrow> json \<Rightarrow> vpn \<Rightarrow> vpn" where
  "hello_answered env n ok res s =
     (if \<not> ok \<or> jget res ''type'' \<noteq> Some (JStr ''hello'') \<or> jget res ''protocol'' \<noteq> Some (JInt EXTENSION_PROTOCOL_VERSION)
      then hello_rejected n (ExtError ProtocolError None) (closePort s)
      else hello_accepted env n (jget res ''datapath'') s)"

definition onMessage :: "vpn_env \<Rightarrow> json \<Rightarrow> vpn \<Rightarrow> vpn" where
  "onMessage env raw s =
     (case parseHostMessage raw of
        None \<Rightarrow> s
      | Some (ParsedState st) \<Rightarrow> s\<lparr>vp_states := vp_states s @ [st]\<rparr>
      | Some (ParsedResponse i ok res) \<Rightarrow>
          (case find (\<lambda>(j, w). i = JInt (int j)) (vp_pending s) of
             None \<Rightarrow> s
           | Some (j, w) \<Rightarrow>
               (let s1 = s\<lparr>vp_pending := filter (\<lambda>(j', w'). j' \<noteq> j) (vp_pending s)\<rparr>
                in case w of
                     WHello n \<Rightarrow> hello_answered env n ok res s1
                   | WCall k \<Rightarrow>
                       if ok then request_answered k res s1
                       else request_failed k (ExtError HostError (jstring res ''code'')) s1)))"

definition port_lost :: "vpn_env \<Rightarrow> vpn \<Rightarrow> vpn" where
  "port_lost env s =
     (let lost = (vp_tunnelUp s \<and> \<not> vp_releasing s);
          s1 = reject_pending (s\<lparr>vp_portDead := True, vp_tunnelUp := False, vp_auth := None, vp_exit := None\<rparr>);
          s2 = (if lost \<and> ve_platform env = Chromium then await BlockingListener s1 else s1);
          s3 = (if vp_proxied s then s2\<lparr>vp_states := vp_states s2 @ [JStr ''failed'']\<rparr> else s2)
      in if lost then s3\<lparr>vp_hostLost := Suc (vp_hostLost s3)\<rparr> else s3)"

section \<open>The transition system\<close>

datatype vpn_event =
    Connect vpn_options
  | Reconnect vpn_options
  | Disconnect
  | ApplySplit SplitTunnelConfig
  | Ask question
  | FromHost json
  | PortLost
  | TimedOut
  | Settled nat set_outcome string bool "bool option"

text \<open>The settling of the \<open>k\<close>-th call in flight, with the outcome of a settings call and the three answers of a preflight.\<close>

fun settle_call :: "vpn_env \<Rightarrow> set_outcome \<Rightarrow> string \<Rightarrow> bool \<Rightarrow> bool option \<Rightarrow> vpn_call \<Rightarrow> vpn \<Rightarrow> vpn option" where
  "settle_call env out level b incognito (AwaitHello n k) s = None"
| "settle_call env out level b incognito (RejectedCall (WHello n) e) s = Some (hello_rejected n e s)"
| "settle_call env out level b incognito (RejectedCall (WCall k) e) s = Some (request_failed k e s)"
| "settle_call env out level b incognito (Preflight v) s =
     Some (if out = SetThrows then connect_failed v ForeignError s else preflight_done env level b incognito v s)"
| "settle_call env out level b incognito (Hardening v res) s =
     Some (if out = SetThrows then connect_failed v ForeignError s else hardened_done env v res s)"
| "settle_call env out level b incognito (Routing v res value) s = Some (routing_done env out v res value s)"
| "settle_call env out level b incognito (Restoring v e) s = Some (restore_done (out \<noteq> SetThrows) b v e s)"
| "settle_call env out level b incognito ClearingSettings s = Some (clearing_done (out \<noteq> SetThrows) b s)"
| "settle_call env out level b incognito (LockdownFirst opts) s = Some (lockdown_done env out opts s)"
| "settle_call env out level b incognito BlockingListener s = Some (set_settings out (Some (buildChromiumLockdownValue [])) s)"
| "settle_call env out level b incognito (SplitRouting previous split value) s = Some (split_done env out previous split value s)"

fun timed :: "continuation \<Rightarrow> bool" where
  "timed KDisconnect = True"
| "timed (KReconnect opts) = True"
| "timed _ = False"

text \<open>The bound on an explicit disconnect: the request is left to itself and the release goes on.\<close>

definition forget_k :: "continuation \<Rightarrow> continuation" where
  "forget_k k = (if timed k then KIgnored else k)"

fun forget_w :: "waiter \<Rightarrow> waiter" where
  "forget_w (WCall k) = WCall (forget_k k)"
| "forget_w (WHello n) = WHello n"

fun forget_c :: "vpn_call \<Rightarrow> vpn_call" where
  "forget_c (AwaitHello n k) = AwaitHello n (forget_k k)"
| "forget_c (RejectedCall w e) = RejectedCall (forget_w w) e"
| "forget_c c = c"

definition forget_waiter :: "vpn \<Rightarrow> vpn" where
  "forget_waiter s = s\<lparr>vp_pending := map (map_prod id forget_w) (vp_pending s), vp_calls := map forget_c (vp_calls s)\<rparr>"

fun waiter_timed :: "waiter \<Rightarrow> continuation list" where
  "waiter_timed (WCall k) = (if timed k then [k] else [])"
| "waiter_timed (WHello n) = []"

fun call_timed :: "vpn_call \<Rightarrow> continuation list" where
  "call_timed (AwaitHello n k) = (if timed k then [k] else [])"
| "call_timed c = []"

definition timed_waiters :: "vpn \<Rightarrow> continuation list" where
  "timed_waiters s = concat (map (waiter_timed \<circ> snd) (vp_pending s)) @ concat (map call_timed (vp_calls s))"

definition ask :: "vpn_env \<Rightarrow> question \<Rightarrow> vpn \<Rightarrow> vpn" where
  "ask env q s = request_host env (KQuestion q) (s\<lparr>vp_questions := Suc (vp_questions s)\<rparr>)"

fun vpn_step :: "vpn_env \<Rightarrow> vpn_event \<Rightarrow> vpn \<Rightarrow> vpn option" where
  "vpn_step env (Connect opts) s = Some (connect_start opts s)"
| "vpn_step env (Reconnect opts) s = Some (reconnect_start env opts s)"
| "vpn_step env Disconnect s = Some (disconnect_start env s)"
| "vpn_step env (ApplySplit split) s = Some (applySplit_start env split s)"
| "vpn_step env (Ask q) s = Some (ask env q s)"
| "vpn_step env (FromHost raw) s = (if portAlive s then Some (onMessage env raw s) else None)"
| "vpn_step env PortLost s = (if portAlive s then Some (port_lost env s) else None)"
| "vpn_step env TimedOut s =
     (case timed_waiters s of [k] \<Rightarrow> Some (request_failed k ForeignError (forget_waiter s)) | _ \<Rightarrow> None)"
| "vpn_step env (Settled k out level b incognito) s =
     (if k < length (vp_calls s)
      then settle_call env out level b incognito (vp_calls s ! k) (s\<lparr>vp_calls := take k (vp_calls s) @ drop (Suc k) (vp_calls s)\<rparr>)
      else None)"

fun vpn_run :: "vpn_env \<Rightarrow> vpn_event list \<Rightarrow> vpn \<Rightarrow> vpn option" where
  "vpn_run env [] s = Some s"
| "vpn_run env (e # es) s = Option.bind (vpn_step env e s) (vpn_run env es)"

section \<open>Orderly use\<close>

text \<open>
  Connect, reconnect and disconnect are called one at a time, the host is asked nothing while a connect is in flight,
  and the browser carries out the settings calls of an explicit disconnect.
\<close>

definition busy :: "vpn \<Rightarrow> bool" where
  "busy s \<longleftrightarrow> vp_connecting s \<or> vp_releasing s \<or> list_ex (\<lambda>c. case c of LockdownFirst opts \<Rightarrow> True | _ \<Rightarrow> False) (vp_calls s)"

fun orderly :: "vpn_event \<Rightarrow> vpn \<Rightarrow> bool" where
  "orderly (Connect opts) s = (\<not> busy s)"
| "orderly (Reconnect opts) s = (\<not> busy s)"
| "orderly Disconnect s = (\<not> busy s)"
| "orderly (Ask q) s = (\<not> vp_connecting s)"
| "orderly (Settled k out level b incognito) s = (k < length (vp_calls s) \<and> vp_calls s ! k = ClearingSettings \<longrightarrow> out \<noteq> SetThrows \<and> b)"
| "orderly _ s = True"

fun orderly_run :: "vpn_env \<Rightarrow> vpn_event list \<Rightarrow> vpn \<Rightarrow> bool" where
  "orderly_run env [] s = True"
| "orderly_run env (e # es) s = (orderly e s \<and> (case vpn_step env e s of None \<Rightarrow> True | Some s' \<Rightarrow> orderly_run env es s'))"

end
