(* ===== verification/Vpn_Balance.thy ===== *)
theory Vpn_Balance
  imports Browser_Vpn
begin

text \<open>
  The bookkeeping invariant of the VPN client: over orderly runs one connect or one release is in flight at a time, and
  the flags of the object say which.
\<close>

section \<open>One connect or release at a time\<close>

text \<open>
  A connect in flight is somewhere in exactly one place: a browser call, a waiter for the hello, a waiter for an answer,
  or a rejection not yet delivered. The same holds for a release, the part of a disconnect or reconnect that lets the
  host go. The weights count these places.
\<close>

fun kconn :: "continuation \<Rightarrow> nat" where
  "kconn (KConnect v) = 1"
| "kconn _ = 0"

fun krel :: "continuation \<Rightarrow> nat" where
  "krel KDisconnect = 1"
| "krel (KReconnect opts) = 1"
| "krel _ = 0"

fun wconn :: "waiter \<Rightarrow> nat" where
  "wconn (WCall k) = kconn k"
| "wconn (WHello n) = 0"

fun wrel :: "waiter \<Rightarrow> nat" where
  "wrel (WCall k) = krel k"
| "wrel (WHello n) = 0"

fun cconn :: "vpn_call \<Rightarrow> nat" where
  "cconn (AwaitHello n k) = kconn k"
| "cconn (RejectedCall w e) = wconn w"
| "cconn (Preflight v) = 1"
| "cconn (Hardening v res) = 1"
| "cconn (Routing v res value) = 1"
| "cconn (Restoring v e) = 1"
| "cconn _ = 0"

fun crel :: "vpn_call \<Rightarrow> nat" where
  "crel (AwaitHello n k) = krel k"
| "crel (RejectedCall w e) = wrel w"
| "crel ClearingSettings = 1"
| "crel _ = 0"

fun clock :: "vpn_call \<Rightarrow> nat" where
  "clock (LockdownFirst opts) = 1"
| "clock _ = 0"

definition nconn :: "vpn \<Rightarrow> nat" where
  "nconn s = sum_list (map cconn (vp_calls s)) + sum_list (map (wconn \<circ> snd) (vp_pending s))"

definition nrel :: "vpn \<Rightarrow> nat" where
  "nrel s = sum_list (map crel (vp_calls s)) + sum_list (map (wrel \<circ> snd) (vp_pending s))"

definition nlock :: "vpn \<Rightarrow> nat" where
  "nlock s = sum_list (map clock (vp_calls s))"

text \<open>
  \<open>a\<close> and \<open>b\<close> weigh what the code holds in its hands between two awaits: the state plus these is balanced.
\<close>

definition balanced :: "nat \<Rightarrow> nat \<Rightarrow> vpn \<Rightarrow> bool" where
  "balanced a b s \<longleftrightarrow>
     nconn s + a = of_bool (vp_connecting s) \<and> nrel s + b = of_bool (vp_releasing s) \<and>
     nlock s + of_bool (vp_connecting s) + of_bool (vp_releasing s) \<le> 1 \<and> \<not> (vp_connecting s \<and> vp_tunnelUp s) \<and>
     distinct (map fst (vp_pending s)) \<and> (\<forall>i \<in> fst ` set (vp_pending s). i < vp_nextId s)"

lemmas weights = nconn_def nrel_def nlock_def

lemma pending_weights:
  "sum_list (map (cconn \<circ> (\<lambda>(i, w). RejectedCall w e)) ps) = sum_list (map (wconn \<circ> snd) ps)"
  "sum_list (map (crel \<circ> (\<lambda>(i, w). RejectedCall w e)) ps) = sum_list (map (wrel \<circ> snd) ps)"
  "sum_list (map (clock \<circ> (\<lambda>(i, w). RejectedCall w e)) ps) = 0"
  by (induction ps) auto

lemma weights_frame [simp]:
  "nconn (await c s) = nconn s + cconn c" "nrel (await c s) = nrel s + crel c" "nlock (await c s) = nlock s + clock c"
  "nconn (result r s) = nconn s" "nrel (result r s) = nrel s" "nlock (result r s) = nlock s"
  "nconn (closePort s) = nconn s" "nrel (closePort s) = nrel s" "nlock (closePort s) = nlock s"
  "nconn (reject_pending s) = nconn s" "nrel (reject_pending s) = nrel s" "nlock (reject_pending s) = nlock s"
  "nconn (post w body s) = nconn s + wconn w" "nrel (post w body s) = nrel s + wrel w" "nlock (post w body s) = nlock s"
  "nconn (removeOnRequestHandler s) = nconn s" "nrel (removeOnRequestHandler s) = nrel s" "nlock (removeOnRequestHandler s) = nlock s"
  by (auto simp: weights await_def result_def closePort_def reject_pending_def post_def removeOnRequestHandler_def
      pending_weights split: option.split)

lemma flags_frame [simp]:
  "vp_connecting (await c s) = vp_connecting s" "vp_releasing (await c s) = vp_releasing s" "vp_tunnelUp (await c s) = vp_tunnelUp s"
  "vp_connecting (result r s) = vp_connecting s" "vp_releasing (result r s) = vp_releasing s" "vp_tunnelUp (result r s) = vp_tunnelUp s"
  "vp_connecting (closePort s) = vp_connecting s" "vp_releasing (closePort s) = vp_releasing s" "vp_tunnelUp (closePort s) = vp_tunnelUp s"
  "vp_connecting (post w body s) = vp_connecting s" "vp_releasing (post w body s) = vp_releasing s" "vp_tunnelUp (post w body s) = vp_tunnelUp s"
  "vp_connecting (removeOnRequestHandler s) = vp_connecting s" "vp_releasing (removeOnRequestHandler s) = vp_releasing s"
  "vp_tunnelUp (removeOnRequestHandler s) = vp_tunnelUp s"
  "vp_pending (await c s) = vp_pending s" "vp_pending (result r s) = vp_pending s" "vp_pending (closePort s) = []"
  "vp_pending (removeOnRequestHandler s) = vp_pending s"
  "vp_nextId (await c s) = vp_nextId s" "vp_nextId (result r s) = vp_nextId s" "vp_nextId (closePort s) = vp_nextId s"
  "vp_nextId (removeOnRequestHandler s) = vp_nextId s"
  by (auto simp: await_def result_def closePort_def reject_pending_def post_def removeOnRequestHandler_def split: option.split)

text \<open>Updates of fields the balance does not read.\<close>

lemma weights_update [simp]:
  "nconn (s\<lparr>vp_port := x0\<rparr>) = nconn s" "nrel (s\<lparr>vp_port := x0\<rparr>) = nrel s" "nlock (s\<lparr>vp_port := x0\<rparr>) = nlock s"
  "nconn (s\<lparr>vp_portDead := x1\<rparr>) = nconn s" "nrel (s\<lparr>vp_portDead := x1\<rparr>) = nrel s" "nlock (s\<lparr>vp_portDead := x1\<rparr>) = nlock s"
  "nconn (s\<lparr>vp_handshake := x2\<rparr>) = nconn s" "nrel (s\<lparr>vp_handshake := x2\<rparr>) = nrel s" "nlock (s\<lparr>vp_handshake := x2\<rparr>) = nlock s"
  "nconn (s\<lparr>vp_hellos := x3\<rparr>) = nconn s" "nrel (s\<lparr>vp_hellos := x3\<rparr>) = nrel s" "nlock (s\<lparr>vp_hellos := x3\<rparr>) = nlock s"
  "nconn (s\<lparr>vp_proxied := x4\<rparr>) = nconn s" "nrel (s\<lparr>vp_proxied := x4\<rparr>) = nrel s" "nlock (s\<lparr>vp_proxied := x4\<rparr>) = nlock s"
  "nconn (s\<lparr>vp_tunnelUp := x5\<rparr>) = nconn s" "nrel (s\<lparr>vp_tunnelUp := x5\<rparr>) = nrel s" "nlock (s\<lparr>vp_tunnelUp := x5\<rparr>) = nlock s"
  "nconn (s\<lparr>vp_endpoints := x6\<rparr>) = nconn s" "nrel (s\<lparr>vp_endpoints := x6\<rparr>) = nrel s" "nlock (s\<lparr>vp_endpoints := x6\<rparr>) = nlock s"
  "nconn (s\<lparr>vp_auth := x7\<rparr>) = nconn s" "nrel (s\<lparr>vp_auth := x7\<rparr>) = nrel s" "nlock (s\<lparr>vp_auth := x7\<rparr>) = nlock s"
  "nconn (s\<lparr>vp_exit := x8\<rparr>) = nconn s" "nrel (s\<lparr>vp_exit := x8\<rparr>) = nrel s" "nlock (s\<lparr>vp_exit := x8\<rparr>) = nlock s"
  "nconn (s\<lparr>vp_connecting := x9\<rparr>) = nconn s" "nrel (s\<lparr>vp_connecting := x9\<rparr>) = nrel s" "nlock (s\<lparr>vp_connecting := x9\<rparr>) = nlock s"
  "nconn (s\<lparr>vp_questions := x10\<rparr>) = nconn s" "nrel (s\<lparr>vp_questions := x10\<rparr>) = nrel s" "nlock (s\<lparr>vp_questions := x10\<rparr>) = nlock s"
  "nconn (s\<lparr>vp_releasing := x11\<rparr>) = nconn s" "nrel (s\<lparr>vp_releasing := x11\<rparr>) = nrel s" "nlock (s\<lparr>vp_releasing := x11\<rparr>) = nlock s"
  "nconn (s\<lparr>vp_nextId := x12\<rparr>) = nconn s" "nrel (s\<lparr>vp_nextId := x12\<rparr>) = nrel s" "nlock (s\<lparr>vp_nextId := x12\<rparr>) = nlock s"
  "nconn (s\<lparr>vp_handler := x13\<rparr>) = nconn s" "nrel (s\<lparr>vp_handler := x13\<rparr>) = nrel s" "nlock (s\<lparr>vp_handler := x13\<rparr>) = nlock s"
  "nconn (s\<lparr>vp_opened := x14\<rparr>) = nconn s" "nrel (s\<lparr>vp_opened := x14\<rparr>) = nrel s" "nlock (s\<lparr>vp_opened := x14\<rparr>) = nlock s"
  "nconn (s\<lparr>vp_registered := x15\<rparr>) = nconn s" "nrel (s\<lparr>vp_registered := x15\<rparr>) = nrel s" "nlock (s\<lparr>vp_registered := x15\<rparr>) = nlock s"
  "nconn (s\<lparr>vp_posted := x16\<rparr>) = nconn s" "nrel (s\<lparr>vp_posted := x16\<rparr>) = nrel s" "nlock (s\<lparr>vp_posted := x16\<rparr>) = nlock s"
  "nconn (s\<lparr>vp_states := x17\<rparr>) = nconn s" "nrel (s\<lparr>vp_states := x17\<rparr>) = nrel s" "nlock (s\<lparr>vp_states := x17\<rparr>) = nlock s"
  "nconn (s\<lparr>vp_hostLost := x18\<rparr>) = nconn s" "nrel (s\<lparr>vp_hostLost := x18\<rparr>) = nrel s" "nlock (s\<lparr>vp_hostLost := x18\<rparr>) = nlock s"
  "nconn (s\<lparr>vp_results := x19\<rparr>) = nconn s" "nrel (s\<lparr>vp_results := x19\<rparr>) = nrel s" "nlock (s\<lparr>vp_results := x19\<rparr>) = nlock s"
  "nconn (s\<lparr>br_settings := x20\<rparr>) = nconn s" "nrel (s\<lparr>br_settings := x20\<rparr>) = nrel s" "nlock (s\<lparr>br_settings := x20\<rparr>) = nlock s"
  "nconn (s\<lparr>br_handlers := x21\<rparr>) = nconn s" "nrel (s\<lparr>br_handlers := x21\<rparr>) = nrel s" "nlock (s\<lparr>br_handlers := x21\<rparr>) = nlock s"
  "nconn (s\<lparr>br_leaksClosed := x22\<rparr>) = nconn s" "nrel (s\<lparr>br_leaksClosed := x22\<rparr>) = nrel s" "nlock (s\<lparr>br_leaksClosed := x22\<rparr>) = nlock s"
  by (simp_all add: weights)

lemma balanced_update [simp]:
  "balanced a b (s\<lparr>vp_port := p\<rparr>) = balanced a b s"
  "balanced a b (s\<lparr>vp_portDead := d\<rparr>) = balanced a b s"
  "balanced a b (s\<lparr>vp_handshake := h\<rparr>) = balanced a b s"
  "balanced a b (s\<lparr>vp_hellos := hs\<rparr>) = balanced a b s"
  "balanced a b (s\<lparr>vp_proxied := d\<rparr>) = balanced a b s"
  "balanced a b (s\<lparr>vp_endpoints := en\<rparr>) = balanced a b s"
  "balanced a b (s\<lparr>vp_auth := au\<rparr>) = balanced a b s"
  "balanced a b (s\<lparr>vp_exit := ex\<rparr>) = balanced a b s"
  "balanced a b (s\<lparr>vp_questions := n\<rparr>) = balanced a b s"
  "balanced a b (s\<lparr>vp_handler := hdl\<rparr>) = balanced a b s"
  "balanced a b (s\<lparr>vp_opened := n\<rparr>) = balanced a b s"
  "balanced a b (s\<lparr>vp_registered := n\<rparr>) = balanced a b s"
  "balanced a b (s\<lparr>vp_states := st\<rparr>) = balanced a b s"
  "balanced a b (s\<lparr>vp_hostLost := n\<rparr>) = balanced a b s"
  "balanced a b (s\<lparr>br_settings := v\<rparr>) = balanced a b s"
  "balanced a b (s\<lparr>br_handlers := hds\<rparr>) = balanced a b s"
  "balanced a b (s\<lparr>br_leaksClosed := d\<rparr>) = balanced a b s"
  by (simp_all add: balanced_def weights)

lemma balanced_ops [simp]:
  "balanced a b (result r s) = balanced a b s"
  "balanced a b (removeOnRequestHandler s) = balanced a b s"
  "balanced a b (set_settings out v s) = balanced a b s"
  by (auto simp: balanced_def set_settings_def)

lemma balanced_await: "balanced a b (await c s) \<longleftrightarrow>
    balanced (a + cconn c) (b + crel c) s \<and> nlock s + clock c + of_bool (vp_connecting s) + of_bool (vp_releasing s) \<le> 1"
  by (auto simp: balanced_def)

lemma balanced_waits [simp]: "clock c = 0 \<Longrightarrow> balanced a b (await c s) = balanced (a + cconn c) (b + crel c) s"
  by (auto simp: balanced_def)

lemma balanced_close [simp]: "balanced a b s \<Longrightarrow> balanced a b (closePort s)"
  by (auto simp: balanced_def)

lemma balanced_post [simp]: "balanced (wconn w + a) (wrel w + b) s \<Longrightarrow> balanced a b (post w body s)"
  by (auto simp: balanced_def) (auto simp: post_def less_Suc_eq)

lemma balanced_connect_end: "balanced (Suc a) b s \<Longrightarrow> balanced a b (connect_end v e s)"
  by (auto simp: balanced_def connect_end_def of_bool_def split: if_splits)

lemma balanced_connect_failed: "balanced (Suc a) b s \<Longrightarrow> balanced a b (connect_failed v e s)"
  unfolding connect_failed_def Let_def
  by (simp add: balanced_connect_end)

lemma balanced_question_done [simp]: "balanced a b s \<Longrightarrow> balanced a b (question_done r s)"
  by (simp add: question_done_def Let_def)

lemma balanced_start_clearing: "balanced a (Suc b) s \<Longrightarrow> balanced a b (start_clearing s)"
  by (simp add: start_clearing_def)

lemma balanced_release: "balanced a (Suc b) s \<Longrightarrow>
    balanced a b (release_host s) \<and> \<not> vp_connecting (release_host s) \<and> \<not> vp_releasing (release_host s) \<and>
    \<not> vp_tunnelUp (release_host s) \<and> nlock (release_host s) = 0 \<and> a = 0 \<and> b = 0"
  by (auto simp: balanced_def release_host_def of_bool_def split: if_splits)

lemma balanced_connect_start:
  "balanced 0 0 s \<Longrightarrow> \<not> vp_releasing s \<Longrightarrow> nlock s = 0 \<Longrightarrow> balanced 0 0 (connect_start opts s)"
  by (auto simp: connect_start_def balanced_await) (auto simp: balanced_def)

lemma balanced_request_failed: "balanced (kconn k + a) (krel k + b) s \<Longrightarrow> balanced a b (request_failed k e s)"
proof (cases k)
  case (KReconnect opts)
  assume "balanced (kconn k + a) (krel k + b) s"
  with KReconnect balanced_release [of a b s] show ?thesis
    by (auto simp: reconnect_released_def intro: balanced_connect_start)
qed (auto simp: balanced_connect_failed balanced_start_clearing)

lemma balanced_openPort: "openPort env s = Inr s' \<Longrightarrow> balanced a b s' = balanced a b s"
  by (auto simp: openPort_def split: if_splits)

lemma balanced_after_hello: "balanced (kconn k + a) (krel k + b) s \<Longrightarrow> balanced a b (after_hello env k d s)"
  using balanced_openPort [of env s _ "kconn k + a" "krel k + b"]
  by (auto simp: after_hello_def balanced_request_failed split: sum.split)

lemma balanced_hello: "balanced a b s \<Longrightarrow> balanced a b (hello env s)"
  by (simp add: hello_def)

lemma balanced_request_host:
  assumes "balanced (kconn k + a) (krel k + b) s"
  shows "balanced a b (request_host env k s)"
proof (cases "openPort env s")
  case (Inl e)
  with assms show ?thesis by (simp add: request_host_def balanced_request_failed)
next
  case (Inr s1)
  with assms balanced_openPort have b: "balanced (kconn k + a) (krel k + b) s1" by blast
  then show ?thesis
    using Inr by (auto simp: request_host_def balanced_hello balanced_request_failed balanced_after_hello add.commute split: option.split sum.split)
qed

lemma balanced_preflight_done:
  "balanced (Suc a) b s \<Longrightarrow> balanced a b (preflight_done env level leaksHeld incognito v s)"
  by (simp add: preflight_done_def Let_def balanced_connect_failed balanced_request_host)

lemma balanced_connect_answered: "balanced (Suc a) b s \<Longrightarrow> balanced a b (connect_answered v res s)"
  by (simp add: connect_answered_def balanced_connect_failed)

lemma balanced_applyProxy: "applyProxy env endpoints split s = (r, s') \<Longrightarrow> balanced a b s' = balanced a b s"
  by (auto simp: applyProxy_def registerFirefoxOnRequest_def Let_def split: ExtensionPlatform.splits option.splits)

lemma balanced_hardened_done: "balanced (Suc a) b s \<Longrightarrow> balanced a b (hardened_done env v res s)"
  by (auto simp: hardened_done_def Let_def balanced_connect_failed balanced_applyProxy split: prod.split sum.split)

lemma balanced_routing_done: "balanced (Suc a) b s \<Longrightarrow> balanced a b (routing_done env out v res value s)"
  unfolding routing_done_def Let_def
  by (simp add: balanced_connect_failed split: option.split) (auto simp: balanced_def set_settings_def)

lemma balanced_restore_done: "balanced (Suc a) b s \<Longrightarrow> balanced a b (restore_done ok1 ok2 v e s)"
  by (simp add: restore_done_def Let_def balanced_connect_end)

lemma balanced_clearing_done: "balanced a (Suc b) s \<Longrightarrow> balanced a b (clearing_done ok1 ok2 s)"
  using balanced_release by (simp add: clearing_done_def Let_def)

lemma balanced_releasing:
  "balanced 0 0 s \<Longrightarrow> \<not> vp_connecting s \<Longrightarrow> \<not> vp_releasing s \<Longrightarrow> nlock s = 0 \<Longrightarrow> balanced 0 (Suc 0) (s\<lparr>vp_releasing := True\<rparr>)"
  by (simp add: balanced_def)

lemma balanced_disconnect_start:
  "balanced 0 0 s \<Longrightarrow> \<not> vp_connecting s \<Longrightarrow> \<not> vp_releasing s \<Longrightarrow> nlock s = 0 \<Longrightarrow> balanced 0 0 (disconnect_start env s)"
  using balanced_releasing [of s] by (simp add: disconnect_start_def Let_def balanced_request_host balanced_start_clearing)

lemma balanced_reconnect_released: "balanced 0 (Suc 0) s \<Longrightarrow> balanced 0 0 (reconnect_released opts s)"
  using balanced_request_failed [of "KReconnect opts" 0 0 s] by simp

lemma balanced_reconnect_release:
  "balanced 0 0 s \<Longrightarrow> \<not> vp_connecting s \<Longrightarrow> \<not> vp_releasing s \<Longrightarrow> nlock s = 0 \<Longrightarrow> balanced 0 0 (reconnect_release env opts s)"
  using balanced_releasing [of s] by (simp add: reconnect_release_def Let_def balanced_request_host balanced_reconnect_released)

lemma balanced_reconnect_start:
  "balanced 0 0 s \<Longrightarrow> \<not> vp_connecting s \<Longrightarrow> \<not> vp_releasing s \<Longrightarrow> nlock s = 0 \<Longrightarrow> balanced 0 0 (reconnect_start env opts s)"
  by (simp add: reconnect_start_def balanced_connect_start balanced_reconnect_release balanced_await)

lemma balanced_lockdown_done:
  "balanced 0 0 s \<Longrightarrow> \<not> vp_connecting s \<Longrightarrow> \<not> vp_releasing s \<Longrightarrow> nlock s = 0 \<Longrightarrow> balanced 0 0 (lockdown_done env out opts s)"
  using balanced_reconnect_release [of "set_settings out (Some (buildChromiumLockdownValue [])) s"]
  by (simp add: lockdown_done_def) (simp add: set_settings_def)

lemma balanced_applySplit_start: "balanced a b s \<Longrightarrow> balanced a b (applySplit_start env split s)"
  by (auto simp: applySplit_start_def balanced_applyProxy split: option.split prod.split sum.split)

lemma balanced_split_done: "balanced a b s \<Longrightarrow> balanced a b (split_done env out previous split value s)"
  by (simp add: split_done_def Let_def split: option.split)

lemma balanced_request_answered: "balanced (kconn k) (krel k) s \<Longrightarrow> balanced 0 0 (request_answered k res s)"
  by (cases k) (simp_all add: balanced_connect_answered balanced_start_clearing balanced_reconnect_released)

lemma awaits_weights: "awaits_hello n c = Some k \<Longrightarrow> cconn c = kconn k \<and> crel c = krel k \<and> clock c = 0"
  by (cases c) (auto split: if_splits)

lemma sum_list_map_eq: "(\<And>x. x \<in> set xs \<Longrightarrow> f (g x) = f x) \<Longrightarrow> sum_list (map f (map g xs)) = sum_list (map f xs)"
  by (induction xs) auto

lemma balanced_hello_rejected: "balanced a b s \<Longrightarrow> balanced a b (hello_rejected n e s)"
proof -
  let ?g = "\<lambda>c. case awaits_hello n c of Some k \<Rightarrow> RejectedCall (WCall k) e | None \<Rightarrow> c"
  have "cconn (?g c) = cconn c" "crel (?g c) = crel c" "clock (?g c) = clock c" for c
    using awaits_weights [of n c] by (auto split: option.split)
  then have "sum_list (map cconn (map ?g cs)) = sum_list (map cconn cs)" "sum_list (map crel (map ?g cs)) = sum_list (map crel cs)"
    "sum_list (map clock (map ?g cs)) = sum_list (map clock cs)" for cs
    using sum_list_map_eq [of cs _ ?g] by blast+
  then show "balanced a b s \<Longrightarrow> ?thesis" by (simp add: balanced_def hello_rejected_def weights del: map_map)
qed

lemma awaiting_split:
  "sum_list (map cconn cs) = sum_list (map cconn (filter (\<lambda>c. awaits_hello n c = None) cs)) + sum_list (map kconn (List.map_filter (awaits_hello n) cs))"
  "sum_list (map crel cs) = sum_list (map crel (filter (\<lambda>c. awaits_hello n c = None) cs)) + sum_list (map krel (List.map_filter (awaits_hello n) cs))"
  "sum_list (map clock cs) = sum_list (map clock (filter (\<lambda>c. awaits_hello n c = None) cs))"
  using awaits_weights by (induction cs) (auto simp: List.map_filter_simps split: option.split)

lemma balanced_after_hellos:
  "balanced (sum_list (map kconn ks) + a) (sum_list (map krel ks) + b) s \<Longrightarrow>
   balanced a b (fold (\<lambda>k. after_hello env k d) ks s)"
proof (induction ks arbitrary: s)
  case (Cons k ks)
  then show ?case using balanced_after_hello [of k "sum_list (map kconn ks) + a" "sum_list (map krel ks) + b" s env d]
    by (simp add: add.assoc)
qed simp

lemma balanced_hello_accepted:
  assumes "balanced a b s"
  shows "balanced a b (hello_accepted env n d s)"
proof -
  let ?ks = "List.map_filter (awaits_hello n) (vp_calls s)"
  have "balanced (sum_list (map kconn ?ks) + a) (sum_list (map krel ?ks) + b)
      (s\<lparr>vp_hellos := (vp_hellos s)[n := Some (Inr d)], vp_calls := filter (\<lambda>c. awaits_hello n c = None) (vp_calls s)\<rparr>)"
    using assms awaiting_split [of "vp_calls s" n] by (auto simp: balanced_def weights simp del: sum_list_eq_0_iff)
  from balanced_after_hellos [OF this] show ?thesis by (simp add: hello_accepted_def)
qed

lemma balanced_hello_answered: "balanced a b s \<Longrightarrow> balanced a b (hello_answered env n ok res s)"
  by (simp add: hello_answered_def balanced_hello_rejected balanced_hello_accepted)

lemma waiter_split:
  fixes f :: "nat \<times> waiter \<Rightarrow> nat"
  assumes "distinct (map fst ps)" "(j, w) \<in> set ps"
  shows "sum_list (map f ps) = f (j, w) + sum_list (map f (filter (\<lambda>(j', w'). j' \<noteq> j) ps))"
  using assms
proof (induction ps)
  case (Cons p ps)
  obtain i u where p: "p = (i, u)" by (cases p)
  show ?case
  proof (cases "i = j")
    case True
    with Cons.prems p have "j \<notin> fst ` set ps" by auto
    then have "filter (\<lambda>(j', w'). j' \<noteq> j) ps = ps" by (auto simp: filter_id_conv image_iff)
    moreover from True Cons.prems p \<open>j \<notin> fst ` set ps\<close> have "u = w" by force
    ultimately show ?thesis using True p by simp
  next
    case False
    with Cons p show ?thesis by auto
  qed
qed simp

text \<open>A waiter taken out of the map is in the hands of the code.\<close>

lemma balanced_take_waiter:
  assumes "balanced 0 0 s" "(j, w) \<in> set (vp_pending s)"
  shows "balanced (wconn w) (wrel w) (s\<lparr>vp_pending := filter (\<lambda>(j', w'). j' \<noteq> j) (vp_pending s)\<rparr>)"
proof -
  have d: "distinct (map fst (vp_pending s))" using assms(1) by (simp add: balanced_def)
  have "distinct (map fst (filter P (vp_pending s)))" for P
    using d by (simp add: distinct_map_filter)
  then show ?thesis
    using assms waiter_split [OF d assms(2), of "wconn \<circ> snd"] waiter_split [OF d assms(2), of "wrel \<circ> snd"]
    by (auto simp: balanced_def weights simp del: sum_list_eq_0_iff)
qed

lemma find_waiter: "find (\<lambda>(j, w). i = JInt (int j)) ps = Some (j, w) \<Longrightarrow> (j, w) \<in> set ps"
  by (auto simp: find_Some_iff) (metis nth_mem)

lemma balanced_onMessage:
  assumes "balanced 0 0 s"
  shows "balanced 0 0 (onMessage env raw s)"
proof -
  have waiter: "balanced 0 0 (case w of WHello n \<Rightarrow> hello_answered env n ok res s1
      | WCall k \<Rightarrow> if ok then request_answered k res s1 else request_failed k e s1)"
    if "find (\<lambda>(j, w). i = JInt (int j)) (vp_pending s) = Some (j, w)"
      "s1 = s\<lparr>vp_pending := filter (\<lambda>(j', w'). j' \<noteq> j) (vp_pending s)\<rparr>" for i j w s1 ok res e
    using balanced_take_waiter [OF assms find_waiter [OF that(1)]] that(2)
    by (cases w) (auto simp: balanced_hello_answered balanced_request_answered balanced_request_failed)
  show ?thesis
    using assms waiter by (auto simp: onMessage_def Let_def split: option.split parsed_message.split)
qed

lemma balanced_reject_pending: "balanced a b s \<Longrightarrow> balanced a b (reject_pending s)"
  by (auto simp: balanced_def) (auto simp: reject_pending_def)

lemma balanced_port_lost: "balanced a b s \<Longrightarrow> balanced a b (port_lost env s)"
proof -
  assume "balanced a b s"
  then have "balanced a b (reject_pending (s\<lparr>vp_portDead := True, vp_tunnelUp := False, vp_auth := None, vp_exit := None\<rparr>))"
    by (intro balanced_reject_pending) (auto simp: balanced_def)
  then show ?thesis by (simp add: port_lost_def Let_def)
qed

lemma timed_weights: "timed k \<Longrightarrow> kconn k = 0 \<and> krel k = 1" "\<not> timed k \<Longrightarrow> krel k = 0"
  by (cases k; simp)+

lemma forget_weights:
  "wconn (forget_w w) = wconn w" "wrel (forget_w w) + length (waiter_timed w) = wrel w"
  "cconn (forget_c c) = cconn c" "crel (forget_c c) + length (call_timed c) \<le> crel c" "clock (forget_c c) = clock c"
proof -
  show w: "wconn (forget_w w) = wconn w" "wrel (forget_w w) + length (waiter_timed w) = wrel w" for w
    using timed_weights by (cases w; simp add: forget_k_def)+
  have "wrel (forget_w w) \<le> wrel w" for w using w(2) [of w] by linarith
  then show "cconn (forget_c c) = cconn c" "crel (forget_c c) + length (call_timed c) \<le> crel c" "clock (forget_c c) = clock c"
    using timed_weights w by (cases c; simp add: forget_k_def)+
qed

lemma forget_sums:
  "sum_list (map (wconn \<circ> snd) (map (map_prod id forget_w) ps)) = sum_list (map (wconn \<circ> snd) (ps :: (nat \<times> waiter) list))"
  "sum_list (map (wrel \<circ> snd) (map (map_prod id forget_w) ps)) + length (concat (map (waiter_timed \<circ> snd) ps)) = sum_list (map (wrel \<circ> snd) ps)"
  "sum_list (map cconn (map forget_c cs)) = sum_list (map cconn cs)"
  "sum_list (map crel (map forget_c cs)) + length (concat (map call_timed cs)) \<le> sum_list (map crel cs)"
  "sum_list (map clock (map forget_c cs)) = sum_list (map clock cs)"
proof -
  show "sum_list (map (wconn \<circ> snd) (map (map_prod id forget_w) ps)) = sum_list (map (wconn \<circ> snd) ps)"
    by (induction ps) (simp_all add: forget_weights)
  show "sum_list (map (wrel \<circ> snd) (map (map_prod id forget_w) ps)) + length (concat (map (waiter_timed \<circ> snd) ps)) = sum_list (map (wrel \<circ> snd) ps)"
  proof (induction ps)
    case (Cons p ps)
    then show ?case using forget_weights(2) [of "snd p"] by (simp del: map_map)
  qed simp
  show "sum_list (map cconn (map forget_c cs)) = sum_list (map cconn cs)" "sum_list (map clock (map forget_c cs)) = sum_list (map clock cs)"
    by (induction cs) (simp_all add: forget_weights)
  show "sum_list (map crel (map forget_c cs)) + length (concat (map call_timed cs)) \<le> sum_list (map crel cs)"
  proof (induction cs)
    case (Cons c cs)
    then show ?case using forget_weights(4) [of c] by (simp del: map_map)
  qed simp
qed

lemma balanced_forget:
  assumes "balanced 0 0 s" "timed_waiters s = [k]"
  shows "balanced (kconn k) (krel k) (forget_waiter s)"
proof -
  have "k \<in> set (timed_waiters s)" using assms(2) by simp
  moreover have "k \<in> set (waiter_timed w) \<Longrightarrow> timed k" "k \<in> set (call_timed c) \<Longrightarrow> timed k" for w c
    by (cases w; simp split: if_splits) (cases c; simp split: if_splits)
  ultimately have "timed k" by (auto simp: timed_waiters_def)
  then have k: "kconn k = 0" "krel k = 1" using timed_weights by simp_all
  have "length (timed_waiters s) = 1" using assms(2) by simp
  then have "nrel (forget_waiter s) + 1 \<le> nrel s"
    using forget_sums(2) [of "vp_pending s"] forget_sums(4) [of "vp_calls s"]
    by (simp add: timed_waiters_def forget_waiter_def nrel_def del: map_map length_concat)
  moreover have "nconn (forget_waiter s) = nconn s" "nlock (forget_waiter s) = nlock s"
    using forget_sums(1) [of "vp_pending s"] forget_sums(3,5) [of "vp_calls s"] by (simp_all add: forget_waiter_def weights del: map_map)
  moreover have "map fst (vp_pending (forget_waiter s)) = map fst (vp_pending s)"
    by (simp add: forget_waiter_def)
  moreover have "fst ` set (vp_pending (forget_waiter s)) = fst ` set (vp_pending s)"
    using calculation(4) by (metis list.set_map)
  moreover have "vp_connecting (forget_waiter s) = vp_connecting s" "vp_releasing (forget_waiter s) = vp_releasing s"
    "vp_tunnelUp (forget_waiter s) = vp_tunnelUp s" "vp_nextId (forget_waiter s) = vp_nextId s"
    by (simp_all add: forget_waiter_def)
  ultimately show ?thesis using assms(1) k by (auto simp: balanced_def of_bool_def split: if_splits)
qed

lemma not_busy:
  assumes "\<not> busy s"
  shows "\<not> vp_connecting s \<and> \<not> vp_releasing s \<and> nlock s = 0"
proof -
  have "clock c = 0" if "\<not> (case c of LockdownFirst opts \<Rightarrow> True | _ \<Rightarrow> False)" for c
    using that by (cases c) simp_all
  with assms show ?thesis by (simp add: busy_def nlock_def list_ex_iff)
qed

lemma call_split:
  fixes f :: "vpn_call \<Rightarrow> nat"
  shows "k < length cs \<Longrightarrow> sum_list (map f cs) = f (cs ! k) + sum_list (map f (take k cs @ drop (Suc k) cs))"
  by (subst id_take_nth_drop) auto

text \<open>A settled call is in the hands of the code.\<close>

lemma balanced_take_call:
  assumes "balanced 0 0 s" "k < length (vp_calls s)"
  shows "balanced (cconn (vp_calls s ! k)) (crel (vp_calls s ! k)) (s\<lparr>vp_calls := take k (vp_calls s) @ drop (Suc k) (vp_calls s)\<rparr>)"
    and "clock (vp_calls s ! k) = 1 \<Longrightarrow> \<not> vp_connecting s \<and> \<not> vp_releasing s \<and>
      nlock (s\<lparr>vp_calls := take k (vp_calls s) @ drop (Suc k) (vp_calls s)\<rparr>) = 0"
  using assms(1) call_split [OF assms(2), of cconn] call_split [OF assms(2), of crel] call_split [OF assms(2), of clock]
  by (auto simp: balanced_def weights of_bool_def simp del: sum_list_eq_0_iff split: if_splits)

lemma balanced_settle:
  assumes "balanced (cconn c) (crel c) s" "settle_call env out level b incognito c s = Some s'"
    "clock c = 1 \<Longrightarrow> \<not> vp_connecting s \<and> \<not> vp_releasing s \<and> nlock s = 0"
  shows "balanced 0 0 s'"
proof (cases c)
  case (RejectedCall w e)
  with assms show ?thesis by (cases w) (auto simp: balanced_hello_rejected balanced_request_failed)
qed (use assms in \<open>auto simp: balanced_connect_failed balanced_preflight_done balanced_hardened_done balanced_routing_done
      balanced_restore_done balanced_clearing_done balanced_lockdown_done balanced_split_done\<close>)

lemma balanced_step:
  assumes "balanced 0 0 s" "orderly e s" "vpn_step env e s = Some s'"
  shows "balanced 0 0 s'"
proof (cases e)
  case (Settled k out level b incognito)
  then show ?thesis
    using assms balanced_take_call [OF assms(1), of k]
    by (auto split: if_splits intro!: balanced_settle)
next
  case TimedOut
  then show ?thesis
    using assms balanced_forget [OF assms(1)] by (auto simp: balanced_request_failed split: list.splits)
qed (use assms not_busy [of s] in \<open>auto simp: balanced_connect_start balanced_reconnect_start balanced_disconnect_start
      balanced_applySplit_start balanced_onMessage balanced_port_lost ask_def balanced_request_host split: if_splits\<close>)

end
