(* ===== verification/Vpn_Credentials.thy ===== *)
theory Vpn_Credentials
  imports Vpn_Balance
begin

text \<open>
  The credentials of the native host's listeners: the VPN client holds them, and hands them out, only while the port of
  the host that minted them is open.
\<close>

section \<open>Credentials of a live host\<close>

text \<open>
  The second invariant ties the credentials to the port: they are held only while the port whose hello was accepted is
  open. A connect is late once the host has answered it, and \<open>routing\<close> while it waits for the proxy settings.
\<close>

fun is_late :: "vpn_call \<Rightarrow> bool" where
  "is_late (Hardening v res) = True"
| "is_late (Routing v res value) = True"
| "is_late _ = False"

fun is_routing :: "vpn_call \<Rightarrow> bool" where
  "is_routing (Routing v res value) = True"
| "is_routing _ = False"

definition late :: "vpn \<Rightarrow> bool" where
  "late s \<longleftrightarrow> list_ex is_late (vp_calls s)"

definition routing :: "vpn \<Rightarrow> bool" where
  "routing s \<longleftrightarrow> list_ex is_routing (vp_calls s)"

definition accepted :: "vpn \<Rightarrow> bool" where
  "accepted s \<longleftrightarrow> (\<exists>n d. vp_handshake s = Some n \<and> n < length (vp_hellos s) \<and> vp_hellos s ! n = Some (Inr d))"

definition asked_connect :: "vpn \<Rightarrow> bool" where
  "asked_connect s \<longleftrightarrow> list_ex (\<lambda>p. wconn (snd p) \<noteq> 0) (vp_pending s)"

fun whello :: "waiter \<Rightarrow> nat list" where
  "whello (WHello n) = [n]"
| "whello (WCall k) = []"

fun chello :: "vpn_call \<Rightarrow> nat list" where
  "chello (RejectedCall w e) = whello w"
| "chello _ = []"

text \<open>The hellos that wait for an answer, and those rejected and not yet told so.\<close>

definition asked_hellos :: "vpn \<Rightarrow> nat list" where
  "asked_hellos s = concat (map (whello \<circ> snd) (vp_pending s))"

definition dropped_hellos :: "vpn \<Rightarrow> nat list" where
  "dropped_hellos s = concat (map chello (vp_calls s))"

definition hellos_ok :: "vpn \<Rightarrow> bool" where
  "hellos_ok s \<longleftrightarrow>
     (\<forall>n. vp_handshake s = Some n \<longrightarrow> n < length (vp_hellos s)) \<and> (\<not> portAlive s \<longrightarrow> vp_pending s = []) \<and>
     (\<forall>n \<in> set (asked_hellos s). vp_handshake s = Some n \<and> vp_hellos s ! n = None) \<and> length (asked_hellos s) \<le> 1 \<and>
     (\<forall>n \<in> set (dropped_hellos s). n < length (vp_hellos s) \<and> (portAlive s \<longrightarrow> vp_handshake s \<noteq> Some n))"

definition held_ok :: "vpn \<Rightarrow> bool" where
  "held_ok s \<longleftrightarrow>
     (late s \<longrightarrow> vp_port s \<noteq> None \<and> (\<not> vp_portDead s \<longrightarrow> accepted s)) \<and> (asked_connect s \<longrightarrow> portAlive s \<and> accepted s) \<and>
     (vp_auth s \<noteq> None \<longrightarrow> portAlive s \<and> accepted s \<and> (vp_tunnelUp s \<or> vp_connecting s))"

definition auth_routing :: "vpn \<Rightarrow> bool" where
  "auth_routing s \<longleftrightarrow> (vp_auth s \<noteq> None \<and> vp_connecting s \<longrightarrow> routing s)"

definition cred_ok :: "vpn \<Rightarrow> bool" where
  "cred_ok s \<longleftrightarrow> hellos_ok s \<and> held_ok s \<and> auth_routing s"

lemmas creds = cred_ok_def hellos_ok_def held_ok_def auth_routing_def

lemma nothing_late: "nconn s = 0 \<Longrightarrow> \<not> late s \<and> \<not> routing s \<and> \<not> asked_connect s"
proof -
  have "cconn c = 0 \<Longrightarrow> \<not> is_late c \<and> \<not> is_routing c" for c by (cases c) simp_all
  then show "nconn s = 0 \<Longrightarrow> ?thesis"
    by (auto simp: nconn_def late_def routing_def asked_connect_def list_ex_iff)
qed

lemma in_hand: "balanced (Suc a) b s \<Longrightarrow> \<not> late s \<and> \<not> routing s \<and> \<not> asked_connect s \<and> vp_connecting s"
  using nothing_late [of s] by (auto simp: balanced_def of_bool_def split: if_splits)

lemma not_connecting: "balanced a b s \<Longrightarrow> \<not> vp_connecting s \<Longrightarrow> \<not> late s \<and> \<not> routing s \<and> \<not> asked_connect s"
  using nothing_late [of s] by (simp add: balanced_def)

text \<open>The credentials are gone while the connect is in the code's hands outside its last wait.\<close>

lemma in_hand_auth: "balanced (Suc a) b s \<Longrightarrow> cred_ok s \<Longrightarrow> vp_auth s = None"
  using in_hand [of a b s] by (simp add: cred_ok_def auth_routing_def)

lemma late_simps [simp]:
  "late (await c s) \<longleftrightarrow> late s \<or> is_late c" "routing (await c s) \<longleftrightarrow> routing s \<or> is_routing c"
  "late (result r s) = late s" "routing (result r s) = routing s"
  "late (closePort s) = late s" "routing (closePort s) = routing s"
  "late (post w body s) = late s" "routing (post w body s) = routing s"
  "late (removeOnRequestHandler s) = late s" "routing (removeOnRequestHandler s) = routing s"
  by (auto simp: late_def routing_def await_def result_def closePort_def reject_pending_def post_def removeOnRequestHandler_def
      list_ex_iff split: option.split)

lemma late_update [simp]:
  "late (s\<lparr>vp_port := x0\<rparr>) = late s" "routing (s\<lparr>vp_port := x0\<rparr>) = routing s" "asked_connect (s\<lparr>vp_port := x0\<rparr>) = asked_connect s"
  "late (s\<lparr>vp_portDead := x1\<rparr>) = late s" "routing (s\<lparr>vp_portDead := x1\<rparr>) = routing s" "asked_connect (s\<lparr>vp_portDead := x1\<rparr>) = asked_connect s"
  "late (s\<lparr>vp_handshake := x2\<rparr>) = late s" "routing (s\<lparr>vp_handshake := x2\<rparr>) = routing s" "asked_connect (s\<lparr>vp_handshake := x2\<rparr>) = asked_connect s"
  "late (s\<lparr>vp_hellos := x3\<rparr>) = late s" "routing (s\<lparr>vp_hellos := x3\<rparr>) = routing s" "asked_connect (s\<lparr>vp_hellos := x3\<rparr>) = asked_connect s"
  "late (s\<lparr>vp_proxied := x4\<rparr>) = late s" "routing (s\<lparr>vp_proxied := x4\<rparr>) = routing s" "asked_connect (s\<lparr>vp_proxied := x4\<rparr>) = asked_connect s"
  "late (s\<lparr>vp_tunnelUp := x5\<rparr>) = late s" "routing (s\<lparr>vp_tunnelUp := x5\<rparr>) = routing s" "asked_connect (s\<lparr>vp_tunnelUp := x5\<rparr>) = asked_connect s"
  "late (s\<lparr>vp_endpoints := x6\<rparr>) = late s" "routing (s\<lparr>vp_endpoints := x6\<rparr>) = routing s" "asked_connect (s\<lparr>vp_endpoints := x6\<rparr>) = asked_connect s"
  "late (s\<lparr>vp_auth := x7\<rparr>) = late s" "routing (s\<lparr>vp_auth := x7\<rparr>) = routing s" "asked_connect (s\<lparr>vp_auth := x7\<rparr>) = asked_connect s"
  "late (s\<lparr>vp_exit := x8\<rparr>) = late s" "routing (s\<lparr>vp_exit := x8\<rparr>) = routing s" "asked_connect (s\<lparr>vp_exit := x8\<rparr>) = asked_connect s"
  "late (s\<lparr>vp_connecting := x9\<rparr>) = late s" "routing (s\<lparr>vp_connecting := x9\<rparr>) = routing s" "asked_connect (s\<lparr>vp_connecting := x9\<rparr>) = asked_connect s"
  "late (s\<lparr>vp_questions := x10\<rparr>) = late s" "routing (s\<lparr>vp_questions := x10\<rparr>) = routing s" "asked_connect (s\<lparr>vp_questions := x10\<rparr>) = asked_connect s"
  "late (s\<lparr>vp_releasing := x11\<rparr>) = late s" "routing (s\<lparr>vp_releasing := x11\<rparr>) = routing s" "asked_connect (s\<lparr>vp_releasing := x11\<rparr>) = asked_connect s"
  "late (s\<lparr>vp_nextId := x12\<rparr>) = late s" "routing (s\<lparr>vp_nextId := x12\<rparr>) = routing s" "asked_connect (s\<lparr>vp_nextId := x12\<rparr>) = asked_connect s"
  "late (s\<lparr>vp_handler := x13\<rparr>) = late s" "routing (s\<lparr>vp_handler := x13\<rparr>) = routing s" "asked_connect (s\<lparr>vp_handler := x13\<rparr>) = asked_connect s"
  "late (s\<lparr>vp_opened := x14\<rparr>) = late s" "routing (s\<lparr>vp_opened := x14\<rparr>) = routing s" "asked_connect (s\<lparr>vp_opened := x14\<rparr>) = asked_connect s"
  "late (s\<lparr>vp_registered := x15\<rparr>) = late s" "routing (s\<lparr>vp_registered := x15\<rparr>) = routing s" "asked_connect (s\<lparr>vp_registered := x15\<rparr>) = asked_connect s"
  "late (s\<lparr>vp_posted := x16\<rparr>) = late s" "routing (s\<lparr>vp_posted := x16\<rparr>) = routing s" "asked_connect (s\<lparr>vp_posted := x16\<rparr>) = asked_connect s"
  "late (s\<lparr>vp_states := x17\<rparr>) = late s" "routing (s\<lparr>vp_states := x17\<rparr>) = routing s" "asked_connect (s\<lparr>vp_states := x17\<rparr>) = asked_connect s"
  "late (s\<lparr>vp_hostLost := x18\<rparr>) = late s" "routing (s\<lparr>vp_hostLost := x18\<rparr>) = routing s" "asked_connect (s\<lparr>vp_hostLost := x18\<rparr>) = asked_connect s"
  "late (s\<lparr>vp_results := x19\<rparr>) = late s" "routing (s\<lparr>vp_results := x19\<rparr>) = routing s" "asked_connect (s\<lparr>vp_results := x19\<rparr>) = asked_connect s"
  "late (s\<lparr>br_settings := x20\<rparr>) = late s" "routing (s\<lparr>br_settings := x20\<rparr>) = routing s" "asked_connect (s\<lparr>br_settings := x20\<rparr>) = asked_connect s"
  "late (s\<lparr>br_handlers := x21\<rparr>) = late s" "routing (s\<lparr>br_handlers := x21\<rparr>) = routing s" "asked_connect (s\<lparr>br_handlers := x21\<rparr>) = asked_connect s"
  "late (s\<lparr>br_leaksClosed := x22\<rparr>) = late s" "routing (s\<lparr>br_leaksClosed := x22\<rparr>) = routing s" "asked_connect (s\<lparr>br_leaksClosed := x22\<rparr>) = asked_connect s"
  by (simp_all add: late_def routing_def asked_connect_def)

lemma hello_lists_update [simp]:
  "asked_hellos (s\<lparr>vp_port := x0\<rparr>) = asked_hellos s" "dropped_hellos (s\<lparr>vp_port := x0\<rparr>) = dropped_hellos s"
  "asked_hellos (s\<lparr>vp_portDead := x1\<rparr>) = asked_hellos s" "dropped_hellos (s\<lparr>vp_portDead := x1\<rparr>) = dropped_hellos s"
  "asked_hellos (s\<lparr>vp_handshake := x2\<rparr>) = asked_hellos s" "dropped_hellos (s\<lparr>vp_handshake := x2\<rparr>) = dropped_hellos s"
  "asked_hellos (s\<lparr>vp_hellos := x3\<rparr>) = asked_hellos s" "dropped_hellos (s\<lparr>vp_hellos := x3\<rparr>) = dropped_hellos s"
  "asked_hellos (s\<lparr>vp_proxied := x4\<rparr>) = asked_hellos s" "dropped_hellos (s\<lparr>vp_proxied := x4\<rparr>) = dropped_hellos s"
  "asked_hellos (s\<lparr>vp_tunnelUp := x5\<rparr>) = asked_hellos s" "dropped_hellos (s\<lparr>vp_tunnelUp := x5\<rparr>) = dropped_hellos s"
  "asked_hellos (s\<lparr>vp_endpoints := x6\<rparr>) = asked_hellos s" "dropped_hellos (s\<lparr>vp_endpoints := x6\<rparr>) = dropped_hellos s"
  "asked_hellos (s\<lparr>vp_auth := x7\<rparr>) = asked_hellos s" "dropped_hellos (s\<lparr>vp_auth := x7\<rparr>) = dropped_hellos s"
  "asked_hellos (s\<lparr>vp_exit := x8\<rparr>) = asked_hellos s" "dropped_hellos (s\<lparr>vp_exit := x8\<rparr>) = dropped_hellos s"
  "asked_hellos (s\<lparr>vp_connecting := x9\<rparr>) = asked_hellos s" "dropped_hellos (s\<lparr>vp_connecting := x9\<rparr>) = dropped_hellos s"
  "asked_hellos (s\<lparr>vp_questions := x10\<rparr>) = asked_hellos s" "dropped_hellos (s\<lparr>vp_questions := x10\<rparr>) = dropped_hellos s"
  "asked_hellos (s\<lparr>vp_releasing := x11\<rparr>) = asked_hellos s" "dropped_hellos (s\<lparr>vp_releasing := x11\<rparr>) = dropped_hellos s"
  "asked_hellos (s\<lparr>vp_nextId := x12\<rparr>) = asked_hellos s" "dropped_hellos (s\<lparr>vp_nextId := x12\<rparr>) = dropped_hellos s"
  "asked_hellos (s\<lparr>vp_handler := x13\<rparr>) = asked_hellos s" "dropped_hellos (s\<lparr>vp_handler := x13\<rparr>) = dropped_hellos s"
  "asked_hellos (s\<lparr>vp_opened := x14\<rparr>) = asked_hellos s" "dropped_hellos (s\<lparr>vp_opened := x14\<rparr>) = dropped_hellos s"
  "asked_hellos (s\<lparr>vp_registered := x15\<rparr>) = asked_hellos s" "dropped_hellos (s\<lparr>vp_registered := x15\<rparr>) = dropped_hellos s"
  "asked_hellos (s\<lparr>vp_posted := x16\<rparr>) = asked_hellos s" "dropped_hellos (s\<lparr>vp_posted := x16\<rparr>) = dropped_hellos s"
  "asked_hellos (s\<lparr>vp_states := x17\<rparr>) = asked_hellos s" "dropped_hellos (s\<lparr>vp_states := x17\<rparr>) = dropped_hellos s"
  "asked_hellos (s\<lparr>vp_hostLost := x18\<rparr>) = asked_hellos s" "dropped_hellos (s\<lparr>vp_hostLost := x18\<rparr>) = dropped_hellos s"
  "asked_hellos (s\<lparr>vp_results := x19\<rparr>) = asked_hellos s" "dropped_hellos (s\<lparr>vp_results := x19\<rparr>) = dropped_hellos s"
  "asked_hellos (s\<lparr>br_settings := x20\<rparr>) = asked_hellos s" "dropped_hellos (s\<lparr>br_settings := x20\<rparr>) = dropped_hellos s"
  "asked_hellos (s\<lparr>br_handlers := x21\<rparr>) = asked_hellos s" "dropped_hellos (s\<lparr>br_handlers := x21\<rparr>) = dropped_hellos s"
  "asked_hellos (s\<lparr>br_leaksClosed := x22\<rparr>) = asked_hellos s" "dropped_hellos (s\<lparr>br_leaksClosed := x22\<rparr>) = dropped_hellos s"
  by (simp_all add: asked_hellos_def dropped_hellos_def)

lemma hello_lists [simp]:
  "asked_hellos (await c s) = asked_hellos s" "dropped_hellos (await c s) = dropped_hellos s @ chello c"
  "asked_hellos (result r s) = asked_hellos s" "dropped_hellos (result r s) = dropped_hellos s"
  "asked_hellos (closePort s) = []" "dropped_hellos (closePort s) = dropped_hellos s @ asked_hellos s"
  "asked_hellos (reject_pending s) = []" "dropped_hellos (reject_pending s) = dropped_hellos s @ asked_hellos s"
  "asked_hellos (post w body s) = asked_hellos s @ whello w" "dropped_hellos (post w body s) = dropped_hellos s"
  "asked_hellos (removeOnRequestHandler s) = asked_hellos s" "dropped_hellos (removeOnRequestHandler s) = dropped_hellos s"
proof -
  have "concat (map (chello \<circ> (\<lambda>(i, w). RejectedCall w e)) ps) = concat (map (whello \<circ> snd) ps)" for e and ps :: "(nat \<times> waiter) list"
    by (induction ps) auto
  then show "dropped_hellos (closePort s) = dropped_hellos s @ asked_hellos s" "dropped_hellos (reject_pending s) = dropped_hellos s @ asked_hellos s"
    by (simp_all add: dropped_hellos_def asked_hellos_def closePort_def reject_pending_def)
qed (auto simp: asked_hellos_def dropped_hellos_def await_def result_def closePort_def reject_pending_def post_def removeOnRequestHandler_def
      split: option.split)

lemma no_hellos [simp]: "vp_pending s = [] \<Longrightarrow> asked_hellos s = []"
  by (simp add: asked_hellos_def)

lemma accepted_update [simp]:
  "accepted (s\<lparr>vp_port := x0\<rparr>) = accepted s"
  "accepted (s\<lparr>vp_portDead := x1\<rparr>) = accepted s"
  "accepted (s\<lparr>vp_proxied := x2\<rparr>) = accepted s"
  "accepted (s\<lparr>vp_tunnelUp := x3\<rparr>) = accepted s"
  "accepted (s\<lparr>vp_endpoints := x4\<rparr>) = accepted s"
  "accepted (s\<lparr>vp_auth := x5\<rparr>) = accepted s"
  "accepted (s\<lparr>vp_exit := x6\<rparr>) = accepted s"
  "accepted (s\<lparr>vp_connecting := x7\<rparr>) = accepted s"
  "accepted (s\<lparr>vp_questions := x8\<rparr>) = accepted s"
  "accepted (s\<lparr>vp_releasing := x9\<rparr>) = accepted s"
  "accepted (s\<lparr>vp_nextId := x10\<rparr>) = accepted s"
  "accepted (s\<lparr>vp_handler := x11\<rparr>) = accepted s"
  "accepted (s\<lparr>vp_opened := x12\<rparr>) = accepted s"
  "accepted (s\<lparr>vp_registered := x13\<rparr>) = accepted s"
  "accepted (s\<lparr>vp_posted := x14\<rparr>) = accepted s"
  "accepted (s\<lparr>vp_states := x15\<rparr>) = accepted s"
  "accepted (s\<lparr>vp_hostLost := x16\<rparr>) = accepted s"
  "accepted (s\<lparr>vp_results := x17\<rparr>) = accepted s"
  "accepted (s\<lparr>br_settings := x18\<rparr>) = accepted s"
  "accepted (s\<lparr>br_handlers := x19\<rparr>) = accepted s"
  "accepted (s\<lparr>br_leaksClosed := x20\<rparr>) = accepted s"
  "accepted (s\<lparr>vp_calls := cs\<rparr>) = accepted s" "accepted (s\<lparr>vp_pending := ps\<rparr>) = accepted s"
  by (simp_all add: accepted_def)

lemma cred_frames [simp]:
  "cred_ok (result r s) = cred_ok s" "cred_ok (removeOnRequestHandler s) = cred_ok s" "cred_ok (set_settings out v s) = cred_ok s"
  by (auto simp: creds late_def routing_def asked_connect_def accepted_def result_def removeOnRequestHandler_def set_settings_def
      split: option.split)

lemma accepted_frames [simp]:
  "accepted (await c s) = accepted s" "accepted (result r s) = accepted s" "accepted (post w body s) = accepted s"
  "accepted (removeOnRequestHandler s) = accepted s" "accepted (closePort s) = accepted s"
  by (auto simp: accepted_def await_def result_def post_def removeOnRequestHandler_def closePort_def reject_pending_def split: option.split)

lemma port_frames [simp]:
  "vp_port (await c s) = vp_port s" "vp_portDead (await c s) = vp_portDead s"
  "vp_port (result r s) = vp_port s" "vp_portDead (result r s) = vp_portDead s"
  "vp_port (post w body s) = vp_port s" "vp_portDead (post w body s) = vp_portDead s"
  "vp_auth (await c s) = vp_auth s" "vp_auth (result r s) = vp_auth s" "vp_auth (post w body s) = vp_auth s"
  "vp_auth (removeOnRequestHandler s) = vp_auth s" "vp_auth (closePort s) = vp_auth s"
  "vp_hellos (await c s) = vp_hellos s" "vp_handshake (await c s) = vp_handshake s"
  "vp_hellos (post w body s) = vp_hellos s" "vp_handshake (post w body s) = vp_handshake s"
  by (auto simp: await_def result_def post_def removeOnRequestHandler_def closePort_def reject_pending_def split: option.split)

lemma cred_updates [simp]:
  "cred_ok (s\<lparr>vp_questions := n\<rparr>) = cred_ok s"
  "cred_ok (s\<lparr>vp_endpoints := en\<rparr>) = cred_ok s"
  "cred_ok (s\<lparr>vp_handler := hdl\<rparr>) = cred_ok s"
  "cred_ok (s\<lparr>vp_exit := ex\<rparr>) = cred_ok s"
  "cred_ok (s\<lparr>vp_proxied := d\<rparr>) = cred_ok s"
  "cred_ok (s\<lparr>vp_releasing := d\<rparr>) = cred_ok s"
  "cred_ok (s\<lparr>vp_states := st\<rparr>) = cred_ok s"
  "cred_ok (s\<lparr>vp_hostLost := n\<rparr>) = cred_ok s"
  "cred_ok (s\<lparr>vp_registered := n\<rparr>) = cred_ok s"
  "cred_ok (s\<lparr>br_settings := v\<rparr>) = cred_ok s"
  "cred_ok (s\<lparr>br_handlers := hds\<rparr>) = cred_ok s"
  "cred_ok (s\<lparr>br_leaksClosed := d\<rparr>) = cred_ok s"
  by (simp_all add: creds late_def routing_def asked_connect_def accepted_def)

text \<open>A wait of another kind than a rejected hello or a late connect changes nothing.\<close>

fun plain_call :: "vpn_call \<Rightarrow> bool" where
  "plain_call (RejectedCall w e) = False"
| "plain_call (Hardening v res) = False"
| "plain_call (Routing v res value) = False"
| "plain_call _ = True"

lemma plain_call_not: "plain_call c \<Longrightarrow> \<not> is_late c \<and> \<not> is_routing c \<and> chello c = []"
  by (cases c) simp_all

lemma cred_await [simp]: "plain_call c \<Longrightarrow> cred_ok (await c s) = cred_ok s"
  using plain_call_not [of c] by (simp add: creds asked_connect_def)

lemma cred_connecting: "cred_ok s \<Longrightarrow> vp_auth s = None \<Longrightarrow> cred_ok (s\<lparr>vp_connecting := c\<rparr>)"
  by (simp add: creds late_def asked_connect_def accepted_def)

lemma close_frames [simp]:
  "vp_port (closePort s) = None" "vp_portDead (closePort s) = False" "vp_hellos (closePort s) = vp_hellos s"
  "vp_handshake (closePort s) = vp_handshake s" "vp_pending (closePort s) = []" "\<not> asked_connect (closePort s)"
  by (simp_all add: closePort_def reject_pending_def asked_connect_def)

lemma hellos_close: "hellos_ok s \<Longrightarrow> hellos_ok (closePort s)"
  by (auto simp: hellos_ok_def)

lemma cred_close: "cred_ok s \<Longrightarrow> \<not> late s \<Longrightarrow> vp_auth s = None \<Longrightarrow> cred_ok (closePort s)"
  by (simp add: cred_ok_def hellos_close held_ok_def auth_routing_def)

lemma cred_no_auth: "hellos_ok s \<Longrightarrow> held_ok s \<Longrightarrow> cred_ok (s\<lparr>vp_endpoints := en, vp_auth := None\<rparr>)"
  by (simp add: creds late_def asked_connect_def accepted_def)

lemma cred_connect_end: "cred_ok s \<Longrightarrow> \<not> late s \<Longrightarrow> vp_auth s = None \<Longrightarrow> cred_ok (connect_end v e s)"
  by (auto simp: connect_end_def intro!: cred_connecting cred_close)

lemma cred_connect_failed: "hellos_ok s \<Longrightarrow> held_ok s \<Longrightarrow> \<not> late s \<Longrightarrow> cred_ok (connect_failed v e s)"
  using cred_no_auth [of s None]
  by (auto simp: connect_failed_def Let_def intro!: cred_connect_end)

lemma cred_question_done:
  assumes "balanced a b s" "cred_ok s"
  shows "cred_ok (question_done r s)"
proof (cases "vp_tunnelUp s \<or> vp_connecting s")
  case True
  with assms show ?thesis by (auto simp: question_done_def Let_def)
next
  case False
  then have "\<not> late s" "vp_auth s = None" using assms not_connecting [of a b s] by (auto simp: creds)
  with assms show ?thesis by (auto simp: question_done_def Let_def intro!: cred_close)
qed

lemma cred_start_clearing: "cred_ok s \<Longrightarrow> cred_ok (start_clearing s)"
  by (simp add: start_clearing_def)

lemma cred_release:
  assumes "balanced a (Suc b) s" "cred_ok s"
  shows "cred_ok (release_host s) \<and> vp_auth (release_host s) = None"
proof -
  from assms(1) have "\<not> vp_connecting s" by (auto simp: balanced_def of_bool_def split: if_splits)
  with assms have "\<not> late s" using not_connecting by blast
  moreover have "cred_ok (s\<lparr>vp_tunnelUp := False, vp_endpoints := None, vp_auth := None, vp_exit := None\<rparr>)"
    using assms(2) by (simp add: creds late_def asked_connect_def accepted_def)
  ultimately show ?thesis unfolding release_host_def by (auto intro!: cred_close)
qed

lemma cred_connect_start: "cred_ok s \<Longrightarrow> vp_auth s = None \<Longrightarrow> cred_ok (connect_start opts s)"
  by (simp add: connect_start_def cred_connecting)

lemma idle_auth: "balanced a b s \<Longrightarrow> cred_ok s \<Longrightarrow> \<not> vp_connecting s \<Longrightarrow> \<not> vp_tunnelUp s \<Longrightarrow> vp_auth s = None"
  by (auto simp: creds)

lemma cred_reconnect_released: "balanced a (Suc b) s \<Longrightarrow> cred_ok s \<Longrightarrow> cred_ok (reconnect_released opts s)"
  using cred_release by (auto simp: reconnect_released_def intro: cred_connect_start)

lemma cred_request_failed:
  assumes "balanced (kconn k + a) (krel k + b) s" "cred_ok s"
  shows "cred_ok (request_failed k e s)"
proof (cases k)
  case (KConnect v)
  with assms show ?thesis using in_hand [of a b s] cred_connect_failed [of s v e] by (simp add: cred_ok_def)
qed (use assms in \<open>auto simp: cred_start_clearing intro: cred_reconnect_released cred_question_done\<close>)

lemma cred_openPort:
  assumes "openPort env s = Inr s'" "cred_ok s" "portAlive s \<or> \<not> late s"
  shows "cred_ok s'" and "portAlive s'" and "portAlive s \<Longrightarrow> s' = s" and "late s' = late s"
proof -
  show "portAlive s'" "portAlive s \<Longrightarrow> s' = s" "late s' = late s" using assms(1) by (auto simp: openPort_def split: if_splits)
  show "cred_ok s'"
  proof (cases "portAlive s")
    case True
    with assms show ?thesis by (auto simp: openPort_def)
  next
    case False
    with assms(2) have "vp_pending s = []" "vp_auth s = None" by (auto simp: creds)
    with False assms show ?thesis
      by (auto simp: openPort_def creds asked_connect_def split: if_splits)
  qed
qed

lemma cred_post:
  assumes "cred_ok s" "portAlive s" "wconn w \<noteq> 0 \<Longrightarrow> accepted s"
    "\<And>n. w = WHello n \<Longrightarrow> vp_handshake s = Some n \<and> vp_hellos s ! n = None \<and> asked_hellos s = []"
  shows "cred_ok (post w body s)"
proof -
  have "hellos_ok (post w body s)"
    using assms by (cases w) (auto simp: hellos_ok_def cred_ok_def)
  moreover have "asked_connect (post w body s) \<longleftrightarrow> asked_connect s \<or> wconn w \<noteq> 0"
    by (auto simp: asked_connect_def list_ex_iff post_def)
  ultimately show ?thesis using assms by (auto simp: cred_ok_def held_ok_def auth_routing_def)
qed

lemma cred_after_hello:
  assumes "balanced (kconn k + a) (krel k + b) s" "cred_ok s" "portAlive s \<or> \<not> late s" "kconn k \<noteq> 0 \<Longrightarrow> portAlive s \<and> accepted s"
  shows "cred_ok (after_hello env k d s)"
proof (cases "openPort env s")
  case (Inl e)
  with assms show ?thesis by (auto simp: after_hello_def intro: cred_request_failed cred_question_done)
next
  case (Inr s')
  note op = cred_openPort [OF Inr assms(2,3)]
  have "cred_ok (post (WCall k) (request_body env k) s')"
    using op assms(4) by (intro cred_post) auto
  with Inr assms show ?thesis by (auto simp: after_hello_def intro: cred_question_done)
qed

lemma cred_hello:
  assumes "cred_ok s" "portAlive s" "vp_handshake s = None"
  shows "cred_ok (hello env s)" and "late (hello env s) = late s"
proof -
  let ?s = "s\<lparr>vp_handshake := Some (length (vp_hellos s)), vp_hellos := vp_hellos s @ [None]\<rparr>"
  have "\<not> accepted s" using assms(3) by (simp add: accepted_def)
  then have "\<not> late s" "\<not> asked_connect s" "vp_auth s = None" using assms(1,2) by (auto simp: creds)
  moreover have none: "asked_hellos s = []" using assms(1,3) by (cases "asked_hellos s") (auto simp: creds)
  ultimately have "cred_ok ?s"
    using assms(1,2) by (auto simp: creds less_Suc_eq)
  then show "cred_ok (hello env s)" unfolding hello_def
    using assms(2) none by (intro cred_post) auto
  show "late (hello env s) = late s" by (simp add: hello_def)
qed

lemma accepted_hello: "cred_ok s \<Longrightarrow> vp_handshake s = Some n \<Longrightarrow> vp_hellos s ! n = Some (Inr d) \<Longrightarrow> accepted s"
  by (auto simp: creds accepted_def)

lemma cred_request_host:
  assumes "balanced (kconn k + a) (krel k + b) s" "cred_ok s" "portAlive s \<or> \<not> late s"
  shows "cred_ok (request_host env k s)"
proof (cases "openPort env s")
  case (Inl e)
  with assms show ?thesis by (auto simp: request_host_def intro: cred_request_failed)
next
  case (Inr s1)
  note op = cred_openPort [OF Inr assms(2,3)]
  have b: "balanced (kconn k + a) (krel k + b) s1" using assms(1) balanced_openPort [OF Inr] by simp
  show ?thesis
  proof (cases "vp_handshake s1")
    case None
    with Inr op cred_hello(1) [of s1 env] show ?thesis by (simp add: request_host_def)
  next
    case (Some n)
    show ?thesis
      using Inr Some op b accepted_hello [OF op(1) Some]
      by (auto simp: request_host_def intro: cred_request_failed cred_after_hello split: option.split sum.split)
  qed
qed

lemma cred_in_hand_failed: "balanced (Suc a) b s \<Longrightarrow> cred_ok s \<Longrightarrow> cred_ok (connect_failed v e s)"
  using in_hand [of a b s] cred_connect_failed [of s v e] by (simp add: cred_ok_def)

lemma cred_preflight_done:
  "balanced (Suc a) b s \<Longrightarrow> cred_ok s \<Longrightarrow> cred_ok (preflight_done env level leaksHeld incognito v s)"
  using in_hand [of a b s] cred_request_host [of "KConnect (v\<lparr>cv_before := if ve_hasGet env then br_settings s else None, cv_leaksHeld := leaksHeld\<rparr>)" a b s env]
  by (auto simp: preflight_done_def Let_def intro: cred_in_hand_failed)

lemma cred_connect_answered:
  assumes "balanced (Suc a) b s" "cred_ok s" "portAlive s" "accepted s"
  shows "cred_ok (connect_answered v res s)"
proof -
  have "vp_auth s = None" using assms in_hand_auth by blast
  moreover have "asked_connect (await (Hardening v res) s) = asked_connect s" by (simp add: asked_connect_def)
  ultimately have "cred_ok (await (Hardening v res) s)" using assms by (auto simp: creds)
  with assms show ?thesis by (auto simp: connect_answered_def intro: cred_in_hand_failed)
qed

lemma cred_register [simp]:
  "hellos_ok (registerFirefoxOnRequest l sp s) = hellos_ok s" "held_ok (registerFirefoxOnRequest l sp s) = held_ok s"
  "late (registerFirefoxOnRequest l sp s) = late s" "cred_ok (registerFirefoxOnRequest l sp s) = cred_ok s"
  "vp_connecting (registerFirefoxOnRequest l sp s) = vp_connecting s"
  by (simp_all add: registerFirefoxOnRequest_def Let_def creds)

lemma cred_applyProxy:
  assumes "applyProxy env endpoints split s = (r, s')"
  shows "hellos_ok s' = hellos_ok s \<and> held_ok s' = held_ok s \<and> late s' = late s \<and>
     vp_connecting s' = vp_connecting s \<and> cred_ok s' = cred_ok s"
proof -
  have "s' = s \<or> s' = registerFirefoxOnRequest (ep_socks5 endpoints) split s"
    using assms by (auto simp: applyProxy_def split: ExtensionPlatform.splits option.splits)
  then show ?thesis by auto
qed

lemma cred_hardened_done:
  assumes "balanced (Suc a) b s" "cred_ok s" "vp_port s \<noteq> None" "\<not> vp_portDead s \<Longrightarrow> accepted s"
  shows "cred_ok (hardened_done env v res s)"
proof -
  let ?s1 = "s\<lparr>br_leaksClosed := True\<rparr>"
  have h: "\<not> late s" "vp_connecting s" using in_hand [OF assms(1)] by simp_all
  show ?thesis
  proof (cases "vp_portDead s")
    case True
    with assms show ?thesis by (simp add: hardened_done_def cred_in_hand_failed)
  next
    case False
    define s2 where "s2 = ?s1\<lparr>vp_endpoints := Some (endpoints_of (jget res ''endpoints'')), vp_auth := listenerAuth (jget res ''auth'')\<rparr>"
    have s2: "hellos_ok s2" "held_ok s2" "\<not> late s2" "vp_connecting s2" "\<not> asked_connect s2" "portAlive s2" "accepted s2"
      using assms False h in_hand [OF assms(1)] by (auto simp: s2_def creds)
    obtain r s3 where ap: "applyProxy env (endpoints_of (jget res ''endpoints'')) (connect_split v) s2 = (r, s3)" by fastforce
    note a = cred_applyProxy [OF ap]
    have p3: "portAlive s3" "accepted s3" "asked_connect s3 = asked_connect s2"
      using ap s2 by (auto simp: applyProxy_def registerFirefoxOnRequest_def Let_def split: ExtensionPlatform.splits option.splits)
    have "cred_ok (await (Routing v' res val) s3)" for v' val
    proof -
      have "asked_connect (await (Routing v' res val) s3) = asked_connect s3" by (simp add: asked_connect_def)
      then show ?thesis using a s2 p3 by (auto simp: creds)
    qed
    moreover have "cred_ok (connect_failed v' e s3)" for v' e using a s2 by (intro cred_connect_failed) auto
    ultimately show ?thesis
      using False ap by (auto simp: hardened_done_def Let_def s2_def split: sum.split)
  qed
qed

lemma cred_routing_done:
  assumes "balanced (Suc a) b s" "hellos_ok s" "held_ok s"
  shows "cred_ok (routing_done env out v res value s)"
proof -
  let ?s1 = "set_settings out value s"
  have h: "\<not> late s" "vp_connecting s" using in_hand [OF assms(1)] by simp_all
  have s1: "hellos_ok ?s1" "held_ok ?s1" "\<not> late ?s1"
    using assms h by (auto simp: set_settings_def hellos_ok_def held_ok_def)
  have fail: "cred_ok (connect_failed v e ?s1)" for e using s1 by (intro cred_connect_failed)
  have "cred_ok (?s1\<lparr>vp_proxied := True, vp_tunnelUp := True, vp_exit := ex, vp_connecting := False, br_handlers := hds\<rparr>)" for ex hds
    using s1 by (auto simp: creds)
  with fail show ?thesis by (auto simp: routing_done_def Let_def split: option.split)
qed

lemma cred_restore_done: "balanced (Suc a) b s \<Longrightarrow> cred_ok s \<Longrightarrow> cred_ok (restore_done so lo v e s)"
  using in_hand [of a b s] in_hand_auth [of a b s] by (auto simp: restore_done_def Let_def intro!: cred_connect_end)

lemma cred_clearing_done: "balanced a (Suc b) s \<Longrightarrow> cred_ok s \<Longrightarrow> cred_ok (clearing_done so lo s)"
  by (auto simp: clearing_done_def Let_def intro!: cred_release [THEN conjunct1])

lemma cred_disconnect_start:
  "balanced 0 0 s \<Longrightarrow> cred_ok s \<Longrightarrow> \<not> vp_connecting s \<Longrightarrow> \<not> vp_releasing s \<Longrightarrow> nlock s = 0 \<Longrightarrow> cred_ok (disconnect_start env s)"
  using balanced_releasing [of s] cred_request_host [of KDisconnect 0 0 "s\<lparr>vp_releasing := True\<rparr>" env]
  by (simp add: disconnect_start_def Let_def cred_start_clearing)

lemma cred_reconnect_release:
  "balanced 0 0 s \<Longrightarrow> cred_ok s \<Longrightarrow> \<not> vp_connecting s \<Longrightarrow> \<not> vp_releasing s \<Longrightarrow> nlock s = 0 \<Longrightarrow> cred_ok (reconnect_release env opts s)"
  using balanced_releasing [of s] cred_request_host [of "KReconnect opts" 0 0 "s\<lparr>vp_releasing := True\<rparr>" env]
    cred_reconnect_released [of 0 0 "s\<lparr>vp_releasing := True\<rparr>" opts]
  by (simp add: reconnect_release_def Let_def)

lemma cred_reconnect_start:
  "balanced 0 0 s \<Longrightarrow> cred_ok s \<Longrightarrow> \<not> vp_connecting s \<Longrightarrow> \<not> vp_releasing s \<Longrightarrow> nlock s = 0 \<Longrightarrow> cred_ok (reconnect_start env opts s)"
  using idle_auth [of 0 0 s] by (simp add: reconnect_start_def cred_connect_start cred_reconnect_release)

lemma cred_lockdown_done:
  "balanced 0 0 s \<Longrightarrow> cred_ok s \<Longrightarrow> \<not> vp_connecting s \<Longrightarrow> \<not> vp_releasing s \<Longrightarrow> nlock s = 0 \<Longrightarrow> cred_ok (lockdown_done env out opts s)"
  using cred_reconnect_release [of "set_settings out (Some (buildChromiumLockdownValue [])) s" env opts]
  by (simp add: lockdown_done_def) (simp add: set_settings_def)

lemma cred_applySplit_start: "cred_ok s \<Longrightarrow> cred_ok (applySplit_start env split s)"
proof -
  assume c: "cred_ok s"
  have "cred_ok s1" if "applyProxy env en split (s\<lparr>vp_handler := None\<rparr>) = (r, s1)" for en r s1
    using cred_applyProxy [OF that] c by simp
  then show ?thesis using c by (auto simp: applySplit_start_def split: option.split prod.split sum.split)
qed

lemma cred_split_done: "cred_ok s \<Longrightarrow> cred_ok (split_done env out previous split val s)"
  by (simp add: split_done_def Let_def split: option.split)

section \<open>Answers\<close>

lemma rejected_lists:
  "late (hello_rejected n e s) = late s" "routing (hello_rejected n e s) = routing s"
  "dropped_hellos (hello_rejected n e s) = dropped_hellos s" "asked_hellos (hello_rejected n e s) = asked_hellos s"
  "asked_connect (hello_rejected n e s) = asked_connect s"
proof -
  let ?g = "\<lambda>c. case awaits_hello n c of Some k \<Rightarrow> RejectedCall (WCall k) e | None \<Rightarrow> c"
  have g: "is_late (?g c) = is_late c" "is_routing (?g c) = is_routing c" "chello (?g c) = chello c" for c
    by (cases c; simp split: option.split)+
  then show "late (hello_rejected n e s) = late s" "routing (hello_rejected n e s) = routing s"
    by (auto simp: late_def routing_def hello_rejected_def list_ex_iff)
  have "concat (map chello (map ?g cs)) = concat (map chello cs)" for cs by (induction cs) (simp_all add: g)
  then show "dropped_hellos (hello_rejected n e s) = dropped_hellos s" by (simp add: dropped_hellos_def hello_rejected_def)
qed (simp_all add: asked_hellos_def asked_connect_def hello_rejected_def)

lemma rejected_fields [simp]:
  "vp_port (hello_rejected n e s) = vp_port s" "vp_portDead (hello_rejected n e s) = vp_portDead s"
  "vp_handshake (hello_rejected n e s) = vp_handshake s" "vp_hellos (hello_rejected n e s) = (vp_hellos s)[n := Some (Inl e)]"
  "vp_auth (hello_rejected n e s) = vp_auth s" "vp_tunnelUp (hello_rejected n e s) = vp_tunnelUp s"
  "vp_connecting (hello_rejected n e s) = vp_connecting s" "vp_pending (hello_rejected n e s) = vp_pending s"
  by (simp_all add: hello_rejected_def)

lemma cred_hello_rejected:
  assumes "cred_ok s" "portAlive s \<Longrightarrow> vp_handshake s \<noteq> Some n"
  shows "cred_ok (hello_rejected n e s)"
proof -
  have acc: "portAlive s \<Longrightarrow> accepted (hello_rejected n e s) = accepted s"
    using assms(2) by (auto simp: accepted_def nth_list_update)
  have asked: "n \<notin> set (asked_hellos s)" using assms by (cases "portAlive s") (auto simp: creds)
  have "(vp_hellos s)[n := x] ! m = vp_hellos s ! m" if "m \<in> set (asked_hellos s)" for m x
    using that asked by (metis nth_list_update_neq)
  then have "hellos_ok (hello_rejected n e s)"
    using assms(1) unfolding cred_ok_def hellos_ok_def rejected_lists by auto
  moreover have "held_ok (hello_rejected n e s)" using assms(1) acc by (auto simp: creds rejected_lists)
  ultimately show ?thesis using assms(1) by (simp add: cred_ok_def auth_routing_def rejected_lists)
qed

lemma late_request_failed: "\<not> late s \<Longrightarrow> \<not> late (request_failed k e s)"
  by (cases k) (simp_all add: connect_failed_def connect_end_def start_clearing_def reconnect_released_def release_host_def
      connect_start_def question_done_def Let_def)

lemma late_after_hello: "\<not> late s \<Longrightarrow> \<not> late (after_hello env k d s)"
  by (auto simp: after_hello_def question_done_def Let_def openPort_def late_request_failed split: sum.splits if_splits)

lemma after_hello_keeps:
  "portAlive s \<Longrightarrow> accepted s \<Longrightarrow> vp_connecting s \<Longrightarrow> portAlive (after_hello env k d s) \<and> accepted (after_hello env k d s)"
  by (simp add: after_hello_def question_done_def Let_def openPort_def)

text \<open>The waiters of an accepted hello go on one after the other.\<close>

lemma cred_after_hellos:
  assumes "balanced (sum_list (map kconn ks) + a) (sum_list (map krel ks) + b) s" "cred_ok s" "\<not> late s"
    "sum_list (map kconn ks) \<noteq> 0 \<Longrightarrow> portAlive s \<and> accepted s"
  shows "cred_ok (fold (\<lambda>k. after_hello env k d) ks s)"
  using assms
proof (induction ks arbitrary: s)
  case (Cons k ks)
  let ?s = "after_hello env k d s" and ?a = "sum_list (map kconn ks) + a" and ?b = "sum_list (map krel ks) + b"
  have b: "balanced (kconn k + ?a) (krel k + ?b) s" using Cons.prems(1) by (simp add: add.assoc)
  have "portAlive ?s \<and> accepted ?s" if "sum_list (map kconn ks) \<noteq> 0"
  proof (rule after_hello_keeps)
    show "portAlive s" "accepted s" using Cons.prems(4) that by auto
    show "vp_connecting s" using b that by (auto simp: balanced_def of_bool_def split: if_splits)
  qed
  moreover have "cred_ok ?s" using b Cons.prems by (intro cred_after_hello) auto
  moreover have "balanced ?a ?b ?s" using b by (rule balanced_after_hello)
  ultimately show ?case using Cons.IH [of ?s] late_after_hello [OF Cons.prems(3)] by simp
qed simp

text \<open>A port whose hello is not answered yet has brought nothing up.\<close>

lemma unanswered:
  assumes "cred_ok s" "portAlive s" "vp_handshake s = Some n" "vp_hellos s ! n = None"
  shows "\<not> late s \<and> \<not> asked_connect s \<and> vp_auth s = None \<and> \<not> accepted s"
proof -
  have "\<not> accepted s" using assms(3,4) by (simp add: accepted_def)
  then show ?thesis using assms(1,2) by (auto simp: creds)
qed

lemma cred_hello_accepted:
  assumes "balanced 0 0 s" "cred_ok s" "portAlive s" "vp_handshake s = Some n" "vp_hellos s ! n = None" "asked_hellos s = []"
  shows "cred_ok (hello_accepted env n d s)"
proof -
  let ?ks = "List.map_filter (awaits_hello n) (vp_calls s)"
  let ?s = "s\<lparr>vp_hellos := (vp_hellos s)[n := Some (Inr d)], vp_calls := filter (\<lambda>c. awaits_hello n c = None) (vp_calls s)\<rparr>"
  have n: "n < length (vp_hellos s)" using assms(2,4) by (auto simp: creds)
  note none = unanswered [OF assms(2-5)]
  have "\<not> late ?s" "asked_hellos ?s = []" "asked_connect ?s = asked_connect s" "set (dropped_hellos ?s) \<subseteq> set (dropped_hellos s)"
    using none assms(6) by (auto simp: late_def list_ex_iff asked_hellos_def asked_connect_def dropped_hellos_def)
  moreover have "accepted ?s" using n assms(4) by (simp add: accepted_def)
  ultimately have "cred_ok ?s" using assms(2,3) n none by (auto simp: creds)
  moreover have "balanced (sum_list (map kconn ?ks) + 0) (sum_list (map krel ?ks) + 0) ?s"
    using assms(1) awaiting_split [of "vp_calls s" n] by (auto simp: balanced_def weights simp del: sum_list_eq_0_iff)
  ultimately show ?thesis unfolding hello_accepted_def
    using \<open>\<not> late ?s\<close> \<open>accepted ?s\<close> assms(3) by (intro cred_after_hellos [where a = 0 and b = 0]) simp_all
qed

lemma cred_hello_answered:
  assumes "balanced 0 0 s" "cred_ok s" "portAlive s" "vp_handshake s = Some n" "vp_hellos s ! n = None" "asked_hellos s = []"
  shows "cred_ok (hello_answered env n ok res s)"
  using assms unanswered [OF assms(2-5)]
  by (auto simp: hello_answered_def intro!: cred_hello_rejected cred_close cred_hello_accepted)

lemma cred_request_answered:
  assumes "balanced (kconn k) (krel k) s" "cred_ok s" "portAlive s" "kconn k \<noteq> 0 \<Longrightarrow> accepted s"
  shows "cred_ok (request_answered k res s)"
  using assms by (cases k) (auto simp: cred_start_clearing intro: cred_connect_answered cred_reconnect_released cred_question_done)

lemma asked_length: "length (asked_hellos s) = sum_list (map (length \<circ> whello \<circ> snd) (vp_pending s))"
  by (simp add: asked_hellos_def length_concat comp_assoc)

lemma asked_waiter:
  assumes "length (asked_hellos s) \<le> 1" "distinct (map fst (vp_pending s))" "(j, WHello n) \<in> set (vp_pending s)"
  shows "asked_hellos (s\<lparr>vp_pending := filter (\<lambda>(j', w'). j' \<noteq> j) (vp_pending s)\<rparr>) = []"
proof -
  let ?s = "s\<lparr>vp_pending := filter (\<lambda>(j', w'). j' \<noteq> j) (vp_pending s)\<rparr>"
  have "length (asked_hellos s) = 1 + length (asked_hellos ?s)"
    unfolding asked_length using waiter_split [OF assms(2,3), of "length \<circ> whello \<circ> snd"] by simp
  with assms(1) show ?thesis by simp
qed

lemma length_concat_filter: "length (concat (map f (filter P ps))) \<le> length (concat (map f ps))"
  by (induction ps) auto

lemma cred_take_waiter:
  assumes "cred_ok s"
  shows "cred_ok (s\<lparr>vp_pending := filter P (vp_pending s)\<rparr>)"
proof -
  define s1 where "s1 = s\<lparr>vp_pending := filter P (vp_pending s)\<rparr>"
  have asked: "set (asked_hellos s1) \<subseteq> set (asked_hellos s)" "length (asked_hellos s1) \<le> length (asked_hellos s)"
    by (auto simp: s1_def asked_hellos_def length_concat_filter simp del: length_concat)
  have conn: "asked_connect s1 \<Longrightarrow> asked_connect s" by (force simp: s1_def asked_connect_def list_ex_iff)
  have pend: "vp_pending s = [] \<Longrightarrow> vp_pending s1 = []" by (simp add: s1_def)
  have same: "late s1 = late s" "routing s1 = routing s" "dropped_hellos s1 = dropped_hellos s" "accepted s1 = accepted s"
    "vp_port s1 = vp_port s" "vp_portDead s1 = vp_portDead s" "vp_hellos s1 = vp_hellos s"
    "vp_handshake s1 = vp_handshake s" "vp_auth s1 = vp_auth s" "vp_connecting s1 = vp_connecting s" "vp_tunnelUp s1 = vp_tunnelUp s"
    by (simp_all add: s1_def late_def routing_def dropped_hellos_def)
  have "hellos_ok s1" using assms asked pend le_trans [OF asked(2)] unfolding cred_ok_def hellos_ok_def same by blast
  moreover have "held_ok s1" using assms conn unfolding cred_ok_def held_ok_def same by blast
  ultimately show ?thesis using assms by (simp add: cred_ok_def auth_routing_def same flip: s1_def)
qed

lemma cred_onMessage:
  assumes "balanced 0 0 s" "cred_ok s" "portAlive s"
  shows "cred_ok (onMessage env raw s)"
proof -
  have waiter: "cred_ok (case w of WHello n \<Rightarrow> hello_answered env n ok res s1
      | WCall k \<Rightarrow> if ok then request_answered k res s1 else request_failed k e s1)"
    if f: "find (\<lambda>(j, w). i = JInt (int j)) (vp_pending s) = Some (j, w)"
      and s1: "s1 = s\<lparr>vp_pending := filter (\<lambda>(j', w'). j' \<noteq> j) (vp_pending s)\<rparr>" for i j w s1 ok res e
  proof -
    note b = balanced_take_waiter [OF assms(1) find_waiter [OF f], folded s1]
    have c: "cred_ok s1" using assms(2) by (simp add: s1 cred_take_waiter)
    have mem: "(j, w) \<in> set (vp_pending s)" using f by (rule find_waiter)
    show ?thesis
    proof (cases w)
      case (WHello n)
      with mem have "n \<in> set (asked_hellos s)" by (force simp: asked_hellos_def)
      then have h: "vp_handshake s = Some n" "vp_hellos s ! n = None" "length (asked_hellos s) \<le> 1" using assms(2) by (auto simp: creds)
      have "asked_hellos s1 = []" using asked_waiter [OF h(3)] mem assms(1) WHello by (simp add: s1 balanced_def)
      moreover have "cred_ok (hello_answered env n ok res s1)"
        by (rule cred_hello_answered) (use b c h assms(3) WHello calculation in \<open>auto simp: s1\<close>)
      ultimately show ?thesis using WHello by simp
    next
      case (WCall k)
      have "accepted s1" if "kconn k \<noteq> 0"
      proof -
        have "asked_connect s" using mem WCall that by (force simp: asked_connect_def list_ex_iff)
        then show ?thesis using assms(2) by (auto simp: creds s1)
      qed
      moreover have "cred_ok (request_failed k e s1)" using b c WCall cred_request_failed [of k 0 0 s1] by simp
      moreover have "portAlive s1" using assms(3) by (simp add: s1)
      ultimately show ?thesis using b c WCall by (auto intro: cred_request_answered)
    qed
  qed
  show ?thesis
    using assms waiter by (auto simp: onMessage_def Let_def split: option.split parsed_message.split)
qed

lemma lost_frames [simp]:
  "vp_port (reject_pending s) = vp_port s" "vp_portDead (reject_pending s) = vp_portDead s" "vp_auth (reject_pending s) = vp_auth s"
  "vp_hellos (reject_pending s) = vp_hellos s" "vp_handshake (reject_pending s) = vp_handshake s" "vp_pending (reject_pending s) = []"
  "\<not> asked_connect (reject_pending s)" "late (reject_pending s) = late s" "vp_connecting (reject_pending s) = vp_connecting s"
  by (auto simp: reject_pending_def asked_connect_def late_def list_ex_iff)

lemma cred_port_lost:
  assumes "cred_ok s" "portAlive s"
  shows "cred_ok (port_lost env s)"
proof -
  let ?s = "reject_pending (s\<lparr>vp_portDead := True, vp_tunnelUp := False, vp_auth := None, vp_exit := None\<rparr>)"
  have "hellos_ok ?s" using assms by (auto simp: cred_ok_def hellos_ok_def)
  moreover have "held_ok ?s" "auth_routing ?s" using assms by (auto simp: creds)
  ultimately have "cred_ok ?s" by (simp add: cred_ok_def)
  then show ?thesis by (simp add: port_lost_def Let_def)
qed

lemma cred_forget [simp]: "cred_ok (forget_waiter s) = cred_ok s"
proof -
  have w: "whello (forget_w w) = whello w" "wconn (forget_w w) = wconn w" for w
    by (cases w, simp_all) (rule forget_weights)
  have c: "chello (forget_c c) = chello c" "is_late (forget_c c) = is_late c" "is_routing (forget_c c) = is_routing c" for c
    by (cases c; simp add: w)+
  have "late (forget_waiter s) = late s" "routing (forget_waiter s) = routing s" "asked_connect (forget_waiter s) = asked_connect s"
    by (auto simp: late_def routing_def asked_connect_def forget_waiter_def list_ex_iff c w)
  moreover have "asked_hellos (forget_waiter s) = asked_hellos s" "dropped_hellos (forget_waiter s) = dropped_hellos s"
    by (simp_all add: asked_hellos_def dropped_hellos_def forget_waiter_def comp_def c w)
  moreover have "accepted (forget_waiter s) = accepted s" "vp_port (forget_waiter s) = vp_port s" "vp_portDead (forget_waiter s) = vp_portDead s"
    "vp_pending (forget_waiter s) = [] \<longleftrightarrow> vp_pending s = []" "vp_hellos (forget_waiter s) = vp_hellos s"
    "vp_handshake (forget_waiter s) = vp_handshake s" "vp_auth (forget_waiter s) = vp_auth s"
    "vp_connecting (forget_waiter s) = vp_connecting s" "vp_tunnelUp (forget_waiter s) = vp_tunnelUp s"
    by (simp_all add: forget_waiter_def)
  ultimately show ?thesis by (simp only: creds)
qed

text \<open>A call taken out of the list; the last wait of a connect keeps the credentials in the code's hands.\<close>

lemma cred_take_call:
  fixes s k
  defines "s1 \<equiv> s\<lparr>vp_calls := take k (vp_calls s) @ drop (Suc k) (vp_calls s)\<rparr>"
  assumes "cred_ok s" "k < length (vp_calls s)"
  shows "hellos_ok s1 \<and> held_ok s1" and "\<not> is_routing (vp_calls s ! k) \<Longrightarrow> cred_ok s1"
    and "is_late (vp_calls s ! k) \<Longrightarrow> vp_port s1 \<noteq> None \<and> (\<not> vp_portDead s1 \<longrightarrow> accepted s1)"
    and "vp_calls s ! k = RejectedCall (WHello n) e \<Longrightarrow> portAlive s1 \<Longrightarrow> vp_handshake s1 \<noteq> Some n"
proof -
  have cs: "set (vp_calls s) = insert (vp_calls s ! k) (set (vp_calls s1))"
    using id_take_nth_drop [OF assms(3)] by (metis s1_def Un_insert_right append_Cons list.simps(15) set_append vpn.select_convs(16) vpn.surjective vpn.update_convs(16))
  have l: "late s1 \<Longrightarrow> late s" "\<not> is_routing (vp_calls s ! k) \<Longrightarrow> routing s1 = routing s" "is_late (vp_calls s ! k) \<Longrightarrow> late s"
    using cs by (auto simp: late_def routing_def list_ex_iff)
  have d: "set (dropped_hellos s1) \<subseteq> set (dropped_hellos s)" "vp_calls s ! k = RejectedCall (WHello n) e \<Longrightarrow> n \<in> set (dropped_hellos s)"
    using cs by (auto simp: dropped_hellos_def)
  have same: "asked_hellos s1 = asked_hellos s" "asked_connect s1 = asked_connect s" "accepted s1 = accepted s"
    "vp_port s1 = vp_port s" "vp_portDead s1 = vp_portDead s" "vp_pending s1 = vp_pending s" "vp_hellos s1 = vp_hellos s"
    "vp_handshake s1 = vp_handshake s" "vp_auth s1 = vp_auth s" "vp_connecting s1 = vp_connecting s" "vp_tunnelUp s1 = vp_tunnelUp s"
    by (simp_all add: s1_def asked_hellos_def asked_connect_def)
  have "hellos_ok s1" using assms(2) d(1) unfolding cred_ok_def hellos_ok_def same by blast
  moreover have "held_ok s1" using assms(2) l(1) unfolding cred_ok_def held_ok_def same by blast
  ultimately show hh: "hellos_ok s1 \<and> held_ok s1" ..
  show "\<not> is_routing (vp_calls s ! k) \<Longrightarrow> cred_ok s1" using hh l(2) assms(2) by (auto simp: cred_ok_def auth_routing_def same)
  show "is_late (vp_calls s ! k) \<Longrightarrow> vp_port s1 \<noteq> None \<and> (\<not> vp_portDead s1 \<longrightarrow> accepted s1)" using l(3) assms(2) by (auto simp: creds same)
  show "vp_calls s ! k = RejectedCall (WHello n) e \<Longrightarrow> portAlive s1 \<Longrightarrow> vp_handshake s1 \<noteq> Some n"
    using d(2) assms(2) by (auto simp: creds same)
qed

lemma cred_settle:
  assumes "balanced 0 0 s" "cred_ok s" "k < length (vp_calls s)"
    "settle_call env out level b incognito (vp_calls s ! k) (s\<lparr>vp_calls := take k (vp_calls s) @ drop (Suc k) (vp_calls s)\<rparr>) = Some s'"
  shows "cred_ok s'"
proof -
  define s1 where "s1 = s\<lparr>vp_calls := take k (vp_calls s) @ drop (Suc k) (vp_calls s)\<rparr>"
  note bal = balanced_take_call [OF assms(1,3), folded s1_def]
  note cred = cred_take_call [OF assms(2,3), folded s1_def]
  have flags: "vp_connecting s1 = vp_connecting s" "vp_releasing s1 = vp_releasing s" by (simp_all add: s1_def)
  have st: "settle_call env out level b incognito (vp_calls s ! k) s1 = Some s'" using assms(4) by (simp add: s1_def)
  show ?thesis
  proof (cases "vp_calls s ! k")
    case (RejectedCall w e)
    then show ?thesis using st bal(1) cred(2,4)
      by (cases w) (auto intro: cred_hello_rejected cred_request_failed [where a = 0 and b = 0])
  next
    case (Hardening v res)
    then have "balanced (Suc 0) 0 s1" "cred_ok s1" "vp_port s1 \<noteq> None" "\<not> vp_portDead s1 \<Longrightarrow> accepted s1"
      using bal(1) cred(2,3) by auto
    then have "cred_ok (hardened_done env v res s1)" "cred_ok (connect_failed v ForeignError s1)"
      by (rule cred_hardened_done, simp) (rule cred_in_hand_failed, fact+)
    then show ?thesis using st Hardening by (auto split: if_splits)
  next
    case (Routing v res val)
    then show ?thesis using st bal(1) cred(1) by (auto intro: cred_routing_done)
  qed (use st bal cred(2) flags in \<open>auto intro: cred_in_hand_failed cred_preflight_done cred_restore_done cred_clearing_done
      cred_lockdown_done cred_split_done\<close>)
qed

lemma cred_step:
  assumes "balanced 0 0 s" "cred_ok s" "orderly e s" "vpn_step env e s = Some s'"
  shows "cred_ok s'"
proof (cases e)
  case (Connect opts)
  with assms not_busy [of s] show ?thesis
    by (cases "vp_tunnelUp s") (auto simp: connect_start_def intro!: cred_connecting idle_auth)
next
  case (Ask q)
  then have "\<not> late s" using assms not_connecting by auto
  with Ask assms show ?thesis
    using cred_request_host [of "KQuestion q" 0 0 "s\<lparr>vp_questions := Suc (vp_questions s)\<rparr>" env] by (auto simp: ask_def)
next
  case TimedOut
  then show ?thesis using assms balanced_forget [OF assms(1)]
    by (auto intro: cred_request_failed [where a = 0 and b = 0] split: list.splits)
next
  case (Settled k out level b incognito)
  with assms show ?thesis by (auto split: if_splits intro: cred_settle)
qed (use assms not_busy [of s] in \<open>auto simp: cred_reconnect_start cred_disconnect_start cred_applySplit_start cred_onMessage
      cred_port_lost split: if_splits\<close>)

lemma cred_run:
  "balanced 0 0 s \<Longrightarrow> cred_ok s \<Longrightarrow> orderly_run env es s \<Longrightarrow> vpn_run env es s = Some s' \<Longrightarrow> balanced 0 0 s' \<and> cred_ok s'"
proof (induction es arbitrary: s)
  case (Cons e es)
  then obtain s1 where "vpn_step env e s = Some s1" by (cases "vpn_step env e s") auto
  with Cons show ?case using balanced_step [of s e env s1] cred_step [of s e env s1] by auto
qed simp

lemma cred_new: "balanced 0 0 newVpn \<and> cred_ok newVpn"
  by (simp add: newVpn_def balanced_def weights creds late_def routing_def asked_connect_def asked_hellos_def dropped_hellos_def)

end
