(* ===== verification/Vpn_Runs.thy ===== *)
theory Vpn_Runs
  imports Vpn_Credentials
begin

text \<open>
  What holds over whole runs of the VPN client: over orderly runs the flags count what is in flight, credentials are held
  only while their host's port is open and a Firefox request with no such host is refused; and two disorderly runs that
  end with a tunnel reported up and no host behind it.
\<close>

section \<open>Orderly runs\<close>

text \<open>
  Over an orderly run the flags of the object are exact: a connect is in flight, in exactly one place, when and only when
  \<open>connecting\<close> is set, the same holds of a release and \<open>releasing\<close>, and never both; a tunnel that is up is not being
  connected; and no two requests wait under one id.
\<close>

theorem vpn_one_at_a_time:
  assumes "orderly_run env es newVpn" "vpn_run env es newVpn = Some s"
  shows "nconn s = of_bool (vp_connecting s) \<and> nrel s = of_bool (vp_releasing s) \<and> \<not> (vp_connecting s \<and> vp_releasing s) \<and>
    \<not> (vp_connecting s \<and> vp_tunnelUp s) \<and> distinct (map fst (vp_pending s))"
proof -
  have "balanced 0 0 s" using cred_run [OF _ _ assms] cred_new by blast
  then show ?thesis by (auto simp: balanced_def)
qed

text \<open>
  C8. Over an orderly run the listener credentials are held only while the port is open to a host whose hello was accepted,
  with its tunnel up or in the last step of its connect.
\<close>

theorem vpn_credentials_live_host:
  assumes "orderly_run env es newVpn" "vpn_run env es newVpn = Some s" "forListener s listener = Some auth"
  shows "vp_auth s = Some auth \<and> portAlive s \<and> accepted s \<and> (vp_tunnelUp s \<or> vp_connecting s \<and> routing s)"
proof -
  have "cred_ok s" using cred_run [OF _ _ assms(1,2)] cred_new by blast
  moreover have "vp_auth s = Some auth" using assms(3) by (auto simp: forListener_def split: option.splits if_splits)
  ultimately show ?thesis by (auto simp: creds)
qed

text \<open>
  C32. Over an orderly run Firefox refuses every request the split sends into the tunnel once the host is gone: it is never
  sent to the released listener, and never direct.
\<close>

theorem vpn_fails_closed_without_host:
  assumes "orderly_run env es newVpn" "vpn_run env es newVpn = Some s" "\<not> (portAlive s \<and> accepted s)"
    and "hostname url = Some host" "shouldTunnelRequest host tabId (hd_split h)"
  shows "vpn_onRequest env hostname s h url tabId = ProxyList FAIL_CLOSED_PROXY"
proof -
  have "cred_ok s" using cred_run [OF _ _ assms(1,2)] cred_new by blast
  with assms(3) have "vp_auth s = None" by (auto simp: creds)
  with assms(4,5) show ?thesis by (simp add: vpn_onRequest_def forListener_def)
qed

section \<open>Two races\<close>

definition sample_env :: vpn_env where
  "sample_env = \<lparr>ve_platform = Firefox, ve_hasGet = False, ve_hasOnRequest = True, ve_nativeOk = (\<lambda>_. True),
     ve_channel = ''prod'', ve_num = (\<lambda>_. JNull)\<rparr>"

definition sample_connect :: vpn_options where
  "sample_connect = \<lparr>vo_mnemonic = ''m'', vo_selector = None, vo_entrySelector = None, vo_httpProxy = None, vo_split = None,
     vo_daita = None, vo_device = None\<rparr>"

definition host_says :: "int \<Rightarrow> string \<Rightarrow> (string \<times> json) list \<Rightarrow> vpn_event" where
  "host_says i kind props = FromHost (JObj ([(''id'', JInt i), (''ok'', JBool True), (''type'', JStr kind)] @ props))"

text \<open>A connect up to the answer of the host, which leaves the leak hardening in flight.\<close>

definition sample_answered :: "vpn_event list" where
  "sample_answered =
     [Connect sample_connect, Settled 0 SetTakes [] False (Some True),
      host_says 1 ''hello'' [(''protocol'', JInt EXTENSION_PROTOCOL_VERSION)],
      host_says 2 ''connect'' [(''endpoints'', JObj [(''socks5'', JStr ''127.0.0.1:1080'')]),
        (''auth'', JObj [(''username'', JStr ''u''), (''password'', JStr ''p'')])]]"

definition sample_up :: "vpn_event list" where
  "sample_up = sample_answered @ [Settled 0 SetTakes [] False None, Settled 0 SetTakes [] False None]"

definition sample_state :: "vpn_event list \<Rightarrow> vpn" where
  "sample_state es = the (vpn_run sample_env es newVpn)"

lemmas vpn_ops = connect_start_def preflight_done_def request_host_def openPort_def hello_def post_def await_def result_def
  after_hello_def request_body.simps connect_body_def opt_prop_def onMessage_def parseHostMessage_def hello_answered_def
  hello_accepted_def connect_answered_def listenerAuth_def isCredential_def hardened_done_def applyProxy_def
  registerFirefoxOnRequest_def routing_done_def set_settings_def set_error_def verifyRouting_def disconnect_start_def
  start_clearing_def removeOnRequestHandler_def clearing_done_def release_host_def closePort_def reject_pending_def port_lost_def
  ask_def endpoints_of_def connect_split_def DEFAULT_SPLIT_def busy_def Let_def

lemmas vpn_samples = sample_env_def sample_connect_def host_says_def sample_answered_def sample_up_def newVpn_def

lemma sample_up_run:
  "orderly_run sample_env sample_up newVpn \<and> (\<exists>s. vpn_run sample_env sample_up newVpn = Some s \<and> vp_tunnelUp s \<and>
     forListener s ''127.0.0.1:1080'' = Some \<lparr>xa_username = ''u'', xa_password = ''p''\<rparr>)"
  by (simp add: vpn_samples vpn_ops List.map_filter_simps forListener_def jstring_def)

theorem vpn_one_at_a_time_witness: "nconn (sample_state sample_answered) = 1"
proof -
  have "orderly_run sample_env sample_answered newVpn"
    "\<exists>s. vpn_run sample_env sample_answered newVpn = Some s \<and> vp_connecting s"
    by (simp_all add: vpn_samples vpn_ops List.map_filter_simps)
  then show ?thesis using vpn_one_at_a_time [of sample_env sample_answered "sample_state sample_answered"]
    by (auto simp: sample_state_def)
qed

theorem vpn_credentials_live_host_witness: "portAlive (sample_state sample_up)"
  using sample_up_run vpn_credentials_live_host [of sample_env sample_up "sample_state sample_up" "''127.0.0.1:1080''"]
  by (auto simp: sample_state_def)

text \<open>The tunnel of the sample run, after its host died.\<close>

theorem vpn_fails_closed_without_host_witness:
  "vpn_onRequest sample_env (\<lambda>u. Some ''example.com'') (sample_state (sample_up @ [PortLost]))
     \<lparr>hd_id = 0, hd_socks5 = ''127.0.0.1:1080'', hd_split = DEFAULT_SPLIT\<rparr> ''https://example.com/'' None = ProxyList FAIL_CLOSED_PROXY"
proof -
  have "orderly_run sample_env (sample_up @ [PortLost]) newVpn"
    "\<exists>s. vpn_run sample_env (sample_up @ [PortLost]) newVpn = Some s \<and> \<not> (portAlive s \<and> accepted s)"
    by (simp_all add: vpn_samples vpn_ops List.map_filter_simps accepted_def)
  moreover have "shouldTunnelRequest ''example.com'' None DEFAULT_SPLIT"
    by code_simp
  ultimately show ?thesis
    using vpn_fails_closed_without_host [of sample_env "sample_up @ [PortLost]" "sample_state (sample_up @ [PortLost])" "\<lambda>u. Some ''example.com''"
        "''https://example.com/''" "''example.com''" None "\<lparr>hd_id = 0, hd_socks5 = ''127.0.0.1:1080'', hd_split = DEFAULT_SPLIT\<rparr>"]
    by (auto simp: sample_state_def)
qed

text \<open>
  A disconnect while a connect waits for the leak hardening: the release closes the port and clears the flag that the
  connect reads to tell a dead host, so the connect carries on and reports a tunnel up, with credentials, with no port and
  no host behind it.
\<close>

theorem vpn_disconnect_races_connect:
  "\<exists>s. vpn_run sample_env (sample_answered @
      [Disconnect, host_says 3 ''disconnect'' [], Settled 1 SetTakes [] True None,
       Settled 0 SetTakes [] False None, Settled 0 SetTakes [] False None]) newVpn = Some s \<and>
     vp_tunnelUp s \<and> vp_auth s \<noteq> None \<and> vp_port s = None \<and> vp_results s = [ResultOk JNull, ResultOk (JObj [(''socks5'', JStr ''127.0.0.1:1080'')])]"
  by (simp add: vpn_samples vpn_ops List.map_filter_simps)

text \<open>
  The host dies while a connect waits for the leak hardening, and the status is asked before that wait ends: the question
  opens a port to a fresh host and clears the same flag, so the connect points the browser at the dead host's listener.
\<close>

theorem vpn_question_hides_dead_host:
  "\<exists>s. vpn_run sample_env (sample_answered @
      [PortLost, Ask AskStatus, Settled 0 SetTakes [] False None, Settled 1 SetTakes [] False None]) newVpn = Some s \<and>
     vp_tunnelUp s \<and> forListener s ''127.0.0.1:1080'' \<noteq> None \<and> vp_port s = Some 1 \<and> \<not> accepted s"
  by (simp add: vpn_samples vpn_ops List.map_filter_simps accepted_def forListener_def jstring_def)

end
