(* ===== verification/Frame_Stream.thy ===== *)
theory Frame_Stream
  imports Frames "HOL-Library.Sublist"
begin

text \<open>
  Reading one frame off a stream, \<^verbatim>\<open>readOneFrame\<close> of \<^verbatim>\<open>packages/extension/src/edge.ts\<close>: the bytes read so far are decoded
  after every read, and a decoder error that says the bytes are truncated means to read on. The locale \<open>short_field\<close>
  extends the contract of a wire field by what that rests on: a field cut short reads as truncated.
\<close>

section \<open>Fields cut short\<close>

text \<open>The errors whose message says \<^verbatim>\<open>truncated\<close>.\<close>

definition truncated :: "wire_error \<Rightarrow> bool" where
  "truncated e \<longleftrightarrow> e = WireTruncated \<or> e = LebError TruncatedInteger"

lemma strict_prefix_append_cases:
  assumes "strict_prefix p (a @ b)"
  obtains "strict_prefix p a" | p' where "p = a @ p'" "strict_prefix p' b"
proof (cases "strict_prefix p a")
  case False
  from assms have "prefix p (a @ b)" "p \<noteq> a @ b" by (auto simp: strict_prefix_def)
  then consider "prefix p a" | p' where "p = a @ p'" "prefix p' b" by (auto simp: prefix_append)
  then show thesis
  proof cases
    case 1
    with False have "p = a @ []" by (auto simp: strict_prefix_def)
    moreover have "strict_prefix [] b" using \<open>p \<noteq> a @ b\<close> calculation by (cases b) auto
    ultimately show thesis using that(2) by blast
  next
    case (2 p')
    with \<open>p \<noteq> a @ b\<close> show thesis using that(2) [of p'] by (auto simp: strict_prefix_def)
  qed
qed (use that in blast)

locale short_field = wire_field +
  assumes read_short: "ok x \<Longrightarrow> off \<le> length bs \<Longrightarrow> strict_prefix (drop off bs) (emit x) \<Longrightarrow> \<exists>e. truncated e \<and> get bs off = Inl e"
begin

lemma short_seq:
  assumes "off \<le> length bs" "strict_prefix (drop off bs) (emit x @ rest)" "ok x"
    and "\<And>off'. off' \<le> length bs \<Longrightarrow> strict_prefix (drop off' bs) rest \<Longrightarrow> \<exists>e. truncated e \<and> f x off' = Inl e"
  shows "\<exists>e. truncated e \<and> bindR (get bs off) (\<lambda>(x, off'). f x off') = Inl e"
  using assms(2)
proof (cases rule: strict_prefix_append_cases)
  case 1
  with read_short [OF assms(3,1)] show ?thesis by auto
next
  case (2 p')
  then have st: "stands bs off (emit x @ p')" using assms(1) by (simp add: stands_def)
  from read_step [OF this assms(3)] have "get bs off = Inr (x, off + length (emit x))" "stands bs (off + length (emit x)) p'" .
  with 2 assms(4) [of "off + length (emit x)"] show ?thesis by (simp add: stands_def)
qed

end

interpretation fixed_short: short_field writeFixed "readBytes n" "\<lambda>p. length p = n" for n
proof unfold_locales
  fix x :: bytes and bs :: bytes and off :: nat
  assume "length x = n" "off \<le> length bs" "strict_prefix (drop off bs) (writeFixed x)"
  then have "off + n > length bs" using prefix_length_less [of "drop off bs" x] by (simp add: writeFixed_def)
  then show "\<exists>e. truncated e \<and> readBytes n bs off = Inl e" by (simp add: readBytes_def need_def truncated_def)
qed

interpretation u8_short: short_field writeU8 readU8 "\<lambda>_. True"
proof unfold_locales
  fix x :: byte and bs :: bytes and off :: nat
  assume "off \<le> length bs" "strict_prefix (drop off bs) (writeU8 x)"
  then have "off + 1 > length bs" using prefix_length_less [of "drop off bs" "[x]"] by (simp add: writeU8_def)
  then show "\<exists>e. truncated e \<and> readU8 bs off = Inl e" by (simp add: readU8_def need_def truncated_def)
qed

text \<open>A cut integer ends on a byte with the continuation bit.\<close>

lemma leb128_loop_short:
  "strict_prefix p (leb128_groups v) \<Longrightarrow> v * 2 ^ s < 2 ^ 70 \<Longrightarrow> leb128_loop val s len p = Inl TruncatedInteger"
proof (induction v arbitrary: val s len p rule: leb128_groups.induct)
  case (1 v)
  show ?case
  proof (cases "drop_bit 7 v = 0")
    case True
    with "1.prems"(1) have "p = []" by (auto simp: leb128_groups.simps [of v] strict_prefix_def prefix_Cons)
    then show ?thesis by simp
  next
    case False
    then have ge: "128 \<le> v" by (simp add: drop_bit_eq_div div_eq_0_iff)
    have "s < 63"
    proof (rule ccontr)
      assume "\<not> s < 63"
      then have "(2 :: nat) ^ 63 \<le> 2 ^ s" by (intro power_increasing) simp_all
      with ge have "128 * 2 ^ 63 \<le> v * 2 ^ s" by (rule mult_le_mono)
      with "1.prems"(2) show False by simp
    qed
    have "drop_bit 7 v * 2 ^ (s + 7) = (v div 128 * 128) * 2 ^ s" by (simp add: drop_bit_eq_div power_add)
    also have "\<dots> \<le> v * 2 ^ s" by (intro mult_le_mono1) simp
    finally have bound: "drop_bit 7 v * 2 ^ (s + 7) < 2 ^ 70" using "1.prems"(2) by simp
    let ?b = "word_of_nat (take_bit 7 v) OR (0x80 :: byte)"
    have b: "unat ?b = v mod 128 + 128" by (simp add: unat_or_80 unat_group)
    show ?thesis
    proof (cases p)
      case (Cons c q)
      with "1.prems"(1) False have "c = ?b" "strict_prefix q (leb128_groups (drop_bit 7 v))"
        by (auto simp: leb128_groups.simps [of v] Let_def)
      with Cons show ?thesis
        using "1.IH" [OF False, of q "s + 7"] bound \<open>s < 63\<close> by (simp add: Let_def and_80_eq_0 b)
    qed simp
  qed
qed

interpretation leb_short: short_field leb128_groups readLeb "\<lambda>v. v < 2 ^ 70"
proof unfold_locales
  fix x off :: nat and bs :: bytes
  assume "x < 2 ^ 70" "strict_prefix (drop off bs) (leb128_groups x)"
  then have "decodeLeb128 (drop off bs) = Inl TruncatedInteger"
    using leb128_loop_short [of "drop off bs" x 0] by (simp add: decodeLeb128_def)
  then show "\<exists>e. truncated e \<and> readLeb bs off = Inl e" by (simp add: readLeb_def liftLeb_def truncated_def)
qed

interpretation prefixed_short: short_field writePrefixed readPrefixed "\<lambda>p. length p < 2 ^ 53"
proof unfold_locales
  fix x :: bytes and bs :: bytes and off :: nat
  assume x: "length x < 2 ^ 53" and bs: "off \<le> length bs" "strict_prefix (drop off bs) (writePrefixed x)"
  have "length x < 2 ^ 70" "js_Number (length x) = length x" using x by (simp_all add: js_Number_exact)
  with bs have "\<exists>e. truncated e \<and> bindR (readLeb bs off) (\<lambda>(n, off'). readBytes (js_Number n) bs off') = Inl e"
    by (intro leb_short.short_seq [where x = "length x" and rest = x])
      (auto simp: writePrefixed_def intro: fixed_short.read_short [unfolded writeFixed_def])
  then show "\<exists>e. truncated e \<and> readPrefixed bs off = Inl e" by (simp add: readPrefixed_def)
qed

lemma decodeMultihopFrame_short:
  assumes "frame_ok f" "strict_prefix p (frame_wire f)"
  shows "\<exists>e. truncated e \<and> decodeMultihopFrame p = Inl e"
proof -
  have v: "(word_of_int (version f) :: byte) = WARREN_HPKE_VERSION"
    and ok: "length (exitId f) = EXIT_ID_LEN" "length (encapsulatedKey f) = ENCAPSULATED_KEY_LEN"
    "length (aeadTag f) = AEAD_TAG_LEN" "length (ciphertext f) < 2 ^ 53" "nat (epoch f) < 2 ^ 70" "nat (seq f) < 2 ^ 70"
    using assms(1) by (auto simp: frame_ok_def nat_less_iff WARREN_HPKE_VERSION_def)
  have st: "strict_prefix (drop 0 p) (writeU8 (word_of_int (version f)) @ writeFixed (exitId f)
     @ leb128_groups (nat (epoch f)) @ leb128_groups (nat (seq f)) @ writeFixed (encapsulatedKey f)
     @ writeFixed (aeadTag f) @ writePrefixed (ciphertext f) @ [])"
    using assms(2) by (simp add: frame_wire_def)
  show ?thesis
    unfolding decodeMultihopFrame_def
    apply (rule u8_short.short_seq [OF _ st TrueI], simp, simp only: v simp_thms bindR_Inr guardR_simps)
    apply (rule fixed_short.short_seq, assumption, assumption, rule ok)
    apply (rule leb_short.short_seq, assumption, assumption, rule ok)
    apply (rule leb_short.short_seq, assumption, assumption, rule ok)
    apply (rule fixed_short.short_seq, assumption, assumption, rule ok)
    apply (rule fixed_short.short_seq, assumption, assumption, rule ok)
    apply (rule prefixed_short.short_seq, assumption, assumption, rule ok)
    by simp
qed

section \<open>One frame\<close>

text \<open>
  What a read of the stream settles with: it rejects, or gives the value and the done flag. A stream is the list of its
  reads; the transport is gone after them, and a further read rejects.
\<close>

datatype edge_read = ReadRejects | Read "bytes option" bool

datatype frame_read_error = StreamGone | BadFrame wire_error

definition value_bytes :: "bytes option \<Rightarrow> bytes" where
  "value_bytes v = (case v of Some b \<Rightarrow> b | None \<Rightarrow> [])"

definition frame_of :: "bytes \<Rightarrow> frame_read_error + WarrenMultihopFrame" where
  "frame_of buf = (case decodeMultihopFrame buf of Inr f \<Rightarrow> Inr f | Inl e \<Rightarrow> Inl (BadFrame e))"

text \<open>The loop, with the reads it left.\<close>

definition attempt_frame :: "bytes \<Rightarrow> (frame_read_error + WarrenMultihopFrame) option" where
  "attempt_frame buf =
     (case decodeMultihopFrame buf of
        Inr f \<Rightarrow> Some (Inr f)
      | Inl e \<Rightarrow> if truncated e then None else Some (Inl (BadFrame e)))"

fun read_loop :: "bytes \<Rightarrow> edge_read list \<Rightarrow> (frame_read_error + WarrenMultihopFrame) \<times> edge_read list" where
  "read_loop buf reads =
     (case if buf \<noteq> [] then attempt_frame buf else None of
        Some r \<Rightarrow> (r, reads)
      | None \<Rightarrow>
          (case reads of
             [] \<Rightarrow> (Inl StreamGone, [])
           | ReadRejects # rest \<Rightarrow> (Inl StreamGone, rest)
           | Read v ended # rest \<Rightarrow>
               let buf' = buf @ value_bytes v in if ended then (frame_of buf', rest) else read_loop buf' rest))"

declare read_loop.simps [simp del]

definition readOneFrame :: "edge_read list \<Rightarrow> (frame_read_error + WarrenMultihopFrame) \<times> edge_read list" where
  "readOneFrame reads = read_loop [] reads"

text \<open>What has arrived of a frame: nothing to return yet, until it is whole.\<close>

lemma attempt_short: "frame_ok f \<Longrightarrow> strict_prefix p (frame_wire f) \<Longrightarrow> attempt_frame p = None"
  using decodeMultihopFrame_short by (fastforce simp: attempt_frame_def)

lemma attempt_whole: "frame_ok f \<Longrightarrow> attempt_frame (frame_wire f) = Some (Inr f)"
  by (simp add: attempt_frame_def decodeMultihopFrame_wire)

lemma read_loop_chunks:
  assumes "frame_ok f" "buf @ concat cs = frame_wire f" "buf \<noteq> frame_wire f"
    and "\<And>i. i < length cs \<Longrightarrow> buf @ concat (take i cs) \<noteq> frame_wire f"
  shows "read_loop buf (map (\<lambda>c. Read (Some c) False) cs @ rest) = (Inr f, rest)"
  using assms(2,3,4)
proof (induction cs arbitrary: buf)
  case (Cons c cs)
  have "strict_prefix buf (frame_wire f)" using Cons.prems(1,2) by (metis prefixI strict_prefixI)
  then have none: "(if buf \<noteq> [] then attempt_frame buf else None) = None" using attempt_short [OF assms(1)] by simp
  show ?case
  proof (cases "buf @ c = frame_wire f")
    case True
    then have "cs = []"
      using Cons.prems(3) [of 1] by (cases cs) auto
    moreover have "buf @ c \<noteq> []" using True by (simp add: frame_wire_def writeU8_def)
    ultimately show ?thesis using True none attempt_whole [OF assms(1)]
      by (simp add: read_loop.simps [of buf] read_loop.simps [of "frame_wire f"] value_bytes_def Let_def)
  next
    case False
    have "read_loop (buf @ c) (map (\<lambda>c. Read (Some c) False) cs @ rest) = (Inr f, rest)"
    proof (rule Cons.IH)
      show "(buf @ c) @ concat cs = frame_wire f" "buf @ c \<noteq> frame_wire f" using Cons.prems(1) False by simp_all
      show "(buf @ c) @ concat (take i cs) \<noteq> frame_wire f" if "i < length cs" for i
        using Cons.prems(3) [of "Suc i"] that by simp
    qed
    then show ?thesis using none by (simp add: read_loop.simps [of buf] value_bytes_def Let_def)
  qed
qed simp

lemma strict_prefix_start: "strict_prefix (a @ b) c \<Longrightarrow> strict_prefix a c"
  by (auto simp: strict_prefix_def prefix_def)

lemma read_loop_ends:
  assumes "frame_ok f" "strict_prefix (buf @ concat cs @ value_bytes v) (frame_wire f)"
  shows "\<exists>e. truncated e \<and> read_loop buf (map (\<lambda>c. Read (Some c) False) cs @ Read v True # rest) = (Inl (BadFrame e), rest)"
  using assms(2)
proof (induction cs arbitrary: buf)
  case Nil
  have "strict_prefix buf (frame_wire f)" using Nil strict_prefix_start by fastforce
  then show ?case using Nil attempt_short [OF assms(1)] decodeMultihopFrame_short [OF assms(1), of "buf @ value_bytes v"]
    by (auto simp: read_loop.simps [of buf] Let_def frame_of_def)
next
  case (Cons c cs)
  have "strict_prefix buf (frame_wire f)" using Cons.prems strict_prefix_start by fastforce
  then show ?case using Cons.IH [of "buf @ c"] Cons.prems attempt_short [OF assms(1)]
    by (auto simp: read_loop.simps [of buf] value_bytes_def Let_def)
qed

lemma readOneFrame_whole:
  assumes "frame_ok f" "c \<noteq> []" "concat (cs @ [c]) = frame_wire f"
  shows "readOneFrame (map (\<lambda>c. Read (Some c) False) (cs @ [c]) @ rest) = (Inr f, rest)"
proof -
  have "concat (take i (cs @ [c])) \<noteq> frame_wire f" if "i < length (cs @ [c])" for i
  proof -
    have "take i (cs @ [c]) = take i cs" using that by simp
    then have "length (concat (take i (cs @ [c]))) \<le> length (concat cs)"
      by (metis append_take_drop_id concat_append le_add1 length_append)
    with assms(2) show ?thesis unfolding assms(3) [symmetric] by (auto dest!: arg_cong [of _ _ length])
  qed
  moreover have "[] \<noteq> frame_wire f" by (simp add: frame_wire_def writeU8_def)
  ultimately show ?thesis unfolding readOneFrame_def using assms(1,3) by (intro read_loop_chunks) auto
qed

text \<open>
  One frame is read off a stream however its bytes are cut into chunks, with the reads after the one that completes it
  left alone (the exit keeps the stream open), and a stream that ends inside the frame is an error that says so.
\<close>

theorem readOneFrame_chunking:
  assumes "frame_ok f" "c \<noteq> []" "concat (cs @ [c]) = frame_wire f" "strict_prefix (concat ds @ value_bytes v) (frame_wire f)"
  shows "readOneFrame (map (\<lambda>c. Read (Some c) False) (cs @ [c]) @ rest) = (Inr f, rest) \<and>
    (\<exists>e. truncated e \<and> readOneFrame (map (\<lambda>d. Read (Some d) False) ds @ Read v True # rest) = (Inl (BadFrame e), rest))"
  using readOneFrame_whole [OF assms(1-3)] read_loop_ends [OF assms(1), of "[]" ds v rest] assms(4)
  by (simp add: readOneFrame_def)

definition sample_frame :: WarrenMultihopFrame where
  "sample_frame = \<lparr>version = 1, exitId = replicate 16 7, epoch = 0, seq = 1, encapsulatedKey = replicate 32 8,
     aeadTag = replicate 16 9, ciphertext = [1, 2, 3]\<rparr>"

theorem readOneFrame_chunking_witness:
  "readOneFrame [Read (Some (take 5 (frame_wire sample_frame))) False, Read (Some (drop 5 (frame_wire sample_frame))) False, ReadRejects] =
     (Inr sample_frame, [ReadRejects]) \<and> fst (readOneFrame [Read None True]) \<noteq> Inr sample_frame"
proof -
  have ok: "frame_ok sample_frame" by (simp add: frame_ok_def sample_frame_def)
  have "drop 5 (frame_wire sample_frame) \<noteq> []" by (simp add: frame_wire_def sample_frame_def writeU8_def writeFixed_def)
  moreover have "strict_prefix (concat [] @ value_bytes None) (frame_wire sample_frame)"
    by (simp add: value_bytes_def frame_wire_def writeU8_def)
  ultimately have "readOneFrame (map (\<lambda>c. Read (Some c) False) ([take 5 (frame_wire sample_frame)] @ [drop 5 (frame_wire sample_frame)]) @ [ReadRejects]) =
      (Inr sample_frame, [ReadRejects]) \<and>
    (\<exists>e. truncated e \<and> readOneFrame (map (\<lambda>d. Read (Some d) False) [] @ Read None True # [ReadRejects]) = (Inl (BadFrame e), [ReadRejects]))"
    using readOneFrame_chunking [OF ok, of "drop 5 (frame_wire sample_frame)" "[take 5 (frame_wire sample_frame)]" "[]" None "[ReadRejects]"] by simp
  moreover have "readOneFrame [Read None True] = (frame_of [], [])"
    by (simp add: readOneFrame_def read_loop.simps value_bytes_def)
  ultimately show ?thesis
    by (auto simp: readOneFrame_def read_loop.simps [of "[]"] value_bytes_def Let_def split: option.splits)
qed

end
