(* ===== verification/Edge.thy ===== *)
theory Edge
  imports Frame_Stream Seal Session_Walk Directory
begin

text \<open>
  The browser transport to an edge, \<^verbatim>\<open>packages/extension/src/edge.ts\<close>: one WebTransport session per connection, the setup
  exchange and the datagrams sealed over it, and the one-call bring-up that walks the session tokens. What a WebTransport
  session does is a parameter, \<open>edge_net\<close>: whether its promises resolve, the bytes its setup stream gives, and the
  ephemeral key drawn for it.
\<close>

section \<open>A connection\<close>

record edge_net =
  en_available :: bool
  en_ctor :: bool
  en_ready :: bool
  en_draw :: bytes
  en_stream :: bool
  en_write :: bool
  en_reads :: "edge_read list"

record WarrenEdgeOptions =
  eo_url :: string
  eo_exitX25519Pubkey :: bytes
  eo_exitId :: bytes
  eo_serverCertificateHashes :: "bytes list option"
  eo_webTransportFactory :: bool
  eo_ephemeralPrivForTest :: "bytes option"
  eo_lease :: "lease option"

text \<open>A connection keeps what it was dialed with and every frame it sealed, in order.\<close>

record edge_conn =
  ec_url :: string
  ec_pins :: "bytes list option"
  ec_session :: WarrenClientSession
  ec_seq :: int
  ec_lease :: "lease option"
  ec_closed :: bool
  ec_written :: "bytes list"

datatype edge_error = EdgeStream frame_read_error | EdgeWire wire_error | EdgeSeal seal_error

definition selectSessionEphemeral :: "WarrenEdgeOptions \<Rightarrow> bytes option" where
  "selectSessionEphemeral options = (if eo_webTransportFactory options then eo_ephemeralPrivForTest options else None)"

text \<open>
  What \<^verbatim>\<open>open\<close> throws, and the WebTransport it leaves open then: creating the session comes after the transport is
  ready, and when it throws nothing closes the transport.
\<close>

datatype open_failure = OpenFailed warren_error "(string \<times> bytes list option) option"

definition edge_open :: "crypto_lib \<Rightarrow> edge_net \<Rightarrow> WarrenEdgeOptions \<Rightarrow> open_failure + edge_conn" where
  "edge_open cl net options =
     (if \<not> eo_webTransportFactory options \<and> \<not> en_available net then Inl (OpenFailed (edgeError edge_handshake) None)
      else if \<not> en_ctor net \<or> \<not> en_ready net then Inl (OpenFailed OtherErr None)
      else case wcs_create cl (eo_exitX25519Pubkey options) (eo_exitId options)
                  (case selectSessionEphemeral options of Some e \<Rightarrow> e | None \<Rightarrow> en_draw net) of
             Inl _ \<Rightarrow> Inl (OpenFailed OtherErr (Some (eo_url options, eo_serverCertificateHashes options)))
           | Inr ses \<Rightarrow> Inr \<lparr>ec_url = eo_url options, ec_pins = eo_serverCertificateHashes options, ec_session = ses, ec_seq = 0,
                            ec_lease = eo_lease options, ec_closed = False, ec_written = []\<rparr>)"

text \<open>\<^verbatim>\<open>sealFrameBytes(payload, 0, this.nextSeq())\<close>.\<close>

definition edge_sealNext :: "crypto_lib \<Rightarrow> bytes \<Rightarrow> edge_conn \<Rightarrow> (edge_error + bytes) \<times> edge_conn" where
  "edge_sealNext cl payload c =
     (let c' = c\<lparr>ec_seq := ec_seq c + 1\<rparr>
      in case wcs_sealFrameBytes cl (ec_session c) payload 0 (ec_seq c) of
           Inl e \<Rightarrow> (Inl (EdgeWire e), c')
         | Inr bs \<Rightarrow> (Inr bs, c'\<lparr>ec_written := ec_written c @ [bs]\<rparr>))"

definition edge_opened :: "crypto_lib \<Rightarrow> edge_conn \<Rightarrow> frame_read_error + WarrenMultihopFrame \<Rightarrow> edge_error + bytes" where
  "edge_opened cl c r =
     (case r of
        Inl e \<Rightarrow> Inl (EdgeStream e)
      | Inr f \<Rightarrow> (case wcs_openResponse cl (ec_session c) f of Inl e \<Rightarrow> Inl (EdgeSeal e) | Inr p \<Rightarrow> Inr p))"

definition edge_setup :: "crypto_lib \<Rightarrow> edge_net \<Rightarrow> bytes \<Rightarrow> edge_conn \<Rightarrow> (edge_error + bytes) \<times> edge_conn" where
  "edge_setup cl net payload c =
     (if \<not> en_stream net then (Inl (EdgeStream StreamGone), c)
      else case edge_sealNext cl payload c of
             (Inl e, c1) \<Rightarrow> (Inl e, c1)
           | (Inr _, c1) \<Rightarrow>
               if \<not> en_write net then (Inl (EdgeStream StreamGone), c1)
               else (edge_opened cl c1 (fst (readOneFrame (en_reads net))), c1))"

definition edge_openTunnel ::
    "crypto_lib \<Rightarrow> (bytes \<Rightarrow> string) \<Rightarrow> edge_net \<Rightarrow> ip_request_v7 \<Rightarrow> edge_conn \<Rightarrow> (edge_error + ControlMessage) \<times> edge_conn" where
  "edge_openTunnel cl utf8 net params c =
     (case encodeIpRequestV7 params of
        Inl e \<Rightarrow> (Inl (EdgeWire e), c)
      | Inr request \<Rightarrow>
          (case edge_setup cl net request c of
             (Inl e, c1) \<Rightarrow> (Inl e, c1)
           | (Inr reply, c1) \<Rightarrow> ((case decodeControlMessage utf8 reply of Inl e \<Rightarrow> Inl (EdgeWire e) | Inr m \<Rightarrow> Inr m), c1)))"

definition edge_sendData :: "crypto_lib \<Rightarrow> edge_net \<Rightarrow> bytes \<Rightarrow> edge_conn \<Rightarrow> (edge_error + unit) \<times> edge_conn" where
  "edge_sendData cl net payload c =
     (case edge_sealNext cl payload c of
        (Inl e, c1) \<Rightarrow> (Inl e, c1)
      | (Inr _, c1) \<Rightarrow> ((if en_write net then Inr () else Inl (EdgeStream StreamGone)), c1))"

text \<open>\<^verbatim>\<open>incoming\<close>: the plaintexts it yields over the reads of the datagram stream, and how it ends.\<close>

fun edge_incoming :: "crypto_lib \<Rightarrow> edge_conn \<Rightarrow> edge_read list \<Rightarrow> bytes list \<times> (edge_error + unit)" where
  "edge_incoming cl c [] = ([], Inl (EdgeStream StreamGone))"
| "edge_incoming cl c (ReadRejects # reads) = ([], Inl (EdgeStream StreamGone))"
| "edge_incoming cl c (Read v ended # reads) =
     (let go = (if ended then ([], Inr ()) else edge_incoming cl c reads)
      in case v of
           None \<Rightarrow> go
         | Some datagram \<Rightarrow>
             (case edge_opened cl c (frame_of datagram) of
                Inl e \<Rightarrow> ([], Inl e)
              | Inr p \<Rightarrow> (case go of (ps, r) \<Rightarrow> (p # ps, r))))"

definition edge_close :: "edge_conn \<Rightarrow> manager \<Rightarrow> edge_conn \<times> manager" where
  "edge_close c m =
     (case ec_lease c of
        None \<Rightarrow> (c\<lparr>ec_closed := True\<rparr>, m)
      | Some l \<Rightarrow> (case release l m of (l', m') \<Rightarrow> (c\<lparr>ec_closed := True, ec_lease := Some l'\<rparr>, m')))"

section \<open>Bring-up\<close>

record ConnectEdgeParams =
  ce_tokens :: "bytes list"
  ce_claim :: bool
  ce_url :: string
  ce_exitX25519Pubkey :: bytes
  ce_exitId :: bytes
  ce_serverCertificateHashes :: "bytes list option"
  ce_webTransportFactory :: bool
  ce_ephemeralPrivForTest :: "bytes option"

definition openForAttempt :: "crypto_lib \<Rightarrow> edge_net \<Rightarrow> ConnectEdgeParams \<Rightarrow> lease option \<Rightarrow> open_failure + edge_conn" where
  "openForAttempt cl net params lease =
     edge_open cl net \<lparr>eo_url = ce_url params, eo_exitX25519Pubkey = ce_exitX25519Pubkey params, eo_exitId = ce_exitId params,
       eo_serverCertificateHashes = ce_serverCertificateHashes params, eo_webTransportFactory = ce_webTransportFactory params,
       eo_ephemeralPrivForTest = ce_ephemeralPrivForTest params, eo_lease = lease\<rparr>"

text \<open>
  The world of a bring-up: the token manager, the connections opened so far, the transports left open without a
  connection to close them, and how many sessions were dialed.
\<close>

record edge_world =
  ew_manager :: manager
  ew_conns :: "edge_conn list"
  ew_stray :: "(string \<times> bytes list option) list"
  ew_dials :: nat

definition setup_request :: "bytes \<Rightarrow> ip_request_v7" where
  "setup_request token = \<lparr>req_tokens = [token], wantsIpv6 = False, preferIpv4 = Some INDEPENDENT_SESSION_PLACEMENT, wantsDaita = False\<rparr>"

definition edge_attempt ::
    "crypto_lib \<Rightarrow> (bytes \<Rightarrow> string) \<Rightarrow> (nat \<Rightarrow> edge_net) \<Rightarrow> ConnectEdgeParams \<Rightarrow> bytes \<Rightarrow> lease option \<Rightarrow> edge_world \<Rightarrow>
       (warren_error + SessionAttempt) \<times> edge_world" where
  "edge_attempt cl utf8 nets params token lease w =
     (let net = nets (ew_dials w); w1 = w\<lparr>ew_dials := Suc (ew_dials w)\<rparr>
      in case openForAttempt cl net params lease of
           Inl (OpenFailed e left) \<Rightarrow> (Inl e, w1\<lparr>ew_stray := ew_stray w1 @ (case left of None \<Rightarrow> [] | Some t \<Rightarrow> [t])\<rparr>)
         | Inr c \<Rightarrow>
             (case edge_openTunnel cl utf8 net (setup_request token) c of
                (Inl e, c1) \<Rightarrow>
                  (case edge_close c1 (ew_manager w1) of
                     (c2, m) \<Rightarrow> (Inl OtherErr, w1\<lparr>ew_conns := ew_conns w1 @ [c2], ew_manager := m\<rparr>))
              | (Inr control, c1) \<Rightarrow>
                  (Inr \<lparr>at_control = control, at_connection = length (ew_conns w1)\<rparr>, w1\<lparr>ew_conns := ew_conns w1 @ [c1]\<rparr>)))"

definition edge_close_at :: "nat \<Rightarrow> edge_world \<Rightarrow> edge_world" where
  "edge_close_at i w =
     (case edge_close (ew_conns w ! i) (ew_manager w) of (c, m) \<Rightarrow> w\<lparr>ew_conns := (ew_conns w)[i := c], ew_manager := m\<rparr>)"

definition edge_claim :: "token_platform \<Rightarrow> bytes \<Rightarrow> edge_world \<Rightarrow> lease option \<times> edge_world" where
  "edge_claim pf token w = (case claim pf token (ew_manager w) of (l, m) \<Rightarrow> (l, w\<lparr>ew_manager := m\<rparr>))"

definition edge_io ::
    "token_platform \<Rightarrow> crypto_lib \<Rightarrow> (bytes \<Rightarrow> string) \<Rightarrow> (nat \<Rightarrow> edge_net) \<Rightarrow> ConnectEdgeParams \<Rightarrow> (lease, edge_world) walk_io" where
  "edge_io pf cl utf8 nets params = \<lparr>
     io_attempt = edge_attempt cl utf8 nets params,
     io_close = (\<lambda>a. edge_close_at (at_connection a)),
     io_claim = (if ce_claim params then Some (edge_claim pf) else None),
     io_release = (\<lambda>l w. w\<lparr>ew_manager := snd (release l (ew_manager w))\<rparr>)\<rparr>"

text \<open>The connection is named by its place among those opened.\<close>

definition connectEdgeTunnel ::
    "token_platform \<Rightarrow> crypto_lib \<Rightarrow> (bytes \<Rightarrow> string) \<Rightarrow> (nat \<Rightarrow> edge_net) \<Rightarrow> ConnectEdgeParams \<Rightarrow> edge_world \<Rightarrow>
       (warren_error + nat \<times> ControlMessage) \<times> edge_world" where
  "connectEdgeTunnel pf cl utf8 nets params w =
     (if ce_tokens params = [] then (Inl (edgeError edge_token_issuer), w)
      else case walkSessionTokens (edge_io pf cl utf8 nets params) (ce_tokens params) w of
             (Inl e, w') \<Rightarrow> (Inl (walk_thrown e), w')
           | (Inr r, w') \<Rightarrow> (Inr (at_connection (wr_attempt r), at_control (wr_attempt r)), w'))"

section \<open>A directory exit\<close>

text \<open>\<^verbatim>\<open>Number.parseInt(s, 16)\<close>: leading white space, a sign and a prefix are skipped, and what follows the digits is ignored.\<close>

definition js_space :: "char \<Rightarrow> bool" where
  "js_space c \<longleftrightarrow> (let n = of_char c :: nat in n = 32 \<or> 9 \<le> n \<and> n \<le> 13)"

definition parseInt16 :: "string \<Rightarrow> int option" where
  "parseInt16 s =
     (let t = dropWhile js_space s; neg = (take 1 t = ''-'');
          u = (if take 1 t \<in> {''-'', ''+''} then drop 1 t else t);
          v = (if take 2 u \<in> {''0x'', ''0X''} then drop 2 u else u);
          ds = takeWhile (\<lambda>c. hex_value c \<noteq> None) v;
          n = foldl (\<lambda>a c. 16 * a + int (the (hex_value c))) 0 ds
      in if ds = [] then None else Some (if neg then - n else n))"

fun hex_pairs :: "string \<Rightarrow> bytes option" where
  "hex_pairs (h # l # r) =
     (case parseInt16 [h, l] of None \<Rightarrow> None | Some n \<Rightarrow> map_option ((#) (word_of_int n)) (hex_pairs r))"
| "hex_pairs _ = Some []"

definition hexToBytes :: "string \<Rightarrow> bytes option" where
  "hexToBytes hex = (if length hex mod 2 \<noteq> 0 then None else hex_pairs hex)"

definition hostOf :: "string \<Rightarrow> string" where
  "hostOf endpoint =
     (if take 1 endpoint = ''['' \<and> CHR '']'' \<in> set endpoint then takeWhile (\<lambda>c. c \<noteq> CHR '']'') endpoint @ '']''
      else if CHR '':'' \<in> set endpoint then rev (drop 1 (dropWhile (\<lambda>c. c \<noteq> CHR '':'') (rev endpoint)))
      else endpoint)"

definition WARREN_EDGE_PORT :: int where
  "WARREN_EDGE_PORT = 8443"

definition edge_url :: "string \<Rightarrow> string" where
  "edge_url endpoint = ''https://'' @ hostOf endpoint @ '':'' @ show_int WARREN_EDGE_PORT @ ''/warren''"

text \<open>The options of \<^verbatim>\<open>connectEdgeTunnelToExit\<close> are the params less what the exit gives; bad hexadecimal throws.\<close>

definition connectEdgeTunnelToExit ::
    "token_platform \<Rightarrow> crypto_lib \<Rightarrow> (bytes \<Rightarrow> string) \<Rightarrow> (nat \<Rightarrow> edge_net) \<Rightarrow> VerifiedExit \<Rightarrow> ConnectEdgeParams \<Rightarrow> edge_world \<Rightarrow>
       (warren_error + nat \<times> ControlMessage) \<times> edge_world" where
  "connectEdgeTunnelToExit pf cl utf8 nets exit params w =
     (case ve_edgeCertSha256 exit of
        None \<Rightarrow> (Inl (edgeError edge_no_edge_pin), w)
      | Some cert \<Rightarrow>
          (case (hexToBytes (ve_exitX25519PubkeyHex exit), hexToBytes (ve_exitIdHex exit), hexToBytes cert) of
             (Some pub, Some eid, Some pin) \<Rightarrow>
               connectEdgeTunnel pf cl utf8 nets
                 (params\<lparr>ce_url := edge_url (ve_endpoint exit), ce_exitX25519Pubkey := pub, ce_exitId := eid,
                         ce_serverCertificateHashes := Some [pin]\<rparr>) w
           | _ \<Rightarrow> (Inl OtherErr, w)))"

section \<open>Slots\<close>

text \<open>What a connection seals, over any interleaving of setups and datagrams: each takes its slot and its bytes at once.\<close>

fun seal_all :: "crypto_lib \<Rightarrow> bytes list \<Rightarrow> edge_conn \<Rightarrow> edge_conn" where
  "seal_all cl [] c = c"
| "seal_all cl (p # ps) c = seal_all cl ps (snd (edge_sealNext cl p c))"

lemma sealNext_fields [simp]:
  "ec_session (snd (edge_sealNext cl p c)) = ec_session c" "ec_seq (snd (edge_sealNext cl p c)) = ec_seq c + 1"
  "ec_lease (snd (edge_sealNext cl p c)) = ec_lease c" "ec_closed (snd (edge_sealNext cl p c)) = ec_closed c"
  by (auto simp: edge_sealNext_def Let_def split: sum.split)

lemma setup_fields:
  "edge_setup cl net p c = (r, c') \<Longrightarrow> ec_session c' = ec_session c \<and> ec_lease c' = ec_lease c \<and> ec_closed c' = ec_closed c"
  by (auto simp: edge_setup_def edge_sealNext_def Let_def split: sum.splits if_splits)

lemma openTunnel_fields:
  "edge_openTunnel cl utf8 net req c = (r, c') \<Longrightarrow>
     ec_session c' = ec_session c \<and> ec_lease c' = ec_lease c \<and> ec_closed c' = ec_closed c"
  using setup_fields [of cl net _ c] by (fastforce simp: edge_openTunnel_def split: sum.splits prod.splits)

lemma sealNext_wire:
  assumes "crypto_laws cl" "wcs_create cl (x_public cl skR) eid skE = Inr (ec_session c)" "0 \<le> ec_seq c" "ec_seq c < 2 ^ 64"
    and "length p < 2 ^ 53"
  shows "edge_sealNext cl p c = (Inr (frame_wire (wcs_seal cl (ec_session c) p 0 (ec_seq c))),
      c\<lparr>ec_seq := ec_seq c + 1, ec_written := ec_written c @ [frame_wire (wcs_seal cl (ec_session c) p 0 (ec_seq c))]\<rparr>)"
    and "frame_ok (wcs_seal cl (ec_session c) p 0 (ec_seq c))"
proof -
  show ok: "frame_ok (wcs_seal cl (ec_session c) p 0 (ec_seq c))"
    by (rule wcs_seal_ok [OF assms(1,2)]) (use assms(3-) in simp_all)
  then show "edge_sealNext cl p c = (Inr (frame_wire (wcs_seal cl (ec_session c) p 0 (ec_seq c))),
      c\<lparr>ec_seq := ec_seq c + 1, ec_written := ec_written c @ [frame_wire (wcs_seal cl (ec_session c) p 0 (ec_seq c))]\<rparr>)"
    using encodeMultihopFrame_ok [of "wcs_seal cl (ec_session c) p 0 (ec_seq c)"]
    by (simp add: edge_sealNext_def Let_def wcs_sealFrameBytes_def frame_ok_def)
qed

lemma seal_all_written:
  assumes "crypto_laws cl" "wcs_create cl (x_public cl skR) eid skE = Inr (ec_session c)" "0 \<le> ec_seq c"
    and "ec_seq c + int (length ps) < 2 ^ 64" "list_all (\<lambda>p. length p < 2 ^ 53) ps"
  shows "ec_written (seal_all cl ps c) =
    ec_written c @ map (\<lambda>(i, p). frame_wire (wcs_seal cl (ec_session c) p 0 (ec_seq c + int i))) (enumerate 0 ps)"
  using assms(2-)
proof (induction ps arbitrary: c)
  case (Cons p ps)
  note seal = sealNext_wire [OF assms(1) Cons.prems(1,2), of p]
  have shift: "map (\<lambda>(i, q). frame_wire (wcs_seal cl (ec_session c) q 0 (ec_seq c + 1 + int i))) (enumerate 0 ps) =
      map (\<lambda>(i, q). frame_wire (wcs_seal cl (ec_session c) q 0 (ec_seq c + int i))) (enumerate (Suc 0) ps)"
    by (auto simp: enumerate_Suc_eq [of 0] algebra_simps)
  show ?case using Cons.IH [of "snd (edge_sealNext cl p c)"] Cons.prems seal(1) shift by simp
qed simp

lemma edge_open_Inr:
  assumes "edge_open cl net options = Inr c"
  obtains skE where "wcs_create cl (eo_exitX25519Pubkey options) (eo_exitId options) skE = Inr (ec_session c)"
    "ec_seq c = 0" "ec_written c = []" "ec_lease c = eo_lease options" "\<not> ec_closed c"
    "ec_url c = eo_url options" "ec_pins c = eo_serverCertificateHashes options"
    "\<not> eo_webTransportFactory options \<Longrightarrow> skE = en_draw net"
  using assms by (auto simp: edge_open_def selectSessionEphemeral_def split: if_splits sum.splits)

text \<open>
  C10. No two packets of a connection share a slot: over any interleaving of setups and datagrams the bytes it seals are, in
  order, frames of epoch zero with the sequence numbers from zero up, each opening at the exit to its payload, and no two
  of them have the same key input; and without an injected transport the session's key is the freshly drawn one.
\<close>

theorem edge_slots_fresh:
  assumes "crypto_laws cl" "edge_open cl net options = Inr c" "eo_exitX25519Pubkey options = x_public cl skR"
    and "length ps < 2 ^ 64" "list_all (\<lambda>p. length p < 2 ^ 53) ps" "i < length ps" "j < length ps" "i \<noteq> j"
  shows "length (ec_written (seal_all cl ps c)) = length ps \<and>
    (\<exists>f g. decodeMultihopFrame (ec_written (seal_all cl ps c) ! i) = Inr f \<and>
       decodeMultihopFrame (ec_written (seal_all cl ps c) ! j) = Inr g \<and>
       epoch f = 0 \<and> seq f = int i \<and> exit_open_v1 cl skR f = Inr (ps ! i) \<and>
       composeExportInfo (epoch f) (seq f) \<noteq> composeExportInfo (epoch g) (seq g))"
proof -
  obtain skE where c: "wcs_create cl (x_public cl skR) (eo_exitId options) skE = Inr (ec_session c)" "ec_seq c = 0" "ec_written c = []"
    using edge_open_Inr [OF assms(2)] assms(3) by metis
  let ?f = "\<lambda>k. wcs_seal cl (ec_session c) (ps ! k) 0 (int k)"
  have bound: "int (length ps) < 2 ^ 64" using assms(4) by simp
  have w: "ec_written (seal_all cl ps c) = map (\<lambda>(k, p). frame_wire (wcs_seal cl (ec_session c) p 0 (int k))) (enumerate 0 ps)"
    using seal_all_written [OF assms(1) c(1), of ps] assms(5) bound c(2,3) by simp
  have at: "decodeMultihopFrame (ec_written (seal_all cl ps c) ! k) = Inr (?f k)" if "k < length ps" for k
  proof -
    have "ec_written (seal_all cl ps c) ! k = frame_wire (?f k)" using that by (simp add: w nth_enumerate_eq)
    moreover have "length (ps ! k) < 2 ^ 53" using assms(5) that by (simp add: list_all_length)
    then have "frame_ok (?f k)" using that bound by (intro wcs_seal_ok [OF assms(1) c(1)]) auto
    ultimately show ?thesis by (simp add: decodeMultihopFrame_wire)
  qed
  have slot: "epoch (?f k) = 0" "seq (?f k) = int k" for k by (simp_all add: wcs_seal_def Let_def case_prod_beta)
  have "int i mod 2 ^ 64 \<noteq> int j mod 2 ^ 64" using assms(6-8) bound by simp
  then have "composeExportInfo 0 (int i) \<noteq> composeExportInfo 0 (int j)" by (simp add: v1_fwd.slot_inj)
  then show ?thesis using at [OF assms(6)] at [OF assms(7)] slot exit_opens_v1 [OF assms(1) c(1)] by (auto simp: w)
qed

section \<open>Admission\<close>

lemma exit_reply_ok:
  assumes "crypto_laws cl" "wcs_create cl (x_public cl skR) eid skE = Inr ses" "frame_ok f" "exit_reply_v1 cl skR f reply e s = Inr g"
    and "0 \<le> e" "e < 2 ^ 53" "0 \<le> s" "s < 2 ^ 64" "length reply < 2 ^ 53"
  shows "frame_ok g"
  using assms(3-) crypto_lawsD(2) [OF assms(1)] splitSealed_lengths [OF crypto_lawsD(2) [OF assms(1)]]
  by (auto simp: exit_reply_v1_def bindR_eq_Inr_conv Let_def case_prod_beta frame_ok_def)

lemma setup_admits:
  assumes "crypto_laws cl" "edge_open cl net options = Inr c" "eo_exitX25519Pubkey options = x_public cl skR"
    and "\<And>t. utf8 (write8 t) = t" "control_ok write8 msg" "length (writeControlMessage write8 msg) < 2 ^ 53"
    and "encodeIpRequestV7 params = Inr request" "length request < 2 ^ 53"
    and "exit_reply_v1 cl skR (wcs_seal cl (ec_session c) request 0 0) (writeControlMessage write8 msg) e s = Inr g"
    and "0 \<le> e" "e < 2 ^ 53" "0 \<le> s" "s < 2 ^ 64"
    and "en_stream net'" "en_write net'" "en_reads net' = map (\<lambda>k. Read (Some k) False) (ks @ [k]) @ rest"
    and "k \<noteq> []" "concat (ks @ [k]) = frame_wire g"
  shows "\<exists>f c'. edge_openTunnel cl utf8 net' params c = (Inr msg, c') \<and> ec_written c' = [frame_wire f] \<and>
    decodeMultihopFrame (frame_wire f) = Inr f \<and> exit_open_v1 cl skR f = Inr request"
proof -
  obtain skE where c: "wcs_create cl (x_public cl skR) (eo_exitId options) skE = Inr (ec_session c)" "ec_seq c = 0" "ec_written c = []"
    using edge_open_Inr [OF assms(2)] assms(3) by metis
  let ?f = "wcs_seal cl (ec_session c) request 0 0"
  have seal: "edge_sealNext cl request c = (Inr (frame_wire ?f), c\<lparr>ec_seq := 1, ec_written := [frame_wire ?f]\<rparr>)" "frame_ok ?f"
    using sealNext_wire [OF assms(1) c(1), of request] assms(8) c by simp_all
  have g: "frame_ok g" by (rule exit_reply_ok [OF assms(1) c(1) seal(2) assms(9,10,11,12,13,6)])
  have eid: "wcs_exitId (ec_session c) = eo_exitId options" using c(1) by (simp add: wcs_create_Inr)
  have f: "encapsulatedKey ?f = enc (wcs_sender (ec_session c))" "exitId ?f = eo_exitId options"
    using eid by (simp_all add: wcs_seal_def Let_def case_prod_beta)
  have "wcs_openResponse cl (ec_session c) g = Inr (writeControlMessage write8 msg)"
    using exit_replies_v1 [OF assms(1) c(1) f, of "writeControlMessage write8 msg" e s] assms(9) by auto
  moreover have "readOneFrame (en_reads net') = (Inr g, rest)"
    unfolding assms(16) using g assms(17,18) by (rule readOneFrame_whole)
  moreover have "decodeControlMessage utf8 (writeControlMessage write8 msg) = Inr msg"
    using assms(4,5) by (rule decode_written_control)
  ultimately have "edge_openTunnel cl utf8 net' params c = (Inr msg, c\<lparr>ec_seq := 1, ec_written := [frame_wire ?f]\<rparr>)"
    using assms(7,14,15) seal(1) by (simp add: edge_openTunnel_def edge_setup_def edge_opened_def)
  then show ?thesis using decodeMultihopFrame_wire [OF seal(2)] exit_opens_v1 [OF assms(1) c(1), of request 0 0] by auto
qed

text \<open>
  C13. The setup exchange works end to end with an exit that follows the protocol: the one frame a fresh connection writes opens
  at the exit to the encoded request, and when the exit's sealed reply arrives, in chunks of any sizes and on a stream it
  keeps open, \<^verbatim>\<open>openTunnel\<close> returns the very control message the exit wrote.
\<close>

theorem edge_admission:
  assumes "crypto_laws cl" "edge_open cl net options = Inr c" "eo_exitX25519Pubkey options = x_public cl skR"
    and "\<And>t. utf8 (write8 t) = t" "control_ok write8 msg" "length (writeControlMessage write8 msg) < 2 ^ 53"
    and "encodeIpRequestV7 params = Inr request" "length request < 2 ^ 53"
    and "exit_reply_v1 cl skR (wcs_seal cl (ec_session c) request 0 0) (writeControlMessage write8 msg) e s = Inr g"
    and "0 \<le> e" "e < 2 ^ 53" "0 \<le> s" "s < 2 ^ 64"
    and "en_stream net'" "en_write net'" "en_reads net' = map (\<lambda>k. Read (Some k) False) (ks @ [k]) @ rest"
    and "k \<noteq> []" "concat (ks @ [k]) = frame_wire g"
  shows "\<exists>f c'. edge_openTunnel cl utf8 net' params c = (Inr msg, c') \<and> ec_written c' = [frame_wire f] \<and>
    decodeMultihopFrame (frame_wire f) = Inr f \<and> exit_open_v1 cl skR f = Inr request"
  by (rule setup_admits [OF assms])

section \<open>The walk\<close>

definition dialed_as :: "ConnectEdgeParams \<Rightarrow> edge_conn \<Rightarrow> bool" where
  "dialed_as params c \<longleftrightarrow> ec_url c = ce_url params \<and> ec_pins c = ce_serverCertificateHashes params"

lemma close_fields:
  "edge_close c m = (c', m') \<Longrightarrow> ec_closed c' \<and> ec_url c' = ec_url c \<and> ec_pins c' = ec_pins c \<and>
     (tm_held m' = tm_held m \<or> (\<exists>l. ec_lease c = Some l \<and> tm_held m' = tm_held m - {fst l}))"
  by (auto simp: edge_close_def release_def split: option.splits if_splits prod.splits)

lemma openTunnel_dialed: "edge_openTunnel cl utf8 net req c = (r, c') \<Longrightarrow> ec_url c' = ec_url c \<and> ec_pins c' = ec_pins c"
  by (auto simp: edge_openTunnel_def edge_setup_def edge_sealNext_def Let_def split: sum.splits if_splits prod.splits)

text \<open>
  What it takes for a connection to have been answered for a token: the one frame it wrote is its session's seal, in slot zero,
  of a request for that token alone, and the reply of the setup stream opens under that session to the answer.
\<close>

definition answered_on :: "crypto_lib \<Rightarrow> (bytes \<Rightarrow> string) \<Rightarrow> edge_net \<Rightarrow> bytes \<Rightarrow> ControlMessage \<Rightarrow> edge_conn \<Rightarrow> bool" where
  "answered_on cl utf8 net token control c \<longleftrightarrow> (\<exists>request bs f reply.
     encodeIpRequestV7 \<lparr>req_tokens = [token], wantsIpv6 = False, preferIpv4 = Some INDEPENDENT_SESSION_PLACEMENT,
       wantsDaita = False\<rparr> = Inr request \<and>
     wcs_sealFrameBytes cl (ec_session c) request 0 0 = Inr bs \<and> ec_written c = [bs] \<and>
     fst (readOneFrame (en_reads net)) = Inr f \<and> wcs_openResponse cl (ec_session c) f = Inr reply \<and>
     decodeControlMessage utf8 reply = Inr control)"

lemma openTunnel_answered:
  assumes "edge_openTunnel cl utf8 net (setup_request token) c = (Inr control, c')" "ec_seq c = 0" "ec_written c = []"
  shows "answered_on cl utf8 net token control c'"
proof -
  obtain request reply where q: "encodeIpRequestV7 (setup_request token) = Inr request"
    "edge_setup cl net request c = (Inr reply, c')" "decodeControlMessage utf8 reply = Inr control"
    using assms(1) by (auto simp: edge_openTunnel_def split: sum.splits prod.splits)
  obtain bs where bs: "edge_sealNext cl request c = (Inr bs, c')" "edge_opened cl c' (fst (readOneFrame (en_reads net))) = Inr reply"
    using q(2) by (auto simp: edge_setup_def split: sum.splits prod.splits if_splits)
  then obtain f where "fst (readOneFrame (en_reads net)) = Inr f" "wcs_openResponse cl (ec_session c') f = Inr reply"
    by (auto simp: edge_opened_def split: sum.splits)
  moreover have "wcs_sealFrameBytes cl (ec_session c') request 0 0 = Inr bs" "ec_written c' = [bs]"
    using bs(1) assms(2,3) by (auto simp: edge_sealNext_def Let_def split: sum.splits)
  ultimately show ?thesis using q(1,3) unfolding answered_on_def setup_request_def by blast
qed

text \<open>A walk that left a transport open: creating its session threw, and the walk with it.\<close>

definition left_stray :: "crypto_lib \<Rightarrow> ConnectEdgeParams \<Rightarrow> edge_world \<Rightarrow> warren_error + 'a \<Rightarrow> edge_world \<Rightarrow> bool" where
  "left_stray cl params w r w' \<longleftrightarrow> (\<exists>a. r = Inl a \<and> a = OtherErr) \<and>
     ew_stray w' = ew_stray w @ [(ce_url params, ce_serverCertificateHashes params)] \<and>
     (\<exists>skE e. wcs_create cl (ce_exitX25519Pubkey params) (ce_exitId params) skE = Inl e)"

lemma edge_open_stray:
  "edge_open cl net options = Inl (OpenFailed e (Some t)) \<Longrightarrow> e = OtherErr \<and> t = (eo_url options, eo_serverCertificateHashes options) \<and>
     (\<exists>skE x. wcs_create cl (eo_exitX25519Pubkey options) (eo_exitId options) skE = Inl x)"
  by (auto simp: edge_open_def split: if_splits sum.splits)

lemma attempt_conns:
  assumes "edge_attempt cl utf8 nets params token lease w = (r, w')"
  shows "case r of
      Inl _ \<Rightarrow> (\<exists>new. ew_conns w' = ew_conns w @ new \<and> list_all ec_closed new \<and> list_all (dialed_as params) new) \<and>
        (tm_held (ew_manager w') = tm_held (ew_manager w) \<or>
         (\<exists>l. lease = Some l \<and> tm_held (ew_manager w') = tm_held (ew_manager w) - {fst l})) \<and>
        (ew_stray w' = ew_stray w \<or> left_stray cl params w r w')
    | Inr a \<Rightarrow> ew_manager w' = ew_manager w \<and> at_connection a = length (ew_conns w) \<and>
        ew_stray w' = ew_stray w \<and> ew_dials w' = Suc (ew_dials w) \<and>
        (\<exists>c. ew_conns w' = ew_conns w @ [c] \<and> \<not> ec_closed c \<and> ec_lease c = lease \<and> dialed_as params c \<and>
          answered_on cl utf8 (nets (ew_dials w)) token (at_control a) c)"
proof (cases "openForAttempt cl (nets (ew_dials w)) params lease")
  case (Inl f)
  obtain e left where f: "f = OpenFailed e left" by (cases f)
  with assms Inl have r: "r = Inl e"
    "w' = w\<lparr>ew_dials := Suc (ew_dials w), ew_stray := ew_stray w @ (case left of None \<Rightarrow> [] | Some t \<Rightarrow> [t])\<rparr>"
    by (simp_all add: edge_attempt_def Let_def)
  with edge_open_stray [of cl "nets (ew_dials w)"] Inl f show ?thesis
    by (cases left) (fastforce simp: openForAttempt_def left_stray_def)+
next
  case (Inr c)
  then have c: "\<not> ec_closed c" "ec_lease c = lease" "dialed_as params c" "ec_seq c = 0" "ec_written c = []"
    unfolding openForAttempt_def dialed_as_def by (auto elim: edge_open_Inr)
  obtain t c1 where t: "edge_openTunnel cl utf8 (nets (ew_dials w)) (setup_request token) c = (t, c1)" by fastforce
  obtain c2 m where cl: "edge_close c1 (ew_manager w) = (c2, m)" by fastforce
  note f = openTunnel_fields [OF t] openTunnel_dialed [OF t] close_fields [OF cl]
  show ?thesis
  proof (cases t)
    case (Inl e)
    have "r = Inl OtherErr" "w' = w\<lparr>ew_dials := Suc (ew_dials w), ew_conns := ew_conns w @ [c2], ew_manager := m\<rparr>"
      using assms Inr t cl Inl by (simp_all add: edge_attempt_def Let_def)
    moreover have "dialed_as params c2" "ec_closed c2" using f c(3) by (simp_all add: dialed_as_def)
    ultimately show ?thesis using f c(2) by auto
  next
    case (Inr control)
    have "r = Inr \<lparr>at_control = control, at_connection = length (ew_conns w)\<rparr>"
      "w' = w\<lparr>ew_dials := Suc (ew_dials w), ew_conns := ew_conns w @ [c1]\<rparr>"
      using assms \<open>openForAttempt cl _ params lease = Inr c\<close> t Inr by (auto simp: edge_attempt_def Let_def)
    moreover have "dialed_as params c1" using f c(3) by (simp add: dialed_as_def)
    moreover have "answered_on cl utf8 (nets (ew_dials w)) token control c1"
      using openTunnel_answered [OF t [unfolded Inr] c(4,5)] .
    ultimately show ?thesis using f c by simp
  qed
qed

lemma close_at_last:
  assumes "ew_conns w = cs @ [c]"
  obtains c' where "ew_conns (edge_close_at (length cs) w) = cs @ [c']" "ew_stray (edge_close_at (length cs) w) = ew_stray w" "ec_closed c'" "ec_url c' = ec_url c" "ec_pins c' = ec_pins c"
    "tm_held (ew_manager (edge_close_at (length cs) w)) = tm_held (ew_manager w) \<or>
     (\<exists>l. ec_lease c = Some l \<and> tm_held (ew_manager (edge_close_at (length cs) w)) = tm_held (ew_manager w) - {fst l})"
proof -
  obtain c' m where cl: "edge_close c (ew_manager w) = (c', m)" by fastforce
  show thesis using that [of c'] assms cl close_fields [OF cl] by (auto simp: edge_close_at_def)
qed

interpretation edge_pool: lease_pool "edge_io pf cl utf8 nets (params\<lparr>ce_claim := True\<rparr>)" "edge_claim pf" "tm_held \<circ> ew_manager" fst
  for pf cl utf8 nets params
proof
  fix token l w e w' a
  let ?io = "edge_io pf cl utf8 nets (params\<lparr>ce_claim := True\<rparr>)" and ?held = "tm_held \<circ> ew_manager"
  show "io_claim ?io = Some (edge_claim pf)" by (simp add: edge_io_def)
  show "edge_claim pf token w = (Some l, w') \<Longrightarrow> fst l \<notin> ?held w \<and> ?held w' = insert (fst l) (?held w)"
    "edge_claim pf token w = (None, w') \<Longrightarrow> ?held w' = ?held w"
    by (auto simp: edge_claim_def claim_def split: option.splits if_splits)
  show "edge_claim pf token w = (Some l, w') \<Longrightarrow> ?held (io_release ?io l w'') = ?held w'' - {fst l}" for w''
    by (auto simp: edge_claim_def claim_def edge_io_def release_def split: option.splits if_splits)
  show "io_attempt ?io token (Some l) w = (Inl e, w') \<Longrightarrow> ?held w' = ?held w \<or> ?held w' = ?held w - {fst l}"
    using attempt_conns [of cl utf8 nets "params\<lparr>ce_claim := True\<rparr>" token "Some l" w] by (auto simp: edge_io_def)
  assume a: "io_attempt ?io token (Some l) w = (Inr a, w')"
  with attempt_conns [of cl utf8 nets "params\<lparr>ce_claim := True\<rparr>" token "Some l" w "Inr a" w']
  obtain c where c: "ew_manager w' = ew_manager w" "at_connection a = length (ew_conns w)" "ew_conns w' = ew_conns w @ [c]" "ec_lease c = Some l"
    by (auto simp: edge_io_def)
  then show "?held w' = ?held w" by simp
  from close_at_last [OF c(3)] c show "?held (io_close ?io a w') = ?held w \<or> ?held (io_close ?io a w') = ?held w - {fst l}"
    by (auto simp: edge_io_def)
qed

text \<open>What a walk leaves: the connections it opened are dialed alike and closed, but for the one it was answered on.\<close>

definition walk_left :: "ConnectEdgeParams \<Rightarrow> edge_world \<Rightarrow> walk_error + lease SessionWalkResult \<Rightarrow> edge_conn list \<Rightarrow> bool" where
  "walk_left params w r new \<longleftrightarrow> list_all (dialed_as params) new \<and>
    (case r of
       Inl _ \<Rightarrow> list_all ec_closed new
     | Inr res \<Rightarrow> \<exists>cs c. new = cs @ [c] \<and> list_all ec_closed cs \<and> \<not> ec_closed c \<and> ec_lease c = wr_lease res \<and>
         at_connection (wr_attempt res) = length (ew_conns w @ cs))"

lemma walk_left_extend:
  assumes "walk_left params w2 r new" "ew_conns w2 = ew_conns w @ cs" "list_all ec_closed cs" "list_all (dialed_as params) cs"
  shows "walk_left params w r (cs @ new)"
proof (cases r)
  case (Inl e)
  with assms show ?thesis by (simp add: walk_left_def)
next
  case (Inr res)
  with assms(1) obtain ds c where "new = ds @ [c]" "list_all ec_closed ds" "\<not> ec_closed c" "ec_lease c = wr_lease res"
    "at_connection (wr_attempt res) = length (ew_conns w2 @ ds)" "list_all (dialed_as params) new" by (auto simp: walk_left_def)
  with Inr assms(2-) show ?thesis by (auto simp: walk_left_def intro!: exI [of _ "cs @ ds"])
qed

lemma walk_conns:
  assumes "walk_loop (edge_io pf cl utf8 nets params) n tokens w = (r, w')"
  shows "\<exists>new. ew_conns w' = ew_conns w @ new \<and> walk_left params w r new"
  using assms
proof (induction tokens arbitrary: n w)
  case Nil
  then show ?case by (auto simp: walk_left_def)
next
  case (Cons token rest)
  let ?io = "edge_io pf cl utf8 nets params"
  obtain lease w1 where cl: "claim_opt ?io token w = (lease, w1)" by fastforce
  then have w1: "ew_conns w1 = ew_conns w"
    by (auto simp: claim_opt_def edge_io_def edge_claim_def split: if_splits prod.splits)
  have rel: "ew_conns (release_opt ?io l w2) = ew_conns w2" for l w2
    by (simp add: release_opt_def edge_io_def split: option.split)
  have ext: ?case if "walk_loop ?io n' rest w2 = (r, w')" "ew_conns w2 = ew_conns w @ cs" "list_all ec_closed cs"
      "list_all (dialed_as params) cs" for n' w2 cs
    using Cons.IH [OF that(1)] walk_left_extend [OF _ that(2-)] that(2) by auto
  show ?case
  proof (cases "io_claim ?io \<noteq> None \<and> lease = None")
    case True
    then show ?thesis using ext [of n w1 "[]"] Cons.prems cl w1 by simp
  next
    case no: False
    obtain t w2 where t: "io_attempt ?io token lease w1 = (t, w2)" by fastforce
    then have a: "edge_attempt cl utf8 nets params token lease w1 = (t, w2)" by (simp add: edge_io_def)
    show ?thesis
    proof (cases t)
      case (Inl e)
      then show ?thesis using attempt_conns [OF a] Cons.prems cl no t w1 rel by (auto simp: walk_left_def)
    next
      case (Inr b)
      then obtain c where c: "ew_conns w2 = ew_conns w1 @ [c]" "\<not> ec_closed c" "ec_lease c = lease" "dialed_as params c"
        "at_connection b = length (ew_conns w1)" using attempt_conns [OF a] by auto
      obtain c' where c': "ew_conns (io_close ?io b w2) = ew_conns w1 @ [c']" "ec_closed c'" "dialed_as params c'"
        using close_at_last [OF c(1)] c(4,5) by (auto simp: edge_io_def dialed_as_def)
      show ?thesis
        using ext [of "n + 1" "release_opt ?io lease (io_close ?io b w2)" "[c']"] c' w1 rel Cons.prems cl no t Inr c
        by (cases "at_control b = MRejected") (auto simp: walk_left_def)
    qed
  qed
qed

lemma walk_lease_live:
  "walk_loop (edge_io pf cl utf8 nets params) n tokens w = (Inr res, w') \<Longrightarrow> wr_lease res = Some l \<Longrightarrow> snd l"
proof (induction tokens arbitrary: n w)
  case (Cons token rest)
  have "claim_opt (edge_io pf cl utf8 nets params) token w = (Some l, w1) \<Longrightarrow> snd l" for w1
    by (auto simp: claim_opt_def edge_io_def edge_claim_def claim_def split: if_splits option.splits prod.splits)
  with Cons show ?case by (auto split: prod.splits if_splits sum.splits)
qed simp

lemma edge_io_frame [simp]:
  "ew_stray (snd (claim_opt (edge_io pf cl utf8 nets params) token w)) = ew_stray w"
  "ew_stray (release_opt (edge_io pf cl utf8 nets params) l w) = ew_stray w"
  "ew_dials (release_opt (edge_io pf cl utf8 nets params) l w) = ew_dials w"
  "ew_stray (edge_close_at i w) = ew_stray w"
  by (auto simp: claim_opt_def release_opt_def edge_io_def edge_claim_def edge_close_at_def split: if_splits prod.splits option.splits)

text \<open>At most the last attempt of a walk leaves a transport open, and only when creating its session threw.\<close>

lemma walk_stray:
  assumes "walk_loop (edge_io pf cl utf8 nets params) n tokens w = (r, w')"
  shows "ew_stray w' = ew_stray w \<or>
    left_stray cl params w (case r of Inl (AttemptThrew e) \<Rightarrow> Inl e | _ \<Rightarrow> Inr ()) w'"
  using assms
proof (induction tokens arbitrary: n w)
  case (Cons token rest)
  let ?io = "edge_io pf cl utf8 nets params"
  obtain lease w1 where cl: "claim_opt ?io token w = (lease, w1)" by fastforce
  then have w1: "ew_stray w1 = ew_stray w" using edge_io_frame(1) [of pf cl utf8 nets params token w] by simp
  have ext: ?case if "walk_loop ?io n' rest w2 = (r, w')" "ew_stray w2 = ew_stray w" for n' w2
    using Cons.IH [OF that(1)] that(2) by (simp add: left_stray_def)
  show ?case
  proof (cases "io_claim ?io \<noteq> None \<and> lease = None")
    case True
    then show ?thesis using ext [of n w1] Cons.prems cl w1 by simp
  next
    case no: False
    obtain t w2 where t: "io_attempt ?io token lease w1 = (t, w2)" by fastforce
    then have a: "edge_attempt cl utf8 nets params token lease w1 = (t, w2)" by (simp add: edge_io_def)
    show ?thesis
    proof (cases t)
      case (Inl e)
      then have "r = Inl (AttemptThrew e)" "w' = release_opt ?io lease w2" using Cons.prems cl no t by auto
      then show ?thesis using attempt_conns [OF a] Inl w1 by (auto simp: left_stray_def)
    next
      case (Inr b)
      then have "ew_stray w2 = ew_stray w" using attempt_conns [OF a] w1 by auto
      moreover have "io_close ?io b w2 = edge_close_at (at_connection b) w2" by (simp add: edge_io_def)
      ultimately show ?thesis
        using ext [of "n + 1" "release_opt ?io lease (io_close ?io b w2)"] Cons.prems cl no t Inr
        by (cases "at_control b = MRejected") auto
    qed
  qed
qed simp

text \<open>The answered attempt of a walk: its token is one of the stack, its key is that token's serial, and its connection was answered for it.\<close>

lemma walk_answered:
  assumes "walk_loop (edge_io pf cl utf8 nets params) n tokens w = (Inr res, w')"
  shows "wr_token res \<in> set tokens \<and>
    (ce_claim params \<longrightarrow> (\<exists>key. serialKey pf (wr_token res) = Some key \<and> wr_lease res = Some (key, True))) \<and>
    (\<exists>c. last (ew_conns w') = c \<and> answered_on cl utf8 (nets (ew_dials w' - 1)) (wr_token res) (at_control (wr_attempt res)) c)"
  using assms
proof (induction tokens arbitrary: n w)
  case (Cons token rest)
  let ?io = "edge_io pf cl utf8 nets params"
  obtain lease w1 where cl: "claim_opt ?io token w = (lease, w1)" by fastforce
  have ext: ?case if "walk_loop ?io n' rest w2 = (Inr res, w')" for n' w2
    using Cons.IH [OF that] by auto
  show ?case
  proof (cases "io_claim ?io \<noteq> None \<and> lease = None")
    case True
    then show ?thesis using ext [of n w1] Cons.prems cl by simp
  next
    case no: False
    obtain t w2 where t: "io_attempt ?io token lease w1 = (t, w2)" by fastforce
    then have a: "edge_attempt cl utf8 nets params token lease w1 = (t, w2)" by (simp add: edge_io_def)
    obtain b where b: "t = Inr b" using Cons.prems cl no t by (cases t) auto
    show ?thesis
    proof (cases "at_control b = MRejected")
      case True
      then show ?thesis using ext Cons.prems cl no t b by auto
    next
      case False
      then have res: "res = \<lparr>wr_attempt = b, wr_token = token, wr_lease = lease\<rparr>" "w' = w2" using Cons.prems cl no t b by auto
      have "ce_claim params \<longrightarrow> (\<exists>key. serialKey pf token = Some key \<and> lease = Some (key, True))"
        using cl no by (auto simp: claim_opt_def edge_io_def edge_claim_def claim_def split: option.splits if_splits)
      with attempt_conns [OF a] b res show ?thesis by auto
    qed
  qed
qed simp

text \<open>
  C2. A bring-up leaves nothing behind but what its answer needs, with one exception. When it fails, every
  connection it made is closed and exactly the tokens held before are held. When it is answered, the answer is not a
  refusal, one connection is open, the last, and one more token is held: the connection's single frame is the seal of a request
  for that token, one of the first eight given, which was free before, and the exit's reply on that connection opens to the answer;
  closing the connection gives the token back. The exception is a transport no connection owns: it is left open at most
  once, and only when the bring-up failed because creating the session on a ready transport threw.
\<close>

theorem edge_bringup_balanced:
  assumes "ce_claim params" "connectEdgeTunnel pf cl utf8 nets params w = (r, w')"
  shows "\<exists>new strays. ew_conns w' = ew_conns w @ new \<and> ew_stray w' = ew_stray w @ strays \<and>
    (strays \<noteq> [] \<longrightarrow> strays = [(ce_url params, ce_serverCertificateHashes params)] \<and> r = Inl OtherErr \<and>
       (\<exists>skE e. wcs_create cl (ce_exitX25519Pubkey params) (ce_exitId params) skE = Inl e)) \<and>
    (case r of
       Inl _ \<Rightarrow> list_all ec_closed new \<and> tm_held (ew_manager w') = tm_held (ew_manager w)
     | Inr (i, control) \<Rightarrow> control \<noteq> MRejected \<and>
         (\<exists>cs c token key. new = cs @ [c] \<and> list_all ec_closed cs \<and> \<not> ec_closed c \<and> i = length (ew_conns w @ cs) \<and>
            token \<in> set (take 8 (ce_tokens params)) \<and> serialKey pf token = Some key \<and> ec_lease c = Some (key, True) \<and>
            answered_on cl utf8 (nets (ew_dials w' - 1)) token control c \<and>
            key \<notin> tm_held (ew_manager w) \<and> tm_held (ew_manager w') = insert key (tm_held (ew_manager w))) \<and>
         tm_held (ew_manager (edge_close_at i w')) = tm_held (ew_manager w))"
proof (cases "ce_tokens params = []")
  case True
  then show ?thesis using assms(2) by (auto simp: connectEdgeTunnel_def)
next
  case False
  have p: "params\<lparr>ce_claim := True\<rparr> = params" using assms(1) by simp
  obtain q where q: "walk_loop (edge_io pf cl utf8 nets params) 0 (take MAX_SESSION_TOKENS (ce_tokens params)) w = (q, w')"
    and r: "r = (case q of Inl e \<Rightarrow> Inl (walk_thrown e) | Inr res \<Rightarrow> Inr (at_connection (wr_attempt res), at_control (wr_attempt res)))"
    using assms(2) False by (auto simp: connectEdgeTunnel_def walkSessionTokens_def split: prod.splits sum.splits)
  obtain new where new: "ew_conns w' = ew_conns w @ new" "walk_left params w q new" using walk_conns [OF q] by blast
  note held = edge_pool.walk_balance [of pf cl utf8 nets params, unfolded p, OF q]
  obtain strays where strays: "ew_stray w' = ew_stray w @ strays"
    "strays \<noteq> [] \<longrightarrow> strays = [(ce_url params, ce_serverCertificateHashes params)] \<and> r = Inl OtherErr \<and>
       (\<exists>skE e. wcs_create cl (ce_exitX25519Pubkey params) (ce_exitId params) skE = Inl e)"
    using walk_stray [OF q] r by (auto simp: left_stray_def split: sum.splits walk_error.splits)
  show ?thesis
  proof (cases q)
    case (Inl e)
    with new held r strays show ?thesis by (intro exI [of _ new] exI [of _ strays]) (simp add: walk_left_def)
  next
    case (Inr res)
    note ans = walk_answered [OF q [unfolded Inr]]
    from held obtain l where l: "wr_lease res = Some l" "fst l \<notin> tm_held (ew_manager w)"
      "tm_held (ew_manager w') = insert (fst l) (tm_held (ew_manager w))" and no: "at_control (wr_attempt res) \<noteq> MRejected"
      using Inr by auto
    from new(2) obtain cs c where c: "new = cs @ [c]" "list_all ec_closed cs" "\<not> ec_closed c" "ec_lease c = Some l"
      "at_connection (wr_attempt res) = length (ew_conns w @ cs)" using Inr l(1) by (auto simp: walk_left_def)
    from ans assms(1) obtain key where key: "serialKey pf (wr_token res) = Some key" "wr_lease res = Some (key, True)" by blast
    have "last (ew_conns w') = c" using new(1) c(1) by simp
    with ans have on: "answered_on cl utf8 (nets (ew_dials w' - 1)) (wr_token res) (at_control (wr_attempt res)) c"
      "wr_token res \<in> set (take 8 (ce_tokens params))" by (simp_all add: MAX_SESSION_TOKENS_def)
    have close: "tm_held (ew_manager (edge_close_at (length (ew_conns w @ cs)) w')) = tm_held (ew_manager w)"
      using new(1) c(1,4) l key(2) by (auto simp: edge_close_at_def edge_close_def release_def nth_append)
    have "l = (key, True)" using l(1) key(2) by simp
    then have fst_l: "fst l = key" "l = (key, True)" by simp_all
    have "\<exists>cs c token key. new = cs @ [c] \<and> list_all ec_closed cs \<and> \<not> ec_closed c \<and>
        at_connection (wr_attempt res) = length (ew_conns w @ cs) \<and> token \<in> set (take 8 (ce_tokens params)) \<and>
        serialKey pf token = Some key \<and> ec_lease c = Some (key, True) \<and>
        answered_on cl utf8 (nets (ew_dials w' - 1)) token (at_control (wr_attempt res)) c \<and>
        key \<notin> tm_held (ew_manager w) \<and> tm_held (ew_manager w') = insert key (tm_held (ew_manager w))"
      using c l(2,3) key(1) on fst_l by (intro exI [of _ cs] exI [of _ c] exI [of _ "wr_token res"] exI [of _ key]) simp
    with new(1) strays no close c(5) r Inr show ?thesis by (intro exI [of _ new] exI [of _ strays]) simp
  qed
qed

lemma hex_value_plain:
  assumes "hex_value c = Some n"
  shows "\<not> js_space c" "c \<noteq> CHR ''-''" "c \<noteq> CHR ''+''" "c \<noteq> CHR ''x''" "c \<noteq> CHR ''X''"
  using assms by (auto simp: hex_value_def js_space_def Let_def split: if_splits)

lemma hexToBytes_decode: "hex_decode s = Some b \<Longrightarrow> hexToBytes s = Some b"
proof (induction s arbitrary: b rule: hex_decode.induct)
  case (3 h l r)
  then obtain x y bs where d: "hex_value h = Some x" "hex_value l = Some y" "hex_decode r = Some bs"
    "b = word_of_nat (16 * x + y) # bs" by (auto split: option.splits)
  have "parseInt16 [h, l] = Some (16 * int x + int y)"
    using d hex_value_plain [OF d(1)] hex_value_plain [OF d(2)] by (simp add: parseInt16_def Let_def)
  moreover have "(word_of_int (16 * int x + int y) :: byte) = word_of_nat (16 * x + y)" by simp
  ultimately show ?case using 3 d by (auto simp: hexToBytes_def split: if_splits)
qed (simp_all add: hexToBytes_def)

text \<open>
  C21. A directory exit is only ever dialed pinned: every connection opened for it, and every transport left open without one,
  goes to the well-known port of its host and pins the certificate the directory gives and no other, and an exit with no
  certificate is refused before any dial.
\<close>

theorem edge_exit_pinned:
  assumes "connectEdgeTunnelToExit pf cl utf8 nets exit params w = (r, w')" "ve_edgeCertSha256 exit = map_option hex_encode cert"
  shows "\<exists>new strays. ew_conns w' = ew_conns w @ new \<and> ew_stray w' = ew_stray w @ strays \<and>
    (\<forall>t \<in> set strays. \<exists>pin. cert = Some pin \<and> t = (''https://'' @ hostOf (ve_endpoint exit) @ '':8443/warren'', Some [pin])) \<and>
    (\<forall>c \<in> set new. ec_url c = ''https://'' @ hostOf (ve_endpoint exit) @ '':8443/warren'' \<and> (\<exists>pin. cert = Some pin \<and> ec_pins c = Some [pin])) \<and>
    (cert = None \<longrightarrow> w' = w \<and> r = Inl (edgeError edge_no_edge_pin))"
proof (cases cert)
  case None
  with assms show ?thesis by (auto simp: connectEdgeTunnelToExit_def)
next
  case (Some pin)
  have pin: "hexToBytes (hex_encode pin) = Some pin" by (rule hexToBytes_decode) simp
  have url: "edge_url e = ''https://'' @ hostOf e @ '':8443/warren''" for e
    by (simp add: edge_url_def WARREN_EDGE_PORT_def show_int_def show_nat.simps digit_char_def char_of_def bit_0)
  show ?thesis
  proof (cases "(hexToBytes (ve_exitX25519PubkeyHex exit), hexToBytes (ve_exitIdHex exit))")
    case (Pair a b)
    show ?thesis
    proof (cases "a = None \<or> b = None \<or> ce_tokens params = []")
      case True
      with assms Some Pair pin show ?thesis by (auto simp: connectEdgeTunnelToExit_def connectEdgeTunnel_def split: option.splits)
    next
      case False
      then obtain pub eid where ab: "a = Some pub" "b = Some eid" by auto
      let ?p = "params\<lparr>ce_url := edge_url (ve_endpoint exit), ce_exitX25519Pubkey := pub, ce_exitId := eid, ce_serverCertificateHashes := Some [pin]\<rparr>"
      obtain q where "walk_loop (edge_io pf cl utf8 nets ?p) 0 (take MAX_SESSION_TOKENS (ce_tokens params)) w = (q, w')"
        using assms Some Pair pin ab False
        by (auto simp: connectEdgeTunnelToExit_def connectEdgeTunnel_def walkSessionTokens_def split: prod.splits sum.splits)
      note q = this
      obtain strays where "ew_stray w' = ew_stray w @ strays" "set strays \<subseteq> {(edge_url (ve_endpoint exit), Some [pin])}"
        using walk_stray [OF q] by (auto simp: left_stray_def)
      moreover from walk_conns [OF q] obtain new where "ew_conns w' = ew_conns w @ new" "list_all (dialed_as ?p) new"
        by (auto simp: walk_left_def)
      ultimately show ?thesis using Some url by (intro exI [of _ new] exI [of _ strays]) (auto simp: list_all_iff dialed_as_def)
    qed
  qed
qed

section \<open>Sample runs\<close>

definition sample_net :: edge_net where
  "sample_net = \<lparr>en_available = True, en_ctor = True, en_ready = True, en_draw = [4], en_stream = True, en_write = True, en_reads = []\<rparr>"

definition sample_edge :: ConnectEdgeParams where
  "sample_edge = \<lparr>ce_tokens = [sample_token 1], ce_claim = True, ce_url = ''https://e:8443/warren'',
     ce_exitX25519Pubkey = x_public reference_crypto [9], ce_exitId = replicate 16 7, ce_serverCertificateHashes = None,
     ce_webTransportFactory = False, ce_ephemeralPrivForTest = None\<rparr>"

definition sample_edge_options :: WarrenEdgeOptions where
  "sample_edge_options = \<lparr>eo_url = ''https://e:8443/warren'', eo_exitX25519Pubkey = x_public reference_crypto [9],
     eo_exitId = replicate 16 7, eo_serverCertificateHashes = None, eo_webTransportFactory = False, eo_ephemeralPrivForTest = None,
     eo_lease = None\<rparr>"

lemma sample_opens:
  obtains c where "edge_open reference_crypto sample_net (sample_edge_options\<lparr>eo_lease := l\<rparr>) = Inr c"
    "\<And>rs. edge_open reference_crypto (sample_net\<lparr>en_reads := rs\<rparr>) (sample_edge_options\<lparr>eo_lease := l\<rparr>) = Inr c"
proof -
  have "\<exists>c. \<forall>rs. edge_open reference_crypto (sample_net\<lparr>en_reads := rs\<rparr>) (sample_edge_options\<lparr>eo_lease := l\<rparr>) = Inr c"
    by (simp add: edge_open_def sample_net_def sample_edge_options_def selectSessionEphemeral_def wcs_create_def setupBaseSender_def
        reference_crypto_def Let_def)
  moreover have "sample_net\<lparr>en_reads := []\<rparr> = sample_net" by (simp add: sample_net_def)
  ultimately show thesis using that by metis
qed

text \<open>The exit of the sample answers that its addresses are exhausted.\<close>

lemma sample_exchange:
  assumes "edge_open reference_crypto sample_net (sample_edge_options\<lparr>eo_lease := l\<rparr>) = Inr c" "length token = 354"
  obtains request g where "encodeIpRequestV7 (setup_request token) = Inr request" "length request < 2 ^ 53"
    "exit_reply_v1 reference_crypto [9] (wcs_seal reference_crypto (ec_session c) request 0 0)
       (writeControlMessage (map of_char) MIpExhausted) 0 0 = Inr g"
proof -
  obtain skE where ses: "wcs_create reference_crypto (x_public reference_crypto [9]) (replicate 16 7) skE = Inr (ec_session c)"
    using edge_open_Inr [OF assms(1)] by (auto simp: sample_edge_options_def)
  have "ip_request_ok (setup_request token)"
    using assms(2) by (simp add: setup_request_def ip_request_ok_def INDEPENDENT_SESSION_PLACEMENT_def)
  then obtain request where q: "encodeIpRequestV7 (setup_request token) = Inr request" "request = ip_request_wire (setup_request token)"
    by (simp add: encodeIpRequestV7_Inr_conv)
  have len: "length request < 2 ^ 53"
    using assms(2)
    by (simp add: q(2) ip_request_wire_def setup_request_def INDEPENDENT_SESSION_PLACEMENT_def leb128_groups_small writeOption_def writeFixed_def)
  let ?f = "wcs_seal reference_crypto (ec_session c) request 0 0"
  have f: "encapsulatedKey ?f = enc (wcs_sender (ec_session c))" "exitId ?f = replicate 16 7"
    using ses by (simp_all add: wcs_seal_def Let_def case_prod_beta wcs_create_Inr)
  show thesis using exit_replies_v1 [OF reference_crypto_laws ses f, of "writeControlMessage (map of_char) MIpExhausted" 0 0] that [OF q(1) len] by blast
qed

theorem edge_slots_fresh_witness:
  "\<exists>c f g. edge_open reference_crypto sample_net sample_edge_options = Inr c \<and>
     decodeMultihopFrame (ec_written (seal_all reference_crypto [[1], [2]] c) ! 0) = Inr f \<and>
     decodeMultihopFrame (ec_written (seal_all reference_crypto [[1], [2]] c) ! 1) = Inr g \<and>
     composeExportInfo (epoch f) (seq f) \<noteq> composeExportInfo (epoch g) (seq g)"
proof -
  have none: "sample_edge_options\<lparr>eo_lease := None\<rparr> = sample_edge_options" by (simp add: sample_edge_options_def)
  obtain c where c: "edge_open reference_crypto sample_net sample_edge_options = Inr c"
    by (rule sample_opens [where l = None, unfolded none])
  have "eo_exitX25519Pubkey sample_edge_options = x_public reference_crypto [9]" by (simp add: sample_edge_options_def)
  from edge_slots_fresh [OF reference_crypto_laws c this, of "[[1], [2]]" 0 1] c show ?thesis by auto
qed

theorem edge_admission_witness:
  "\<exists>net' c c'. edge_open reference_crypto net' sample_edge_options = Inr c \<and>
     edge_openTunnel reference_crypto (map (\<lambda>b. char_of (unat b))) net' (setup_request (replicate 354 1)) c = (Inr MIpExhausted, c')"
proof -
  have none: "sample_edge_options\<lparr>eo_lease := None\<rparr> = sample_edge_options" by (simp add: sample_edge_options_def)
  obtain c where c: "edge_open reference_crypto sample_net sample_edge_options = Inr c"
    and opens: "\<And>rs. edge_open reference_crypto (sample_net\<lparr>en_reads := rs\<rparr>) sample_edge_options = Inr c"
    by (rule sample_opens [where l = None, unfolded none]) blast
  have pub: "eo_exitX25519Pubkey sample_edge_options = x_public reference_crypto [9]" by (simp add: sample_edge_options_def)
  obtain request g where q: "encodeIpRequestV7 (setup_request (replicate 354 1)) = Inr request" "length request < 2 ^ 53"
    and g: "exit_reply_v1 reference_crypto [9] (wcs_seal reference_crypto (ec_session c) request 0 0)
       (writeControlMessage (map of_char) MIpExhausted) 0 0 = Inr g"
    by (rule sample_exchange [where l = None, unfolded none, OF c length_replicate])
  let ?net = "sample_net\<lparr>en_reads := map (\<lambda>k. Read (Some k) False) ([] @ [frame_wire g]) @ []\<rparr>"
  have "frame_wire g \<noteq> []" by (simp add: frame_wire_def writeU8_def)
  then have "\<exists>f c'. edge_openTunnel reference_crypto (map (\<lambda>b. char_of (unat b))) ?net (setup_request (replicate 354 1)) c = (Inr MIpExhausted, c') \<and>
      ec_written c' = [frame_wire f] \<and> decodeMultihopFrame (frame_wire f) = Inr f \<and> exit_open_v1 reference_crypto [9] f = Inr request"
    by (intro edge_admission [where ks = "[]" and rest = "[]", OF reference_crypto_laws c pub _ _ _ q g])
      (simp_all add: o_def unat_of_char sample_net_def)
  with opens show ?thesis by blast
qed

definition sample_edge_world :: edge_world where
  "sample_edge_world = \<lparr>ew_manager = sample_manager, ew_conns = [], ew_stray = [], ew_dials = 0\<rparr>"

text \<open>A bring-up over sessions that give no stream, and the same to an exit of the directory.\<close>

definition sample_bringup :: "(warren_error + nat \<times> ControlMessage) \<times> edge_world" where
  "sample_bringup = connectEdgeTunnel sample_token_platform reference_crypto (\<lambda>_. []) (\<lambda>_. sample_net\<lparr>en_stream := False\<rparr>)
     sample_edge sample_edge_world"

definition sample_exit :: VerifiedExit where
  "sample_exit = \<lparr>ve_exitIdHex = hex_encode (replicate 16 7), ve_exitEd25519PubkeyHex = [],
     ve_exitX25519PubkeyHex = hex_encode (x_public reference_crypto [9]), ve_endpoint = ''[fd00::1]:51820'', ve_endpointV6 = None,
     ve_country = ''SG'', ve_city = ''Singapore'', ve_weight = 1, ve_dnsDisabled = False, ve_edgeCertSha256 = Some (hex_encode [1, 2]),
     ve_coverDomain = None, ve_exitMlkem768PubkeyHex = None\<rparr>"

lemma sample_attempt:
  assumes "ce_exitX25519Pubkey params = x_public reference_crypto [9]" "ce_exitId params = replicate 16 7" "\<not> ce_webTransportFactory params"
  shows "\<exists>c m. edge_attempt reference_crypto utf8 (\<lambda>_. sample_net\<lparr>en_stream := False\<rparr>) params (sample_token 1) lease w =
     (Inl OtherErr, w\<lparr>ew_dials := Suc (ew_dials w), ew_conns := ew_conns w @ [c], ew_manager := m\<rparr>)"
proof -
  let ?net = "sample_net\<lparr>en_stream := False\<rparr>"
  have "ip_request_ok (setup_request (sample_token 1))"
    by (simp add: setup_request_def ip_request_ok_def INDEPENDENT_SESSION_PLACEMENT_def sample_token_def)
  then obtain q where q: "encodeIpRequestV7 (setup_request (sample_token 1)) = Inr q" by (simp add: encodeIpRequestV7_Inr_conv)
  have "\<exists>c. openForAttempt reference_crypto ?net params lease = Inr c"
    using assms by (simp add: openForAttempt_def edge_open_def sample_net_def selectSessionEphemeral_def wcs_create_def
        setupBaseSender_def reference_crypto_def Let_def)
  then obtain c where c: "openForAttempt reference_crypto ?net params lease = Inr c" ..
  have "edge_openTunnel reference_crypto utf8 ?net (setup_request (sample_token 1)) c = (Inl (EdgeStream StreamGone), c)"
    using q by (simp add: edge_openTunnel_def edge_setup_def)
  moreover obtain c2 m where "edge_close c (ew_manager w) = (c2, m)" by fastforce
  ultimately show ?thesis using c by (auto simp: edge_attempt_def Let_def)
qed

lemma sample_claim:
  "claim sample_token_platform (sample_token 1) sample_manager =
     (Some (hex_encode (replicate 32 0), True), sample_manager\<lparr>tm_held := {hex_encode (replicate 32 0)}\<rparr>)"
  by (simp add: claim_def sample_token_serial sample_manager_def)

text \<open>The walk of a bring-up whose only attempt throws.\<close>

lemma sample_walk:
  assumes "ce_exitX25519Pubkey params = x_public reference_crypto [9]" "ce_exitId params = replicate 16 7" "\<not> ce_webTransportFactory params"
    and "ce_claim params" "ce_tokens params = [sample_token 1]"
  shows "\<exists>w' c. connectEdgeTunnel sample_token_platform reference_crypto utf8 (\<lambda>_. sample_net\<lparr>en_stream := False\<rparr>) params sample_edge_world =
     (Inl OtherErr, w') \<and> ew_conns w' = [c]"
proof -
  let ?io = "edge_io sample_token_platform reference_crypto utf8 (\<lambda>_. sample_net\<lparr>en_stream := False\<rparr>) params"
  let ?l = "Some (hex_encode (replicate 32 0), True)" and ?w = "sample_edge_world\<lparr>ew_manager := sample_manager\<lparr>tm_held := {hex_encode (replicate 32 0)}\<rparr>\<rparr>"
  have cl: "claim_opt ?io (sample_token 1) sample_edge_world = (?l, ?w)"
    using assms(4) by (simp add: claim_opt_def edge_io_def edge_claim_def sample_claim sample_edge_world_def)
  obtain c m where "io_attempt ?io (sample_token 1) ?l ?w = (Inl OtherErr, ?w\<lparr>ew_dials := 1, ew_conns := [c], ew_manager := m\<rparr>)"
    using sample_attempt [OF assms(1-3), of utf8 ?l ?w] by (auto simp: edge_io_def sample_edge_world_def)
  with cl show ?thesis using assms(5)
    by (auto simp: connectEdgeTunnel_def walkSessionTokens_def MAX_SESSION_TOKENS_def release_opt_def edge_io_def)
qed

text \<open>The walk of a bring-up whose only attempt is answered.\<close>

lemma sample_answered:
  obtains net w' where "connectEdgeTunnel sample_token_platform reference_crypto (map (\<lambda>b. char_of (unat b))) (\<lambda>_. net) sample_edge
    sample_edge_world = (Inr (0, MIpExhausted), w')"
proof -
  let ?utf8 = "map (\<lambda>b. char_of (unat b))" and ?l = "(hex_encode (replicate 32 0), True)"
  let ?o = "sample_edge_options\<lparr>eo_lease := Some ?l\<rparr>"
  obtain c where c: "edge_open reference_crypto sample_net ?o = Inr c"
    and opens: "\<And>rs. edge_open reference_crypto (sample_net\<lparr>en_reads := rs\<rparr>) ?o = Inr c" by (rule sample_opens [where l = "Some ?l"]) blast
  have pub: "eo_exitX25519Pubkey ?o = x_public reference_crypto [9]" by (simp add: sample_edge_options_def)
  have token: "length (sample_token 1) = 354" by (simp add: sample_token_def)
  obtain request g where q: "encodeIpRequestV7 (setup_request (sample_token 1)) = Inr request" "length request < 2 ^ 53"
    and g: "exit_reply_v1 reference_crypto [9] (wcs_seal reference_crypto (ec_session c) request 0 0)
       (writeControlMessage (map of_char) MIpExhausted) 0 0 = Inr g" by (rule sample_exchange [OF c token])
  let ?net = "sample_net\<lparr>en_reads := map (\<lambda>k. Read (Some k) False) ([] @ [frame_wire g]) @ []\<rparr>"
  have "frame_wire g \<noteq> []" by (simp add: frame_wire_def writeU8_def)
  then have "\<exists>f c'. edge_openTunnel reference_crypto ?utf8 ?net (setup_request (sample_token 1)) c = (Inr MIpExhausted, c') \<and>
      ec_written c' = [frame_wire f] \<and> decodeMultihopFrame (frame_wire f) = Inr f \<and> exit_open_v1 reference_crypto [9] f = Inr request"
    by (intro setup_admits [where ks = "[]" and rest = "[]", OF reference_crypto_laws c pub _ _ _ q g])
      (simp_all add: o_def unat_of_char sample_net_def)
  then obtain c' where c': "edge_openTunnel reference_crypto ?utf8 ?net (setup_request (sample_token 1)) c = (Inr MIpExhausted, c')" by blast
  let ?io = "edge_io sample_token_platform reference_crypto ?utf8 (\<lambda>_. ?net) sample_edge"
  let ?w = "sample_edge_world\<lparr>ew_manager := sample_manager\<lparr>tm_held := {hex_encode (replicate 32 0)}\<rparr>\<rparr>"
  have cl: "claim_opt ?io (sample_token 1) sample_edge_world = (Some ?l, ?w)"
    by (simp add: claim_opt_def edge_io_def edge_claim_def sample_claim sample_edge_world_def sample_edge_def)
  have "openForAttempt reference_crypto ?net sample_edge (Some ?l) = Inr c"
    using opens by (simp add: openForAttempt_def sample_edge_def sample_edge_options_def)
  then have "\<exists>w'. io_attempt ?io (sample_token 1) (Some ?l) ?w = (Inr \<lparr>at_control = MIpExhausted, at_connection = 0\<rparr>, w')"
    using c' by (simp add: edge_io_def edge_attempt_def Let_def sample_edge_world_def)
  then show thesis using cl that [of ?net]
    by (auto simp: connectEdgeTunnel_def walkSessionTokens_def MAX_SESSION_TOKENS_def sample_edge_def edge_io_def)
qed

theorem edge_bringup_balanced_witness:
  "(\<exists>net w' c. connectEdgeTunnel sample_token_platform reference_crypto (map (\<lambda>b. char_of (unat b))) (\<lambda>_. net) sample_edge
       sample_edge_world = (Inr (0, MIpExhausted), w') \<and> ew_conns w' = [c] \<and> ew_stray w' = [] \<and>
     answered_on reference_crypto (map (\<lambda>b. char_of (unat b))) net (sample_token 1) MIpExhausted c \<and>
     tm_held (ew_manager w') = {hex_encode (replicate 32 0)} \<and> tm_held (ew_manager (edge_close_at 0 w')) = {}) \<and>
   fst sample_bringup = Inl OtherErr \<and> tm_held (ew_manager (snd sample_bringup)) = {} \<and> length (ew_conns (snd sample_bringup)) = 1"
proof -
  have p: "ce_exitX25519Pubkey sample_edge = x_public reference_crypto [9]" "ce_exitId sample_edge = replicate 16 7"
    "\<not> ce_webTransportFactory sample_edge" "ce_claim sample_edge" "ce_tokens sample_edge = [sample_token 1]"
    by (simp_all add: sample_edge_def)
  obtain w' c where w: "sample_bringup = (Inl OtherErr, w')" "ew_conns w' = [c]"
    using sample_walk [OF p, of "\<lambda>_. []"] by (auto simp: sample_bringup_def)
  from edge_bringup_balanced [OF p(4) w(1) [unfolded sample_bringup_def]] w(2)
  have failed: "tm_held (ew_manager w') = {}" by (simp add: sample_edge_world_def sample_manager_def)
  obtain net v where v: "connectEdgeTunnel sample_token_platform reference_crypto (map (\<lambda>b. char_of (unat b))) (\<lambda>_. net) sample_edge
    sample_edge_world = (Inr (0, MIpExhausted), v)" by (rule sample_answered)
  have serial: "serialKey sample_token_platform (sample_token 1) = Some (hex_encode (replicate 32 0))" by (rule sample_token_serial)
  from edge_bringup_balanced [OF p(4) v] serial p(5)
  have "\<exists>c. ew_conns v = [c] \<and> ew_stray v = [] \<and>
      answered_on reference_crypto (map (\<lambda>b. char_of (unat b))) net (sample_token 1) MIpExhausted c \<and>
      tm_held (ew_manager v) = {hex_encode (replicate 32 0)} \<and> tm_held (ew_manager (edge_close_at 0 v)) = {}"
    by (auto simp: sample_edge_world_def sample_manager_def)
  moreover have "fst sample_bringup = Inl OtherErr \<and> tm_held (ew_manager (snd sample_bringup)) = {} \<and>
      length (ew_conns (snd sample_bringup)) = 1" unfolding w(1) using w(2) failed by simp
  ultimately show ?thesis using v by blast
qed

theorem edge_exit_pinned_witness:
  "\<exists>c. ew_conns (snd (connectEdgeTunnelToExit sample_token_platform reference_crypto (\<lambda>_. []) (\<lambda>_. sample_net\<lparr>en_stream := False\<rparr>)
      sample_exit sample_edge sample_edge_world)) = [c] \<and> ec_url c = ''https://[fd00::1]:8443/warren'' \<and> ec_pins c = Some [[1, 2]]"
proof -
  let ?net = "\<lambda>_. sample_net\<lparr>en_stream := False\<rparr>"
  let ?p = "sample_edge\<lparr>ce_url := edge_url (ve_endpoint sample_exit), ce_exitX25519Pubkey := x_public reference_crypto [9],
      ce_exitId := replicate 16 7, ce_serverCertificateHashes := Some [[1, 2]]\<rparr>"
  have hex: "hexToBytes (hex_encode b) = Some b" for b by (rule hexToBytes_decode) simp
  have to: "connectEdgeTunnelToExit sample_token_platform reference_crypto (\<lambda>_. []) ?net sample_exit sample_edge sample_edge_world =
      connectEdgeTunnel sample_token_platform reference_crypto (\<lambda>_. []) ?net ?p sample_edge_world"
    unfolding connectEdgeTunnelToExit_def sample_exit_def VerifiedExit.simps hex option.case prod.case by simp
  obtain w' c where w: "connectEdgeTunnelToExit sample_token_platform reference_crypto (\<lambda>_. []) ?net sample_exit sample_edge sample_edge_world =
      (Inl OtherErr, w')" "ew_conns w' = [c]"
    using sample_walk [of ?p "\<lambda>_. []"] unfolding to by (auto simp: sample_edge_def)
  have "ve_edgeCertSha256 sample_exit = map_option hex_encode (Some [1, 2])" by (simp add: sample_exit_def)
  from edge_exit_pinned [OF w(1) this] w show ?thesis by (auto simp: sample_edge_world_def sample_exit_def hostOf_def)
qed

end
