(* ===== verification/Keyring.thy ===== *)
theory Keyring
  imports Identity
begin

text \<open>
  The extension's wallet, \<^verbatim>\<open>packages/extension/src/keyring.ts\<close>: a mnemonic vault encrypted in the persistent storage area, the
  derived key cached in the session area, and the mnemonic in memory while unlocked. The class is asynchronous, so it is
  a transition system: a call of a method runs to its first await, and the promise it waits for settles by an event. A
  storage call takes effect when it settles. Consecutive awaits between which neither the object nor the storage is
  touched are one.
\<close>

section \<open>State\<close>

text \<open>WebCrypto's key export and import join the vault's library, with \<^verbatim>\<open>JSON.parse\<close>, the BIP39 package and the platform.\<close>

record 'key keyring_lib = "'key vault_lib" +
  kl_export :: "'key \<Rightarrow> json"
  kl_import :: "json \<Rightarrow> 'key option"
  kl_parse :: "string \<Rightarrow> json option"
  kl_validate :: "string \<Rightarrow> bool"
  kl_toSeed :: "string \<Rightarrow> bytes"
  kl_platform :: platform

datatype keyring_error = InvalidMnemonic | BadSeed | BadPublicKey | NoVault | KeyringLocked | BadVault | WrongSecret | StorageFailed

datatype keyring_result = KrOk | KrBool bool | KrText string | KrError keyring_error

datatype keyring_call =
    Encrypting bool string string bytes bytes
  | SavingVault bool string string string
  | DerivingStored bool string string string
  | CachingStored bool string string
  | ReadingVault string
  | Unlocking string string
  | CachingUnlocked string
  | ReadingCache
  | ReadingCachedVault "string option"
  | Rehydrating string string
  | DroppingCache
  | LockRemoving
  | DestroyingCache
  | DestroyingVault
  | AskingVault

record keyring =
  kr_mnemonic :: "string option"
  kr_local :: "string option"
  kr_session :: "string option"
  kr_calls :: "keyring_call list"
  kr_results :: "keyring_result list"

definition newKeyring :: "string option \<Rightarrow> string option \<Rightarrow> keyring" where
  "newKeyring vault cache = \<lparr>kr_mnemonic = None, kr_local = vault, kr_session = cache, kr_calls = [], kr_results = []\<rparr>"

definition kr_await :: "keyring_call \<Rightarrow> keyring \<Rightarrow> keyring" where
  "kr_await c s = s\<lparr>kr_calls := kr_calls s @ [c]\<rparr>"

definition kr_return :: "keyring_result \<Rightarrow> keyring \<Rightarrow> keyring" where
  "kr_return r s = s\<lparr>kr_results := kr_results s @ [r]\<rparr>"

section \<open>Operations\<close>

text \<open>The salt and iteration count read from a blob for \<^verbatim>\<open>deriveVaultKey\<close>; a blob with no \<^verbatim>\<open>kdf\<close> throws.\<close>

definition blob_kdf :: "('key, 'z) keyring_lib_scheme \<Rightarrow> string \<Rightarrow> (string option \<times> int option) option" where
  "blob_kdf kl blob =
     (case Option.bind (kl_parse kl blob) (\<lambda>j. jget j ''kdf'') of
        None \<Rightarrow> None
      | Some kdf \<Rightarrow> Some (jstring kdf ''salt'', jinteger kdf ''iterations''))"

definition derive_from :: "('key, 'z) keyring_lib_scheme \<Rightarrow> string \<Rightarrow> string \<Rightarrow> keyring_error + 'key" where
  "derive_from kl password blob =
     (case blob_kdf kl blob of
        None \<Rightarrow> Inl BadVault
      | Some (salt, iterations) \<Rightarrow>
          (case deriveVaultKey (vault_lib.truncate kl) [] password salt iterations of
             Inl _ \<Rightarrow> Inl BadVault
           | Inr derived \<Rightarrow> Inr (dk_key derived)))"

text \<open>\<^verbatim>\<open>cacheKey\<close>: the text put in the session area.\<close>

definition cached_text :: "('key, 'z) keyring_lib_scheme \<Rightarrow> 'key \<Rightarrow> string" where
  "cached_text kl key = stringify (JObj [(''jwk'', kl_export kl key)])"

definition cached_key :: "('key, 'z) keyring_lib_scheme \<Rightarrow> string \<Rightarrow> 'key option" where
  "cached_key kl cached = Option.bind (Option.bind (kl_parse kl cached) (\<lambda>j. jget j ''jwk'')) (kl_import kl)"

text \<open>
  \<^verbatim>\<open>store\<close>, with the salt and nonce \<^verbatim>\<open>encryptMnemonic\<close> draws, and the methods up to their first await. \<^verbatim>\<open>create\<close> returns the
  mnemonic (\<open>told\<close>), \<^verbatim>\<open>import\<close> drops it.
\<close>

definition kr_seed :: "('key, 'z) keyring_lib_scheme \<Rightarrow> string \<Rightarrow> bytes option" where
  "kr_seed kl mnemonic = map_option fst (seedFromMnemonic (vl_nfkd kl) (kl_validate kl) (kl_toSeed kl) mnemonic)"

definition kr_store :: "bool \<Rightarrow> string \<Rightarrow> string \<Rightarrow> bytes \<Rightarrow> bytes \<Rightarrow> keyring \<Rightarrow> keyring" where
  "kr_store told mnemonic password salt iv = kr_await (Encrypting told mnemonic password salt iv)"

definition kr_import :: "('key, 'z) keyring_lib_scheme \<Rightarrow> string \<Rightarrow> string \<Rightarrow> bytes \<Rightarrow> bytes \<Rightarrow> keyring \<Rightarrow> keyring" where
  "kr_import kl mnemonic password salt iv s =
     (if kr_seed kl mnemonic = None then kr_return (KrError InvalidMnemonic) s else kr_store False mnemonic password salt iv s)"

definition kr_lock :: "keyring \<Rightarrow> keyring" where
  "kr_lock s = kr_await LockRemoving (s\<lparr>kr_mnemonic := None\<rparr>)"

definition kr_destroy :: "keyring \<Rightarrow> keyring" where
  "kr_destroy s = kr_await DestroyingCache (s\<lparr>kr_mnemonic := None\<rparr>)"

definition kr_getMnemonic :: "keyring \<Rightarrow> keyring_result" where
  "kr_getMnemonic s = (case kr_mnemonic s of None \<Rightarrow> KrError KeyringLocked | Some m \<Rightarrow> KrText m)"

definition kr_getAddress :: "('key, 'z) keyring_lib_scheme \<Rightarrow> keyring \<Rightarrow> keyring_result" where
  "kr_getAddress kl s =
     (case kr_mnemonic s of
        None \<Rightarrow> KrError KeyringLocked
      | Some m \<Rightarrow>
          (case kr_seed kl m of
             None \<Rightarrow> KrError InvalidMnemonic
           | Some seed \<Rightarrow>
               (case keyPairFromSeed (kl_platform kl) seed of
                  None \<Rightarrow> KrError BadSeed
                | Some pair \<Rightarrow>
                    (case encodeAddress (kl_platform kl) (publicKey pair) WARREN_SS58_PREFIX of
                       Inl _ \<Rightarrow> KrError BadPublicKey
                     | Inr address \<Rightarrow> KrText address))))"

text \<open>
  What happens when the promise of a call settles; \<open>ok\<close> says whether a storage call succeeded. What WebCrypto answers is
  given by the library.
\<close>

fun kr_settle :: "('key, 'z) keyring_lib_scheme \<Rightarrow> bool \<Rightarrow> keyring_call \<Rightarrow> keyring \<Rightarrow> keyring" where
  "kr_settle kl ok (Encrypting told m pw salt iv) s =
     (case encryptMnemonic (vault_lib.truncate kl) salt iv m pw of
        Inl _ \<Rightarrow> kr_return (KrError BadVault) s
      | Inr blob \<Rightarrow> kr_await (SavingVault told m pw blob) s)"
| "kr_settle kl ok (SavingVault told m pw blob) s =
     (if ok then kr_await (DerivingStored told m pw blob) (s\<lparr>kr_local := Some blob\<rparr>) else kr_return (KrError StorageFailed) s)"
| "kr_settle kl ok (DerivingStored told m pw blob) s =
     (case derive_from kl pw blob of
        Inl e \<Rightarrow> kr_return (KrError e) s
      | Inr key \<Rightarrow> kr_await (CachingStored told m (cached_text kl key)) s)"
| "kr_settle kl ok (CachingStored told m cached) s =
     (if ok then kr_return (if told then KrText m else KrOk) (s\<lparr>kr_session := Some cached, kr_mnemonic := Some m\<rparr>) else kr_return (KrError StorageFailed) s)"
| "kr_settle kl ok (ReadingVault pw) s =
     (if \<not> ok then kr_return (KrError StorageFailed) s
      else case kr_local s of
        None \<Rightarrow> kr_return (KrError NoVault) s
      | Some blob \<Rightarrow> if blob = [] then kr_return (KrError NoVault) s else kr_await (Unlocking pw blob) s)"
| "kr_settle kl ok (Unlocking pw blob) s =
     (case derive_from kl pw blob of
        Inl e \<Rightarrow> kr_return (KrError e) s
      | Inr key \<Rightarrow>
          (case decryptMnemonic (vault_lib.truncate kl) (kl_parse kl) blob (CachedKey key) of
             Inl _ \<Rightarrow> kr_return (KrError WrongSecret) s
           | Inr m \<Rightarrow> kr_await (CachingUnlocked (cached_text kl key)) (s\<lparr>kr_mnemonic := Some m\<rparr>)))"
| "kr_settle kl ok (CachingUnlocked cached) s =
     (if ok then kr_return KrOk (s\<lparr>kr_session := Some cached\<rparr>) else kr_return (KrError StorageFailed) s)"
| "kr_settle kl ok ReadingCache s =
     (if ok then kr_await (ReadingCachedVault (kr_session s)) s else kr_return (KrError StorageFailed) s)"
| "kr_settle kl ok (ReadingCachedVault cached) s =
     (if \<not> ok then kr_return (KrError StorageFailed) s
      else case (cached, kr_local s) of
        (Some c, Some blob) \<Rightarrow> if c = [] \<or> blob = [] then kr_return (KrBool False) s else kr_await (Rehydrating c blob) s
      | _ \<Rightarrow> kr_return (KrBool False) s)"
| "kr_settle kl ok (Rehydrating cached blob) s =
     (case cached_key kl cached of
        None \<Rightarrow> kr_await DroppingCache s
      | Some key \<Rightarrow>
          (case decryptMnemonic (vault_lib.truncate kl) (kl_parse kl) blob (CachedKey key) of
             Inl _ \<Rightarrow> kr_await DroppingCache s
           | Inr m \<Rightarrow> kr_return (KrBool True) (s\<lparr>kr_mnemonic := Some m\<rparr>)))"
| "kr_settle kl ok DroppingCache s =
     (if ok then kr_return (KrBool False) (s\<lparr>kr_session := None\<rparr>) else kr_return (KrError StorageFailed) s)"
| "kr_settle kl ok LockRemoving s = (if ok then s\<lparr>kr_session := None\<rparr> else s)"
| "kr_settle kl ok DestroyingCache s =
     (if ok then kr_await DestroyingVault (s\<lparr>kr_session := None\<rparr>) else kr_return (KrError StorageFailed) s)"
| "kr_settle kl ok DestroyingVault s =
     (if ok then kr_return KrOk (s\<lparr>kr_local := None\<rparr>) else kr_return (KrError StorageFailed) s)"
| "kr_settle kl ok AskingVault s =
     (if ok then kr_return (KrBool (kr_local s \<noteq> None)) s else kr_return (KrError StorageFailed) s)"

datatype keyring_event =
    KrCreate string string bytes bytes
  | KrImport string string bytes bytes
  | KrUnlock string
  | KrRehydrate
  | KrLock
  | KrDestroy
  | KrHasVault
  | WorkerKilled
  | BrowserClosed
  | KrSettle nat bool

text \<open>The service worker's death takes the memory and the calls with it; the browser's takes the session area too.\<close>

fun kr_step :: "('key, 'z) keyring_lib_scheme \<Rightarrow> keyring_event \<Rightarrow> keyring \<Rightarrow> keyring" where
  "kr_step kl (KrCreate drawn pw salt iv) s = kr_store True drawn pw salt iv s"
| "kr_step kl (KrImport m pw salt iv) s = kr_import kl m pw salt iv s"
| "kr_step kl (KrUnlock pw) s = kr_await (ReadingVault pw) s"
| "kr_step kl KrRehydrate s = kr_await ReadingCache s"
| "kr_step kl KrLock s = kr_lock s"
| "kr_step kl KrDestroy s = kr_destroy s"
| "kr_step kl KrHasVault s = kr_await AskingVault s"
| "kr_step kl WorkerKilled s = s\<lparr>kr_mnemonic := None, kr_calls := []\<rparr>"
| "kr_step kl BrowserClosed s = s\<lparr>kr_mnemonic := None, kr_session := None, kr_calls := []\<rparr>"
| "kr_step kl (KrSettle k ok) s =
     (if k < length (kr_calls s)
      then kr_settle kl ok (kr_calls s ! k) (s\<lparr>kr_calls := take k (kr_calls s) @ drop (Suc k) (kr_calls s)\<rparr>) else s)"

fun kr_run :: "('key, 'z) keyring_lib_scheme \<Rightarrow> keyring_event list \<Rightarrow> keyring \<Rightarrow> keyring" where
  "kr_run kl [] s = s"
| "kr_run kl (e # es) s = kr_run kl es (kr_step kl e s)"

section \<open>The wallet comes back\<close>

text \<open>What WebCrypto, base64 and JSON promise.\<close>

definition keyring_laws :: "('key, 'z) keyring_lib_scheme \<Rightarrow> bool" where
  "keyring_laws kl \<longleftrightarrow>
     (\<forall>k iv m. vl_decrypt kl k iv (vl_encrypt kl k iv m) = Some m) \<and> (\<forall>k iv m. vl_encrypt kl k iv m \<noteq> []) \<and>
     (\<forall>k k' iv m. k' \<noteq> k \<longrightarrow> vl_decrypt kl k' iv (vl_encrypt kl k iv m) = None) \<and>
     (\<forall>bs. vl_unb64 kl (vl_b64 kl bs) = Some bs) \<and> (\<forall>bs. vl_b64 kl bs = [] \<longleftrightarrow> bs = []) \<and>
     (\<forall>j. no_frac j \<longrightarrow> kl_parse kl (stringify j) = Some j) \<and> (\<forall>k. kl_import kl (kl_export kl k) = Some k \<and> no_frac (kl_export kl k))"

lemma keyring_lawsD:
  assumes "keyring_laws kl"
  shows "vl_decrypt kl k iv (vl_encrypt kl k iv m) = Some m" "vl_encrypt kl k iv m \<noteq> []"
    "k' \<noteq> k \<Longrightarrow> vl_decrypt kl k' iv (vl_encrypt kl k iv m) = None"
    "vl_unb64 kl (vl_b64 kl bs) = Some bs" "vl_b64 kl bs = [] \<longleftrightarrow> bs = []"
    "no_frac j \<Longrightarrow> kl_parse kl (stringify j) = Some j" "kl_import kl (kl_export kl k) = Some k" "no_frac (kl_export kl k)"
  using assms by (simp_all add: keyring_laws_def)

lemma truncate_fields [simp]:
  "vl_kdf (vault_lib.truncate kl) = vl_kdf kl" "vl_encrypt (vault_lib.truncate kl) = vl_encrypt kl"
  "vl_decrypt (vault_lib.truncate kl) = vl_decrypt kl" "vl_b64 (vault_lib.truncate kl) = vl_b64 kl"
  "vl_unb64 (vault_lib.truncate kl) = vl_unb64 kl" "vl_nfkd (vault_lib.truncate kl) = vl_nfkd kl"
  by (simp_all add: vault_lib.truncate_def)

text \<open>The blob of a store, and what reading it back gives.\<close>

definition stored_blob :: "('key, 'z) keyring_lib_scheme \<Rightarrow> 'key \<Rightarrow> bytes \<Rightarrow> bytes \<Rightarrow> string \<Rightarrow> string" where
  "stored_blob kl key salt iv m =
     stringify (vault_blob VAULT_ITERATIONS (vl_b64 kl salt) (vl_b64 kl iv) (vl_b64 kl (vl_encrypt kl key iv (utf8ToBytes (vl_nfkd kl m)))))"

lemma stringify_object_nonempty: "stringify (JObj ps) \<noteq> []"
  by simp

lemma stored:
  assumes "keyring_laws kl" "salt \<noteq> []" "iv \<noteq> []"
  shows "vl_kdf kl pw salt VAULT_ITERATIONS = Some key \<Longrightarrow> encryptMnemonic (vault_lib.truncate kl) salt iv m pw = Inr (stored_blob kl key salt iv m)"
    and "vl_kdf kl pw' salt VAULT_ITERATIONS = Some key' \<Longrightarrow> derive_from kl pw' (stored_blob kl key salt iv m) = Inr key'"
    and "decryptMnemonic (vault_lib.truncate kl) (kl_parse kl) (stored_blob kl key salt iv m) (CachedKey key') =
      (if key' = key then Inr (vl_nfkd kl m) else Inl VaultCannotDecrypt)"
    and "cached_key kl (cached_text kl key') = Some key'" "cached_text kl key' \<noteq> []" "stored_blob kl key salt iv m \<noteq> []"
proof -
  note laws = keyring_lawsD [OF assms(1)]
  have parse: "kl_parse kl (stored_blob kl key salt iv m) =
      Some (vault_blob VAULT_ITERATIONS (vl_b64 kl salt) (vl_b64 kl iv) (vl_b64 kl (vl_encrypt kl key iv (utf8ToBytes (vl_nfkd kl m)))))"
    unfolding stored_blob_def by (rule laws(6)) (rule vault_blob_no_frac)
  show "vl_kdf kl pw salt VAULT_ITERATIONS = Some key \<Longrightarrow> encryptMnemonic (vault_lib.truncate kl) salt iv m pw = Inr (stored_blob kl key salt iv m)"
    by (simp add: encryptMnemonic_def deriveVaultKey_def stored_blob_def Let_def)
  show "vl_kdf kl pw' salt VAULT_ITERATIONS = Some key' \<Longrightarrow> derive_from kl pw' (stored_blob kl key salt iv m) = Inr key'"
    using assms(2) by (simp add: derive_from_def blob_kdf_def parse vault_blob_def deriveVaultKey_def Let_def jstring_def jinteger_def laws)
  show "decryptMnemonic (vault_lib.truncate kl) (kl_parse kl) (stored_blob kl key salt iv m) (CachedKey key') =
      (if key' = key then Inr (vl_nfkd kl m) else Inl VaultCannotDecrypt)"
    using assms(2,3) by (simp add: decryptMnemonic_def parse vault_fields_blob laws)
  have "kl_parse kl (stringify (JObj [(''jwk'', kl_export kl key')])) = Some (JObj [(''jwk'', kl_export kl key')])"
    by (rule laws(6)) (simp add: laws)
  then show "cached_key kl (cached_text kl key') = Some key'" by (simp add: cached_key_def cached_text_def laws del: stringify.simps)
  show "cached_text kl key' \<noteq> []" "stored_blob kl key salt iv m \<noteq> []"
    by (simp_all add: cached_text_def stored_blob_def vault_blob_def)
qed

abbreviation all_settle :: "nat \<Rightarrow> keyring_event list" where
  "all_settle n \<equiv> replicate n (KrSettle 0 True)"

lemmas keyring_steps = kr_store_def kr_import_def kr_lock_def kr_await_def kr_return_def newKeyring_def eval_nat_numeral

lemma created:
  assumes "keyring_laws kl" "salt \<noteq> []" "iv \<noteq> []" "vl_kdf kl pw salt VAULT_ITERATIONS = Some key"
  shows "kr_run kl (KrCreate m pw salt iv # all_settle 4) (newKeyring vault cache) =
    \<lparr>kr_mnemonic = Some m, kr_local = Some (stored_blob kl key salt iv m), kr_session = Some (cached_text kl key), kr_calls = [], kr_results = [KrText m]\<rparr>"
  using stored [OF assms(1-3)] assms(4) by (simp add: keyring_steps)

text \<open>
  A created wallet comes back: it is unlocked with its mnemonic; when the service worker is killed the cached key brings
  the mnemonic back with no password; when the browser is closed nothing does but the password, and another password,
  one that derives another key, is refused and unlocks nothing.
\<close>

theorem keyring_roundtrip:
  assumes "keyring_laws kl" "salt \<noteq> []" "iv \<noteq> []" "vl_kdf kl pw salt VAULT_ITERATIONS = Some key"
    and "vl_kdf kl wrong salt VAULT_ITERATIONS = Some other" "other \<noteq> key"
  shows "let s = kr_run kl (KrCreate m pw salt iv # all_settle 4) (newKeyring vault cache) in
    kr_mnemonic s = Some m \<and>
    kr_mnemonic (kr_run kl (WorkerKilled # KrRehydrate # all_settle 3) s) = Some (vl_nfkd kl m) \<and>
    kr_mnemonic (kr_run kl (BrowserClosed # KrRehydrate # all_settle 3) s) = None \<and>
    kr_mnemonic (kr_run kl (BrowserClosed # KrUnlock pw # all_settle 3) s) = Some (vl_nfkd kl m) \<and>
    kr_mnemonic (kr_run kl (BrowserClosed # KrUnlock wrong # all_settle 3) s) = None \<and>
    kr_results (kr_run kl (BrowserClosed # KrUnlock wrong # all_settle 3) s) = [KrText m, KrError WrongSecret]"
  unfolding created [OF assms(1-4)] Let_def
  using stored [OF assms(1-3)] assms(4-6) by (simp add: keyring_steps)

section \<open>Only ciphertext at rest\<close>

text \<open>The blobs a run may hold: the one found at the start, and those its stores encrypted.\<close>

definition event_blobs :: "('key, 'z) keyring_lib_scheme \<Rightarrow> keyring_event \<Rightarrow> string set" where
  "event_blobs kl e =
     (case e of
        KrCreate m pw salt iv \<Rightarrow> {b. encryptMnemonic (vault_lib.truncate kl) salt iv m pw = Inr b}
      | KrImport m pw salt iv \<Rightarrow> {b. kr_seed kl m \<noteq> None \<and> encryptMnemonic (vault_lib.truncate kl) salt iv m pw = Inr b}
      | _ \<Rightarrow> {})"

fun call_blobs :: "('key, 'z) keyring_lib_scheme \<Rightarrow> keyring_call \<Rightarrow> string set" where
  "call_blobs kl (Encrypting told m pw salt iv) = {b. encryptMnemonic (vault_lib.truncate kl) salt iv m pw = Inr b}"
| "call_blobs kl (SavingVault told m pw blob) = {blob}"
| "call_blobs kl _ = {}"

definition held_blobs :: "('key, 'z) keyring_lib_scheme \<Rightarrow> keyring \<Rightarrow> string set" where
  "held_blobs kl s = set_option (kr_local s) \<union> (\<Union>c \<in> set (kr_calls s). call_blobs kl c)"

lemma held_simps [simp]:
  "held_blobs kl (kr_await c s) = held_blobs kl s \<union> call_blobs kl c" "held_blobs kl (kr_return r s) = held_blobs kl s"
  "held_blobs kl (s\<lparr>kr_mnemonic := m\<rparr>) = held_blobs kl s" "held_blobs kl (s\<lparr>kr_session := t\<rparr>) = held_blobs kl s"
  by (auto simp: held_blobs_def kr_await_def kr_return_def)

lemma held_local: "held_blobs kl (s\<lparr>kr_local := b\<rparr>) \<subseteq> held_blobs kl s \<union> set_option b"
  by (auto simp: held_blobs_def)

lemma held_forget: "held_blobs kl (s\<lparr>kr_mnemonic := m, kr_calls := []\<rparr>) \<subseteq> held_blobs kl s"
  "held_blobs kl (s\<lparr>kr_mnemonic := m, kr_session := t, kr_calls := []\<rparr>) \<subseteq> held_blobs kl s"
  by (auto simp: held_blobs_def)

lemma held_settle: "held_blobs kl (kr_settle kl ok c s) \<subseteq> held_blobs kl s \<union> call_blobs kl c"
  using held_local [where kl = kl and s = s] by (cases c) (auto split: sum.split option.split)

lemma held_step: "held_blobs kl (kr_step kl e s) \<subseteq> held_blobs kl s \<union> event_blobs kl e"
proof (cases e)
  case (KrSettle k ok)
  have "held_blobs kl (s\<lparr>kr_calls := take k (kr_calls s) @ drop (Suc k) (kr_calls s)\<rparr>) \<union> call_blobs kl (kr_calls s ! k) \<subseteq> held_blobs kl s"
    if "k < length (kr_calls s)"
    using that by (auto simp: held_blobs_def dest: in_set_takeD in_set_dropD)
  then show ?thesis using KrSettle held_settle [of kl ok "kr_calls s ! k"] by (auto split: if_splits)
qed (use held_forget [where kl = kl and s = s] in \<open>auto simp: event_blobs_def kr_store_def kr_import_def kr_lock_def kr_destroy_def\<close>)

text \<open>
  C16. The persistent area only ever holds ciphertext: over any run, however its calls interleave, the vault is the one found
  at the start or one that \<^verbatim>\<open>encryptMnemonic\<close> made under the password of a create, or of an import of a valid mnemonic,
  of that run.
\<close>

theorem keyring_at_rest:
  assumes "kr_local (kr_run kl es (newKeyring vault cache)) = Some blob"
  shows "vault = Some blob \<or> (\<exists>e \<in> set es. blob \<in> event_blobs kl e)"
proof -
  have "held_blobs kl (kr_run kl es s) \<subseteq> held_blobs kl s \<union> (\<Union>e \<in> set es. event_blobs kl e)" for s :: keyring
  proof (induction es arbitrary: s)
    case (Cons e es)
    show ?case using Cons [of "kr_step kl e s"] held_step [of kl e s] by auto
  qed simp
  from this [of "newKeyring vault cache"] assms show ?thesis by (auto simp: held_blobs_def newKeyring_def)
qed

section \<open>Locking\<close>

text \<open>
  A lock with nothing else in flight holds: the mnemonic is gone at once, and once the cached key is removed a rehydration
  finds nothing and leaves the keyring locked.
\<close>

theorem keyring_lock_holds:
  assumes "kr_calls s = []"
  shows "kr_mnemonic (kr_step kl KrLock s) = None \<and>
    (let s' = kr_run kl (KrLock # KrSettle 0 True # KrRehydrate # all_settle 2) s in
     kr_mnemonic s' = None \<and> kr_session s' = None \<and> kr_local s' = kr_local s \<and> kr_results s' = kr_results s @ [KrBool False])"
  using assms by (simp add: keyring_steps Let_def)

text \<open>
  C38. A lock while an unlock still has the derived key to cache does not hold: the key is written after the lock removed the
  cache, and a rehydration then unlocks the wallet with no password.
\<close>

theorem keyring_lock_races_unlock:
  assumes "kr_calls s = [CachingUnlocked cached]" "cached \<noteq> []" "kr_local s = Some blob" "blob \<noteq> []"
    and "cached_key kl cached = Some key" "decryptMnemonic (vault_lib.truncate kl) (kl_parse kl) blob (CachedKey key) = Inr m"
  shows "kr_mnemonic (kr_run kl [KrLock, KrSettle 1 True, KrSettle 0 True] s) = None \<and>
    kr_mnemonic (kr_run kl ([KrLock, KrSettle 1 True, KrSettle 0 True, KrRehydrate] @ all_settle 3) s) = Some m"
  using assms by (simp add: keyring_steps)

section \<open>A sample keyring\<close>

definition plain_keyring_lib :: "byte keyring_lib" where
  "plain_keyring_lib = \<lparr>vl_kdf = (\<lambda>pw salt n. Some (word_of_nat (length pw))), vl_encrypt = (\<lambda>k iv m. k # m),
     vl_decrypt = (\<lambda>k iv c. case c of [] \<Rightarrow> None | x # m \<Rightarrow> if x = k then Some m else None),
     vl_b64 = hex_encode, vl_unb64 = hex_decode, vl_nfkd = (\<lambda>m. m), kl_export = (\<lambda>k. JInt (uint k)),
     kl_import = (\<lambda>j. case j of JInt i \<Rightarrow> Some (word_of_int i) | _ \<Rightarrow> None), kl_parse = json_read, kl_validate = (\<lambda>m. m \<noteq> []),
     kl_toSeed = (\<lambda>m. replicate 64 1), kl_platform = reference_platform\<rparr>"

lemma plain_keyring_laws: "keyring_laws plain_keyring_lib"
proof -
  have empty: "hex_encode bs = [] \<longleftrightarrow> bs = []" for bs by (cases bs) simp_all
  show ?thesis by (simp add: keyring_laws_def plain_keyring_lib_def json_read_stringify empty)
qed

definition sample_keyring :: keyring where
  "sample_keyring = kr_run plain_keyring_lib (KrCreate ''art'' ''pw'' [1] [2] # all_settle 4) (newKeyring None None)"

lemma sample_kdf: "vl_kdf plain_keyring_lib pw salt n = Some (word_of_nat (length pw))"
  by (simp add: plain_keyring_lib_def)

theorem keyring_roundtrip_witness:
  "kr_mnemonic (kr_run plain_keyring_lib (BrowserClosed # KrUnlock ''pw'' # all_settle 3) sample_keyring) = Some ''art'' \<and>
   kr_mnemonic (kr_run plain_keyring_lib (BrowserClosed # KrUnlock ''bad'' # all_settle 3) sample_keyring) = None"
  using keyring_roundtrip [OF plain_keyring_laws, of "[1]" "[2]" "''pw''" 2 "''bad''" 3 "''art''" None None]
  by (simp add: sample_kdf Let_def sample_keyring_def plain_keyring_lib_def del: kr_run.simps)

lemma sample_keyring_state:
  "sample_keyring = \<lparr>kr_mnemonic = Some ''art'', kr_local = Some (stored_blob plain_keyring_lib 2 [1] [2] ''art''),
     kr_session = Some (cached_text plain_keyring_lib 2), kr_calls = [], kr_results = [KrText ''art'']\<rparr>"
  unfolding sample_keyring_def by (rule created [OF plain_keyring_laws]) (simp_all add: sample_kdf)

theorem keyring_at_rest_witness: "\<exists>blob. kr_local sample_keyring = Some blob \<and> blob \<in> event_blobs plain_keyring_lib (KrCreate ''art'' ''pw'' [1] [2])"
proof -
  have "kr_local sample_keyring = Some (stored_blob plain_keyring_lib 2 [1] [2] ''art'')" by (simp add: sample_keyring_state)
  with keyring_at_rest [of plain_keyring_lib "KrCreate ''art'' ''pw'' [1] [2] # all_settle 4" None None]
  show ?thesis by (auto simp: sample_keyring_def event_blobs_def simp del: kr_run.simps split: keyring_event.splits)
qed

theorem keyring_lock_holds_witness:
  "kr_session (kr_run plain_keyring_lib (KrLock # KrSettle 0 True # KrRehydrate # all_settle 2) sample_keyring) = None"
proof -
  have "kr_calls sample_keyring = []" by (simp add: sample_keyring_state)
  from keyring_lock_holds [OF this, of plain_keyring_lib] show ?thesis by (simp add: Let_def del: kr_run.simps)
qed

theorem keyring_lock_races_unlock_witness:
  "kr_mnemonic (kr_run plain_keyring_lib ([BrowserClosed, KrUnlock ''pw'', KrSettle 0 True, KrSettle 0 True] @
     [KrLock, KrSettle 1 True, KrSettle 0 True, KrRehydrate] @ all_settle 3) sample_keyring) = Some ''art''"
proof -
  note st = stored [OF plain_keyring_laws, of "[1]" "[2]"]
  let ?s = "kr_run plain_keyring_lib [BrowserClosed, KrUnlock ''pw'', KrSettle 0 True, KrSettle 0 True] sample_keyring"
  have run: "kr_run kl (es @ fs) s = kr_run kl fs (kr_run kl es s)" for kl :: "byte keyring_lib" and es fs s
    by (induction es arbitrary: s) simp_all
  have "kr_calls ?s = [CachingUnlocked (cached_text plain_keyring_lib 2)]" "kr_local ?s = Some (stored_blob plain_keyring_lib 2 [1] [2] ''art'')"
    using st sample_kdf [of "''pw''"] by (simp_all add: sample_keyring_state keyring_steps)
  then have "kr_mnemonic (kr_run plain_keyring_lib ([KrLock, KrSettle 1 True, KrSettle 0 True, KrRehydrate] @ all_settle 3) ?s) = Some ''art''"
    using keyring_lock_races_unlock [of ?s "cached_text plain_keyring_lib 2" "stored_blob plain_keyring_lib 2 [1] [2] ''art''" plain_keyring_lib 2 "''art''"] st
    by (simp add: plain_keyring_lib_def del: kr_run.simps)
  then show ?thesis unfolding run .
qed

end
