(* ===== verification/Kept_Stores.thy ===== *)
theory Kept_Stores
  imports Device
begin

text \<open>
  The stores that outlive a process: \<^verbatim>\<open>packages/extension/src/token-store.ts\<close> and \<^verbatim>\<open>device-store.ts\<close>, which write through to
  \<^verbatim>\<open>chrome.storage\<close> one write after the other, and the file stores of \<^verbatim>\<open>packages/node/src/token-store.ts\<close> and
  \<^verbatim>\<open>device-store.ts\<close>. The locale \<open>kept_text\<close> is what the device identity code relies on in them.
\<close>

section \<open>The contract\<close>

text \<open>\<^verbatim>\<open>keptDeviceIdentity\<close> and \<^verbatim>\<open>keepDeviceName\<close> over a persistence: what they keep is saved when it changed.\<close>

definition kept_over ::
    "('s \<Rightarrow> string option) \<Rightarrow> (string \<Rightarrow> 's \<Rightarrow> 's) \<Rightarrow> token_platform \<Rightarrow> bytes \<Rightarrow> 32 word \<Rightarrow> 32 word \<Rightarrow> 's \<Rightarrow> (warren_error + DeviceIdentity) \<times> 's" where
  "kept_over ld sv pf random u v s =
     (case keptDeviceIdentity pf random u v (ld s) of
        (r, kept) \<Rightarrow> (r, if kept = ld s then s else (case kept of Some t \<Rightarrow> sv t s | None \<Rightarrow> s)))"

locale kept_text =
  fixes ld :: "'s \<Rightarrow> string option" and sv :: "string \<Rightarrow> 's \<Rightarrow> 's" and rm :: "'s \<Rightarrow> 's"
  assumes load_save: "ld (sv t s) = Some t" and load_remove: "ld (rm s) = None"
begin

lemma kept_over_load: "kept_over ld sv pf random u v s = (r, s') \<Longrightarrow> keptDeviceIdentity pf random u v (ld s) = (r, ld s')"
  by (auto simp: kept_over_def keptDeviceIdentity_def load_save split: prod.splits option.splits sum.splits if_splits)

lemma kept_again:
  assumes "device_laws pf" "kept_over ld sv pf random u v s = (Inr identity, s')" "ld s2 = ld s'"
  shows "kept_over ld sv pf random' u' v' s2 = (Inr identity, s2)"
  using kept_reads_back(1) [OF assms(1) kept_over_load [OF assms(2)]] assms(3)
  by (simp add: kept_over_def keptDeviceIdentity_def)

end

text \<open>\<^verbatim>\<open>InMemoryDeviceIdentityPersistence\<close>: the process's own memory, lost with it.\<close>

type_synonym InMemoryDeviceIdentityPersistence = "string option"

definition memory_text :: "InMemoryDeviceIdentityPersistence \<Rightarrow> string option" where
  "memory_text text1 = text1"

definition memory_keep :: "string \<Rightarrow> InMemoryDeviceIdentityPersistence \<Rightarrow> InMemoryDeviceIdentityPersistence" where
  "memory_keep serialized text1 = Some serialized"

definition memory_erase :: "InMemoryDeviceIdentityPersistence \<Rightarrow> InMemoryDeviceIdentityPersistence" where
  "memory_erase text1 = None"

interpretation memory_kept: kept_text memory_text memory_keep memory_erase
  by unfold_locales (simp_all add: memory_text_def memory_keep_def memory_erase_def)

section \<open>Write-through stores\<close>

text \<open>
  The store over a storage area: the value in memory, what the area holds, and the queue of the writes made, of which the
  first is in flight (a removal is \<open>None\<close>).
\<close>

record kept_store =
  ks_text :: "string option"
  ks_area :: "string option"
  ks_queue :: "string option list"

text \<open>\<^verbatim>\<open>openTokenStore\<close> and \<^verbatim>\<open>openDeviceIdentityStore\<close>: an area that cannot be read opens empty.\<close>

definition openTokenStore :: "bool \<Rightarrow> string option \<Rightarrow> kept_store" where
  "openTokenStore readable area = \<lparr>ks_text = (if readable then area else None), ks_area = area, ks_queue = []\<rparr>"

definition openDeviceIdentityStore :: "bool \<Rightarrow> string option \<Rightarrow> kept_store" where
  "openDeviceIdentityStore readable area = \<lparr>ks_text = (if readable then area else None), ks_area = area, ks_queue = []\<rparr>"

definition ks_save :: "string \<Rightarrow> kept_store \<Rightarrow> kept_store" where
  "ks_save serialized s = s\<lparr>ks_text := Some serialized, ks_queue := ks_queue s @ [Some serialized]\<rparr>"

definition ks_remove :: "kept_store \<Rightarrow> kept_store" where
  "ks_remove s = s\<lparr>ks_text := None, ks_queue := ks_queue s @ [None]\<rparr>"

text \<open>The write in flight settles, and lands or not; its failure is swallowed and the next one goes out.\<close>

definition ks_settle :: "bool \<Rightarrow> kept_store \<Rightarrow> kept_store" where
  "ks_settle lands s =
     (case ks_queue s of
        [] \<Rightarrow> s
      | w # rest \<Rightarrow> s\<lparr>ks_area := (if lands then w else ks_area s), ks_queue := rest\<rparr>)"

datatype ks_op = KsSave string | KsRemove | KsSettle bool

fun ks_run :: "ks_op list \<Rightarrow> kept_store \<Rightarrow> kept_store" where
  "ks_run [] s = s"
| "ks_run (KsSave t # ops) s = ks_run ops (ks_save t s)"
| "ks_run (KsRemove # ops) s = ks_run ops (ks_remove s)"
| "ks_run (KsSettle lands # ops) s = ks_run ops (ks_settle lands s)"

interpretation ext_store: kept_text ks_text ks_save ks_remove
  by unfold_locales (simp_all add: ks_save_def ks_remove_def)

text \<open>The writes an operation makes, in order.\<close>

fun ks_writes :: "ks_op list \<Rightarrow> string option list" where
  "ks_writes [] = []"
| "ks_writes (KsSave t # ops) = Some t # ks_writes ops"
| "ks_writes (KsRemove # ops) = None # ks_writes ops"
| "ks_writes (KsSettle lands # ops) = ks_writes ops"

text \<open>
  The area is always at one point of the sequence of writes: it holds the last one of a prefix that landed, and the queue
  is the rest.
\<close>

definition ks_ok :: "string option \<Rightarrow> string option list \<Rightarrow> kept_store \<Rightarrow> bool" where
  "ks_ok area0 ws s \<longleftrightarrow> (\<exists>settled. ws = settled @ ks_queue s \<and> ks_area s \<in> insert area0 (set settled)) \<and>
     (ks_text s = last (area0 # ws) \<or> ws = [])"

lemma ks_ok_run: "ks_ok area0 ws s \<Longrightarrow> ks_ok area0 (ws @ ks_writes ops) (ks_run ops s)"
proof (induction ops arbitrary: ws s)
  case (Cons x ops)
  show ?case
  proof (cases x)
    case (KsSave t)
    with Cons.prems have "ks_ok area0 (ws @ [Some t]) (ks_save t s)" by (auto simp: ks_ok_def ks_save_def)
    from Cons.IH [OF this] KsSave show ?thesis by simp
  next
    case KsRemove
    with Cons.prems have "ks_ok area0 (ws @ [None]) (ks_remove s)" by (auto simp: ks_ok_def ks_remove_def)
    from Cons.IH [OF this] KsRemove show ?thesis by simp
  next
    case (KsSettle lands)
    have "ks_ok area0 ws (ks_settle lands s)"
    proof (cases "ks_queue s")
      case (Cons w rest)
      obtain settled where "ws = settled @ w # rest" "ks_area s \<in> insert area0 (set settled)"
        using Cons.prems Cons by (auto simp: ks_ok_def)
      then have "ws = (settled @ [w]) @ rest" "ks_area (ks_settle lands s) \<in> insert area0 (set (settled @ [w]))"
        using Cons by (auto simp: ks_settle_def)
      with \<open>ks_ok area0 ws s\<close> Cons show ?thesis unfolding ks_ok_def by (auto simp: ks_settle_def)
    qed (use Cons.prems in \<open>simp add: ks_settle_def\<close>)
    from Cons.IH [OF this] KsSettle show ?thesis by simp
  qed
qed simp

definition flush :: "kept_store \<Rightarrow> kept_store" where
  "flush s = ks_run (replicate (length (ks_queue s)) (KsSettle True)) s"

lemma flush_fields:
  "ks_queue (flush s) = [] \<and> ks_text (flush s) = ks_text s \<and> ks_area (flush s) = (if ks_queue s = [] then ks_area s else last (ks_queue s))"
proof -
  have "ks_run (replicate (length (ks_queue s)) (KsSettle True)) s = s\<lparr>ks_area := (if ks_queue s = [] then ks_area s else last (ks_queue s)), ks_queue := []\<rparr>"
  proof (induction "ks_queue s" arbitrary: s)
    case (Cons w rest)
    let ?s = "ks_settle True s"
    have q: "ks_queue s = w # rest" "ks_queue ?s = rest" "ks_area ?s = w" "ks_text ?s = ks_text s"
      using Cons.hyps(2) [symmetric] by (simp_all add: ks_settle_def)
    have "?s\<lparr>ks_area := a, ks_queue := []\<rparr> = s\<lparr>ks_area := a, ks_queue := []\<rparr>" for a
      using q by (simp add: ks_settle_def)
    with Cons.hyps(1) [of ?s] q show ?case by simp
  qed simp
  then show ?thesis by (simp add: flush_def)
qed

text \<open>
  The store writes through in order: after any saves, removals and settled writes the value in memory is the last one
  made, the area holds one of the values written or what it held at the start, and once the writes still queued have
  landed a store opened anew reads the value in memory, whatever earlier writes failed.
\<close>

theorem kept_store_writes_through:
  "let s = ks_run ops (openDeviceIdentityStore readable area) in
    ks_text s = last ((if readable then area else None) # ks_writes ops) \<and> ks_area s \<in> insert area (set (ks_writes ops)) \<and>
    (ks_queue s \<noteq> [] \<longrightarrow> ks_text (openDeviceIdentityStore True (ks_area (flush s))) = ks_text s)"
proof -
  define s where "s = ks_run ops (openDeviceIdentityStore readable area)"
  have "ks_ok area [] (openDeviceIdentityStore readable area)" by (simp add: ks_ok_def openDeviceIdentityStore_def)
  from ks_ok_run [OF this, of ops] have ok: "ks_ok area (ks_writes ops) s" by (simp add: s_def)
  then obtain settled where st: "ks_writes ops = settled @ ks_queue s" "ks_area s \<in> insert area (set settled)"
    by (auto simp: ks_ok_def)
  have none: "ks_writes xs = [] \<Longrightarrow> ks_text (ks_run xs k) = ks_text k" for xs k
    by (induction xs k rule: ks_run.induct) (auto simp: ks_settle_def split: list.split)
  have now: "ks_text s = last ((if readable then area else None) # ks_writes ops)"
    using ok none [of ops "openDeviceIdentityStore readable area"]
    by (cases "ks_writes ops = []") (auto simp: ks_ok_def s_def openDeviceIdentityStore_def)
  moreover have "ks_area (flush s) = ks_text s" if "ks_queue s \<noteq> []"
    using that st(1) now flush_fields [of s] by simp
  ultimately show ?thesis using st unfolding Let_def s_def [symmetric] by (auto simp: openDeviceIdentityStore_def)
qed

theorem kept_store_writes_through_witness:
  "ks_text (openDeviceIdentityStore True (ks_area (flush (ks_run [KsSave ''a'', KsSettle False, KsRemove, KsSave ''b''] (openDeviceIdentityStore False None))))) =
     Some ''b''"
proof -
  let ?s = "ks_run [KsSave ''a'', KsSettle False, KsRemove, KsSave ''b''] (openDeviceIdentityStore False None)"
  have "ks_queue ?s \<noteq> []" "ks_text ?s = Some ''b''"
    by (simp_all add: ks_save_def ks_remove_def ks_settle_def openDeviceIdentityStore_def)
  then show ?thesis using kept_store_writes_through [of "[KsSave ''a'', KsSettle False, KsRemove, KsSave ''b'']" False None] by (simp add: Let_def)
qed

text \<open>
  The browser install keeps its device: the identity a start returns over the store is, once its writes have landed, the
  one every later start over the same area returns, whatever is drawn then.
\<close>

theorem install_identity_survives:
  assumes "device_laws pf" "kept_over ks_text ks_save pf random u v (openDeviceIdentityStore True area) = (Inr identity, s)"
  shows "fst (kept_over ks_text ks_save pf random' u' v' (openDeviceIdentityStore True (ks_area (flush s)))) = Inr identity"
proof -
  have "ks_area (flush s) = ks_text s"
    using assms(2) flush_fields [of s]
    by (auto simp: kept_over_def openDeviceIdentityStore_def ks_save_def split: prod.splits option.splits if_splits)
  then show ?thesis
    using ext_store.kept_again [OF assms, of "openDeviceIdentityStore True (ks_area (flush s))"] by (simp add: openDeviceIdentityStore_def)
qed

theorem install_identity_survives_witness:
  "\<exists>identity s. kept_over ks_text ks_save sample_token_platform (replicate 16 1) 0 24 (openDeviceIdentityStore True None) = (Inr identity, s) \<and>
     fst (kept_over ks_text ks_save sample_token_platform (replicate 16 2) 1 1 (openDeviceIdentityStore True (ks_area (flush s)))) = Inr identity"
proof -
  obtain identity s where k: "kept_over ks_text ks_save sample_token_platform (replicate 16 1) 0 24 (openDeviceIdentityStore True None) = (Inr identity, s)"
    by (simp add: kept_over_def keptDeviceIdentity_def readKept_def generateDeviceIdentity_def deviceIdFromBytes_def DEVICE_ID_LEN_def
        openDeviceIdentityStore_def)
  from install_identity_survives [OF sample_device_laws k] k show ?thesis by blast
qed

section \<open>File stores\<close>

text \<open>The files of a machine. \<open>write_states\<close> are the contents a crash may leave while a file is written in place.\<close>

type_synonym files = "string \<Rightarrow> string option"

definition write_states :: "string \<Rightarrow> string \<Rightarrow> files \<Rightarrow> files list" where
  "write_states path text fs = map (\<lambda>k. fs(path \<mapsto> take k text)) [0..<Suc (length text)]"

definition defaultDeviceIdentityPath :: "(string \<Rightarrow> string option) \<Rightarrow> (string list \<Rightarrow> string) \<Rightarrow> string \<Rightarrow> string" where
  "defaultDeviceIdentityPath env joinPath home =
     (case env ''WARREN_DEVICE_IDENTITY'' of Some p \<Rightarrow> p | None \<Rightarrow> joinPath [home, ''.config'', ''warren'', ''device.json''])"

definition defaultTokenStorePath :: "(string \<Rightarrow> string option) \<Rightarrow> (string list \<Rightarrow> string) \<Rightarrow> string \<Rightarrow> string" where
  "defaultTokenStorePath env joinPath home =
     (case env ''WARREN_TOKEN_STORE'' of Some p \<Rightarrow> p | None \<Rightarrow> joinPath [home, ''.config'', ''warren'', ''tokens.json''])"

definition file_load :: "string \<Rightarrow> files \<Rightarrow> string option" where
  "file_load path fs = fs path"

text \<open>The token file is written in place; the identity goes to a side file that is renamed over it.\<close>

definition token_save_states :: "string \<Rightarrow> string \<Rightarrow> files \<Rightarrow> files list" where
  "token_save_states path serialized fs = write_states path serialized fs"

definition device_save_states :: "string \<Rightarrow> string \<Rightarrow> files \<Rightarrow> files list" where
  "device_save_states path serialized fs =
     write_states (path @ ''.partial'') serialized fs @ [fs(path \<mapsto> serialized, path @ ''.partial'' := None)]"

definition file_save :: "string \<Rightarrow> string \<Rightarrow> files \<Rightarrow> files" where
  "file_save path serialized fs = last (device_save_states path serialized fs)"

definition file_remove :: "string \<Rightarrow> files \<Rightarrow> files" where
  "file_remove path fs = fs(path := None)"

interpretation file_store: kept_text "file_load path" "file_save path" "file_remove path" for path
  by unfold_locales (simp_all add: file_load_def file_save_def device_save_states_def file_remove_def)

text \<open>
  A crash never tears the kept identity: at every moment of a save the file holds the whole old or the whole new text, so
  an identity kept before is still the one read, or the new one is; and the save ends with the new one.
\<close>

theorem identity_save_atomic:
  assumes "readKept pf (file_load path fs) = Some old" "fs' \<in> set (device_save_states path (encodeDeviceIdentity new) fs)"
    and "device_laws pf" "parseDeviceId pf (di_deviceId new) = Inr (di_deviceId new)" "di_name new \<noteq> []"
  shows "readKept pf (file_load path fs') \<in> {Some old, Some new} \<and> readKept pf (file_load path (file_save path (encodeDeviceIdentity new) fs)) = Some new"
proof -
  have "file_load path fs' = file_load path fs \<or> file_load path fs' = Some (encodeDeviceIdentity new)"
    using assms(2) by (auto simp: device_save_states_def write_states_def file_load_def)
  moreover have "readKept pf (Some (encodeDeviceIdentity new)) = Some new"
    using parse_encoded [OF assms(3,4)] assms(5) by (simp add: readKept_def)
  ultimately show ?thesis using assms(1) file_store.load_save [of path] by auto
qed

theorem identity_save_atomic_witness:
  "\<exists>old new fs'. di_name old = ''amber otter'' \<and> di_name new = ''b'' \<and>
     readKept sample_token_platform (file_load ''device.json'' fs') \<in> {Some old, Some new}"
proof -
  obtain old kept where k: "keptDeviceIdentity sample_token_platform (replicate 16 1) 0 24 None = (Inr old, kept)" "di_name old = ''amber otter''"
    by (simp add: keptDeviceIdentity_def readKept_def generateDeviceIdentity_def deviceIdFromBytes_def DEVICE_ID_LEN_def
        deviceNameFrom_def DEVICE_NAME_ADJECTIVES_def DEVICE_NAME_ANIMALS_def)
  note r = kept_reads_back [OF sample_device_laws k(1)]
  let ?fs = "(\<lambda>_. None)(''device.json'' := kept)" and ?new = "old\<lparr>di_name := ''b''\<rparr>"
  let ?fs' = "hd (device_save_states ''device.json'' (encodeDeviceIdentity ?new) ?fs)"
  have "?fs' \<in> set (device_save_states ''device.json'' (encodeDeviceIdentity ?new) ?fs)"
    by (rule hd_in_set) (simp add: device_save_states_def)
  moreover have "readKept sample_token_platform (file_load ''device.json'' ?fs) = Some old" using r(1) by (simp add: file_load_def)
  ultimately have "readKept sample_token_platform (file_load ''device.json'' ?fs') \<in> {Some old, Some ?new}"
    using identity_save_atomic [of sample_token_platform "''device.json''" ?fs old ?fs' ?new] sample_device_laws r(2) by simp
  with k(2) show ?thesis by (intro exI [of _ old] exI [of _ ?new] exI [of _ ?fs']) simp
qed

text \<open>The platform a Node process registers as.\<close>

definition nodeDevicePlatform :: "string \<Rightarrow> string" where
  "nodeDevicePlatform platform =
     (if platform = ''darwin'' then ''macos'' else if platform = ''win32'' then ''windows''
      else if platform \<in> {''linux'', ''android''} then platform else ''cli'')"

lemma nodeDevicePlatform_registrable: "nodeDevicePlatform p \<in> set DEVICE_PLATFORMS"
  by (simp add: nodeDevicePlatform_def DEVICE_PLATFORMS_def)

end
