(* ===== verification/Proxy_Tunnel.thy ===== *)
theory Proxy_Tunnel
  imports Host_Session Kept_Stores
begin

text \<open>
  The non-root datapath of the Node package, \<^verbatim>\<open>packages/node/src/proxy/tunnel.ts\<close>: the loader of the native addon with its
  cache and ABI check, the options the addon is built with, the class \<^verbatim>\<open>ProxyTunnel\<close> over what the addon built, and the
  mapping of native rejections to typed errors. The addon is not part of the repository's TypeScript: a binding is what
  it reports and what its constructor does, and a call on what it built settles with a value or with a rejection.
\<close>

section \<open>Errors\<close>

record WarrenProxyError =
  pe_code :: string
  pe_message :: string

definition NATIVE_CODES :: "string list" where
  "NATIVE_CODES = [''identity'', ''api'', ''discovery'', ''tunnel'', ''config'', ''egress'', ''unsupported'', ''device_revoked'', ''device_limit'']"

text \<open>\<^verbatim>\<open>raw.indexOf(': ')\<close>.\<close>

fun colon_at :: "string \<Rightarrow> nat option" where
  "colon_at (a # b # r) = (if a = CHR '':'' \<and> b = CHR '' '' then Some 0 else map_option Suc (colon_at (b # r)))"
| "colon_at _ = None"

text \<open>\<open>raw\<close> is the message of an \<^verbatim>\<open>Error\<close>, or the text of any other value thrown.\<close>

definition mapNativeError :: "string \<Rightarrow> WarrenProxyError" where
  "mapNativeError raw =
     (let generic = \<lparr>pe_code = ''tunnel'', pe_message = ''native datapath call failed''\<rparr>
      in case colon_at raw of
           None \<Rightarrow> generic
         | Some split \<Rightarrow>
             if split > 0 \<and> take split raw \<in> set NATIVE_CODES
             then \<lparr>pe_code = take split raw, pe_message = drop (split + 2) raw\<rparr> else generic)"

lemma colon_at_take: "colon_at raw = Some n \<Longrightarrow> raw = take n raw @ '': '' @ drop (n + 2) raw"
proof (induction raw arbitrary: n rule: colon_at.induct)
  case (1 a b r)
  show ?case
  proof (cases "a = CHR '':'' \<and> b = CHR '' ''")
    case False
    with "1.prems" obtain m where m: "colon_at (b # r) = Some m" "n = Suc m" by (auto split: if_splits)
    with "1.IH" [OF False m(1)] show ?thesis by simp
  qed (use "1.prems" in auto)
qed simp_all

lemma colon_at_append: "CHR '':'' \<notin> set k \<Longrightarrow> colon_at (k @ '': '' @ m) = Some (length k)"
proof (induction k)
  case (Cons a k)
  then have "colon_at (k @ '': '' @ m) = Some (length k)" "a \<noteq> CHR '':''" by auto
  then show ?case by (cases "k @ '': '' @ m") simp_all
qed simp

lemma native_code_plain: "k \<in> set NATIVE_CODES \<Longrightarrow> CHR '':'' \<notin> set k \<and> k \<noteq> []"
  by (auto simp: NATIVE_CODES_def)

text \<open>
  A native rejection keeps its kind: one of the form \<^verbatim>\<open><kind>: <message>\<close> with a kind of the contract becomes that code and
  that message, and any other becomes the generic tunnel error, of whose text nothing comes from the addon. So a mapped
  error is never \<^verbatim>\<open>unavailable\<close> or \<^verbatim>\<open>outdated\<close>, the codes of the loader.
\<close>

theorem native_error_kinds:
  "(mapNativeError raw = \<lparr>pe_code = k, pe_message = m\<rparr> \<longleftrightarrow>
      (if \<exists>k' \<in> set NATIVE_CODES. \<exists>m'. raw = k' @ '': '' @ m' then k \<in> set NATIVE_CODES \<and> raw = k @ '': '' @ m
       else k = ''tunnel'' \<and> m = ''native datapath call failed'')) \<and>
   pe_code (mapNativeError raw) \<notin> {''unavailable'', ''outdated''}"
proof -
  have kind: "mapNativeError (k' @ '': '' @ m') = \<lparr>pe_code = k', pe_message = m'\<rparr>" if "k' \<in> set NATIVE_CODES" for k' m'
    using that colon_at_append [of k' m'] native_code_plain [of k'] by (simp add: mapNativeError_def)
  have other: "mapNativeError raw = \<lparr>pe_code = ''tunnel'', pe_message = ''native datapath call failed''\<rparr>"
    if "\<not> (\<exists>k' \<in> set NATIVE_CODES. \<exists>m'. raw = k' @ '': '' @ m')"
  proof (cases "colon_at raw")
    case (Some n)
    with that colon_at_take [OF Some] have "take n raw \<notin> set NATIVE_CODES" by metis
    with Some show ?thesis by (simp add: mapNativeError_def)
  qed (simp add: mapNativeError_def)
  show ?thesis
  proof (cases "\<exists>k' \<in> set NATIVE_CODES. \<exists>m'. raw = k' @ '': '' @ m'")
    case True
    then obtain k' m' where k': "k' \<in> set NATIVE_CODES" "raw = k' @ '': '' @ m'" by blast
    have eq: "mapNativeError raw = \<lparr>pe_code = k', pe_message = m'\<rparr>" unfolding k'(2) by (rule kind [OF k'(1)])
    have "k = k' \<and> m = m' \<longleftrightarrow> k \<in> set NATIVE_CODES \<and> raw = k @ '': '' @ m"
    proof
      assume "k \<in> set NATIVE_CODES \<and> raw = k @ '': '' @ m"
      with kind [of k m] eq show "k = k' \<and> m = m'" by simp
    qed (use k' in simp)
    moreover have "k' \<noteq> ''unavailable''" "k' \<noteq> ''outdated''" using k'(1) by (auto simp: NATIVE_CODES_def)
    ultimately show ?thesis using True by (simp only: if_True eq) auto
  next
    case False
    then show ?thesis using other by auto
  qed
qed

theorem native_error_kinds_witness:
  "pe_code (mapNativeError ''device_limit: three devices: full'') = ''device_limit'' \<and>
   pe_code (mapNativeError ''panic: at line 3'') = ''tunnel''"
proof -
  have "mapNativeError ''device_limit: three devices: full'' = \<lparr>pe_code = ''device_limit'', pe_message = ''three devices: full''\<rparr>"
    by (simp add: native_error_kinds [THEN conjunct1] NATIVE_CODES_def)
  moreover have "mapNativeError ''panic: at line 3'' = \<lparr>pe_code = ''tunnel'', pe_message = ''native datapath call failed''\<rparr>"
    by (simp add: mapNativeError_def NATIVE_CODES_def)
  ultimately show ?thesis by simp
qed

section \<open>Options\<close>

record ProxyDeviceOptions =
  pd_appVersion :: string
  pd_platform :: "string option"
  pd_identityPath :: "string option"

record ProxyKnobs =
  pk_alternativeHosts :: "string list option"
  pk_multihopRootPinHex :: "string option"
  pk_daita :: "json option"
  pk_daitaMachine :: "string option"
  pk_requestIpv6 :: "bool option"
  pk_stateDir :: "string option"
  pk_device :: "ProxyDeviceOptions option"

record NativeDevice =
  nd_identityPath :: string
  nd_platform :: string
  nd_appVersion :: string

record NativeProxyOptions =
  no_knobs :: ProxyKnobs
  no_device :: "NativeDevice option"

definition no_options :: ProxyKnobs where
  "no_options = \<lparr>pk_alternativeHosts = None, pk_multihopRootPinHex = None, pk_daita = None, pk_daitaMachine = None,
     pk_requestIpv6 = None, pk_stateDir = None, pk_device = None\<rparr>"

text \<open>\<open>joinPath\<close> is \<^verbatim>\<open>join\<close> of \<^verbatim>\<open>node:path\<close>, \<open>dflt\<close> the default identity path and \<open>os\<close> the platform of the process.\<close>

definition nativeProxyOptions :: "(string list \<Rightarrow> string) \<Rightarrow> string \<Rightarrow> string \<Rightarrow> ProxyKnobs \<Rightarrow> NativeProxyOptions option" where
  "nativeProxyOptions joinPath dflt os options =
     (let knobs = options\<lparr>pk_device := None\<rparr>;
          device = map_option (\<lambda>d. \<lparr>
            nd_identityPath = (case pd_identityPath d of
                Some p \<Rightarrow> p
              | None \<Rightarrow> (case nonempty (pk_stateDir knobs) of Some dir \<Rightarrow> joinPath [dir, ''device.json''] | None \<Rightarrow> dflt)),
            nd_platform = (case pd_platform d of Some p \<Rightarrow> p | None \<Rightarrow> nodeDevicePlatform os),
            nd_appVersion = pd_appVersion d\<rparr>) (pk_device options)
      in if knobs = no_options \<and> device = None then None else Some \<lparr>no_knobs = knobs, no_device = device\<rparr>)"

section \<open>The addon\<close>

definition NATIVE_BINDING_ABI :: int where
  "NATIVE_BINDING_ABI = 2"

datatype ProxyDatapathStatus = DatapathReady | DatapathMissing | DatapathOutdated

text \<open>What \<^verbatim>\<open>bindingAbi\<close> of a loaded module is: no function, or one that throws or returns a value.\<close>

datatype abi_report = NoReport | ReportThrows | Reported json

text \<open>A binding reports its ABI, and its constructor throws (with the text of what it throws) or builds.\<close>

record native_binding =
  nb_abi :: abi_report
  nb_new :: "string \<Rightarrow> string \<Rightarrow> string \<Rightarrow> NativeProxyOptions option \<Rightarrow> string option"

text \<open>An exception of the addon's \<^verbatim>\<open>bindingAbi\<close> leaves \<^verbatim>\<open>loadNative\<close> as it is.\<close>

datatype proxy_failure = ProxyFailure WarrenProxyError | ForeignFailure

definition nativeBindingStatus :: "native_binding \<Rightarrow> ProxyDatapathStatus option" where
  "nativeBindingStatus binding =
     (case nb_abi binding of
        NoReport \<Rightarrow> Some DatapathOutdated
      | ReportThrows \<Rightarrow> None
      | Reported v \<Rightarrow> Some (if v = JInt NATIVE_BINDING_ABI then DatapathReady else DatapathOutdated))"

text \<open>What \<^verbatim>\<open>require\<close> of a candidate that exists does.\<close>

datatype addon_file = AddonThrows | Addon native_binding

definition unavailable :: proxy_failure where
  "unavailable = ProxyFailure \<lparr>pe_code = ''unavailable'',
     pe_message = ''native proxy datapath unavailable on this platform/build; build packages/node/native/warren-napi or install a prebuilt''\<rparr>"

definition load_failed :: proxy_failure where
  "load_failed = ProxyFailure \<lparr>pe_code = ''unavailable'', pe_message = ''failed to load the native datapath addon''\<rparr>"

definition outdated :: proxy_failure where
  "outdated = ProxyFailure \<lparr>pe_code = ''outdated'',
     pe_message = ''the native datapath addon was built from another SDK version; rebuild packages/node/native/warren-napi''\<rparr>"

fun load_candidates :: "addon_file option list \<Rightarrow> proxy_failure + native_binding" where
  "load_candidates [] = Inl unavailable"
| "load_candidates (None # rest) = load_candidates rest"
| "load_candidates (Some AddonThrows # rest) = Inl load_failed"
| "load_candidates (Some (Addon binding) # rest) =
     (case nativeBindingStatus binding of
        None \<Rightarrow> Inl ForeignFailure
      | Some DatapathReady \<Rightarrow> Inr binding
      | Some _ \<Rightarrow> Inl outdated)"

text \<open>The second argument and the second result are the module's \<^verbatim>\<open>cachedBinding\<close>.\<close>

definition loadNative :: "addon_file option list \<Rightarrow> native_binding option \<Rightarrow> (proxy_failure + native_binding) \<times> native_binding option" where
  "loadNative candidates cached =
     (case cached of
        Some binding \<Rightarrow> (Inr binding, cached)
      | None \<Rightarrow> (case load_candidates candidates of Inl e \<Rightarrow> (Inl e, None) | Inr binding \<Rightarrow> (Inr binding, Some binding)))"

definition proxyDatapathStatus :: "addon_file option list \<Rightarrow> native_binding option \<Rightarrow> ProxyDatapathStatus \<times> native_binding option" where
  "proxyDatapathStatus candidates cached =
     (case loadNative candidates cached of
        (Inr _, cached') \<Rightarrow> (DatapathReady, cached')
      | (Inl (ProxyFailure e), cached') \<Rightarrow> (if pe_code e = ''outdated'' then DatapathOutdated else DatapathMissing, cached')
      | (Inl ForeignFailure, cached') \<Rightarrow> (DatapathMissing, cached'))"

definition isProxyDatapathAvailable :: "addon_file option list \<Rightarrow> native_binding option \<Rightarrow> bool \<times> native_binding option" where
  "isProxyDatapathAvailable candidates cached = map_prod (\<lambda>st. st = DatapathReady) id (proxyDatapathStatus candidates cached)"

section \<open>Tunnels\<close>

text \<open>
  What a tunnel was built by and with. \<open>pto_nativeFactory\<close> is what the factory does on the options: the text it throws, or
  nothing.
\<close>

datatype native_proxy =
    FromFactory "NativeProxyOptions option"
  | FromAddon native_binding string string string "NativeProxyOptions option"

record ProxyTunnelOptions =
  pto_mnemonic :: string
  pto_apiBase :: string
  pto_serverPubkeyPin :: string
  pto_knobs :: ProxyKnobs
  pto_nativeFactory :: "(NativeProxyOptions option \<Rightarrow> string option) option"

definition ProxyTunnel_create ::
    "(string list \<Rightarrow> string) \<Rightarrow> string \<Rightarrow> string \<Rightarrow> addon_file option list \<Rightarrow> ProxyTunnelOptions \<Rightarrow> native_binding option \<Rightarrow>
       (proxy_failure + native_proxy) \<times> native_binding option" where
  "ProxyTunnel_create joinPath dflt os candidates options cached =
     (let native = nativeProxyOptions joinPath dflt os (pto_knobs options);
          mapped = (\<lambda>raw. Inl (ProxyFailure (mapNativeError raw)))
      in case pto_nativeFactory options of
           Some factory \<Rightarrow> ((case factory native of Some raw \<Rightarrow> mapped raw | None \<Rightarrow> Inr (FromFactory native)), cached)
         | None \<Rightarrow>
             (case loadNative candidates cached of
                (Inl e, cached') \<Rightarrow> (Inl e, cached')
              | (Inr binding, cached') \<Rightarrow>
                  ((case nb_new binding (pto_mnemonic options) (pto_apiBase options) (pto_serverPubkeyPin options) native of
                      Some raw \<Rightarrow> mapped raw
                    | None \<Rightarrow> Inr (FromAddon binding (pto_mnemonic options) (pto_apiBase options) (pto_serverPubkeyPin options) native)),
                   cached')))"

text \<open>
  \<^verbatim>\<open>shutdown\<close>, \<^verbatim>\<open>metrics\<close>, \<^verbatim>\<open>fatalCause\<close>, \<^verbatim>\<open>verifyEgress\<close>, \<^verbatim>\<open>forwardPort\<close>, \<^verbatim>\<open>externalPort\<close> and \<^verbatim>\<open>release\<close>: the native call's outcome, its
  rejection mapped. \<^verbatim>\<open>forgetDevice\<close> does the same over a method the binding may lack.
\<close>

definition native_call :: "string + 'a \<Rightarrow> WarrenProxyError + 'a" where
  "native_call outcome = map_sum mapNativeError id outcome"

definition forgetDevice :: "(string + unit) option \<Rightarrow> WarrenProxyError + unit" where
  "forgetDevice outcome = (case outcome of None \<Rightarrow> Inr () | Some r \<Rightarrow> native_call r)"

definition deviceRevoked :: "bool option \<Rightarrow> bool" where
  "deviceRevoked report = (case report of Some b \<Rightarrow> b | None \<Rightarrow> False)"

definition deviceLimitReached :: "bool option \<Rightarrow> bool" where
  "deviceLimitReached report = (case report of Some b \<Rightarrow> b | None \<Rightarrow> False)"

record ProxyTunnelExit =
  pt_country :: string
  pt_city :: string

definition tunnelExit :: "json option \<Rightarrow> ProxyTunnelExit option" where
  "tunnelExit v =
     (case v of
        None \<Rightarrow> None
      | Some value \<Rightarrow>
          if \<not> is_object value then None
          else (case (jstring value ''country'', jstring value ''city'') of
             (Some country, Some city) \<Rightarrow>
               if length country = 2 \<and> list_all is_letter country
               then Some \<lparr>pt_country = map upper_char country, pt_city = city\<rparr> else None
           | _ \<Rightarrow> None))"

record NativeProxyEndpoints =
  ne_socks5 :: string
  ne_http :: "string option"
  ne_username :: string
  ne_password :: string
  ne_exit :: "json option"

record ProxyEndpoints =
  px_socks5 :: string
  px_http :: "string option"
  px_username :: string
  px_password :: string
  px_exit :: "ProxyTunnelExit option"

definition ProxyTunnel_connect :: "string + NativeProxyEndpoints \<Rightarrow> WarrenProxyError + ProxyEndpoints" where
  "ProxyTunnel_connect outcome =
     (case native_call outcome of
        Inl e \<Rightarrow> Inl e
      | Inr reported \<Rightarrow> Inr \<lparr>px_socks5 = ne_socks5 reported, px_http = ne_http reported, px_username = ne_username reported,
          px_password = ne_password reported, px_exit = tunnelExit (ne_exit reported)\<rparr>)"

section \<open>Only a matching addon\<close>

text \<open>A run of the module: status questions and creations, each with the files it finds.\<close>

datatype proxy_use =
    UseStatus "addon_file option list"
  | UseCreate "addon_file option list" ProxyTunnelOptions

datatype proxy_outcome = StatusIs ProxyDatapathStatus | CreateFails proxy_failure | Created native_proxy

definition proxy_use_step ::
    "(string list \<Rightarrow> string) \<Rightarrow> string \<Rightarrow> string \<Rightarrow> proxy_use \<Rightarrow> native_binding option \<Rightarrow> proxy_outcome \<times> native_binding option" where
  "proxy_use_step joinPath dflt os u cached =
     (case u of
        UseStatus candidates \<Rightarrow> map_prod StatusIs id (proxyDatapathStatus candidates cached)
      | UseCreate candidates options \<Rightarrow>
          map_prod (\<lambda>r. case r of Inl e \<Rightarrow> CreateFails e | Inr t \<Rightarrow> Created t) id
            (ProxyTunnel_create joinPath dflt os candidates options cached))"

fun proxy_uses ::
    "(string list \<Rightarrow> string) \<Rightarrow> string \<Rightarrow> string \<Rightarrow> proxy_use list \<Rightarrow> native_binding option \<Rightarrow> proxy_outcome list \<times> native_binding option" where
  "proxy_uses joinPath dflt os [] cached = ([], cached)"
| "proxy_uses joinPath dflt os (u # us) cached =
     (case proxy_use_step joinPath dflt os u cached of
        (r, cached') \<Rightarrow> (case proxy_uses joinPath dflt os us cached' of (rs, cached'') \<Rightarrow> (r # rs, cached'')))"

definition matching :: "native_binding \<Rightarrow> bool" where
  "matching b \<longleftrightarrow> nb_abi b = Reported (JInt NATIVE_BINDING_ABI)"

lemma load_candidates_matching: "load_candidates cs = Inr b \<Longrightarrow> matching b"
  by (induction cs rule: load_candidates.induct)
    (auto simp: nativeBindingStatus_def matching_def split: option.splits abi_report.splits ProxyDatapathStatus.splits if_splits)

lemma loadNative_cached [simp]: "loadNative cs (Some b) = (Inr b, Some b)"
  by (simp add: loadNative_def)

lemma loadNative_cases:
  assumes "\<forall>b. cached = Some b \<longrightarrow> matching b"
  obtains b where "loadNative cs cached = (Inr b, Some b)" "matching b" | e where "loadNative cs cached = (Inl e, None)" "cached = None"
  using assms load_candidates_matching [of cs]
  by (cases cached; cases "load_candidates cs") (auto simp: loadNative_def)

text \<open>What an outcome says of the addon: a tunnel built on it was built on a matching one.\<close>

fun sound_outcome :: "proxy_outcome \<Rightarrow> bool" where
  "sound_outcome (Created (FromAddon b m a p opts)) = matching b"
| "sound_outcome _ = True"

text \<open>The outcomes that say the addon can carry a tunnel, and those that deny it.\<close>

fun says_ready :: "proxy_outcome \<Rightarrow> bool" where
  "says_ready (StatusIs st) = (st = DatapathReady)"
| "says_ready (Created (FromAddon b m a p opts)) = True"
| "says_ready _ = False"

fun denies_ready :: "proxy_outcome \<Rightarrow> bool" where
  "denies_ready (StatusIs st) = (st \<noteq> DatapathReady)"
| "denies_ready (CreateFails e) = (e \<in> {unavailable, load_failed, outdated, ForeignFailure})"
| "denies_ready (Created t) = False"

lemma mapped_not_denied: "ProxyFailure (mapNativeError raw) \<notin> {unavailable, load_failed, outdated, ForeignFailure}"
proof -
  have "pe_code (mapNativeError raw) \<notin> {''unavailable'', ''outdated''}"
    by (auto simp: mapNativeError_def NATIVE_CODES_def Let_def split: option.split)
  then show ?thesis by (auto simp: unavailable_def load_failed_def outdated_def)
qed

lemma proxy_use_step_sound:
  assumes "\<forall>b. cached = Some b \<longrightarrow> matching b" "proxy_use_step joinPath dflt os u cached = (r, cached')"
  shows "(\<forall>b. cached' = Some b \<longrightarrow> matching b) \<and> sound_outcome r \<and> (says_ready r \<longrightarrow> cached' \<noteq> None) \<and>
    (cached \<noteq> None \<longrightarrow> cached' = cached \<and> \<not> denies_ready r)"
proof (cases u)
  case (UseStatus cs)
  show ?thesis
    by (rule loadNative_cases [OF assms(1), of cs])
      (use assms(2) UseStatus in \<open>auto simp: proxy_use_step_def proxyDatapathStatus_def loadNative_def split: proxy_failure.splits option.splits sum.splits if_splits\<close>)
next
  case (UseCreate cs options)
  show ?thesis
    by (rule loadNative_cases [OF assms(1), of cs])
      (use assms UseCreate mapped_not_denied in
        \<open>auto simp: proxy_use_step_def ProxyTunnel_create_def Let_def loadNative_def split: option.splits sum.splits\<close>)
qed


lemma proxy_uses_sound:
  assumes "\<forall>b. cached = Some b \<longrightarrow> matching b" "proxy_uses joinPath dflt os us cached = (rs, cached')"
  shows "length rs = length us \<and> (\<forall>r \<in> set rs. sound_outcome r) \<and> (cached \<noteq> None \<longrightarrow> (\<forall>r \<in> set rs. \<not> denies_ready r)) \<and>
    (\<forall>i j. i < j \<longrightarrow> j < length rs \<longrightarrow> says_ready (rs ! i) \<longrightarrow> \<not> denies_ready (rs ! j))"
  using assms
proof (induction us arbitrary: cached rs)
  case (Cons u us)
  obtain r c1 where u: "proxy_use_step joinPath dflt os u cached = (r, c1)" by fastforce
  obtain rs1 where us: "proxy_uses joinPath dflt os us c1 = (rs1, cached')" "rs = r # rs1"
    using Cons.prems(2) u by (auto split: prod.splits)
  note st = proxy_use_step_sound [OF Cons.prems(1) u]
  then have "\<forall>b. c1 = Some b \<longrightarrow> matching b" by blast
  from Cons.IH [OF this us(1)] st
  have tail: "length rs1 = length us" "\<forall>r \<in> set rs1. sound_outcome r" "c1 \<noteq> None \<longrightarrow> (\<forall>r \<in> set rs1. \<not> denies_ready r)"
    "\<forall>i j. i < j \<longrightarrow> j < length rs1 \<longrightarrow> says_ready (rs1 ! i) \<longrightarrow> \<not> denies_ready (rs1 ! j)"
    "says_ready r \<longrightarrow> c1 \<noteq> None" "cached \<noteq> None \<longrightarrow> c1 = cached \<and> \<not> denies_ready r" "sound_outcome r" by auto
  have "\<not> denies_ready (rs ! j)" if ij: "i < j" "j < length rs" "says_ready (rs ! i)" for i j
  proof (cases i)
    case 0
    then show ?thesis using ij tail(3,5) us(2) by (cases j) auto
  next
    case (Suc k)
    then show ?thesis using ij tail(4) us(2) by (cases j) auto
  qed
  with tail us(2) show ?case by auto
qed auto

lemma proxy_uses_cached:
  "proxy_uses joinPath dflt os us cached = (rs, Some b) \<Longrightarrow> (\<forall>b. cached = Some b \<longrightarrow> matching b) \<Longrightarrow> matching b"
proof (induction us arbitrary: cached rs)
  case (Cons u us)
  obtain r c1 where u: "proxy_use_step joinPath dflt os u cached = (r, c1)" by fastforce
  with Cons.prems(1) obtain rs1 where "proxy_uses joinPath dflt os us c1 = (rs1, Some b)" by (auto split: prod.splits)
  then show ?case using Cons.IH proxy_use_step_sound [OF Cons.prems(2) u] by blast
qed simp

text \<open>
  C28. Only an addon of this SDK carries a tunnel: over any sequence of status questions and creations, whatever files they
  find, a tunnel the addon built was built on a binding that reported the ABI of this facade; and once one of them found
  the addon ready no later one denies it, even when the file is replaced or removed.
\<close>

theorem proxy_datapath_gate:
  assumes "proxy_uses joinPath dflt os us None = (rs, cached)" "j < length us"
  shows "length rs = length us \<and>
    (\<forall>b m a p opts. rs ! j = Created (FromAddon b m a p opts) \<longrightarrow> nb_abi b = Reported (JInt NATIVE_BINDING_ABI)) \<and>
    (\<forall>i < j. says_ready (rs ! i) \<longrightarrow> \<not> denies_ready (rs ! j))"
proof -
  have "\<forall>b. None = Some b \<longrightarrow> matching b" by simp
  note sound = proxy_uses_sound [OF this assms(1)]
  then have "sound_outcome (rs ! j)" using assms(2) by simp
  then have own: "\<forall>b m a p opts. rs ! j = Created (FromAddon b m a p opts) \<longrightarrow> nb_abi b = Reported (JInt NATIVE_BINDING_ABI)"
    by (auto simp: matching_def)
  have len: "length rs = length us" using sound by (rule conjunct1)
  have later: "\<forall>i < j. says_ready (rs ! i) \<longrightarrow> \<not> denies_ready (rs ! j)"
    using sound assms(2) unfolding len by (intro allI impI) (elim conjE, simp)
  from len own later show ?thesis by (intro conjI)
qed

definition sample_addon :: native_binding where
  "sample_addon = \<lparr>nb_abi = Reported (JInt 2), nb_new = (\<lambda>m a p opts. if m = [] then Some ''identity: empty'' else None)\<rparr>"

definition sample_tunnel_options :: ProxyTunnelOptions where
  "sample_tunnel_options = \<lparr>pto_mnemonic = ''art'', pto_apiBase = ''https://api'', pto_serverPubkeyPin = ''00'',
     pto_knobs = no_options, pto_nativeFactory = None\<rparr>"

text \<open>The addon is found at the second candidate, and gone when the tunnel is built.\<close>

theorem proxy_datapath_gate_witness:
  "\<not> denies_ready (fst (proxy_uses concat [] ''linux'' [UseStatus [None, Some (Addon sample_addon)], UseCreate [] sample_tunnel_options] None) ! 1)"
proof -
  let ?us = "[UseStatus [None, Some (Addon sample_addon)], UseCreate [] sample_tunnel_options]"
  obtain rs cached where run: "proxy_uses concat [] ''linux'' ?us None = (rs, cached)" by fastforce
  have "says_ready (rs ! 0)"
    using run by (auto simp: proxy_use_step_def proxyDatapathStatus_def loadNative_def nativeBindingStatus_def sample_addon_def
        NATIVE_BINDING_ABI_def split: prod.splits)
  then show ?thesis using proxy_datapath_gate [OF run, of 1] by (simp add: run del: proxy_uses.simps)
qed

section \<open>The exit as it is relayed\<close>

definition exit_json :: "ProxyTunnelExit \<Rightarrow> json" where
  "exit_json e = JObj [(''country'', JStr (pt_country e)), (''city'', JStr (pt_city e))]"

lemma upper_is_letter: "is_letter c \<Longrightarrow> is_letter (upper_char c) \<and> upper_char (upper_char c) = upper_char c"
  by (auto simp: is_letter_def upper_char_def Let_def)

text \<open>The native host hands the extension the exit the facade read, unchanged.\<close>

lemma exit_relayed:
  assumes "tunnelExit v = Some e"
  shows "parseTunnelExit (Some (exit_json e)) = Some \<lparr>tx_country = pt_country e, tx_city = pt_city e\<rparr>"
proof -
  obtain country where "pt_country e = map upper_char country" "length country = 2" "list_all is_letter country"
    using assms by (auto simp: tunnelExit_def split: option.splits if_splits)
  then show ?thesis
    by (auto simp: parseTunnelExit_def exit_json_def jstring_def list_all_iff upper_is_letter)
qed

end
