(* ===== verification/Host_Process.thy ===== *)
theory Host_Process
  imports Proxy_Tunnel Api_Client Relay_List Stream_Framing
begin

text \<open>
  The native host process, \<^verbatim>\<open>packages/extension/src/host/run.ts\<close>, over the product channels of
  \<^verbatim>\<open>packages/core/src/product.ts\<close>: the tunnels it builds, the questions it answers for the session, and the loop that feeds
  the bytes of its standard input to the session. The process is a transition system over the events of the session's
  promises and of its streams.
\<close>

section \<open>Product channels\<close>

fun API_BASE_URL_BY_CHANNEL :: "ProductChannel \<Rightarrow> string" where
  "API_BASE_URL_BY_CHANNEL Prod = ''https://api.warrenbrowse.com''"
| "API_BASE_URL_BY_CHANNEL Beta = ''https://api.beta.warrenbrowse.com''"

text \<open>\<^verbatim>\<open>trim()\<close>, with the white space of ASCII.\<close>

definition trim :: "string \<Rightarrow> string" where
  "trim s = (let space = (\<lambda>c. let n = of_char c :: nat in n = 32 \<or> 9 \<le> n \<and> n \<le> 13) in rev (dropWhile space (rev (dropWhile space s))))"

text \<open>\<open>None\<close> is the exception of any other value.\<close>

definition resolveProductChannel :: "string option \<Rightarrow> ProductChannel option" where
  "resolveProductChannel v =
     (let raw = trim (case v of Some s \<Rightarrow> s | None \<Rightarrow> [])
      in if raw = [] \<or> raw = ''prod'' then Some Prod else if raw = ''beta'' then Some Beta else None)"

definition apiBaseUrl :: "ProductChannel \<Rightarrow> string" where
  "apiBaseUrl channel = API_BASE_URL_BY_CHANNEL channel"

section \<open>Tunnels\<close>

text \<open>What the process reads of its machine, and what of it changes: the network, the files and the cached addon.\<close>

record 'w host_env =
  he_api :: "'w api_env"
  he_channel :: ProductChannel
  he_join :: "string list \<Rightarrow> string"
  he_home :: string
  he_vars :: "string \<Rightarrow> string option"
  he_os :: string
  he_candidates :: "addon_file option list"

record 'w host_machine =
  hm_world :: 'w
  hm_files :: files
  hm_addon :: "native_binding option"

datatype host_failure = HostApi warren_error | HostDiscovery discovery_error | HostProxy proxy_failure

record ExtensionDevice =
  xd_id :: string
  xd_name :: string
  xd_appVersion :: string

definition host_base :: "'w host_env \<Rightarrow> NativeHostConfig \<Rightarrow> ProductChannel option \<Rightarrow> string" where
  "host_base he config channel = hostApiBase API_BASE_URL_BY_CHANNEL (apiBaseUrl (he_channel he)) config channel"

text \<open>\<^verbatim>\<open>new WarrenApiClient(...)\<close> and one call on it, for the client alone.\<close>

definition with_client :: "'w host_env \<Rightarrow> string \<Rightarrow> bytes option \<Rightarrow> ('w, 'a) api \<Rightarrow> 'w \<Rightarrow> (warren_error + 'a) \<times> 'w" where
  "with_client he base seed f w =
     (case newClient (en_platform (he_api he)) base seed [] of
        Inl e \<Rightarrow> (Inl e, w)
      | Inr client \<Rightarrow> (case f (client, w) of (r, (_, w')) \<Rightarrow> (r, w')))"

definition verified_exits :: "'w host_env \<Rightarrow> string \<Rightarrow> string list \<Rightarrow> 'w \<Rightarrow> (host_failure + VerifiedRelayList) \<times> 'w" where
  "verified_exits he base pins w =
     (case with_client he base None (exits (he_api he)) w of
        (Inl e, w') \<Rightarrow> (Inl (HostApi e), w')
      | (Inr doc, w') \<Rightarrow>
          (case verifySignedRelayList (platform.truncate (en_platform (he_api he))) doc pins of
             Inl e \<Rightarrow> (Inl (HostDiscovery e), w')
           | Inr v \<Rightarrow> (Inr v, w')))"

definition resolveServerPin :: "'w host_env \<Rightarrow> NativeHostConfig \<Rightarrow> string \<Rightarrow> 'w \<Rightarrow> (host_failure + string) \<times> 'w" where
  "resolveServerPin he config base w =
     (case nonempty (nh_serverPubkeyPin config) of
        Some pin \<Rightarrow> (Inr pin, w)
      | None \<Rightarrow> (case verified_exits he base [] w of (Inl e, w') \<Rightarrow> (Inl e, w') | (Inr v, w') \<Rightarrow> (Inr (serverPubkeyHex v), w')))"

definition identity_path :: "'w host_env \<Rightarrow> NativeHostConfig \<Rightarrow> string \<Rightarrow> string" where
  "identity_path he config i =
     (let root = (case nh_stateDir config of Some dir \<Rightarrow> dir | None \<Rightarrow> he_join he [he_home he, ''.config'', ''warren''])
      in he_join he [root, ''devices'', i @ ''.json''])"

definition registerAs ::
    "'w host_env \<Rightarrow> NativeHostConfig \<Rightarrow> ExtensionDevice \<Rightarrow> files \<Rightarrow> (warren_error + ProxyDeviceOptions) \<times> files" where
  "registerAs he config device fs =
     (case parseDeviceId (en_platform (he_api he)) (xd_id device) of
        Inl e \<Rightarrow> (Inl e, fs)
      | Inr i \<Rightarrow>
          (let path = identity_path he config i
           in (Inr \<lparr>pd_appVersion = xd_appVersion device, pd_platform = Some ''browser'', pd_identityPath = Some path\<rparr>,
               file_save path (encodeDeviceIdentity \<lparr>di_deviceId = i, di_name = xd_name device\<rparr>) fs)))"

text \<open>What the tunnel registers as, when the extension sent a device.\<close>

definition register_device ::
    "'w host_env \<Rightarrow> NativeHostConfig \<Rightarrow> ExtensionDevice option \<Rightarrow> files \<Rightarrow> (warren_error + ProxyDeviceOptions option) \<times> files" where
  "register_device he config device fs =
     (case device of
        None \<Rightarrow> (Inr None, fs)
      | Some d \<Rightarrow> map_prod (map_sum id Some) id (registerAs he config d fs))"

definition hostTunnelFactory ::
    "'w host_env \<Rightarrow> NativeHostConfig \<Rightarrow> (NativeProxyOptions option \<Rightarrow> string option) option \<Rightarrow> string \<Rightarrow> json option \<Rightarrow>
       ProductChannel option \<Rightarrow> ExtensionDevice option \<Rightarrow> 'w host_machine \<Rightarrow> (host_failure + native_proxy) \<times> 'w host_machine" where
  "hostTunnelFactory he config factory mnemonic daita channel device hm =
     (let base = host_base he config channel
      in case resolveServerPin he config base (hm_world hm) of
           (Inl e, w) \<Rightarrow> (Inl e, hm\<lparr>hm_world := w\<rparr>)
         | (Inr pin, w) \<Rightarrow>
             (case register_device he config device (hm_files hm) of
                (Inl e, fs) \<Rightarrow> (Inl (HostApi e), hm\<lparr>hm_world := w, hm_files := fs\<rparr>)
              | (Inr registered, fs) \<Rightarrow>
                  (case ProxyTunnel_create (he_join he) (defaultDeviceIdentityPath (he_vars he) (he_join he) (he_home he)) (he_os he)
                          (he_candidates he)
                          \<lparr>pto_mnemonic = mnemonic, pto_apiBase = base, pto_serverPubkeyPin = pin,
                           pto_knobs = no_options\<lparr>pk_daita := daita, pk_multihopRootPinHex := nonempty (nh_multihopRootPinHex config),
                             pk_stateDir := nonempty (nh_stateDir config), pk_device := registered\<rparr>,
                           pto_nativeFactory = factory\<rparr> (hm_addon hm) of
                     (r, addon) \<Rightarrow> (map_sum HostProxy id r, \<lparr>hm_world = w, hm_files = fs, hm_addon = addon\<rparr>))))"

section \<open>Questions\<close>

definition host_listExits ::
    "'w host_env \<Rightarrow> NativeHostConfig \<Rightarrow> ProductChannel option \<Rightarrow> 'w \<Rightarrow> (host_failure + (string \<times> string \<times> bool) list) \<times> 'w" where
  "host_listExits he config channel w =
     (case verified_exits he (host_base he config channel)
            (case nonempty (nh_serverPubkeyPin config) of Some pin \<Rightarrow> [pin] | None \<Rightarrow> []) w of
        (Inl e, w') \<Rightarrow> (Inl e, w')
      | (Inr v, w') \<Rightarrow> (Inr (map (\<lambda>r. (country r, city r, active r)) (relays v)), w'))"

text \<open>\<open>seedOf\<close> is \<^verbatim>\<open>seedFromMnemonic\<close>, \<open>None\<close> when it throws; the client is disposed of however the call ends.\<close>

definition host_accountStatus ::
    "'w host_env \<Rightarrow> NativeHostConfig \<Rightarrow> (string \<Rightarrow> bytes option) \<Rightarrow> string \<Rightarrow> ProductChannel option \<Rightarrow> 'w \<Rightarrow>
       (host_failure + json option) \<times> 'w" where
  "host_accountStatus he config seedOf mnemonic channel w =
     (case seedOf mnemonic of
        None \<Rightarrow> (Inl (HostApi OtherErr), w)
      | Some seed \<Rightarrow>
          (case with_client he (host_base he config channel) (Some seed) (subscription (he_api he)) w of
             (Inl e, w') \<Rightarrow> (Inl (HostApi e), w')
           | (Inr j, w') \<Rightarrow> (Inr (jget j ''expires_at''), w')))"

section \<open>The loop\<close>

definition allowed_origins :: "string option \<Rightarrow> string list" where
  "allowed_origins v = filter (\<lambda>s. s \<noteq> []) (map trim (split_on (CHR '','') (case v of Some s \<Rightarrow> s | None \<Rightarrow> [])))"

record host_process =
  hp_session :: host_session
  hp_buffer :: bytes

definition newHostProcess :: host_process where
  "newHostProcess = \<lparr>hp_session = newHostSession, hp_buffer = []\<rparr>"

text \<open>\<^verbatim>\<open>runNativeHost\<close>: \<open>None\<close> when the caller is refused.\<close>

definition runNativeHost :: "string list \<Rightarrow> (string \<Rightarrow> string option) \<Rightarrow> host_process option" where
  "runNativeHost argv env = (if callerAllowed argv (allowed_origins (env ''WARREN_ALLOWED_ORIGINS'')) then Some newHostProcess else None)"

text \<open>
  One chunk of the standard input: every request it completes is handled up to its first await, in order, and a corrupt
  frame closes the session. \<open>datapath\<close> is what \<^verbatim>\<open>datapathStatus\<close> answers then.
\<close>

definition stdin_data :: "host_options \<Rightarrow> (bytes \<Rightarrow> json option) \<Rightarrow> string option \<Rightarrow> bytes \<Rightarrow> host_process \<Rightarrow> host_process" where
  "stdin_data opts parse datapath chunk p =
     (case NativeFrameDecoder_push parse (hp_buffer p) chunk of
        (buf, Inl _) \<Rightarrow> p\<lparr>hp_buffer := buf, hp_session := teardown None (hp_session p)\<rparr>
      | (buf, Inr ms) \<Rightarrow> p\<lparr>hp_buffer := buf, hp_session := fold (handle opts datapath) ms (hp_session p)\<rparr>)"

text \<open>The end of the input and a signal both end the session.\<close>

datatype process_event =
    StdinData "string option" bytes
  | StdinEnd
  | Interrupted
  | TunnelReports string
  | PromiseSettles nat settled

fun process_step :: "host_options \<Rightarrow> (bytes \<Rightarrow> json option) \<Rightarrow> process_event \<Rightarrow> host_process \<Rightarrow> host_process option" where
  "process_step opts parse (StdinData datapath chunk) p = Some (stdin_data opts parse datapath chunk p)"
| "process_step opts parse StdinEnd p = map_option (\<lambda>s. p\<lparr>hp_session := s\<rparr>) (host_step opts CloseSession (hp_session p))"
| "process_step opts parse Interrupted p = map_option (\<lambda>s. p\<lparr>hp_session := s\<rparr>) (host_step opts CloseSession (hp_session p))"
| "process_step opts parse (TunnelReports st) p = map_option (\<lambda>s. p\<lparr>hp_session := s\<rparr>) (host_step opts (TunnelState st) (hp_session p))"
| "process_step opts parse (PromiseSettles k r) p = map_option (\<lambda>s. p\<lparr>hp_session := s\<rparr>) (host_step opts (Settle k r) (hp_session p))"

fun process_run :: "host_options \<Rightarrow> (bytes \<Rightarrow> json option) \<Rightarrow> process_event list \<Rightarrow> host_process \<Rightarrow> host_process option" where
  "process_run opts parse [] p = Some p"
| "process_run opts parse (e # es) p = Option.bind (process_step opts parse e p) (process_run opts parse es)"

section \<open>Every request reaches the session\<close>

fun chunks :: "process_event list \<Rightarrow> bytes list" where
  "chunks [] = []"
| "chunks (StdinData d chunk # es) = chunk # chunks es"
| "chunks (_ # es) = chunks es"

text \<open>The events of a process that are the session's own.\<close>

fun own_event :: "process_event \<Rightarrow> host_event option" where
  "own_event (StdinData d chunk) = None"
| "own_event StdinEnd = Some CloseSession"
| "own_event Interrupted = Some CloseSession"
| "own_event (TunnelReports st) = Some (TunnelState st)"
| "own_event (PromiseSettles k r) = Some (Settle k r)"

fun requested :: "host_event \<Rightarrow> json option" where
  "requested (Request d m) = Some m"
| "requested _ = None"

lemma host_run_append: "host_run opts (xs @ ys) s = Option.bind (host_run opts xs s) (host_run opts ys)"
  by (induction xs arbitrary: s) (auto split: bind_splits)

lemma host_run_requests: "host_run opts (map (Request d) ms) s = Some (fold (handle opts d) ms s)"
  by (induction ms arbitrary: s) simp_all

lemma process_own:
  assumes "own_event e = Some h"
  shows "process_step opts parse e p = map_option (\<lambda>s. p\<lparr>hp_session := s\<rparr>) (host_step opts h (hp_session p))" "requested h = None"
    "chunks (e # es) = chunks es"
  using assms by (cases e; auto)+

lemma process_schedule:
  assumes "push_all (NativeFrameDecoder_push parse) (hp_buffer p) (chunks es) = (buf, Inr ms)" "process_run opts parse es p = Some p'"
  shows "\<exists>hs. host_run opts hs (hp_session p) = Some (hp_session p') \<and> hp_buffer p' = buf \<and> List.map_filter requested hs = ms \<and>
    filter (\<lambda>h. requested h = None) hs = List.map_filter own_event es"
  using assms
proof (induction es arbitrary: p ms)
  case Nil
  then show ?case by (auto intro!: exI [of _ "[]"] simp: map_filter_simps)
next
  case (Cons e es)
  show ?case
  proof (cases "own_event e")
    case (Some h)
    note own = process_own [OF Some]
    obtain s where s: "host_step opts h (hp_session p) = Some s" "process_run opts parse es (p\<lparr>hp_session := s\<rparr>) = Some p'"
      using Cons.prems(2) own(1) by (auto simp: bind_eq_Some_conv)
    obtain hs where "host_run opts hs s = Some (hp_session p')" "hp_buffer p' = buf" "List.map_filter requested hs = ms"
      "filter (\<lambda>h. requested h = None) hs = List.map_filter own_event es"
      using Cons.IH [OF _ s(2), of ms] Cons.prems(1) own(3) by auto
    then show ?thesis using s(1) own(2) Some by (intro exI [of _ "h # hs"]) (simp add: map_filter_simps)
  next
    case None
    then obtain d chunk where e: "e = StdinData d chunk" by (cases e) auto
    obtain b1 ms1 where push: "NativeFrameDecoder_push parse (hp_buffer p) chunk = (b1, Inr ms1)"
      using Cons.prems(1) e by (auto split: prod.splits sum.splits)
    obtain ms2 where rest: "push_all (NativeFrameDecoder_push parse) b1 (chunks es) = (buf, Inr ms2)" "ms = ms1 @ ms2"
      using Cons.prems(1) e push by (auto split: prod.splits simp: bindR_eq_Inr_conv)
    let ?p = "p\<lparr>hp_buffer := b1, hp_session := fold (handle opts d) ms1 (hp_session p)\<rparr>"
    have "process_run opts parse es ?p = Some p'" using Cons.prems(2) e push by (simp add: stdin_data_def)
    then obtain hs where hs: "host_run opts hs (fold (handle opts d) ms1 (hp_session p)) = Some (hp_session p')" "hp_buffer p' = buf"
      "List.map_filter requested hs = ms2" "filter (\<lambda>h. requested h = None) hs = List.map_filter own_event es"
      using Cons.IH [of ?p ms2] rest(1) by auto
    have "List.map_filter requested (map (Request d) ms1) = ms1" by (induction ms1) (simp_all add: map_filter_simps)
    moreover have "List.map_filter requested (xs @ ys) = List.map_filter requested xs @ List.map_filter requested ys" for xs ys
      by (simp add: List.map_filter_def)
    ultimately show ?thesis
      using hs rest(2) e
      by (intro exI [of _ "map (Request d) ms1 @ hs"]) (simp add: host_run_append host_run_requests map_filter_simps filter_map o_def)
  qed
qed

text \<open>
  C3. Every request the extension writes reaches the session once and in order: however the framed requests are cut into
  chunks, and whatever promises settle and tunnels report between the chunks, the session ends as after a run whose
  requests are exactly those written and whose other events are exactly those that happened, in their order, and no byte
  stays behind.
\<close>

theorem host_stdin_delivers:
  assumes "list_all (\<lambda>m. parse (utf8ToBytes (stringify m)) = Some m) ms" "mapR encodeNativeFrame ms = Inr frames"
    and "concat (chunks es) = concat frames" "process_run opts parse es newHostProcess = Some p"
  shows "\<exists>hs. host_run opts hs newHostSession = Some (hp_session p) \<and> hp_buffer p = [] \<and> List.map_filter requested hs = ms \<and>
    filter (\<lambda>h. requested h = None) hs = List.map_filter own_event es"
proof -
  have "push_all (NativeFrameDecoder_push parse) [] (chunks es) = ([], Inr ms)"
    using native_stream_whole [OF _ assms(2,3)] assms(1) by (simp add: list_all_iff)
  then show ?thesis using process_schedule [of parse newHostProcess es "[]" ms opts p] assms(4) by (simp add: newHostProcess_def)
qed

theorem host_stdin_delivers_witness:
  "\<exists>hs s. host_run \<lparr>ho_platform = sample_token_platform, ho_listExits = True, ho_accountStatus = True\<rparr> hs newHostSession = Some s \<and>
     List.map_filter requested hs = [JArr []] \<and> filter (\<lambda>h. requested h = None) hs = [TunnelState ''connected'']"
proof -
  let ?es = "[StdinData None [2], TunnelReports ''connected'', StdinData None [0, 0, 0, 0x5B, 0x5D]]"
  let ?opts = "\<lparr>ho_platform = sample_token_platform, ho_listExits = True, ho_accountStatus = True\<rparr>"
  have frames: "mapR encodeNativeFrame [JArr []] = Inr [[2, 0, 0, 0, 0x5B, 0x5D]]"
    by (simp add: encodeNativeFrame_def MAX_NATIVE_FRAME_BYTES_def writeUInt32LE_def writeUInt32BE_def utf8ToBytes_def)
  obtain p where p: "process_run ?opts (\<lambda>bs. json_read (utf8Decode bs)) ?es newHostProcess = Some p" by simp
  have "List.map_filter own_event ?es = [TunnelState ''connected'']" by (simp add: map_filter_simps)
  with host_stdin_delivers [OF _ frames _ p] show ?thesis by (auto simp: json_read_stringify simp del: stringify.simps process_run.simps)
qed

section \<open>What a tunnel is built with\<close>

text \<open>
  C22. A tunnel of the host is pinned and registered: whatever the process asked of the addon before (the status its hello
  reports, other tunnels), a tunnel built without an injected factory is built by a matching addon, the one already loaded
  when there is one, for the API of the configuration, else of the extension's channel, with the configured pin, else the
  key that signed a relay list that verifies, which the API answered; and the device the extension sent is the one the
  tunnel registers as, kept under its path.
\<close>

theorem host_tunnel_pinned:
  assumes "hostTunnelFactory he config None mnemonic daita channel device hm = (Inr t, hm')"
    and "proxy_uses joinPath dflt os earlier None = (outcomes, hm_addon hm)"
    and "device_laws (en_platform (he_api he))"
  shows "\<exists>b pin opts. t = FromAddon b mnemonic (host_base he config channel) pin opts \<and> nb_abi b = Reported (JInt NATIVE_BINDING_ABI) \<and>
    hm_addon hm' = Some b \<and> (\<forall>loaded. hm_addon hm = Some loaded \<longrightarrow> b = loaded) \<and>
    (case nonempty (nh_serverPubkeyPin config) of
       Some configured \<Rightarrow> pin = configured
     | None \<Rightarrow> \<exists>doc v. fst (with_client he (host_base he config channel) None (exits (he_api he)) (hm_world hm)) = Inr doc \<and>
         verifySignedRelayList (platform.truncate (en_platform (he_api he))) doc [] = Inr v \<and> pin = serverPubkeyHex v) \<and>
    (\<forall>d. device = Some d \<longrightarrow> xd_name d \<noteq> [] \<longrightarrow>
      (\<exists>o'. opts = Some o' \<and> no_device o' = Some \<lparr>nd_identityPath = identity_path he config (xd_id d), nd_platform = ''browser'',
          nd_appVersion = xd_appVersion d\<rparr>) \<and>
      readKept (en_platform (he_api he)) (file_load (identity_path he config (xd_id d)) (hm_files hm')) =
        Some \<lparr>di_deviceId = xd_id d, di_name = xd_name d\<rparr>)"
proof -
  let ?base = "host_base he config channel"
  obtain pin w where pin: "resolveServerPin he config ?base (hm_world hm) = (Inr pin, w)"
    using assms(1) by (auto simp: hostTunnelFactory_def Let_def split: prod.splits sum.splits)
  obtain reg fs where reg: "register_device he config device (hm_files hm) = (Inr reg, fs)"
    using assms(1) pin by (auto simp: hostTunnelFactory_def Let_def split: prod.splits sum.splits)
  let ?knobs = "no_options\<lparr>pk_daita := daita, pk_multihopRootPinHex := nonempty (nh_multihopRootPinHex config),
                  pk_stateDir := nonempty (nh_stateDir config), pk_device := reg\<rparr>"
  let ?native = "nativeProxyOptions (he_join he) (defaultDeviceIdentityPath (he_vars he) (he_join he) (he_home he)) (he_os he) ?knobs"
  have cached: "\<forall>b. hm_addon hm = Some b \<longrightarrow> matching b" using proxy_uses_cached [of joinPath dflt os earlier None] assms(2) by auto
  obtain b where b: "loadNative (he_candidates he) (hm_addon hm) = (Inr b, Some b)" "matching b"
    and t: "t = FromAddon b mnemonic ?base pin ?native" "hm_files hm' = fs" "hm_addon hm' = Some b"
    by (rule loadNative_cases [OF cached, of "he_candidates he"])
      (use assms(1) pin reg in \<open>auto simp: hostTunnelFactory_def ProxyTunnel_create_def Let_def split: option.splits\<close>)
  from b(1) have "\<forall>loaded. hm_addon hm = Some loaded \<longrightarrow> b = loaded" by auto
  moreover have "case nonempty (nh_serverPubkeyPin config) of
       Some configured \<Rightarrow> pin = configured
     | None \<Rightarrow> \<exists>doc v. fst (with_client he ?base None (exits (he_api he)) (hm_world hm)) = Inr doc \<and>
         verifySignedRelayList (platform.truncate (en_platform (he_api he))) doc [] = Inr v \<and> pin = serverPubkeyHex v"
    using pin by (auto simp: resolveServerPin_def verified_exits_def split: option.splits prod.splits sum.splits)
  moreover have "(\<exists>o'. ?native = Some o' \<and> no_device o' = Some \<lparr>nd_identityPath = identity_path he config (xd_id d),
        nd_platform = ''browser'', nd_appVersion = xd_appVersion d\<rparr>) \<and>
      readKept (en_platform (he_api he)) (file_load (identity_path he config (xd_id d)) fs) = Some \<lparr>di_deviceId = xd_id d, di_name = xd_name d\<rparr>"
    if d: "device = Some d" "xd_name d \<noteq> []" for d
  proof -
    have i: "parseDeviceId (en_platform (he_api he)) (xd_id d) = Inr (xd_id d)"
      using reg d(1) by (auto simp: register_device_def registerAs_def parseDeviceId_def Let_def split: option.splits if_splits sum.splits)
    then have r: "reg = Some \<lparr>pd_appVersion = xd_appVersion d, pd_platform = Some ''browser'',
        pd_identityPath = Some (identity_path he config (xd_id d))\<rparr>"
      and f: "fs = file_save (identity_path he config (xd_id d)) (encodeDeviceIdentity \<lparr>di_deviceId = xd_id d, di_name = xd_name d\<rparr>) (hm_files hm)"
      using reg d(1) by (auto simp: register_device_def registerAs_def Let_def)
    have "readKept (en_platform (he_api he)) (file_load (identity_path he config (xd_id d)) fs) = Some \<lparr>di_deviceId = xd_id d, di_name = xd_name d\<rparr>"
      using parse_encoded [OF assms(3), of "\<lparr>di_deviceId = xd_id d, di_name = xd_name d\<rparr>"] i d(2)
      by (simp add: f readKept_def file_store.load_save)
    moreover have "\<exists>o'. ?native = Some o' \<and> no_device o' = Some \<lparr>nd_identityPath = identity_path he config (xd_id d),
        nd_platform = ''browser'', nd_appVersion = xd_appVersion d\<rparr>"
      by (simp add: r nativeProxyOptions_def Let_def)
    ultimately show ?thesis by blast
  qed
  ultimately show ?thesis using b(2) t by (auto simp: matching_def)
qed

section \<open>One file per install\<close>

text \<open>What \<^verbatim>\<open>join\<close> does with a plain last name, and the alphabet of base64url.\<close>

definition path_laws :: "(string list \<Rightarrow> string) \<Rightarrow> bool" where
  "path_laws joinPath \<longleftrightarrow> (\<forall>root sub. \<exists>dir. \<forall>n. CHR ''/'' \<notin> set n \<longrightarrow> joinPath [root, sub, n] = dir @ ''/'' @ n)"

definition b64_alphabet :: "token_platform \<Rightarrow> bool" where
  "b64_alphabet pf \<longleftrightarrow> (\<forall>s bs. tp_b64Decode pf s = Some bs \<longrightarrow> CHR ''/'' \<notin> set s)"

lemma identity_path_plain:
  assumes "path_laws (he_join he)"
  obtains dir where "\<And>i. CHR ''/'' \<notin> set i \<Longrightarrow> identity_path he config i = dir @ ''/'' @ i @ ''.json''"
proof -
  let ?root = "case nh_stateDir config of Some dir \<Rightarrow> dir | None \<Rightarrow> he_join he [he_home he, ''.config'', ''warren'']"
  obtain dir where dir: "\<And>n. CHR ''/'' \<notin> set n \<Longrightarrow> he_join he [?root, ''devices'', n] = dir @ ''/'' @ n"
    using assms unfolding path_laws_def by blast
  show thesis
  proof (rule that [of dir])
    show "identity_path he config i = dir @ ''/'' @ i @ ''.json''" if "CHR ''/'' \<notin> set i" for i
      using dir [of "i @ ''.json''"] that by (simp add: identity_path_def Let_def)
  qed
qed

text \<open>
  Every browser of a machine registers as its own install: the identity one host kept for its device is still the one
  read there after another host, over the same configuration, registered another device.
\<close>

theorem host_devices_separate:
  assumes "path_laws (he_join he)" "b64_alphabet (en_platform (he_api he))" "device_laws (en_platform (he_api he))"
    and "registerAs he config d fs = (Inr o1, fs1)" "registerAs he config e fs1 = (Inr o2, fs2)"
    and "xd_id d \<noteq> xd_id e" "xd_name d \<noteq> []"
  shows "pd_identityPath o1 \<noteq> pd_identityPath o2 \<and>
    (\<exists>path. pd_identityPath o1 = Some path \<and>
      readKept (en_platform (he_api he)) (file_load path fs2) = Some \<lparr>di_deviceId = xd_id d, di_name = xd_name d\<rparr>)"
proof -
  let ?pf = "en_platform (he_api he)" and ?p = "\<lambda>x. identity_path he config (xd_id x)"
  have ids: "parseDeviceId ?pf (xd_id x) = Inr (xd_id x)" "o' = \<lparr>pd_appVersion = xd_appVersion x, pd_platform = Some ''browser'', pd_identityPath = Some (?p x)\<rparr>"
      "fs'' = file_save (?p x) (encodeDeviceIdentity \<lparr>di_deviceId = xd_id x, di_name = xd_name x\<rparr>) fs'" "CHR ''/'' \<notin> set (xd_id x)"
    if "registerAs he config x fs' = (Inr o', fs'')" for x fs' o' fs''
    using that assms(2)
    by (auto simp: registerAs_def parseDeviceId_def Let_def b64_alphabet_def split: option.splits if_splits)
  note d = ids [OF assms(4)] and e = ids [OF assms(5)]
  obtain dir where dir: "\<And>i. CHR ''/'' \<notin> set i \<Longrightarrow> identity_path he config i = dir @ ''/'' @ i @ ''.json''"
    using identity_path_plain [OF assms(1)] by metis
  have ne: "?p d \<noteq> ?p e" using dir [OF d(4)] dir [OF e(4)] assms(6) by simp
  have "last (?p d) \<noteq> last (?p e @ ''.partial'')" using dir [OF d(4)] by simp
  then have "?p d \<noteq> ?p e @ ''.partial''" by metis
  with ne have "file_load (?p d) fs2 = file_load (?p d) fs1"
    by (auto simp: e(3) file_load_def file_save_def device_save_states_def)
  also have "\<dots> = Some (encodeDeviceIdentity \<lparr>di_deviceId = xd_id d, di_name = xd_name d\<rparr>)"
    by (simp add: d(3) file_store.load_save)
  finally show ?thesis
    using ne parse_encoded [OF assms(3), of "\<lparr>di_deviceId = xd_id d, di_name = xd_name d\<rparr>"] d(1,2) e(2) assms(7) by (simp add: readKept_def)
qed

section \<open>A sample machine\<close>

definition sample_host_env :: "unit host_env" where
  "sample_host_env = \<lparr>
     he_api = \<lparr>en_send = (\<lambda>rq w. (Inl OtherRejection, w)), en_now = (\<lambda>w. (0, w)), en_nonce = (\<lambda>w. ([], w)), en_dateParse = (\<lambda>_. None),
       en_urlWithHost = (\<lambda>b h. None), en_platform = sample_token_platform\<lparr>tp_b64Encode := hex_encode, tp_b64Decode := hex_decode\<rparr>\<rparr>,
     he_channel = Prod, he_join = join ''/'', he_home = ''/home/w'', he_vars = (\<lambda>_. None), he_os = ''linux'',
     he_candidates = [None, Some (Addon sample_addon)]\<rparr>"

definition sample_host_config :: NativeHostConfig where
  "sample_host_config = \<lparr>nh_apiBase = None, nh_serverPubkeyPin = Some ''ab'', nh_multihopRootPinHex = None, nh_stateDir = Some ''/state''\<rparr>"

definition sample_device :: "byte \<Rightarrow> ExtensionDevice" where
  "sample_device b = \<lparr>xd_id = hex_encode (replicate 16 b), xd_name = ''otter'', xd_appVersion = ''1.0''\<rparr>"

lemma hex_decode_plain: "hex_decode s = Some bs \<Longrightarrow> CHR ''/'' \<notin> set s"
proof (induction s arbitrary: bs rule: hex_decode.induct)
  case (3 h l r)
  then obtain a b cs where "hex_value h = Some a" "hex_value l = Some b" "hex_decode r = Some cs" by (auto split: option.splits)
  with 3 show ?case by (auto simp: hex_value_def)
qed simp_all

lemma sample_host_platform [simp]:
  "en_platform (he_api sample_host_env) = sample_token_platform\<lparr>tp_b64Encode := hex_encode, tp_b64Decode := hex_decode\<rparr>"
  by (simp add: sample_host_env_def)

lemma sample_host_laws:
  "device_laws (en_platform (he_api sample_host_env))" "b64_alphabet (en_platform (he_api sample_host_env))" "path_laws (he_join sample_host_env)"
proof -
  have "he_join sample_host_env [root, sub, n] = (root @ ''/'' @ sub) @ ''/'' @ n" for root sub n by (simp add: sample_host_env_def)
  then show "path_laws (he_join sample_host_env)" unfolding path_laws_def by blast
qed (auto simp: device_laws_def json_read_stringify b64_alphabet_def dest: hex_decode_plain)

lemma sample_registers:
  "registerAs sample_host_env sample_host_config (sample_device b) fs =
     (Inr \<lparr>pd_appVersion = ''1.0'', pd_platform = Some ''browser'',
        pd_identityPath = Some (identity_path sample_host_env sample_host_config (hex_encode (replicate 16 b)))\<rparr>,
      file_save (identity_path sample_host_env sample_host_config (hex_encode (replicate 16 b)))
        (encodeDeviceIdentity \<lparr>di_deviceId = hex_encode (replicate 16 b), di_name = ''otter''\<rparr>) fs)"
  by (simp add: registerAs_def sample_device_def parseDeviceId_def DEVICE_ID_LEN_def Let_def del: hex_encode.simps replicate.simps)

theorem host_devices_separate_witness:
  "let fs1 = snd (registerAs sample_host_env sample_host_config (sample_device 1) (\<lambda>_. None));
       fs2 = snd (registerAs sample_host_env sample_host_config (sample_device 2) fs1) in
   \<exists>path. readKept (en_platform (he_api sample_host_env)) (file_load path fs2) =
     Some \<lparr>di_deviceId = hex_encode (replicate 16 1), di_name = ''otter''\<rparr>"
proof -
  have "hex_decode (hex_encode (replicate 16 1)) \<noteq> hex_decode (hex_encode (replicate 16 2))"
    unfolding hex_decode_encode by (simp add: numeral_eq_Suc)
  then have "xd_id (sample_device 1) \<noteq> xd_id (sample_device 2)" "xd_name (sample_device 1) \<noteq> []"
    by (auto simp: sample_device_def simp del: hex_decode_encode hex_encode.simps)
  from host_devices_separate [OF sample_host_laws(3,2,1) sample_registers sample_registers this, where fs = "\<lambda>_. None"]
  have "\<exists>path. readKept (en_platform (he_api sample_host_env)) (file_load path
      (snd (registerAs sample_host_env sample_host_config (sample_device 2) (snd (registerAs sample_host_env sample_host_config (sample_device 1) (\<lambda>_. None)))))) =
      Some \<lparr>di_deviceId = xd_id (sample_device 1), di_name = xd_name (sample_device 1)\<rparr>"
    unfolding sample_registers snd_conv by blast
  then show ?thesis by (simp only: Let_def) (simp only: sample_device_def ExtensionDevice.select_convs)
qed

text \<open>The addon was loaded for the hello, and its file is gone when the tunnel is built.\<close>

theorem host_tunnel_pinned_witness:
  "\<exists>t hm'. hostTunnelFactory (sample_host_env\<lparr>he_candidates := []\<rparr>) sample_host_config None ''art'' None (Some Beta) (Some (sample_device 1))
      \<lparr>hm_world = (), hm_files = (\<lambda>_. None), hm_addon = snd (proxyDatapathStatus (he_candidates sample_host_env) None)\<rparr> = (Inr t, hm') \<and>
    (\<exists>opts. t = FromAddon sample_addon ''art'' ''https://api.beta.warrenbrowse.com'' ''ab'' opts)"
proof -
  let ?he = "sample_host_env\<lparr>he_candidates := []\<rparr>"
  let ?hm = "\<lparr>hm_world = (), hm_files = (\<lambda>_. None), hm_addon = Some sample_addon\<rparr> :: unit host_machine"
  have pin: "resolveServerPin ?he sample_host_config base w = (Inr ''ab'', w)" for base w
    by (simp add: resolveServerPin_def sample_host_config_def nonempty_def)
  have hello: "proxyDatapathStatus (he_candidates sample_host_env) None = (DatapathReady, Some sample_addon)"
    by (simp add: sample_host_env_def proxyDatapathStatus_def loadNative_def nativeBindingStatus_def sample_addon_def NATIVE_BINDING_ABI_def)
  have new: "nb_new sample_addon ''art'' a p opts = None" for a p opts by (simp add: sample_addon_def)
  have path: "identity_path ?he config i = identity_path sample_host_env config i" for config i by (simp add: identity_path_def split: option.split)
  have reg: "registerAs ?he config d fs = registerAs sample_host_env config d fs" for config d fs by (simp add: registerAs_def path split: sum.split)
  obtain t hm' where run: "hostTunnelFactory ?he sample_host_config None ''art'' None (Some Beta) (Some (sample_device 1)) ?hm = (Inr t, hm')"
    by (simp add: hostTunnelFactory_def Let_def pin register_device_def reg sample_registers ProxyTunnel_create_def new)
  have uses: "proxy_uses concat [] [] [UseStatus (he_candidates sample_host_env)] None = ([StatusIs DatapathReady], hm_addon ?hm)"
    by (simp add: proxy_use_step_def hello)
  have "host_base ?he sample_host_config (Some Beta) = ''https://api.beta.warrenbrowse.com''"
    by (simp add: host_base_def hostApiBase_def sample_host_config_def nonempty_def)
  moreover have "nonempty (nh_serverPubkeyPin sample_host_config) = Some ''ab''" by (simp add: sample_host_config_def nonempty_def)
  moreover have "device_laws (en_platform (he_api ?he))" using sample_host_laws(1) by simp
  ultimately show ?thesis using host_tunnel_pinned [OF run uses] run hello by auto
qed

end
