(* ===== verification/Host_Link.thy ===== *)
theory Host_Link
  imports Vpn_Runs Host_Process "HOL-Library.Sublist"
begin

text \<open>
  The extension and its native host together: the client of \<^verbatim>\<open>extension/src/client.ts\<close> posts requests on a port, the browser
  hands them to the session of \<^verbatim>\<open>extension/src/host/session.ts\<close>, and the messages the session sends come back to the client.
  The two transition systems run side by side, with the messages of either side delivered in order.
\<close>

section \<open>Messages as they are written\<close>

definition endpoints_json :: "ExtensionEndpoints \<Rightarrow> json" where
  "endpoints_json ep = JObj ((''socks5'', JStr (ep_socks5 ep)) # opt_prop ''http'' JStr (ep_http ep))"

definition tunnel_exit_json :: "ExtensionTunnelExit \<Rightarrow> json" where
  "tunnel_exit_json x = JObj [(''country'', JStr (tx_country x)), (''city'', JStr (tx_city x))]"

definition answer_json :: "json \<Rightarrow> string \<Rightarrow> (string \<times> json) list \<Rightarrow> json" where
  "answer_json i kind props = JObj ([(''id'', i), (''ok'', JBool True), (''type'', JStr kind)] @ props)"

fun host_message_json :: "HostMessage \<Rightarrow> json" where
  "host_message_json (HelloOk i datapath) =
     answer_json i ''hello'' ((''protocol'', JInt EXTENSION_PROTOCOL_VERSION) # opt_prop ''datapath'' JStr datapath)"
| "host_message_json (StatusOk i st endpoints exit) =
     answer_json i ''status'' ((''state'', JStr st) # opt_prop ''endpoints'' endpoints_json endpoints @ opt_prop ''exit'' tunnel_exit_json exit)"
| "host_message_json (ConnectOk i endpoints auth exit) =
     answer_json i ''connect'' ([(''endpoints'', endpoints_json endpoints),
       (''auth'', JObj [(''username'', JStr (xa_username auth)), (''password'', JStr (xa_password auth))])] @ opt_prop ''exit'' tunnel_exit_json exit)"
| "host_message_json (DisconnectOk i) = answer_json i ''disconnect'' []"
| "host_message_json (ExitsOk i locations) =
     answer_json i ''exits'' [(''locations'', JArr (map (\<lambda>(co, ci, act). JObj [(''country'', JStr co), (''city'', JStr ci), (''active'', JBool act)]) locations))]"
| "host_message_json (AccountOk i expiry) = answer_json i ''account'' [(''expiresAt'', expiry)]"
| "host_message_json (Failed i code message) =
     JObj [(''id'', i), (''ok'', JBool False), (''code'', JStr code), (''message'', JStr message)]"
| "host_message_json (StateEvent st) = JObj [(''type'', JStr ''state''), (''state'', JStr st)]"

fun message_ok :: "HostMessage \<Rightarrow> bool" where
  "message_ok (Failed i c m) = False"
| "message_ok _ = True"

lemma answers_parse:
  "message_ids m = [i] \<Longrightarrow> is_number i \<Longrightarrow>
     parseHostMessage (host_message_json m) = Some (ParsedResponse i (message_ok m) (host_message_json m))"
  by (cases m) (auto simp: parseHostMessage_def answer_json_def)

lemma states_parse: "message_ids m = [] \<Longrightarrow> \<exists>st. m = StateEvent st \<and> parseHostMessage (host_message_json m) = Some (ParsedState (JStr st))"
  by (cases m) (auto simp: parseHostMessage_def)

section \<open>Requests are numbered\<close>

definition numbered :: "(nat option \<times> json) list \<Rightarrow> vpn \<Rightarrow> bool" where
  "numbered ps s \<longleftrightarrow> prefix ps (vp_posted s) \<and> map (\<lambda>p. jget (snd p) ''id'') (vp_posted s) = map (\<lambda>i. Some (JInt (int i))) [1..<vp_nextId s] \<and> 1 \<le> vp_nextId s"

lemma numbered_post [simp]: "numbered ps s \<Longrightarrow> numbered ps (post w body s)"
  by (auto simp: numbered_def post_def prefix_append)

lemma numbered_frame [simp]:
  "numbered ps (await c s) = numbered ps s" "numbered ps (result r s) = numbered ps s" "numbered ps (closePort s) = numbered ps s"
  "numbered ps (reject_pending s) = numbered ps s" "numbered ps (removeOnRequestHandler s) = numbered ps s"
  "numbered ps (set_settings out v s) = numbered ps s" "numbered ps (forget_waiter s) = numbered ps s"
  by (auto simp: numbered_def await_def result_def closePort_def reject_pending_def removeOnRequestHandler_def set_settings_def
      forget_waiter_def split: option.split)

text \<open>A state that agrees on what was posted and on the next number.\<close>

lemma numbered_cong: "vp_posted s' = vp_posted s \<Longrightarrow> vp_nextId s' = vp_nextId s \<Longrightarrow> numbered ps s' = numbered ps s"
  by (simp add: numbered_def)

lemma numbered_new: "numbered [] newVpn"
  by (simp add: numbered_def newVpn_def)

lemma numbered_update [simp]:
  "numbered ps (s\<lparr>vp_port := x0\<rparr>) = numbered ps s" "numbered ps (s\<lparr>vp_portDead := x1\<rparr>) = numbered ps s"
  "numbered ps (s\<lparr>vp_handshake := x2\<rparr>) = numbered ps s" "numbered ps (s\<lparr>vp_hellos := x3\<rparr>) = numbered ps s"
  "numbered ps (s\<lparr>vp_proxied := x4\<rparr>) = numbered ps s" "numbered ps (s\<lparr>vp_tunnelUp := x5\<rparr>) = numbered ps s"
  "numbered ps (s\<lparr>vp_endpoints := x6\<rparr>) = numbered ps s" "numbered ps (s\<lparr>vp_auth := x7\<rparr>) = numbered ps s"
  "numbered ps (s\<lparr>vp_exit := x8\<rparr>) = numbered ps s" "numbered ps (s\<lparr>vp_connecting := x9\<rparr>) = numbered ps s"
  "numbered ps (s\<lparr>vp_questions := x10\<rparr>) = numbered ps s" "numbered ps (s\<lparr>vp_releasing := x11\<rparr>) = numbered ps s"
  "numbered ps (s\<lparr>vp_handler := x12\<rparr>) = numbered ps s" "numbered ps (s\<lparr>vp_pending := x13\<rparr>) = numbered ps s"
  "numbered ps (s\<lparr>vp_calls := x14\<rparr>) = numbered ps s" "numbered ps (s\<lparr>vp_opened := x15\<rparr>) = numbered ps s"
  "numbered ps (s\<lparr>vp_registered := x16\<rparr>) = numbered ps s" "numbered ps (s\<lparr>vp_states := x17\<rparr>) = numbered ps s"
  "numbered ps (s\<lparr>vp_hostLost := x18\<rparr>) = numbered ps s" "numbered ps (s\<lparr>vp_results := x19\<rparr>) = numbered ps s"
  "numbered ps (s\<lparr>br_settings := x20\<rparr>) = numbered ps s" "numbered ps (s\<lparr>br_handlers := x21\<rparr>) = numbered ps s"
  "numbered ps (s\<lparr>br_leaksClosed := x22\<rparr>) = numbered ps s"
  by (rule numbered_cong; simp)+

lemma numbered_ends [simp]:
  "numbered ps (connect_start opts s) = numbered ps s" "numbered ps (connect_end v e s) = numbered ps s"
  "numbered ps (question_done r s) = numbered ps s" "numbered ps (start_clearing s) = numbered ps s" "numbered ps (release_host s) = numbered ps s"
  "numbered ps (hello_rejected n e s) = numbered ps s"
  by (simp_all add: connect_start_def connect_end_def question_done_def start_clearing_def release_host_def hello_rejected_def Let_def)

lemma numbered_connect [simp]:
  "numbered ps (connect_failed v e s) = numbered ps s" "numbered ps (reconnect_released opts s) = numbered ps s" "numbered ps (restore_done a b v e s) = numbered ps s"
  by (simp_all add: connect_failed_def reconnect_released_def restore_done_def Let_def)

lemma numbered_failed [simp]: "numbered ps (request_failed k e s) = numbered ps s" "numbered ps (connect_answered v res s) = numbered ps s"
  by (cases k; simp) (simp add: connect_answered_def)

lemma numbered_openPort [simp]: "openPort env s = Inr s' \<Longrightarrow> numbered ps s' = numbered ps s"
  by (auto simp: openPort_def split: if_splits)

lemma numbered_after_hello [simp]: "numbered ps s \<Longrightarrow> numbered ps (after_hello env k d s)"
  by (auto simp: after_hello_def split: sum.split)

lemma numbered_request_host [simp]: "numbered ps s \<Longrightarrow> numbered ps (request_host env k s)"
  by (auto simp: request_host_def hello_def split: sum.split option.split)

lemma numbered_applyProxy [simp]: "applyProxy env endpoints split s = (r, s') \<Longrightarrow> numbered ps s' = numbered ps s"
  by (auto simp: applyProxy_def registerFirefoxOnRequest_def Let_def split: ExtensionPlatform.splits option.splits)

lemma numbered_hello_answered [simp]: "numbered ps s \<Longrightarrow> numbered ps (hello_answered env n ok res s)"
proof -
  have "numbered ps s \<Longrightarrow> numbered ps (fold (\<lambda>k. after_hello env k d) ks s)" for d ks s
    by (induction ks arbitrary: s) simp_all
  then show "numbered ps s \<Longrightarrow> ?thesis" by (simp add: hello_answered_def hello_accepted_def)
qed

lemma numbered_request_answered [simp]: "numbered ps s \<Longrightarrow> numbered ps (request_answered k res s)"
  by (cases k) simp_all

lemma numbered_onMessage [simp]: "numbered ps s \<Longrightarrow> numbered ps (onMessage env raw s)"
  by (auto simp: onMessage_def Let_def split: option.split parsed_message.split waiter.split)

lemma numbered_starts [simp]:
  "numbered ps s \<Longrightarrow> numbered ps (reconnect_start env opts s)" "numbered ps s \<Longrightarrow> numbered ps (disconnect_start env s)"
  "numbered ps s \<Longrightarrow> numbered ps (applySplit_start env split s)" "numbered ps s \<Longrightarrow> numbered ps (ask env q s)" "numbered ps s \<Longrightarrow> numbered ps (port_lost env s)"
  by (auto simp: reconnect_start_def reconnect_release_def disconnect_start_def applySplit_start_def ask_def port_lost_def Let_def
      split: option.split sum.split prod.split)

lemma numbered_settle: "settle_call env out level b incognito c s = Some s' \<Longrightarrow> numbered ps s \<Longrightarrow> numbered ps s'"
  by (cases "(env, out, level, b, incognito, c, s)" rule: settle_call.cases)
    (auto simp: preflight_done_def hardened_done_def routing_done_def clearing_done_def lockdown_done_def reconnect_release_def
      split_done_def Let_def split: option.splits sum.splits prod.splits if_splits)

lemma numbered_step: "vpn_step env e s = Some s' \<Longrightarrow> numbered ps s \<Longrightarrow> numbered ps s'"
  by (cases e) (auto split: if_splits list.splits intro: numbered_settle)

lemma numbered_run: "vpn_run env es s = Some s' \<Longrightarrow> numbered ps s \<Longrightarrow> numbered ps s'"
  by (induction es arbitrary: s) (auto simp: bind_eq_Some_conv dest: numbered_step)

section \<open>The two sides\<close>

text \<open>
  A port \<open>n\<close> and the host behind it: the client, the session, and how many of the messages posted on the port and of those
  the session sent have been delivered. What another port's host says reaches the client as an event of its own.
\<close>

record link =
  ln_vpn :: vpn
  ln_host :: host_session
  ln_up :: nat
  ln_down :: nat

definition new_link :: link where
  "new_link = \<lparr>ln_vpn = newVpn, ln_host = newHostSession, ln_up = 0, ln_down = 0\<rparr>"

definition port_posted :: "nat \<Rightarrow> vpn \<Rightarrow> json list" where
  "port_posted n s = map snd (filter (\<lambda>p. fst p = Some n) (vp_posted s))"

datatype link_event = Extension vpn_event | HostDoes host_event | Upward "string option" | Downward

fun link_step :: "vpn_env \<Rightarrow> host_options \<Rightarrow> nat \<Rightarrow> link_event \<Rightarrow> link \<Rightarrow> link option" where
  "link_step env opts n (Extension e) l = map_option (\<lambda>v. l\<lparr>ln_vpn := v\<rparr>) (vpn_step env e (ln_vpn l))"
| "link_step env opts n (HostDoes e) l =
     (if requested e \<noteq> None then None else map_option (\<lambda>h. l\<lparr>ln_host := h\<rparr>) (host_step opts e (ln_host l)))"
| "link_step env opts n (Upward datapath) l =
     (if ln_up l < length (port_posted n (ln_vpn l))
      then Some (l\<lparr>ln_host := handle opts datapath (port_posted n (ln_vpn l) ! ln_up l) (ln_host l), ln_up := Suc (ln_up l)\<rparr>) else None)"
| "link_step env opts n Downward l =
     (if ln_down l < length (hs_sent (ln_host l)) \<and> vp_port (ln_vpn l) = Some n
      then map_option (\<lambda>v. l\<lparr>ln_vpn := v, ln_down := Suc (ln_down l)\<rparr>)
        (vpn_step env (FromHost (host_message_json (hs_sent (ln_host l) ! ln_down l))) (ln_vpn l))
      else None)"

fun link_run :: "vpn_env \<Rightarrow> host_options \<Rightarrow> nat \<Rightarrow> link_event list \<Rightarrow> link \<Rightarrow> link option" where
  "link_run env opts n [] l = Some l"
| "link_run env opts n (e # es) l = Option.bind (link_step env opts n e l) (link_run env opts n es)"

definition posted_ids :: "json list \<Rightarrow> json list" where
  "posted_ids ms = map (\<lambda>m. the (jget m ''id'')) ms"

text \<open>The session is where it would be had it been handed the first messages of the port as requests.\<close>

definition link_inv :: "host_options \<Rightarrow> nat \<Rightarrow> link \<Rightarrow> bool" where
  "link_inv opts n l \<longleftrightarrow>
     numbered [] (ln_vpn l) \<and> ln_up l \<le> length (port_posted n (ln_vpn l)) \<and>
     (\<exists>hs. host_run opts hs newHostSession = Some (ln_host l) \<and>
       concat (map asked hs) = posted_ids (take (ln_up l) (port_posted n (ln_vpn l))))"

lemma numbered_weaken: "numbered ps s \<Longrightarrow> numbered [] s"
  by (simp add: numbered_def)

lemma posted_grows: "vpn_step env e s = Some s' \<Longrightarrow> numbered [] s \<Longrightarrow> prefix (port_posted n s) (port_posted n s')"
proof -
  assume step: "vpn_step env e s = Some s'" and "numbered [] s"
  then have "numbered (vp_posted s) s" by (simp add: numbered_def)
  from numbered_step [OF step this] obtain ms where "vp_posted s' = vp_posted s @ ms" by (auto simp: numbered_def prefix_def)
  then show ?thesis by (simp add: port_posted_def)
qed

lemma numbered_posted:
  assumes "numbered [] s"
  shows "distinct (posted_ids (port_posted n s))"
    "m \<in> set (port_posted n s) \<Longrightarrow> \<exists>i. jget m ''id'' = Some (JInt i)"
proof -
  let ?f = "\<lambda>p. jget (snd p) ''id''"
  have ids: "map ?f (vp_posted s) = map (\<lambda>i. Some (JInt (int i))) [1..<vp_nextId s]" using assms by (simp add: numbered_def)
  have "distinct (map ?f (vp_posted s))" unfolding ids by (simp add: distinct_map inj_on_def)
  then have "distinct (map ?f (filter (\<lambda>p. fst p = Some n) (vp_posted s)))" by (rule distinct_map_filter)
  moreover have some: "\<exists>i. ?f p = Some (JInt i)" if "p \<in> set (vp_posted s)" for p
  proof -
    have "?f p \<in> set (map ?f (vp_posted s))" using that by simp
    then show ?thesis unfolding ids by auto
  qed
  ultimately show "distinct (posted_ids (port_posted n s))"
    by (auto simp: posted_ids_def port_posted_def distinct_map inj_on_def) (metis option.sel)
  show "m \<in> set (port_posted n s) \<Longrightarrow> \<exists>i. jget m ''id'' = Some (JInt i)"
    using some by (auto simp: port_posted_def)
qed

lemma asked_own: "requested e = None \<Longrightarrow> asked e = []"
  by (cases e) simp_all

lemma host_run_snoc: "host_run opts hs s = Some s1 \<Longrightarrow> host_step opts e s1 = Some s2 \<Longrightarrow> host_run opts (hs @ [e]) s = Some s2"
  by (simp add: host_run_append)

lemma link_inv_extension:
  assumes "link_inv opts n l" "vpn_step env e (ln_vpn l) = Some v"
  shows "link_inv opts n (l\<lparr>ln_vpn := v\<rparr>)"
proof -
  have num: "numbered [] (ln_vpn l)" using assms(1) by (simp add: link_inv_def)
  obtain ms where ms: "port_posted n v = port_posted n (ln_vpn l) @ ms" using posted_grows [OF assms(2) num] by (auto simp: prefix_def)
  show ?thesis using assms(1) numbered_step [OF assms(2) num] ms by (auto simp: link_inv_def)
qed

lemma link_inv_step:
  assumes "link_step env opts n e l = Some l'" "link_inv opts n l"
  shows "link_inv opts n l'"
proof (cases e)
  case (Extension x)
  then show ?thesis using assms link_inv_extension by auto
next
  case (HostDoes x)
  then obtain h where h: "requested x = None" "host_step opts x (ln_host l) = Some h" "l' = l\<lparr>ln_host := h\<rparr>"
    using assms(1) by (auto split: if_splits)
  obtain hs where hs: "host_run opts hs newHostSession = Some (ln_host l)"
    "concat (map asked hs) = posted_ids (take (ln_up l) (port_posted n (ln_vpn l)))" using assms(2) by (auto simp: link_inv_def)
  have "host_run opts (hs @ [x]) newHostSession = Some h" "concat (map asked (hs @ [x])) = concat (map asked hs)"
    using host_run_snoc [OF hs(1) h(2)] asked_own [OF h(1)] by simp_all
  with hs(2) assms(2) h(3) show ?thesis unfolding link_inv_def by auto
next
  case (Upward datapath)
  let ?ms = "port_posted n (ln_vpn l)"
  have up: "ln_up l < length ?ms" "l' = l\<lparr>ln_host := handle opts datapath (?ms ! ln_up l) (ln_host l), ln_up := Suc (ln_up l)\<rparr>"
    using assms(1) Upward by (auto split: if_splits)
  obtain hs where hs: "host_run opts hs newHostSession = Some (ln_host l)" "concat (map asked hs) = posted_ids (take (ln_up l) ?ms)"
    using assms(2) by (auto simp: link_inv_def)
  obtain i where i: "jget (?ms ! ln_up l) ''id'' = Some (JInt i)"
    using numbered_posted(2) [of "ln_vpn l" "?ms ! ln_up l" n] assms(2) up(1) by (auto simp: link_inv_def)
  let ?r = "Request datapath (?ms ! ln_up l)"
  have "host_run opts (hs @ [?r]) newHostSession = Some (ln_host l')" using host_run_snoc [OF hs(1), of ?r] up(2) by simp
  moreover have "concat (map asked (hs @ [?r])) = posted_ids (take (ln_up l') ?ms)"
    using hs(2) i up by (simp add: posted_ids_def take_Suc_conv_app_nth)
  ultimately show ?thesis using assms(2) up unfolding link_inv_def by auto
next
  case Downward
  then obtain v where "vpn_step env (FromHost (host_message_json (hs_sent (ln_host l) ! ln_down l))) (ln_vpn l) = Some v"
    "l' = l\<lparr>ln_vpn := v, ln_down := Suc (ln_down l)\<rparr>"
    using assms(1) by (auto split: if_splits)
  from link_inv_extension [OF assms(2) this(1)] this(2) show ?thesis by (simp add: link_inv_def)
qed

lemma link_inv_run: "link_run env opts n es l = Some l' \<Longrightarrow> link_inv opts n l \<Longrightarrow> link_inv opts n l'"
  by (induction es arbitrary: l) (auto simp: bind_eq_Some_conv dest: link_inv_step)

lemma link_inv_new: "link_inv opts n new_link"
  by (auto simp: link_inv_def new_link_def numbered_new posted_ids_def intro!: exI [of _ "[]"])

text \<open>
  C4. Every request of the extension has one answer it understands: over any run of the two sides, however their promises
  settle and their messages cross, the session answers no request twice and none that was not posted on its port; every
  message it sends is one the client's parser takes, an answer under the identifier of its request; and once every
  request is delivered and no call is in flight, every request posted on the port has been answered.
\<close>

theorem link_answers_match:
  assumes "link_run env opts n es new_link = Some l"
  shows "distinct (answered_ids (ln_host l)) \<and> set (answered_ids (ln_host l)) \<subseteq> set (posted_ids (port_posted n (ln_vpn l))) \<and>
    (\<forall>m \<in> set (hs_sent (ln_host l)). (case message_ids m of
       [] \<Rightarrow> \<exists>st. parseHostMessage (host_message_json m) = Some (ParsedState (JStr st))
     | i # _ \<Rightarrow> parseHostMessage (host_message_json m) = Some (ParsedResponse i (message_ok m) (host_message_json m)))) \<and>
    (ln_up l = length (port_posted n (ln_vpn l)) \<longrightarrow> hs_calls (ln_host l) = [] \<longrightarrow>
       set (answered_ids (ln_host l)) = set (posted_ids (port_posted n (ln_vpn l))))"
proof -
  let ?ms = "port_posted n (ln_vpn l)" and ?k = "ln_up l" and ?h = "ln_host l"
  have inv: "link_inv opts n l" using link_inv_run [OF assms link_inv_new] .
  then obtain hs where hs: "host_run opts hs newHostSession = Some ?h" "concat (map asked hs) = posted_ids (take ?k ?ms)"
    and num: "numbered [] (ln_vpn l)" by (auto simp: link_inv_def)
  have ledger: "mset (answered_ids ?h) + mset (open_ids ?h) = mset (posted_ids (take ?k ?ms))" using host_ledger [OF hs(1)] hs(2) by simp
  have taken: "posted_ids (take ?k ?ms) = take ?k (posted_ids ?ms)" by (simp add: posted_ids_def take_map)
  have dist: "distinct (answered_ids ?h @ open_ids ?h)"
    using numbered_posted(1) [OF num, of n] ledger unfolding taken
    by (metis distinct_take mset_append mset_eq_imp_distinct_iff)
  have sub: "set (answered_ids ?h) \<subseteq> set (take ?k (posted_ids ?ms))"
    using ledger unfolding taken by (metis mset_append set_append set_mset_mset sup_ge1)
  have number: "is_number i" if "i \<in> set (answered_ids ?h)" for i
  proof -
    have "i \<in> set (posted_ids ?ms)" using that sub by (meson in_set_takeD subsetD)
    then obtain m where m: "m \<in> set ?ms" "i = the (jget m ''id'')" by (auto simp: posted_ids_def)
    with numbered_posted(2) [OF num m(1)] show ?thesis by auto
  qed
  have understood: "case message_ids m of
       [] \<Rightarrow> \<exists>st. parseHostMessage (host_message_json m) = Some (ParsedState (JStr st))
     | i # _ \<Rightarrow> parseHostMessage (host_message_json m) = Some (ParsedResponse i (message_ok m) (host_message_json m))"
    if m: "m \<in> set (hs_sent ?h)" for m
  proof (cases "message_ids m")
    case (Cons i rest)
    then have "message_ids m = [i]" by (cases m) auto
    moreover have "i \<in> set (answered_ids ?h)" using m Cons by (auto simp: answered_ids_def intro!: bexI [of _ m])
    ultimately show ?thesis using answers_parse number by simp
  qed (use states_parse [of m] in auto)
  have all: "set (answered_ids ?h) = set (posted_ids ?ms)" if "?k = length ?ms" "hs_calls ?h = []"
  proof -
    have "mset (answered_ids ?h) = mset (posted_ids ?ms)" using ledger that by (simp add: open_ids_def)
    then show ?thesis by (rule mset_eq_setD)
  qed
  have "distinct (answered_ids ?h)" using dist by simp
  moreover have "set (answered_ids ?h) \<subseteq> set (posted_ids ?ms)" using sub set_take_subset by (rule subset_trans)
  ultimately show ?thesis using understood all by blast
qed

section \<open>A connect goes through\<close>

lemma map_of_opt_prop [simp]: "map_of (opt_prop k f v @ ps) key = (if key = k \<and> v \<noteq> None then map_option f v else map_of ps key)"
  "map_of (opt_prop k f v) key = (if key = k then map_option f v else None)"
  by (cases v; simp)+

lemma endpoints_read [simp]: "endpoints_of (Some (endpoints_json ep)) = ep"
  by (cases "ep_http ep") (simp_all add: endpoints_of_def endpoints_json_def jstring_def)

lemma auth_read [simp]:
  "u \<noteq> [] \<Longrightarrow> p \<noteq> [] \<Longrightarrow>
   listenerAuth (Some (JObj [(''username'', JStr u), (''password'', JStr p)])) = Some \<lparr>xa_username = u, xa_password = p\<rparr>"
  by (simp add: listenerAuth_def isCredential_def)

lemma exit_read [simp]: "parseTunnelExit (map_option tunnel_exit_json (parseTunnelExit v)) = parseTunnelExit v"
proof (cases "parseTunnelExit v")
  case (Some x)
  then obtain country where "tx_country x = map upper_char country" "length country = 2" "list_all is_letter country"
    by (auto simp: parseTunnelExit_def split: option.splits if_splits)
  then show ?thesis using Some
    by (cases x) (auto simp: parseTunnelExit_def tunnel_exit_json_def jstring_def list_all_iff upper_is_letter)
qed (simp add: parseTunnelExit_def)

lemma credential_nonempty: "isCredential v = Some u \<Longrightarrow> u \<noteq> []"
  by (auto simp: isCredential_def split: option.splits json.splits if_splits)

text \<open>
  The schedule of a connect nothing goes wrong in: the preflight, the hello and its answer, the request, the tunnel created
  and dialed, its report, the answer, the leaks closed and the settings taken.
\<close>

definition connect_schedule :: "vpn_options \<Rightarrow> string \<Rightarrow> bool option \<Rightarrow> string option \<Rightarrow> tunnel_report \<Rightarrow> link_event list" where
  "connect_schedule o' level incognito datapath r =
     [Extension (Connect o'), Extension (Settled 0 SetTakes level False incognito), Upward datapath, Downward, Upward datapath,
      HostDoes (Settle 0 Done), HostDoes (Settle 0 (Reports r)), Downward,
      Extension (Settled 0 SetTakes [] False None), Extension (Settled 0 SetTakes [] False None)]"

definition connect_message :: "vpn_env \<Rightarrow> vpn_options \<Rightarrow> json" where
  "connect_message env o' = JObj ((''id'', JInt 2) # connect_body env o')"

text \<open>The client up to its hello, and what the host does with the two requests.\<close>

definition asked_hello :: "vpn_env \<Rightarrow> json" where
  "asked_hello env = JObj [(''id'', JInt 1), (''type'', JStr ''hello''), (''protocol'', JInt EXTENSION_PROTOCOL_VERSION), (''channel'', JStr (ve_channel env))]"

lemma host_hello:
  "isChannel (JStr (ve_channel env)) = Some ch \<Longrightarrow>
     handle opts d (asked_hello env) newHostSession = newHostSession\<lparr>hs_channel := Some ch, hs_sent := [HelloOk (JInt 1) (nonempty d)]\<rparr>"
  by (simp add: handle_def asked_hello_def newHostSession_def send_def)

lemma connect_message_fields:
  "jget (connect_message env o') ''id'' = Some (JInt 2)" "jget (connect_message env o') ''type'' = Some (JStr ''connect'')"
  "jget (connect_message env o') ''device'' = vo_device o'" "jget (connect_message env o') ''mnemonic'' = Some (JStr (vo_mnemonic o'))"
  by (simp_all add: connect_message_def connect_body_def option.map_id del: map_of_append)

definition asked_init :: "vpn_env \<Rightarrow> vpn_options \<Rightarrow> ProductChannel option \<Rightarrow> tunnel_init" where
  "asked_init env o' channel = \<lparr>ti_mnemonic = Some (JStr (vo_mnemonic o')), ti_daita = jget (connect_message env o') ''daita'',
     ti_channel = channel, ti_device = vo_device o'\<rparr>"

definition asked_options :: "vpn_env \<Rightarrow> vpn_options \<Rightarrow> connect_options" where
  "asked_options env o' = \<lparr>co_selector = truthy (jget (connect_message env o') ''selector''),
     co_entrySelector = truthy (jget (connect_message env o') ''entrySelector''), co_httpProxy = jget (connect_message env o') ''httpProxy''\<rparr>"

lemma host_connect:
  assumes "\<forall>d. vo_device o' = Some d \<longrightarrow> isDevice (ho_platform opts) d" "hs_tunnel h = None" "\<not> hs_connecting h" "hs_calls h = []"
  shows "handle opts d (connect_message env o') h =
    h\<lparr>hs_connecting := True, hs_calls := [Creating (JInt 2) (asked_init env o' (hs_channel h)) (asked_options env o')]\<rparr>"
proof -
  have "handle opts d (connect_message env o') h = connect_request opts (JInt 2) (connect_message env o') h"
    by (simp add: handle_def connect_message_fields)
  moreover have "\<not> (case vo_device o' of None \<Rightarrow> False | Some d \<Rightarrow> \<not> isDevice (ho_platform opts) d)"
    using assms(1) by (cases "vo_device o'") auto
  ultimately show ?thesis
    using assms(2-) by (simp add: connect_request_def connect_message_fields call_def asked_init_def asked_options_def)
qed

text \<open>The report of the tunnel, as the session takes it.\<close>

lemma host_dialed:
  assumes "isCredential (tr_username r) = Some u" "isCredential (tr_password r) = Some p" "hs_calls h = [Creating (JInt 2) init co]"
  shows "\<exists>h'. host_run opts [Settle 0 Done, Settle 0 (Reports r)] h = Some h' \<and> hs_tunnel h' = Some (hs_created h) \<and>
    hs_endpoints h' = Some \<lparr>ep_socks5 = tr_socks5 r, ep_http = nonempty (tr_http r)\<rparr> \<and> hs_exit h' = parseTunnelExit (tr_exit r) \<and>
    hs_sent h' = hs_sent h @ [ConnectOk (JInt 2) \<lparr>ep_socks5 = tr_socks5 r, ep_http = nonempty (tr_http r)\<rparr>
      \<lparr>xa_username = u, xa_password = p\<rparr> (parseTunnelExit (tr_exit r))]"
  using assms by (simp add: call_def dialed_def send_def Let_def)

text \<open>The client's half of the schedule.\<close>

lemma connect_split_hardened [simp]: "connect_split (v\<lparr>cv_hardened := b\<rparr>) = connect_split v"
  by (simp add: connect_split_def)

definition hello_pending :: "vpn_env \<Rightarrow> vpn_options \<Rightarrow> vpn \<Rightarrow> bool" where
  "hello_pending env o' s \<longleftrightarrow> vp_posted s = [(Some 0, asked_hello env)] \<and> vp_port s = Some 0 \<and> \<not> vp_portDead s \<and>
     vp_pending s = [(1, WHello 0)] \<and> vp_nextId s = 2 \<and> vp_hellos s = [None] \<and> vp_results s = [] \<and>
     (\<exists>v. vp_calls s = [AwaitHello 0 (KConnect v)] \<and> cv_options v = o')"

lemma client_hello:
  assumes "ve_nativeOk env 0" "controllable level" "ve_platform env = Firefox \<Longrightarrow> ve_hasOnRequest env \<and> incognito \<noteq> Some False"
  shows "\<exists>s. vpn_run env [Connect o', Settled 0 SetTakes level False incognito] newVpn = Some s \<and> hello_pending env o' s"
  using assms
  by (auto simp: hello_pending_def asked_hello_def newVpn_def connect_start_def await_def preflight_done_def request_host_def openPort_def
      hello_def post_def Let_def)

definition connect_pending :: "vpn_env \<Rightarrow> vpn_options \<Rightarrow> vpn \<Rightarrow> bool" where
  "connect_pending env o' s \<longleftrightarrow> vp_posted s = [(Some 0, asked_hello env), (Some 0, connect_message env o')] \<and> vp_port s = Some 0 \<and>
     \<not> vp_portDead s \<and> vp_calls s = [] \<and> vp_results s = [] \<and> (\<exists>v. vp_pending s = [(2, WCall (KConnect v))] \<and> cv_options v = o')"

lemma client_connect:
  assumes "hello_pending env o' s"
  shows "connect_pending env o' (onMessage env (host_message_json (HelloOk (JInt 1) d)) s)"
proof -
  obtain v where v: "vp_calls s = [AwaitHello 0 (KConnect v)]" "cv_options v = o'" using assms by (auto simp: hello_pending_def)
  have "parseHostMessage (host_message_json (HelloOk (JInt 1) d)) = Some (ParsedResponse (JInt 1) True (host_message_json (HelloOk (JInt 1) d)))"
    using answers_parse [of "HelloOk (JInt 1) d" "JInt 1"] by simp
  then show ?thesis using assms v
    by (simp add: hello_pending_def connect_pending_def onMessage_def hello_answered_def hello_accepted_def answer_json_def
        List.map_filter_simps after_hello_def openPort_def post_def connect_message_def Let_def del: map_of_append)
qed

lemma client_answered:
  assumes "connect_pending env o' s" "u \<noteq> []" "p \<noteq> []"
    and "ve_platform env = Chromium \<Longrightarrow> nonempty (ep_http ep) \<noteq> None"
    and "x = parseTunnelExit x0"
  shows "\<exists>s'. vpn_run env [FromHost (host_message_json (ConnectOk (JInt 2) ep \<lparr>xa_username = u, xa_password = p\<rparr> x)),
      Settled 0 SetTakes [] False None, Settled 0 SetTakes [] False None] s = Some s' \<and>
    vp_tunnelUp s' \<and> vp_endpoints s' = Some ep \<and> vp_auth s' = Some \<lparr>xa_username = u, xa_password = p\<rparr> \<and> vp_exit s' = x \<and>
    vp_results s' = [ResultOk (endpoints_json ep)] \<and> vp_calls s' = []"
proof -
  let ?m = "ConnectOk (JInt 2) ep \<lparr>xa_username = u, xa_password = p\<rparr> x"
  obtain v where v: "vp_pending s = [(2, WCall (KConnect v))]" "cv_options v = o'" using assms(1) by (auto simp: connect_pending_def)
  have parse: "parseHostMessage (host_message_json ?m) = Some (ParsedResponse (JInt 2) True (host_message_json ?m))"
    using answers_parse [of ?m "JInt 2"] by simp
  have reads: "jget (host_message_json ?m) ''type'' = Some (JStr ''connect'')"
    "jget (host_message_json ?m) ''endpoints'' = Some (endpoints_json ep)"
    "listenerAuth (jget (host_message_json ?m) ''auth'') = Some \<lparr>xa_username = u, xa_password = p\<rparr>"
    "parseTunnelExit (jget (host_message_json ?m) ''exit'') = x"
    using assms(2,3,5) by (simp_all add: answer_json_def del: map_of_append)
  let ?s = "s\<lparr>vp_pending := [], vp_calls := [Hardening v (host_message_json ?m)]\<rparr>"
  have hard: "vpn_step env (FromHost (host_message_json ?m)) s = Some ?s"
    using assms(1) v parse reads
    by (simp add: connect_pending_def onMessage_def connect_answered_def await_def Let_def del: host_message_json.simps)
  show ?thesis
  proof (cases "ve_platform env")
    case Firefox
    then show ?thesis using hard reads assms(1)
      by (auto simp: connect_pending_def hardened_done_def applyProxy_def registerFirefoxOnRequest_def await_def routing_done_def set_settings_def
          set_error_def verifyRouting_def result_def Let_def simp del: host_message_json.simps split: option.split)
  next
    case Chromium
    then obtain http where "nonempty (ep_http ep) = Some http" using assms(4) by auto
    then show ?thesis using Chromium hard reads assms(1)
      by (auto simp: connect_pending_def hardened_done_def applyProxy_def await_def routing_done_def set_settings_def
          set_error_def verifyRouting_def result_def Let_def simp del: host_message_json.simps split: option.split)
  qed
qed

lemma link_run_append: "link_run env opts n (as @ bs) l = Option.bind (link_run env opts n as l) (link_run env opts n bs)"
proof (induction as arbitrary: l)
  case (Cons e as)
  then show ?case by (cases "link_step env opts n e l") simp_all
qed simp

lemma link_run_extension: "link_run env opts n (map Extension es) l = map_option (\<lambda>v. l\<lparr>ln_vpn := v\<rparr>) (vpn_run env es (ln_vpn l))"
proof (induction es arbitrary: l)
  case (Cons e es)
  then show ?case by (cases "vpn_step env e (ln_vpn l)") simp_all
qed simp

lemma client_answer_step:
  "vpn_run env (FromHost m # es) s = Some s' \<Longrightarrow> \<exists>v. vpn_step env (FromHost m) s = Some v \<and> vpn_run env es v = Some s'"
  by (auto simp: bind_eq_Some_conv)

text \<open>The two halves of the schedule: the states the host and the client pass through.\<close>

lemma connect_host:
  assumes "isChannel (JStr (ve_channel env)) = Some ch" "\<forall>d. vo_device o' = Some d \<longrightarrow> isDevice (ho_platform opts) d"
    and "isCredential (tr_username r) = Some u" "isCredential (tr_password r) = Some p"
  obtains h1 h2 h h3 where "handle opts d (asked_hello env) newHostSession = h1" "handle opts d (connect_message env o') h1 = h2"
    "host_step opts (Settle 0 Done) h2 = Some h" "host_step opts (Settle 0 (Reports r)) h = Some h3"
    "hs_sent h1 = [HelloOk (JInt 1) (nonempty d)]" "hs_sent h2 = hs_sent h1" "hs_sent h3 = [HelloOk (JInt 1) (nonempty d),
      ConnectOk (JInt 2) \<lparr>ep_socks5 = tr_socks5 r, ep_http = nonempty (tr_http r)\<rparr> \<lparr>xa_username = u, xa_password = p\<rparr> (parseTunnelExit (tr_exit r))]"
    "hs_tunnel h3 = Some 0" "hs_endpoints h3 = Some \<lparr>ep_socks5 = tr_socks5 r, ep_http = nonempty (tr_http r)\<rparr>" "hs_exit h3 = parseTunnelExit (tr_exit r)"
proof -
  define h1 where "h1 = newHostSession\<lparr>hs_channel := Some ch, hs_sent := [HelloOk (JInt 1) (nonempty d)]\<rparr>"
  have hello: "handle opts d (asked_hello env) newHostSession = h1" unfolding h1_def by (rule host_hello [OF assms(1)])
  have connect: "handle opts d (connect_message env o') h1 =
      h1\<lparr>hs_connecting := True, hs_calls := [Creating (JInt 2) (asked_init env o' (hs_channel h1)) (asked_options env o')]\<rparr>" (is "_ = ?h2")
    by (rule host_connect [OF assms(2)]) (simp_all add: h1_def newHostSession_def)
  obtain h3 where h3: "host_run opts [Settle 0 Done, Settle 0 (Reports r)] ?h2 = Some h3" "hs_tunnel h3 = Some 0"
    "hs_endpoints h3 = Some \<lparr>ep_socks5 = tr_socks5 r, ep_http = nonempty (tr_http r)\<rparr>" "hs_exit h3 = parseTunnelExit (tr_exit r)"
    "hs_sent h3 = hs_sent h1 @ [ConnectOk (JInt 2) \<lparr>ep_socks5 = tr_socks5 r, ep_http = nonempty (tr_http r)\<rparr> \<lparr>xa_username = u, xa_password = p\<rparr>
      (parseTunnelExit (tr_exit r))]"
    using host_dialed [OF assms(3,4), of ?h2] by (auto simp: h1_def newHostSession_def simp del: host_run.simps)
  obtain h where h: "host_step opts (Settle 0 Done) ?h2 = Some h" "host_step opts (Settle 0 (Reports r)) h = Some h3"
    using h3(1) by (auto simp: bind_eq_Some_conv simp del: host_step.simps)
  have sent: "hs_sent h1 = [HelloOk (JInt 1) (nonempty d)]" by (simp add: h1_def)
  show thesis by (rule that [OF hello connect h sent _ _ h3(2-4)]) (use sent h3(5) in simp_all)
qed

lemma connect_client:
  assumes "ve_nativeOk env 0" "controllable level" "ve_platform env = Firefox \<Longrightarrow> ve_hasOnRequest env \<and> incognito \<noteq> Some False"
    and "u \<noteq> []" "p \<noteq> []" "ve_platform env = Chromium \<Longrightarrow> nonempty (ep_http ep) \<noteq> None" "x = parseTunnelExit x0"
  obtains s1 s2 s3 s4 where "vpn_run env [Connect o', Settled 0 SetTakes level False incognito] newVpn = Some s1"
    "vpn_step env (FromHost (host_message_json (HelloOk (JInt 1) d))) s1 = Some s2"
    "vpn_step env (FromHost (host_message_json (ConnectOk (JInt 2) ep \<lparr>xa_username = u, xa_password = p\<rparr> x))) s2 = Some s3"
    "vpn_run env [Settled 0 SetTakes [] False None, Settled 0 SetTakes [] False None] s3 = Some s4"
    "port_posted 0 s1 = [asked_hello env]" "port_posted 0 s2 = [asked_hello env, connect_message env o']" "vp_port s1 = Some 0" "vp_port s2 = Some 0"
    "vp_tunnelUp s4" "vp_endpoints s4 = Some ep" "vp_auth s4 = Some \<lparr>xa_username = u, xa_password = p\<rparr>" "vp_exit s4 = x" "vp_results s4 = [ResultOk (endpoints_json ep)]"
proof -
  obtain s1 where s1: "vpn_run env [Connect o', Settled 0 SetTakes level False incognito] newVpn = Some s1" and pending: "hello_pending env o' s1"
    using client_hello [OF assms(1-3)] by blast
  define s2 where "s2 = onMessage env (host_message_json (HelloOk (JInt 1) d)) s1"
  have pending2: "connect_pending env o' s2" unfolding s2_def by (rule client_connect [OF pending])
  have s2: "vpn_step env (FromHost (host_message_json (HelloOk (JInt 1) d))) s1 = Some s2"
    using pending by (simp add: hello_pending_def s2_def del: host_message_json.simps)
  note answered = client_answered [OF pending2 assms(4-7)]
  then obtain s3 s4 where s34: "vpn_step env (FromHost (host_message_json (ConnectOk (JInt 2) ep \<lparr>xa_username = u, xa_password = p\<rparr> x))) s2 = Some s3"
    "vpn_run env [Settled 0 SetTakes [] False None, Settled 0 SetTakes [] False None] s3 = Some s4" and
    s4: "vp_tunnelUp s4" "vp_endpoints s4 = Some ep" "vp_auth s4 = Some \<lparr>xa_username = u, xa_password = p\<rparr>" "vp_exit s4 = x" "vp_results s4 = [ResultOk (endpoints_json ep)]"
    using client_answer_step by blast
  have "port_posted 0 s1 = [asked_hello env]" "port_posted 0 s2 = [asked_hello env, connect_message env o']" "vp_port s1 = Some 0" "vp_port s2 = Some 0"
    using pending pending2 by (simp_all add: hello_pending_def connect_pending_def port_posted_def)
  with s1 s2 s34 s4 show thesis by (intro that)
qed

text \<open>
  C33. A connect goes through: with a channel and a device the host takes, a tunnel that dials and reports its listener and its
  credential, and a browser that grants its settings, the schedule above is a run of the two sides, at whose end the call
  has resolved with the listener's endpoints, the tunnel is up on both sides, and what the client answers the proxy with
  (endpoints, credential, exit) is what the tunnel reported to the host.
\<close>

theorem connect_goes_through:
  assumes "isChannel (JStr (ve_channel env)) = Some ch" "\<forall>d. vo_device o' = Some d \<longrightarrow> isDevice (ho_platform opts) d"
    and "ve_nativeOk env 0" "controllable level" "ve_platform env = Firefox \<Longrightarrow> ve_hasOnRequest env \<and> incognito \<noteq> Some False"
    and "isCredential (tr_username r) = Some u" "isCredential (tr_password r) = Some p" "ve_platform env = Chromium \<Longrightarrow> nonempty (tr_http r) \<noteq> None"
  shows "\<exists>l. link_run env opts 0 (connect_schedule o' level incognito datapath r) new_link = Some l \<and>
    vp_results (ln_vpn l) = [ResultOk (endpoints_json \<lparr>ep_socks5 = tr_socks5 r, ep_http = nonempty (tr_http r)\<rparr>)] \<and>
    vp_tunnelUp (ln_vpn l) \<and> hs_tunnel (ln_host l) = Some 0 \<and> vp_endpoints (ln_vpn l) = hs_endpoints (ln_host l) \<and>
    vp_exit (ln_vpn l) = hs_exit (ln_host l) \<and> vp_auth (ln_vpn l) = Some \<lparr>xa_username = u, xa_password = p\<rparr>"
proof -
  let ?ep = "\<lparr>ep_socks5 = tr_socks5 r, ep_http = nonempty (tr_http r)\<rparr>" and ?x = "parseTunnelExit (tr_exit r)"
  let ?granted = "[Settled 0 SetTakes [] False None, Settled 0 SetTakes [] False None]"
  let ?asks = "[Connect o', Settled 0 SetTakes level False incognito]"
  have http: "ve_platform env = Chromium \<Longrightarrow> nonempty (ep_http ?ep) \<noteq> None" using assms(8) by (auto simp: nonempty_def)
  obtain h1 h2 h h3 where host: "handle opts datapath (asked_hello env) newHostSession = h1" "handle opts datapath (connect_message env o') h1 = h2"
    "host_step opts (Settle 0 Done) h2 = Some h" "host_step opts (Settle 0 (Reports r)) h = Some h3"
    "hs_sent h1 = [HelloOk (JInt 1) (nonempty datapath)]" "hs_sent h2 = hs_sent h1"
    "hs_sent h3 = [HelloOk (JInt 1) (nonempty datapath), ConnectOk (JInt 2) ?ep \<lparr>xa_username = u, xa_password = p\<rparr> ?x]"
    "hs_tunnel h3 = Some 0" "hs_endpoints h3 = Some ?ep" "hs_exit h3 = ?x"
    by (rule connect_host [OF assms(1,2,6,7)])
  obtain s1 s2 s3 s4 where client: "vpn_run env ?asks newVpn = Some s1" "vpn_step env (FromHost (host_message_json (HelloOk (JInt 1) (nonempty datapath)))) s1 = Some s2"
    "vpn_step env (FromHost (host_message_json (ConnectOk (JInt 2) ?ep \<lparr>xa_username = u, xa_password = p\<rparr> ?x))) s2 = Some s3"
    "vpn_run env ?granted s3 = Some s4" "port_posted 0 s1 = [asked_hello env]" "port_posted 0 s2 = [asked_hello env, connect_message env o']"
    "vp_port s1 = Some 0" "vp_port s2 = Some 0" "vp_tunnelUp s4" "vp_endpoints s4 = Some ?ep" "vp_auth s4 = Some \<lparr>xa_username = u, xa_password = p\<rparr>"
    "vp_exit s4 = ?x" "vp_results s4 = [ResultOk (endpoints_json ?ep)]"
    by (rule connect_client [OF assms(3-5) credential_nonempty [OF assms(6)] credential_nonempty [OF assms(7)] http refl])
  have first: "link_run env opts 0 (map Extension ?asks) new_link = Some (new_link\<lparr>ln_vpn := s1\<rparr>)"
    and granted: "link_run env opts 0 (map Extension ?granted) \<lparr>ln_vpn = s3, ln_host = h3, ln_up = 2, ln_down = 2\<rparr> =
      Some \<lparr>ln_vpn = s4, ln_host = h3, ln_up = 2, ln_down = 2\<rparr>"
    using client(1,4) unfolding link_run_extension by (simp_all add: new_link_def)
  have rest: "link_run env opts 0 [Upward datapath, Downward, Upward datapath, HostDoes (Settle 0 Done), HostDoes (Settle 0 (Reports r)), Downward]
      (new_link\<lparr>ln_vpn := s1\<rparr>) = Some \<lparr>ln_vpn = s3, ln_host = h3, ln_up = 2, ln_down = 2\<rparr>"
    using host client by (simp add: new_link_def numeral_2_eq_2 del: host_message_json.simps vpn_step.simps host_step.simps vpn_run.simps)
  have schedule: "connect_schedule o' level incognito datapath r = map Extension ?asks @
      [Upward datapath, Downward, Upward datapath, HostDoes (Settle 0 Done), HostDoes (Settle 0 (Reports r)), Downward] @ map Extension ?granted"
    by (simp add: connect_schedule_def)
  have "link_run env opts 0 (connect_schedule o' level incognito datapath r) new_link = Some \<lparr>ln_vpn = s4, ln_host = h3, ln_up = 2, ln_down = 2\<rparr>"
    unfolding schedule link_run_append using first rest granted by (simp del: link_run.simps list.map)
  then show ?thesis using client(9-13) host(8-10) by simp
qed

text \<open>The sample client of a browser with an \<open>onRequest\<close> and the sample tunnel.\<close>

theorem connect_goes_through_witness:
  "\<exists>l. link_run sample_env sample_options 0 (connect_schedule sample_connect ''controllable_by_this_extension'' (Some True) None sample_report) new_link = Some l \<and>
     vp_tunnelUp (ln_vpn l) \<and> vp_auth (ln_vpn l) = Some \<lparr>xa_username = ''u'', xa_password = ''p''\<rparr>"
proof -
  have "isChannel (JStr (ve_channel sample_env)) = Some Prod" "ve_nativeOk sample_env 0" "controllable ''controllable_by_this_extension''"
    "ve_platform sample_env = Firefox \<Longrightarrow> ve_hasOnRequest sample_env \<and> Some True \<noteq> Some False" "\<not> ve_platform sample_env = Chromium"
    "isCredential (tr_username sample_report) = Some ''u''" "isCredential (tr_password sample_report) = Some ''p''"
    "\<forall>d. vo_device sample_connect = Some d \<longrightarrow> isDevice (ho_platform sample_options) d"
    by (simp_all add: sample_env_def sample_report_def sample_connect_def isCredential_def isChannel_def controllable_def)
  then show ?thesis
    using connect_goes_through [of sample_env Prod sample_connect sample_options "''controllable_by_this_extension''" "Some True" sample_report "''u''" "''p''" None] by fastforce
qed

text \<open>The same client asking for its state, its hello delivered and answered.\<close>

definition sample_link_events :: "link_event list" where
  "sample_link_events = [Extension (Ask AskStatus), Upward None, Downward, Upward None, Downward]"

lemma sample_link: "\<exists>l. link_run sample_env sample_options 0 sample_link_events new_link = Some l \<and>
    ln_up l = length (port_posted 0 (ln_vpn l)) \<and> hs_calls (ln_host l) = [] \<and> length (port_posted 0 (ln_vpn l)) = 2"
  by (simp add: sample_link_events_def new_link_def sample_options_def port_posted_def vpn_samples vpn_ops newHostSession_def handle_def
      send_def answer_json_def isChannel_def List.map_filter_simps numeral_2_eq_2 question_type_def question_done_def)

theorem link_answers_match_witness:
  "\<exists>l. link_run sample_env sample_options 0 sample_link_events new_link = Some l \<and>
     set (answered_ids (ln_host l)) = set (posted_ids (port_posted 0 (ln_vpn l))) \<and> length (port_posted 0 (ln_vpn l)) = 2"
  using sample_link link_answers_match [of sample_env sample_options 0 sample_link_events] by blast

end
