(* ===== verification/Webtransport.thy ===== *)
theory Webtransport
  imports Warren_Prelude "HOL-Library.Sublist"
begin

text \<open>
  WebTransport stream and datagram framing, \<^verbatim>\<open>packages/core/src/edge/webtransport.ts\<close>: the QUIC variable-length integer, whose
  first byte tells its length, the headers that open a stream and the datagram of a session.
\<close>

unbundle bit_operations_syntax

section \<open>QUIC integers\<close>

definition WEBTRANSPORT_STREAM_BIDI :: int where
  "WEBTRANSPORT_STREAM_BIDI = 0x41"

definition WEBTRANSPORT_STREAM_UNI :: int where
  "WEBTRANSPORT_STREAM_UNI = 0x54"

datatype quic_error = QuicNegative | QuicTooLarge

text \<open>\<^verbatim>\<open>setBigUint64(0, v, false)\<close>.\<close>

definition setBigUint64BE :: "int \<Rightarrow> bytes" where
  "setBigUint64BE v = map (\<lambda>i. word_of_int (drop_bit (8 * i) v)) [7, 6, 5, 4, 3, 2, 1, 0]"

definition encodeQuicVarint :: "int \<Rightarrow> quic_error + bytes" where
  "encodeQuicVarint v =
     (if v < 0 then Inl QuicNegative
      else if v < 2 ^ 6 then Inr [word_of_int v]
      else if v < 2 ^ 14 then Inr [word_of_int (0x40 OR drop_bit 8 v), word_of_int (v AND 0xff)]
      else if v < 2 ^ 30 then
        Inr [word_of_int (0x80 OR drop_bit 24 v), word_of_int (drop_bit 16 v AND 0xff), word_of_int (drop_bit 8 v AND 0xff), word_of_int (v AND 0xff)]
      else if v < 2 ^ 62 then Inr (case setBigUint64BE v of b # bs \<Rightarrow> (b OR 0xc0) # bs | [] \<Rightarrow> [])
      else Inl QuicTooLarge)"

text \<open>The value and the bytes consumed; \<open>None\<close> when more bytes are needed.\<close>

definition decodeQuicVarint :: "bytes \<Rightarrow> (int \<times> nat) option" where
  "decodeQuicVarint input =
     (case input of
        [] \<Rightarrow> None
      | first # rest \<Rightarrow>
          (let len = 2 ^ nat (drop_bit 6 (uint first))
           in if length input < len then None
              else Some (foldl (\<lambda>val b. push_bit 8 val OR uint b) (uint first AND 0x3f) (take (len - 1) rest), len)))"

section \<open>Headers and datagrams\<close>

definition encodeBidiStreamHeader :: "int \<Rightarrow> quic_error + bytes" where
  "encodeBidiStreamHeader sessionId =
     bindR (encodeQuicVarint WEBTRANSPORT_STREAM_BIDI) (\<lambda>a. bindR (encodeQuicVarint sessionId) (\<lambda>b. Inr (a @ b)))"

definition encodeUniStreamHeader :: "int \<Rightarrow> quic_error + bytes" where
  "encodeUniStreamHeader sessionId =
     bindR (encodeQuicVarint WEBTRANSPORT_STREAM_UNI) (\<lambda>a. bindR (encodeQuicVarint sessionId) (\<lambda>b. Inr (a @ b)))"

definition quarterStreamId :: "int \<Rightarrow> int" where
  "quarterStreamId sessionId = drop_bit 2 sessionId"

definition encodeWtDatagram :: "int \<Rightarrow> bytes \<Rightarrow> quic_error + bytes" where
  "encodeWtDatagram sessionId payload = bindR (encodeQuicVarint (quarterStreamId sessionId)) (\<lambda>q. Inr (q @ payload))"

definition decodeWtDatagram :: "bytes \<Rightarrow> (int \<times> bytes) option" where
  "decodeWtDatagram input = map_option (\<lambda>(v, len). (v, drop len input)) (decodeQuicVarint input)"

section \<open>Arithmetic of the encoding\<close>

lemma or_shifted: "0 \<le> x \<Longrightarrow> x < 2 ^ n \<Longrightarrow> push_bit n (k :: int) OR x = 2 ^ n * k + x"
  using concat_bit_eq [of n x k] concat_bit_def [of n x k]
  by (simp add: take_bit_int_eq_self push_bit_eq_mult or.commute ac_simps)

lemma or_tag:
  assumes "0 \<le> (x :: int)" "x < 64"
  shows "0x40 OR x = 64 + x" "0x80 OR x = 128 + x" "0xc0 OR x = 192 + x"
  using or_shifted [of x 6 1] or_shifted [of x 6 2] or_shifted [of x 6 3] assms by simp_all

lemma or_byte: "push_bit 8 val OR uint (b :: byte) = 256 * val + uint b"
  using or_shifted [of "uint b" 8 val] uint_lt2p [of b] by simp

lemma and_ff: "(x :: int) AND 0xff = x mod 256"
  using take_bit_eq_mask [of 8 x] by (simp add: take_bit_eq_mod mask_eq_exp_minus_1)

lemma and_3f: "(x :: int) AND 0x3f = x mod 64"
  using take_bit_eq_mask [of 6 x] by (simp add: take_bit_eq_mod mask_eq_exp_minus_1)

lemma uint_of_int_byte: "uint (word_of_int x :: byte) = x mod 256"
  by (simp add: uint_word_of_int)

text \<open>The value of big-endian bytes.\<close>

definition be_value :: "int \<Rightarrow> bytes \<Rightarrow> int" where
  "be_value = foldl (\<lambda>val b. 256 * val + uint b)"

lemma decode_tagged:
  assumes "uint first = 64 * int tag + x" "0 \<le> x" "x < 64" "Suc (length bs) = 2 ^ tag"
  shows "decodeQuicVarint (first # bs @ rest) = Some (be_value x bs, Suc (length bs))"
    and "n < Suc (length bs) \<Longrightarrow> decodeQuicVarint (take n (first # bs)) = None"
proof -
  have tag: "nat (drop_bit 6 (uint first)) = tag" using assms(1-3) by (simp add: drop_bit_eq_div)
  have low: "uint first AND 0x3f = x" using assms(1-3) by (simp add: and_3f)
  show "decodeQuicVarint (first # bs @ rest) = Some (be_value x bs, Suc (length bs))"
    using assms(4) [symmetric] by (simp add: decodeQuicVarint_def Let_def tag low be_value_def or_byte)
  show "decodeQuicVarint (take n (first # bs)) = None" if "n < Suc (length bs)"
    using that assms(4) [symmetric] by (cases n) (simp_all add: decodeQuicVarint_def Let_def tag)
qed

lemma setBigUint64BE_eq:
  "setBigUint64BE v = [word_of_int (v div 2 ^ 56), word_of_int (v div 2 ^ 48), word_of_int (v div 2 ^ 40), word_of_int (v div 2 ^ 32),
     word_of_int (v div 2 ^ 24), word_of_int (v div 2 ^ 16), word_of_int (v div 2 ^ 8), word_of_int v]"
  by (simp add: setBigUint64BE_def drop_bit_eq_div)

lemma div_step: "256 * (v div 2 ^ (k + 8)) + v div 2 ^ k mod 256 = (v :: int) div 2 ^ k"
proof -
  have "v div 2 ^ (k + 8) = v div 2 ^ k div 256" by (simp add: power_add zdiv_zmult2_eq)
  then show ?thesis by simp
qed

lemmas div_steps = div_step [of v 0] div_step [of v 8] div_step [of v 16] div_step [of v 24] div_step [of v 32] div_step [of v 40]
  div_step [of v 48] for v

lemma quotient_below: "0 \<le> v \<Longrightarrow> v < 64 * 2 ^ k \<Longrightarrow> 0 \<le> v div 2 ^ k \<and> (v :: int) div 2 ^ k < 64"
proof
  assume "0 \<le> v" "v < 64 * 2 ^ k"
  have "v div 2 ^ k * 2 ^ k \<le> v" by (simp add: minus_mod_eq_div_mult [symmetric])
  with \<open>v < 64 * 2 ^ k\<close> have "v div 2 ^ k * 2 ^ k < 64 * 2 ^ k" by linarith
  then show "v div 2 ^ k < 64" by (rule mult_right_less_imp_less) simp
qed (simp add: pos_imp_zdiv_nonneg_iff)

definition quic_length :: "int \<Rightarrow> nat" where
  "quic_length v = (if v < 2 ^ 6 then 1 else if v < 2 ^ 14 then 2 else if v < 2 ^ 30 then 4 else 8)"

lemma encode_tagged:
  assumes "0 \<le> v" "v < 2 ^ 62"
  obtains first bs tag x where "encodeQuicVarint v = Inr (first # bs)" "uint first = 64 * int tag + x" "0 \<le> x" "x < 64"
    "Suc (length bs) = 2 ^ tag" "be_value x bs = v" "Suc (length bs) = quic_length v"
proof -
  consider "v < 2 ^ 6" | "2 ^ 6 \<le> v" "v < 2 ^ 14" | "2 ^ 14 \<le> v" "v < 2 ^ 30" | "2 ^ 30 \<le> v" by linarith
  then show thesis
  proof cases
    case 1
    then show thesis using assms that [of "word_of_int v" "[]" 0 v]
      by (simp add: encodeQuicVarint_def uint_of_int_byte be_value_def quic_length_def)
  next
    case 2
    then have x: "0 \<le> v div 2 ^ 8" "v div 2 ^ 8 < 64" using assms quotient_below [of v 8] by simp_all
    then have first: "uint (word_of_int (0x40 OR drop_bit 8 v) :: byte) = 64 + v div 2 ^ 8"
      unfolding uint_of_int_byte by (simp add: drop_bit_eq_div or_tag)
    have "be_value (v div 2 ^ 8) [word_of_int (v AND 0xff)] = v"
      using div_steps(1) [of v] by (simp add: be_value_def uint_of_int_byte and_ff)
    then show thesis using 2 x first that [of "word_of_int (0x40 OR drop_bit 8 v)" "[word_of_int (v AND 0xff)]" 1 "v div 2 ^ 8"]
      by (simp only: encodeQuicVarint_def quic_length_def) simp
  next
    case 3
    then have x: "0 \<le> v div 2 ^ 24" "v div 2 ^ 24 < 64" using assms quotient_below [of v 24] by simp_all
    then have first: "uint (word_of_int (0x80 OR drop_bit 24 v) :: byte) = 128 + v div 2 ^ 24"
      unfolding uint_of_int_byte by (simp add: drop_bit_eq_div or_tag)
    let ?bs = "[word_of_int (drop_bit 16 v AND 0xff), word_of_int (drop_bit 8 v AND 0xff), word_of_int (v AND 0xff)]"
    have "be_value (v div 2 ^ 24) ?bs = v"
      using div_steps [of v] by (simp add: be_value_def uint_of_int_byte and_ff drop_bit_eq_div)
    then show thesis using 3 x first that [of "word_of_int (0x80 OR drop_bit 24 v)" ?bs 2 "v div 2 ^ 24"]
      by (simp only: encodeQuicVarint_def quic_length_def) simp
  next
    case 4
    then have x: "0 \<le> v div 2 ^ 56" "v div 2 ^ 56 < 64" using assms quotient_below [of v 56] by simp_all
    then have first: "uint (word_of_int (v div 2 ^ 56) OR 0xc0 :: byte) = 192 + v div 2 ^ 56"
      by (simp add: uint_or uint_of_int_byte or.commute [of _ "0xc0 :: int"] or_tag)
    have "be_value (v div 2 ^ 56) (tl (setBigUint64BE v)) = v"
      using div_steps [of v] by (simp add: be_value_def uint_of_int_byte setBigUint64BE_eq)
    moreover have "encodeQuicVarint v = Inr ((word_of_int (v div 2 ^ 56) OR 0xc0) # tl (setBigUint64BE v))"
      using 4 assms by (simp add: encodeQuicVarint_def setBigUint64BE_eq)
    moreover have "Suc (length (tl (setBigUint64BE v))) = 8" by (simp add: setBigUint64BE_eq)
    ultimately show thesis using 4 x first that [of "word_of_int (v div 2 ^ 56) OR 0xc0" "tl (setBigUint64BE v)" 3 "v div 2 ^ 56"]
      by (simp add: quic_length_def)
  qed
qed

section \<open>Round trips\<close>

text \<open>
  C36. QUIC integers: every value below two to the power of 62 is encoded in the shortest of the four lengths, the encoding
  followed by anything decodes to the value and its length, and cut short it asks for more bytes; every other value is
  refused.
\<close>

theorem quic_varint_roundtrip:
  "if 0 \<le> v \<and> v < 2 ^ 62
   then \<exists>bs. encodeQuicVarint v = Inr bs \<and> length bs = quic_length v \<and> decodeQuicVarint (bs @ rest) = Some (v, length bs) \<and>
     (\<forall>n < length bs. decodeQuicVarint (take n bs) = None)
   else encodeQuicVarint v = Inl (if v < 0 then QuicNegative else QuicTooLarge)"
proof (cases "0 \<le> v \<and> v < 2 ^ 62")
  case True
  then have "0 \<le> v" "v < 2 ^ 62" by simp_all
  then obtain first bs tag x where e: "encodeQuicVarint v = Inr (first # bs)" "uint first = 64 * int tag + x" "0 \<le> x" "x < 64"
      "Suc (length bs) = 2 ^ tag" "be_value x bs = v" "Suc (length bs) = quic_length v"
    by (rule encode_tagged)
  have "decodeQuicVarint ((first # bs) @ rest) = Some (v, length (first # bs))" using decode_tagged(1) [OF e(2-5)] e(6) by simp
  moreover have "\<forall>n < length (first # bs). decodeQuicVarint (take n (first # bs)) = None" using decode_tagged(2) [OF e(2-5)] by simp
  moreover have "length (first # bs) = quic_length v" using e(7) by simp
  ultimately show ?thesis unfolding if_P [OF True] using e(1) by (intro exI [of _ "first # bs"] conjI)
qed (auto simp: encodeQuicVarint_def)

lemma decode_encoded: "encodeQuicVarint v = Inr bs \<Longrightarrow> decodeQuicVarint (bs @ rest) = Some (v, length bs)"
proof -
  assume bs: "encodeQuicVarint v = Inr bs"
  then have "0 \<le> v" "v < 2 ^ 62" by (auto simp: encodeQuicVarint_def split: if_splits)
  then obtain first cs tag x where e: "encodeQuicVarint v = Inr (first # cs)" "uint first = 64 * int tag + x" "0 \<le> x" "x < 64"
      "Suc (length cs) = 2 ^ tag" "be_value x cs = v" "Suc (length cs) = quic_length v"
    by (rule encode_tagged)
  with bs have "bs = first # cs" by simp
  with decode_tagged(1) [OF e(2-5)] e(6) show ?thesis by simp
qed

text \<open>
  A datagram names its session and carries its payload whole; and a stream header tells its kind and its session: no
  header is the start of another one, of either kind, for another session.
\<close>

theorem webtransport_framing:
  assumes "encodeWtDatagram sid payload = Inr d" "encodeBidiStreamHeader sid = Inr h"
    and "encodeBidiStreamHeader sid' = Inr h' \<or> encodeUniStreamHeader sid' = Inr h'" "prefix h' (h @ rest)"
  shows "decodeWtDatagram d = Some (sid div 4, payload) \<and> sid' = sid \<and> encodeBidiStreamHeader sid' = Inr h'"
proof -
  have "decodeWtDatagram d = Some (sid div 4, payload)"
    using assms(1) decode_encoded
    by (auto simp: encodeWtDatagram_def bindR_eq_Inr_conv decodeWtDatagram_def quarterStreamId_def drop_bit_eq_div)
  obtain a b where h: "encodeQuicVarint WEBTRANSPORT_STREAM_BIDI = Inr a" "encodeQuicVarint sid = Inr b" "h = a @ b"
    using assms(2) by (auto simp: encodeBidiStreamHeader_def bindR_eq_Inr_conv)
  obtain k a' b' where h': "encodeQuicVarint k = Inr a'" "encodeQuicVarint sid' = Inr b'" "h' = a' @ b'"
    "k = WEBTRANSPORT_STREAM_BIDI \<or> k = WEBTRANSPORT_STREAM_UNI"
    using assms(3) by (auto simp: encodeBidiStreamHeader_def encodeUniStreamHeader_def bindR_eq_Inr_conv)
  obtain r where r: "(a @ b) @ rest = (a' @ b') @ r" using assms(4) h(3) h'(3) by (auto simp: prefix_def)
  have "k = WEBTRANSPORT_STREAM_BIDI" "length a' = length a"
    using decode_encoded [OF h(1), of "b @ rest"] decode_encoded [OF h'(1), of "b' @ r"] r by auto
  with h(1) h'(1) have "a' = a" by simp
  with r have "b @ rest = b' @ r" by simp
  then have "sid' = sid" using decode_encoded [OF h(2), of rest] decode_encoded [OF h'(2), of r] by simp
  with \<open>decodeWtDatagram d = Some (sid div 4, payload)\<close> \<open>a' = a\<close> h h' show ?thesis
    by (auto simp: encodeBidiStreamHeader_def)
qed

theorem webtransport_framing_witness:
  "\<exists>d h. encodeWtDatagram 1000 [7] = Inr d \<and> encodeBidiStreamHeader 1000 = Inr h \<and> decodeWtDatagram d = Some (250, [7])"
proof -
  obtain d h where "encodeWtDatagram 1000 [7] = Inr d" "encodeBidiStreamHeader 1000 = Inr h"
    by (simp add: encodeWtDatagram_def encodeBidiStreamHeader_def quarterStreamId_def encodeQuicVarint_def WEBTRANSPORT_STREAM_BIDI_def
        drop_bit_eq_div)
  then show ?thesis using webtransport_framing [of 1000 "[7]" d h 1000 h "[]"] by simp
qed

theorem quic_varint_roundtrip_witness: "decodeQuicVarint [0x7b, 0xbd, 9] = Some (15293, 2)"
  using quic_varint_roundtrip [of 15293 "[9]"]
  by (simp add: encodeQuicVarint_def drop_bit_eq_div and_ff or_tag)

end
