(* ===== verification/Web_Client.thy ===== *)
theory Web_Client
  imports Api_Client
begin

text \<open>
  The account client a web page may hold (\<^verbatim>\<open>packages/web/src/web-client.ts\<close>): the four unsigned calls over a client that was
  given no seed. The transport is \<open>en_send\<close> of the environment, the default \<^verbatim>\<open>fetch\<close> like any other.
\<close>

section \<open>The client\<close>

record WarrenWebClientOptions =
  wo_baseUrl :: string
  wo_alternativeHosts :: "string list option"

definition newWebClient :: "token_platform \<Rightarrow> WarrenWebClientOptions \<Rightarrow> warren_error + WarrenApiClient" where
  "newWebClient pf options =
     newClient pf (wo_baseUrl options) None (case wo_alternativeHosts options of Some hosts \<Rightarrow> hosts | None \<Rightarrow> [])"

datatype web_request = WebExits | WebRegister json | WebVoucher string string | WebDirectory

datatype web_answer = ExitsText string | Registered json | Voucher "json option" | DirectoryText "string option"

fun web_call :: "'w api_env \<Rightarrow> web_request \<Rightarrow> ('w, web_answer) api" where
  "web_call env WebExits = bindA (exits env) (\<lambda>t. returnA (ExitsText t))"
| "web_call env (WebRegister req) = bindA (registerAccount env req) (\<lambda>j. returnA (Registered j))"
| "web_call env (WebVoucher wpid pullSecret) = bindA (pullPendingVoucher env wpid pullSecret) (\<lambda>v. returnA (Voucher v))"
| "web_call env WebDirectory = bindA (multihopDirectory env) (\<lambda>d. returnA (DirectoryText d))"

text \<open>Calls one after the other; one that fails leaves the client to the next.\<close>

fun web_run :: "'w api_env \<Rightarrow> web_request list \<Rightarrow> WarrenApiClient \<times> 'w \<Rightarrow> (warren_error + web_answer) list \<times> (WarrenApiClient \<times> 'w)" where
  "web_run env [] s = ([], s)"
| "web_run env (c # cs) s = (case web_call env c s of (r, s1) \<Rightarrow> (case web_run env cs s1 of (rs, s2) \<Rightarrow> (r # rs, s2)))"

section \<open>What leaves the page\<close>

text \<open>Exchanges without a signature, at most \<open>n\<close> of them: a computation that adds no others and leaves its client as it was.\<close>

definition unsigned_exchange :: "exchange \<Rightarrow> bool" where
  "unsigned_exchange e \<longleftrightarrow> fst ` set (rq_headers (fst e)) \<subseteq> {''accept'', ''user-agent'', ''content-type''}"

definition unsigned_api :: "nat \<Rightarrow> WarrenApiClient \<Rightarrow> ('w \<times> exchange list, 'a) api \<Rightarrow> bool" where
  "unsigned_api n cl f \<longleftrightarrow> (\<forall>w l r cl' w' l'. f (cl, (w, l)) = (r, (cl', (w', l'))) \<longrightarrow>
     cl' = cl \<and> (\<exists>ex. l' = l @ ex \<and> list_all unsigned_exchange ex \<and> length ex \<le> n))"

lemma unsigned_pure [simp]: "unsigned_api 0 cl (liftA r)" "unsigned_api 0 cl (returnA x)" "unsigned_api 0 cl (throwA e)"
  by (auto simp: unsigned_api_def liftA_def returnA_def throwA_def)

lemma unsigned_bind:
  assumes "unsigned_api n cl f" "\<And>x. unsigned_api m cl (g x)"
  shows "unsigned_api (n + m) cl (bindA f g)"
  unfolding unsigned_api_def
proof (intro allI impI)
  fix w l r cl' w' l'
  assume run: "bindA f g (cl, (w, l)) = (r, (cl', (w', l')))"
  obtain a cl1 w1 l1 where a: "f (cl, (w, l)) = (a, (cl1, (w1, l1)))" by (metis surj_pair)
  then obtain ex where ex: "cl1 = cl" "l1 = l @ ex" "list_all unsigned_exchange ex" "length ex \<le> n"
    using assms(1) unfolding unsigned_api_def by blast
  show "cl' = cl \<and> (\<exists>ex. l' = l @ ex \<and> list_all unsigned_exchange ex \<and> length ex \<le> n + m)"
  proof (cases a)
    case (Inl e)
    with run a ex show ?thesis by (auto simp: bindA_def)
  next
    case (Inr x)
    with run a ex have "g x (cl, (w1, l1)) = (r, (cl', (w', l')))" by (simp add: bindA_def)
    then obtain ex2 where "cl' = cl" "l' = l1 @ ex2" "list_all unsigned_exchange ex2" "length ex2 \<le> m"
      using assms(2) [of x] unfolding unsigned_api_def by blast
    with ex show ?thesis by (intro conjI exI [of _ "ex @ ex2"]) auto
  qed
qed

lemma unsigned_more: "unsigned_api n cl f \<Longrightarrow> n \<le> m \<Longrightarrow> unsigned_api m cl f"
  unfolding unsigned_api_def by (meson le_trans)

lemma unsigned_bind0: "unsigned_api n cl f \<Longrightarrow> (\<And>x. unsigned_api 0 cl (g x)) \<Longrightarrow> unsigned_api n cl (bindA f g)"
  using unsigned_bind [of n cl f 0 g] by simp

lemma unsigned_request:
  fixes env :: "'w api_env"
  shows "unsigned_api (length (ac_alternativeHosts cl) + 2) cl (request (logged env) method path body False)"
  unfolding unsigned_api_def
proof (intro allI impI)
  fix w l r cl' w' l'
  assume "request (logged env) method path body False (cl, (w, l)) = (r, (cl', (w', l')))"
  then have sent: "sendToFirstHostThatAnswers (logged env) method path body (plain_headers body) (cl, (w, l)) = (r, (cl', (w', l')))"
    by (auto simp: request_def buildHeaders_def bindA_def returnA_def split: prod.splits sum.splits)
  obtain ex where ex: "cl' = cl" "l' = l @ ex" "send_round (plain_headers body) ex" "length ex \<le> length (ac_alternativeHosts cl) + 2"
    using hosts_exchanges [OF sent] by blast
  have "list_all unsigned_exchange ex"
    using ex(3) by (auto simp: send_round_def unsigned_exchange_def plain_headers_def list_all_iff)
  with ex show "cl' = cl \<and> (\<exists>ex. l' = l @ ex \<and> list_all unsigned_exchange ex \<and> length ex \<le> length (ac_alternativeHosts cl) + 2)"
    by blast
qed

lemma unsigned_then:
  assumes "\<And>x. unsigned_api 0 cl (g x)"
  shows "unsigned_api (length (ac_alternativeHosts cl) + 2) cl (bindA (request (logged env) method path body False) g)"
  by (rule unsigned_bind0 [OF unsigned_request assms])

lemma unsigned_ok: "unsigned_api (length (ac_alternativeHosts cl) + 2) cl (okBody (logged env) method path body False)"
  unfolding okBody_def by (rule unsigned_then) simp

lemma unsigned_json: "unsigned_api (length (ac_alternativeHosts cl) + 2) cl (okJson (logged env) method path body False)"
  unfolding okJson_def by (rule unsigned_bind0 [OF unsigned_ok unsigned_pure(1)])

lemma unsigned_directory: "unsigned_api (length (ac_alternativeHosts cl) + 2) cl (multihopDirectoryAt (logged env) path)"
  unfolding multihopDirectoryAt_def by (rule unsigned_then) (simp add: unsigned_bind0)

lemma unsigned_call:
  fixes env :: "'w api_env"
  shows "unsigned_api (2 * (length (ac_alternativeHosts cl) + 2)) cl (web_call (logged env) c)"
proof (cases c)
  case WebExits
  show ?thesis unfolding WebExits web_call.simps exits_def
    by (rule unsigned_more [OF unsigned_bind0 [OF unsigned_bind0 [OF unsigned_ok unsigned_pure(2)] unsigned_pure(2)]]) simp
next
  case (WebRegister req)
  show ?thesis unfolding WebRegister web_call.simps registerAccount_def
    by (rule unsigned_more [OF unsigned_bind0 [OF unsigned_json unsigned_pure(2)]]) simp
next
  case (WebVoucher wpid secret)
  have "unsigned_api (length (ac_alternativeHosts cl) + 2) cl (pullPendingVoucher (logged env) wpid secret)"
    unfolding pullPendingVoucher_def by (rule unsigned_then) (simp add: unsigned_bind0)
  from unsigned_bind0 [OF this unsigned_pure(2)] show ?thesis unfolding WebVoucher web_call.simps by (rule unsigned_more) simp
next
  case WebDirectory
  have "unsigned_api (length (ac_alternativeHosts cl) + 2) cl
      (case d of Some t \<Rightarrow> returnA (Some t) | None \<Rightarrow> multihopDirectoryAt (logged env) ''/v1/multihop/directory'')" for d
    using unsigned_directory unsigned_more [OF unsigned_pure(2)] by (cases d) simp_all
  from unsigned_bind0 [OF unsigned_bind [OF unsigned_directory this] unsigned_pure(2)]
  show ?thesis unfolding WebDirectory web_call.simps multihopDirectory_def by (rule unsigned_more) simp
qed

text \<open>
  A web page sends nothing signed: over any sequence of calls on a client it built, whatever the hosts answer, each
  request carries the accept, agent and content-type headers and no other, so no address, signature or stamp of an
  identity; each call makes at most two rounds over the hosts; and the client holds no key afterwards.
\<close>

theorem web_client_unsigned:
  assumes "newWebClient pf options = Inr cl" "web_run (logged env) calls (cl, (w, [])) = (rs, (cl', (w', l)))"
  shows "ac_keyPair cl' = None \<and> length rs = length calls \<and>
    (\<forall>e \<in> set l. fst ` set (rq_headers (fst e)) \<subseteq> {''accept'', ''user-agent'', ''content-type''}) \<and>
    length l \<le> length calls * (2 * (length (case wo_alternativeHosts options of Some hosts \<Rightarrow> hosts | None \<Rightarrow> []) + 2))"
proof -
  have run: "cl2 = cl1 \<and> length rs1 = length cs \<and> (\<exists>ex. l2 = l1 @ ex \<and> list_all unsigned_exchange ex \<and>
      length ex \<le> length cs * (2 * (length (ac_alternativeHosts cl1) + 2)))"
    if "web_run (logged env) cs (cl1, (w1, l1)) = (rs1, (cl2, (w2, l2)))" for cs cl1 w1 l1 rs1 cl2 w2 l2
    using that
  proof (induction cs arbitrary: w1 l1 rs1)
    case (Cons c cs)
    let ?n = "2 * (length (ac_alternativeHosts cl1) + 2)"
    obtain r cl3 w3 l3 where call: "web_call (logged env) c (cl1, (w1, l1)) = (r, (cl3, (w3, l3)))" by (metis surj_pair)
    then obtain ex where ex: "cl3 = cl1" "l3 = l1 @ ex" "list_all unsigned_exchange ex" "length ex \<le> ?n"
      using unsigned_call [of cl1 env c] unfolding unsigned_api_def by blast
    obtain rs2 where rest: "web_run (logged env) cs (cl1, (w3, l3)) = (rs2, (cl2, (w2, l2)))" "rs1 = r # rs2"
      using Cons.prems call ex(1) by (auto split: prod.splits)
    from Cons.IH [OF rest(1)] obtain ex2 where "cl2 = cl1" "length rs2 = length cs" "l2 = l3 @ ex2" "list_all unsigned_exchange ex2"
      "length ex2 \<le> length cs * ?n" by blast
    with ex rest(2) show ?case by (intro conjI exI [of _ "ex @ ex2"]) auto
  qed simp
  have "ac_keyPair cl = None" "ac_alternativeHosts cl = (case wo_alternativeHosts options of Some hosts \<Rightarrow> hosts | None \<Rightarrow> [])"
    using assms(1) by (auto simp: newWebClient_def newClient_def)
  with run [OF assms(2)] show ?thesis by (auto simp: list_all_iff unsigned_exchange_def)
qed

theorem web_client_unsigned_witness:
  "\<exists>rs cl' w' l. web_run (logged \<lparr>en_send = (\<lambda>rq w. (Inr \<lparr>rs_status = 404, rs_body = [], rs_date = None\<rparr>, w)), en_now = (\<lambda>w. (0, w)),
      en_nonce = (\<lambda>w. ([], w)), en_dateParse = (\<lambda>_. None), en_urlWithHost = (\<lambda>b h. None), en_platform = sample_token_platform\<rparr>)
      [WebDirectory, WebExits] (\<lparr>ac_baseUrl = ''https://api'', ac_alternativeHosts = [], ac_keyPair = None, ac_clock = 0\<rparr>, ((), []))
      = (rs, (cl', (w', l))) \<and> length rs = 2 \<and> length l \<le> 8"
proof -
  let ?env = "\<lparr>en_send = (\<lambda>rq w. (Inr \<lparr>rs_status = 404, rs_body = [], rs_date = None\<rparr>, w)), en_now = (\<lambda>w. (0, w)),
      en_nonce = (\<lambda>w. ([], w)), en_dateParse = (\<lambda>_. None), en_urlWithHost = (\<lambda>b h. None), en_platform = sample_token_platform\<rparr> :: unit api_env"
  let ?cl = "\<lparr>ac_baseUrl = ''https://api'', ac_alternativeHosts = [], ac_keyPair = None, ac_clock = 0\<rparr>"
  have new: "newWebClient sample_token_platform \<lparr>wo_baseUrl = ''https://api/'', wo_alternativeHosts = None\<rparr> = Inr ?cl"
    by (simp add: newWebClient_def newClient_def trimSlashes_def)
  obtain rs cl' w' l where q: "web_run (logged ?env) [WebDirectory, WebExits] (?cl, ((), [])) = (rs, (cl', (w', l)))" by (metis surj_pair)
  from web_client_unsigned [OF new q] have "length rs = 2 \<and> length l \<le> 8" by simp
  with q show ?thesis by blast
qed

end
