(* ===== verification/Routing_Stores.thy ===== *)
theory Routing_Stores
  imports Browser_Routing
begin

text \<open>
  The stores behind the routing of the browser (\<^verbatim>\<open>RoutingStore\<close> of \<^verbatim>\<open>extension/src/browser-routing.ts\<close>, with its two
  implementations) and the settings closed beside it (\<^verbatim>\<open>extension/src/leaks.ts\<close>). A store is its state, which is what a
  background worker that dies leaves to the next one.
\<close>

section \<open>The contract of a routing store\<close>

datatype store_op = StoreSave RoutingRecord | StoreClear

fun store_run :: "(RoutingRecord \<Rightarrow> 's \<Rightarrow> 's) \<Rightarrow> ('s \<Rightarrow> 's) \<Rightarrow> store_op list \<Rightarrow> 's \<Rightarrow> 's" where
  "store_run sv cl [] s = s"
| "store_run sv cl (StoreSave r # ops) s = store_run sv cl ops (sv r s)"
| "store_run sv cl (StoreClear # ops) s = store_run sv cl ops (cl s)"

text \<open>What a sequence of operations leaves recorded, \<open>None\<close> when it ends in a clear.\<close>

fun recorded :: "store_op list \<Rightarrow> RoutingRecord option \<Rightarrow> RoutingRecord option" where
  "recorded [] r = r"
| "recorded (StoreSave r' # ops) r = recorded ops (Some r')"
| "recorded (StoreClear # ops) r = recorded ops None"

fun op_ok :: "store_op \<Rightarrow> bool" where
  "op_ok (StoreSave r) = record_ok r"
| "op_ok StoreClear = True"

locale routing_store =
  fixes ld :: "'s \<Rightarrow> unit + RoutingRecord option" and sv :: "RoutingRecord \<Rightarrow> 's \<Rightarrow> 's" and cl :: "'s \<Rightarrow> 's"
  assumes load_save: "record_ok r \<Longrightarrow> ld (sv r s) = Inr (Some r)" and load_clear: "ld (cl s) = Inr None"
begin

lemma loads_recorded: "list_all op_ok ops \<Longrightarrow> ld s = Inr r \<Longrightarrow> ld (store_run sv cl ops s) = Inr (recorded ops r)"
proof (induction ops arbitrary: s r)
  case (Cons x ops)
  then show ?case by (cases x) (simp_all add: load_save load_clear)
qed simp

end

section \<open>The two stores\<close>

text \<open>\<^verbatim>\<open>routingStoreOver\<close>: the area holds the value under the routing key, or nothing; a \<open>get\<close> that rejects is \<open>None\<close>.\<close>

definition area_load :: "json option option \<Rightarrow> unit + RoutingRecord option" where
  "area_load area = routing_load (case area of None \<Rightarrow> Inl () | Some v \<Rightarrow> Inr v)"

definition area_save :: "RoutingRecord \<Rightarrow> json option option \<Rightarrow> json option option" where
  "area_save r area = Some (routing_save r (Option.bind area id))"

definition area_clear :: "json option option \<Rightarrow> json option option" where
  "area_clear area = Some (routing_clear (Option.bind area id))"

interpretation area_store: routing_store area_load area_save area_clear
  by unfold_locales (simp_all add: area_load_def area_save_def area_clear_def routing_roundtrip routing_cleared)

text \<open>\<^verbatim>\<open>memoryRoutingStore\<close>.\<close>

definition memory_load :: "RoutingRecord option \<Rightarrow> unit + RoutingRecord option" where
  "memory_load state = Inr state"

definition memory_save :: "RoutingRecord \<Rightarrow> RoutingRecord option \<Rightarrow> RoutingRecord option" where
  "memory_save r state = Some r"

definition memory_clear :: "RoutingRecord option \<Rightarrow> RoutingRecord option" where
  "memory_clear state = None"

interpretation memory_store: routing_store memory_load memory_save memory_clear
  by unfold_locales (simp_all add: memory_load_def memory_save_def memory_clear_def)

text \<open>\<^verbatim>\<open>attachFirefoxRouting\<close> over a store: the listener reads it anew for each request.\<close>

definition attachFirefoxRouting ::
    "('s \<Rightarrow> unit + RoutingRecord option) \<Rightarrow> (string \<Rightarrow> string option) \<Rightarrow> (string \<Rightarrow> json) \<Rightarrow> (unit + string option) \<Rightarrow>
     (string \<Rightarrow> ExtensionProxyAuth option) option \<Rightarrow> 's \<Rightarrow> string \<Rightarrow> int option \<Rightarrow> firefox_answer" where
  "attachFirefoxRouting ld hostname num cred local store url tabId = firefox_onRequest hostname num (ld store) cred local url tabId"

text \<open>
  C27. The routing outlives the worker that installed it: after any saves and clears of records the browser can be told, the
  listener of a later worker, which has the storage area only, answers every request as one over a store in memory
  would, and as the record last saved says; once a lockdown is what was saved last, each request that is not to this
  machine or an exempt host is blocked.
\<close>

theorem routing_outlives_worker:
  assumes "list_all op_ok ops"
  shows "attachFirefoxRouting area_load hostname num cred local (store_run area_save area_clear ops (Some None)) url tabId =
      attachFirefoxRouting memory_load hostname num cred local (store_run memory_save memory_clear ops None) url tabId \<and>
    attachFirefoxRouting area_load hostname num cred local (store_run area_save area_clear ops (Some None)) url tabId =
      firefox_onRequest hostname num (Inr (recorded ops None)) cred local url tabId \<and>
    (\<forall>k. recorded ops None = Some (LockdownRecord k) \<longrightarrow> \<not> isLoopbackUrl hostname url \<longrightarrow>
       (\<forall>h \<in> set (lk_exempt k). hostname url \<noteq> None \<longrightarrow> toLowerCase h \<noteq> toLowerCase (the (hostname url))) \<longrightarrow>
       attachFirefoxRouting area_load hostname num cred local (store_run area_save area_clear ops (Some None)) url tabId = ProxyList FAIL_CLOSED_PROXY)"
proof -
  have "area_load (Some None) = Inr None" by (simp add: area_load_def routing_load_def asRoutingRecord_def)
  then have area: "area_load (store_run area_save area_clear ops (Some None)) = Inr (recorded ops None)"
    using area_store.loads_recorded [OF assms] by blast
  have mem: "memory_load (store_run memory_save memory_clear ops None) = Inr (recorded ops None)"
    using memory_store.loads_recorded [OF assms] by (simp add: memory_load_def)
  show ?thesis unfolding attachFirefoxRouting_def area mem
    by (auto simp: firefox_onRequest_def list_ex_iff split: option.split)
qed

theorem routing_outlives_worker_witness:
  "attachFirefoxRouting area_load (\<lambda>u. Some u) (\<lambda>t. JNull) (Inr None) None
     (store_run area_save area_clear [StoreClear, StoreSave (LockdownRecord \<lparr>lk_exempt = [''api.test''], lk_installedAt = JInt 7\<rparr>)] (Some None))
     ''example.com'' None = ProxyList FAIL_CLOSED_PROXY"
proof -
  let ?k = "\<lparr>lk_exempt = [''api.test''], lk_installedAt = JInt 7\<rparr>"
  have ops: "list_all op_ok [StoreClear, StoreSave (LockdownRecord ?k)]" and rec: "recorded [StoreClear, StoreSave (LockdownRecord ?k)] None = Some (LockdownRecord ?k)"
    by simp_all
  have "\<not> isLoopbackUrl (\<lambda>u. Some u) ''example.com''" "toLowerCase ''api.test'' \<noteq> toLowerCase ''example.com''" by code_simp+
  then show ?thesis
    using conjunct2 [OF conjunct2 [OF routing_outlives_worker [OF ops]], rule_format, OF rec, of "\<lambda>u. Some u" "''example.com''"] by simp
qed

text \<open>\<^verbatim>\<open>encodeBrowserProxyCredential\<close>, over the base64url codec of the package.\<close>

definition encodeBrowserProxyCredential :: "(bytes \<Rightarrow> string) \<Rightarrow> bytes \<Rightarrow> string" where
  "encodeBrowserProxyCredential base64urlnopad token = base64urlnopad token"

section \<open>The leaks beside the proxy\<close>

text \<open>
  The two settings of \<^verbatim>\<open>privacy.network\<close>: what the extension set each to, \<open>None\<close> while the browser decides; the prefetcher's
  may be absent. Each call of a setting takes or rejects.
\<close>

record PrivacyNetwork =
  pn_webRTCIPHandlingPolicy :: "json option"
  pn_networkPredictionEnabled :: "json option option"

definition set_both :: "json option \<Rightarrow> json option \<Rightarrow> bool \<Rightarrow> bool \<Rightarrow> PrivacyNetwork \<Rightarrow> (unit + unit) \<times> PrivacyNetwork" where
  "set_both policy prediction takes1 takes2 network =
     (if \<not> takes1 then (Inl (), network)
      else let n1 = network\<lparr>pn_webRTCIPHandlingPolicy := policy\<rparr>
           in (case pn_networkPredictionEnabled n1 of
                 None \<Rightarrow> (Inr (), n1)
               | Some _ \<Rightarrow> if takes2 then (Inr (), n1\<lparr>pn_networkPredictionEnabled := Some prediction\<rparr>) else (Inl (), n1)))"

definition hardenBrowserLeaks :: "bool \<Rightarrow> bool \<Rightarrow> PrivacyNetwork \<Rightarrow> (unit + unit) \<times> PrivacyNetwork" where
  "hardenBrowserLeaks = set_both (Some (JStr ''disable_non_proxied_udp'')) (Some (JBool False))"

definition releaseBrowserLeaks :: "bool \<Rightarrow> bool \<Rightarrow> PrivacyNetwork \<Rightarrow> (unit + unit) \<times> PrivacyNetwork" where
  "releaseBrowserLeaks = set_both None None"

definition leaks_closed :: "PrivacyNetwork \<Rightarrow> bool" where
  "leaks_closed n \<longleftrightarrow> pn_webRTCIPHandlingPolicy n = Some (JStr ''disable_non_proxied_udp'') \<and>
     pn_networkPredictionEnabled n \<in> {None, Some (Some (JBool False))}"

text \<open>
  A hardening that resolves has closed every leak the browser has a setting for, whatever was set before; a release that
  fails leaves the prefetcher closed, and one that resolves hands both settings back.
\<close>

theorem leaks_closed_and_released:
  "(fst (hardenBrowserLeaks t1 t2 n) = Inr () \<longrightarrow> leaks_closed (snd (hardenBrowserLeaks t1 t2 n))) \<and>
   (leaks_closed n \<longrightarrow> fst (releaseBrowserLeaks t1 t2 n) = Inl () \<longrightarrow>
      pn_networkPredictionEnabled (snd (releaseBrowserLeaks t1 t2 n)) \<in> {None, Some (Some (JBool False))}) \<and>
   (fst (releaseBrowserLeaks t1 t2 n) = Inr () \<longrightarrow> pn_webRTCIPHandlingPolicy (snd (releaseBrowserLeaks t1 t2 n)) = None \<and>
      pn_networkPredictionEnabled (snd (releaseBrowserLeaks t1 t2 n)) \<in> {None, Some None})"
  by (auto simp: hardenBrowserLeaks_def releaseBrowserLeaks_def set_both_def leaks_closed_def Let_def split: option.splits)

end
