(* ===== verification/Vpn_Desk.thy ===== *)
theory Vpn_Desk
  imports Proxy_Tunnel Stores Selector
begin

text \<open>
  The application the SDK ships with, the trusted side of the desk (\<^verbatim>\<open>examples/vpn-desk/server.mjs\<close>): a process that holds
  the mnemonic and a tunnel, and answers the JSON calls of a page on the loopback interface. It is a transition system
  over the requests of the page, the outcomes of the promises in flight, in any order, and what the tunnels report.
  Its keep-alive comments and its console output are left out.
\<close>

section \<open>Errors and their payloads\<close>

text \<open>The codes of \<^verbatim>\<open>core/src/discovery/errors.ts\<close>.\<close>

fun discovery_code :: "discovery_error \<Rightarrow> string" where
  "discovery_code DJson = ''json''"
| "discovery_code (DUnsupportedVersion v) = ''unsupported_version''"
| "discovery_code DServerPubkeyMismatch = ''server_pubkey_mismatch''"
| "discovery_code DValidityTooLong = ''validity_too_long''"
| "discovery_code DInvalidHex = ''invalid_hex''"
| "discovery_code DPubkeyNotOnCurve = ''pubkey_not_on_curve''"
| "discovery_code DBadSignature = ''bad_signature''"
| "discovery_code DInvalidNodeId = ''invalid_node_id''"
| "discovery_code DInvalidEndpointAddress = ''invalid_endpoint_address''"
| "discovery_code DEndpointFamilyMismatch = ''endpoint_family_mismatch''"
| "discovery_code DExpired = ''expired''"
| "discovery_code DRolledBack = ''rolled_back''"

text \<open>What a handler may throw; the messages of the errors of the core are texts of their own.\<close>

datatype desk_error =
    HttpError int string string
  | ProxyThrown WarrenProxyError
  | ApiThrown string string
  | DiscoveryThrown discovery_error string
  | MnemonicThrown
  | NoRelayThrown
  | OtherThrown

fun errorPayload :: "desk_error \<Rightarrow> int \<times> string \<times> string" where
  "errorPayload (HttpError status code message) = (status, code, message)"
| "errorPayload (ProxyThrown e) = (if pe_code e = ''unavailable'' then 503 else 502, pe_code e, pe_message e)"
| "errorPayload (ApiThrown code message) = (502, ''api_'' @ code, message)"
| "errorPayload (DiscoveryThrown e message) = (502, ''discovery_'' @ discovery_code e, message)"
| "errorPayload MnemonicThrown = (500, ''identity'', ''invalid mnemonic'')"
| "errorPayload NoRelayThrown = (404, ''no_exit_match'', ''no exit matches the selection'')"
| "errorPayload OtherThrown = (500, ''internal'', ''internal error'')"

fun tunnel_error :: "proxy_failure \<Rightarrow> desk_error" where
  "tunnel_error (ProxyFailure e) = ProxyThrown e"
| "tunnel_error ForeignFailure = OtherThrown"

section \<open>Request bodies\<close>

datatype body_event = Chunk string | BodyEnd | BodyError

definition MAX_BODY_BYTES :: nat where
  "MAX_BODY_BYTES = 64 * 1024"

text \<open>The promise of \<^verbatim>\<open>readJsonBody\<close>, \<open>None\<close> while the body has not ended; what comes after it settled is ignored.\<close>

fun body_loop :: "(string \<Rightarrow> json option) \<Rightarrow> nat \<Rightarrow> string list \<Rightarrow> body_event list \<Rightarrow> (desk_error + json) option" where
  "body_loop parse n chunks [] = None"
| "body_loop parse n chunks (Chunk c # evs) =
     (if n + length c > MAX_BODY_BYTES then Some (Inl (HttpError 413 ''body_too_large'' ''request body too large''))
      else body_loop parse (n + length c) (chunks @ [c]) evs)"
| "body_loop parse n chunks (BodyEnd # evs) =
     Some (if chunks = [] then Inr (JObj [])
           else case parse (concat chunks) of
             Some j \<Rightarrow> Inr j
           | None \<Rightarrow> Inl (HttpError 400 ''bad_json'' ''request body is not valid JSON''))"
| "body_loop parse n chunks (BodyError # evs) = Some (Inl (HttpError 400 ''bad_request'' ''request aborted''))"

definition readJsonBody :: "(string \<Rightarrow> json option) \<Rightarrow> body_event list \<Rightarrow> (desk_error + json) option" where
  "readJsonBody parse evs = body_loop parse 0 [] evs"

text \<open>A body that is taken is at most 64 KiB, and is what its chunks parse to; an empty one is the empty object.\<close>

theorem body_taken:
  assumes "readJsonBody parse evs = Some (Inr j)"
  shows "\<exists>cs rest. evs = map Chunk cs @ BodyEnd # rest \<and> length (concat cs) \<le> MAX_BODY_BYTES \<and>
    (if cs = [] then j = JObj [] else parse (concat cs) = Some j)"
proof -
  have "\<exists>cs rest. evs = map Chunk cs @ BodyEnd # rest \<and> n + length (concat cs) \<le> MAX_BODY_BYTES \<and>
      (if chunks @ cs = [] then j = JObj [] else parse (concat (chunks @ cs)) = Some j)"
    if "body_loop parse n chunks evs = Some (Inr j)" "n \<le> MAX_BODY_BYTES" for n chunks
    using that
  proof (induction parse n chunks evs rule: body_loop.induct)
    case (2 parse n chunks c evs)
    then have "n + length c \<le> MAX_BODY_BYTES" "body_loop parse (n + length c) (chunks @ [c]) evs = Some (Inr j)"
      by (simp_all split: if_splits)
    with 2 obtain cs rest where "evs = map Chunk cs @ BodyEnd # rest" "n + length c + length (concat cs) \<le> MAX_BODY_BYTES"
      "parse (concat (chunks @ c # cs)) = Some j" by (force split: if_splits)
    then show ?case by (intro exI [of _ "c # cs"] exI [of _ rest]) simp
  next
    case (3 parse n chunks evs)
    then show ?case by (intro exI [of _ "[]"] exI [of _ evs]) (auto split: if_splits option.splits)
  qed simp_all
  from this [OF assms [unfolded readJsonBody_def]] show ?thesis by (simp only: append_Nil add_0 le0 simp_thms)
qed

section \<open>Exits for the page\<close>

text \<open>A stable sort, \<open>le a b\<close> for a comparator that does not answer above zero.\<close>

fun insert_by :: "('a \<Rightarrow> 'a \<Rightarrow> bool) \<Rightarrow> 'a \<Rightarrow> 'a list \<Rightarrow> 'a list" where
  "insert_by le x [] = [x]"
| "insert_by le x (y # ys) = (if le x y then x # y # ys else y # insert_by le x ys)"

definition sort_by :: "('a \<Rightarrow> 'a \<Rightarrow> bool) \<Rightarrow> 'a list \<Rightarrow> 'a list" where
  "sort_by le xs = foldr (insert_by le) xs []"

text \<open>The order of \<^verbatim>\<open>sort()\<close> on strings.\<close>

fun unit_le :: "string \<Rightarrow> string \<Rightarrow> bool" where
  "unit_le [] b = True"
| "unit_le (x # a) [] = False"
| "unit_le (x # a) (y # b) = (let m = of_char x :: nat; n = of_char y in m < n \<or> (m = n \<and> unit_le a b))"

text \<open>The map of the countries, each with the set of its cities, in the order they were met.\<close>

fun add_exit :: "string \<Rightarrow> string \<Rightarrow> (string \<times> string list) list \<Rightarrow> (string \<times> string list) list" where
  "add_exit co ci [] = [(co, [ci])]"
| "add_exit co ci ((co', cities) # m) =
     (if co' = co then (co', if ci \<in> set cities then cities else cities @ [ci]) # m else (co', cities) # add_exit co ci m)"

definition exit_countries :: "(string \<Rightarrow> string \<Rightarrow> bool) \<Rightarrow> Relay list \<Rightarrow> (string \<times> string list) list" where
  "exit_countries localeLe rs =
     sort_by (\<lambda>a b. localeLe (fst a) (fst b)) (map (\<lambda>(code, cities). (code, sort_by unit_le cities))
       (fold (\<lambda>r. add_exit (country r) (city r)) (filter active rs) []))"

definition exits_json :: "(string \<Rightarrow> string \<Rightarrow> bool) \<Rightarrow> VerifiedRelayList \<Rightarrow> json" where
  "exits_json localeLe list =
     JObj [(''generation'', JInt (generation list)), (''expiresAt'', JInt (expiresAt list)),
       (''countries'', JArr (map (\<lambda>(code, cities). JObj [(''code'', JStr code), (''cities'', JArr (map JStr cities))])
          (exit_countries localeLe (relays list)))),
       (''exits'', JArr (map (\<lambda>r. JObj [(''pubkeyHex'', JStr (endpointIdHex r)), (''country'', JStr (country r)), (''city'', JStr (city r)),
          (''ipv6Egress'', JBool (ipv6Egress r))]) (filter active (relays list))))]"

lemma set_sort_by [simp]: "set (sort_by le xs) = set xs"
proof -
  have "set (insert_by le x ys) = insert x (set ys)" for x ys by (induction ys) auto
  then show ?thesis unfolding sort_by_def by (induction xs) simp_all
qed

definition places :: "(string \<times> string list) list \<Rightarrow> (string \<times> string) set" where
  "places m = {(co, ci). \<exists>cities. (co, cities) \<in> set m \<and> ci \<in> set cities}"

lemma places_add: "places (add_exit co ci m) = insert (co, ci) (places m)"
  by (induction m rule: add_exit.induct) (auto simp: places_def)

text \<open>The countries of the page and their cities are those of the active relays.\<close>

theorem exits_shown: "places (exit_countries localeLe rs) = (\<lambda>r. (country r, city r)) ` {r \<in> set rs. active r}"
proof -
  have "places (fold (\<lambda>r. add_exit (country r) (city r)) rs m) = places m \<union> (\<lambda>r. (country r, city r)) ` set rs" for rs :: "Relay list" and m
    by (induction rs arbitrary: m) (auto simp: places_add)
  moreover have "places (sort_by le (map (\<lambda>(code, cities). (code, sort_by unit_le cities)) m)) = places m" for le m
    by (force simp: places_def)
  moreover have "places [] = {}" by (simp add: places_def)
  moreover have "{r \<in> set rs. active r} = set (filter active rs)" by simp
  ultimately show ?thesis unfolding exit_countries_def by (simp only: sup_bot_left)
qed

section \<open>The desk\<close>

text \<open>
  The environment of the process, its imports and its file system: \<open>de_text\<close> is the message of a discovery error,
  \<open>de_localeLe\<close> the order of \<^verbatim>\<open>localeCompare\<close>.
\<close>

record desk_env =
  de_platform :: platform
  de_pin :: "string option"
  de_apiBase :: string
  de_mnemonic :: string
  de_address :: string
  de_addons :: "addon_file option list"
  de_text :: "discovery_error \<Rightarrow> string"
  de_localeLe :: "string \<Rightarrow> string \<Rightarrow> bool"
  de_resolve :: "string \<Rightarrow> string \<Rightarrow> string"
  de_publicDir :: string
  de_sep :: string
  de_readFile :: "string \<Rightarrow> string option"
  de_extname :: "string \<Rightarrow> string"

record listeners =
  li_socks5 :: string
  li_http :: "string option"
  li_exit :: "ProxyTunnelExit option"

datatype list_for = ForExits | ForConnect json

datatype desk_call =
    DkFetching list_for int
  | DkListed list_for VerifiedRelayList
  | DkDialing nat json Relay
  | DkCleaning desk_error
  | DkClosing
  | DkMeasuring
  | DkLeaving

datatype desk_answer = JsonAnswer int json | FileAnswer string string

text \<open>
  A tunnel is the number of its creation; \<open>dk_shut\<close> are those \<^verbatim>\<open>shutdown\<close> was called on. The frames of an event stream
  are the snapshots written to it.
\<close>

record desk =
  dk_cache :: "(VerifiedRelayList \<times> int) option"
  dk_stores :: "(InMemoryGenerationStore, InMemoryServerKeyStore) stores"
  dk_binding :: "native_binding option"
  dk_datapath :: bool
  dk_tunnel :: "nat option"
  dk_endpoints :: "listeners option"
  dk_exit :: "(string \<times> string) option"
  dk_state :: string
  dk_connecting :: bool
  dk_created :: "native_proxy list"
  dk_shut :: "nat list"
  dk_calls :: "desk_call list"
  dk_clients :: "nat list"
  dk_streams :: nat
  dk_frames :: "(nat \<times> json) list"
  dk_answers :: "desk_answer list"
  dk_closing :: bool
  dk_left :: bool

definition newDesk :: "desk_env \<Rightarrow> desk" where
  "newDesk env =
     (case isProxyDatapathAvailable (de_addons env) None of
        (ready, binding) \<Rightarrow>
          \<lparr>dk_cache = None, dk_stores = \<lparr>generationStore = Some 0, serverKeyStore = Some None\<rparr>, dk_binding = binding, dk_datapath = ready,
           dk_tunnel = None, dk_endpoints = None, dk_exit = None, dk_state = ''disconnected'', dk_connecting = False, dk_created = [], dk_shut = [],
           dk_calls = [], dk_clients = [], dk_streams = 0, dk_frames = [], dk_answers = [], dk_closing = False, dk_left = False\<rparr>)"

definition desk_exit_json :: "(string \<times> string) option \<Rightarrow> json" where
  "desk_exit_json x = (case x of None \<Rightarrow> JNull | Some (co, ci) \<Rightarrow> JObj [(''country'', JStr co), (''city'', JStr ci)])"

definition listeners_json :: "listeners option \<Rightarrow> json" where
  "listeners_json l =
     (case l of
        None \<Rightarrow> JNull
      | Some li \<Rightarrow> JObj ((''socks5'', JStr (li_socks5 li)) # opt_prop ''http'' JStr (li_http li)
          @ opt_prop ''exit'' (\<lambda>x. desk_exit_json (Some (pt_country x, pt_city x))) (li_exit li)))"

definition statusSnapshot :: "desk_env \<Rightarrow> desk \<Rightarrow> json" where
  "statusSnapshot env s =
     JObj [(''state'', JStr (dk_state s)), (''datapathAvailable'', JBool (dk_datapath s)), (''address'', JStr (de_address env)),
       (''apiBase'', JStr (de_apiBase env)), (''exit'', desk_exit_json (dk_exit s)), (''endpoints'', listeners_json (dk_endpoints s))]"

definition broadcastState :: "desk_env \<Rightarrow> desk \<Rightarrow> desk" where
  "broadcastState env s = s\<lparr>dk_frames := dk_frames s @ map (\<lambda>c. (c, statusSnapshot env s)) (dk_clients s)\<rparr>"

definition setTunnelState :: "desk_env \<Rightarrow> string \<Rightarrow> desk \<Rightarrow> desk" where
  "setTunnelState env st s =
     (let s1 = s\<lparr>dk_state := st\<rparr>
      in broadcastState env (if st = ''disconnected'' \<or> st = ''failed'' then s1\<lparr>dk_endpoints := None, dk_exit := None\<rparr> else s1))"

definition sendJson :: "int \<Rightarrow> json \<Rightarrow> desk \<Rightarrow> desk" where
  "sendJson status payload s = s\<lparr>dk_answers := dk_answers s @ [JsonAnswer status payload]\<rparr>"

definition error_json :: "string \<Rightarrow> string \<Rightarrow> json" where
  "error_json code message = JObj [(''error'', JObj [(''code'', JStr code), (''message'', JStr message)])]"

definition sendError :: "desk_error \<Rightarrow> desk \<Rightarrow> desk" where
  "sendError e s = (case errorPayload e of (status, code, message) \<Rightarrow> sendJson status (error_json code message) s)"

definition dk_await :: "desk_call \<Rightarrow> desk \<Rightarrow> desk" where
  "dk_await c s = s\<lparr>dk_calls := dk_calls s @ [c]\<rparr>"

section \<open>The relay list\<close>

definition EXITS_CACHE_SECS :: int where
  "EXITS_CACHE_SECS = 300"

text \<open>\<^verbatim>\<open>verifiedRelayList\<close> up to its await, at the clock \<open>now\<close>.\<close>

definition verifiedRelayList :: "list_for \<Rightarrow> int \<Rightarrow> desk \<Rightarrow> desk" where
  "verifiedRelayList why now s =
     (case dk_cache s of
        Some (list, fetchedAt) \<Rightarrow>
          if now - fetchedAt < EXITS_CACHE_SECS \<and> now < expiresAt list then dk_await (DkListed why list) s
          else dk_await (DkFetching why now) s
      | None \<Rightarrow> dk_await (DkFetching why now) s)"

definition desk_pins :: "desk_env \<Rightarrow> string list" where
  "desk_pins env = (case nonempty (de_pin env) of Some p \<Rightarrow> [p] | None \<Rightarrow> [])"

text \<open>A connect that failed: the end of it, and the tunnel torn down before that.\<close>

definition connect_over :: "desk_env \<Rightarrow> desk_error \<Rightarrow> desk \<Rightarrow> desk" where
  "connect_over env e s = sendError e ((setTunnelState env ''disconnected'' s)\<lparr>dk_connecting := False\<rparr>)"

definition desk_connect_failed :: "desk_env \<Rightarrow> desk_error \<Rightarrow> desk \<Rightarrow> desk" where
  "desk_connect_failed env e s =
     (case dk_tunnel s of
        Some t \<Rightarrow> dk_await (DkCleaning e) (s\<lparr>dk_tunnel := None, dk_shut := dk_shut s @ [t]\<rparr>)
      | None \<Rightarrow> connect_over env e s)"

definition list_failed :: "desk_env \<Rightarrow> list_for \<Rightarrow> desk_error \<Rightarrow> desk \<Rightarrow> desk" where
  "list_failed env why e s = (case why of ForExits \<Rightarrow> sendError e s | ForConnect body \<Rightarrow> desk_connect_failed env e s)"

text \<open>The list that was fetched, taken at the clock \<open>at\<close>.\<close>

definition list_fetched :: "desk_env \<Rightarrow> list_for \<Rightarrow> int \<Rightarrow> int \<Rightarrow> string \<Rightarrow> desk \<Rightarrow> desk" where
  "list_fetched env why now at raw s =
     (case acceptSignedRelayList (de_platform env) mem_ops (desk_pins env) at raw (dk_stores s) of
        Inl e \<Rightarrow> list_failed env why (DiscoveryThrown e (de_text env e)) s
      | Inr (list, stores) \<Rightarrow> dk_await (DkListed why list) (s\<lparr>dk_stores := stores, dk_cache := Some (list, now)\<rparr>))"

section \<open>Connecting\<close>

definition desk_selector :: "json \<Rightarrow> json" where
  "desk_selector body =
     (case nonempty (jstring body ''exitPubkeyHex'') of
        Some key \<Rightarrow> JObj [(''exitPubkeyHex'', JStr key)]
      | None \<Rightarrow>
          (case nonempty (jstring body ''country'') of
             Some co \<Rightarrow> JObj ((''country'', JStr co) # opt_prop ''city'' JStr (nonempty (jstring body ''city'')))
           | None \<Rightarrow> JObj []))"

definition desk_location :: "json \<Rightarrow> LocationConstraint" where
  "desk_location selector =
     (case jstring selector ''country'' of
        Some co \<Rightarrow> (case jstring selector ''city'' of Some ci \<Rightarrow> InCity co ci | None \<Rightarrow> InCountry co)
      | None \<Rightarrow> AnyLocation)"

definition desk_chosen :: "Relay list \<Rightarrow> json \<Rightarrow> selection_error + Relay" where
  "desk_chosen rs selector =
     (case jstring selector ''exitPubkeyHex'' of
        Some key \<Rightarrow> (case filter (\<lambda>r. active r \<and> endpointIdHex r = key) rs of r # _ \<Rightarrow> Inr r | [] \<Rightarrow> Inl NoRelayMatch)
      | None \<Rightarrow> selectExit rs \<lparr>q_location = Some (desk_location selector), q_ipAvailability = None, q_requireIpv6Egress = False\<rparr>)"

text \<open>\<^verbatim>\<open>advanced[k] === true\<close>.\<close>

definition desk_flag :: "json \<Rightarrow> string \<Rightarrow> bool" where
  "desk_flag body k \<longleftrightarrow> Option.bind (jget body ''advanced'') (\<lambda>a. jget a k) = Some (JBool True)"

definition desk_options :: "desk_env \<Rightarrow> VerifiedRelayList \<Rightarrow> json \<Rightarrow> ProxyTunnelOptions" where
  "desk_options env list body =
     \<lparr>pto_mnemonic = de_mnemonic env, pto_apiBase = de_apiBase env,
      pto_serverPubkeyPin = (case de_pin env of Some p \<Rightarrow> p | None \<Rightarrow> serverPubkeyHex list),
      pto_knobs = no_options\<lparr>pk_daita := (if desk_flag body ''daita'' then Some (JBool True) else None),
        pk_requestIpv6 := (if desk_flag body ''requestIpv6'' then Some True else None)\<rparr>,
      pto_nativeFactory = None\<rparr>"

definition desk_connect_options :: "json \<Rightarrow> json" where
  "desk_connect_options body =
     JObj ([(''selector'', desk_selector body), (''supervised'', JBool False)]
       @ (if desk_flag body ''httpProxy'' then [(''httpProxy'', JBool True)] else []))"

text \<open>
  The rest of \<^verbatim>\<open>handleConnect\<close> once its list is there, up to the await of the dial. The options name no device, so the
  paths of \<open>ProxyTunnel_create\<close> do not matter.
\<close>

definition connect_listed :: "desk_env \<Rightarrow> json \<Rightarrow> VerifiedRelayList \<Rightarrow> desk \<Rightarrow> desk" where
  "connect_listed env body list s =
     (if body = JNull then desk_connect_failed env OtherThrown s
      else case desk_chosen (relays list) (desk_selector body) of
        Inl _ \<Rightarrow> desk_connect_failed env NoRelayThrown s
      | Inr chosen \<Rightarrow>
          (case ProxyTunnel_create concat [] [] (de_addons env) (desk_options env list body) (dk_binding s) of
             (Inl e, binding) \<Rightarrow> desk_connect_failed env (tunnel_error e) (s\<lparr>dk_binding := binding\<rparr>)
           | (Inr native, binding) \<Rightarrow>
               (let t = length (dk_created s)
                in dk_await (DkDialing t (desk_connect_options body) chosen)
                     (setTunnelState env ''connecting'' (s\<lparr>dk_binding := binding, dk_created := dk_created s @ [native], dk_tunnel := Some t\<rparr>)))))"

definition desk_connected :: "desk_env \<Rightarrow> ProxyEndpoints \<Rightarrow> Relay \<Rightarrow> desk \<Rightarrow> desk" where
  "desk_connected env ep chosen s =
     (let s1 = s\<lparr>dk_endpoints := Some \<lparr>li_socks5 = px_socks5 ep, li_http = px_http ep, li_exit = px_exit ep\<rparr>,
                 dk_exit := Some (country chosen, city chosen)\<rparr>;
          s2 = (setTunnelState env ''connected'' s1)\<lparr>dk_connecting := False\<rparr>
      in sendJson 200 (JObj [(''endpoints'', listeners_json (dk_endpoints s2)), (''exit'', desk_exit_json (dk_exit s2))]) s2)"

definition handleConnect :: "int \<Rightarrow> json \<Rightarrow> desk \<Rightarrow> desk" where
  "handleConnect now body s =
     (if \<not> dk_datapath s
      then sendError (HttpError 503 ''unavailable'' ''native datapath addon is not built; running in control-plane only mode'') s
      else if dk_connecting s then sendError (HttpError 409 ''busy'' ''a connect is already in progress'') s
      else if dk_tunnel s \<noteq> None then sendError (HttpError 409 ''already_connected'' ''disconnect first'') s
      else verifiedRelayList (ForConnect body) now (s\<lparr>dk_connecting := True\<rparr>))"

definition ok_json :: json where
  "ok_json = JObj [(''ok'', JBool True)]"

definition handleDisconnect :: "desk \<Rightarrow> desk" where
  "handleDisconnect s =
     (case dk_tunnel s of
        None \<Rightarrow> sendJson 200 ok_json s
      | Some t \<Rightarrow> dk_await DkClosing (s\<lparr>dk_tunnel := None, dk_shut := dk_shut s @ [t]\<rparr>))"

definition handleMetrics :: "desk \<Rightarrow> desk" where
  "handleMetrics s = (case dk_tunnel s of None \<Rightarrow> sendJson 200 (JObj [(''metrics'', JNull)]) s | Some t \<Rightarrow> dk_await DkMeasuring s)"

definition openEventStream :: "desk_env \<Rightarrow> desk \<Rightarrow> desk" where
  "openEventStream env s =
     s\<lparr>dk_frames := dk_frames s @ [(dk_streams s, statusSnapshot env s)], dk_clients := dk_clients s @ [dk_streams s], dk_streams := dk_streams s + 1\<rparr>"

section \<open>Routes\<close>

definition MIME :: "string \<Rightarrow> string option" where
  "MIME e =
     map_of [(''.html'', ''text/html; charset=utf-8''), (''.js'', ''text/javascript; charset=utf-8''), (''.css'', ''text/css; charset=utf-8''),
       (''.svg'', ''image/svg+xml''), (''.png'', ''image/png''), (''.ico'', ''image/x-icon'')] e"

definition serveStatic :: "desk_env \<Rightarrow> string \<Rightarrow> desk \<Rightarrow> desk" where
  "serveStatic env pathname s =
     (let rel = (if pathname = ''/'' then ''index.html'' else dropWhile (\<lambda>c. c = CHR ''/'') pathname);
          file = de_resolve env (de_publicDir env) rel;
          missing = sendJson 404 (error_json ''not_found'' ''not found'') s
      in if file \<noteq> de_publicDir env \<and> \<not> startsWith file (de_publicDir env @ de_sep env) then missing
         else case de_readFile env file of
           None \<Rightarrow> missing
         | Some bytes \<Rightarrow>
             s\<lparr>dk_answers := dk_answers s @ [FileAnswer (case MIME (de_extname env file) of Some m \<Rightarrow> m | None \<Rightarrow> ''application/octet-stream'') bytes]\<rparr>)"

text \<open>A request at the clock \<open>now\<close>, with what came of its body; a connect whose body has not ended is no request yet.\<close>

definition desk_route :: "desk_env \<Rightarrow> string \<Rightarrow> string \<Rightarrow> int \<Rightarrow> body_event list \<Rightarrow> desk \<Rightarrow> desk option" where
  "desk_route env verb pathname now evs s =
     (let key = verb @ '' '' @ pathname
      in if key = ''GET /api/status'' then Some (sendJson 200 (statusSnapshot env s) s)
         else if key = ''GET /api/exits'' then Some (verifiedRelayList ForExits now s)
         else if key = ''POST /api/connect'' then
           (case readJsonBody (pf_parse (de_platform env)) evs of
              None \<Rightarrow> None
            | Some (Inl e) \<Rightarrow> Some (sendError e s)
            | Some (Inr body) \<Rightarrow> Some (handleConnect now body s))
         else if key = ''POST /api/disconnect'' then Some (handleDisconnect s)
         else if key = ''GET /api/metrics'' then Some (handleMetrics s)
         else if key = ''GET /api/events'' then Some (openEventStream env s)
         else if startsWith pathname ''/api/'' then Some (sendJson 404 (error_json ''not_found'' ''unknown API route'') s)
         else Some (serveStatic env pathname s))"

section \<open>The process\<close>

text \<open>\<^verbatim>\<open>shutdown\<close>, the handler of the two signals, and its end.\<close>

definition desk_leave :: "desk \<Rightarrow> desk" where
  "desk_leave s = s\<lparr>dk_clients := [], dk_left := True\<rparr>"

definition desk_signal :: "desk \<Rightarrow> desk" where
  "desk_signal s =
     (if dk_closing s then s
      else case dk_tunnel s of
        None \<Rightarrow> desk_leave (s\<lparr>dk_closing := True\<rparr>)
      | Some t \<Rightarrow> dk_await DkLeaving (s\<lparr>dk_closing := True, dk_shut := dk_shut s @ [t]\<rparr>))"

text \<open>How a promise in flight settles.\<close>

datatype desk_outcome =
    Given
  | Fetched int string
  | FetchThrows desk_error
  | Dialed "string + NativeProxyEndpoints"
  | ShutDown "string + unit"
  | Measured "string + json"

text \<open>
  The connect of a tunnel that was told to shut down only ever rejects: the addon promises that a shutdown that races it
  fails it closed.
\<close>

fun desk_settle :: "desk_env \<Rightarrow> desk_call \<Rightarrow> desk_outcome \<Rightarrow> desk \<Rightarrow> desk option" where
  "desk_settle env (DkFetching why now) (Fetched at raw) s = Some (list_fetched env why now at raw s)"
| "desk_settle env (DkFetching why now) (FetchThrows e) s = Some (list_failed env why e s)"
| "desk_settle env (DkListed ForExits list) Given s = Some (sendJson 200 (exits_json (de_localeLe env) list) s)"
| "desk_settle env (DkListed (ForConnect body) list) Given s = Some (connect_listed env body list s)"
| "desk_settle env (DkDialing t co chosen) (Dialed r) s =
     (case ProxyTunnel_connect r of
        Inl e \<Rightarrow> Some (desk_connect_failed env (ProxyThrown e) s)
      | Inr ep \<Rightarrow> if t \<in> set (dk_shut s) then None else Some (desk_connected env ep chosen s))"
| "desk_settle env (DkCleaning e) (ShutDown r) s = Some (connect_over env e s)"
| "desk_settle env DkClosing (ShutDown r) s =
     Some (case native_call r of
             Inl e \<Rightarrow> sendError (ProxyThrown e) s
           | Inr u \<Rightarrow> sendJson 200 ok_json (setTunnelState env ''disconnected'' s))"
| "desk_settle env DkMeasuring (Measured r) s =
     Some (case native_call r of
             Inl e \<Rightarrow> sendError (ProxyThrown e) s
           | Inr m \<Rightarrow> sendJson 200 (JObj [(''metrics'', m)]) s)"
| "desk_settle env DkLeaving (ShutDown r) s = Some (desk_leave s)"
| "desk_settle env _ _ s = None"

datatype desk_event = Http string string int "body_event list" | StreamClosed nat | Settles nat desk_outcome | TunnelReports nat string | Signal

fun desk_step :: "desk_env \<Rightarrow> desk_event \<Rightarrow> desk \<Rightarrow> desk option" where
  "desk_step env (Http verb pathname now evs) s = desk_route env verb pathname now evs s"
| "desk_step env (StreamClosed c) s = Some (s\<lparr>dk_clients := removeAll c (dk_clients s)\<rparr>)"
| "desk_step env (Settles k out) s =
     (if k < length (dk_calls s)
      then desk_settle env (dk_calls s ! k) out (s\<lparr>dk_calls := take k (dk_calls s) @ drop (Suc k) (dk_calls s)\<rparr>)
      else None)"
| "desk_step env (TunnelReports t st) s = (if t < length (dk_created s) then Some (setTunnelState env st s) else None)"
| "desk_step env Signal s = Some (desk_signal s)"

fun desk_run :: "desk_env \<Rightarrow> desk_event list \<Rightarrow> desk \<Rightarrow> desk option" where
  "desk_run env [] s = Some s"
| "desk_run env (e # es) s = Option.bind (desk_step env e s) (desk_run env es)"

section \<open>Every tunnel is accounted for\<close>

lemma desk_frame [simp]:
  "dk_calls (setTunnelState env st s) = dk_calls s" "dk_calls (sendJson n j s) = dk_calls s" "dk_calls (sendError e s) = dk_calls s"
  "dk_tunnel (setTunnelState env st s) = dk_tunnel s" "dk_tunnel (sendJson n j s) = dk_tunnel s" "dk_tunnel (sendError e s) = dk_tunnel s"
  "dk_created (setTunnelState env st s) = dk_created s" "dk_created (sendJson n j s) = dk_created s" "dk_created (sendError e s) = dk_created s"
  "dk_shut (setTunnelState env st s) = dk_shut s" "dk_shut (sendJson n j s) = dk_shut s" "dk_shut (sendError e s) = dk_shut s"
  "dk_connecting (setTunnelState env st s) = dk_connecting s" "dk_connecting (sendJson n j s) = dk_connecting s" "dk_connecting (sendError e s) = dk_connecting s"
  "dk_stores (setTunnelState env st s) = dk_stores s" "dk_stores (sendJson n j s) = dk_stores s" "dk_stores (sendError e s) = dk_stores s"
  "dk_cache (setTunnelState env st s) = dk_cache s" "dk_cache (sendJson n j s) = dk_cache s" "dk_cache (sendError e s) = dk_cache s"
  "dk_binding (setTunnelState env st s) = dk_binding s" "dk_binding (sendJson n j s) = dk_binding s" "dk_binding (sendError e s) = dk_binding s"
  by (simp_all add: setTunnelState_def broadcastState_def sendJson_def sendError_def Let_def split: prod.split)

lemma await_frame [simp]:
  "dk_calls (dk_await c s) = dk_calls s @ [c]" "dk_tunnel (dk_await c s) = dk_tunnel s" "dk_created (dk_await c s) = dk_created s"
  "dk_shut (dk_await c s) = dk_shut s" "dk_connecting (dk_await c s) = dk_connecting s" "dk_stores (dk_await c s) = dk_stores s"
  "dk_cache (dk_await c s) = dk_cache s" "dk_binding (dk_await c s) = dk_binding s"
  by (simp_all add: dk_await_def)

text \<open>The calls of a connect in flight, and those of one that has built no tunnel yet.\<close>

fun connect_call :: "desk_call \<Rightarrow> bool" where
  "connect_call (DkFetching (ForConnect b) n) = True"
| "connect_call (DkListed (ForConnect b) l) = True"
| "connect_call (DkDialing t co r) = True"
| "connect_call (DkCleaning e) = True"
| "connect_call _ = False"

fun before_tunnel :: "desk_call \<Rightarrow> bool" where
  "before_tunnel (DkFetching (ForConnect b) n) = True"
| "before_tunnel (DkListed (ForConnect b) l) = True"
| "before_tunnel _ = False"

text \<open>The books with the calls \<open>cs\<close> in hand beside those in flight.\<close>

definition accounts :: "desk_call list \<Rightarrow> desk \<Rightarrow> bool" where
  "accounts cs s \<longleftrightarrow>
     length (filter connect_call cs) + length (filter connect_call (dk_calls s)) = (if dk_connecting s then 1 else 0) \<and>
     ((\<exists>c \<in> set cs \<union> set (dk_calls s). before_tunnel c) \<longrightarrow> dk_tunnel s = None) \<and>
     (\<forall>t. dk_tunnel s = Some t \<longrightarrow> t < length (dk_created s)) \<and>
     (\<forall>t < length (dk_created s). dk_tunnel s = Some t \<or> t \<in> set (dk_shut s))"

lemma accounts_cong:
  "dk_calls s' = dk_calls s \<Longrightarrow> dk_connecting s' = dk_connecting s \<Longrightarrow> dk_tunnel s' = dk_tunnel s \<Longrightarrow> dk_created s' = dk_created s \<Longrightarrow>
     dk_shut s' = dk_shut s \<Longrightarrow> accounts cs s' = accounts cs s"
  by (simp add: accounts_def)

lemma accounts_frame [simp]:
  "accounts cs (setTunnelState env st s) = accounts cs s" "accounts cs (sendJson n j s) = accounts cs s" "accounts cs (sendError e s) = accounts cs s"
  "accounts cs (s\<lparr>dk_binding := b\<rparr>) = accounts cs s" "accounts cs (s\<lparr>dk_stores := st1, dk_cache := ca\<rparr>) = accounts cs s"
  "accounts cs (s\<lparr>dk_answers := an\<rparr>) = accounts cs s" "accounts cs (s\<lparr>dk_endpoints := ep, dk_exit := ex\<rparr>) = accounts cs s"
  "accounts cs (s\<lparr>dk_clients := cl\<rparr>) = accounts cs s" "accounts cs (s\<lparr>dk_clients := cl, dk_left := le\<rparr>) = accounts cs s"
  "accounts cs (s\<lparr>dk_closing := clo, dk_clients := cl, dk_left := le\<rparr>) = accounts cs s"
  "accounts cs (s\<lparr>dk_frames := fr, dk_clients := cl, dk_streams := sn\<rparr>) = accounts cs s"
  by (rule accounts_cong; simp)+

lemma accounts_take:
  assumes "accounts [] s" "k < length (dk_calls s)"
  shows "accounts [dk_calls s ! k] (s\<lparr>dk_calls := take k (dk_calls s) @ drop (Suc k) (dk_calls s)\<rparr>)"
proof -
  let ?c = "dk_calls s ! k" and ?rest = "take k (dk_calls s) @ drop (Suc k) (dk_calls s)"
  have calls: "dk_calls s = take k (dk_calls s) @ ?c # drop (Suc k) (dk_calls s)" by (rule id_take_nth_drop [OF assms(2)])
  have "length (filter connect_call (dk_calls s)) = length (filter connect_call [?c]) + length (filter connect_call ?rest)"
    by (subst calls) simp
  moreover have "set (dk_calls s) = set [?c] \<union> set ?rest" by (subst calls) auto
  ultimately show ?thesis using assms(1) unfolding accounts_def by simp
qed

lemma accounts_over: "accounts [c] s \<Longrightarrow> connect_call c \<Longrightarrow> accounts [] (connect_over env e s)"
  by (auto simp: accounts_def connect_over_def split: if_splits)

lemma accounts_failed: "accounts [c] s \<Longrightarrow> connect_call c \<Longrightarrow> accounts [] (desk_connect_failed env e s)"
proof (cases "dk_tunnel s")
  case (Some t)
  assume "accounts [c] s" "connect_call c"
  with Some show ?thesis by (auto simp: accounts_def desk_connect_failed_def split: if_splits)
qed (use accounts_over in \<open>auto simp: desk_connect_failed_def\<close>)

lemma connect_alone:
  assumes "accounts [c] s" "connect_call c"
  shows "\<not> (\<exists>d \<in> set (dk_calls s). before_tunnel d)" "dk_connecting s" "filter connect_call (dk_calls s) = []"
proof -
  show *: "filter connect_call (dk_calls s) = []" "dk_connecting s" using assms by (auto simp: accounts_def split: if_splits)
  have "before_tunnel d \<Longrightarrow> connect_call d" for d by (cases d rule: before_tunnel.cases) simp_all
  then show "\<not> (\<exists>d \<in> set (dk_calls s). before_tunnel d)" using *(1) by (auto simp: filter_empty_conv)
qed

lemma accounts_listed:
  assumes "accounts [DkListed (ForConnect body) list] s"
  shows "accounts [] (connect_listed env body list s)"
proof -
  let ?c = "DkListed (ForConnect body) list"
  have none: "dk_tunnel s = None" using assms by (auto simp: accounts_def)
  have alone: "\<not> (\<exists>d \<in> set (dk_calls s). before_tunnel d)" "dk_connecting s" "filter connect_call (dk_calls s) = []"
    using connect_alone [OF assms] by simp_all
  have other: "accounts [?c] (s\<lparr>dk_binding := b\<rparr>)" for b using assms by simp
  have shut: "\<forall>t < length (dk_created s). t \<in> set (dk_shut s)"
  proof -
    have "\<forall>t < length (dk_created s). dk_tunnel s = Some t \<or> t \<in> set (dk_shut s)" using assms unfolding accounts_def by (elim conjE)
    with none show ?thesis by simp
  qed
  have built: "accounts [] (dk_await (DkDialing (length (dk_created s)) co r)
      (setTunnelState env st (s\<lparr>dk_binding := b, dk_created := dk_created s @ [native], dk_tunnel := Some (length (dk_created s))\<rparr>)))" for co r st b native
    using shut alone by (simp add: accounts_def less_Suc_eq)
  show ?thesis
    using accounts_failed [OF assms] accounts_failed [OF other] built
    by (simp add: connect_listed_def Let_def split: sum.split prod.split)
qed

lemma accounts_await:
  "accounts [c] s \<Longrightarrow> connect_call c' = connect_call c \<Longrightarrow> before_tunnel c' \<longrightarrow> before_tunnel c \<Longrightarrow> accounts [] (dk_await c' s)"
  by (auto simp: accounts_def split: if_splits)

lemma accounts_drop: "accounts [c] s \<Longrightarrow> \<not> connect_call c \<Longrightarrow> accounts [] s"
  by (auto simp: accounts_def)

lemma accounts_list_failed: "accounts [DkFetching why now] s \<Longrightarrow> accounts [] (list_failed env why e s)"
  using accounts_failed [of "DkFetching why now" s env e] accounts_drop [of "DkFetching why now" s] by (cases why) (auto simp: list_failed_def)

lemma accounts_fetched:
  assumes "accounts [DkFetching why now] s"
  shows "accounts [] (list_fetched env why now at raw s)"
proof (cases "acceptSignedRelayList (de_platform env) mem_ops (desk_pins env) at raw (dk_stores s)")
  case (Inl e)
  then show ?thesis using accounts_list_failed [OF assms] by (simp add: list_fetched_def)
next
  case (Inr r)
  obtain list stores where r: "r = (list, stores)" by fastforce
  have "accounts [DkFetching why now] (s\<lparr>dk_stores := stores, dk_cache := Some (list, now)\<rparr>)" using assms by simp
  then have "accounts [] (dk_await (DkListed why list) (s\<lparr>dk_stores := stores, dk_cache := Some (list, now)\<rparr>))"
    by (rule accounts_await) (cases why; simp)+
  then show ?thesis using Inr r by (simp add: list_fetched_def)
qed

lemma accounts_settle:
  assumes "desk_settle env c out s = Some s'" "accounts [c] s"
  shows "accounts [] s'"
proof -
  have connected: "accounts [] (desk_connected env ep chosen s)" if "connect_call c" "\<not> before_tunnel c" for ep chosen
    using assms(2) that by (auto simp: desk_connected_def Let_def accounts_def split: if_splits)
  have left: "accounts [] (desk_leave s)" if "\<not> connect_call c"
    using accounts_drop [OF assms(2) that] by (simp add: desk_leave_def)
  show ?thesis
    using assms connected left accounts_fetched accounts_list_failed accounts_listed accounts_over accounts_failed accounts_drop
    by (cases "(env, c, out, s)" rule: desk_settle.cases) (auto split: sum.splits if_splits)
qed

lemma accounts_route:
  assumes "desk_route env verb pathname now evs s = Some s'" "accounts [] s"
  shows "accounts [] s'"
proof -
  have lists: "accounts [] (verifiedRelayList ForExits now s)"
    using assms(2) by (auto simp: verifiedRelayList_def accounts_def split: option.split)
  have connect: "accounts [] (handleConnect now body s)" for body
    using assms(2) by (auto simp: handleConnect_def verifiedRelayList_def accounts_def split: option.split if_splits)
  have disconnect: "accounts [] (handleDisconnect s)"
    using assms(2) by (auto simp: handleDisconnect_def accounts_def split: option.split)
  have metrics: "accounts [] (handleMetrics s)"
    using assms(2) by (auto simp: handleMetrics_def accounts_def split: option.split)
  have stream: "accounts [] (openEventStream env s)" using assms(2) by (simp add: openEventStream_def)
  have static: "accounts [] (serveStatic env pathname s)"
    using assms(2) by (simp add: serveStatic_def Let_def split: option.split)
  show ?thesis
    using assms lists connect disconnect metrics stream static
    by (auto simp: desk_route_def Let_def split: if_splits option.splits sum.splits)
qed

lemma accounts_step:
  assumes "desk_step env e s = Some s'" "accounts [] s"
  shows "accounts [] s'"
proof (cases e)
  case (Settles k out)
  then show ?thesis using assms accounts_settle accounts_take by (auto split: if_splits)
next
  case Signal
  then show ?thesis using assms by (auto simp: desk_signal_def desk_leave_def accounts_def split: option.splits if_splits)
qed (use assms accounts_route in \<open>auto split: if_splits\<close>)

section \<open>Every tunnel is pinned to one key\<close>

text \<open>
  With no pin in the environment, the lists in use are signed by the key that was trusted first, and the tunnels are
  pinned to it; with one, the tunnels are pinned to that. Each tunnel is built by an addon of the right ABI, of the
  process' own account.
\<close>

definition first_key :: "desk_env \<Rightarrow> desk \<Rightarrow> string \<Rightarrow> bool" where
  "first_key env s key \<longleftrightarrow> (\<exists>p. tofuPin mem_ops (dk_stores s) = Some p \<and> key = toLowerCase p)"

definition pinned_tunnel :: "desk_env \<Rightarrow> desk \<Rightarrow> native_proxy \<Rightarrow> bool" where
  "pinned_tunnel env s native \<longleftrightarrow>
     (\<exists>b pin opts. native = FromAddon b (de_mnemonic env) (de_apiBase env) pin opts \<and> matching b \<and>
        (case de_pin env of Some p \<Rightarrow> pin = p | None \<Rightarrow> first_key env s pin))"

definition lists_held :: "desk \<Rightarrow> VerifiedRelayList set" where
  "lists_held s = {l. \<exists>why. DkListed why l \<in> set (dk_calls s)} \<union> {l. \<exists>at. dk_cache s = Some (l, at)}"

definition desk_trust :: "desk_env \<Rightarrow> desk \<Rightarrow> bool" where
  "desk_trust env s \<longleftrightarrow> serverKeyStore (dk_stores s) \<noteq> None \<and> (\<forall>b. dk_binding s = Some b \<longrightarrow> matching b) \<and>
     (de_pin env = None \<longrightarrow> (\<forall>l \<in> lists_held s. first_key env s (serverPubkeyHex l))) \<and> (\<forall>n \<in> set (dk_created s). pinned_tunnel env s n)"

lemma key_cong: "dk_stores s' = dk_stores s \<Longrightarrow> first_key env s' = first_key env s"
  by (rule ext) (simp add: first_key_def)

lemma native_matching:
  assumes "loadNative cs cached = (r, cached')" "\<forall>b. cached = Some b \<longrightarrow> matching b"
  shows "\<forall>b. cached' = Some b \<longrightarrow> matching b" "r = Inr b \<Longrightarrow> matching b \<and> cached' = Some b"
  using assms load_candidates_matching [of cs] by (auto simp: loadNative_def split: option.splits sum.splits)

lemma pinned_mono:
  "pinned_tunnel env s n \<Longrightarrow> (\<And>key. de_pin env = None \<Longrightarrow> first_key env s key \<Longrightarrow> first_key env s' key) \<Longrightarrow> pinned_tunnel env s' n"
  unfolding pinned_tunnel_def by (cases "de_pin env") fastforce+

lemma pinned_cong:
  assumes "dk_stores s' = dk_stores s"
  shows "pinned_tunnel env s' = pinned_tunnel env s"
  by (rule ext) (unfold pinned_tunnel_def key_cong [OF assms], rule refl)

lemma trust_mono:
  assumes "desk_trust env s" "dk_stores s' = dk_stores s" "dk_binding s' = dk_binding s" "dk_created s' = dk_created s" "lists_held s' \<subseteq> lists_held s"
  shows "desk_trust env s'"
  using assms pinned_cong [OF assms(2)] key_cong [OF assms(2)] by (auto simp: desk_trust_def)

lemma lists_frame [simp]:
  "lists_held (setTunnelState env st s) = lists_held s" "lists_held (sendJson n j s) = lists_held s" "lists_held (sendError e s) = lists_held s"
  by (simp_all add: lists_held_def)

lemma trust_frame [simp]:
  assumes "desk_trust env s"
  shows "desk_trust env (setTunnelState env st s)" "desk_trust env (sendJson n j s)" "desk_trust env (sendError e s)"
    "desk_trust env (s\<lparr>dk_tunnel := x1\<rparr>)" "desk_trust env (s\<lparr>dk_connecting := x2\<rparr>)" "desk_trust env (s\<lparr>dk_tunnel := x1, dk_shut := x3\<rparr>)"
    "desk_trust env (s\<lparr>dk_endpoints := x4, dk_exit := x5\<rparr>)" "desk_trust env (s\<lparr>dk_clients := x6\<rparr>)" "desk_trust env (s\<lparr>dk_answers := x7\<rparr>)"
    "desk_trust env (s\<lparr>dk_closing := x8\<rparr>)" "desk_trust env (s\<lparr>dk_closing := x8, dk_shut := x3\<rparr>)" "desk_trust env (s\<lparr>dk_clients := x6, dk_left := x9\<rparr>)"
    "desk_trust env (s\<lparr>dk_frames := x10, dk_clients := x6, dk_streams := x11\<rparr>)"
    "desk_trust env (s\<lparr>dk_closing := x8, dk_clients := x6, dk_left := x9\<rparr>)"
  by (rule trust_mono [OF assms]; simp add: lists_held_def)+

lemma trust_take: "desk_trust env s \<Longrightarrow> desk_trust env (s\<lparr>dk_calls := take k (dk_calls s) @ drop (Suc k) (dk_calls s)\<rparr>)"
  by (rule trust_mono) (auto simp: lists_held_def dest: in_set_takeD in_set_dropD)

lemma trust_await:
  assumes "desk_trust env s" "\<And>why l. c = DkListed why l \<Longrightarrow> de_pin env = None \<Longrightarrow> first_key env s (serverPubkeyHex l)"
  shows "desk_trust env (dk_await c s)"
  using assms pinned_cong [of "dk_await c s" s] key_cong [of "dk_await c s" s] by (auto simp: desk_trust_def lists_held_def)

lemma trust_list: "desk_trust env s \<Longrightarrow> desk_trust env (verifiedRelayList why now s)"
  by (auto simp: verifiedRelayList_def intro!: trust_await split: option.split) (auto simp: desk_trust_def lists_held_def)

lemma trust_failed [simp]: "desk_trust env s \<Longrightarrow> desk_trust env (connect_over env e s)" "desk_trust env s \<Longrightarrow> desk_trust env (desk_connect_failed env e s)"
  by (auto simp: connect_over_def desk_connect_failed_def intro: trust_await split: option.split)

lemma trust_list_failed [simp]: "desk_trust env s \<Longrightarrow> desk_trust env (list_failed env why e s)"
  by (simp add: list_failed_def split: list_for.split)

lemma trust_fetched:
  assumes "desk_trust env s"
  shows "desk_trust env (list_fetched env why now at raw s)"
proof (cases "acceptSignedRelayList (de_platform env) mem_ops (desk_pins env) at raw (dk_stores s)")
  case (Inl e)
  then show ?thesis using assms by (simp add: list_fetched_def)
next
  case (Inr r)
  obtain list stores where r: "r = (list, stores)" by fastforce
  let ?s = "s\<lparr>dk_stores := stores, dk_cache := Some (list, now)\<rparr>"
  have acc: "acceptSignedRelayList (de_platform env) mem_ops (desk_pins env) at raw (dk_stores s) = Inr (list, stores)" using Inr r by simp
  have stores: "serverKeyStore stores \<noteq> None"
    using acc assms by (auto simp: acceptSignedRelayList_def bindR_eq_Inr_conv finishAccept_def Let_def desk_trust_def split: if_splits)
  have tofu: "first_key env ?s (serverPubkeyHex list)" "first_key env s key \<Longrightarrow> first_key env ?s key" if "de_pin env = None" for key
  proof -
    have pins: "desk_pins env = []" using that by (simp add: desk_pins_def nonempty_def)
    note step = mem.policy_pin [OF acceptSignedRelayList_policy acc [unfolded pins]]
    show "first_key env ?s (serverPubkeyHex list)" "first_key env s key \<Longrightarrow> first_key env ?s key"
      using step(1,3) assms by (auto simp: first_key_def desk_trust_def)
  qed
  have "pinned_tunnel env ?s n" if "n \<in> set (dk_created s)" for n
    using pinned_mono [of env s n ?s] tofu(2) assms that unfolding desk_trust_def by blast
  then have "desk_trust env ?s"
    using assms stores tofu by (auto simp: desk_trust_def lists_held_def)
  then show ?thesis using acc tofu(1) by (auto simp: list_fetched_def intro!: trust_await)
qed

lemma trust_listed:
  assumes "desk_trust env s" "de_pin env = None \<Longrightarrow> first_key env s (serverPubkeyHex list)"
  shows "desk_trust env (connect_listed env body list s)"
proof -
  let ?options = "desk_options env list body"
  have built: "desk_trust env (s\<lparr>dk_binding := binding, dk_created := dk_created s @ [native], dk_tunnel := t\<rparr>)"
    if create: "ProxyTunnel_create concat [] [] (de_addons env) ?options (dk_binding s) = (Inr native, binding)" for native binding t
  proof -
    have cached: "\<forall>b. dk_binding s = Some b \<longrightarrow> matching b" using assms(1) by (simp add: desk_trust_def)
    obtain r c where load: "loadNative (de_addons env) (dk_binding s) = (r, c)" by fastforce
    then obtain b where r: "r = Inr b"
      using create by (cases r) (simp_all add: ProxyTunnel_create_def desk_options_def Let_def)
    have b: "loadNative (de_addons env) (dk_binding s) = (Inr b, Some b)" "matching b"
      using native_matching(2) [OF load cached r] load r by simp_all
    have pin: "case de_pin env of Some p \<Rightarrow> pto_serverPubkeyPin ?options = p | None \<Rightarrow> first_key env s (pto_serverPubkeyPin ?options)"
      using assms(2) by (auto simp: desk_options_def split: option.split)
    have "pinned_tunnel env s native" "binding = Some b"
      using create b pin by (auto simp: ProxyTunnel_create_def pinned_tunnel_def desk_options_def Let_def split: option.splits)
    then show ?thesis
      using assms(1) b(2) pinned_cong [of "s\<lparr>dk_binding := binding, dk_created := dk_created s @ [native], dk_tunnel := t\<rparr>" s]
        key_cong [of "s\<lparr>dk_binding := binding, dk_created := dk_created s @ [native], dk_tunnel := t\<rparr>" s]
      by (auto simp: desk_trust_def lists_held_def)
  qed
  have kept: "desk_trust env (s\<lparr>dk_binding := binding\<rparr>)"
    if "ProxyTunnel_create concat [] [] (de_addons env) ?options (dk_binding s) = (Inl e, binding)" for e binding
  proof -
    have cached: "\<forall>b. dk_binding s = Some b \<longrightarrow> matching b" using assms(1) by (simp add: desk_trust_def)
    obtain r c where load: "loadNative (de_addons env) (dk_binding s) = (r, c)" by fastforce
    then have "binding = c" using that by (cases r) (auto simp: ProxyTunnel_create_def desk_options_def Let_def split: option.splits)
    then have "\<forall>b. binding = Some b \<longrightarrow> matching b" using native_matching(1) [OF load cached] by simp
    then show ?thesis
      using assms(1) pinned_cong [of "s\<lparr>dk_binding := binding\<rparr>" s] key_cong [of "s\<lparr>dk_binding := binding\<rparr>" s]
      by (auto simp: desk_trust_def lists_held_def)
  qed
  show ?thesis
    using assms(1) built kept
    by (auto simp: connect_listed_def Let_def intro!: trust_await split: sum.split prod.split)
qed

lemma trust_settle:
  assumes "desk_settle env c out s = Some s'" "desk_trust env s"
    and "\<And>why l. c = DkListed why l \<Longrightarrow> de_pin env = None \<Longrightarrow> first_key env s (serverPubkeyHex l)"
  shows "desk_trust env s'"
  using assms trust_fetched trust_listed
  by (cases "(env, c, out, s)" rule: desk_settle.cases) (auto simp: desk_connected_def desk_leave_def Let_def split: sum.splits if_splits)

lemma trust_route:
  assumes "desk_route env verb pathname now evs s = Some s'" "desk_trust env s"
  shows "desk_trust env s'"
proof -
  have connect: "desk_trust env (handleConnect now body s)" for body
    using assms(2) by (simp add: handleConnect_def trust_list)
  have disconnect: "desk_trust env (handleDisconnect s)" "desk_trust env (handleMetrics s)"
    using assms(2) by (auto simp: handleDisconnect_def handleMetrics_def intro: trust_await split: option.split)
  have static: "desk_trust env (serveStatic env pathname s)"
    using assms(2) by (auto simp: serveStatic_def Let_def split: option.split)
  show ?thesis
    using assms connect disconnect static trust_list
    by (auto simp: desk_route_def openEventStream_def Let_def split: if_splits option.splits sum.splits)
qed

lemma trust_step:
  assumes "desk_step env e s = Some s'" "desk_trust env s"
  shows "desk_trust env s'"
proof (cases e)
  case (Settles k out)
  let ?s = "s\<lparr>dk_calls := take k (dk_calls s) @ drop (Suc k) (dk_calls s)\<rparr>"
  have k: "k < length (dk_calls s)" and step: "desk_settle env (dk_calls s ! k) out ?s = Some s'" using assms(1) Settles by (auto split: if_splits)
  have "first_key env ?s (serverPubkeyHex l)" if "dk_calls s ! k = DkListed why l" "de_pin env = None" for why l
    using assms(2) that nth_mem [OF k] by (auto simp: desk_trust_def lists_held_def first_key_def)
  from trust_settle [OF step trust_take [OF assms(2)] this] show ?thesis .
next
  case Signal
  then show ?thesis using assms by (auto simp: desk_signal_def desk_leave_def intro: trust_await split: option.splits if_splits)
qed (use assms trust_route in \<open>auto split: if_splits\<close>)

lemma desk_new: "accounts [] (newDesk env)" "desk_trust env (newDesk env)"
proof -
  obtain ready binding where b: "isProxyDatapathAvailable (de_addons env) None = (ready, binding)" by fastforce
  obtain r c where load: "loadNative (de_addons env) None = (r, c)" by fastforce
  then have "binding = c"
    using b by (cases r) (auto simp: isProxyDatapathAvailable_def proxyDatapathStatus_def split: proxy_failure.splits)
  then have "\<forall>x. binding = Some x \<longrightarrow> matching x" using native_matching(1) [OF load] by simp
  then show "accounts [] (newDesk env)" "desk_trust env (newDesk env)"
    using b by (auto simp: newDesk_def accounts_def desk_trust_def lists_held_def)
qed

lemma desk_run_inv: "desk_run env es s = Some s' \<Longrightarrow> accounts [] s \<Longrightarrow> desk_trust env s \<Longrightarrow> accounts [] s' \<and> desk_trust env s'"
  by (induction es arbitrary: s) (auto simp: bind_eq_Some_conv dest: accounts_step trust_step)

text \<open>
  C5. The desk leaks no tunnel and lets none through unpinned: over any run, however its calls interleave, at most one
  connect is in progress; every tunnel that was created is the one held or was told to shut down, so a failed connect
  leaves none; and all were built by an addon of the right ABI for the process' own account, and pinned to one and the
  same key: the pin of the environment, or the key that signed the first list that was accepted.
\<close>

theorem desk_tunnels_accounted:
  assumes "desk_run env es (newDesk env) = Some s"
  shows "length (filter connect_call (dk_calls s)) \<le> 1 \<and> {t. t < length (dk_created s) \<and> t \<notin> set (dk_shut s)} \<subseteq> set_option (dk_tunnel s) \<and>
    (\<exists>pin. (\<forall>native \<in> set (dk_created s). \<exists>b opts. native = FromAddon b (de_mnemonic env) (de_apiBase env) pin opts \<and> matching b) \<and>
       (\<forall>p. de_pin env = Some p \<longrightarrow> pin = p) \<and>
       (de_pin env = None \<longrightarrow> dk_created s \<noteq> [] \<longrightarrow> map_option toLowerCase (tofuPin mem_ops (dk_stores s)) = Some pin))"
proof -
  have inv: "accounts [] s" "desk_trust env s" using desk_run_inv [OF assms desk_new] by simp_all
  have books: "length (filter connect_call (dk_calls s)) \<le> 1" "{t. t < length (dk_created s) \<and> t \<notin> set (dk_shut s)} \<subseteq> set_option (dk_tunnel s)"
    using inv(1) by (auto simp: accounts_def split: if_splits)
  let ?pin = "case de_pin env of Some p \<Rightarrow> p | None \<Rightarrow> (case tofuPin mem_ops (dk_stores s) of Some p \<Rightarrow> toLowerCase p | None \<Rightarrow> [])"
  have "\<forall>native \<in> set (dk_created s). \<exists>b opts. native = FromAddon b (de_mnemonic env) (de_apiBase env) ?pin opts \<and> matching b"
    using inv(2) by (fastforce simp: desk_trust_def pinned_tunnel_def first_key_def split: option.splits)
  moreover have "map_option toLowerCase (tofuPin mem_ops (dk_stores s)) = Some ?pin" if "de_pin env = None" "dk_created s \<noteq> []"
    using inv(2) that by (cases "dk_created s") (auto simp: desk_trust_def pinned_tunnel_def first_key_def)
  ultimately show ?thesis using books by (intro conjI exI [of _ ?pin]) auto
qed

section \<open>A sample desk\<close>

definition sample_desk_env :: desk_env where
  "sample_desk_env = \<lparr>de_platform = reference_platform, de_pin = None, de_apiBase = ''https://api'', de_mnemonic = ''art'', de_address = ''wb'',
     de_addons = [None, Some (Addon sample_addon)], de_text = (\<lambda>_. []), de_localeLe = unit_le, de_resolve = (\<lambda>d r. d @ ''/'' @ r),
     de_publicDir = ''/srv'', de_sep = ''/'', de_readFile = (\<lambda>_. None), de_extname = (\<lambda>_. [])\<rparr>"

text \<open>A list of one relay.\<close>

definition sample_listing :: json where
  "sample_listing = JObj [(''version'', JInt 10), (''nodes'', JArr [node_json sample_node]), (''generation'', JInt 4), (''signed_at'', JInt 100),
     (''expires_at'', JInt 200), (''server_pubkey_hex'', JStr (hex_encode (replicate 32 0))), (''signature_hex'', JStr (hex_encode (replicate 64 0)))]"

definition sample_desk_relay :: Relay where
  "sample_desk_relay = \<lparr>endpointIdHex = toLowerCase (hex_encode (replicate 32 5)), exitIdHex = toLowerCase (hex_encode (replicate 16 6)),
      country = ''CH'', city = ''Zurich'', weight = 10, active = True, ipv6Egress = False, hasIpv4 = True,
      hasIpv6 = False, addrs = [''10.0.0.1:443''], coverDomain = None\<rparr>"

lemma sample_node_valid: "validateNode (node_json sample_node) = Inr sample_node"
  by (simp add: validateNode_def node_json_def sample_node_def endpoint_json_def listener_json_def validateEndpoint_def validateListener_def
      asObject_def asObjectAt_def object_keys_ok_def asU64_def asString_def asArray_def asBool_def asOptional_def isSafeInteger_def of_option_def)

lemma sample_listing_verified:
  "verifySignedRelayList reference_platform (stringify sample_listing) [] =
     Inr \<lparr>generation = 4, signedAt = 100, expiresAt = 200, relays = [sample_desk_relay], serverPubkeyHex = hex_encode (replicate 32 0)\<rparr>"
proof -
  have read: "json_read (stringify sample_listing) = Some sample_listing"
    by (rule json_read_stringify) (simp add: sample_listing_def node_json_def sample_node_def endpoint_json_def listener_json_def)
  have "parseSignedRelayList reference_platform (stringify sample_listing) =
      Inr \<lparr>sl_version = 10, sl_nodes = [sample_node], sl_generation = 4, sl_signed_at = 100, sl_expires_at = 200,
        sl_server_pubkey_hex = hex_encode (replicate 32 0), sl_signature_hex = hex_encode (replicate 64 0)\<rparr>"
    by (simp add: parseSignedRelayList_def read)
      (simp add: sample_listing_def sample_node_valid of_option_def asObject_def object_keys_ok_def asU64_def asString_def asArray_def isSafeInteger_def SIGNED_VERSION_def)
  then show ?thesis
    by (simp add: verifySignedRelayList_def pinned_def checkListSignature_def MAX_VALIDITY_SECS_def sample_node_resolved sample_desk_relay_def)
qed

definition sample_desk_events :: "desk_event list" where
  "sample_desk_events = [Http ''POST'' ''/api/connect'' 150 [BodyEnd], Settles 0 (Fetched 150 (stringify sample_listing)), Settles 0 Given]"

lemma sample_desk:
  "\<exists>s co. desk_run sample_desk_env sample_desk_events (newDesk sample_desk_env) = Some s \<and> dk_calls s = [DkDialing 0 co sample_desk_relay] \<and>
     dk_tunnel s = Some 0 \<and> length (dk_created s) = 1"
proof -
  let ?list = "\<lparr>generation = 4, signedAt = 100, expiresAt = 200, relays = [sample_desk_relay], serverPubkeyHex = hex_encode (replicate 32 0)\<rparr>"
  let ?stores = "\<lparr>generationStore = Some 4, serverKeyStore = Some (Some (hex_encode (replicate 32 0)))\<rparr> :: (InMemoryGenerationStore, InMemoryServerKeyStore) stores"
  have accept: "acceptSignedRelayList reference_platform mem_ops [] 150 (stringify sample_listing) \<lparr>generationStore = Some 0, serverKeyStore = Some None\<rparr> = Inr (?list, ?stores)"
    by (simp add: acceptSignedRelayList_def sample_listing_verified effectivePins_def tofuPin_def finishAccept_def floorOf_def isExpired_def
        mem_ops_def memLoadFloor_def memStoreFloor_def memLoadPin_def memStorePin_def Let_def)
  have chosen: "desk_chosen [sample_desk_relay] (desk_selector (JObj [])) = Inr sample_desk_relay"
    by (simp add: desk_chosen_def desk_selector_def desk_location_def jstring_def nonempty_def selectExit_def exit_candidates_def relayMatches_def sample_desk_relay_def)
  have addon: "nativeBindingStatus sample_addon = Some DatapathReady" "\<And>a p o'. nb_new sample_addon ''art'' a p o' = None"
    by (simp_all add: nativeBindingStatus_def sample_addon_def NATIVE_BINDING_ABI_def)
  have new: "newDesk sample_desk_env = (newDesk sample_desk_env)\<lparr>dk_binding := Some sample_addon, dk_datapath := True\<rparr>"
    by (simp add: newDesk_def isProxyDatapathAvailable_def proxyDatapathStatus_def loadNative_def sample_desk_env_def addon)
  have flags: "desk_flag (JObj []) k = False" for k by (simp add: desk_flag_def)
  show ?thesis
    by (subst new)
      (simp add: sample_desk_events_def desk_route_def readJsonBody_def handleConnect_def verifiedRelayList_def newDesk_def list_fetched_def
        connect_listed_def ProxyTunnel_create_def desk_options_def setTunnelState_def broadcastState_def dk_await_def desk_pins_def nonempty_def
        sample_desk_env_def accept chosen addon flags Let_def split: prod.split)
qed

theorem desk_tunnels_accounted_witness:
  "\<exists>s pin b opts. desk_run sample_desk_env sample_desk_events (newDesk sample_desk_env) = Some s \<and>
     dk_created s = [FromAddon b ''art'' ''https://api'' pin opts] \<and> map_option toLowerCase (tofuPin mem_ops (dk_stores s)) = Some pin"
proof -
  obtain s where s: "desk_run sample_desk_env sample_desk_events (newDesk sample_desk_env) = Some s" "length (dk_created s) = 1"
    using sample_desk by blast
  then obtain native where native: "dk_created s = [native]" by (auto simp: length_Suc_conv)
  have env: "de_pin sample_desk_env = None" "de_mnemonic sample_desk_env = ''art''" "de_apiBase sample_desk_env = ''https://api''"
    by (simp_all add: sample_desk_env_def)
  show ?thesis using desk_tunnels_accounted [OF s(1)] s(1) unfolding native env by (auto simp: native)
qed

end
