(* ===== verification/Spec2Isabelle.thy ===== *)
theory Spec2Isabelle
  imports Control Frames Warrend Identity Selector Seal Session_Walk Api_Client Stores Vpn_Runs Edge Keyring Host_Link Webtransport
    Web_Client Routing_Stores Vpn_Desk
begin

text \<open>
  A verification library of the Warren SDK: the TypeScript packages \<^verbatim>\<open>core\<close>, \<^verbatim>\<open>node\<close>, \<^verbatim>\<open>extension\<close> and \<^verbatim>\<open>web\<close> of the repository,
  and the trusted process of its example application.

  The program. A client of Warren holds a mnemonic. From it the core derives a signing key and calls the account API, whose
  answers include two signed documents, the list of exits and the directory of multi-hop nodes, and blind-signed session
  tokens. A tunnel is then brought up in one of three ways: by the privileged daemon (\<^verbatim>\<open>node/src/warrend\<close>), by the native
  addon with its local proxy listeners (\<^verbatim>\<open>node/src/proxy\<close>), or by the browser itself over WebTransport
  (\<^verbatim>\<open>extension/src/edge.ts\<close>). The extension does the second through a native host, a process that speaks JSON frames over its
  standard streams, and routes the browser into its listeners.

  Theories and what they model. Paths are under \<^verbatim>\<open>packages/\<close>.

  \<^item> \<^verbatim>\<open>Warren_Prelude\<close>, \<^verbatim>\<open>Json\<close>, \<^verbatim>\<open>Wire_Reader\<close>, \<^verbatim>\<open>Platform\<close>, \<^verbatim>\<open>Errors\<close>: bytes, errors as sums, strings and numbers of the
    language; JSON values with their printer and narrowing; reading a structure by a moving offset (the locale
    \<^verbatim>\<open>wire_field\<close>: what a field writer and its reader promise each other); what the packages the SDK calls do, as records
    of functions; the error classes.
  \<^item> \<^verbatim>\<open>Varint\<close>, \<^verbatim>\<open>Frames\<close>, \<^verbatim>\<open>Control\<close>, \<^verbatim>\<open>Webtransport\<close>: the wire codecs of \<^verbatim>\<open>core/src/edge\<close>: \<^verbatim>\<open>varint.ts\<close>, \<^verbatim>\<open>frame.ts\<close> and
    \<^verbatim>\<open>frame-v2.ts\<close>, \<^verbatim>\<open>control.ts\<close>, \<^verbatim>\<open>webtransport.ts\<close>.
  \<^item> \<^verbatim>\<open>Stream_Framing\<close>, \<^verbatim>\<open>Warrend\<close>: length-prefixed JSON streams (the locale \<^verbatim>\<open>length_prefix\<close>, interpreted for the
    daemon's big-endian and the browser's little-endian prefix) and the daemon client of \<^verbatim>\<open>node/src/warrend\<close>.
  \<^item> \<^verbatim>\<open>Identity\<close>: \<^verbatim>\<open>core/src/identity\<close>: addresses, derivation, request signatures, the encrypted mnemonic.
  \<^item> \<^verbatim>\<open>Relay_List\<close>, \<^verbatim>\<open>Directory\<close>, \<^verbatim>\<open>Stores\<close>, \<^verbatim>\<open>Selector\<close>: \<^verbatim>\<open>core/src/discovery\<close> with \<^verbatim>\<open>edge/pq-descriptor.ts\<close>: verification of
    the two signed documents, the acceptance policy over its stores (the locale \<^verbatim>\<open>trust_stores\<close>), the selection of an exit.
  \<^item> \<^verbatim>\<open>Kem\<close>, \<^verbatim>\<open>Seal\<close>: \<^verbatim>\<open>hpke.ts\<close>, \<^verbatim>\<open>xwing.ts\<close>, \<^verbatim>\<open>seal.ts\<close>, \<^verbatim>\<open>pq-seal.ts\<close>: key agreement and the sealed sessions, with the
    domain separation of their texts (the locale \<^verbatim>\<open>slot_text\<close>).
  \<^item> \<^verbatim>\<open>Token\<close>, \<^verbatim>\<open>Token_Acquire\<close>, \<^verbatim>\<open>Token_Manager\<close>, \<^verbatim>\<open>Session_Walk\<close>: blind tokens (\<^verbatim>\<open>token.ts\<close>, \<^verbatim>\<open>token-blinding.ts\<close>), their
    acquisition, the manager of their epochs and leases (the locales \<^verbatim>\<open>pass_invariant\<close> and \<^verbatim>\<open>manager_invariant\<close>), and the
    admission walk (the locale \<^verbatim>\<open>lease_pool\<close>, interpreted on the manager and on the edge client).
  \<^item> \<^verbatim>\<open>Device\<close>, \<^verbatim>\<open>Kept_Stores\<close>: the device identity of \<^verbatim>\<open>core/src/device\<close> and the stores that keep it (the locale
    \<^verbatim>\<open>kept_text\<close>, interpreted on the process memory, the extension's storage and the Node file).
  \<^item> \<^verbatim>\<open>Api_Client\<close>, \<^verbatim>\<open>Web_Client\<close>: \<^verbatim>\<open>core/src/api\<close> and \<^verbatim>\<open>web/src/web-client.ts\<close>.
  \<^item> \<^verbatim>\<open>Phase\<close>, \<^verbatim>\<open>Split_Tunnel\<close>, \<^verbatim>\<open>Browser_Routing\<close>, \<^verbatim>\<open>Routing_Stores\<close>: the shown phase, the split matcher and the PAC script,
    the browser's routing with the answers to its requests and challenges, the stores of its record (the locale
    \<^verbatim>\<open>routing_store\<close>) and the settings of \<^verbatim>\<open>leaks.ts\<close>.
  \<^item> \<^verbatim>\<open>Host_Session\<close>, \<^verbatim>\<open>Host_Process\<close>, \<^verbatim>\<open>Proxy_Tunnel\<close>: \<^verbatim>\<open>extension/src/protocol.ts\<close>, \<^verbatim>\<open>host/session.ts\<close>, \<^verbatim>\<open>host/run.ts\<close>,
    \<^verbatim>\<open>core/src/product.ts\<close> and \<^verbatim>\<open>node/src/proxy/tunnel.ts\<close>: the native host and the tunnels it builds.
  \<^item> \<^verbatim>\<open>Browser_Vpn\<close>, \<^verbatim>\<open>Vpn_Balance\<close>, \<^verbatim>\<open>Vpn_Credentials\<close>, \<^verbatim>\<open>Vpn_Runs\<close>: \<^verbatim>\<open>extension/src/client.ts\<close>, its step relation, its two
    invariants, and what they give over runs.
  \<^item> \<^verbatim>\<open>Host_Link\<close>: the extension client and the native host side by side over one port.
  \<^item> \<^verbatim>\<open>Frame_Stream\<close>, \<^verbatim>\<open>Edge\<close>: \<^verbatim>\<open>extension/src/edge.ts\<close>: one frame off a stream, the connection, the bring-up.
  \<^item> \<^verbatim>\<open>Keyring\<close>: \<^verbatim>\<open>extension/src/keyring.ts\<close>.
  \<^item> \<^verbatim>\<open>Vpn_Desk\<close>: \<^verbatim>\<open>examples/vpn-desk/server.mjs\<close>.

  How the code is modelled. A pure function is a function; what may throw returns a sum, with the error on the left. A class
  is a record of its fields. An asynchronous method is cut at its awaits: the call in flight is a value of a datatype, with
  the local variables that outlive the await, and its outcome is an event, so that a run of the class is a list of events
  in any order the runtime may produce, and a run that breaks the rules of the environment is \<^verbatim>\<open>None\<close>. Consecutive awaits
  with no state of the class between them are one. Random draws and clock readings are arguments. Third-party code
  (\<^verbatim>\<open>@noble\<close>, \<^verbatim>\<open>@scure\<close>, WebCrypto, the browser's interfaces, the native addon) is a parameter; what is used of it, such as
  that a cipher opens what it sealed, is a hypothesis of the theorem that needs it, with a concrete instance in the witness.

  What the lemmas show. Each codec has a round trip and its accepted inputs; each verifier has the trust chain that an
  accepted document implies; each transition system has an invariant, preserved by every step, from which the statements
  about runs follow: the books of the token manager, of the VPN client (who holds credentials, what is in flight), of the
  native host (one tunnel, one answer a request), of the desk (no tunnel lost, one pin). \<^verbatim>\<open>Host_Process\<close> and \<^verbatim>\<open>Host_Link\<close>
  compose them: bytes on the standard input reach the session as requests, and the client and the session answer each
  other. Some theorems state that the code does not do what it means to: a disconnect that races a connect, in the native
  host; a lock of the keyring that a pending unlock undoes; a malformed routing record that opens the browser; a transport
  to an edge that nothing closes when its session cannot be created; a varint of more than 64 bits.

  Bounds. No definition runs on fuel: the loops of the source end by a measure given with each (the bytes left, the
  exponent, the remainder, the counter), except the rejection sampling of the blinding factor, which may not end and is a
  partial function; \<^verbatim>\<open>Token.randomCoprime_terminates\<close> says when it does. Integers of the source are
  unbounded where they are \<^verbatim>\<open>bigint\<close>; where they are doubles the bound of exactness is a guard of the code or a hypothesis.

  Not modelled. The entry points only re-export. The Rust crates (the addon and the packaged native host) are another
  language and enter as parameters. The interfaces of \<^verbatim>\<open>core/src/api/dto.ts\<close> describe JSON the client passes on unread. The
  scripts under \<^verbatim>\<open>scripts\<close> and the \<^verbatim>\<open>validate-*.mjs\<close> and \<^verbatim>\<open>install-host.mjs\<close> programs are process and network I/O around the
  packages; the pages of the two examples are user interface. Strings are their UTF-8 bytes, so lone surrogates do not
  occur; \<^verbatim>\<open>toLowerCase\<close> acts on ASCII; timers are events that may come at any time.
\<close>

end
